(* ===== verification/Prelude.thy ===== *)
theory Prelude
  imports Main "HOL-Library.Char_ord" "HOL-Library.List_Lexorder"
begin

section \<open>Prelude: Python results, exceptions and the lemmas the components share\<close>

text \<open>
  The scripts under \<open>scripts/\<close> are Python 2 programs. This theory fixes how their
  effects are read in HOL:
  \<^item> a Python \<open>str\<close> (which is also the type of bytes in Python 2) is a HOL \<open>string\<close>:
    a list of 8-bit characters; \<open>ord\<close> is \<open>ord_c\<close> and \<open>chr\<close> is \<open>chr_c\<close>;
  \<^item> a Python \<open>int\<close> is an \<open>int\<close> (unbounded);
  \<^item> a call that may raise is a value of \<open>pyexc + 'a\<close>: \<open>Inl\<close> the class of the exception,
    \<open>Inr\<close> the result (messages are not modelled);
  \<^item> code that mutates objects passes their state explicitly and returns it with the result,
    also when it raises: the type \<open>('s, 'a) st\<close>;
  \<^item> a loop without a static bound takes fuel; running out of fuel is \<open>Inl NoFuel\<close>, which no
    Python code raises, so that a theorem can say that the code does return.
\<close>

named_theorems exc_simps \<open>equations of the exception and state combinators\<close>
named_theorems char_simps \<open>characters as numbers\<close>

subsection \<open>Exceptions\<close>

datatype pyexc =
    ConstructError | FieldError | SizeofError | AdaptationError | ArrayError
  | RangeError | SwitchError | SelectError | TerminatorError
  | BitIntegerError | MappingError | ConstError | ValidationError | PaddingError
  | ELFError | ELFParseError | ELFRelocationError | DWARFError
  | CyclicIncludeError | ScanParseError | SemaError | GraphSyntaxError | CrossCheckError
  | ValueError | TypeError | KeyError | IndexError | AttributeError | AssertionError
  | StopIteration | NotImplementedError | NameError | UnboundLocalError | IOError
  | StructError | RuntimeError | ZeroDivisionError | NoFuel

subsection \<open>Results that may be an exception\<close>

definition ebind :: "pyexc + 'a \<Rightarrow> ('a \<Rightarrow> pyexc + 'b) \<Rightarrow> pyexc + 'b" where
  "ebind r f = (case r of Inl e \<Rightarrow> Inl e | Inr x \<Rightarrow> f x)"

lemma ebind_simps [simp, exc_simps]:
  "ebind (Inl e) f = Inl e"
  "ebind (Inr x) f = f x"
  by (simp_all add: ebind_def)

lemma ebind_Inr_iff: "ebind r f = Inr y \<longleftrightarrow> (\<exists>x. r = Inr x \<and> f x = Inr y)"
  by (cases r) auto

lemma ebind_Inl_iff: "ebind r f = Inl e \<longleftrightarrow> r = Inl e \<or> (\<exists>x. r = Inr x \<and> f x = Inl e)"
  by (cases r) auto

lemma ebind_cong [fundef_cong]:
  "r = r' \<Longrightarrow> (\<And>x. r' = Inr x \<Longrightarrow> f x = f' x) \<Longrightarrow> ebind r f = ebind r' f'"
  by (cases r') auto

fun emap_list :: "('a \<Rightarrow> pyexc + 'b) \<Rightarrow> 'a list \<Rightarrow> pyexc + 'b list" where
  "emap_list f [] = Inr []"
| "emap_list f (x # xs) = ebind (f x) (\<lambda>y. ebind (emap_list f xs) (\<lambda>ys. Inr (y # ys)))"

lemma emap_list_Inr: "(\<And>x. x \<in> set xs \<Longrightarrow> f x = Inr (g x)) \<Longrightarrow> emap_list f xs = Inr (map g xs)"
  by (induction xs) auto

lemma emap_list_length: "emap_list f xs = Inr ys \<Longrightarrow> length ys = length xs"
  by (induction xs arbitrary: ys) (auto simp: ebind_Inr_iff)

subsection \<open>State with exceptions\<close>

type_synonym ('s, 'a) st = "'s \<Rightarrow> (pyexc + 'a) \<times> 's"

definition sret :: "'a \<Rightarrow> ('s, 'a) st" where
  "sret x = (\<lambda>s. (Inr x, s))"

definition sraise :: "pyexc \<Rightarrow> ('s, 'a) st" where
  "sraise e = (\<lambda>s. (Inl e, s))"

definition slift :: "pyexc + 'a \<Rightarrow> ('s, 'a) st" where
  "slift r = (\<lambda>s. (r, s))"

definition sbind :: "('s, 'a) st \<Rightarrow> ('a \<Rightarrow> ('s, 'b) st) \<Rightarrow> ('s, 'b) st" where
  "sbind m f = (\<lambda>s. case m s of (Inl e, s') \<Rightarrow> (Inl e, s') | (Inr x, s') \<Rightarrow> f x s')"

text \<open>\<open>try: m  except p: handler\<close>: the state the body left behind is what the handler sees.\<close>

definition scatch :: "('s, 'a) st \<Rightarrow> (pyexc \<Rightarrow> bool) \<Rightarrow> (pyexc \<Rightarrow> ('s, 'a) st) \<Rightarrow> ('s, 'a) st" where
  "scatch m p h = (\<lambda>s. case m s of
     (Inl e, s') \<Rightarrow> if p e then h e s' else (Inl e, s')
   | (Inr x, s') \<Rightarrow> (Inr x, s'))"

lemma sret_apply [simp, exc_simps]: "sret x s = (Inr x, s)"
  by (simp add: sret_def)

lemma sraise_apply [simp, exc_simps]: "sraise e s = (Inl e, s)"
  by (simp add: sraise_def)

lemma slift_apply [simp, exc_simps]: "slift r s = (r, s)"
  by (simp add: slift_def)

lemma sbind_apply: "sbind m f s =
    (case m s of (Inl e, s') \<Rightarrow> (Inl e, s') | (Inr x, s') \<Rightarrow> f x s')"
  by (simp add: sbind_def)

lemma sbind_Inr [simp, exc_simps]: "m s = (Inr x, s') \<Longrightarrow> sbind m f s = f x s'"
  by (simp add: sbind_def)

lemma sbind_Inl [simp, exc_simps]: "m s = (Inl e, s') \<Longrightarrow> sbind m f s = (Inl e, s')"
  by (simp add: sbind_def)

lemma sbind_eq_Inr: "sbind m f s = (Inr y, s'') \<longleftrightarrow>
    (\<exists>x s'. m s = (Inr x, s') \<and> f x s' = (Inr y, s''))"
  by (auto simp: sbind_def split: prod.splits sum.splits)

lemma sbind_eq_Inl: "sbind m f s = (Inl e, s'') \<longleftrightarrow>
    m s = (Inl e, s'') \<or> (\<exists>x s'. m s = (Inr x, s') \<and> f x s' = (Inl e, s''))"
  by (auto simp: sbind_def split: prod.splits sum.splits)

lemma sbind_assoc: "sbind (sbind m f) g = sbind m (\<lambda>x. sbind (f x) g)"
  by (rule ext) (simp add: sbind_def split: prod.split sum.split)

lemma sbind_sret: "sbind (sret x) f = f x" "sbind (slift (Inr x)) f = f x"
  by (rule ext, simp)+

lemma scatch_Inr [simp, exc_simps]: "m s = (Inr x, s') \<Longrightarrow> scatch m p h s = (Inr x, s')"
  by (simp add: scatch_def)

lemma scatch_Inl [simp, exc_simps]:
  "m s = (Inl e, s') \<Longrightarrow> scatch m p h s = (if p e then h e s' else (Inl e, s'))"
  by (simp add: scatch_def)

lemma scatch_eq_Inr: "scatch m p h s = (Inr y, s'') \<longleftrightarrow>
    m s = (Inr y, s'') \<or> (\<exists>e s'. m s = (Inl e, s') \<and> p e \<and> h e s' = (Inr y, s''))"
  by (auto simp: scatch_def split: prod.splits sum.splits if_splits)

lemma scatch_eq_Inl: "scatch m p h s = (Inl x, s'') \<longleftrightarrow>
    (\<exists>e s'. m s = (Inl e, s') \<and> (if p e then h e s' = (Inl x, s'') else x = e \<and> s'' = s'))"
  by (auto simp: scatch_def split: prod.splits sum.splits if_splits)

text \<open>
  \<open>st_ok R m s\<close>: running \<open>m\<close> in \<open>s\<close> does not run out of fuel, and relates \<open>s\<close> to the state
  it leaves, whether it returns or raises. The combinators keep it for every transitive \<open>R\<close>.
\<close>

definition st_ok :: "('s \<Rightarrow> 's \<Rightarrow> bool) \<Rightarrow> ('s, 'a) st \<Rightarrow> 's \<Rightarrow> bool" where
  "st_ok R m s = (fst (m s) \<noteq> Inl NoFuel \<and> R s (snd (m s)))"

named_theorems st_ok_intros \<open>introduction rules for \<open>st_ok\<close>\<close>

lemma st_okD: "st_ok R m s \<Longrightarrow> m s = (r, s') \<Longrightarrow> r \<noteq> Inl NoFuel \<and> R s s'"
  by (simp add: st_ok_def)

lemma st_ok_sret [st_ok_intros]: "reflp R \<Longrightarrow> st_ok R (sret x) s"
  by (simp add: st_ok_def reflp_def)

lemma st_ok_sraise [st_ok_intros]: "reflp R \<Longrightarrow> e \<noteq> NoFuel \<Longrightarrow> st_ok R (sraise e) s"
  by (simp add: st_ok_def reflp_def)

lemma st_ok_slift [st_ok_intros]: "reflp R \<Longrightarrow> r \<noteq> Inl NoFuel \<Longrightarrow> st_ok R (slift r) s"
  by (simp add: st_ok_def reflp_def)

lemma st_ok_sbind [st_ok_intros]:
  assumes "transp R" "st_ok R m s"
    and "\<And>x s'. m s = (Inr x, s') \<Longrightarrow> R s s' \<Longrightarrow> st_ok R (f x) s'"
  shows "st_ok R (sbind m f) s"
proof -
  obtain r s' where ms: "m s = (r, s')" by fastforce
  with assms(2) have s': "r \<noteq> Inl NoFuel" "R s s'" by (auto simp: st_ok_def)
  show ?thesis
  proof (cases r)
    case (Inl e)
    then show ?thesis using ms s' by (simp add: st_ok_def sbind_def)
  next
    case (Inr x)
    with assms(3) ms s' have "st_ok R (f x) s'" by simp
    with \<open>R s s'\<close> \<open>transp R\<close> have "fst (f x s') \<noteq> Inl NoFuel" "R s (snd (f x s'))"
      by (auto simp: st_ok_def dest: transpD)
    then show ?thesis using ms Inr by (simp add: st_ok_def sbind_def)
  qed
qed

lemma st_ok_scatch [st_ok_intros]:
  assumes "transp R" "st_ok R m s"
    and "\<And>e s'. m s = (Inl e, s') \<Longrightarrow> R s s' \<Longrightarrow> p e \<Longrightarrow> st_ok R (h e) s'"
  shows "st_ok R (scatch m p h) s"
proof -
  obtain r s' where ms: "m s = (r, s')" by fastforce
  with assms(2) have s': "r \<noteq> Inl NoFuel" "R s s'" by (auto simp: st_ok_def)
  show ?thesis
  proof (cases r)
    case (Inr x)
    then show ?thesis using ms s' by (simp add: st_ok_def scatch_def)
  next
    case (Inl e)
    show ?thesis
    proof (cases "p e")
      case False
      then show ?thesis using ms s' Inl by (simp add: st_ok_def scatch_def)
    next
      case True
      with assms(3) ms s' Inl have "st_ok R (h e) s'" by simp
      with \<open>R s s'\<close> \<open>transp R\<close> have "fst (h e s') \<noteq> Inl NoFuel" "R s (snd (h e s'))"
        by (auto simp: st_ok_def dest: transpD)
      then show ?thesis using ms Inl True by (simp add: st_ok_def scatch_def)
    qed
  qed
qed

subsection \<open>Characters as numbers\<close>

definition ord_c :: "char \<Rightarrow> int" where
  "ord_c c = of_char c"

definition chr_c :: "int \<Rightarrow> char" where
  "chr_c n = char_of n"

lemma ord_c_bounds [simp, char_simps]: "0 \<le> ord_c c" "ord_c c < 256"
proof -
  have "(of_char c :: int) = of_char c mod 256" by simp
  then show "0 \<le> ord_c c" "ord_c c < 256"
    unfolding ord_c_def by (metis pos_mod_sign pos_mod_bound zero_less_numeral)+
qed

lemma nat_ord_c_less [simp]: "nat (ord_c c) < 256" "\<not> 256 \<le> nat (ord_c c)"
  using ord_c_bounds [of c] by linarith+

lemma chr_ord [simp, char_simps]: "chr_c (ord_c c) = c"
  by (simp add: chr_c_def ord_c_def)

lemma ord_chr [char_simps]: "ord_c (chr_c n) = n mod 256"
  by (simp add: chr_c_def ord_c_def)

lemma ord_chr_id [simp]: "0 \<le> n \<Longrightarrow> n < 256 \<Longrightarrow> ord_c (chr_c n) = n"
  by (simp add: ord_chr)

lemma ord_c_inject [simp]: "ord_c a = ord_c b \<longleftrightarrow> a = b"
  by (metis chr_ord)

lemma ord_c_pos: "c \<noteq> CHR 0x00 \<Longrightarrow> 0 < ord_c c"
proof -
  assume "c \<noteq> CHR 0x00"
  then have "ord_c c \<noteq> ord_c (CHR 0x00)" by auto
  moreover have "ord_c (CHR 0x00) = 0" by (simp add: ord_c_def)
  ultimately show ?thesis using ord_c_bounds(1) [of c] by linarith
qed

subsection \<open>Lists\<close>

text \<open>Python indexing with an \<open>int\<close>: negative indices count from the end.\<close>

definition py_index :: "'a list \<Rightarrow> int \<Rightarrow> pyexc + 'a" where
  "py_index xs i =
     (let j = (if i < 0 then i + int (length xs) else i)
      in if 0 \<le> j \<and> j < int (length xs) then Inr (xs ! nat j) else Inl IndexError)"

lemma py_index_nat [simp]: "n < length xs \<Longrightarrow> py_index xs (int n) = Inr (xs ! n)"
  by (simp add: py_index_def)

lemma py_index_beyond: "length xs \<le> n \<Longrightarrow> py_index xs (int n) = Inl IndexError"
  by (simp add: py_index_def)

text \<open>\<open>s.split(c)\<close> for a one-character separator, on lists of anything, and its inverse \<open>join\<close>.\<close>

fun split_on :: "'a \<Rightarrow> 'a list \<Rightarrow> 'a list list" where
  "split_on a [] = [[]]"
| "split_on a (x # xs) =
     (if x = a then [] # split_on a xs
      else (x # hd (split_on a xs)) # tl (split_on a xs))"

fun join_with :: "'a list \<Rightarrow> 'a list list \<Rightarrow> 'a list" where
  "join_with sep [] = []"
| "join_with sep [w] = w"
| "join_with sep (w # v # ws) = w @ sep @ join_with sep (v # ws)"

lemma split_on_nonempty [simp]: "split_on a w \<noteq> []"
  by (induction w) auto

lemma join_split_on: "join_with [a] (split_on a w) = w"
proof (induction w)
  case (Cons x w)
  then show ?case by (cases "split_on a w"; cases "tl (split_on a w)") auto
qed simp

lemma split_on_notin: "s \<in> set (split_on a w) \<Longrightarrow> a \<notin> set s"
proof (induction w arbitrary: s)
  case (Cons x w)
  have "hd (split_on a w) \<in> set (split_on a w)" by simp
  moreover have "t \<in> set (tl (split_on a w)) \<Longrightarrow> t \<in> set (split_on a w)" for t
    by (cases "split_on a w") auto
  ultimately show ?case using Cons by (auto split: if_splits)
qed simp

lemma split_on_set: "s \<in> set (split_on a w) \<Longrightarrow> set s \<subseteq> set w"
proof (induction w arbitrary: s)
  case (Cons x w)
  have "hd (split_on a w) \<in> set (split_on a w)" by simp
  moreover have "t \<in> set (tl (split_on a w)) \<Longrightarrow> t \<in> set (split_on a w)" for t
    by (cases "split_on a w") auto
  ultimately have "s = [] \<or> s = x # hd (split_on a w) \<and> set (hd (split_on a w)) \<subseteq> set w \<or> set s \<subseteq> set w"
    using Cons by (auto split: if_splits)
  then show ?case by auto
qed simp

lemma split_on_free: "a \<notin> set w \<Longrightarrow> split_on a w = [w]"
  by (induction w) auto

lemma split_on_append: "split_on a (u @ a # v) = split_on a u @ split_on a v"
  by (induction u) auto

lemma split_on_join:
  "ws \<noteq> [] \<Longrightarrow> (\<And>w. w \<in> set ws \<Longrightarrow> a \<notin> set w) \<Longrightarrow> split_on a (join_with [a] ws) = ws"
  by (induction "[a]" ws rule: join_with.induct) (auto simp: split_on_free split_on_append)

lemma join_with_append:
  "S \<noteq> [] \<Longrightarrow> T \<noteq> [] \<Longrightarrow> join_with sep (S @ T) = join_with sep S @ sep @ join_with sep T"
proof (induction sep S rule: join_with.induct)
  case (2 sep w)
  then show ?case by (cases T) auto
qed auto

lemma length_join_bound:
  "(\<And>s. s \<in> set S \<Longrightarrow> length s \<le> B) \<Longrightarrow> length (join_with [a] S) \<le> length S * Suc B"
proof (induction "[a]" S rule: join_with.induct)
  case (3 w v ws)
  then have "length (join_with [a] (v # ws)) \<le> length (v # ws) * Suc B" "length w \<le> B" by auto
  then show ?case by simp
qed auto

subsection \<open>White space\<close>

text \<open>The class \<open>\s\<close> of \<open>re\<close>, and \<open>str.strip()\<close>.\<close>

definition is_space :: "char \<Rightarrow> bool" where
  "is_space c = (c \<in> {CHR '' '', CHR 0x09, CHR 0x0A, CHR 0x0B, CHR 0x0C, CHR 0x0D})"

definition strip :: "string \<Rightarrow> string" where
  "strip s = rev (dropWhile is_space (rev (dropWhile is_space s)))"

abbreviation nl_c :: char where "nl_c \<equiv> CHR 0x0A"

subsection \<open>Dictionaries in insertion order\<close>

text \<open>
  A \<open>dict\<close> whose contents are enumerated is an association list; storing an existing key
  keeps its place.
\<close>

fun dict_set :: "'k \<Rightarrow> 'v \<Rightarrow> ('k \<times> 'v) list \<Rightarrow> ('k \<times> 'v) list" where
  "dict_set k v [] = [(k, v)]"
| "dict_set k v ((a, b) # ps) = (if a = k then (k, v) # ps else (a, b) # dict_set k v ps)"

fun dict_del :: "'k \<Rightarrow> ('k \<times> 'v) list \<Rightarrow> ('k \<times> 'v) list" where
  "dict_del k [] = []"
| "dict_del k ((a, b) # ps) = (if a = k then ps else (a, b) # dict_del k ps)"

definition dict_get :: "('k \<times> 'v) list \<Rightarrow> 'k \<Rightarrow> pyexc + 'v" where
  "dict_get d k = (case map_of d k of None \<Rightarrow> Inl KeyError | Some v \<Rightarrow> Inr v)"

lemma map_of_dict_set [simp]: "map_of (dict_set k v d) = (map_of d)(k \<mapsto> v)"
  by (induction k v d rule: dict_set.induct) auto

lemma keys_dict_set [simp]: "fst ` set (dict_set k v d) = insert k (fst ` set d)"
  by (induction k v d rule: dict_set.induct) auto

lemma distinct_dict_set [simp]: "distinct (map fst d) \<Longrightarrow> distinct (map fst (dict_set k v d))"
  by (induction k v d rule: dict_set.induct) auto

lemma map_of_dict_del [simp]:
  "distinct (map fst d) \<Longrightarrow> map_of (dict_del k d) = (map_of d)(k := None)"
proof (induction k d rule: dict_del.induct)
  case (2 k a b ps)
  then show ?case
    by (auto simp: fun_eq_iff map_of_eq_None_iff)
qed auto

lemma set_dict_del: "set (dict_del k d) \<subseteq> set d"
  by (induction k d rule: dict_del.induct) auto

lemma distinct_dict_del [simp]: "distinct (map fst d) \<Longrightarrow> distinct (map fst (dict_del k d))"
proof (induction k d rule: dict_del.induct)
  case (2 k a b ps)
  then show ?case using set_dict_del [of k ps] by (auto dest!: subsetD)
qed simp

lemma dict_set_fresh: "k \<notin> fst ` set d \<Longrightarrow> dict_set k v d = d @ [(k, v)]"
  by (induction k v d rule: dict_set.induct) auto

end
