(* ===== verification/Scantable.thy ===== *)
theory Scantable
  imports Prelude
begin

section \<open>The scancode table compiler (\<open>scripts/scantable.py\<close>)\<close>

text \<open>
  \<open>ScanTable\<close> lexes a scantable file (with \<open>include\<close>), parses it line by line into five
  lookup tables and a flag table, and compresses each table into the array that the C routine
  \<open>lookup_scantable\<close> walks. The lexer's regular expressions are functions that return the
  length of the match at the head of the input; the alternatives are tried in the source's
  order, as \<open>re.Scanner\<close> does. The file system is an association list from names to contents.
\<close>

unbundle bit_operations_syntax

subsection \<open>The lexer\<close>

datatype tok_kind =
    NEWLINE | STRING | FLAG | SHIFT | CAPS | CTRL | ALT | ESC | NUMLOCK | INCLUDE
  | SCANCODE | LPAREN | RPAREN | WHITESPACE

type_synonym token = "tok_kind \<times> string"
type_synonym filesystem = "(string \<times> string) list"

definition is_upper :: "char \<Rightarrow> bool" where
  "is_upper c = (65 \<le> ord_c c \<and> ord_c c \<le> 90)"

definition is_digit :: "char \<Rightarrow> bool" where
  "is_digit c = (48 \<le> ord_c c \<and> ord_c c \<le> 57)"

definition hex_val :: "char \<Rightarrow> nat option" where
  "hex_val c =
     (if 48 \<le> ord_c c \<and> ord_c c \<le> 57 then Some (nat (ord_c c - 48))
      else if 97 \<le> ord_c c \<and> ord_c c \<le> 102 then Some (nat (ord_c c - 87))
      else if 65 \<le> ord_c c \<and> ord_c c \<le> 70 then Some (nat (ord_c c - 55))
      else None)"

definition is_hex :: "char \<Rightarrow> bool" where
  "is_hex c = (hex_val c \<noteq> None)"

text \<open>Each pattern of the scanner: the length of its match at the head of the input.\<close>

fun match_comment :: "string \<Rightarrow> nat option" where
  "match_comment [] = None"
| "match_comment (c # r) =
     (let body = takeWhile (\<lambda>x. x \<noteq> nl_c) r
      in if c = CHR ''#'' \<and> length body < length r then Some (length body + 2) else None)"

fun match_quoted :: "char \<Rightarrow> string \<Rightarrow> nat option" where
  "match_quoted q [] = None"
| "match_quoted q (c # r) =
     (let body = takeWhile (\<lambda>x. x \<noteq> q) r
      in if c = q \<and> length body < length r then Some (length body + 2) else None)"

fun match_flag :: "string \<Rightarrow> nat option" where
  "match_flag [] = None"
| "match_flag (c # r) =
     (if is_upper c then Some (Suc (length (takeWhile (\<lambda>x. is_upper x \<or> is_digit x) r))) else None)"

definition match_lit :: "string \<Rightarrow> string \<Rightarrow> nat option" where
  "match_lit w s = (if take (length w) s = w then Some (length w) else None)"

fun match_scancode :: "string \<Rightarrow> nat option" where
  "match_scancode (a # b # r) = (if is_hex a \<and> is_hex b then Some 2 else None)"
| "match_scancode _ = None"

definition match_space :: "string \<Rightarrow> nat option" where
  "match_space s = (let n = length (takeWhile is_space s) in if n = 0 then None else Some n)"

definition scanner :: "(tok_kind \<times> (string \<Rightarrow> nat option)) list" where
  "scanner =
     [(NEWLINE, match_comment),
      (STRING, match_quoted (CHR 0x27)),
      (STRING, match_quoted (CHR 0x22)),
      (FLAG, match_flag),
      (SHIFT, match_lit ''shift''),
      (CAPS, match_lit ''caps''),
      (CTRL, match_lit ''ctrl''),
      (ALT, match_lit ''alt''),
      (ESC, match_lit ''esc''),
      (NUMLOCK, match_lit ''numlock''),
      (INCLUDE, match_lit ''include''),
      (SCANCODE, match_scancode),
      (LPAREN, match_lit ''(''),
      (RPAREN, match_lit '')''),
      (NEWLINE, match_lit [nl_c]),
      (WHITESPACE, match_space)]"

fun first_match :: "(tok_kind \<times> (string \<Rightarrow> nat option)) list \<Rightarrow> string \<Rightarrow> (tok_kind \<times> nat) option" where
  "first_match [] s = None"
| "first_match ((k, m) # rules) s =
     (case m s of Some n \<Rightarrow> Some (k, n) | None \<Rightarrow> first_match rules s)"

text \<open>\<open>re.Scanner.scan\<close>: stop at the first position where nothing matches (or nothing is consumed).\<close>

function scan :: "string \<Rightarrow> token list \<times> string" where
  "scan s =
     (case first_match scanner s of
        None \<Rightarrow> ([], s)
      | Some (k, n) \<Rightarrow>
          if n = 0 \<or> length s < n then ([], s)
          else (let (ts, r) = scan (drop n s) in ((k, take n s) # ts, r)))"
  by pat_completeness auto
termination by (relation "measure length") auto

declare scan.simps [simp del]

text \<open>\<open>_scan\<close>: the set of files already scanned is the state.\<close>

definition scan_file :: "filesystem \<Rightarrow> string \<Rightarrow> (string set, token list \<times> string) st" where
  "scan_file fs fname = (\<lambda>scanned.
     if fname \<in> scanned then (Inl CyclicIncludeError, scanned)
     else (case map_of fs fname of
             None \<Rightarrow> (Inl IOError, insert fname scanned)
           | Some s \<Rightarrow> (Inr (scan s), insert fname scanned)))"

text \<open>The loop over \<open>tok_queue\<close>; \<open>inc\<close> is the recursive call of \<open>_lex\<close>.\<close>

fun lex_queue :: "(string \<Rightarrow> (string set, token list) st) \<Rightarrow> token list \<Rightarrow> (string set, token list) st" where
  "lex_queue inc [] = sret []"
| "lex_queue inc [tok] =
     (if fst tok \<noteq> INCLUDE then sret [tok] else sraise IndexError)"
| "lex_queue inc (tok # tok2 # q) =
     (if fst tok \<noteq> INCLUDE then
        sbind (lex_queue inc (tok2 # q)) (\<lambda>ts. sret (tok # ts))
      else if fst tok2 \<noteq> STRING then sraise ScanParseError
      else sbind (inc (butlast (tl (snd tok2))))
             (\<lambda>ts1. sbind (lex_queue inc q) (\<lambda>ts2. sret (ts1 @ ts2))))"

fun lex_file :: "nat \<Rightarrow> filesystem \<Rightarrow> string \<Rightarrow> (string set, token list) st" where
  "lex_file 0 fs fname = sraise NoFuel"
| "lex_file (Suc n) fs fname =
     sbind (scan_file fs fname)
       (\<lambda>(tokens, remainder).
          if remainder \<noteq> [] then sraise ScanParseError
          else lex_queue (lex_file n fs) (filter (\<lambda>t. fst t \<noteq> WHITESPACE) tokens))"

text \<open>\<open>lex\<close> on a fresh \<open>ScanTable\<close>; the fuel bounds the depth of the includes.\<close>

definition lex :: "filesystem \<Rightarrow> string \<Rightarrow> pyexc + token list" where
  "lex fs fname = fst (lex_file (Suc (length fs)) fs fname {})"

subsection \<open>The parser\<close>

text \<open>\<open>str.decode('string_escape')\<close>.\<close>

definition escape_char :: "char \<Rightarrow> char option" where
  "escape_char c = map_of
     [(CHR 0x5C, CHR 0x5C), (CHR 0x27, CHR 0x27), (CHR 0x22, CHR 0x22), (CHR ''b'', CHR 0x08),
      (CHR ''f'', CHR 0x0C), (CHR ''t'', CHR 0x09), (CHR ''n'', CHR 0x0A), (CHR ''r'', CHR 0x0D),
      (CHR ''v'', CHR 0x0B), (CHR ''a'', CHR 0x07)] c"

definition is_octal :: "char \<Rightarrow> bool" where
  "is_octal c = (48 \<le> ord_c c \<and> ord_c c \<le> 55)"

definition octal_val :: "string \<Rightarrow> int" where
  "octal_val ds = foldl (\<lambda>v c. 8 * v + (ord_c c - 48)) 0 ds"

function string_escape :: "string \<Rightarrow> pyexc + string" where
  "string_escape [] = Inr []"
| "string_escape (c # r) =
     (if c \<noteq> CHR 0x5C then ebind (string_escape r) (\<lambda>t. Inr (c # t))
      else (case r of
        [] \<Rightarrow> Inl ValueError
      | d # r' \<Rightarrow>
          if d = nl_c then string_escape r'
          else (case escape_char d of
            Some e \<Rightarrow> ebind (string_escape r') (\<lambda>t. Inr (e # t))
          | None \<Rightarrow>
              if is_octal d then
                (let ds = takeWhile is_octal (take 3 r)
                 in ebind (string_escape (drop (length ds) r)) (\<lambda>t. Inr (chr_c (octal_val ds) # t)))
              else if d = CHR ''x'' then
                (case r' of
                   a # b # r'' \<Rightarrow>
                     (case (hex_val a, hex_val b) of
                        (Some h, Some l) \<Rightarrow>
                          ebind (string_escape r'') (\<lambda>t. Inr (chr_c (int (16 * h + l)) # t))
                      | _ \<Rightarrow> Inl ValueError)
                 | _ \<Rightarrow> Inl ValueError)
              else ebind (string_escape r') (\<lambda>t. Inr (c # d # t)))))"
  by pat_completeness auto
termination
  by (relation "measure length") auto

type_synonym modifier = "tok_kind option"

text \<open>The local class \<open>State\<close> of \<open>parse\<close>: what one line has defined so far.\<close>

record token_state =
  ls_scancode :: "nat option"
  ls_entries :: "(modifier \<times> string) list"
  ls_flags :: "string list"
  ls_cur_modifier :: modifier
  ls_escape :: bool

definition new_state :: token_state where
  "new_state = \<lparr>ls_scancode = None, ls_entries = [], ls_flags = [], ls_cur_modifier = None,
                ls_escape = False\<rparr>"

record scan_tables =
  st_tables :: "modifier \<Rightarrow> nat \<Rightarrow> string option"
  st_flags :: "(nat \<times> string list) list"
  st_known_flags :: "string list"

definition empty_tables :: scan_tables where
  "empty_tables = \<lparr>st_tables = (\<lambda>_ _. None), st_flags = [], st_known_flags = []\<rparr>"

text \<open>\<open>State.enter\<close>.\<close>

definition enter_state :: "token_state \<Rightarrow> scan_tables \<Rightarrow> pyexc + scan_tables" where
  "enter_state st T =
     (case ls_scancode st of
        None \<Rightarrow> Inr T
      | Some sc0 \<Rightarrow>
          if ls_entries st \<noteq> [] \<and> ls_flags st \<noteq> [] then Inl SemaError
          else (let sc = (if ls_escape st then sc0 OR 0x80 else sc0);
                    T1 = T\<lparr>st_tables := foldl (\<lambda>tb (k, v). tb(k := (tb k)(sc \<mapsto> v)))
                                          (st_tables T) (ls_entries st)\<rparr>
                in Inr (if ls_flags st \<noteq> [] then
                          T1\<lparr>st_flags := dict_set sc (ls_flags st) (st_flags T1),
                             st_known_flags := List.union (ls_flags st) (st_known_flags T1)\<rparr>
                        else T1)))"

text \<open>One token of the loop in \<open>parse\<close>.\<close>

definition hex2 :: "string \<Rightarrow> nat" where
  "hex2 s = foldl (\<lambda>v c. 16 * v + (case hex_val c of Some d \<Rightarrow> d | None \<Rightarrow> 0)) 0 s"

definition parse_token :: "token \<Rightarrow> token_state \<times> scan_tables \<Rightarrow> pyexc + token_state \<times> scan_tables" where
  "parse_token tok sT =
     (case sT of (st, T) \<Rightarrow>
       (case fst tok of
          WHITESPACE \<Rightarrow> Inr (st, T)
        | NEWLINE \<Rightarrow> ebind (enter_state st T) (\<lambda>T'. Inr (new_state, T'))
        | SCANCODE \<Rightarrow> Inr (st\<lparr>ls_scancode := Some (hex2 (snd tok))\<rparr>, T)
        | STRING \<Rightarrow>
            (let s = butlast (tl (snd tok)) in
             if s = [] then (if ls_scancode st = None then Inl TypeError else Inl SemaError)
             else ebind (string_escape s)
                    (\<lambda>v. Inr (st\<lparr>ls_entries := dict_set (ls_cur_modifier st) v (ls_entries st),
                                 ls_cur_modifier := None\<rparr>, T)))
        | SHIFT \<Rightarrow> Inr (st\<lparr>ls_cur_modifier := Some SHIFT\<rparr>, T)
        | CAPS \<Rightarrow> Inr (st\<lparr>ls_cur_modifier := Some CAPS\<rparr>, T)
        | NUMLOCK \<Rightarrow> Inr (st\<lparr>ls_cur_modifier := Some NUMLOCK\<rparr>, T)
        | CTRL \<Rightarrow> Inr (st\<lparr>ls_cur_modifier := Some CTRL\<rparr>, T)
        | FLAG \<Rightarrow> Inr (st\<lparr>ls_flags := List.insert (snd tok) (ls_flags st)\<rparr>, T)
        | ESC \<Rightarrow> Inr (st\<lparr>ls_escape := True\<rparr>, T)
        | _ \<Rightarrow> Inr (st, T)))"

fun parse_tokens :: "token list \<Rightarrow> token_state \<times> scan_tables \<Rightarrow> pyexc + scan_tables" where
  "parse_tokens [] (st, T) = enter_state st T"
| "parse_tokens (tok # toks) sT = ebind (parse_token tok sT) (parse_tokens toks)"

definition parse_scantable :: "filesystem \<Rightarrow> string \<Rightarrow> pyexc + scan_tables" where
  "parse_scantable fs fname =
     ebind (lex fs fname) (\<lambda>toks. parse_tokens toks (new_state, empty_tables))"

subsection \<open>Table generation and lookup\<close>

text \<open>\<open>_c_string_at\<close>; \<open>chr\<close> rejects numbers above 255.\<close>

function c_string_at :: "nat list \<Rightarrow> nat \<Rightarrow> pyexc + string" where
  "c_string_at table idx =
     (if length table \<le> idx then Inl IndexError
      else if table ! idx = 0 then Inr []
      else if 256 \<le> table ! idx then Inl ValueError
      else ebind (c_string_at table (Suc idx)) (\<lambda>s. Inr (chr_c (int (table ! idx)) # s)))"
  by pat_completeness auto
termination by (relation "measure (\<lambda>(t, i). length t - i)") auto

declare c_string_at.simps [simp del]

function lookup_loop :: "nat list \<Rightarrow> nat \<Rightarrow> nat \<Rightarrow> nat \<Rightarrow> pyexc + string option" where
  "lookup_loop table n i idx =
     (if idx < length table then
        (if table ! idx = 0 then
           (if Suc idx < length table then
              (if n < i + table ! Suc idx then Inr None
               else lookup_loop table n (i + table ! Suc idx) (idx + 2))
            else Inl IndexError)
         else ebind (c_string_at table idx)
                (\<lambda>s. if i = n then Inr (Some s)
                     else lookup_loop table n (Suc i) (idx + length s + 1)))
      else Inr None)"
  by pat_completeness auto
termination by (relation "measure (\<lambda>(t, n, i, idx). length t - idx)") auto

declare lookup_loop.simps [simp del]

definition lookup_table :: "nat list \<Rightarrow> nat \<Rightarrow> pyexc + string option" where
  "lookup_table table n = lookup_loop table n 0 0"

function how_many_zeroes :: "(nat \<Rightarrow> string option) \<Rightarrow> nat \<Rightarrow> nat" where
  "how_many_zeroes table i =
     (if table i = None \<and> i < 256 then Suc (how_many_zeroes table (Suc i)) else 0)"
  by pat_completeness auto
termination by (relation "measure (\<lambda>(t, i). 256 - i)") auto

declare how_many_zeroes.simps [simp del]

function generate_loop :: "(nat \<Rightarrow> string option) \<Rightarrow> nat \<Rightarrow> nat list" where
  "generate_loop table i =
     (if i < 256 then
        (case table i of
           None \<Rightarrow>
             (let n = how_many_zeroes table i
              in if n = 0 then [] else [0, n] @ generate_loop table (i + n))
         | Some s \<Rightarrow> map (\<lambda>c. nat (ord_c c)) s @ [0] @ generate_loop table (Suc i))
      else [])"
  by pat_completeness auto
termination by (relation "measure (\<lambda>(t, i). 256 - i)") auto

declare generate_loop.simps [simp del]

definition generate_table :: "(nat \<Rightarrow> string option) \<Rightarrow> pyexc + nat list" where
  "generate_table table =
     (let t = generate_loop table 0
      in if list_all (\<lambda>num. num < 256) t then Inr t else Inl AssertionError)"

definition generate_flags_map :: "string list \<Rightarrow> pyexc + (string \<times> nat) list" where
  "generate_flags_map flags =
     (if length flags < 32 then Inr (zip (sort flags) [0..<length flags]) else Inl AssertionError)"

text \<open>The value of one row: \<open>v |= 1 << flag_map[f]\<close> for every flag of the scancode.\<close>

fun flags_value :: "(string \<times> nat) list \<Rightarrow> string list \<Rightarrow> nat \<Rightarrow> pyexc + nat" where
  "flags_value fm [] v = Inr v"
| "flags_value fm (f # fs) v =
     ebind (dict_get fm f) (\<lambda>b. flags_value fm fs (v OR push_bit b 1))"

fun flags_rows :: "(string \<times> nat) list \<Rightarrow> (nat \<times> string list) list \<Rightarrow> nat list \<Rightarrow> pyexc + nat list" where
  "flags_rows fm [] t = Inr t"
| "flags_rows fm ((k, fs) # rows) t =
     ebind (flags_value fm fs 0)
       (\<lambda>v. if k < length t then flags_rows fm rows (t[k := v]) else Inl IndexError)"

definition generate_flags_table ::
    "(nat \<times> string list) list \<Rightarrow> (string \<times> nat) list \<Rightarrow> pyexc + nat list" where
  "generate_flags_table table fm = flags_rows fm table (replicate 256 0)"

text \<open>
  What \<open>generate_c\<close> prints, without the layout of the text: the flag map, the flag table and
  the array of every table, in the order \<open>ks\<close> in which the dictionary lists its keys.
\<close>

definition all_modifiers :: "modifier list" where
  "all_modifiers = [None, Some SHIFT, Some CAPS, Some NUMLOCK, Some CTRL]"

definition generate_c :: "modifier list \<Rightarrow> scan_tables \<Rightarrow>
    pyexc + (string \<times> nat) list \<times> nat list \<times> (modifier \<times> nat list) list" where
  "generate_c ks T =
     ebind (generate_flags_map (st_known_flags T))
       (\<lambda>fm. ebind (generate_flags_table (st_flags T) fm)
          (\<lambda>ft. ebind (emap_list (\<lambda>k. ebind (generate_table (st_tables T k)) (\<lambda>g. Inr (k, g))) ks)
             (\<lambda>gs. Inr (fm, ft, gs))))"


subsection \<open>The lexer loses nothing\<close>

lemma scan_lossless: "concat (map snd (fst (scan s))) @ snd (scan s) = s"
proof (induction s rule: scan.induct)
  case (1 s)
  show ?case
  proof (cases "first_match scanner s")
    case None
    then show ?thesis by (simp add: scan.simps [of s])
  next
    case (Some kn)
    obtain k n where kn: "kn = (k, n)" by fastforce
    show ?thesis
    proof (cases "n = 0 \<or> length s < n")
      case True
      then show ?thesis using Some kn by (simp add: scan.simps [of s])
    next
      case False
      with 1 [OF Some kn [symmetric] False]
      have "concat (map snd (fst (scan (drop n s)))) @ snd (scan (drop n s)) = drop n s" by simp
      then have "take n s @ concat (map snd (fst (scan (drop n s)))) @ snd (scan (drop n s)) = s"
        by simp
      then show ?thesis using Some kn False
        by (cases "scan (drop n s)") (simp add: scan.simps [of s])
    qed
  qed
qed

subsection \<open>Includes\<close>

lemma scanned_order [simp, intro]: "reflp ((\<subseteq>) :: 'a set \<Rightarrow> _)" "transp ((\<subseteq>) :: 'a set \<Rightarrow> _)"
  by (auto simp: reflp_def transp_def)

lemma lex_queue_ok:
  assumes inc: "\<And>f S. S0 \<subseteq> S \<Longrightarrow> st_ok (\<subseteq>) (inc f) S"
  shows "S0 \<subseteq> S \<Longrightarrow> st_ok (\<subseteq>) (lex_queue inc q) S"
  using assms
proof (induction inc q arbitrary: S rule: lex_queue.induct)
  case (3 inc tok tok2 q)
  have sub: "S0 \<subseteq> S'" if "S \<subseteq> S'" for S' using that "3.prems"(1) by blast
  show ?case
  proof (cases "fst tok = INCLUDE")
    case False
    then show ?thesis using 3 by (auto intro!: st_ok_intros)
  next
    case True
    have "st_ok (\<subseteq>) (inc (butlast (tl (snd tok2)))) S"
      using "3.prems" by blast
    then show ?thesis using True "3.IH"(2) "3.prems"(2) sub
      by (cases "fst tok2 = STRING") (auto intro!: st_ok_intros simp: st_ok_def [of _ "Pair _"])
  qed
qed (auto intro!: st_ok_intros)

lemma lex_file_ok:
  "card (fst ` set fs - S) < n \<Longrightarrow> st_ok (\<subseteq>) (lex_file n fs f) S"
proof (induction n arbitrary: f S)
  case (Suc n)
  show ?case
  proof (cases "f \<in> S \<or> map_of fs f = None")
    case True
    then show ?thesis by (auto simp: st_ok_def scan_file_def sbind_def)
  next
    case False
    then have f: "f \<in> fst ` set fs - S" by (auto simp: map_of_eq_None_iff)
    have "card (fst ` set fs - S') < n" if "insert f S \<subseteq> S'" for S'
    proof -
      have "fst ` set fs - S' \<subseteq> (fst ` set fs - S) - {f}" using that by auto
      then have "card (fst ` set fs - S') \<le> card ((fst ` set fs - S) - {f})"
        by (intro card_mono) auto
      also have "\<dots> = card (fst ` set fs - S) - 1" using f by (intro card_Diff_singleton) auto
      moreover have "0 < card (fst ` set fs - S)" using f by (auto simp: card_gt_0_iff)
      ultimately show ?thesis using Suc.prems by linarith
    qed
    then have "st_ok (\<subseteq>) (lex_queue (lex_file n fs) q) (insert f S)" for q
      by (intro lex_queue_ok [where ?S0.0 = "insert f S"] Suc.IH) auto
    then have "st_ok (\<subseteq>) (if r \<noteq> [] then sraise ScanParseError
          else lex_queue (lex_file n fs) q) (insert f S)" for q and r :: string
      by (auto intro!: st_ok_intros)
    then show ?thesis using False
      by (auto simp: scan_file_def split: prod.splits intro!: st_ok_intros)
        (auto simp: st_ok_def)
  qed
qed simp


text \<open>C35: Lexing always returns or raises: with the fuel that lex gives to the nesting of includes, no file system, however its files include each other, makes the lexer run out of fuel.\<close>

theorem lex_terminates: "lex fs fname \<noteq> Inl NoFuel"
proof -
  have "card (fst ` set fs - {}) \<le> length fs"
    using card_image_le [of "set fs" fst] card_length [of fs] by auto
  then have "st_ok (\<subseteq>) (lex_file (Suc (length fs)) fs fname) {}"
    by (intro lex_file_ok) simp
  then show ?thesis by (simp add: st_ok_def lex_def)
qed

text \<open>The files a token list includes.\<close>

fun include_names :: "token list \<Rightarrow> string list" where
  "include_names [] = []"
| "include_names [tok] = []"
| "include_names (tok # tok2 # q) =
     (if fst tok \<noteq> INCLUDE then include_names (tok2 # q)
      else butlast (tl (snd tok2)) # include_names q)"

lemma lex_file_fresh:
  "lex_file n fs f S = (Inr ts, S') \<Longrightarrow> f \<notin> S \<and> f \<in> fst ` set fs"
  by (cases n)
    (auto simp: sbind_eq_Inr scan_file_def image_iff split: if_splits option.splits
       dest!: map_of_SomeD intro: rev_bexI)

lemma lex_queue_includes:
  assumes "\<And>f S ts S'. inc f S = (Inr ts, S') \<Longrightarrow> f \<notin> S \<and> insert f S \<subseteq> S'"
  shows "lex_queue inc q S = (Inr ts, S') \<Longrightarrow>
    distinct (include_names q) \<and> set (include_names q) \<inter> S = {} \<and>
    set (include_names q) \<union> S \<subseteq> S'"
  using assms
proof (induction inc q arbitrary: S ts S' rule: lex_queue.induct)
  case (3 inc tok tok2 q)
  show ?case
  proof (cases "fst tok = INCLUDE")
    case False
    then show ?thesis using 3 by (force simp: sbind_eq_Inr)
  next
    case True
    then obtain ts1 S1 ts2 where
      "inc (butlast (tl (snd tok2))) S = (Inr ts1, S1)" "fst tok2 = STRING"
      "lex_queue inc q S1 = (Inr ts2, S')"
      using "3.prems"(1) by (auto simp: sbind_eq_Inr split: if_splits)
    moreover from this have "butlast (tl (snd tok2)) \<notin> S \<and> insert (butlast (tl (snd tok2))) S \<subseteq> S1"
      using "3.prems"(2) by blast
    moreover from calculation have "distinct (include_names q) \<and> set (include_names q) \<inter> S1 = {} \<and>
        set (include_names q) \<union> S1 \<subseteq> S'"
      using "3.IH"(2) [of S1 ts2 S'] "3.prems"(2) True by blast
    ultimately show ?thesis using True by (simp add: subset_iff disjoint_iff) blast
  qed
qed (auto split: if_splits)

lemma lex_file_marks: "lex_file n fs f S = (Inr ts, S') \<Longrightarrow> f \<notin> S \<and> insert f S \<subseteq> S'"
proof (induction n arbitrary: f S ts S')
  case (Suc n)
  then obtain toks r where
    f: "f \<notin> S" and q: "lex_queue (lex_file n fs) (filter (\<lambda>t. fst t \<noteq> WHITESPACE) toks) (insert f S)
      = (Inr ts, S')"
    by (auto simp: sbind_eq_Inr scan_file_def split: if_splits option.splits prod.splits)
  have "\<And>f S ts S'. lex_file n fs f S = (Inr ts, S') \<Longrightarrow> f \<notin> S \<and> insert f S \<subseteq> S'"
    by (rule Suc.IH)
  from lex_queue_includes [OF this q] f show ?case by auto
qed simp

text \<open>
  What \<open>lex\<close> promises, without the set of scanned files: \<open>reached_files\<close> lists the files that chains of
  includes lead to, once for each chain, and \<open>expanded_tokens\<close> is the text with every include replaced by
  the file it names.
\<close>

definition file_tokens :: "filesystem \<Rightarrow> string \<Rightarrow> token list" where
  "file_tokens fs f = (case map_of fs f of None \<Rightarrow> [] | Some s \<Rightarrow> filter (\<lambda>t. fst t \<noteq> WHITESPACE) (fst (scan s)))"

fun names_follow :: "token list \<Rightarrow> bool" where
  "names_follow [] = True"
| "names_follow [tok] = (fst tok \<noteq> INCLUDE)"
| "names_follow (tok # tok2 # q) =
     (if fst tok \<noteq> INCLUDE then names_follow (tok2 # q) else fst tok2 = STRING \<and> names_follow q)"

definition file_ok :: "filesystem \<Rightarrow> string \<Rightarrow> bool" where
  "file_ok fs f = (case map_of fs f of None \<Rightarrow> False | Some s \<Rightarrow> snd (scan s) = [] \<and> names_follow (file_tokens fs f))"

fun reached_files :: "nat \<Rightarrow> filesystem \<Rightarrow> string \<Rightarrow> string list" where
  "reached_files 0 fs f = []"
| "reached_files (Suc n) fs f = f # concat (map (reached_files n fs) (include_names (file_tokens fs f)))"

fun expand_queue :: "(string \<Rightarrow> token list) \<Rightarrow> token list \<Rightarrow> token list" where
  "expand_queue ex [] = []"
| "expand_queue ex [tok] = [tok]"
| "expand_queue ex (tok # tok2 # q) =
     (if fst tok \<noteq> INCLUDE then tok # expand_queue ex (tok2 # q)
      else ex (butlast (tl (snd tok2))) @ expand_queue ex q)"

fun expanded_tokens :: "nat \<Rightarrow> filesystem \<Rightarrow> string \<Rightarrow> token list" where
  "expanded_tokens 0 fs f = []"
| "expanded_tokens (Suc n) fs f = expand_queue (expanded_tokens n fs) (file_tokens fs f)"

definition include_rel :: "filesystem \<Rightarrow> (string \<times> string) set" where
  "include_rel fs = {(f, g). g \<in> set (include_names (file_tokens fs f))}"

text \<open>\<open>lexes P R E\<close>: the action lexes \<open>E f\<close> if the files \<open>R f\<close> are good, all different and new.\<close>

definition lexes :: "(string \<Rightarrow> bool) \<Rightarrow> string list \<Rightarrow> token list \<Rightarrow> (string set, token list) st \<Rightarrow> string set \<Rightarrow> bool" where
  "lexes P R E m S = (\<forall>ts S'. m S = (Inr ts, S') \<longleftrightarrow>
     list_all P R \<and> distinct R \<and> set R \<inter> S = {} \<and> ts = E \<and> S' = S \<union> set R)"

lemma lex_queue_lexes:
  assumes "\<And>f S. S0 \<subseteq> S \<Longrightarrow> lexes P (R f) (E f) (inc f) S"
  shows "S0 \<subseteq> S \<Longrightarrow> (\<forall>ts S'. lex_queue inc q S = (Inr ts, S') \<longleftrightarrow> names_follow q \<and>
    list_all P (concat (map R (include_names q))) \<and> distinct (concat (map R (include_names q))) \<and>
    set (concat (map R (include_names q))) \<inter> S = {} \<and> ts = expand_queue E q \<and> S' = S \<union> set (concat (map R (include_names q))))"
  using assms
proof (induction inc q arbitrary: S rule: lex_queue.induct)
  case (3 inc tok tok2 q)
  show ?case
  proof (cases "fst tok = INCLUDE \<and> fst tok2 = STRING")
    case False
    then show ?thesis using 3 by (auto simp: sbind_eq_Inr)
  next
    case True
    let ?f = "butlast (tl (snd tok2))"
    have f: "inc ?f S = (Inr t1, S1) \<longleftrightarrow> list_all P (R ?f) \<and> distinct (R ?f) \<and> set (R ?f) \<inter> S = {} \<and> t1 = E ?f \<and> S1 = S \<union> set (R ?f)"
      for t1 S1 using "3.prems" unfolding lexes_def by blast
    have "S0 \<subseteq> S \<union> set (R ?f)" using "3.prems"(1) by blast
    note IH = "3.IH"(2) [OF _ _ this "3.prems"(2)]
    show ?thesis using True f IH by (auto simp: sbind_eq_Inr)
  qed
qed auto

lemma lex_file_lexes:
  "card (fst ` set fs - S) < n \<Longrightarrow> lexes (file_ok fs) (reached_files n fs f) (expanded_tokens n fs f) (lex_file n fs f) S"
proof (induction n arbitrary: f S)
  case (Suc n)
  show ?case
  proof (cases "f \<in> S \<or> map_of fs f = None \<or> snd (scan (the (map_of fs f))) \<noteq> []")
    case True
    have "lex_file (Suc n) fs f S \<noteq> (Inr ts, S')" for ts S'
      using True by (auto simp: sbind_eq_Inr scan_file_def split: prod.splits option.splits)
    moreover have "f \<in> S \<or> \<not> file_ok fs f" using True by (auto simp: file_ok_def split: option.splits)
    ultimately show ?thesis by (auto simp: lexes_def)
  next
    case False
    then obtain s where s: "map_of fs f = Some s" "snd (scan s) = []" by auto
    have "card (fst ` set fs - S1) < n" if "insert f S \<subseteq> S1" for S1
    proof -
      have f: "f \<in> fst ` set fs - S" using s(1) False by (force dest: map_of_SomeD)
      then have "fst ` set fs - S1 \<subset> fst ` set fs - S" using that by blast
      then show ?thesis using Suc.prems psubset_card_mono [of "fst ` set fs - S" "fst ` set fs - S1"] by simp
    qed
    note IH = Suc.IH [OF this]
    have run: "lex_file (Suc n) fs f S = lex_queue (lex_file n fs) (file_tokens fs f) (insert f S)"
      using s False by (cases "scan s") (simp add: sbind_apply scan_file_def file_tokens_def)
    show ?thesis
      unfolding lexes_def run using lex_queue_lexes [of "insert f S" "file_ok fs" "reached_files n fs" "expanded_tokens n fs" "lex_file n fs", OF IH, of "insert f S" "file_tokens fs f"]
        False s by (auto simp: file_ok_def)
  qed
qed simp

lemma lex_lexes:
  "lex fs f = Inr ts \<longleftrightarrow> list_all (file_ok fs) (reached_files (Suc (length fs)) fs f) \<and>
     distinct (reached_files (Suc (length fs)) fs f) \<and> ts = expanded_tokens (Suc (length fs)) fs f"
proof -
  have "card (fst ` set fs - {}) \<le> length fs"
    using card_image_le [of "set fs" fst] card_length [of fs] by auto
  then have "lexes (file_ok fs) (reached_files (Suc (length fs)) fs f) (expanded_tokens (Suc (length fs)) fs f) (lex_file (Suc (length fs)) fs f) {}"
    by (intro lex_file_lexes) simp
  then show ?thesis unfolding lex_def lexes_def by (metis Int_empty_right fst_conv prod.collapse)
qed

text \<open>The chains of includes of a file that lexes are shorter than the fuel, so none of them leads to a cycle.\<close>

lemma lex_queue_each:
  "lex_queue inc q S = (Inr ts, S') \<Longrightarrow> g \<in> set (include_names q) \<Longrightarrow> \<exists>S1 ts1 S2. inc g S1 = (Inr ts1, S2)"
proof (induction inc q arbitrary: S ts S' rule: lex_queue.induct)
  case (3 inc tok tok2 q)
  then show ?case by (cases "fst tok = INCLUDE \<and> fst tok2 = STRING") (auto simp: sbind_eq_Inr split: if_splits)
qed auto

lemma lex_file_chains: "lex_file n fs f S = (Inr ts, S') \<Longrightarrow> (f, g) \<in> include_rel fs ^^ k \<Longrightarrow> k < n"
proof (induction n arbitrary: f S ts S' k)
  case (Suc n)
  show ?case
  proof (cases k)
    case (Suc j)
    then obtain h where h: "(f, h) \<in> include_rel fs" "(h, g) \<in> include_rel fs ^^ j"
      using Suc.prems(2) by (metis relpow_Suc_D2)
    obtain s where s: "map_of fs f = Some s" "f \<notin> S" using Suc.prems(1)
      by (auto simp: sbind_eq_Inr scan_file_def split: if_splits option.splits)
    then have "lex_queue (lex_file n fs) (file_tokens fs f) (insert f S) = (Inr ts, S')"
      using Suc.prems(1) by (auto simp: sbind_eq_Inr scan_file_def file_tokens_def split: if_splits prod.splits)
    with lex_queue_each h(1) obtain S1 ts1 S2 where "lex_file n fs h S1 = (Inr ts1, S2)" unfolding include_rel_def by blast
    from Suc.IH [OF this h(2)] Suc show ?thesis by simp
  qed simp
qed simp

lemma lex_no_cycle:
  assumes "lex fs f = Inr ts" "(f, g) \<in> (include_rel fs)\<^sup>*"
  shows "(g, g) \<notin> (include_rel fs)\<^sup>+"
proof
  assume "(g, g) \<in> (include_rel fs)\<^sup>+"
  then obtain n where n: "0 < n" "(g, g) \<in> include_rel fs ^^ n" using trancl_power by blast
  obtain k where k: "(f, g) \<in> include_rel fs ^^ k" using assms(2) rtrancl_power by blast
  have "(f, g) \<in> include_rel fs ^^ (k + m * n)" for m
  proof (induction m)
    case (Suc m)
    then have "(f, g) \<in> include_rel fs ^^ ((k + m * n) + n)" unfolding relpow_add using n(2) by blast
    then show ?case by (simp add: algebra_simps)
  qed (use k in simp)
  then have "k + Suc (length fs) * n < Suc (length fs)"
    using lex_file_chains [of "Suc (length fs)" fs f "{}" ts _ g] assms(1) by (metis lex_def prod.collapse)
  moreover have "Suc (length fs) \<le> Suc (length fs) * n" using n(1) by (cases n) simp_all
  ultimately show False by linarith
qed

text \<open>C36: Lexing succeeds exactly when every file that chains of includes lead to exists, is made of tokens and names a file behind each include, and no file is reached twice (chains longer than the number of files need not be looked at); the result is then the text with every include replaced by the file it names. So a file from which a cycle of includes can be reached is never lexed, and a harmless repeated include is rejected too.\<close>

theorem lex_includes_once:
  "(lex fs f = Inr ts \<longleftrightarrow> list_all (file_ok fs) (reached_files (Suc (length fs)) fs f) \<and>
      distinct (reached_files (Suc (length fs)) fs f) \<and> ts = expanded_tokens (Suc (length fs)) fs f) \<and>
   ((f, g) \<in> (include_rel fs)\<^sup>* \<and> (g, g) \<in> (include_rel fs)\<^sup>+ \<longrightarrow> lex fs f \<noteq> Inr ts)"
  using lex_lexes [of fs f ts] lex_no_cycle [of fs f ts g] by blast

subsection \<open>Compressed tables\<close>

lemma how_many_zeroes_spec:
  "i \<le> 256 \<Longrightarrow> i + how_many_zeroes t i \<le> 256 \<and>
   (\<forall>j. i \<le> j \<and> j < i + how_many_zeroes t i \<longrightarrow> t j = None) \<and>
   (t i = None \<and> i < 256 \<longrightarrow> 0 < how_many_zeroes t i)"
proof (induction t i rule: how_many_zeroes.induct)
  case (1 t i)
  show ?case
  proof (cases "t i = None \<and> i < 256")
    case True
    with 1 have IH: "Suc i + how_many_zeroes t (Suc i) \<le> 256"
      "\<And>j. Suc i \<le> j \<Longrightarrow> j < Suc i + how_many_zeroes t (Suc i) \<Longrightarrow> t j = None" by auto
    have eq: "how_many_zeroes t i = Suc (how_many_zeroes t (Suc i))"
      using True by (subst how_many_zeroes.simps) simp
    have "t j = None" if "i \<le> j" "j < Suc i + how_many_zeroes t (Suc i)" for j
      using True IH(2) [of j] that by (cases "j = i") auto
    with IH(1) show ?thesis by (simp add: eq)
  next
    case False
    then show ?thesis using "1.prems" by (subst (1 2 3) how_many_zeroes.simps) auto
  qed
qed

text \<open>\<open>c_string_at\<close> at the start of a terminated string.\<close>

definition codes :: "string \<Rightarrow> nat list" where
  "codes s = map (\<lambda>c. nat (ord_c c)) s"

lemma c_string_at_codes:
  "CHR 0x00 \<notin> set s \<Longrightarrow> c_string_at (pre @ codes s @ 0 # post) (length pre) = Inr s"
proof (induction s arbitrary: pre)
  case Nil
  then show ?case by (subst c_string_at.simps) (simp add: codes_def nth_append)
next
  case (Cons c s)
  have c: "0 < ord_c c" using Cons.prems by (intro ord_c_pos) auto
  have "c_string_at ((pre @ [nat (ord_c c)]) @ codes s @ 0 # post) (length (pre @ [nat (ord_c c)])) = Inr s"
    using Cons by (intro Cons.IH) auto
  then show ?case using c
    by (subst c_string_at.simps) (simp add: codes_def nth_append)
qed

text \<open>The tables that \<open>lookup_table\<close> can read back: no entry is empty or holds a NUL.\<close>

definition table_ok :: "(nat \<Rightarrow> string option) \<Rightarrow> bool" where
  "table_ok t = (\<forall>i s. t i = Some s \<longrightarrow> i < 256 \<and> s \<noteq> [] \<and> CHR 0x00 \<notin> set s)"

lemma generate_loop_gap:
  assumes "i < 256" "t i = None"
  shows "generate_loop t i = 0 # how_many_zeroes t i # generate_loop t (i + how_many_zeroes t i)"
proof -
  have "0 < how_many_zeroes t i" using assms how_many_zeroes_spec [of i t] by simp
  then show ?thesis using assms by (subst generate_loop.simps) (simp add: Let_def)
qed

lemma generate_loop_entry:
  assumes "i < 256" "t i = Some s"
  shows "generate_loop t i = codes s @ 0 # generate_loop t (Suc i)"
  using assms by (subst generate_loop.simps) (simp add: codes_def)

lemma generate_loop_end: "256 \<le> i \<Longrightarrow> generate_loop t i = []"
  by (subst generate_loop.simps) simp

lemma codes_hd: "s \<noteq> [] \<Longrightarrow> CHR 0x00 \<notin> set s \<Longrightarrow> \<exists>a r. codes s = a # r \<and> 0 < a"
proof -
  assume s: "s \<noteq> []" "CHR 0x00 \<notin> set s"
  then show ?thesis by (cases s) (auto simp: codes_def ord_c_pos)
qed

lemma length_codes [simp]: "length (codes s) = length s"
  by (simp add: codes_def)

lemma lookup_loop_generate:
  "table_ok t \<Longrightarrow> i \<le> n \<Longrightarrow> lookup_loop (pre @ generate_loop t i) n i (length pre) = Inr (t n)"
proof (induction "256 - i" arbitrary: i pre rule: less_induct)
  case less
  show ?case
  proof (cases "i < 256")
    case False
    with less.prems have "t n = None" unfolding table_ok_def by (metis not_le order.trans option.exhaust)
    with False show ?thesis by (subst lookup_loop.simps) (simp add: generate_loop_end)
  next
    case True
    show ?thesis
    proof (cases "t i")
      case None
      let ?k = "how_many_zeroes t i"
      note gap = generate_loop_gap [where i = i and t = t, OF True None]
      have k: "0 < ?k" "i + ?k \<le> 256" "\<And>j. i \<le> j \<Longrightarrow> j < i + ?k \<Longrightarrow> t j = None"
        using how_many_zeroes_spec [of i t] True None by auto
      show ?thesis
      proof (cases "n < i + ?k")
        case True
        then show ?thesis using k(3) less.prems gap
          by (subst lookup_loop.simps) (simp add: nth_append)
      next
        case False
        have "lookup_loop ((pre @ [0, ?k]) @ generate_loop t (i + ?k)) n (i + ?k)
            (length (pre @ [0, ?k])) = Inr (t n)"
          using less.prems False k True by (intro less.hyps) auto
        then show ?thesis using gap False
          by (subst lookup_loop.simps) (simp add: nth_append)
      qed
    next
      case (Some s)
      note ent = generate_loop_entry [where i = i and t = t, OF True Some]
      have s: "s \<noteq> []" "CHR 0x00 \<notin> set s" using Some less.prems by (auto simp: table_ok_def)
      obtain a r where a: "codes s = a # r" "0 < a" using codes_hd [OF s] by auto
      have str: "c_string_at (pre @ codes s @ 0 # generate_loop t (Suc i)) (length pre) = Inr s"
        using s by (intro c_string_at_codes) simp
      show ?thesis
      proof (cases "i = n")
        case True
        then show ?thesis using ent str a Some
          by (subst lookup_loop.simps) (simp add: nth_append)
      next
        case False
        have "lookup_loop ((pre @ codes s @ [0]) @ generate_loop t (Suc i)) n (Suc i)
            (length (pre @ codes s @ [0])) = Inr (t n)"
          using less.prems False True by (intro less.hyps) auto
        moreover have "length s = Suc (length r)" using length_codes [of s] a by simp
        ultimately show ?thesis using ent str a False
          by (subst lookup_loop.simps) (simp add: nth_append)
      qed
    qed
  qed
qed

lemma generate_loop_small:
  assumes "table_ok t"
  shows "i \<le> 256 \<Longrightarrow> 0 < i \<or> (\<exists>j. t j \<noteq> None) \<Longrightarrow> list_all (\<lambda>num. num < 256) (generate_loop t i)"
proof (induction "256 - i" arbitrary: i rule: less_induct)
  case less
  show ?case
  proof (cases "i < 256")
    case False
    then show ?thesis by (simp add: generate_loop_end)
  next
    case True
    show ?thesis
    proof (cases "t i")
      case None
      let ?k = "how_many_zeroes t i"
      have k: "0 < ?k" "i + ?k \<le> 256" "\<And>j. i \<le> j \<Longrightarrow> j < i + ?k \<Longrightarrow> t j = None"
        using how_many_zeroes_spec [of i t] True None by auto
      have "?k < 256"
      proof (rule ccontr)
        assume "\<not> ?k < 256"
        with k have "i = 0" "?k = 256" by auto
        with k less.prems obtain j where "t j \<noteq> None" "j < 256 \<longrightarrow> t j = None" by auto
        with assms show False by (auto simp: table_ok_def)
      qed
      moreover have "list_all (\<lambda>num. num < 256) (generate_loop t (i + ?k))"
        using less.prems k True by (intro less.hyps) auto
      ultimately show ?thesis using generate_loop_gap [where i = i and t = t, OF True None] by simp
    next
      case (Some s)
      have "list_all (\<lambda>num. num < 256) (generate_loop t (Suc i))"
        using less.prems True by (intro less.hyps) auto
      then show ?thesis using generate_loop_entry [where i = i and t = t, OF True Some]
        by (auto simp: codes_def list_all_iff)
    qed
  qed
qed

text \<open>C0: for every table whose entries are non-empty and free of NUL, compression succeeds, yields bytes, and \<open>lookup_table\<close> on the result returns exactly the entry of every scancode.\<close>

theorem lookup_generate:
  assumes "table_ok t" and "t j \<noteq> None"
  shows "\<exists>g. generate_table t = Inr g \<and> list_all (\<lambda>b. b < 256) g \<and> (\<forall>n. lookup_table g n = Inr (t n))"
proof -
  have "list_all (\<lambda>num. num < 256) (generate_loop t 0)"
    using assms by (intro generate_loop_small) auto
  then show ?thesis
    using lookup_loop_generate [OF assms(1), of 0 _ "[]"]
    by (auto simp: generate_table_def lookup_table_def Let_def)
qed

lemma generate_empty_table: "generate_table (\<lambda>_. None) = Inl AssertionError"
proof -
  have "how_many_zeroes (\<lambda>_. None) i = 256 - i" if "i \<le> 256" for i
    using that
  proof (induction "256 - i" arbitrary: i)
    case 0
    then show ?case by (subst how_many_zeroes.simps) simp
  next
    case (Suc d)
    then show ?case using Suc(1) [of "Suc i"] by (subst how_many_zeroes.simps) auto
  qed
  from this [of 0] show ?thesis
    by (simp add: generate_table_def generate_loop_gap)
qed

subsection \<open>The flag table\<close>

lemma flags_value_spec:
  "\<forall>f\<in>set fs. map_of fm f \<noteq> None \<Longrightarrow>
   \<exists>v'. flags_value fm fs v = Inr v' \<and>
     (\<forall>b. bit v' b \<longleftrightarrow> bit v b \<or> (\<exists>f\<in>set fs. map_of fm f = Some b))"
proof (induction fs arbitrary: v)
  case (Cons f fs)
  then obtain b where b: "map_of fm f = Some b" by auto
  from Cons obtain v' where v': "flags_value fm fs (v OR push_bit b 1) = Inr v'"
    "\<forall>c. bit v' c \<longleftrightarrow> bit (v OR push_bit b 1) c \<or> (\<exists>g\<in>set fs. map_of fm g = Some c)"
    by (metis list.set_intros(2))
  then show ?case using b
    by (auto simp: dict_get_def bit_or_iff bit_exp_iff)
qed simp

lemma flags_rows_spec:
  assumes "\<forall>(k, fs)\<in>set rows. k < length t \<and> (\<forall>f\<in>set fs. map_of fm f \<noteq> None)"
    and "distinct (map fst rows)"
  shows "\<exists>t'. flags_rows fm rows t = Inr t' \<and> length t' = length t \<and>
     (\<forall>k<length t. \<forall>b. bit (t' ! k) b \<longleftrightarrow>
        (case map_of rows k of None \<Rightarrow> bit (t ! k) b
         | Some fs \<Rightarrow> \<exists>f\<in>set fs. map_of fm f = Some b))"
  using assms
proof (induction rows arbitrary: t)
  case (Cons r rows)
  obtain k fs where r: "r = (k, fs)" by fastforce
  with Cons.prems have k: "k < length t" "k \<notin> fst ` set rows" and fs: "\<forall>f\<in>set fs. map_of fm f \<noteq> None"
    by auto
  from flags_value_spec [OF fs] obtain v where v: "flags_value fm fs 0 = Inr v"
    "\<forall>b. bit v b \<longleftrightarrow> (\<exists>f\<in>set fs. map_of fm f = Some b)" by (metis bit_0_eq bot_apply bot_bool_def)
  have none: "map_of rows k = None" using k by (simp add: map_of_eq_None_iff)
  obtain t' where t': "flags_rows fm rows (t[k := v]) = Inr t'" "length t' = length t"
    "\<forall>j<length t. \<forall>b. bit (t' ! j) b \<longleftrightarrow>
        (case map_of rows j of None \<Rightarrow> bit (t[k := v] ! j) b
         | Some fs \<Rightarrow> \<exists>f\<in>set fs. map_of fm f = Some b)"
    using Cons.IH [of "t[k := v]"] Cons.prems by auto
  have "bit (t' ! j) b \<longleftrightarrow> (case map_of (r # rows) j of None \<Rightarrow> bit (t ! j) b
         | Some fs \<Rightarrow> \<exists>f\<in>set fs. map_of fm f = Some b)" if "j < length t" for j b
    using t'(3) v(2) k none r that by (cases "j = k") (auto split: option.splits)
  then show ?case using t' v r k by auto
qed simp

lemma flags_map_spec:
  assumes "distinct flags" "length flags < 32"
  obtains fm where "generate_flags_map flags = Inr fm" "fst ` set fm = set flags"
    "\<And>f g b. map_of fm f = Some b \<Longrightarrow> map_of fm g = Some b \<Longrightarrow> f = g"
    "\<And>f b. map_of fm f = Some b \<Longrightarrow> b < length flags"
proof -
  define fm where "fm = zip (sort flags) [0..<length flags]"
  have d: "distinct (map snd fm)" by (simp add: fm_def)
  have "f = g" if "map_of fm f = Some b" "map_of fm g = Some b" for f g b
  proof -
    from that have "(f, b) \<in> set fm" "(g, b) \<in> set fm" by (auto dest: map_of_SomeD)
    with d show ?thesis by (metis distinct_map inj_onD prod.inject snd_conv)
  qed
  moreover have "b < length flags" if "map_of fm f = Some b" for f b
    using that by (auto dest!: map_of_SomeD simp: fm_def dest: set_zip_rightD)
  moreover have "map fst fm = sort flags" by (simp add: fm_def)
  then have "fst ` set fm = set flags" by (metis list.set_map set_sort)
  ultimately show ?thesis using assms that [of fm] by (simp add: generate_flags_map_def fm_def)
qed

definition rows_ok :: "string list \<Rightarrow> (nat \<times> string list) list \<Rightarrow> bool" where
  "rows_ok known rows = (distinct known \<and> distinct (map fst rows) \<and>
     (\<forall>(k, fs)\<in>set rows. k < 256 \<and> set fs \<subseteq> set known))"

text \<open>C0: for well-formed rows and fewer than 32 flags the flag map and the flag table exist, and bit \<open>b\<close> of row \<open>k\<close> is set exactly when the flag numbered \<open>b\<close> was declared for scancode \<open>k\<close>.\<close>

theorem flags_table_exact:
  assumes "rows_ok known rows" and "length known < 32"
  shows "\<exists>fm ft. generate_flags_map known = Inr fm \<and> generate_flags_table rows fm = Inr ft \<and>
     length ft = 256 \<and>
     (\<forall>k<256. \<forall>f\<in>set known. \<exists>b<length known. map_of fm f = Some b \<and>
        (bit (ft ! k) b \<longleftrightarrow> (\<exists>fs. map_of rows k = Some fs \<and> f \<in> set fs)))"
proof -
  from assms obtain fm where fm: "generate_flags_map known = Inr fm" "fst ` set fm = set known"
    "\<And>f g b. map_of fm f = Some b \<Longrightarrow> map_of fm g = Some b \<Longrightarrow> f = g"
    "\<And>f b. map_of fm f = Some b \<Longrightarrow> b < length known"
    using flags_map_spec [of known] by (auto simp: rows_ok_def)
  have dom: "map_of fm f \<noteq> None" if "f \<in> set known" for f
    using that fm(2) by (auto simp: map_of_eq_None_iff)
  have "\<forall>(k, fs)\<in>set rows. k < length (replicate 256 (0::nat)) \<and> (\<forall>f\<in>set fs. map_of fm f \<noteq> None)"
    using assms(1) dom by (fastforce simp: rows_ok_def)
  moreover have "distinct (map fst rows)" using assms(1) by (simp add: rows_ok_def)
  ultimately obtain ft where ft: "generate_flags_table rows fm = Inr ft" "length ft = 256"
    "\<forall>k<256. \<forall>b. bit (ft ! k) b \<longleftrightarrow>
        (case map_of rows k of None \<Rightarrow> bit (replicate 256 (0::nat) ! k) b
         | Some fs \<Rightarrow> \<exists>f\<in>set fs. map_of fm f = Some b)"
    using flags_rows_spec [of rows "replicate 256 0" fm] unfolding generate_flags_table_def by auto
  have "\<exists>b<length known. map_of fm f = Some b \<and>
        (bit (ft ! k) b \<longleftrightarrow> (\<exists>fs. map_of rows k = Some fs \<and> f \<in> set fs))"
    if kf: "k < 256" "f \<in> set known" for k f
  proof -
    obtain b where b: "map_of fm f = Some b" using dom [OF kf(2)] by auto
    have inj: "g = f" if "map_of fm g = Some b" for g using fm(3) [OF that b] .
    have "bit (ft ! k) b \<longleftrightarrow> (\<exists>fs. map_of rows k = Some fs \<and> f \<in> set fs)"
      using ft(3) kf(1) b by (cases "map_of rows k") (auto dest: inj)
    with b fm(4) show ?thesis by blast
  qed
  with fm(1) ft show ?thesis by auto
qed

subsection \<open>What a successful parse guarantees\<close>

definition scan_inv :: "scan_tables \<Rightarrow> bool" where
  "scan_inv T = ((\<forall>m i s. st_tables T m i = Some s \<longrightarrow> i < 256) \<and>
     rows_ok (st_known_flags T) (st_flags T) \<and> list_all (\<lambda>f. nl_c \<notin> set f) (st_known_flags T))"

lemma hex_val_le: "hex_val c = Some d \<Longrightarrow> d \<le> 15"
  by (auto simp: hex_val_def split: if_splits)

lemma hex2_less: "length s = 2 \<Longrightarrow> hex2 s < 256"
proof -
  assume "length s = 2"
  then obtain a b where "s = [a, b]" by (auto simp: numeral_2_eq_2 length_Suc_conv)
  moreover have "(case hex_val c of Some d \<Rightarrow> d | None \<Rightarrow> 0) \<le> 15" for c
    using hex_val_le by (cases "hex_val c") auto
  from this [of a] this [of b] have "16 * (case hex_val a of Some d \<Rightarrow> d | None \<Rightarrow> 0) +
      (case hex_val b of Some d \<Rightarrow> d | None \<Rightarrow> 0) \<le> 16 * 15 + 15" by linarith
  ultimately show ?thesis by (simp add: hex2_def)
qed

lemma or_128_less: "(n::nat) < 256 \<Longrightarrow> n OR 128 < 256"
proof -
  assume "n < 256"
  then have "take_bit 8 n = n" by (simp add: take_bit_eq_mod)
  moreover have "take_bit 8 (128::nat) = 128" by simp
  ultimately have "take_bit 8 (n OR 128) = n OR 128" by (simp only: take_bit_or)
  moreover have "take_bit 8 (n OR 128) < 2 ^ 8" by (rule take_bit_nat_less_exp)
  ultimately show ?thesis by simp
qed

text \<open>Every SCANCODE token has the two characters that its pattern matches.\<close>

lemma first_match_scancode:
  "first_match scanner s = Some (SCANCODE, n) \<Longrightarrow> n = 2"
  by (auto simp: scanner_def split: option.splits if_splits elim!: match_scancode.elims)

lemma scan_scancode: "(SCANCODE, w) \<in> set (fst (scan s)) \<Longrightarrow> length w = 2"
proof (induction s rule: scan.induct)
  case (1 s)
  then obtain k n where kn: "first_match scanner s = Some (k, n)"
    by (cases "first_match scanner s") (auto simp: scan.simps [of s])
  with "1.prems" have n: "\<not> (n = 0 \<or> length s < n)"
    and w: "(SCANCODE, w) = (k, take n s) \<or> (SCANCODE, w) \<in> set (fst (scan (drop n s)))"
    by (auto simp: scan.simps [of s] split: if_splits prod.splits)
  from w show ?case
  proof
    assume "(SCANCODE, w) = (k, take n s)"
    with kn first_match_scancode [of s n] n show ?thesis by auto
  next
    assume "(SCANCODE, w) \<in> set (fst (scan (drop n s)))"
    with "1.IH" [OF kn refl n] show ?thesis by auto
  qed
qed

text \<open>A FLAG token has no newline in it.\<close>

lemma match_flag_plain: "match_flag s = Some n \<Longrightarrow> nl_c \<notin> set (take n s)"
proof (cases s)
  case (Cons c r)
  assume "match_flag s = Some n"
  then have c: "is_upper c" and n: "n = Suc (length (takeWhile (\<lambda>x. is_upper x \<or> is_digit x) r))"
    using Cons by (auto split: if_splits)
  have "nl_c \<notin> set (takeWhile (\<lambda>x. is_upper x \<or> is_digit x) r)"
    by (auto dest!: set_takeWhileD simp: is_upper_def is_digit_def ord_c_def)
  moreover have "c \<noteq> nl_c" using c by (auto simp: is_upper_def ord_c_def)
  moreover have "take (length (takeWhile Q r)) r = takeWhile Q r" for Q by (metis takeWhile_eq_take)
  ultimately show ?thesis using Cons n by auto
qed simp

lemma first_match_flag: "first_match scanner s = Some (FLAG, n) \<Longrightarrow> match_flag s = Some n"
  by (auto simp: scanner_def split: option.splits)

lemma scan_flag: "(FLAG, w) \<in> set (fst (scan s)) \<Longrightarrow> nl_c \<notin> set w"
proof (induction s rule: scan.induct)
  case (1 s)
  then obtain k n where kn: "first_match scanner s = Some (k, n)"
    by (cases "first_match scanner s") (auto simp: scan.simps [of s])
  with "1.prems" have n: "\<not> (n = 0 \<or> length s < n)"
    and w: "(FLAG, w) = (k, take n s) \<or> (FLAG, w) \<in> set (fst (scan (drop n s)))"
    by (auto simp: scan.simps [of s] split: if_splits prod.splits)
  from w show ?case
  proof
    assume "(FLAG, w) = (k, take n s)"
    with kn match_flag_plain [OF first_match_flag] show ?thesis by auto
  next
    assume "(FLAG, w) \<in> set (fst (scan (drop n s)))"
    with "1.IH" [OF kn refl n] show ?thesis by auto
  qed
qed

definition tok_ok :: "token \<Rightarrow> bool" where
  "tok_ok t = ((fst t = SCANCODE \<longrightarrow> length (snd t) = 2) \<and> (fst t = FLAG \<longrightarrow> nl_c \<notin> set (snd t)))"

lemma lex_queue_tokens:
  assumes "\<And>f S ts S'. inc f S = (Inr ts, S') \<Longrightarrow> list_all tok_ok ts"
  shows "lex_queue inc q S = (Inr ts, S') \<Longrightarrow> list_all tok_ok q \<Longrightarrow> list_all tok_ok ts"
  using assms
proof (induction inc q arbitrary: S ts S' rule: lex_queue.induct)
  case (3 inc tok tok2 q)
  show ?case
  proof (cases "fst tok = INCLUDE")
    case False
    then show ?thesis using 3 by (force simp: sbind_eq_Inr)
  next
    case True
    then obtain ts1 S1 ts2 where *: "inc (butlast (tl (snd tok2))) S = (Inr ts1, S1)" "fst tok2 = STRING"
      "lex_queue inc q S1 = (Inr ts2, S')" "ts = ts1 @ ts2"
      using "3.prems"(1) by (auto simp: sbind_eq_Inr split: if_splits)
    then have "list_all tok_ok ts1" "list_all tok_ok ts2"
      using "3.IH"(2) [of S1 ts2 S'] "3.prems" True by (blast, simp)
    with * show ?thesis by simp
  qed
qed (auto split: if_splits)

lemma lex_file_tokens: "lex_file n fs f S = (Inr ts, S') \<Longrightarrow> list_all tok_ok ts"
proof (induction n arbitrary: f S ts S')
  case (Suc n)
  then obtain s where q: "lex_queue (lex_file n fs)
      (filter (\<lambda>t. fst t \<noteq> WHITESPACE) (fst (scan s))) (insert f S) = (Inr ts, S')"
    by (auto simp: sbind_eq_Inr scan_file_def split: if_splits option.splits prod.splits)
      (metis fst_conv)
  moreover have "list_all tok_ok (filter (\<lambda>t. fst t \<noteq> WHITESPACE) (fst (scan s)))"
    using scan_scancode scan_flag by (auto simp: list_all_iff tok_ok_def)
  ultimately show ?case using lex_queue_tokens [of "lex_file n fs"] Suc.IH by blast
qed simp

subsection \<open>The parser keeps the tables well formed\<close>

definition line_inv :: "token_state \<Rightarrow> bool" where
  "line_inv st = ((\<forall>sc. ls_scancode st = Some sc \<longrightarrow> sc < 256) \<and> distinct (ls_flags st) \<and>
     list_all (\<lambda>f. nl_c \<notin> set f) (ls_flags st))"

lemma foldl_tables_dom:
  "\<lbrakk>\<forall>m i s. tb m i = Some s \<longrightarrow> i < 256; sc < 256;
    foldl (\<lambda>tb (k, v). tb(k := (tb k)(sc \<mapsto> v))) tb es m i = Some s\<rbrakk> \<Longrightarrow> i < (256::nat)"
proof (induction es arbitrary: tb)
  case (Cons e es)
  obtain k v where e: "e = (k, v)" by fastforce
  define tb' where "tb' = tb(k := (tb k)(sc \<mapsto> v))"
  have "\<forall>m i s. tb' m i = Some s \<longrightarrow> i < 256"
    using Cons.prems(1,2) by (auto simp: tb'_def)
  moreover have "foldl (\<lambda>tb (k, v). tb(k := (tb k)(sc \<mapsto> v))) tb' es m i = Some s"
    using Cons.prems(3) by (simp only: foldl_Cons e prod.case tb'_def)
  ultimately show ?case using Cons.IH [of tb'] Cons.prems(2) by blast
qed auto

lemma rows_ok_insert:
  assumes "rows_ok known rows" "sc < 256" "distinct fs"
  shows "rows_ok (List.union fs known) (dict_set sc fs rows)"
proof -
  have "(k, gs) \<in> set (dict_set sc fs rows) \<Longrightarrow> (k, gs) = (sc, fs) \<or> (k, gs) \<in> set rows" for k gs
    by (induction sc fs rows rule: dict_set.induct) (auto split: if_splits)
  then show ?thesis using assms by (fastforce simp: rows_ok_def)
qed

lemma enter_state_inv:
  assumes "enter_state st T = Inr T'" "line_inv st" "scan_inv T"
  shows "scan_inv T'"
proof (cases "ls_scancode st")
  case None
  then show ?thesis using assms by (simp add: enter_state_def)
next
  case (Some sc0)
  define sc where "sc = (if ls_escape st then sc0 OR 0x80 else sc0)"
  have sc: "sc < 256" using assms(2) Some or_128_less by (auto simp: sc_def line_inv_def)
  have fl: "distinct (ls_flags st)" "list_all (\<lambda>f. nl_c \<notin> set f) (ls_flags st)" using assms(2) by (simp_all add: line_inv_def)
  have T: "\<forall>m i s. st_tables T m i = Some s \<longrightarrow> i < 256" "rows_ok (st_known_flags T) (st_flags T)"
    "list_all (\<lambda>f. nl_c \<notin> set f) (st_known_flags T)"
    using assms(3) by (auto simp: scan_inv_def)
  define tb where "tb = foldl (\<lambda>tb (k, v). tb(k := (tb k)(sc \<mapsto> v))) (st_tables T) (ls_entries st)"
  have tb: "\<forall>m i s. tb m i = Some s \<longrightarrow> i < 256"
    using foldl_tables_dom [OF T(1) sc] unfolding tb_def by blast
  have T': "st_tables T' = tb \<and> (st_flags T' = st_flags T \<and> st_known_flags T' = st_known_flags T \<or>
      st_flags T' = dict_set sc (ls_flags st) (st_flags T) \<and>
      st_known_flags T' = List.union (ls_flags st) (st_known_flags T))"
    using assms(1) Some
    by (auto simp: enter_state_def Let_def sc_def [symmetric] tb_def split: if_splits)
  then show ?thesis using T(2,3) tb fl(2) rows_ok_insert [OF T(2) sc fl(1)] by (auto simp: scan_inv_def list_all_iff)
qed

lemma parse_token_inv:
  assumes "parse_token tok (st, T) = Inr (st', T')" "tok_ok tok" "line_inv st" "scan_inv T"
  shows "line_inv st' \<and> scan_inv T'"
  using assms
  by (cases "fst tok")
    (auto simp: parse_token_def line_inv_def tok_ok_def new_state_def ebind_Inr_iff hex2_less list_all_iff
        Let_def split: if_splits intro: enter_state_inv [unfolded line_inv_def list_all_iff])

lemma parse_tokens_inv:
  "\<lbrakk>parse_tokens toks (st, T) = Inr T'; list_all tok_ok toks; line_inv st; scan_inv T\<rbrakk> \<Longrightarrow> scan_inv T'"
proof (induction toks arbitrary: st T)
  case Nil
  then show ?case using enter_state_inv by simp
next
  case (Cons tok toks)
  then obtain st1 T1 where "parse_token tok (st, T) = Inr (st1, T1)" "parse_tokens toks (st1, T1) = Inr T'"
    by (auto simp: ebind_Inr_iff)
  with Cons parse_token_inv [of tok st T st1 T1] show ?case by auto
qed

lemma parse_scantable_ok:
  assumes "parse_scantable fs fname = Inr T"
  shows "scan_inv T"
proof -
  from assms obtain toks where toks: "lex fs fname = Inr toks"
    "parse_tokens toks (new_state, empty_tables) = Inr T"
    by (auto simp: parse_scantable_def ebind_Inr_iff)
  then have "list_all tok_ok toks"
    using lex_file_tokens by (metis lex_def prod.collapse)
  moreover have "line_inv new_state" "scan_inv empty_tables"
    by (auto simp: line_inv_def new_state_def scan_inv_def empty_tables_def rows_ok_def)
  ultimately show ?thesis using toks(2) parse_tokens_inv by blast
qed

text \<open>
  Nothing keeps an entry from holding a NUL, or from being a continued line and so empty, though the
  tables end their entries with a NUL: such an entry is read as a gap of none, and the entries behind
  it are found one scancode too low.
\<close>

definition nul_file :: string where
  "nul_file = ''01 '' @ [CHR 0x27, CHR 0x5C, CHR ''0'', CHR 0x27, nl_c] @ ''02 '' @ [CHR 0x27, CHR ''b'', CHR 0x27, nl_c]"

lemma nul_entry_parsed:
  "case parse_scantable [(''f'', nul_file)] ''f'' of Inl e \<Rightarrow> False
   | Inr T \<Rightarrow> st_tables T None 1 = Some [CHR 0x00] \<and> st_tables T None 2 = Some ''b''"
  by code_simp

lemma nul_entry_shifts:
  assumes "i < 255" "t i = Some [CHR 0x00]" "t (Suc i) = Some s" "s \<noteq> []" "CHR 0x00 \<notin> set s"
  shows "lookup_loop (pre @ generate_loop t i) i i (length pre) = Inr (Some s)"
proof -
  have g: "generate_loop t i = [0, 0] @ codes s @ 0 # generate_loop t (Suc (Suc i))"
    using generate_loop_entry [of i t] generate_loop_entry [of "Suc i" t] assms(1-3) by (simp add: codes_def ord_c_def)
  obtain a r where a: "codes s = a # r" "0 < a" using codes_hd [OF assms(4,5)] by auto
  have "c_string_at ((pre @ [0, 0]) @ codes s @ 0 # generate_loop t (Suc (Suc i))) (length (pre @ [0, 0])) = Inr s"
    by (rule c_string_at_codes) (rule assms(5))
  then have "lookup_loop (pre @ generate_loop t i) i i (length pre + 2) = Inr (Some s)"
    using a unfolding g by (subst lookup_loop.simps) (simp add: nth_append)
  moreover have "lookup_loop (pre @ generate_loop t i) i i (length pre) = lookup_loop (pre @ generate_loop t i) i i (length pre + 2)"
    unfolding g by (subst lookup_loop.simps) (simp add: nth_append)
  ultimately show ?thesis by simp
qed

text \<open>C22: Whatever the input file, a successful parse leaves well-formed tables: every scancode is below 256, flag rows have distinct keys and mention only known flags, and the known flags are distinct words of one line.\<close>

theorem parse_scantable_inv: "parse_scantable fs fname = Inr T \<Longrightarrow> scan_inv T"
  by (rule parse_scantable_ok)

definition entries_ok :: "(nat \<Rightarrow> string option) \<Rightarrow> bool" where
  "entries_ok t = list_all (\<lambda>i. case t i of None \<Rightarrow> True | Some s \<Rightarrow> s \<noteq> [] \<and> CHR 0x00 \<notin> set s) [0..<256]"

definition example_line :: string where
  "example_line = ''01 '' @ [CHR 0x27, CHR ''a'', CHR 0x27] @
     concat (map (\<lambda>m. CHR '' '' # m @ ''('' @ [CHR 0x27, CHR ''B'', CHR 0x27] @ '')'')
       [''shift'', ''caps'', ''numlock'', ''ctrl'']) @ [nl_c]"

theorem lookup_generate_witness:
  "\<exists>g. generate_table [65 \<mapsto> ''ab''] = Inr g \<and> list_all (\<lambda>b. b < 256) g \<and>
     (\<forall>n. lookup_table g n = Inr ([65 \<mapsto> ''ab''] n))"
  by (rule lookup_generate [where j = 65]) (auto simp: table_ok_def split: if_splits)

theorem flags_table_exact_witness:
  "\<exists>fm ft. generate_flags_map [''F2'', ''F1''] = Inr fm \<and>
     generate_flags_table [(3, [''F1'']), (9, [''F1'', ''F2''])] fm = Inr ft \<and> length ft = 256 \<and>
     (\<forall>k<256. \<forall>f\<in>set [''F2'', ''F1'']. \<exists>b<length [''F2'', ''F1'']. map_of fm f = Some b \<and>
        (bit (ft ! k) b \<longleftrightarrow>
          (\<exists>fs. map_of [(3, [''F1'']), (9, [''F1'', ''F2''])] k = Some fs \<and> f \<in> set fs)))"
  by (rule flags_table_exact) (simp_all add: rows_ok_def)

text \<open>Two files are included one after the other; then the second one includes the first file again.\<close>

definition include_cmd :: "string \<Rightarrow> string" where
  "include_cmd f = ''include '' @ [CHR 0x22] @ f @ [CHR 0x22]"

definition include_files :: "string \<Rightarrow> filesystem" where
  "include_files c = [(''a'', include_cmd ''b'' @ include_cmd ''c''), (''b'', ''01''), (''c'', c)]"

theorem lex_includes_once_witness:
  "lex (include_files ''F1'') ''a'' = Inr [(SCANCODE, ''01''), (FLAG, ''F1'')] \<and>
   isl (lex (include_files (include_cmd ''a'')) ''a'') \<and> isl (lex (include_files (include_cmd ''b'')) ''a'')"
proof -
  let ?fs = "include_files (include_cmd ''a'')"
  have files: "Suc (length (include_files c)) = 4" for c by (simp add: include_files_def)
  have "(''a'', ''c'') \<in> include_rel ?fs" "(''c'', ''a'') \<in> include_rel ?fs" unfolding include_rel_def mem_Collect_eq prod.case by code_simp+
  then have "(''a'', ''a'') \<in> (include_rel ?fs)\<^sup>+" by (meson trancl.simps)
  with lex_includes_once [of ?fs "''a''" _ "''a''"] have "lex ?fs ''a'' \<noteq> Inr ts" for ts by blast
  then have "isl (lex ?fs ''a'')" by (cases "lex ?fs ''a''") auto
  moreover have "list_all (file_ok (include_files ''F1'')) (reached_files 4 (include_files ''F1'') ''a'') \<and>
     distinct (reached_files 4 (include_files ''F1'') ''a'') \<and>
     [(SCANCODE, ''01''), (FLAG, ''F1'')] = expanded_tokens 4 (include_files ''F1'') ''a''" by code_simp
  then have "lex (include_files ''F1'') ''a'' = Inr [(SCANCODE, ''01''), (FLAG, ''F1'')]"
    using lex_includes_once [of "include_files ''F1''" "''a''" _ "''a''"] unfolding files by blast
  moreover have "\<not> distinct (reached_files 4 (include_files (include_cmd ''b'')) ''a'')" by code_simp
  then have "lex (include_files (include_cmd ''b'')) ''a'' \<noteq> Inr ts" for ts
    using lex_includes_once [of "include_files (include_cmd ''b'')" "''a''" ts "''a''"] unfolding files by blast
  then have "isl (lex (include_files (include_cmd ''b'')) ''a'')"
    by (cases "lex (include_files (include_cmd ''b'')) ''a''") auto
  ultimately show ?thesis by blast
qed

theorem parse_scantable_inv_witness:
  "\<exists>T. parse_scantable [(''f'', ''81 F1 F2'')] ''f'' = Inr T \<and> scan_inv T"
proof -
  have "\<not> isl (parse_scantable [(''f'', ''81 F1 F2'')] ''f'')" by code_simp
  then obtain T where "parse_scantable [(''f'', ''81 F1 F2'')] ''f'' = Inr T" by (cases "parse_scantable [(''f'', ''81 F1 F2'')] ''f''") auto
  with parse_scantable_inv [OF this] show ?thesis by blast
qed

theorem trailing_space_swallows_newline:
  assumes "c = CHR '' '' \<or> c = CHR 0x09"
  shows "\<exists>ts. fst (scan (c # nl_c # r)) = (WHITESPACE, c # nl_c # takeWhile is_space r) # ts"
proof -
  have "first_match scanner (c # nl_c # r) = Some (WHITESPACE, Suc (Suc (length (takeWhile is_space r))))"
    using assms by (auto simp: scanner_def match_lit_def match_space_def is_space_def is_upper_def
       is_hex_def hex_val_def ord_c_def Let_def)
  moreover have "take (length (takeWhile is_space r)) r = takeWhile is_space r"
    by (rule takeWhile_eq_take [symmetric])
  moreover have "length (takeWhile is_space r) \<le> length r" by (rule length_takeWhile_le)
  ultimately show ?thesis
    by (subst scan.simps) (simp add: Let_def split: prod.split)
qed

theorem trailing_space_swallows_newline_witness:
  "\<exists>ts. fst (scan (CHR '' '' # nl_c # ''02'')) = (WHITESPACE, CHR '' '' # nl_c # takeWhile is_space ''02'') # ts"
  by (rule trailing_space_swallows_newline) simp

theorem generate_c_needs_every_table:
  assumes "m \<in> set ks" and "st_tables T m = (\<lambda>_. None)"
  shows "\<exists>e. generate_c ks T = Inl e"
proof -
  have "\<exists>e. emap_list (\<lambda>k. ebind (generate_table (st_tables T k)) (\<lambda>g. Inr (k, g))) ks = Inl e"
    using assms(1)
  proof (induction ks)
    case (Cons k ks)
    then show ?case
      using generate_empty_table assms(2)
      by (cases "k = m"; cases "generate_table (st_tables T k)") auto
  qed simp
  then show ?thesis unfolding generate_c_def
    by (cases "generate_flags_map (st_known_flags T)")
      (auto simp: ebind_def split: sum.splits)
qed

theorem generate_c_needs_every_table_witness:
  "\<exists>e. generate_c all_modifiers (empty_tables\<lparr>st_tables := (\<lambda>_ _. None)(None := [1 \<mapsto> ''a''])\<rparr>) = Inl e"
  by (rule generate_c_needs_every_table [where m = "Some CAPS"])
    (simp_all add: all_modifiers_def)

end
