(* ===== verification/PyText.thy ===== *)
theory PyText
  imports Prelude
begin

section \<open>Text: searching, lines and regular expressions\<close>

text \<open>
  The methods of \<open>str\<close> and the patterns of \<open>re\<close> that the scripts use. A pattern is a function from
  the rest of the text to what it matched: \<open>lit\<close> and \<open>star_in\<close> take the pattern that follows as an
  argument, and \<open>star_in\<close> tries the longest match first, as the matcher of Python does.
\<close>

subsection \<open>Searching\<close>

definition starts :: "string \<Rightarrow> string \<Rightarrow> bool" where
  "starts p s = (take (length p) s = p)"

lemma starts_simps [simp]: "starts [] s" "starts (c # p) (d # s) = (c = d \<and> starts p s)" "\<not> starts (c # p) []"
  by (auto simp: starts_def)

lemma starts_append: "starts p (p @ s)"
  by (simp add: starts_def)

lemma starts_iff: "starts p s \<longleftrightarrow> (\<exists>r. s = p @ r)"
proof
  assume "starts p s"
  then have "s = p @ drop (length p) s" using append_take_drop_id [of "length p" s] by (simp add: starts_def)
  then show "\<exists>r. s = p @ r" by blast
qed (auto simp: starts_append)

fun find_str :: "string \<Rightarrow> string \<Rightarrow> nat option" where
  "find_str p [] = (if p = [] then Some 0 else None)"
| "find_str p (c # s) = (if starts p (c # s) then Some 0 else map_option Suc (find_str p s))"

definition contains :: "string \<Rightarrow> string \<Rightarrow> bool" where
  "contains p s = (find_str p s \<noteq> None)"

lemma find_str_Some: "find_str p s = Some i \<Longrightarrow> i \<le> length s \<and> starts p (drop i s)"
  by (induction s arbitrary: i) (auto split: if_splits)

lemma contains_iff: "contains p s \<longleftrightarrow> (\<exists>u v. s = u @ p @ v)"
proof (induction s)
  case (Cons c s)
  have "(\<exists>u v. c # s = u @ p @ v) \<longleftrightarrow> (\<exists>v. c # s = p @ v) \<or> (\<exists>u v. s = u @ p @ v)"
  proof
    assume "\<exists>u v. c # s = u @ p @ v"
    then obtain u v where u: "c # s = u @ p @ v" by blast
    show "(\<exists>v. c # s = p @ v) \<or> (\<exists>u v. s = u @ p @ v)"
    proof (cases u)
      case Nil
      then show ?thesis using u by simp
    next
      case (Cons d u')
      then have "s = u' @ p @ v" using u by simp
      then show ?thesis by blast
    qed
  next
    assume "(\<exists>v. c # s = p @ v) \<or> (\<exists>u v. s = u @ p @ v)"
    then show "\<exists>u v. c # s = u @ p @ v" by (metis append_Cons append_Nil)
  qed
  then show ?case using Cons.IH by (auto simp: contains_def starts_iff)
qed (simp add: contains_def)

lemma contains_single: "contains [c] s \<longleftrightarrow> c \<in> set s"
  unfolding contains_iff using in_set_conv_decomp [of c s] by auto

subsection \<open>Lines\<close>

text \<open>\<open>splitlines\<close>: a line ends at a newline, a carriage return or both.\<close>

fun newlines :: "string \<Rightarrow> string" where
  "newlines [] = []"
| "newlines (c # s) = (if c = CHR 0x0D then nl_c # (case s of d # s' \<Rightarrow> if d = nl_c then newlines s' else newlines s | [] \<Rightarrow> []) else c # newlines s)"

definition splitlines :: "string \<Rightarrow> string list" where
  "splitlines s = (let ls = split_on nl_c (newlines s) in if last ls = [] then butlast ls else ls)"

lemma splitlines_plain: "l \<in> set (splitlines s) \<Longrightarrow> nl_c \<notin> set l"
  by (auto simp: splitlines_def Let_def dest!: in_set_butlastD split_on_notin split: if_splits)

lemma newlines_id: "CHR 0x0D \<notin> set s \<Longrightarrow> newlines s = s"
  by (induction s) auto

lemma splitlines_append:
  assumes "CHR 0x0D \<notin> set (u @ v)"
  shows "splitlines (u @ nl_c # v) = split_on nl_c u @ splitlines v"
proof -
  have n: "newlines (u @ nl_c # v) = u @ nl_c # v" "newlines v = v" using assms newlines_id [of "u @ nl_c # v"] newlines_id [of v] by simp_all
  have "split_on nl_c v \<noteq> []" by simp
  then show ?thesis unfolding splitlines_def n split_on_append Let_def by (auto simp: butlast_append)
qed

subsection \<open>Patterns\<close>

definition lit :: "string \<Rightarrow> (string \<Rightarrow> 'a option) \<Rightarrow> string \<Rightarrow> 'a option" where
  "lit p k s = (if starts p s then k (drop (length p) s) else None)"

fun star_in :: "(char \<Rightarrow> bool) \<Rightarrow> (string \<Rightarrow> 'a option) \<Rightarrow> string \<Rightarrow> (string \<times> 'a) option" where
  "star_in P k [] = map_option (Pair []) (k [])"
| "star_in P k (c # s) =
     (if P c then (case star_in P k s of Some (g, x) \<Rightarrow> Some (c # g, x) | None \<Rightarrow> map_option (Pair []) (k (c # s)))
      else map_option (Pair []) (k (c # s)))"

abbreviation star_any :: "(string \<Rightarrow> 'a option) \<Rightarrow> string \<Rightarrow> (string \<times> 'a) option" where
  "star_any \<equiv> star_in (\<lambda>c. c \<noteq> nl_c)"

fun re_search :: "(string \<Rightarrow> 'a option) \<Rightarrow> string \<Rightarrow> 'a option" where
  "re_search m [] = m []"
| "re_search m (c # s) = (case m (c # s) of Some x \<Rightarrow> Some x | None \<Rightarrow> re_search m s)"

lemma star_in_Some: "star_in P k s = Some (g, x) \<Longrightarrow> \<exists>r. s = g @ r \<and> k r = Some x \<and> list_all P g"
proof (induction s arbitrary: g)
  case (Cons c s)
  then show ?case by (auto split: if_splits option.splits)
qed auto

text \<open>A greedy group is not blocked by what could match later: it is found when any split of the text matches.\<close>

lemma star_in_None: "star_in P k s = None \<Longrightarrow> s = g @ r \<Longrightarrow> list_all P g \<Longrightarrow> k r = None"
proof (induction s arbitrary: g)
  case (Cons c s)
  then show ?case by (cases g) (auto split: if_splits option.splits)
qed auto

text \<open>Decimal numbers.\<close>

definition decimal :: "char \<Rightarrow> bool" where
  "decimal c = (48 \<le> ord_c c \<and> ord_c c \<le> 57)"

definition decimal_value :: "string \<Rightarrow> int" where
  "decimal_value s = foldl (\<lambda>n c. 10 * n + (ord_c c - 48)) 0 s"

definition lower_c :: "char \<Rightarrow> char" where
  "lower_c c = (if 65 \<le> ord_c c \<and> ord_c c \<le> 90 then chr_c (ord_c c + 32) else c)"

subsection \<open>Numbers as text\<close>

definition digit_c :: "nat \<Rightarrow> char" where
  "digit_c d = chr_c (if d < 10 then 48 + int d else 87 + int d)"

function digits :: "nat \<Rightarrow> nat \<Rightarrow> string" where
  "digits b n = (if b < 2 \<or> n < b then [digit_c n] else digits b (n div b) @ [digit_c (n mod b)])"
  by pat_completeness auto
termination by (relation "measure snd") (auto intro!: div_less_dividend)

declare digits.simps [simp del]

text \<open>\<open>%d\<close> (and \<open>%s\<close> of an integer), \<open>%+d\<close> and \<open>%x\<close>.\<close>

definition dec_text :: "int \<Rightarrow> string" where
  "dec_text n = (if n < 0 then CHR ''-'' # digits 10 (nat (- n)) else digits 10 (nat n))"

definition signed_text :: "int \<Rightarrow> string" where
  "signed_text n = (if n < 0 then dec_text n else CHR ''+'' # dec_text n)"

definition hex_text :: "int \<Rightarrow> string" where
  "hex_text n = (if n < 0 then CHR ''-'' # digits 16 (nat (- n)) else digits 16 (nat n))"

text \<open>\<open>%0wx\<close>\<close>

definition hex_pad :: "nat \<Rightarrow> int \<Rightarrow> string" where
  "hex_pad w n = (if n < 0 then ''-'' @ replicate (w - 1 - length (hex_text (- n))) (CHR ''0'') @ hex_text (- n)
     else replicate (w - length (hex_text n)) (CHR ''0'') @ hex_text n)"

lemma decimal_digits: "list_all decimal (digits 10 n)"
proof (induction "10 :: nat" n rule: digits.induct)
  case (1 n)
  have "decimal (digit_c d)" if "d < 10" for d using that by (simp add: decimal_def digit_c_def)
  then show ?case using 1 by (subst digits.simps) simp
qed

lemma decimal_value_snoc: "decimal_value (s @ [c]) = 10 * decimal_value s + (ord_c c - 48)"
  by (simp add: decimal_value_def)

lemma decimal_value_digits: "decimal_value (digits 10 n) = int n"
proof (induction "10 :: nat" n rule: digits.induct)
  case (1 n)
  have "ord_c (digit_c d) - 48 = int d" if "d < 10" for d using that by (simp add: digit_c_def)
  moreover have "10 * int (n div 10) + int (n mod 10) = int n" by (metis mult_div_mod_eq of_nat_add of_nat_mult of_nat_numeral)
  ultimately show ?case using 1 by (subst digits.simps) (auto simp: decimal_value_snoc decimal_value_def [of "[_]"])
qed

subsection \<open>Names of files\<close>

text \<open>\<open>os.path.join\<close>.\<close>

definition path_join :: "string \<Rightarrow> string \<Rightarrow> string" where
  "path_join a b = (if starts ''/'' b then b else if a = [] \<or> last a = CHR ''/'' then a @ b else a @ ''/'' @ b)"

end
