(* ===== verification/ScanText.thy ===== *)
theory ScanText
  imports Scantable PyText
begin

section \<open>The C text that \<open>scantable.py\<close> writes\<close>

text \<open>
  \<open>generate_c\<close> as the text of its result, and a reader of the declarations of byte arrays in such a text, as a
  C compiler reads them: an initial value that does not fit into a byte loses its high bits. The tables that are
  read back are those that were generated, so a lookup in them gives what was in the file.
\<close>

subsection \<open>The text\<close>

text \<open>The keys of the dictionary of tables, in lower case.\<close>

fun kind_name :: "tok_kind \<Rightarrow> string" where
  "kind_name NEWLINE = ''newline''" | "kind_name STRING = ''string''" | "kind_name FLAG = ''flag''" | "kind_name SHIFT = ''shift''"
| "kind_name CAPS = ''caps''" | "kind_name CTRL = ''ctrl''" | "kind_name ALT = ''alt''" | "kind_name ESC = ''esc''"
| "kind_name NUMLOCK = ''numlock''" | "kind_name INCLUDE = ''include''" | "kind_name SCANCODE = ''scancode''"
| "kind_name LPAREN = ''lparen''" | "kind_name RPAREN = ''rparen''" | "kind_name WHITESPACE = ''whitespace''"

definition table_name :: "modifier \<Rightarrow> string" where
  "table_name m = (case m of None \<Rightarrow> ''default'' | Some k \<Rightarrow> kind_name k)"

definition nat_text :: "nat \<Rightarrow> string" where
  "nat_text n = dec_text (int n)"

definition nums_text :: "nat list \<Rightarrow> string" where
  "nums_text ns = join_with '','' (map nat_text ns)"

definition header_lines :: "modifier list \<Rightarrow> string list" where
  "header_lines ks = [''/* Autogenerated by scantable.py, do not edit!'', [], ''Exported scantables: '' @ join_with '', '' (map table_name ks) @ '' */'', []]"

definition define_line :: "string \<times> nat \<Rightarrow> string" where
  "define_line = (\<lambda>(f, v). ''#define SCAN_'' @ f @ '' '' @ [CHR 0x09] @ ''(1UL<<'' @ nat_text v @ '')'')"

definition array_line :: "string \<Rightarrow> nat \<Rightarrow> nat list \<Rightarrow> string" where
  "array_line name l ns = ''static unsigned char scan_'' @ name @ ''['' @ nat_text l @ ''] = {'' @ nums_text ns @ ''};''"

definition length_line :: "string \<Rightarrow> nat \<Rightarrow> string" where
  "length_line name l = ''static const unsigned scan_'' @ name @ ''_len = '' @ nat_text l @ '';''"

definition table_lines :: "modifier \<times> nat list \<Rightarrow> string list" where
  "table_lines = (\<lambda>(m, g). [length_line (table_name m) (length g), array_line (table_name m) (length g) g, []])"

definition lookup_lines :: "string list" where
  "lookup_lines =
     [''static const char *lookup_scantable(unsigned char *t, int t_len, unsigned char n, int escaped) {'',
      ''  int i = 0, idx = 0;'', ''  const char *s;'', [], ''  if (escaped) n |= 0x80;'', [], ''  while (idx < t_len) {'',
      ''    if (t[idx] == 0) {'', ''      i += t[idx+1];'', ''      idx += 2;'', ''      '', ''      if (n < i) return 0;'', ''    } else {'',
      ''      s = (const char *)&t[idx];'', ''      if (i == n) return s;'', ''      while (t[idx])'', ''        ++idx;'', ''      ++idx;'',
      ''      ++i;'', ''    }'', ''  }'', ''  return 0;'', ''}'', []]"

definition c_lines :: "modifier list \<Rightarrow> (string \<times> nat) list \<Rightarrow> nat list \<Rightarrow> (modifier \<times> nat list) list \<Rightarrow> string list" where
  "c_lines ks fm ft gs = header_lines ks @ map define_line fm @ [[], array_line ''flags'' 256 ft, []] @ concat (map table_lines gs) @ lookup_lines"

definition generate_text :: "modifier list \<Rightarrow> scan_tables \<Rightarrow> pyexc + string" where
  "generate_text ks T = ebind (generate_c ks T) (\<lambda>(fm, ft, gs). Inr (join_with [nl_c] (c_lines ks fm ft gs)))"

subsection \<open>Reading the arrays of a C text\<close>

definition c_array :: "string \<Rightarrow> string \<Rightarrow> int list option" where
  "c_array name ctext = (case find (starts (''static unsigned char '' @ name @ ''['')) (split_on nl_c ctext) of None \<Rightarrow> None
     | Some l \<Rightarrow> Some (map (\<lambda>d. decimal_value d mod 256) (split_on (CHR '','') (takeWhile (\<lambda>c. c \<noteq> CHR ''}'') (tl (dropWhile (\<lambda>c. c \<noteq> CHR ''{'') l))))))"

lemma nat_text_plain: "c \<in> set (nat_text n) \<Longrightarrow> c \<notin> {CHR '','', CHR ''{'', CHR ''}'', CHR ''['', nl_c}"
proof -
  assume "c \<in> set (nat_text n)"
  then have "decimal c" using decimal_digits [of n] by (simp add: nat_text_def dec_text_def list_all_iff)
  then show ?thesis by (auto simp: decimal_def ord_c_def)
qed

lemma nat_text_value: "decimal_value (nat_text n) = int n"
  by (simp add: nat_text_def dec_text_def decimal_value_digits)

lemma join_chars: "c \<in> set (join_with sep ws) \<Longrightarrow> c \<in> set sep \<or> (\<exists>w \<in> set ws. c \<in> set w)"
  by (induction sep ws rule: join_with.induct) auto

lemma nums_text_plain: "c \<in> set (nums_text ns) \<Longrightarrow> c \<notin> {CHR ''{'', CHR ''}'', nl_c}"
proof -
  assume "c \<in> set (nums_text ns)"
  then have "c = CHR '','' \<or> (\<exists>n. c \<in> set (nat_text n))" unfolding nums_text_def using join_chars [of c "'',''" "map nat_text ns"] by auto
  then show ?thesis using nat_text_plain by auto
qed

lemma split_nums: "ns \<noteq> [] \<Longrightarrow> split_on (CHR '','') (nums_text ns) = map nat_text ns"
  unfolding nums_text_def by (intro split_on_join) (auto dest: nat_text_plain)

lemma table_name_inj: "table_name m = table_name m' \<longleftrightarrow> m = m'"
  by (cases m; cases m'; cases "the m"; cases "the m'") (simp_all add: table_name_def)

lemma table_name_plain: "c \<in> set (table_name m) \<Longrightarrow> c \<notin> {CHR ''{'', CHR ''['', nl_c}" "table_name m \<noteq> ''flags''"
  by (cases m; cases "the m"; force simp: table_name_def)+

lemma bracket_prefix: "CHR ''['' \<notin> set n \<Longrightarrow> CHR ''['' \<notin> set n' \<Longrightarrow> starts (n @ ''['') (n' @ ''['' @ r) \<longleftrightarrow> n = n'"
proof (induction n arbitrary: n')
  case Nil
  then show ?case by (cases n') auto
next
  case (Cons c n)
  then show ?case by (cases n') auto
qed

lemma starts_cut: "starts (p @ q) (p @ r) = starts q r"
  by (induction p) auto

lemma split_lines: "ls \<noteq> [] \<Longrightarrow> split_on nl_c (join_with [nl_c] ls) = concat (map (split_on nl_c) ls)"
  by (induction "[nl_c]" ls rule: join_with.induct) (auto simp: split_on_append)

lemma array_line_read:
  assumes "ns \<noteq> []" "\<And>c. c \<in> set name \<Longrightarrow> c \<noteq> CHR ''{''"
  shows "map (\<lambda>d. decimal_value d mod 256) (split_on (CHR '','') (takeWhile (\<lambda>c. c \<noteq> CHR ''}'') (tl (dropWhile (\<lambda>c. c \<noteq> CHR ''{'') (array_line name l ns)))))
    = map (\<lambda>n. int n mod 256) ns"
proof -
  have "dropWhile (\<lambda>c. c \<noteq> CHR ''{'') (''static unsigned char scan_'' @ name @ ''['' @ nat_text l @ ''] = {'' @ nums_text ns @ ''};'')
      = ''{'' @ nums_text ns @ ''};''"
    using assms(2) nat_text_plain by (simp add: dropWhile_append)
  moreover have "takeWhile (\<lambda>c. c \<noteq> CHR ''}'') (nums_text ns @ ''};'') = nums_text ns"
    using nums_text_plain by (subst takeWhile_append2) auto
  ultimately show ?thesis using assms(1) by (simp add: array_line_def split_nums nat_text_value o_def)
qed

lemma array_line_plain: "nl_c \<notin> set name \<Longrightarrow> nl_c \<notin> set (array_line name l ns)"
  using nat_text_plain nums_text_plain by (auto simp: array_line_def)

lemma find_skip: "list_all (\<lambda>x. \<not> P x) xs \<Longrightarrow> P y \<Longrightarrow> find P (xs @ y # ys) = Some y"
  by (induction xs) auto

text \<open>The lines before the arrays.\<close>

lemma c_lines_split:
  assumes "\<forall>(f, v) \<in> set fm. nl_c \<notin> set f"
  shows "split_on nl_c (join_with [nl_c] (c_lines ks fm ft gs)) = c_lines ks fm ft gs"
proof -
  have "nl_c \<notin> set l" if "l \<in> set (c_lines ks fm ft gs)" for l
  proof -
    have n: "nl_c \<notin> set (table_name m)" for m using table_name_plain(1) [of nl_c m] by auto
    have h: "nl_c \<notin> set (join_with '', '' (map table_name ks))" 
      using n join_chars [of nl_c "'', ''" "map table_name ks"] by auto
    have k: "nl_c \<notin> set (nat_text i)" for i using nat_text_plain [of nl_c i] by auto
    have d: "nl_c \<notin> set (define_line x)" if "x \<in> set fm" for x using assms that k by (cases x) (auto simp: define_line_def)
    have t: "nl_c \<notin> set l" if "l \<in> set (table_lines x)" for l x
      using that n k array_line_plain [OF n] by (cases x) (auto simp: table_lines_def length_line_def)
    have "nl_c \<notin> set l" if "l \<in> set (header_lines ks)" for l using that h by (auto simp: header_lines_def)
    moreover have "nl_c \<notin> set l" if "l \<in> set lookup_lines" for l using that by (auto simp: lookup_lines_def)
    moreover have "nl_c \<notin> set (array_line ''flags'' 256 ft)" by (rule array_line_plain) simp
    ultimately show ?thesis using that d t by (auto simp: c_lines_def)
  qed
  then have "concat (map (split_on nl_c) (c_lines ks fm ft gs)) = c_lines ks fm ft gs"
    by (simp add: split_on_free cong: map_cong)
  moreover have "c_lines ks fm ft gs \<noteq> []" by (simp add: c_lines_def header_lines_def)
  ultimately show ?thesis using split_lines [of "c_lines ks fm ft gs"] by simp
qed

text \<open>Only the line of an array starts as its declaration does.\<close>

definition array_prefix :: "string \<Rightarrow> string" where
  "array_prefix name = ''static unsigned char '' @ (''scan_'' @ name) @ ''[''"

lemma starts_array: "CHR ''['' \<notin> set n \<Longrightarrow> CHR ''['' \<notin> set n' \<Longrightarrow> starts (array_prefix n) (array_line n' l ns) \<longleftrightarrow> n = n'"
  using bracket_prefix [of n n'] by (simp add: array_line_def array_prefix_def)

lemma other_lines:
  "list_all (\<lambda>x. \<not> starts (array_prefix n) x) (header_lines ks)" "list_all (\<lambda>x. \<not> starts (array_prefix n) x) (map define_line fm)"
  "\<not> starts (array_prefix n) (length_line n' l)" "\<not> starts (array_prefix n) []"
  by (auto simp: header_lines_def define_line_def list_all_iff array_prefix_def length_line_def)

lemma c_array_found:
  assumes "\<forall>(f, v) \<in> set fm. nl_c \<notin> set f" "ns \<noteq> []" "CHR ''{'' \<notin> set name"
    and "find (starts (array_prefix name)) (c_lines ks fm ft gs) = Some (array_line name l ns)"
  shows "c_array (''scan_'' @ name) (join_with [nl_c] (c_lines ks fm ft gs)) = Some (map (\<lambda>n. int n mod 256) ns)"
proof -
  have "c \<noteq> CHR ''{''" if "c \<in> set name" for c using that assms(3) by auto
  note read = array_line_read [OF assms(2) this, of name l]
  have "find (starts (''static unsigned char '' @ (''scan_'' @ name) @ ''['')) (split_on nl_c (join_with [nl_c] (c_lines ks fm ft gs))) = Some (array_line name l ns)"
    using assms(4) unfolding c_lines_split [OF assms(1)] array_prefix_def .
  then show ?thesis unfolding c_array_def by (simp only: option.case read)
qed

lemma c_array_flags:
  assumes "\<forall>(f, v) \<in> set fm. nl_c \<notin> set f" "ft \<noteq> []"
  shows "c_array (''scan_'' @ ''flags'') (join_with [nl_c] (c_lines ks fm ft gs)) = Some (map (\<lambda>n. int n mod 256) ft)"
proof (rule c_array_found [OF assms])
  have hit: "starts (array_prefix ''flags'') (array_line ''flags'' 256 ft)" by (subst starts_array) simp_all
  have "list_all (\<lambda>x. \<not> starts (array_prefix ''flags'') x) (header_lines ks @ map define_line fm @ [[]])"
    using other_lines [of "''flags''"] by (simp only: list_all_append list.pred_inject simp_thms)
  note found = find_skip [where P = "starts (array_prefix ''flags'')", OF this hit]
  from found [of "[] # concat (map table_lines gs) @ lookup_lines"]
  show "find (starts (array_prefix ''flags'')) (c_lines ks fm ft gs) = Some (array_line ''flags'' 256 ft)"
    by (simp add: c_lines_def)
qed simp

lemma c_array_table:
  assumes "\<forall>(f, v) \<in> set fm. nl_c \<notin> set f" "g \<noteq> []" "(m, g) \<in> set gs" "distinct (map fst gs)"
  shows "c_array (''scan_'' @ table_name m) (join_with [nl_c] (c_lines ks fm ft gs)) = Some (map (\<lambda>n. int n mod 256) g)"
proof (rule c_array_found [OF assms(1,2)])
  let ?miss = "\<lambda>x. \<not> starts (array_prefix (table_name m)) x"
  have b: "CHR ''['' \<notin> set (table_name k)" for k using table_name_plain(1) [of "CHR ''[''" k] by auto
  from assms(3) obtain g1 g2 where gs: "gs = g1 @ (m, g) # g2" by (auto dest: split_list)
  have "?miss l" if "l \<in> set (concat (map table_lines g1))" for l
  proof -
    from that obtain k h where k: "(k, h) \<in> set g1" "l \<in> set (table_lines (k, h))" by auto
    then have "k \<noteq> m" using assms(4) gs by force
    then show ?thesis using k(2) starts_array [OF b b, of m k] other_lines(3,4) [of "table_name m"]
      by (auto simp: table_lines_def table_name_inj)
  qed
  then have before: "list_all ?miss (concat (map table_lines g1))" by (simp add: list_all_iff)
  have flags: "?miss (array_line ''flags'' 256 ft)" using starts_array [OF b, of "''flags''" m] table_name_plain(2) by auto
  have hit: "starts (array_prefix (table_name m)) (array_line (table_name m) (length g) g)" using starts_array [OF b b, of m m] by blast
  have "list_all ?miss (header_lines ks @ map define_line fm @ [[], array_line ''flags'' 256 ft, []] @ concat (map table_lines g1) @
      [length_line (table_name m) (length g)])"
    using before flags other_lines [of "table_name m"] by (simp only: list_all_append list.pred_inject simp_thms)
  note found = find_skip [where P = "starts (array_prefix (table_name m))", OF this hit]
  from found [of "[] # concat (map table_lines g2) @ lookup_lines"]
  show "find (starts (array_prefix (table_name m))) (c_lines ks fm ft gs) = Some (array_line (table_name m) (length g) g)"
    by (simp add: c_lines_def gs table_lines_def)
qed (use table_name_plain(1) [of "CHR ''{''" m] in auto)

subsection \<open>The tables are found in the text\<close>

lemma generated_tables:
  assumes "generate_c ks T = Inr (fm, ft, gs)"
  shows "map fst gs = ks" "list_all (\<lambda>(k, g). generate_table (st_tables T k) = Inr g) gs" "fst ` set fm \<subseteq> set (st_known_flags T)"
proof -
  have "map fst gs' = ks' \<and> list_all (\<lambda>(k, g). generate_table (st_tables T k) = Inr g) gs'"
    if "emap_list (\<lambda>k. ebind (generate_table (st_tables T k)) (\<lambda>g. Inr (k, g))) ks' = Inr gs'" for ks' gs'
    using that by (induction ks' arbitrary: gs') (auto simp: ebind_Inr_iff)
  then show "map fst gs = ks" "list_all (\<lambda>(k, g). generate_table (st_tables T k) = Inr g) gs"
    using assms by (auto simp: generate_c_def ebind_Inr_iff)
  have "generate_flags_map (st_known_flags T) = Inr fm" using assms by (auto simp: generate_c_def ebind_Inr_iff)
  then show "fst ` set fm \<subseteq> set (st_known_flags T)" by (auto simp: generate_flags_map_def dest: set_zip_leftD split: if_splits)
qed

lemma generated_lookup:
  assumes "scan_inv T" "entries_ok (st_tables T m)" "generate_table (st_tables T m) = Inr g"
  shows "(\<forall>n. lookup_table g n = Inr (st_tables T m n)) \<and> list_all (\<lambda>b. b < 256) g \<and> g \<noteq> []"
proof -
  have ok: "table_ok (st_tables T m)" using assms(1,2) by (force simp: table_ok_def scan_inv_def entries_ok_def list_all_iff)
  have "st_tables T m \<noteq> (\<lambda>_. None)" using assms(3) generate_empty_table by auto
  then obtain j where j: "st_tables T m j \<noteq> None" by (auto simp: fun_eq_iff)
  from lookup_generate [OF ok j] assms(3) have g: "\<forall>n. lookup_table g n = Inr (st_tables T m n)" "list_all (\<lambda>b. b < 256) g" by auto
  have "lookup_table [] j = Inr None" by (simp add: lookup_table_def lookup_loop.simps)
  then show ?thesis using g j by auto
qed

text \<open>C1: For a scantable file that the parser accepts and generate_c turns into text, the text declares an array for each modifier (the keys of the dictionary, listed once each), and the lookup in the bytes that are read from the text finds for every number what the parser stored for it, provided that no entry of the table is empty or holds a NUL; the parser does not check the proviso, and lemma nul_entry_shifts shows what happens without it.\<close>

theorem emitted_text_lookup:
  assumes "parse_scantable fs fname = Inr T" and "generate_text ks T = Inr ctext" and "distinct ks" "m \<in> set ks"
    and "entries_ok (st_tables T m)"
  shows "\<exists>arr. c_array (''scan_'' @ table_name m) ctext = Some arr \<and> (\<forall>n. lookup_table (map nat arr) n = Inr (st_tables T m n))"
proof -
  from assms(2) obtain fm ft gs where gen: "generate_c ks T = Inr (fm, ft, gs)" and ctext: "ctext = join_with [nl_c] (c_lines ks fm ft gs)"
    by (auto simp: generate_text_def ebind_Inr_iff)
  note tables = generated_tables [OF gen]
  from assms(4) tables(1) obtain g where g: "(m, g) \<in> set gs" by force
  then have "generate_table (st_tables T m) = Inr g" using tables(2) by (auto simp: list_all_iff)
  note look = generated_lookup [OF parse_scantable_ok [OF assms(1)] assms(5) this]
  have flags: "\<forall>(f, v) \<in> set fm. nl_c \<notin> set f"
    using tables(3) parse_scantable_ok [OF assms(1)] by (force simp: scan_inv_def list_all_iff)
  have "map nat (map (\<lambda>n. int n mod 256) g) = g" using look by (auto simp: list_all_iff zmod_int [symmetric] intro!: map_idI)
  then show ?thesis using c_array_table [OF flags _ g] look tables(1) assms(3) by (auto simp: ctext)
qed

text \<open>The flags are declared as bytes too, although 31 of them are allowed: those from the ninth on are lost.\<close>

lemma emitted_flags:
  assumes "generate_text ks T = Inr ctext" "generate_c ks T = Inr (fm, ft, gs)" "ft \<noteq> []" "list_all (\<lambda>f. nl_c \<notin> set f) (st_known_flags T)"
  shows "c_array (''scan_'' @ ''flags'') ctext = Some (map (\<lambda>n. int n mod 256) ft)"
proof -
  have "\<forall>(f, v) \<in> set fm. nl_c \<notin> set f" using generated_tables(3) [OF assms(2)] assms(4) by (force simp: list_all_iff)
  from c_array_flags [OF this assms(3), of ks gs] show ?thesis using assms(1,2) by (simp add: generate_text_def)
qed

lemma ninth_flag_lost: "8 \<le> b \<Longrightarrow> \<not> bit (int v mod 256) b"
  using bit_take_bit_iff [of 8 "int v" b] by (simp add: take_bit_eq_mod)

theorem emitted_text_lookup_witness:
  "\<exists>T ctext arr. parse_scantable [(''f'', example_line)] ''f'' = Inr T \<and> generate_text all_modifiers T = Inr ctext \<and>
     c_array ''scan_shift'' ctext = Some arr \<and> lookup_table (map nat arr) 1 = Inr (Some ''B'')"
proof -
  have "case parse_scantable [(''f'', example_line)] ''f'' of Inl _ \<Rightarrow> False
     | Inr T \<Rightarrow> entries_ok (st_tables T (Some SHIFT)) \<and> st_tables T (Some SHIFT) 1 = Some ''B'' \<and> st_known_flags T = [] \<and>
        \<not> isl (generate_c all_modifiers T)"
    by code_simp
  then obtain T where T: "parse_scantable [(''f'', example_line)] ''f'' = Inr T" "entries_ok (st_tables T (Some SHIFT))"
      "st_tables T (Some SHIFT) 1 = Some ''B''" "st_known_flags T = []" and "\<not> isl (generate_c all_modifiers T)"
    by (auto split: sum.splits)
  then obtain ctext where ctext: "generate_text all_modifiers T = Inr ctext"
    by (cases "generate_c all_modifiers T") (auto simp: generate_text_def)
  have m: "distinct all_modifiers" "Some SHIFT \<in> set all_modifiers" "''scan_'' @ table_name (Some SHIFT) = ''scan_shift''"
    by (simp_all add: all_modifiers_def table_name_def)
  from emitted_text_lookup [OF T(1) ctext m(1,2) T(2)] show ?thesis using T ctext unfolding m(3) by auto
qed

end
