(* ===== verification/Graph.thy ===== *)
theory Graph
  imports Prelude
begin

section \<open>The tutorial graph (\<open>scripts/graph.py\<close>, \<open>scripts/chapters.py\<close>)\<close>

text \<open>
  \<open>Graph\<close> reads a layout file into nodes (each with the list of its source files) and a set
  of edges, and \<open>find_paths\<close> enumerates the paths from a root to a goal by a depth-first
  search that stops when its path has a repeated cycle. A \<open>Node\<close> is identified by its value,
  since \<open>add_node\<close> keeps one object per value. The set \<open>edges\<close> is the list of its elements
  in the order in which Python iterates over it.
\<close>

record graph =
  edges :: "(string \<times> string) list"
  nodes :: "(string \<times> string list) list"

definition empty_graph :: graph where
  "empty_graph = \<lparr>edges = [], nodes = []\<rparr>"

definition next_nodes :: "graph \<Rightarrow> string \<Rightarrow> string list" where
  "next_nodes g node = map snd (filter (\<lambda>(x, y). x = node) (edges g))"

definition prev_nodes :: "graph \<Rightarrow> string \<Rightarrow> string list" where
  "prev_nodes g node = map fst (filter (\<lambda>(x, y). y = node) (edges g))"

definition add_node :: "string \<Rightarrow> graph \<Rightarrow> graph" where
  "add_node n g = (if map_of (nodes g) n = None then g\<lparr>nodes := dict_set n [] (nodes g)\<rparr> else g)"

definition add_edge :: "string \<Rightarrow> string \<Rightarrow> graph \<Rightarrow> graph" where
  "add_edge n1 n2 g = g\<lparr>edges := (if (n1, n2) \<in> set (edges g) then edges g else edges g @ [(n1, n2)])\<rparr>"

subsection \<open>Reading and writing\<close>

text \<open>
  The greedy group \<open>(.*)"\<close> of both regular expressions: the longest text that ends at a quote
  after which the rest of the pattern, \<open>k\<close>, matches.
\<close>

fun greedy_quote :: "(string \<Rightarrow> 'b option) \<Rightarrow> string \<Rightarrow> (string \<times> 'b) option" where
  "greedy_quote k [] = None"
| "greedy_quote k (c # r) =
     (case greedy_quote k r of
        Some (g, x) \<Rightarrow> Some (c # g, x)
      | None \<Rightarrow> if c = CHR 0x22 then map_option (\<lambda>x. ([], x)) (k r) else None)"

text \<open>\<open>"(.*)"\s*-\>\s*"(.*)"\<close> and \<open>"(.*)"\s*:\s*\[(.*)\]\<close>, matched at the start of the line.\<close>

definition greedy_to :: "char \<Rightarrow> string \<Rightarrow> string option" where
  "greedy_to q s = (if q \<in> set s then Some (rev (tl (dropWhile (\<lambda>c. c \<noteq> q) (rev s)))) else None)"

definition match_edge_tail :: "string \<Rightarrow> string option" where
  "match_edge_tail r =
     (let r1 = dropWhile is_space r in
      if take 2 r1 = ''->'' then
        (case dropWhile is_space (drop 2 r1) of
           c # r2 \<Rightarrow> if c = CHR 0x22 then greedy_to (CHR 0x22) r2 else None
         | [] \<Rightarrow> None)
      else None)"

definition match_files_tail :: "string \<Rightarrow> string option" where
  "match_files_tail r =
     (case dropWhile is_space r of
        c # r1 \<Rightarrow>
          if c = CHR '':'' then
            (case dropWhile is_space r1 of
               d # r2 \<Rightarrow> if d = CHR ''['' then greedy_to (CHR '']'') r2 else None
             | [] \<Rightarrow> None)
          else None
      | [] \<Rightarrow> None)"

fun match_line :: "(string \<Rightarrow> string option) \<Rightarrow> string \<Rightarrow> (string \<times> string) option" where
  "match_line k [] = None"
| "match_line k (c # r) = (if c = CHR 0x22 then greedy_quote k r else None)"

definition deserialize_line :: "string \<Rightarrow> graph \<Rightarrow> pyexc + graph" where
  "deserialize_line l0 g =
     (let l = strip l0 in
      if l = [] then Inr g
      else (case match_line match_edge_tail l of
        Some (lhs, rhs) \<Rightarrow> Inr (add_edge lhs rhs (add_node rhs (add_node lhs g)))
      | None \<Rightarrow>
          (case match_line match_files_tail l of
             Some (n, files) \<Rightarrow>
               ebind (dict_get (nodes g) n)
                 (\<lambda>fs. Inr (g\<lparr>nodes := dict_set n (fs @ split_on (CHR '' '') files) (nodes g)\<rparr>))
           | None \<Rightarrow> Inl GraphSyntaxError)))"

fun deserialize_lines :: "string list \<Rightarrow> graph \<Rightarrow> pyexc + graph" where
  "deserialize_lines [] g = Inr g"
| "deserialize_lines (l # ls) g = ebind (deserialize_line l g) (deserialize_lines ls)"

definition deserialize :: "string \<Rightarrow> graph \<Rightarrow> pyexc + graph" where
  "deserialize content g = deserialize_lines (split_on nl_c content) g"

definition serialize_edge :: "string \<times> string \<Rightarrow> string" where
  "serialize_edge e =
     [CHR 0x22] @ fst e @ [CHR 0x22] @ '' -> '' @ [CHR 0x22] @ snd e @ [CHR 0x22]"

definition serialize :: "graph \<Rightarrow> string" where
  "serialize g = join_with [nl_c] (map serialize_edge (edges g))"

subsection \<open>Paths\<close>

text \<open>\<open>_cycles_on\<close>: the non-empty segments between the occurrences of \<open>n\<close>.\<close>

fun cycles_loop :: "'a list \<Rightarrow> 'a \<Rightarrow> 'a list list \<Rightarrow> 'a list \<Rightarrow> 'a list list" where
  "cycles_loop [] n l accum = l @ [accum]"
| "cycles_loop (seg # path) n l accum =
     (if seg = n then cycles_loop path n (l @ [accum]) []
      else cycles_loop path n l (accum @ [seg]))"

definition cycles_on :: "'a list \<Rightarrow> 'a \<Rightarrow> 'a list list" where
  "cycles_on path n = filter (\<lambda>x. x \<noteq> []) (cycles_loop path n [] [])"

definition has_double_cycle :: "'a list \<Rightarrow> bool" where
  "has_double_cycle path = list_ex (\<lambda>n. \<not> distinct (cycles_on path n)) path"

text \<open>
  \<open>_recurse\<close>: \<open>sp\<close> is the set of paths seen, shared by the whole search; the fuel bounds the
  depth of the recursion. \<open>extend_nodes\<close> is the loop over the successors.
\<close>

fun extend_nodes :: "('a list \<Rightarrow> ('a list set, 'a list list) st) \<Rightarrow> 'a \<Rightarrow> 'a list \<Rightarrow> 'a list \<Rightarrow>
    ('a list set, 'a list list) st" where
  "extend_nodes rec goal path [] = sret []"
| "extend_nodes rec goal path (node # ns) = (\<lambda>sp.
     let p = path @ [node] in
     if p \<in> sp \<or> has_double_cycle path then extend_nodes rec goal path ns sp
     else if node = goal then
       sbind (extend_nodes rec goal path ns) (\<lambda>ps. sret (p # ps)) (insert p sp)
     else
       sbind (rec p)
         (\<lambda>ps1. sbind (extend_nodes rec goal path ns) (\<lambda>ps2. sret (ps1 @ ps2))) (insert p sp))"

fun recurse_paths :: "nat \<Rightarrow> ('a \<times> 'a) list \<Rightarrow> 'a \<Rightarrow> 'a list \<Rightarrow> ('a list set, 'a list list) st" where
  "recurse_paths 0 es goal path = sraise NoFuel"
| "recurse_paths (Suc n) es goal path =
     extend_nodes (recurse_paths n es goal) goal path
       (map snd (filter (\<lambda>e. fst e = last path) es))"

definition find_paths :: "nat \<Rightarrow> graph \<Rightarrow> string \<Rightarrow> string \<Rightarrow> pyexc + string list list" where
  "find_paths fuel g root goal =
     (if map_of (nodes g) root = None \<or> map_of (nodes g) goal = None then Inl KeyError
      else if root = goal then Inr [[root]]
      else fst (recurse_paths fuel (edges g) goal [root] {}))"

text \<open>\<open>Chapter\<close>: the sets of nodes of the paths to a chapter.\<close>

definition chapter_paths :: "nat \<Rightarrow> graph \<Rightarrow> string \<Rightarrow> string \<Rightarrow> pyexc + string set set" where
  "chapter_paths fuel g name root =
     ebind (find_paths fuel g root name) (\<lambda>ps. Inr (set ` set ps))"

subsection \<open>The cycle test is a split at the node\<close>

lemma cycles_loop_split:
  "cycles_loop path n l accum =
     l @ (accum @ hd (split_on n path)) # tl (split_on n path)"
  by (induction path n l accum rule: cycles_loop.induct) auto

lemma cycles_on_split: "cycles_on path n = filter (\<lambda>x. x \<noteq> []) (split_on n path)"
  by (simp add: cycles_on_def cycles_loop_split del: filter.simps)

subsection \<open>What the search explores\<close>

text \<open>
  \<open>explored es goal q p\<close>: from the path \<open>q\<close> the search reaches the complete path \<open>p\<close>.
\<close>

inductive explored :: "('a \<times> 'a) list \<Rightarrow> 'a \<Rightarrow> 'a list \<Rightarrow> 'a list \<Rightarrow> bool"
  for es :: "('a \<times> 'a) list" and goal :: 'a where
  hit: "(last q, goal) \<in> set es \<Longrightarrow> \<not> has_double_cycle q \<Longrightarrow> explored es goal q (q @ [goal])"
| extend: "(last q, n) \<in> set es \<Longrightarrow> n \<noteq> goal \<Longrightarrow> \<not> has_double_cycle q \<Longrightarrow>
     explored es goal (q @ [n]) p \<Longrightarrow> explored es goal q p"

inductive_simps explored_iff: "explored es goal q p"

lemma explored_prefix: "explored es goal q p \<Longrightarrow> take (length q) p = q \<and> length q < length p"
proof (induction rule: explored.induct)
  case (extend q n p)
  then have "take (Suc (length q)) p = q @ [n]" "length q < length p" by auto
  then have "take (length q) (take (Suc (length q)) p) = q" by simp
  with \<open>length q < length p\<close> show ?case by (simp add: min_def)
qed simp

definition extends :: "'a list \<Rightarrow> 'a list \<Rightarrow> bool" where
  "extends q p = (take (length q) p = q)"

lemma extends_snoc: "extends (q @ [n]) p \<Longrightarrow> extends q p"
proof -
  assume "extends (q @ [n]) p"
  then have "take (Suc (length q)) p = q @ [n]" by (simp add: extends_def)
  then have "take (length q) (take (Suc (length q)) p) = q" by simp
  then show ?thesis by (simp add: extends_def min_def)
qed

lemma extends_inj: "extends (q @ [n]) p \<Longrightarrow> extends (q @ [m]) p \<Longrightarrow> m = n"
  by (auto simp: extends_def)

text \<open>The loop over the successors, given what the recursive call does.\<close>

definition sp_post :: "'a list \<Rightarrow> 'a list set \<Rightarrow> 'a list set \<Rightarrow> bool" where
  "sp_post q sp sp' = (\<forall>r\<in>sp'. r \<in> sp \<or> extends q r)"

lemma extend_nodes_spec:
  assumes rec: "\<And>n sp ps sp'. \<forall>r\<in>sp. extends (q @ [n]) r \<longrightarrow> r = q @ [n] \<Longrightarrow>
      rec (q @ [n]) sp = (Inr ps, sp') \<Longrightarrow>
      set ps = {p. explored es goal (q @ [n]) p} \<and> sp_post (q @ [n]) sp sp'"
    and "extend_nodes rec goal q ns sp = (Inr ps, sp')"
    and "distinct ns" and "\<forall>n\<in>set ns. \<forall>r\<in>sp. \<not> extends (q @ [n]) r"
  shows "set ps = {p. \<not> has_double_cycle q \<and> (\<exists>n\<in>set ns.
            if n = goal then p = q @ [n] else explored es goal (q @ [n]) p)} \<and> sp_post q sp sp'"
  using assms(2-)
proof (induction ns arbitrary: sp ps sp')
  case Nil
  then show ?case by (simp add: sp_post_def)
next
  case (Cons n ns)
  have self: "extends (q @ [n]) (q @ [n])" by (simp add: extends_def)
  then have new: "q @ [n] \<notin> sp" using Cons.prems(3) by auto
  have ext: "extends q (q @ [n])" by (simp add: extends_def)
  show ?case
  proof (cases "has_double_cycle q")
    case True
    with Cons new show ?thesis by (simp add: Let_def)
  next
    case False
    show ?thesis
    proof (cases "n = goal")
      case True
      then obtain ps2 where ps: "ps = (q @ [n]) # ps2"
        and run: "extend_nodes rec goal q ns (insert (q @ [n]) sp) = (Inr ps2, sp')"
        using Cons.prems(1) False new by (auto simp: Let_def sbind_eq_Inr)
      have "\<forall>m\<in>set ns. \<forall>r\<in>insert (q @ [n]) sp. \<not> extends (q @ [m]) r"
        using Cons.prems(2,3) extends_inj [OF self] by auto
      with Cons.IH [OF run] Cons.prems(2) show ?thesis
        using ps True False ext by (auto simp: sp_post_def)
    next
      case goal: False
      then obtain ps1 sp1 ps2 where ps: "ps = ps1 @ ps2"
        and run1: "rec (q @ [n]) (insert (q @ [n]) sp) = (Inr ps1, sp1)"
        and run: "extend_nodes rec goal q ns sp1 = (Inr ps2, sp')"
        using Cons.prems(1) False new by (auto simp: Let_def sbind_eq_Inr)
      have "\<forall>r\<in>insert (q @ [n]) sp. extends (q @ [n]) r \<longrightarrow> r = q @ [n]"
        using Cons.prems(3) by auto
      from rec [OF this run1] have 1: "set ps1 = {p. explored es goal (q @ [n]) p}"
        "\<forall>r\<in>sp1. r = q @ [n] \<or> r \<in> sp \<or> extends (q @ [n]) r" by (auto simp: sp_post_def)
      have "\<forall>m\<in>set ns. \<forall>r\<in>sp1. \<not> extends (q @ [m]) r"
        using Cons.prems(2,3) 1(2) extends_inj self by (metis distinct.simps(2) list.set_intros(2))
      from Cons.IH [OF run _ this] Cons.prems(2)
      have 2: "set ps2 = {p. \<not> has_double_cycle q \<and> (\<exists>n\<in>set ns.
            if n = goal then p = q @ [n] else explored es goal (q @ [n]) p)}"
        "\<forall>r\<in>sp'. r \<in> sp1 \<or> extends q r" by (auto simp: sp_post_def)
      have "sp_post q sp sp'" using 1(2) 2(2) ext extends_snoc by (fastforce simp: sp_post_def)
      moreover have "set ps = {p. \<not> has_double_cycle q \<and> (\<exists>n\<in>set (n # ns).
            if n = goal then p = q @ [n] else explored es goal (q @ [n]) p)}"
        using ps 1(1) 2(1) goal False by auto
      ultimately show ?thesis by blast
    qed
  qed
qed

lemma recurse_paths_spec:
  assumes "distinct es" and "\<forall>r\<in>sp. extends q r \<longrightarrow> r = q"
    and "recurse_paths fuel es goal q sp = (Inr ps, sp')"
  shows "set ps = {p. explored es goal q p} \<and> sp_post q sp sp'"
  using assms
proof (induction fuel arbitrary: q sp ps sp')
  case (Suc fuel)
  let ?ns = "map snd (filter (\<lambda>e. fst e = last q) es)"
  have "distinct ?ns" using Suc.prems(1)
    by (auto simp: distinct_map inj_on_def)
  moreover have "\<forall>n\<in>set ?ns. \<forall>r\<in>sp. \<not> extends (q @ [n]) r"
    using Suc.prems(2) extends_snoc by (fastforce simp: extends_def)
  moreover have "extend_nodes (recurse_paths fuel es goal) goal q ?ns sp = (Inr ps, sp')"
    using Suc.prems(3) by simp
  ultimately have *: "set ps = {p. \<not> has_double_cycle q \<and> (\<exists>n\<in>set ?ns.
            if n = goal then p = q @ [n] else explored es goal (q @ [n]) p)} \<and> sp_post q sp sp'"
    by (intro extend_nodes_spec [where rec = "recurse_paths fuel es goal"] Suc.IH [OF Suc.prems(1)])
  moreover have "{p. \<not> has_double_cycle q \<and> (\<exists>n\<in>set ?ns.
            if n = goal then p = q @ [n] else explored es goal (q @ [n]) p)} = {p. explored es goal q p}"
    by (subst (2) explored_iff) (force split: if_splits)
  ultimately show ?case by blast
qed simp

text \<open>The paths the search is meant to return, without reference to the search.\<close>

definition search_path :: "('a \<times> 'a) list \<Rightarrow> 'a \<Rightarrow> 'a list \<Rightarrow> 'a list \<Rightarrow> bool" where
  "search_path es goal q p = (take (length q) p = q \<and> length q < length p \<and> last p = goal \<and>
     (\<forall>i. length q \<le> i \<and> Suc i < length p \<longrightarrow> p ! i \<noteq> goal) \<and>
     (\<forall>i. length q \<le> Suc i \<and> Suc i < length p \<longrightarrow> (p ! i, p ! Suc i) \<in> set es) \<and>
     (\<forall>k. length q \<le> k \<and> k < length p \<longrightarrow> \<not> has_double_cycle (take k p)))"

lemma take_last:
  assumes "take (length q) p = q" "q \<noteq> []"
  shows "p ! (length q - 1) = last q"
proof -
  have "take (length q) p ! (length q - 1) = p ! (length q - 1)" using assms(2) by (intro nth_take) simp
  then show ?thesis using assms by (simp add: last_conv_nth)
qed

lemma explored_search_path: "explored es goal q p \<Longrightarrow> q \<noteq> [] \<Longrightarrow> search_path es goal q p"
proof (induction rule: explored.induct)
  case (hit q)
  have "(q @ [goal]) ! i = last q \<and> (q @ [goal]) ! Suc i = goal"
    if "length q \<le> Suc i" "Suc i < length (q @ [goal])" for i
  proof -
    have "Suc i = length q" using that by simp
    then have "i = length q - 1" "i < length q" "\<not> Suc i < length q" by auto
    with hit(3) show ?thesis by (simp add: nth_append last_conv_nth)
  qed
  moreover have "take k (q @ [goal]) = q" if "length q \<le> k" "k < length (q @ [goal])" for k
    using that by simp
  note ends = this and steps = calculation
  show ?case unfolding search_path_def
  proof (intro conjI allI impI)
    fix i assume "length q \<le> Suc i \<and> Suc i < length (q @ [goal])"
    then show "((q @ [goal]) ! i, (q @ [goal]) ! Suc i) \<in> set es" using steps hit(1) by presburger
  next
    fix k assume "length q \<le> k \<and> k < length (q @ [goal])"
    then show "\<not> has_double_cycle (take k (q @ [goal]))" using ends hit(2) by simp
  qed auto
next
  case (extend q n p)
  then have "search_path es goal (q @ [n]) p" by simp
  then have p: "take (Suc (length q)) p = q @ [n]" "Suc (length q) < length p" "last p = goal"
    and g: "\<And>i. Suc (length q) \<le> i \<Longrightarrow> Suc i < length p \<Longrightarrow> p ! i \<noteq> goal"
    and e: "\<And>i. Suc (length q) \<le> Suc i \<Longrightarrow> Suc i < length p \<Longrightarrow> (p ! i, p ! Suc i) \<in> set es"
    and d: "\<And>k. Suc (length q) \<le> k \<Longrightarrow> k < length p \<Longrightarrow> \<not> has_double_cycle (take k p)"
    by (simp_all add: search_path_def)
  have q: "take (length q) p = q" using arg_cong [OF p(1), of "take (length q)"] by (simp add: min_def)
  have n: "p ! length q = n" using arg_cong [OF p(1), of "\<lambda>l. l ! length q"] by simp
  have l: "p ! (length q - 1) = last q" by (rule take_last [OF q extend.prems])
  have "(p ! i, p ! Suc i) \<in> set es" if "length q \<le> Suc i" "Suc i < length p" for i
  proof (cases "length q = Suc i")
    case True
    then have "i = length q - 1" by simp
    then have "p ! i = last q" "p ! Suc i = n" using l n True by simp_all
    then show ?thesis using extend.hyps(1) by simp
  next
    case False
    then show ?thesis using that by (intro e) simp_all
  qed
  moreover have "p ! i \<noteq> goal" if "length q \<le> i" "Suc i < length p" for i
    using g n extend.hyps(2) that by (cases "i = length q") simp_all
  moreover have "\<not> has_double_cycle (take k p)" if "length q \<le> k" "k < length p" for k
  proof (cases "k = length q")
    case True
    then show ?thesis unfolding True q by (intro extend.hyps(3))
  next
    case False
    then show ?thesis using that by (intro d) simp_all
  qed
  ultimately show ?case unfolding search_path_def using q p(2,3) Suc_lessD by blast
qed

lemma search_path_explored: "search_path es goal q p \<Longrightarrow> q \<noteq> [] \<Longrightarrow> explored es goal q p"
proof (induction "length p - length q" arbitrary: q)
  case 0
  then show ?case by (simp add: search_path_def)
next
  case (Suc d)
  from Suc.prems have sp: "take (length q) p = q" "length q < length p" "last p = goal"
    "\<And>i. length q \<le> i \<Longrightarrow> Suc i < length p \<Longrightarrow> p ! i \<noteq> goal"
    "\<And>i. length q \<le> Suc i \<Longrightarrow> Suc i < length p \<Longrightarrow> (p ! i, p ! Suc i) \<in> set es"
    "\<And>k. length q \<le> k \<Longrightarrow> k < length p \<Longrightarrow> \<not> has_double_cycle (take k p)"
    by (auto simp: search_path_def)
  let ?n = "p ! length q"
  have step: "take (length (q @ [?n])) p = q @ [?n]" using sp(1,2) by (simp add: take_Suc_conv_app_nth)
  have l: "p ! (length q - 1) = last q" by (rule take_last [OF sp(1) Suc.prems(2)])
  have e: "(last q, ?n) \<in> set es" using sp(5) [of "length q - 1"] sp(2) l Suc.prems(2) by simp
  have hdc: "\<not> has_double_cycle q" using sp(6) [of "length q"] sp(1,2) by simp
  show ?case
  proof (cases "Suc (length q) = length p")
    case True
    then have "p = q @ [?n]" using step by simp
    moreover from this have "?n = goal" using sp(3) by (metis last_snoc)
    ultimately show ?thesis using e hdc explored.hit [of q goal es] by auto
  next
    case False
    have "search_path es goal (q @ [?n]) p"
      using sp step False by (simp add: search_path_def)
    moreover have "d = length p - length (q @ [?n])" using Suc.hyps(2) by simp
    ultimately have "explored es goal (q @ [?n]) p" using Suc.hyps(1) by simp
    moreover have "?n \<noteq> goal" using sp(2,4) False by simp
    ultimately show ?thesis using e hdc explored.extend by fast
  qed
qed

text \<open>C8: When find_paths returns, the paths it lists are exactly the paths of the specification: edge paths from the root to the goal that meet the goal only at the end and none of whose proper prefixes has a doubled cycle.\<close>

theorem find_paths_exact:
  assumes "find_paths fuel g root goal = Inr ps" and "distinct (edges g)" and "root \<noteq> goal"
  shows "p \<in> set ps \<longleftrightarrow> search_path (edges g) goal [root] p"
proof -
  obtain sp' where "recurse_paths fuel (edges g) goal [root] {} = (Inr ps, sp')"
    using assms(1,3) by (cases "recurse_paths fuel (edges g) goal [root] {}")
      (auto simp: find_paths_def split: if_splits)
  from recurse_paths_spec [OF assms(2) _ this]
  show ?thesis using explored_search_path search_path_explored by fastforce
qed

subsection \<open>Termination\<close>

text \<open>A word that repeats a non-empty cycle at one of its letters.\<close>

definition double :: "'a list \<Rightarrow> bool" where
  "double w = (\<exists>n s x v p q. w = x @ [n] @ s @ v \<and> s \<noteq> [] \<and> n \<notin> set s \<and>
     v = p @ [n] @ s @ [n] @ q \<and> hd v = n)"

lemma doubleI: "w = x @ [n] @ s @ v \<Longrightarrow> s \<noteq> [] \<Longrightarrow> n \<notin> set s \<Longrightarrow>
     v = p @ [n] @ s @ [n] @ q \<Longrightarrow> hd v = n \<Longrightarrow> double w"
  unfolding double_def by blast

lemma double_has_double_cycle:
  assumes "double w"
  shows "has_double_cycle w"
proof -
  from assms obtain n s x v p q where w: "w = x @ [n] @ s @ v" "s \<noteq> []" "n \<notin> set s"
    "v = p @ [n] @ s @ [n] @ q" "hd v = n" unfolding double_def by blast
  have "v \<noteq> []" using w(4) by simp
  then obtain v' where v': "v = n # v'" using w(5) by (metis list.exhaust_sel)
  have "s \<in> set (split_on n v')"
  proof (cases p)
    case Nil
    then have "v' = s @ n # q" using v' w(4) by simp
    then show ?thesis using w(3) by (simp add: split_on_append split_on_free)
  next
    case (Cons m p')
    then have "v' = p' @ n # s @ n # q" using v' w(4) by simp
    then show ?thesis using w(3) by (simp add: split_on_append split_on_free)
  qed
  moreover have "split_on n w = split_on n x @ s # split_on n v'"
    using w(1,3) v' by (simp add: split_on_append split_on_free)
  ultimately have "\<not> distinct (cycles_on w n)" using w(2) by (auto simp: cycles_on_split)
  moreover have "n \<in> set w" using w(1) by simp
  ultimately show ?thesis by (auto simp: has_double_cycle_def list_ex_iff)
qed

lemma double_factor: "double u \<Longrightarrow> double (x @ u @ y)"
proof -
  assume "double u"
  then obtain n s x' v p q where u: "u = x' @ [n] @ s @ v" "s \<noteq> []" "n \<notin> set s"
    "v = p @ [n] @ s @ [n] @ q" "hd v = n" unfolding double_def by blast
  show ?thesis
    by (rule doubleI [of _ "x @ x'" n s "v @ y" p "q @ y"]) (use u in \<open>auto simp: hd_append\<close>)
qed

lemma split_on_factor:
  assumes "s \<in> set (split_on a w)"
  shows "\<exists>x y. w = x @ s @ y"
proof -
  from assms obtain S T where ST: "split_on a w = S @ s # T" by (meson split_list)
  have "\<exists>x y. join_with [a] (S @ s # T) = x @ s @ y"
  proof (cases "S = []")
    case True
    then show ?thesis by (cases T) (auto intro: exI [of _ "[]"])
  next
    case False
    then have "join_with [a] (S @ s # T) = join_with [a] S @ [a] @ join_with [a] (s # T)"
      by (simp add: join_with_append)
    moreover have "\<exists>y. join_with [a] (s # T) = s @ y" by (cases T) auto
    ultimately show ?thesis by (metis append.assoc)
  qed
  then show ?thesis using ST join_split_on [of a w] by metis
qed

lemma bounded_words:
  assumes "finite A"
  shows "\<exists>B. \<forall>w. set w \<subseteq> A \<longrightarrow> distinct_adj w \<longrightarrow> \<not> double w \<longrightarrow> length w \<le> B"
  using assms
proof (induction rule: finite_induct)
  case empty
  then show ?case by auto
next
  case (insert a A)
  then obtain B where B: "\<And>w. set w \<subseteq> A \<Longrightarrow> distinct_adj w \<Longrightarrow> \<not> double w \<Longrightarrow> length w \<le> B" by blast
  define F where "F = {s. set s \<subseteq> A \<and> length s \<le> B}"
  have finF: "finite F" using insert.hyps(1) by (simp add: F_def finite_lists_length_le)
  have "length w \<le> (card F + 2) * Suc B"
    if w: "set w \<subseteq> insert a A" "distinct_adj w" "\<not> double w" for w
  proof -
    let ?S = "split_on a w"
    have S: "s \<in> F" "length s \<le> B" if s: "s \<in> set ?S" for s
    proof -
      obtain x y where xy: "w = x @ s @ y" using split_on_factor [OF s] by blast
      have "set s \<subseteq> A" using w(1) split_on_notin [OF s] xy by auto
      moreover have "distinct_adj s" using w(2) xy by (auto simp: distinct_adj_append_iff)
      moreover have "\<not> double s" using w(3) xy double_factor by blast
      ultimately show "length s \<le> B" using B by blast
      with \<open>set s \<subseteq> A\<close> show "s \<in> F" by (simp add: F_def)
    qed
    have "length ?S \<le> card F + 2"
    proof (rule ccontr)
      assume long: "\<not> length ?S \<le> card F + 2"
      then obtain s0 R where "?S = s0 # R" by (cases ?S) auto
      moreover from this long obtain M sl where "R = M @ [sl]" by (cases R rule: rev_cases) auto
      ultimately have SM: "?S = s0 # M @ [sl]" by simp
      have "\<not> distinct M"
      proof
        assume "distinct M"
        then have "length M = card (set M)" by (simp add: distinct_card)
        also have "\<dots> \<le> card F" using S SM finF by (intro card_mono) auto
        finally show False using long SM by simp
      qed
      then obtain T1 T2 T3 s where M: "M = T1 @ [s] @ T2 @ [s] @ T3" using not_distinct_decomp by blast
      have w1: "w = join_with [a] (s0 # T1) @ [a] @ s @ [a] @ join_with [a] (T2 @ [s] @ T3 @ [sl])"
        using join_split_on [of a w] join_with_append [of "s0 # T1" "s # T2 @ [s] @ T3 @ [sl]" "[a]"]
          join_with_append [of "[s]" "T2 @ [s] @ T3 @ [sl]" "[a]"]
        by (simp add: SM M)
      have sne: "s \<noteq> []"
      proof
        assume "s = []"
        then have "distinct_adj ([a] @ [a] @ join_with [a] (T2 @ [s] @ T3 @ [sl]))"
          using w(2) w1 by (simp add: distinct_adj_append_iff)
        then show False by simp
      qed
      have sa: "a \<notin> set s" using SM M split_on_notin [of s a w] by simp
      have "\<exists>p q. [a] @ join_with [a] (T2 @ [s] @ T3 @ [sl]) = p @ [a] @ s @ [a] @ q"
      proof (cases "T2 = []")
        case True
        then have "[a] @ join_with [a] (T2 @ [s] @ T3 @ [sl]) = [] @ [a] @ s @ [a] @ join_with [a] (T3 @ [sl])"
          using join_with_append [of "[s]" "T3 @ [sl]" "[a]"] by simp
        then show ?thesis by blast
      next
        case False
        then have "join_with [a] (T2 @ [s] @ T3 @ [sl]) =
            join_with [a] T2 @ [a] @ s @ [a] @ join_with [a] (T3 @ [sl])"
          using join_with_append [of T2 "[s] @ T3 @ [sl]" "[a]"] join_with_append [of "[s]" "T3 @ [sl]" "[a]"] by simp
        then have "[a] @ join_with [a] (T2 @ [s] @ T3 @ [sl]) =
            ([a] @ join_with [a] T2) @ [a] @ s @ [a] @ join_with [a] (T3 @ [sl])" by simp
        then show ?thesis by blast
      qed
      then obtain p q where "[a] @ join_with [a] (T2 @ [s] @ T3 @ [sl]) = p @ [a] @ s @ [a] @ q" by blast
      moreover have "hd ([a] @ join_with [a] (T2 @ [s] @ T3 @ [sl])) = a" by simp
      ultimately have "double w" by (rule doubleI [OF w1 sne sa])
      with w(3) show False by blast
    qed
    moreover have "length w \<le> length ?S * Suc B"
      using length_join_bound [of ?S B a] S(2) join_split_on [of a w] by simp
    ultimately show ?thesis using mult_le_mono1 le_trans by blast
  qed
  then show ?case by blast
qed

lemma st_true [simp]: "reflp (\<lambda>_ _. True)" "transp (\<lambda>_ _. True)"
  by (auto simp: reflp_def transp_def)

lemma extend_nodes_ok:
  assumes "\<not> has_double_cycle q \<Longrightarrow> (\<And>n sp. n \<in> set ns \<Longrightarrow> n \<noteq> goal \<Longrightarrow> st_ok (\<lambda>_ _. True) (rec (q @ [n])) sp)"
  shows "st_ok (\<lambda>_ _. True) (extend_nodes rec goal q ns) sp"
  using assms
proof (induction ns arbitrary: sp)
  case (Cons n ns)
  have IH: "st_ok (\<lambda>_ _. True) (extend_nodes rec goal q ns) sp" for sp using Cons by auto
  have "st_ok (\<lambda>_ _. True) (sbind (extend_nodes rec goal q ns) (\<lambda>ps. sret (p # ps))) sp" for p sp
    by (auto intro!: st_ok_intros IH)
  moreover have "st_ok (\<lambda>_ _. True) (sbind (rec (q @ [n])) (\<lambda>ps1. sbind (extend_nodes rec goal q ns)
     (\<lambda>ps2. sret (ps1 @ ps2)))) sp" if "n \<noteq> goal" "\<not> has_double_cycle q" for sp
    by (auto intro!: st_ok_intros IH Cons.prems that)
  ultimately show ?case using IH by (simp add: st_ok_def Let_def)
qed (simp add: st_ok_def)

lemma recurse_paths_ok:
  assumes B: "\<And>w. set w \<subseteq> A \<Longrightarrow> distinct_adj w \<Longrightarrow> \<not> has_double_cycle w \<Longrightarrow> length w \<le> B"
    and es: "\<And>a b. (a, b) \<in> set es \<Longrightarrow> a \<noteq> b \<and> b \<in> A"
  shows "B + 1 < length q + fuel \<Longrightarrow> 0 < fuel \<Longrightarrow> q \<noteq> [] \<Longrightarrow> set q \<subseteq> A \<Longrightarrow> distinct_adj q \<Longrightarrow>
    st_ok (\<lambda>_ _. True) (recurse_paths fuel es goal q) sp"
proof (induction fuel arbitrary: q sp)
  case (Suc fuel)
  have "st_ok (\<lambda>_ _. True) (recurse_paths fuel es goal (q @ [n])) sp"
    if "\<not> has_double_cycle q" "n \<in> set (map snd (filter (\<lambda>e. fst e = last q) es))" for n sp
  proof (rule Suc.IH)
    have e: "(last q, n) \<in> set es" using that(2) by auto
    then show "set (q @ [n]) \<subseteq> A" "distinct_adj (q @ [n])"
      using Suc.prems es [OF e] by (auto simp: distinct_adj_append_iff)
    have "length q \<le> B" using B Suc.prems that(1) by blast
    then show "0 < fuel" "B + 1 < length (q @ [n]) + fuel" using Suc.prems(1) by auto
  qed simp
  then show ?case by (simp only: recurse_paths.simps) (rule extend_nodes_ok, blast)
qed simp

text \<open>C26: On a graph without self loops the search always returns for some finite depth: words without a doubled cycle over a finite alphabet have bounded length.\<close>

theorem find_paths_terminates:
  assumes "\<And>a. (a, a) \<notin> set (edges g)"
  shows "\<exists>fuel. find_paths fuel g root goal \<noteq> Inl NoFuel"
proof -
  let ?A = "insert root (snd ` set (edges g))"
  obtain B where "\<And>w. set w \<subseteq> ?A \<Longrightarrow> distinct_adj w \<Longrightarrow> \<not> double w \<Longrightarrow> length w \<le> B"
    using bounded_words [of ?A] by auto
  then have bound: "\<And>w. set w \<subseteq> ?A \<Longrightarrow> distinct_adj w \<Longrightarrow> \<not> has_double_cycle w \<Longrightarrow> length w \<le> B"
    using double_has_double_cycle by blast
  have "st_ok (\<lambda>_ _. True) (recurse_paths (B + 2) (edges g) goal [root]) {}"
    by (rule recurse_paths_ok [where A = ?A and B = B, OF bound]) (use assms in \<open>force+\<close>)
  then have "find_paths (B + 2) g root goal \<noteq> Inl NoFuel"
    by (auto simp: find_paths_def st_ok_def)
  then show ?thesis by blast
qed

text \<open>A self loop defeats the cycle test, since its segments are empty.\<close>

lemma double_cycle_replicate: "\<not> has_double_cycle (replicate k a)"
proof -
  have "split_on a (replicate k a) = replicate (Suc k) []" by (induction k) auto
  then have "cycles_on (replicate k a) a = []" by (simp add: cycles_on_split)
  then show ?thesis by (auto simp: has_double_cycle_def list_ex_iff)
qed

theorem find_paths_self_loop_diverges:
  "find_paths fuel \<lparr>edges = [(''a'', ''a'')], nodes = [(''a'', []), (''b'', [])]\<rparr> ''a'' ''b'' = Inl NoFuel"
proof -
  have "fst (recurse_paths fuel [(''a'', ''a'')] ''b'' (replicate (Suc k) ''a'') sp) = Inl NoFuel"
    if "\<forall>r\<in>sp. length r \<le> Suc k" for k sp
    using that
  proof (induction fuel arbitrary: k sp)
    case (Suc fuel)
    let ?p = "replicate (Suc k) ''a'' @ [''a'']"
    have p: "?p = replicate (Suc (Suc k)) ''a''" by (simp add: replicate_append_same)
    have "?p \<notin> sp" using Suc.prems by fastforce
    moreover have "fst (recurse_paths fuel [(''a'', ''a'')] ''b'' ?p (insert ?p sp)) = Inl NoFuel"
      unfolding p using Suc.prems by (intro Suc.IH) auto
    moreover have "last (replicate (Suc k) ''a'') = ''a''" by simp
    ultimately show ?case using double_cycle_replicate [of "Suc k" "''a''"]
      by (cases "recurse_paths fuel [(''a'', ''a'')] ''b'' ?p (insert ?p sp)")
        (simp add: Let_def del: replicate.simps)
  qed simp
  from this [of "{}" 0] show ?thesis by (simp add: find_paths_def)
qed

definition example_graph :: graph where
  "example_graph = \<lparr>edges = [(''a'', ''b''), (''b'', ''a''), (''b'', ''c'')],
     nodes = [(''a'', []), (''b'', []), (''c'', [])]\<rparr>"

theorem find_paths_exact_witness:
  "\<exists>ps. find_paths 9 example_graph ''a'' ''c'' = Inr ps \<and>
     (\<forall>p. p \<in> set ps \<longleftrightarrow> search_path (edges example_graph) ''c'' [''a''] p)"
proof -
  have "\<not> isl (find_paths 9 example_graph ''a'' ''c'')" by code_simp
  then obtain ps where "find_paths 9 example_graph ''a'' ''c'' = Inr ps"
    by (cases "find_paths 9 example_graph ''a'' ''c''") auto
  with find_paths_exact [OF this] show ?thesis by (auto simp: example_graph_def)
qed

theorem find_paths_terminates_witness:
  "\<exists>fuel. find_paths fuel example_graph ''a'' ''c'' \<noteq> Inl NoFuel"
  by (rule find_paths_terminates) (simp add: example_graph_def)

subsection \<open>Serialisation\<close>

definition plain_name :: "string \<Rightarrow> bool" where
  "plain_name s = (CHR 0x22 \<notin> set s \<and> nl_c \<notin> set s)"

lemma greedy_quote_free:
  "CHR 0x22 \<notin> set s \<Longrightarrow>
   greedy_quote k (s @ r) = map_option (\<lambda>(g, x). (s @ g, x)) (greedy_quote k r)"
proof (induction s)
  case Nil
  show ?case by (cases "greedy_quote k r") auto
next
  case (Cons c s)
  then show ?case by (cases "greedy_quote k r") auto
qed

lemma greedy_to_snoc: "greedy_to q (s @ [q]) = Some s"
  by (simp add: greedy_to_def)

lemma only_last_quote:
  assumes "CHR 0x22 \<notin> set b" "b @ [CHR 0x22] = u @ CHR 0x22 # r"
  shows "r = []"
proof (cases r rule: rev_cases)
  case (snoc r' x)
  then have "b = u @ CHR 0x22 # r'" using assms(2) by simp
  with assms(1) show ?thesis by simp
qed simp

lemma dropWhile_suffix: "\<exists>u. s = u @ dropWhile P s"
  by (metis takeWhile_dropWhile_id)

lemma match_edge_tail_last:
  assumes "CHR 0x22 \<notin> set b"
  shows "match_edge_tail (b @ [CHR 0x22]) = None"
proof -
  let ?t = "dropWhile is_space (drop 2 (dropWhile is_space (b @ [CHR 0x22])))"
  obtain u1 where "b @ [CHR 0x22] = u1 @ dropWhile is_space (b @ [CHR 0x22])"
    using dropWhile_suffix by blast
  moreover obtain u2 where "drop 2 (dropWhile is_space (b @ [CHR 0x22])) = u2 @ ?t"
    using dropWhile_suffix by blast
  ultimately have "b @ [CHR 0x22] = (u1 @ take 2 (dropWhile is_space (b @ [CHR 0x22])) @ u2) @ ?t"
    by (metis append.assoc append_take_drop_id)
  then have t: "r = []" if "?t = CHR 0x22 # r" for r
    using only_last_quote [OF assms, of "u1 @ take 2 (dropWhile is_space (b @ [CHR 0x22])) @ u2" r] that
    by simp
  have "(case t of [] \<Rightarrow> None | c # r2 \<Rightarrow> if c = CHR 0x22 then greedy_to (CHR 0x22) r2 else None) = None"
    if "\<And>r. t = CHR 0x22 # r \<Longrightarrow> r = []" for t
    using that by (cases t) (auto simp: greedy_to_def)
  from this [OF t] show ?thesis unfolding match_edge_tail_def Let_def by simp
qed

lemma match_serialized:
  assumes "plain_name a" "plain_name b"
  shows "match_line match_edge_tail (serialize_edge (a, b)) = Some (a, b)"
proof -
  let ?q = "CHR 0x22"
  have fin: "greedy_quote match_edge_tail (b @ [?q]) = None"
    using assms(2) by (simp add: greedy_quote_free plain_name_def match_edge_tail_def)
  have mid: "greedy_quote match_edge_tail ('' -> '' @ ?q # b @ [?q]) = None"
    using assms(2) fin match_edge_tail_last [of b]
    by (subst greedy_quote_free) (auto simp: plain_name_def)
  have "match_edge_tail ('' -> '' @ ?q # b @ [?q]) = Some b"
    by (simp add: match_edge_tail_def is_space_def greedy_to_snoc)
  then have "greedy_quote match_edge_tail (?q # '' -> '' @ ?q # b @ [?q]) = Some ([], b)"
    using mid by simp
  then have "greedy_quote match_edge_tail (a @ ?q # '' -> '' @ ?q # b @ [?q]) = Some (a, b)"
    using assms(1) by (subst greedy_quote_free) (auto simp: plain_name_def)
  then show ?thesis by (simp add: serialize_edge_def)
qed

lemma strip_serialized: "strip (serialize_edge e) = serialize_edge e"
  by (simp add: strip_def serialize_edge_def is_space_def)

lemma deserialize_serialized_line:
  assumes "plain_name a" "plain_name b"
  shows "deserialize_line (serialize_edge (a, b)) g = Inr (add_edge a b (add_node b (add_node a g)))"
proof -
  have "serialize_edge (a, b) \<noteq> []" by (simp add: serialize_edge_def)
  then show ?thesis using match_serialized [OF assms] by (simp add: deserialize_line_def strip_serialized)
qed

lemma add_node_simps [simp]:
  "edges (add_node n g) = edges g"
  "fst ` set (nodes (add_node n g)) = insert n (fst ` set (nodes g))"
  by (auto simp: add_node_def map_of_eq_None_iff domIff dest: map_of_SomeD)

lemma add_edge_simps [simp]:
  "nodes (add_edge a b g) = nodes g"
  "(a, b) \<notin> set (edges g) \<Longrightarrow> edges (add_edge a b g) = edges g @ [(a, b)]"
  by (auto simp: add_edge_def)

lemma deserialize_edges:
  assumes "\<forall>(a, b)\<in>set es. plain_name a \<and> plain_name b" "distinct (edges g @ es)"
  shows "\<exists>g'. deserialize_lines (map serialize_edge es) g = Inr g' \<and> edges g' = edges g @ es \<and>
     fst ` set (nodes g') = fst ` set (nodes g) \<union> fst ` set es \<union> snd ` set es"
  using assms
proof (induction es arbitrary: g)
  case (Cons e es)
  obtain a b where e: "e = (a, b)" by fastforce
  let ?g = "add_edge a b (add_node b (add_node a g))"
  have "(a, b) \<notin> set (edges g)" using Cons.prems e by auto
  then have g: "edges ?g = edges g @ [(a, b)]" by simp
  with Cons.prems e have "distinct (edges ?g @ es)" by simp
  with Cons.IH [of ?g] Cons.prems(1) obtain g' where
    "deserialize_lines (map serialize_edge es) ?g = Inr g'" "edges g' = edges ?g @ es"
    "fst ` set (nodes g') = fst ` set (nodes ?g) \<union> fst ` set es \<union> snd ` set es" by auto
  then show ?case using Cons.prems(1) e g deserialize_serialized_line [of a b g] by auto
qed simp

theorem serialize_roundtrip:
  assumes "distinct (edges g)" and "\<forall>(a, b)\<in>set (edges g). plain_name a \<and> plain_name b"
  shows "\<exists>g'. deserialize (serialize g) empty_graph = Inr g' \<and> edges g' = edges g \<and>
     fst ` set (nodes g') = fst ` set (edges g) \<union> snd ` set (edges g)"
proof (cases "edges g = []")
  case True
  then show ?thesis
    by (simp add: serialize_def deserialize_def deserialize_line_def strip_def empty_graph_def)
next
  case False
  have "nl_c \<notin> set (serialize_edge e)" if "e \<in> set (edges g)" for e
    using assms(2) that by (cases e) (auto simp: serialize_edge_def plain_name_def)
  then have "split_on nl_c (serialize g) = map serialize_edge (edges g)"
    unfolding serialize_def using False by (intro split_on_join) auto
  then show ?thesis
    using deserialize_edges [of "edges g" empty_graph] assms
    by (simp add: deserialize_def empty_graph_def)
qed

theorem serialize_roundtrip_witness:
  "\<exists>g'. deserialize (serialize example_graph) empty_graph = Inr g' \<and> edges g' = edges example_graph \<and>
     fst ` set (nodes g') = fst ` set (edges example_graph) \<union> snd ` set (edges example_graph)"
  by (rule serialize_roundtrip) (auto simp: example_graph_def plain_name_def)

end
