(* ===== verification/BinaryLib.thy ===== *)
theory BinaryLib
  imports Prelude
begin

section \<open>Bits, bytes and hex dumps (\<open>construct/lib/binary.py\<close>, \<open>construct/lib/hex.py\<close>)\<close>

text \<open>
  A bit string is a Python \<open>str\<close> whose characters are \<open>'\x00'\<close> and \<open>'\x01'\<close>, most significant
  bit first. The loops over a preallocated \<open>bytearray\<close> or list update it by index, as the source
  does.
\<close>

unbundle bit_operations_syntax

subsection \<open>Integers as bit strings\<close>

fun int_to_bin_loop :: "nat \<Rightarrow> int \<Rightarrow> string \<Rightarrow> string" where
  "int_to_bin_loop 0 number bits = bits"
| "int_to_bin_loop (Suc i) number bits =
     (if number = 0 then bits
      else int_to_bin_loop i (drop_bit 1 number) (bits[i := chr_c (number AND 1)]))"

definition int_to_bin :: "int \<Rightarrow> int \<Rightarrow> pyexc + string" where
  "int_to_bin number width =
     (if width < 0 then Inl ValueError
      else (let n = (if number < 0 then number + push_bit (nat width) 1 else number)
            in Inr (int_to_bin_loop (nat width) n (replicate (nat width) (CHR 0x00)))))"

definition bit_values :: "char \<Rightarrow> pyexc + int" where
  "bit_values c = dict_get [(CHR 0x00, 0), (CHR 0x01, 1), (CHR ''0'', 0), (CHR ''1'', 1)] c"

fun bin_to_int_loop :: "string \<Rightarrow> int \<Rightarrow> pyexc + int" where
  "bin_to_int_loop [] number = Inr number"
| "bin_to_int_loop (b # bits) number =
     ebind (bit_values b) (\<lambda>v. bin_to_int_loop bits (push_bit 1 number OR v))"

definition bin_to_int :: "string \<Rightarrow> bool \<Rightarrow> pyexc + int" where
  "bin_to_int bits signed =
     (if signed then
        ebind (py_index bits 0) (\<lambda>b0. ebind (bit_values b0) (\<lambda>v.
          if v = 1 then
            ebind (bin_to_int_loop (tl bits) 0) (\<lambda>number. Inr (number - push_bit (length (tl bits)) 1))
          else bin_to_int_loop bits 0))
      else bin_to_int_loop bits 0)"

subsection \<open>Byte order\<close>

function swap_loop :: "nat \<Rightarrow> string \<Rightarrow> nat \<Rightarrow> nat \<Rightarrow> string list \<Rightarrow> string list" where
  "swap_loop bytesize bits i j output =
     (if i < length bits \<and> 0 < bytesize then
        swap_loop bytesize bits (i + bytesize) (j - 1) (output[j := take bytesize (drop i bits)])
      else output)"
  by pat_completeness auto
termination by (relation "measure (\<lambda>(b, bits, i, j, out). length bits - i)") auto

declare swap_loop.simps [simp del]

definition swap_bytes :: "string \<Rightarrow> nat \<Rightarrow> pyexc + string" where
  "swap_bytes bits bytesize =
     (if bytesize = 0 then Inl ZeroDivisionError
      else (let output = replicate (length bits div bytesize + 1) []
            in Inr (concat (swap_loop bytesize bits 0 (length output - 1) output))))"

subsection \<open>Bytes as bit strings\<close>

text \<open>\<open>_char_to_bin\<close> and \<open>_bin_to_char\<close>: the tables the module fills when it is loaded.\<close>

definition char_to_bin :: "char \<Rightarrow> string" where
  "char_to_bin ch = (case int_to_bin (ord_c ch) 8 of Inr b \<Rightarrow> b | Inl _ \<Rightarrow> [])"

definition bin_to_char :: "(string \<times> char) list" where
  "bin_to_char = map (\<lambda>i. (char_to_bin (chr_c (int i)), chr_c (int i))) [0..<256]"

definition encode_bin :: "string \<Rightarrow> string" where
  "encode_bin data = concat (map char_to_bin data)"

fun decode_bin_loop :: "nat \<Rightarrow> string \<Rightarrow> pyexc + string" where
  "decode_bin_loop 0 data = Inr []"
| "decode_bin_loop (Suc l) data =
     ebind (dict_get bin_to_char (take 8 data))
       (\<lambda>c. ebind (decode_bin_loop l (drop 8 data)) (\<lambda>cs. Inr (c # cs)))"

definition decode_bin :: "string \<Rightarrow> pyexc + string" where
  "decode_bin data =
     (if length data mod 8 \<noteq> 0 then Inl ValueError
      else decode_bin_loop (length data div 8) data)"

subsection \<open>Hex dumps\<close>

definition hex_digit :: "bool \<Rightarrow> nat \<Rightarrow> char" where
  "hex_digit upper d = (if d < 10 then chr_c (48 + int d) else chr_c ((if upper then 55 else 87) + int d))"

text \<open>\<open>%X\<close> and \<open>%x\<close> of a non-negative number, and padding with zeros on the left.\<close>

fun hex_of :: "bool \<Rightarrow> nat \<Rightarrow> string" where
  "hex_of upper n =
     (if n < 16 then [hex_digit upper n] else hex_of upper (n div 16) @ [hex_digit upper (n mod 16)])"

declare hex_of.simps [simp del]

definition rjust :: "nat \<Rightarrow> char \<Rightarrow> string \<Rightarrow> string" where
  "rjust w p s = replicate (w - length s) p @ s"

definition printable :: "char \<Rightarrow> char" where
  "printable c = (if 32 \<le> ord_c c \<and> ord_c c < 128 then c else CHR ''.'')"

definition ljust :: "nat \<Rightarrow> char \<Rightarrow> string \<Rightarrow> string" where
  "ljust w p s = s @ replicate (w - length s) p"

function hexdump_loop :: "nat \<Rightarrow> nat \<Rightarrow> nat \<Rightarrow> string \<Rightarrow> string list" where
  "hexdump_loop w linesize i data =
     (if data = [] \<or> linesize = 0 then []
      else (let line = take linesize data;
                hextext = join_with '' '' (map (\<lambda>b. rjust 2 (CHR ''0'') (hex_of False (nat (ord_c b)))) line);
                rawtext = map printable line
            in (rjust w (CHR ''0'') (hex_of True i) @ ''   '' @
                ljust (3 * linesize - 1) (CHR '' '') hextext @ ''   '' @ rawtext)
               # hexdump_loop w linesize (i + linesize) (drop linesize data)))"
  by pat_completeness auto
termination by (relation "measure (\<lambda>(w, l, i, d). length d)") auto

declare hexdump_loop.simps [simp del]

definition hexdump :: "string \<Rightarrow> int \<Rightarrow> pyexc + string list" where
  "hexdump data linesize =
     (if linesize = 0 then Inl ValueError
      else if linesize < 0 then Inr []
      else Inr (hexdump_loop (if length data < 65536 then 4 else 8) (nat linesize) 0 data))"

text \<open>\<open>HexString.__str__\<close>.\<close>

definition hex_string_str :: "string \<Rightarrow> int \<Rightarrow> pyexc + string" where
  "hex_string_str data linesize =
     (if data = [] then Inr [CHR 0x27, CHR 0x27]
      else ebind (hexdump data linesize) (\<lambda>ls. Inr ([nl_c] @ join_with [nl_c] ls)))"

subsection \<open>The loop writes the binary digits\<close>

definition bit_char :: "int \<Rightarrow> char" where
  "bit_char b = chr_c (b mod 2)"

lemma bit_char_01 [simp]: "chr_c 0 = CHR 0x00" "chr_c 1 = CHR 0x01"
  by (simp_all add: chr_c_def char_of_def)

fun bits_of :: "nat \<Rightarrow> int \<Rightarrow> string" where
  "bits_of 0 n = []"
| "bits_of (Suc w) n = bits_of w (n div 2) @ [bit_char n]"

lemma length_bits_of [simp]: "length (bits_of w n) = w"
  by (induction w n rule: bits_of.induct) auto

lemma bits_of_0: "bits_of w 0 = replicate w (CHR 0x00)"
proof (induction w)
  case (Suc w)
  then show ?case by (simp add: bit_char_def replicate_append_same)
qed simp

lemma int_to_bin_loop_bits:
  "int_to_bin_loop w n (replicate w (CHR 0x00) @ ys) = bits_of w n @ ys"
proof (induction w arbitrary: n ys)
  case (Suc w)
  show ?case
  proof (cases "n = 0")
    case True
    then show ?thesis using bits_of_0 [of "Suc w"] by simp
  next
    case False
    have "(replicate (Suc w) (CHR 0x00) @ ys)[w := chr_c (n AND 1)] =
        replicate w (CHR 0x00) @ bit_char n # ys"
      by (subst replicate_append_same [symmetric, of "CHR 0x00" w, folded replicate_Suc])
        (simp add: list_update_append bit_char_def and_one_eq)
    then show ?thesis using False Suc.IH by (simp add: drop_bit_eq_div)
  qed
qed simp

lemma bits_of_mod: "bits_of w (n mod 2 ^ w) = bits_of w n"
proof (induction w arbitrary: n)
  case (Suc w)
  have "n mod 2 ^ Suc w div 2 = n div 2 mod 2 ^ w"
    by (simp add: zmod_zmult2_eq)
  moreover have "n mod 2 ^ Suc w mod 2 = n mod 2" by (simp add: mod_mod_cancel)
  ultimately show ?case using Suc by (simp add: bit_char_def)
qed simp

lemma int_to_bin_eq: "0 \<le> w \<Longrightarrow> int_to_bin n w = Inr (bits_of (nat w) n)"
proof -
  assume w: "0 \<le> w"
  let ?m = "if n < 0 then n + push_bit (nat w) 1 else n"
  have "?m mod 2 ^ nat w = n mod 2 ^ nat w" by (simp add: push_bit_eq_mult)
  then have "bits_of (nat w) ?m = bits_of (nat w) n" using bits_of_mod by metis
  then show ?thesis using w int_to_bin_loop_bits [of "nat w" ?m "[]"]
    by (simp add: int_to_bin_def Let_def)
qed

lemma bit_values_bit_char [simp]: "bit_values (bit_char n) = Inr (n mod 2)"
proof -
  have "n mod 2 = 0 \<or> n mod 2 = 1" by auto
  then show ?thesis by (auto simp: bit_values_def dict_get_def bit_char_def)
qed

lemma bin_to_int_loop_snoc:
  "bin_to_int_loop (bs @ [b]) a = ebind (bin_to_int_loop bs a)
     (\<lambda>n. ebind (bit_values b) (\<lambda>v. Inr (push_bit 1 n OR v)))"
  by (induction bs a rule: bin_to_int_loop.induct) (auto simp: ebind_def split: sum.splits)

lemma double_or_bit: "push_bit 1 (a::int) OR (n mod 2) = 2 * a + n mod 2"
proof -
  have "n mod 2 = 0 \<or> n mod 2 = 1" by auto
  then show ?thesis by (auto simp: push_bit_eq_mult or_one_eq)
qed

lemma bin_to_int_loop_bits_of: "bin_to_int_loop (bits_of w n) 0 = Inr (n mod 2 ^ w)"
proof (induction w arbitrary: n)
  case (Suc w)
  have "2 * (n div 2 mod 2 ^ w) + n mod 2 = n mod 2 ^ Suc w"
    using mod_mult2_eq' [of n 2 "2 ^ w"] by (simp add: mod_mult2_eq)
  then show ?case using Suc double_or_bit [of "n div 2 mod 2 ^ w" n]
    by (simp add: bin_to_int_loop_snoc)
qed simp


lemma bits_of_Cons: "bits_of (Suc w) n = bit_char (n div 2 ^ w) # bits_of w n"
proof (induction w arbitrary: n)
  case (Suc w)
  have "bits_of (Suc (Suc w)) n = bits_of (Suc w) (n div 2) @ [bit_char n]" by simp
  also have "\<dots> = bit_char (n div 2 div 2 ^ w) # bits_of w (n div 2) @ [bit_char n]"
    using Suc [of "n div 2"] by simp
  finally show ?case by (simp add: zdiv_zmult2_eq)
qed simp

theorem int_bin_roundtrip:
  assumes "0 < w"
  shows "ebind (int_to_bin n w) (\<lambda>b. bin_to_int b False) = Inr (take_bit (nat w) n) \<and>
         ebind (int_to_bin n w) (\<lambda>b. bin_to_int b True) = Inr (signed_take_bit (nat w - 1) n)"
proof -
  obtain v where v: "nat w = Suc v" using assms by (cases "nat w") auto
  have [simp]: "bin_to_int_loop (bits_of k n) 0 = Inr (take_bit k n)" for k
    by (simp add: bin_to_int_loop_bits_of take_bit_eq_mod)
  have "n div 2 ^ v mod 2 = of_bool (bit n v)" by (simp add: bit_iff_odd mod2_eq_if)
  then have "bin_to_int (bits_of (Suc v) n) True = Inr (signed_take_bit v n)"
    by (auto simp: bin_to_int_def bits_of_Cons py_index_def signed_take_bit_eq_concat_bit concat_bit_eq
        push_bit_eq_mult take_bit_Suc_from_most simp del: bits_of.simps)
  moreover have "bin_to_int (bits_of (Suc v) n) False = Inr (take_bit (Suc v) n)"
    by (simp add: bin_to_int_def del: bits_of.simps)
  ultimately show ?thesis using assms v by (simp add: int_to_bin_eq del: bits_of.simps)
qed

theorem int_bin_roundtrip_witness:
  "ebind (int_to_bin (-3) 4) (\<lambda>b. bin_to_int b False) = Inr (take_bit (nat 4) (-3)) \<and>
   ebind (int_to_bin (-3) 4) (\<lambda>b. bin_to_int b True) = Inr (signed_take_bit (nat 4 - 1) (-3))"
  by (rule int_bin_roundtrip) simp

subsection \<open>Swapping reverses the chunks\<close>

function chunks :: "nat \<Rightarrow> 'a list \<Rightarrow> 'a list list" where
  "chunks b xs = (if b = 0 \<or> xs = [] then [] else take b xs # chunks b (drop b xs))"
  by pat_completeness auto
termination by (relation "measure (\<lambda>(b, xs). length xs)") auto

declare chunks.simps [simp del]

lemma concat_chunks: "0 < b \<Longrightarrow> concat (chunks b xs) = xs"
proof (induction b xs rule: chunks.induct)
  case (1 b xs)
  then show ?case by (subst chunks.simps) auto
qed

lemma length_chunks: "0 < b \<Longrightarrow> length (chunks b xs) \<le> length xs div b + 1"
proof (induction b xs rule: chunks.induct)
  case (1 b xs)
  show ?case
  proof (cases "xs = []")
    case False
    show ?thesis
    proof (cases "length xs < b")
      case True
      then show ?thesis using False by (subst chunks.simps, subst chunks.simps) simp
    next
      case less: False
      then have "length xs div b = Suc ((length xs - b) div b)" using 1(2) by (simp add: le_div_geq)
      then show ?thesis using 1 False by (subst chunks.simps) simp
    qed
  qed (simp add: chunks.simps)
qed

lemma swap_loop_chunks:
  assumes "i < length bits" "0 < b" "length (chunks b (drop i bits)) \<le> Suc j" "j < length out"
    "take (Suc j) out = replicate (Suc j) []"
  shows "concat (swap_loop b bits i j out) = concat (rev (chunks b (drop i bits))) @ concat (drop (Suc j) out)"
  using assms
proof (induction b bits i j out rule: swap_loop.induct)
  case (1 b bits i j out)
  let ?c = "take b (drop i bits)"
  have ch: "chunks b (drop i bits) = ?c # chunks b (drop (i + b) bits)"
    using 1(2,3) by (subst chunks.simps) (simp add: add.commute)
  have out: "out = replicate j [] @ [] # drop (Suc j) out"
    using append_take_drop_id [of "Suc j" out] 1(6) by (simp add: replicate_append_same [symmetric])
  have out': "out[j := ?c] = replicate j [] @ ?c # drop (Suc j) out"
    by (subst out) (simp add: list_update_append)
  have run: "swap_loop b bits i j out = swap_loop b bits (i + b) (j - 1) (out[j := ?c])"
    using 1(2,3) by (subst swap_loop.simps) simp
  show ?case
  proof (cases "i + b < length bits")
    case True
    then have "chunks b (drop (i + b) bits) \<noteq> []" using 1(3) by (subst chunks.simps) simp
    then have "0 < j" using ch 1(4) by (cases "chunks b (drop (i + b) bits)") auto
    then obtain k where k: "j = Suc k" by (cases j) auto
    have "take (Suc k) out = replicate (Suc k) []"
      using arg_cong [OF 1(6) [unfolded k], of "take (Suc k)"]
      by (simp add: min_def del: replicate.simps take_Suc_Cons)
    then have "concat (swap_loop b bits (i + b) k (out[j := ?c])) =
        concat (rev (chunks b (drop (i + b) bits))) @ concat (drop (Suc k) (out[j := ?c]))"
      using 1(1) [unfolded k] True 1(2-5) ch k out' by (simp add: k)
    then show ?thesis using run k ch out' by simp
  next
    case False
    then have "chunks b (drop (i + b) bits) = []" by (subst chunks.simps) simp
    moreover have "swap_loop b bits (i + b) (j - 1) (out[j := ?c]) = out[j := ?c]"
      using False by (subst swap_loop.simps) simp
    ultimately show ?thesis using run ch out' by simp
  qed
qed

lemma swap_bytes_chunks:
  assumes "0 < b"
  shows "swap_bytes bits b = Inr (concat (rev (chunks b bits)))"
proof (cases "bits = []")
  case True
  have "swap_loop b [] 0 0 [[]] = [[]]" by (subst swap_loop.simps) simp
  then show ?thesis using True assms by (simp add: swap_bytes_def chunks.simps)
next
  case False
  have "concat (swap_loop b bits 0 (length bits div b) (replicate (length bits div b + 1) [])) =
      concat (rev (chunks b (drop 0 bits))) @ concat (drop (Suc (length bits div b)) (replicate (length bits div b + 1) []))"
    using False assms length_chunks [OF assms, of bits] by (intro swap_loop_chunks) auto
  then show ?thesis using assms by (simp add: swap_bytes_def Let_def)
qed

lemma chunks_length: "c \<in> set (chunks b xs) \<Longrightarrow> b dvd length xs \<Longrightarrow> length c = b"
proof (induction b xs rule: chunks.induct)
  case (1 b xs)
  from 1(2) have ne: "b \<noteq> 0" "xs \<noteq> []" by (auto simp: chunks.simps [of b xs] split: if_splits)
  then have "b \<le> length xs" using 1(3) by (auto intro: dvd_imp_le)
  moreover from this 1(3) have "b dvd length (drop b xs)" by auto
  ultimately show ?case using 1(1,2) ne by (auto simp: chunks.simps [of b xs])
qed

lemma chunks_concat:
  "0 < b \<Longrightarrow> (\<And>c. c \<in> set cs \<Longrightarrow> length c = b) \<Longrightarrow> chunks b (concat cs) = cs"
proof (induction cs)
  case Nil
  then show ?case by (simp add: chunks.simps)
next
  case (Cons c cs)
  then have "length c = b" "chunks b (concat cs) = cs" by auto
  then show ?case using Cons.prems(1) by (subst chunks.simps) auto
qed

theorem swap_bytes_involution:
  assumes "0 < b" and "b dvd length bits"
  shows "\<exists>s. swap_bytes bits b = Inr s \<and> length s = length bits \<and> swap_bytes s b = Inr bits"
proof -
  let ?cs = "chunks b bits"
  have "chunks b (concat (rev ?cs)) = rev ?cs"
    using assms chunks_length by (intro chunks_concat) auto
  moreover have "length (concat (rev ?cs)) = length (concat ?cs)"
    by (simp add: length_concat rev_map [symmetric])
  ultimately show ?thesis using swap_bytes_chunks [OF assms(1)] concat_chunks [OF assms(1), of bits] by simp
qed

theorem swap_bytes_involution_witness:
  "\<exists>s. swap_bytes ''00011011'' 2 = Inr s \<and> length s = length ''00011011'' \<and> swap_bytes s 2 = Inr ''00011011''"
  by (rule swap_bytes_involution) simp_all

subsection \<open>Bytes to bits and back\<close>

lemma char_to_bin_bits: "char_to_bin c = bits_of 8 (ord_c c)"
  by (simp add: char_to_bin_def int_to_bin_eq)

lemma length_char_to_bin [simp]: "length (char_to_bin c) = 8"
  by (simp add: char_to_bin_bits)

lemma char_to_bin_inject: "char_to_bin c = char_to_bin d \<longleftrightarrow> c = d"
proof -
  have "c = d" if "bits_of 8 (ord_c c) = bits_of 8 (ord_c d)"
  proof -
    have "ord_c c mod 2 ^ 8 = ord_c d mod 2 ^ 8"
      using arg_cong [OF that, of "\<lambda>b. bin_to_int_loop b 0"] unfolding bin_to_int_loop_bits_of by simp
    then show ?thesis by simp
  qed
  then show ?thesis by (auto simp: char_to_bin_bits)
qed

lemma bin_to_char_inverse [simp]: "dict_get bin_to_char (char_to_bin c) = Inr c"
proof -
  have "inj_on (\<lambda>i. char_to_bin (chr_c (int i))) {0..<256}"
  proof (rule inj_onI)
    fix i j :: nat assume ij: "i \<in> {0..<256}" "j \<in> {0..<256}"
      and "char_to_bin (chr_c (int i)) = char_to_bin (chr_c (int j))"
    then have "ord_c (chr_c (int i)) = ord_c (chr_c (int j))" by (simp add: char_to_bin_inject)
    then show "i = j" using ij by (simp add: ord_chr del: ord_c_inject)
  qed
  then have "distinct (map fst bin_to_char)" by (simp add: bin_to_char_def distinct_map comp_def)
  moreover have "(char_to_bin c, c) \<in> set bin_to_char"
    using ord_c_bounds [of c] by (auto simp: bin_to_char_def intro!: image_eqI [of _ _ "nat (ord_c c)"])
  ultimately have "map_of bin_to_char (char_to_bin c) = Some c" by (rule map_of_is_SomeI)
  then show ?thesis by (simp add: dict_get_def)
qed

lemma bin_to_char_SomeD: "dict_get bin_to_char b = Inr c \<Longrightarrow> b = char_to_bin c"
  by (auto simp: dict_get_def bin_to_char_def split: option.splits dest!: map_of_SomeD)

lemma decode_bin_loop_encode: "decode_bin_loop (length d) (encode_bin d @ r) = Inr d"
  by (induction d) (auto simp: encode_bin_def)

lemma encode_decode_bin_loop:
  "decode_bin_loop l data = Inr d \<Longrightarrow> length data = 8 * l \<Longrightarrow> encode_bin d = data"
proof (induction l arbitrary: data d)
  case (Suc l)
  then obtain c cs where c: "take 8 data = char_to_bin c" "decode_bin_loop l (drop 8 data) = Inr cs" "d = c # cs"
    by (auto simp: ebind_Inr_iff dest: bin_to_char_SomeD)
  then have "encode_bin cs = drop 8 data" using Suc by simp
  then show ?case using c append_take_drop_id [of 8 data] by (simp add: encode_bin_def)
qed (simp add: encode_bin_def)

lemma length_encode_bin [simp]: "length (encode_bin d) = 8 * length d"
  by (induction d) (auto simp: encode_bin_def)

lemma encode_decode_bin_eq [simp]: "decode_bin (encode_bin data) = Inr data"
  using decode_bin_loop_encode [of data "[]"] by (simp add: decode_bin_def)

theorem encode_decode_bin: "decode_bin bits = Inr data \<longleftrightarrow> bits = encode_bin data"
proof
  assume "decode_bin bits = Inr data"
  then show "bits = encode_bin data" using encode_decode_bin_loop [of "length bits div 8" bits data]
    by (auto simp: decode_bin_def split: if_splits)
qed simp

end
