(* ===== verification/PyStream.thy ===== *)
theory PyStream
  imports BinaryLib
begin

section \<open>Streams (\<open>BytesIO\<close>, \<open>construct/lib/bitstream.py\<close>)\<close>

text \<open>
  A stream is an in-memory \<open>BytesIO\<close> (Python 2's \<open>cStringIO\<close>: the data and a position), or one of
  the bit streams of \<open>construct\<close> wrapped around another stream. The methods return the stream as
  they leave it. A position below zero is moved to zero, as \<open>cStringIO\<close> does, and writing beyond
  the end fills the gap with zeros.
\<close>

datatype pystream =
    BytesIO string nat
  | BitReader pystream string int
  | BitWriter pystream "string list" int

subsection \<open>The methods\<close>

fun stream_tell :: "pystream \<Rightarrow> int" where
  "stream_tell (BytesIO d p) = int p"
| "stream_tell (BitReader sub buffer total_size) = stream_tell sub"
| "stream_tell (BitWriter sub buffer pos) = stream_tell sub + pos div 8"

definition ceil8 :: "int \<Rightarrow> int" where
  "ceil8 count = (let bytes = count div 8 in if count mod 8 \<noteq> 0 then bytes + 1 else bytes)"

fun stream_read :: "int \<Rightarrow> (pystream, string) st" where
  "stream_read n (BytesIO d p) =
     (let r = drop p d; x = (if n < 0 then r else take (nat n) r)
      in (Inr x, BytesIO d (p + length x)))"
| "stream_read n (BitReader sub buffer total_size) =
     (if n < 0 then (Inl ValueError, BitReader sub buffer total_size)
      else if n = 0 then (Inr [], BitReader sub buffer total_size)
      else if n \<le> int (length buffer) then
        (Inr (take (nat n) buffer), BitReader sub (drop (nat n) buffer) (total_size + n))
      else (let count = n - int (length buffer) in
        (case stream_read (ceil8 count) sub of
           (Inl e, sub') \<Rightarrow> (Inl e, BitReader sub' buffer total_size)
         | (Inr raw, sub') \<Rightarrow>
             (let buf = encode_bin raw; data = buffer @ take (nat count) buf
              in (Inr data, BitReader sub' (drop (nat count) buf) (total_size + int (length data)))))))"
| "stream_read n (BitWriter sub buffer pos) = (Inl AttributeError, BitWriter sub buffer pos)"

text \<open>Writing: \<open>flush\<close> of a bit writer decodes its buffer into bytes of the stream below.\<close>

definition overwrite :: "string \<Rightarrow> nat \<Rightarrow> string \<Rightarrow> string" where
  "overwrite d p x = take p d @ replicate (p - length d) (CHR 0x00) @ x @ drop (p + length x) d"

fun stream_write :: "string \<Rightarrow> (pystream, unit) st" where
  "stream_write x (BytesIO d p) = (Inr (), BytesIO (overwrite d p x) (p + length x))"
| "stream_write x (BitReader sub buffer total_size) = (Inl AttributeError, BitReader sub buffer total_size)"
| "stream_write x (BitWriter sub buffer pos) =
     (if x = [] then (Inr (), BitWriter sub buffer pos)
      else (Inr (), BitWriter sub (buffer @ [x]) pos))"

fun stream_flush :: "(pystream, unit) st" where
  "stream_flush (BitWriter sub buffer pos) =
     (case decode_bin (concat buffer) of
        Inl e \<Rightarrow> (Inl e, BitWriter sub buffer pos)
      | Inr bytes \<Rightarrow>
          (case stream_write bytes sub of
             (Inl e, sub') \<Rightarrow> (Inl e, BitWriter sub' buffer pos)
           | (Inr _, sub') \<Rightarrow> (Inr (), BitWriter sub' [] 0)))"
| "stream_flush s = (Inl AttributeError, s)"

fun stream_close :: "(pystream, unit) st" where
  "stream_close (BitReader sub buffer total_size) =
     (if total_size mod 8 \<noteq> 0 then (Inl ValueError, BitReader sub buffer total_size)
      else (Inr (), BitReader sub buffer total_size))"
| "stream_close (BitWriter sub buffer pos) = stream_flush (BitWriter sub buffer pos)"
| "stream_close (BytesIO d p) = (Inr (), BytesIO d p)"

text \<open>How many bit streams are wrapped around the bytes: writing does not change it.\<close>

fun depth :: "pystream \<Rightarrow> nat" where
  "depth (BytesIO d p) = 0"
| "depth (BitReader sub buffer total_size) = Suc (depth sub)"
| "depth (BitWriter sub buffer pos) = Suc (depth sub)"

lemma depth_write: "depth (snd (stream_write x s)) = depth s"
  by (induction x s rule: stream_write.induct) auto

lemma depth_flush: "depth (snd (stream_flush s)) = depth s"
proof (cases s)
  case (BitWriter sub buffer pos)
  then show ?thesis using depth_write [of _ sub] by (auto split: sum.splits prod.splits) (metis snd_conv)+
qed auto

lemma depth_flush_eq: "stream_flush s = (r, s') \<Longrightarrow> depth s' = depth s"
  using depth_flush [of s] by simp

function stream_seek :: "int \<Rightarrow> nat \<Rightarrow> (pystream, unit) st" where
  "stream_seek pos whence (BytesIO d p) =
     (if 2 < whence \<or> whence = 0 \<and> pos < 0 then (Inl ValueError, BytesIO d p)
      else (let base = (if whence = 1 then int p else if whence = 2 then int (length d) else 0)
            in (Inr (), BytesIO d (nat (base + pos)))))"
| "stream_seek pos whence (BitReader sub buffer total_size) =
     (case stream_seek pos whence sub of (r, sub') \<Rightarrow> (r, BitReader sub' [] 0))"
| "stream_seek pos whence (BitWriter sub buffer p) =
     (case stream_flush (BitWriter sub buffer p) of
        (Inr _, BitWriter sub1 buffer1 p1) \<Rightarrow>
          (case stream_seek pos whence sub1 of (r, sub') \<Rightarrow> (r, BitWriter sub' buffer1 p1))
      | (r, s) \<Rightarrow> (r, s))"
  by pat_completeness auto
termination
  by (relation "measure (\<lambda>(pos, whence, s). depth s)")
    (auto dest!: depth_flush_eq [OF sym] simp del: stream_flush.simps)

text \<open>The stream below a bit stream: what \<open>Restream\<close> goes on with after \<open>close\<close>.\<close>

fun substream :: "pystream \<Rightarrow> pystream" where
  "substream (BitReader sub buffer total_size) = sub"
| "substream (BitWriter sub buffer pos) = sub"
| "substream (BytesIO d p) = BytesIO d p"

subsection \<open>What it is to be read\<close>

text \<open>
  The interface every reader relies on: \<open>rest s\<close> is what is left to read, and reading takes a
  prefix of it.
\<close>

locale source =
  fixes read :: "int \<Rightarrow> ('s, 'a list) st" and rest :: "'s \<Rightarrow> 'a list" and inv :: "'s \<Rightarrow> bool"
  assumes read_rest: "inv s \<Longrightarrow> 0 \<le> n \<Longrightarrow>
    \<exists>s'. read n s = (Inr (take (nat n) (rest s)), s') \<and> rest s' = drop (nat n) (rest s) \<and> inv s'"
begin

lemma read_twice:
  assumes "inv s" "0 \<le> n" "0 \<le> m"
  shows "\<exists>s'. sbind (read n) (\<lambda>x. sbind (read m) (\<lambda>y. sret (x @ y))) s = (Inr (take (nat (n + m)) (rest s)), s') \<and>
     rest s' = drop (nat (n + m)) (rest s) \<and> inv s'"
proof -
  obtain s1 where 1: "read n s = (Inr (take (nat n) (rest s)), s1)" "rest s1 = drop (nat n) (rest s)" "inv s1"
    using read_rest [OF assms(1,2)] by blast
  obtain s2 where 2: "read m s1 = (Inr (take (nat m) (rest s1)), s2)" "rest s2 = drop (nat m) (rest s1)" "inv s2"
    using read_rest [OF 1(3) assms(3)] by blast
  have "nat (n + m) = nat n + nat m" using assms(2,3) by simp
  then show ?thesis using 1 2 take_add [of "nat n" "nat m" "rest s"] by (simp add: add.commute)
qed

lemma read_length:
  assumes "inv s" "0 \<le> n" "n \<le> int (length (rest s))"
  shows "\<exists>x s'. read n s = (Inr x, s') \<and> int (length x) = n \<and> rest s = x @ rest s' \<and> inv s'"
  using read_rest [OF assms(1,2)] assms(2,3) by (auto simp: min_def)

end

fun rest_bytes :: "pystream \<Rightarrow> string" where
  "rest_bytes (BytesIO d p) = drop p d"
| "rest_bytes (BitReader sub buffer total_size) = buffer @ encode_bin (rest_bytes sub)"
| "rest_bytes (BitWriter sub buffer pos) = []"

fun readable :: "pystream \<Rightarrow> bool" where
  "readable (BytesIO d p) = True"
| "readable (BitReader sub buffer total_size) = readable sub"
| "readable (BitWriter sub buffer pos) = False"

lemma encode_bin_append: "encode_bin (a @ b) = encode_bin a @ encode_bin b"
  by (simp add: encode_bin_def)

lemma encode_bin_take: "encode_bin (take n d) = take (8 * n) (encode_bin d)"
proof (induction d arbitrary: n)
  case (Cons c d)
  then show ?case by (cases n) (simp_all add: encode_bin_def)
qed (simp add: encode_bin_def)

lemma encode_bin_drop: "encode_bin (drop n d) = drop (8 * n) (encode_bin d)"
proof (induction d arbitrary: n)
  case (Cons c d)
  then show ?case by (cases n) (simp_all add: encode_bin_def)
qed (simp add: encode_bin_def)

lemma ceil8_bounds: "0 \<le> n \<Longrightarrow> n \<le> 8 * ceil8 n \<and> 0 \<le> ceil8 n"
  unfolding ceil8_def Let_def by auto

lemma drop_min [simp]: "drop (p + min (length d - p) k) d = drop (k + p) d"
  by (cases "k \<le> length d - p") (auto simp: min_def add.commute)

lemma stream_read_rest:
  "readable s \<Longrightarrow> 0 \<le> n \<Longrightarrow> \<exists>s'. stream_read n s = (Inr (take (nat n) (rest_bytes s)), s') \<and>
     rest_bytes s' = drop (nat n) (rest_bytes s) \<and> readable s'"
proof (induction n s rule: stream_read.induct)
  case (2 n sub buffer total_size)
  show ?case
  proof (cases "n \<le> int (length buffer)")
    case True
    then show ?thesis using 2 by auto
  next
    case False
    let ?c = "n - int (length buffer)"
    let ?R = "rest_bytes sub"
    have c: "0 \<le> ?c" "\<not> n < 0" "n \<noteq> 0" using False 2(3) by auto
    note cb = ceil8_bounds [OF c(1)]
    obtain sub' where sub': "stream_read (ceil8 ?c) sub = (Inr (take (nat (ceil8 ?c)) ?R), sub')"
      "rest_bytes sub' = drop (nat (ceil8 ?c)) ?R" "readable sub'"
      using 2(1) [of ?c] c False 2(2) cb by auto
    have le: "nat ?c \<le> 8 * nat (ceil8 ?c)" using cb by linarith
    let ?buf = "encode_bin (take (nat (ceil8 ?c)) ?R)"
    have t: "take (nat ?c) ?buf = take (nat ?c) (encode_bin ?R)"
      using le by (simp add: encode_bin_take min_def)
    have d: "drop (nat ?c) ?buf @ encode_bin (rest_bytes sub') = drop (nat ?c) (encode_bin ?R)"
    proof -
      have "drop (nat ?c) ?buf @ drop (8 * nat (ceil8 ?c)) (encode_bin ?R) =
          drop (nat ?c) (take (8 * nat (ceil8 ?c)) (encode_bin ?R) @ drop (8 * nat (ceil8 ?c)) (encode_bin ?R))"
        unfolding encode_bin_take using le
        by (cases "8 * nat (ceil8 ?c) \<le> length (encode_bin ?R)") (simp_all only: drop_append length_take min_def, simp_all)
      also have "\<dots> = drop (nat ?c) (encode_bin ?R)" by (simp only: append_take_drop_id)
      finally show ?thesis by (simp add: sub'(2) encode_bin_drop)
    qed
    have n: "nat n = length buffer + nat ?c" using c by simp
    have "stream_read n (BitReader sub buffer total_size) =
       (Inr (buffer @ take (nat ?c) ?buf),
        BitReader sub' (drop (nat ?c) ?buf) (total_size + int (length (buffer @ take (nat ?c) ?buf))))"
      using c False sub'(1) by (simp add: Let_def)
    then show ?thesis using d sub'(3) t by (simp add: n)
  qed
qed (auto simp: Let_def)

interpretation reader: source stream_read rest_bytes readable
  by unfold_locales (rule stream_read_rest)

text \<open>
  The bit reader refines reading from the unpacked bits: two reads in a row return exactly the
  next bits, in order, whatever bytes were fetched for the first.
\<close>

text \<open>C37: The bit reader refines reading from the unpacked bits: consecutive reads return exactly the next bits in order, whatever bytes were fetched before.\<close>

theorem bit_reader_refines:
  assumes "readable sub" "0 \<le> n" "0 \<le> m"
  shows "\<exists>s'. sbind (stream_read n) (\<lambda>x. sbind (stream_read m) (\<lambda>y. sret (x @ y))) (BitReader sub buffer k) =
       (Inr (take (nat (n + m)) (buffer @ encode_bin (rest_bytes sub))), s') \<and>
     rest_bytes s' = drop (nat (n + m)) (buffer @ encode_bin (rest_bytes sub))"
  using reader.read_twice [of "BitReader sub buffer k" n m] assms by auto

theorem bit_reader_refines_witness:
  "\<exists>s'. sbind (stream_read 3) (\<lambda>x. sbind (stream_read 7) (\<lambda>y. sret (x @ y))) (BitReader (BytesIO ''abc'' 1) [] 0) =
       (Inr (take (nat (3 + 7)) ([] @ encode_bin (rest_bytes (BytesIO ''abc'' 1)))), s') \<and>
     rest_bytes s' = drop (nat (3 + 7)) ([] @ encode_bin (rest_bytes (BytesIO ''abc'' 1)))"
  by (rule bit_reader_refines) simp_all

subsection \<open>Writing bits\<close>

fun write_all :: "string list \<Rightarrow> (pystream, unit) st" where
  "write_all [] = sret ()"
| "write_all (x # xs) = sbind (stream_write x) (\<lambda>_. write_all xs)"

lemma write_all_buffer:
  "\<exists>b'. write_all xs (BitWriter sub b pos) = (Inr (), BitWriter sub b' pos) \<and> concat b' = concat b @ concat xs"
proof (induction xs arbitrary: b)
  case (Cons x xs)
  show ?case
  proof (cases "x = []")
    case True
    then show ?thesis using Cons [of b] by simp
  next
    case False
    then show ?thesis using Cons [of "b @ [x]"] by simp
  qed
qed simp

text \<open>
  Bits written in any pieces and then flushed become the bytes they encode, which a bit reader
  at the same place reads back bit for bit.
\<close>

theorem bit_writer_roundtrip:
  assumes "concat xs = encode_bin bytes"
  shows "\<exists>s d'. sbind (write_all xs) (\<lambda>_. stream_close) (BitWriter (BytesIO d p) [] 0) = (Inr (), s) \<and>
     substream s = BytesIO d' (p + length bytes) \<and> d' = overwrite d p bytes \<and>
     fst (stream_read (int (length (concat xs))) (BitReader (BytesIO d' p) [] 0)) = Inr (concat xs)"
proof -
  obtain b where b: "write_all xs (BitWriter (BytesIO d p) [] 0) = (Inr (), BitWriter (BytesIO d p) b 0)"
    "concat b = encode_bin bytes"
    using write_all_buffer [of xs "BytesIO d p" "[]" 0] assms by auto
  have "decode_bin (concat b) = Inr bytes" by (simp add: b(2) encode_decode_bin_eq)
  moreover have "drop p (overwrite d p bytes) = bytes @ drop (p + length bytes) d"
    by (simp add: overwrite_def)
  moreover obtain s' where "stream_read (int (length (concat xs))) (BitReader (BytesIO (overwrite d p bytes) p) [] 0) =
      (Inr (take (nat (int (length (concat xs)))) (encode_bin (drop p (overwrite d p bytes)))), s')"
    using stream_read_rest [of "BitReader (BytesIO (overwrite d p bytes) p) [] 0" "int (length (concat xs))"] by auto
  ultimately show ?thesis using b(1) assms by (simp add: encode_bin_append)
qed

theorem bit_writer_roundtrip_witness:
  "\<exists>s d'. sbind (write_all [take 3 (encode_bin ''a''), drop 3 (encode_bin ''a'')]) (\<lambda>_. stream_close)
       (BitWriter (BytesIO ''xyz'' 1) [] 0) = (Inr (), s) \<and>
     substream s = BytesIO d' (1 + length ''a'') \<and> d' = overwrite ''xyz'' 1 ''a'' \<and>
     fst (stream_read (int (length (concat [take 3 (encode_bin ''a''), drop 3 (encode_bin ''a'')])))
            (BitReader (BytesIO d' 1) [] 0)) = Inr (concat [take 3 (encode_bin ''a''), drop 3 (encode_bin ''a'')])"
  by (rule bit_writer_roundtrip) simp

end
