(* ===== verification/PyValue.thy ===== *)
theory PyValue
  imports Prelude
begin

section \<open>Values and containers (\<open>construct/lib/container.py\<close>)\<close>

text \<open>
  The values that constructs parse and build: \<open>None\<close>, booleans, integers, strings, lists
  (\<open>ListContainer\<close> is a list), tuples and containers. A \<open>Container\<close> keeps its attributes in
  its \<open>__dict__\<close>; here it is the association list of them. \<open>PIter a\<close> is an iterator, whose
  state lives at address \<open>a\<close> of the state of the run.
\<close>

datatype pyval =
    PNone
  | PBool bool
  | PInt int
  | PStr string
  | PList "pyval list"
  | PTuple "pyval list"
  | PObj "(string \<times> pyval) list"
  | PIter nat

subsection \<open>Operations on every value\<close>

fun as_num :: "pyval \<Rightarrow> int option" where
  "as_num (PBool b) = Some (of_bool b)"
| "as_num (PInt i) = Some i"
| "as_num _ = None"

lemma size_elem: "v \<in> set xs \<Longrightarrow> size v \<le> size_list size xs"
  by (induction xs) auto

lemma size_zip: "(v, w) \<in> set (zip xs ys) \<Longrightarrow> size v \<le> size_list size xs"
  by (blast dest: set_zip_leftD size_elem)

lemma size_obj_entry: "(k :: string, v) \<in> set d \<Longrightarrow> size v \<le> size_list (size_prod (\<lambda>x. 0) size) d"
  by (induction d) auto

text \<open>\<open>==\<close>: containers are equal when their dictionaries are; \<open>True == 1\<close>.\<close>

function py_eq :: "pyval \<Rightarrow> pyval \<Rightarrow> bool" where
  "py_eq x y = (case (x, y) of
     (PStr a, PStr b) \<Rightarrow> a = b
   | (PList a, PList b) \<Rightarrow> length a = length b \<and> list_all (\<lambda>(v, w). py_eq v w) (zip a b)
   | (PTuple a, PTuple b) \<Rightarrow> length a = length b \<and> list_all (\<lambda>(v, w). py_eq v w) (zip a b)
   | (PObj d, PObj e) \<Rightarrow> length d = length e \<and>
       list_all (\<lambda>(k, v). case map_of e k of None \<Rightarrow> False | Some w \<Rightarrow> py_eq v w) d
   | (PNone, PNone) \<Rightarrow> True
   | (PIter a, PIter b) \<Rightarrow> a = b
   | _ \<Rightarrow> as_num x \<noteq> None \<and> as_num x = as_num y)"
  by pat_completeness auto
termination
  by (relation "measure (\<lambda>(x, y). size x)")
    (auto dest!: size_zip size_obj_entry simp: less_Suc_eq_le)

declare py_eq.simps [simp del]

fun py_truth :: "pyval \<Rightarrow> bool" where
  "py_truth PNone = False"
| "py_truth (PBool b) = b"
| "py_truth (PInt i) = (i \<noteq> 0)"
| "py_truth (PStr s) = (s \<noteq> [])"
| "py_truth (PList xs) = (xs \<noteq> [])"
| "py_truth (PTuple xs) = (xs \<noteq> [])"
| "py_truth (PObj d) = (d \<noteq> [])"
| "py_truth (PIter a) = True"

fun py_len :: "pyval \<Rightarrow> pyexc + int" where
  "py_len (PStr s) = Inr (int (length s))"
| "py_len (PList xs) = Inr (int (length xs))"
| "py_len (PTuple xs) = Inr (int (length xs))"
| "py_len (PObj d) = Inr (int (length d))"
| "py_len _ = Inl TypeError"

fun py_iter :: "pyval \<Rightarrow> pyexc + pyval list" where
  "py_iter (PStr s) = Inr (map (\<lambda>c. PStr [c]) s)"
| "py_iter (PList xs) = Inr xs"
| "py_iter (PTuple xs) = Inr xs"
| "py_iter (PObj d) = Inr (map (\<lambda>(k, v). PStr k) d)"
| "py_iter _ = Inl TypeError"

fun py_hashable :: "pyval \<Rightarrow> bool" where
  "py_hashable (PList xs) = False"
| "py_hashable (PObj d) = False"
| "py_hashable (PTuple xs) = list_all py_hashable xs"
| "py_hashable _ = True"

text \<open>A dictionary with arbitrary keys.\<close>

fun py_find :: "(pyval \<times> 'a) list \<Rightarrow> pyval \<Rightarrow> 'a option" where
  "py_find [] k = None"
| "py_find ((a, v) # d) k = (if py_eq a k then Some v else py_find d k)"

definition py_lookup :: "(pyval \<times> 'a) list \<Rightarrow> pyval \<Rightarrow> pyexc + 'a" where
  "py_lookup d k =
     (if \<not> py_hashable k then Inl TypeError
      else (case py_find d k of None \<Rightarrow> Inl KeyError | Some v \<Rightarrow> Inr v))"

fun get_attr :: "pyval \<Rightarrow> string \<Rightarrow> pyexc + pyval" where
  "get_attr (PObj d) name = (case map_of d name of None \<Rightarrow> Inl AttributeError | Some v \<Rightarrow> Inr v)"
| "get_attr _ name = Inl AttributeError"

lemma py_eq_simps [simp]:
  "py_eq (PStr a) (PStr b) = (a = b)"
  "py_eq (PInt i) (PInt j) = (i = j)"
  "py_eq (PBool p) (PBool q) = (p = q)"
  "py_eq PNone PNone = True"
  "py_eq (PStr a) (PInt j) = False" "py_eq (PInt j) (PStr a) = False"
  "py_eq (PStr a) (PBool p) = False" "py_eq (PBool p) (PStr a) = False"
  "py_eq PNone (PInt j) = False" "py_eq (PInt j) PNone = False"
  "py_eq PNone (PStr a) = False" "py_eq (PStr a) PNone = False"
  by (simp_all add: py_eq.simps)

subsection \<open>\<open>Container\<close>\<close>

type_synonym container = "(string \<times> pyval) list"

definition container_getitem :: "container \<Rightarrow> string \<Rightarrow> pyexc + pyval" where
  "container_getitem c name = dict_get c name"

definition container_setitem :: "container \<Rightarrow> string \<Rightarrow> pyval \<Rightarrow> container" where
  "container_setitem c name v = dict_set name v c"

definition container_delitem :: "container \<Rightarrow> string \<Rightarrow> pyexc + container" where
  "container_delitem c name = (if map_of c name = None then Inl KeyError else Inr (dict_del name c))"

definition container_keys :: "container \<Rightarrow> string list" where
  "container_keys c = map fst c"

definition container_len :: "container \<Rightarrow> nat" where
  "container_len c = length (container_keys c)"

fun container_update :: "container \<Rightarrow> container \<Rightarrow> container" where
  "container_update c [] = c"
| "container_update c ((k, v) # kvs) = container_update (container_setitem c k v) kvs"

definition container_contains :: "container \<Rightarrow> string \<Rightarrow> bool" where
  "container_contains c name = (map_of c name \<noteq> None)"

definition container_copy :: "container \<Rightarrow> container" where
  "container_copy c = container_update [] c"

definition container_eq :: "container \<Rightarrow> pyval \<Rightarrow> bool" where
  "container_eq c v = (case v of PObj d \<Rightarrow> py_eq (PObj c) (PObj d) | _ \<Rightarrow> False)"

definition container_ne :: "container \<Rightarrow> pyval \<Rightarrow> bool" where
  "container_ne c v = (\<not> container_eq c v)"

end
