(* ===== verification/ConstructCore.thy ===== *)
theory ConstructCore
  imports PyStream PyValue
begin

section \<open>Constructs (\<open>construct/core.py\<close>)\<close>

text \<open>
  A construct is an object with a name, flags and the methods \<open>_parse\<close>, \<open>_build\<close> and \<open>_sizeof\<close>:
  a record of functions. Every class of \<open>core.py\<close> is a definition that builds such a record, its
  methods given by the functions defined before it. The methods run on a state that holds the
  stream, the context, the containers under construction (which a context refers to by address,
  since \<open>Embed\<close> shares them between structs) and the fuel of the unbounded loops.
\<close>

unbundle bit_operations_syntax

subsection \<open>Contexts and the state of a run\<close>

text \<open>
  A context is a \<open>Container\<close>: its variables, the enclosing context (\<open>_\<close>) and the two reserved keys
  \<open>\<langle>obj\<rangle>\<close> and \<open>\<langle>unnested\<rangle>\<close> that structs use to talk to embedded structs.
\<close>

datatype ctx = Ctx (c_vars: container) (c_parent: "ctx option") (c_obj: "nat option") (c_unnested: bool)

definition new_ctx :: ctx where
  "new_ctx = Ctx [] None None False"

definition child_ctx :: "ctx \<Rightarrow> ctx" where
  "child_ctx c = Ctx [] (Some c) None False"

definition ctx_set :: "string \<Rightarrow> pyval \<Rightarrow> ctx \<Rightarrow> ctx" where
  "ctx_set n v c = Ctx (container_setitem (c_vars c) n v) (c_parent c) (c_obj c) (c_unnested c)"

definition set_obj :: "nat option \<Rightarrow> ctx \<Rightarrow> ctx" where
  "set_obj a c = Ctx (c_vars c) (c_parent c) a (c_unnested c)"

definition set_unnested :: "bool \<Rightarrow> ctx \<Rightarrow> ctx" where
  "set_unnested b c = Ctx (c_vars c) (c_parent c) (c_obj c) b"

text \<open>\<open>ctx["x"]\<close> and \<open>ctx.x\<close>.\<close>

definition ctx_item :: "string \<Rightarrow> ctx \<Rightarrow> pyexc + pyval" where
  "ctx_item n c = container_getitem (c_vars c) n"

definition ctx_attr :: "string \<Rightarrow> ctx \<Rightarrow> pyexc + pyval" where
  "ctx_attr n c = get_attr (PObj (c_vars c)) n"

text \<open>\<open>context.__update__(other)\<close>.\<close>

definition ctx_update :: "ctx \<Rightarrow> ctx \<Rightarrow> ctx" where
  "ctx_update c d = Ctx (container_update (c_vars c) (c_vars d))
     (case c_parent d of None \<Rightarrow> c_parent c | p \<Rightarrow> p)
     (case c_obj d of None \<Rightarrow> c_obj c | a \<Rightarrow> a) (c_unnested c \<or> c_unnested d)"

record pstate =
  p_stream :: pystream
  p_ctx :: ctx
  p_objs :: "pyval list"
  p_fuel :: nat

type_synonym 'a pm = "(pstate, 'a) st"

definition on_stream :: "(pystream, 'a) st \<Rightarrow> 'a pm" where
  "on_stream m = (\<lambda>s. case m (p_stream s) of (r, t) \<Rightarrow> (r, s\<lparr>p_stream := t\<rparr>))"

definition tell :: "int pm" where
  "tell = (\<lambda>s. (Inr (stream_tell (p_stream s)), s))"

definition seek :: "int \<Rightarrow> unit pm" where
  "seek pos = on_stream (stream_seek pos 0)"

definition modify_ctx :: "(ctx \<Rightarrow> ctx) \<Rightarrow> unit pm" where
  "modify_ctx f = (\<lambda>s. (Inr (), s\<lparr>p_ctx := f (p_ctx s)\<rparr>))"

definition with_ctx :: "(ctx \<Rightarrow> pyexc + 'a) \<Rightarrow> 'a pm" where
  "with_ctx f = (\<lambda>s. (f (p_ctx s), s))"

text \<open>Run with another context object (a child or a copy), then go on with the own one.\<close>

definition in_ctx :: "(ctx \<Rightarrow> ctx) \<Rightarrow> 'a pm \<Rightarrow> 'a pm" where
  "in_ctx f m = (\<lambda>s. case m (s\<lparr>p_ctx := f (p_ctx s)\<rparr>) of (r, s') \<Rightarrow> (r, s'\<lparr>p_ctx := p_ctx s\<rparr>))"

text \<open>The objects under construction.\<close>

definition new_obj :: "pyval \<Rightarrow> nat pm" where
  "new_obj v = (\<lambda>s. (Inr (length (p_objs s)), s\<lparr>p_objs := p_objs s @ [v]\<rparr>))"

definition read_obj :: "nat \<Rightarrow> pyval pm" where
  "read_obj a = (\<lambda>s. (if a < length (p_objs s) then Inr (p_objs s ! a) else Inl KeyError, s))"

definition write_obj :: "nat \<Rightarrow> pyval \<Rightarrow> unit pm" where
  "write_obj a v = (\<lambda>s. (Inr (), s\<lparr>p_objs := (p_objs s)[a := v]\<rparr>))"

subsection \<open>\<open>Construct\<close>\<close>

definition FLAG_COPY_CONTEXT :: int where "FLAG_COPY_CONTEXT = 0x0001"
definition FLAG_DYNAMIC :: int where "FLAG_DYNAMIC = 0x0002"
definition FLAG_EMBED :: int where "FLAG_EMBED = 0x0004"
definition FLAG_NESTING :: int where "FLAG_NESTING = 0x0008"

record construct =
  con_name :: "string option"
  conflags :: int
  con_parse :: "pyval pm"
  con_build :: "pyval \<Rightarrow> unit pm"
  con_sizeof :: "ctx \<Rightarrow> pyexc + int"

text \<open>\<open>Construct.__init__\<close> with the abstract methods.\<close>

definition Construct :: "string option \<Rightarrow> int \<Rightarrow> construct" where
  "Construct name flags = \<lparr>con_name = name, conflags = flags,
     con_parse = sraise NotImplementedError,
     con_build = (\<lambda>obj. sraise NotImplementedError),
     con_sizeof = (\<lambda>c. Inl SizeofError)\<rparr>"

definition valid_name :: "string option \<Rightarrow> bool" where
  "valid_name name = (case name of None \<Rightarrow> True | Some n \<Rightarrow> n \<noteq> ''_'' \<and> take 1 n \<noteq> ''<'')"

definition set_flag :: "int \<Rightarrow> construct \<Rightarrow> construct" where
  "set_flag flag c = c\<lparr>conflags := conflags c OR flag\<rparr>"

definition clear_flag :: "int \<Rightarrow> construct \<Rightarrow> construct" where
  "clear_flag flag c = c\<lparr>conflags := conflags c AND NOT flag\<rparr>"

definition inherit_flags :: "construct list \<Rightarrow> construct \<Rightarrow> construct" where
  "inherit_flags subcons c = foldl (\<lambda>c sc. set_flag (conflags sc) c) c subcons"

definition is_flag :: "int \<Rightarrow> construct \<Rightarrow> bool" where
  "is_flag flag c = (conflags c AND flag \<noteq> 0)"

definition start_state :: "nat \<Rightarrow> pystream \<Rightarrow> pstate" where
  "start_state fuel stream = \<lparr>p_stream = stream, p_ctx = new_ctx, p_objs = [], p_fuel = fuel\<rparr>"

definition parse_stream :: "nat \<Rightarrow> construct \<Rightarrow> (pystream, pyval) st" where
  "parse_stream fuel c stream =
     (case con_parse c (start_state fuel stream) of (r, s) \<Rightarrow> (r, p_stream s))"

definition parse :: "nat \<Rightarrow> construct \<Rightarrow> string \<Rightarrow> pyexc + pyval" where
  "parse fuel c data = fst (parse_stream fuel c (BytesIO data 0))"

definition build_stream :: "nat \<Rightarrow> construct \<Rightarrow> pyval \<Rightarrow> (pystream, unit) st" where
  "build_stream fuel c obj stream =
     (case con_build c obj (start_state fuel stream) of (r, s) \<Rightarrow> (r, p_stream s))"

fun getvalue :: "pystream \<Rightarrow> string" where
  "getvalue (BytesIO d p) = d"
| "getvalue (BitReader sub buffer n) = []"
| "getvalue (BitWriter sub buffer n) = []"

definition build :: "nat \<Rightarrow> construct \<Rightarrow> pyval \<Rightarrow> pyexc + string" where
  "build fuel c obj =
     (case build_stream fuel c obj (BytesIO [] 0) of (r, t) \<Rightarrow> ebind r (\<lambda>_. Inr (getvalue t)))"

text \<open>\<open>sizeof\<close>: whatever \<open>_sizeof\<close> raises becomes a \<open>SizeofError\<close>.\<close>

definition sizeof :: "construct \<Rightarrow> ctx \<Rightarrow> pyexc + int" where
  "sizeof c context = (case con_sizeof c context of Inr n \<Rightarrow> Inr n
     | Inl e \<Rightarrow> if e = NoFuel then Inl NoFuel else Inl SizeofError)"

definition is_construct_error :: "pyexc \<Rightarrow> bool" where
  "is_construct_error e = (e \<in> {ConstructError, FieldError, SizeofError, AdaptationError, ArrayError,
     RangeError, SwitchError, SelectError, TerminatorError, BitIntegerError, MappingError, ConstError,
     ValidationError, PaddingError})"

text \<open>\<open>except Exception\<close>.\<close>

definition is_exception :: "pyexc \<Rightarrow> bool" where
  "is_exception e = (e \<noteq> NoFuel)"

subsection \<open>\<open>Subconstruct\<close> and \<open>Adapter\<close>\<close>

definition Subconstruct :: "construct \<Rightarrow> construct" where
  "Subconstruct subcon = (Construct (con_name subcon) (conflags subcon))
     \<lparr>con_parse := con_parse subcon, con_build := con_build subcon, con_sizeof := con_sizeof subcon\<rparr>"

definition Adapter :: "construct \<Rightarrow> (pyval \<Rightarrow> pyval pm) \<Rightarrow> (pyval \<Rightarrow> pyval pm) \<Rightarrow> construct" where
  "Adapter subcon decode encode = (Subconstruct subcon)
     \<lparr>con_parse := sbind (con_parse subcon) decode,
      con_build := (\<lambda>obj. sbind (encode obj) (con_build subcon))\<rparr>"

subsection \<open>Fields\<close>

definition read_stream :: "int \<Rightarrow> string pm" where
  "read_stream n =
     (if n < 0 then sraise ValueError
      else sbind (on_stream (stream_read n))
             (\<lambda>data. if int (length data) \<noteq> n then sraise FieldError else sret data))"

text \<open>The object a field writes must be a string: \<open>len\<close> or \<open>write\<close> raise otherwise.\<close>

fun as_str :: "pyval \<Rightarrow> pyexc + string" where
  "as_str (PStr s) = Inr s"
| "as_str _ = Inl TypeError"

definition write_stream :: "int \<Rightarrow> pyval \<Rightarrow> unit pm" where
  "write_stream n data =
     (if n < 0 then sraise ValueError
      else sbind (slift (py_len data))
        (\<lambda>l. if l \<noteq> n then sraise FieldError
             else sbind (slift (as_str data)) (\<lambda>x. on_stream (stream_write x))))"

definition StaticField :: "string option \<Rightarrow> int \<Rightarrow> construct" where
  "StaticField name n = (Construct name 0)
     \<lparr>con_parse := sbind (read_stream n) (\<lambda>data. sret (PStr data)),
      con_build := write_stream n,
      con_sizeof := (\<lambda>c. Inr n)\<rparr>"

text \<open>The \<open>struct\<close> module: integer formats of standard size.\<close>

datatype endian = Big | Little
datatype int_format = Fmt_B | Fmt_H | Fmt_L | Fmt_Q | Fmt_b | Fmt_h | Fmt_l | Fmt_q

fun fmt_size :: "int_format \<Rightarrow> nat" where
  "fmt_size Fmt_B = 1" | "fmt_size Fmt_b = 1" | "fmt_size Fmt_H = 2" | "fmt_size Fmt_h = 2"
| "fmt_size Fmt_L = 4" | "fmt_size Fmt_l = 4" | "fmt_size Fmt_Q = 8" | "fmt_size Fmt_q = 8"

definition fmt_signed :: "int_format \<Rightarrow> bool" where
  "fmt_signed f = (f \<in> {Fmt_b, Fmt_h, Fmt_l, Fmt_q})"

definition fmt_min :: "int_format \<Rightarrow> int" where
  "fmt_min f = (if fmt_signed f then - (2 ^ (8 * fmt_size f - 1)) else 0)"

definition fmt_max :: "int_format \<Rightarrow> int" where
  "fmt_max f = (if fmt_signed f then 2 ^ (8 * fmt_size f - 1) else 2 ^ (8 * fmt_size f))"

fun le_bytes :: "nat \<Rightarrow> int \<Rightarrow> string" where
  "le_bytes 0 n = []"
| "le_bytes (Suc k) n = chr_c (n mod 256) # le_bytes k (n div 256)"

fun le_value :: "string \<Rightarrow> int" where
  "le_value [] = 0"
| "le_value (c # cs) = ord_c c + 256 * le_value cs"

definition pack :: "endian \<Rightarrow> int_format \<Rightarrow> pyval \<Rightarrow> pyexc + string" where
  "pack e f obj = (case as_num obj of
     None \<Rightarrow> Inl StructError
   | Some i \<Rightarrow> if fmt_min f \<le> i \<and> i < fmt_max f
       then Inr ((if e = Little then id else rev) (le_bytes (fmt_size f) i))
       else Inl StructError)"

definition unpack :: "endian \<Rightarrow> int_format \<Rightarrow> string \<Rightarrow> pyexc + pyval" where
  "unpack e f data =
     (if length data \<noteq> fmt_size f then Inl StructError
      else (let v = le_value ((if e = Little then id else rev) data)
            in Inr (PInt (if fmt_signed f \<and> fmt_max f \<le> v then v - 2 ^ (8 * fmt_size f) else v))))"

definition FormatField :: "string option \<Rightarrow> endian \<Rightarrow> int_format \<Rightarrow> construct" where
  "FormatField name e f = (StaticField name (int (fmt_size f)))
     \<lparr>con_parse := scatch (sbind (read_stream (int (fmt_size f))) (\<lambda>data. slift (unpack e f data)))
        is_exception (\<lambda>ex. sraise FieldError),
      con_build := (\<lambda>obj. scatch (sbind (slift (pack e f obj)) (\<lambda>x. write_stream (int (fmt_size f)) (PStr x)))
        is_exception (\<lambda>ex. sraise FieldError))\<rparr>"

definition MetaField :: "string option \<Rightarrow> (ctx \<Rightarrow> pyexc + int) \<Rightarrow> construct" where
  "MetaField name lengthfunc = set_flag FLAG_DYNAMIC ((Construct name 0)
     \<lparr>con_parse := sbind (with_ctx lengthfunc) (\<lambda>n. sbind (read_stream n) (\<lambda>data. sret (PStr data))),
      con_build := (\<lambda>obj. sbind (with_ctx lengthfunc)
        (\<lambda>n. write_stream n obj)),
      con_sizeof := lengthfunc\<rparr>)"

subsection \<open>Arrays and repeaters\<close>

text \<open>With \<open>FLAG_COPY_CONTEXT\<close> every iteration works on a copy of the context.\<close>

definition iteration :: "construct \<Rightarrow> 'a pm \<Rightarrow> 'a pm" where
  "iteration subcon m = (if is_flag FLAG_COPY_CONTEXT subcon then in_ctx id m else m)"

fun meta_array_loop :: "pyval pm \<Rightarrow> nat \<Rightarrow> pyval list \<Rightarrow> pyval list pm" where
  "meta_array_loop m 0 obj = sret obj"
| "meta_array_loop m (Suc k) obj = sbind m (\<lambda>v. meta_array_loop m k (obj @ [v]))"

fun build_each :: "(pyval \<Rightarrow> unit pm) \<Rightarrow> pyval list \<Rightarrow> unit pm" where
  "build_each b [] = sret ()"
| "build_each b (x # xs) = sbind (b x) (\<lambda>_. build_each b xs)"

definition MetaArray :: "(ctx \<Rightarrow> pyexc + int) \<Rightarrow> construct \<Rightarrow> construct" where
  "MetaArray countfunc subcon = set_flag FLAG_DYNAMIC (clear_flag FLAG_COPY_CONTEXT ((Subconstruct subcon)
     \<lparr>con_parse := sbind (with_ctx countfunc)
        (\<lambda>count. scatch
           (sbind (meta_array_loop (iteration subcon (con_parse subcon)) (nat count) [])
              (\<lambda>obj. sret (PList obj)))
           is_construct_error (\<lambda>ex. sraise ArrayError)),
      con_build := (\<lambda>obj. sbind (with_ctx countfunc) (\<lambda>count.
        sbind (slift (py_len obj)) (\<lambda>n.
          if n \<noteq> count then sraise ArrayError
          else sbind (slift (py_iter obj))
                 (build_each (\<lambda>x. iteration subcon (con_build subcon x)))))),
      con_sizeof := (\<lambda>c. ebind (con_sizeof subcon c) (\<lambda>n. ebind (countfunc c) (\<lambda>k. Inr (n * k))))\<rparr>))"

text \<open>The handler of \<open>Range\<close> seeks back to where the failed element began.\<close>

fun range_parse_loop :: "nat \<Rightarrow> pyval pm \<Rightarrow> int \<Rightarrow> int \<Rightarrow> int \<Rightarrow> pyval list \<Rightarrow> pyval pm" where
  "range_parse_loop 0 m mincount maxcount c obj = sraise NoFuel"
| "range_parse_loop (Suc k) m mincount maxcount c obj =
     (if c < maxcount then
        sbind tell (\<lambda>pos. (\<lambda>s. case m s of
            (Inr v, s') \<Rightarrow> range_parse_loop k m mincount maxcount (c + 1) (obj @ [v]) s'
          | (Inl e, s') \<Rightarrow>
              if is_construct_error e then
                (if c < mincount then (Inl RangeError, s')
                 else sbind (seek pos) (\<lambda>_. sret (PList obj)) s')
              else (Inl e, s')))
      else sret (PList obj))"

fun range_build_loop :: "(pyval \<Rightarrow> unit pm) \<Rightarrow> int \<Rightarrow> int \<Rightarrow> pyval list \<Rightarrow> unit pm" where
  "range_build_loop b mincount cnt [] = sret ()"
| "range_build_loop b mincount cnt (x # xs) =
     (\<lambda>s. case b x s of
        (Inr _, s') \<Rightarrow> range_build_loop b mincount (cnt + 1) xs s'
      | (Inl e, s') \<Rightarrow>
          if is_construct_error e then (if cnt < mincount then (Inl RangeError, s') else (Inr (), s'))
          else (Inl e, s'))"

definition Range :: "int \<Rightarrow> int \<Rightarrow> construct \<Rightarrow> construct" where
  "Range mincount maxcount subcon = set_flag FLAG_DYNAMIC (clear_flag FLAG_COPY_CONTEXT ((Subconstruct subcon)
     \<lparr>con_parse := (\<lambda>s. range_parse_loop (p_fuel s) (iteration subcon (con_parse subcon)) mincount maxcount 0 [] s),
      con_build := (\<lambda>obj. sbind (slift (py_len obj)) (\<lambda>n.
        if n < mincount \<or> maxcount < n then sraise RangeError
        else sbind (slift (py_iter obj))
               (range_build_loop (\<lambda>x. iteration subcon (con_build subcon x)) mincount 0))),
      con_sizeof := (\<lambda>c. Inl SizeofError)\<rparr>))"

fun repeat_parse_loop :: "nat \<Rightarrow> pyval pm \<Rightarrow> (pyval \<Rightarrow> ctx \<Rightarrow> pyexc + bool) \<Rightarrow> pyval list \<Rightarrow> pyval list pm" where
  "repeat_parse_loop 0 m predicate obj = sraise NoFuel"
| "repeat_parse_loop (Suc k) m predicate obj =
     sbind m (\<lambda>v. sbind (with_ctx (predicate v))
       (\<lambda>b. if b then sret (obj @ [v]) else repeat_parse_loop k m predicate (obj @ [v])))"

fun repeat_build_loop :: "(pyval \<Rightarrow> unit pm) \<Rightarrow> (pyval \<Rightarrow> ctx \<Rightarrow> pyexc + bool) \<Rightarrow> pyval list \<Rightarrow> unit pm" where
  "repeat_build_loop b predicate [] = sraise ArrayError"
| "repeat_build_loop b predicate (x # xs) =
     sbind (b x) (\<lambda>_. sbind (with_ctx (predicate x))
       (\<lambda>stop. if stop then sret () else repeat_build_loop b predicate xs))"

definition RepeatUntil :: "(pyval \<Rightarrow> ctx \<Rightarrow> pyexc + bool) \<Rightarrow> construct \<Rightarrow> construct" where
  "RepeatUntil predicate subcon = set_flag FLAG_DYNAMIC (clear_flag FLAG_COPY_CONTEXT ((Subconstruct subcon)
     \<lparr>con_parse := scatch
        (\<lambda>s. sbind (repeat_parse_loop (p_fuel s) (iteration subcon (con_parse subcon)) predicate [])
               (\<lambda>obj. sret (PList obj)) s)
        is_construct_error (\<lambda>ex. sraise ArrayError),
      con_build := (\<lambda>obj. sbind (slift (py_iter obj))
        (repeat_build_loop (\<lambda>x. in_ctx id (con_build subcon x)) predicate)),
      con_sizeof := (\<lambda>c. Inl SizeofError)\<rparr>))"

subsection \<open>Structures and sequences\<close>

text \<open>
  How a struct starts: it takes over the object that an enclosing struct left in its context
  (\<open>\<langle>obj\<rangle>\<close>), or makes a new one and, if it is nested, works in a child of its context.
\<close>

definition with_object :: "bool \<Rightarrow> pyval \<Rightarrow> (nat \<Rightarrow> unit pm) \<Rightarrow> pyval pm" where
  "with_object nested fresh body = (\<lambda>s.
     case c_obj (p_ctx s) of
       Some a \<Rightarrow> sbind (modify_ctx (set_obj None)) (\<lambda>_. sbind (body a) (\<lambda>_. read_obj a)) s
     | None \<Rightarrow> sbind (new_obj fresh) (\<lambda>a.
         sbind (if nested then in_ctx child_ctx (body a) else body a) (\<lambda>_. read_obj a)) s)"

definition obj_setitem :: "nat \<Rightarrow> string \<Rightarrow> pyval \<Rightarrow> unit pm" where
  "obj_setitem a n v = sbind (read_obj a)
     (\<lambda>obj. case obj of PObj d \<Rightarrow> write_obj a (PObj (container_setitem d n v)) | _ \<Rightarrow> sraise TypeError)"

definition obj_append :: "nat \<Rightarrow> pyval \<Rightarrow> unit pm" where
  "obj_append a v = sbind (read_obj a)
     (\<lambda>obj. case obj of PList xs \<Rightarrow> write_obj a (PList (xs @ [v])) | _ \<Rightarrow> sraise AttributeError)"

fun struct_parse_loop :: "(string \<Rightarrow> pyval \<Rightarrow> unit pm) \<Rightarrow> nat \<Rightarrow> construct list \<Rightarrow> unit pm" where
  "struct_parse_loop add a [] = sret ()"
| "struct_parse_loop add a (sc # scs) =
     sbind
       (if is_flag FLAG_EMBED sc then
          sbind (modify_ctx (set_obj (Some a))) (\<lambda>_. sbind (con_parse sc) (\<lambda>_. sret ()))
        else
          sbind (con_parse sc) (\<lambda>subobj.
            case con_name sc of
              None \<Rightarrow> sret ()
            | Some n \<Rightarrow> sbind (add n subobj) (\<lambda>_. modify_ctx (ctx_set n subobj))))
       (\<lambda>_. struct_parse_loop add a scs)"

text \<open>How building starts: an embedded struct goes on in the context of the enclosing one.\<close>

definition unnest :: "bool \<Rightarrow> unit pm \<Rightarrow> unit pm" where
  "unnest nested m = (\<lambda>s.
     if c_unnested (p_ctx s) then sbind (modify_ctx (set_unnested False)) (\<lambda>_. m) s
     else if nested then in_ctx child_ctx m s else m s)"

fun struct_build_loop :: "(construct \<Rightarrow> pyval pm) \<Rightarrow> pyval \<Rightarrow> construct list \<Rightarrow> unit pm" where
  "struct_build_loop next obj [] = sret ()"
| "struct_build_loop next obj (sc # scs) =
     sbind
       (if is_flag FLAG_EMBED sc then
          sbind (modify_ctx (set_unnested True)) (\<lambda>_. con_build sc obj)
        else (case con_name sc of
            None \<Rightarrow> con_build sc PNone
          | Some n \<Rightarrow> sbind (next sc) (\<lambda>subobj.
              sbind (modify_ctx (ctx_set n subobj)) (\<lambda>_. con_build sc subobj))))
       (\<lambda>_. struct_build_loop next obj scs)"

fun sum_sizes :: "construct list \<Rightarrow> ctx \<Rightarrow> pyexc + int" where
  "sum_sizes [] c = Inr 0"
| "sum_sizes (sc # scs) c = ebind (con_sizeof sc c) (\<lambda>n. ebind (sum_sizes scs c) (\<lambda>m. Inr (n + m)))"

definition struct_attr :: "pyval \<Rightarrow> construct \<Rightarrow> pyval pm" where
  "struct_attr obj sc = slift (case con_name sc of None \<Rightarrow> Inr PNone | Some n \<Rightarrow> get_attr obj n)"

definition struct_sizeof :: "bool \<Rightarrow> construct list \<Rightarrow> ctx \<Rightarrow> pyexc + int" where
  "struct_sizeof nested subcons c = sum_sizes subcons (if nested then child_ctx c else c)"

definition Struct :: "string option \<Rightarrow> bool \<Rightarrow> construct list \<Rightarrow> construct" where
  "Struct name nested subcons = clear_flag FLAG_EMBED (inherit_flags subcons ((Construct name 0)
     \<lparr>con_parse := with_object nested (PObj []) (\<lambda>a. struct_parse_loop (obj_setitem a) a subcons),
      con_build := (\<lambda>obj. unnest nested (struct_build_loop (struct_attr obj) obj subcons)),
      con_sizeof := struct_sizeof nested subcons\<rparr>))"

text \<open>\<open>iter(obj)\<close>, which is \<open>obj\<close> itself for an iterator, and \<open>next\<close>.\<close>

definition make_iter :: "pyval \<Rightarrow> nat pm" where
  "make_iter obj = (case obj of PIter a \<Rightarrow> sret a
     | _ \<Rightarrow> sbind (slift (py_iter obj)) (\<lambda>xs. new_obj (PList xs)))"

definition advance_iterator :: "nat \<Rightarrow> pyval pm" where
  "advance_iterator a = sbind (read_obj a) (\<lambda>v. case v of
     PList (x # xs) \<Rightarrow> sbind (write_obj a (PList xs)) (\<lambda>_. sret x)
   | _ \<Rightarrow> sraise StopIteration)"

definition Sequence :: "string option \<Rightarrow> bool \<Rightarrow> construct list \<Rightarrow> construct" where
  "Sequence name nested subcons = (Struct name nested subcons)
     \<lparr>con_parse := with_object nested (PList []) (\<lambda>a. struct_parse_loop (\<lambda>n. obj_append a) a subcons),
      con_build := (\<lambda>obj. unnest nested (sbind (make_iter obj)
        (\<lambda>a. struct_build_loop (\<lambda>sc. advance_iterator a) (PIter a) subcons)))\<rparr>"

subsection \<open>Conditionals\<close>

text \<open>\<open>Switch\<close>: the cases are a dictionary from keys to constructs.\<close>

definition NoDefault :: construct where
  "NoDefault = (Construct (Some ''No default value specified'') 0)
     \<lparr>con_parse := sraise SwitchError, con_build := (\<lambda>obj. sraise SwitchError),
      con_sizeof := (\<lambda>c. Inl SwitchError)\<rparr>"

definition switch_case :: "(pyval \<times> construct) list \<Rightarrow> construct \<Rightarrow> pyval \<Rightarrow> pyexc + construct" where
  "switch_case cases dflt key =
     (case py_lookup cases key of
        Inr c \<Rightarrow> Inr c
      | Inl e \<Rightarrow> if e = KeyError then Inr dflt else Inl e)"

definition Switch :: "string option \<Rightarrow> (ctx \<Rightarrow> pyexc + pyval) \<Rightarrow> (pyval \<times> construct) list \<Rightarrow>
    construct \<Rightarrow> bool \<Rightarrow> construct" where
  "Switch name keyfunc cases dflt include_key =
     set_flag FLAG_DYNAMIC (inherit_flags (map snd cases) ((Construct name 0)
     \<lparr>con_parse := sbind (with_ctx keyfunc) (\<lambda>key. sbind (slift (switch_case cases dflt key))
        (\<lambda>c. sbind (con_parse c)
           (\<lambda>obj. sret (if include_key then PTuple [key, obj] else obj)))),
      con_build := (\<lambda>obj.
        if include_key then
          (case obj of
             PTuple [key, obj'] \<Rightarrow> sbind (slift (switch_case cases dflt key)) (\<lambda>c. con_build c obj')
           | PList [key, obj'] \<Rightarrow> sbind (slift (switch_case cases dflt key)) (\<lambda>c. con_build c obj')
           | _ \<Rightarrow> sraise TypeError)
        else sbind (with_ctx keyfunc) (\<lambda>key. sbind (slift (switch_case cases dflt key))
               (\<lambda>c. con_build c obj))),
      con_sizeof := (\<lambda>c. ebind (keyfunc c) (\<lambda>key. ebind (switch_case cases dflt key) (\<lambda>sc. con_sizeof sc c)))\<rparr>))"

text \<open>\<open>Select\<close>: each alternative works on a copy of the context, which is merged back on success.\<close>

fun select_parse_loop :: "bool \<Rightarrow> construct list \<Rightarrow> pyval pm" where
  "select_parse_loop include_name [] = sraise SelectError"
| "select_parse_loop include_name (sc # scs) =
     sbind tell (\<lambda>pos. (\<lambda>s. case con_parse sc s of
         (Inr obj, s') \<Rightarrow>
           (Inr (if include_name then PTuple [(case con_name sc of None \<Rightarrow> PNone | Some n \<Rightarrow> PStr n), obj] else obj),
            s'\<lparr>p_ctx := ctx_update (p_ctx s) (p_ctx s')\<rparr>)
       | (Inl e, s') \<Rightarrow>
           if is_construct_error e then
             sbind (seek pos) (\<lambda>_. select_parse_loop include_name scs) (s'\<lparr>p_ctx := p_ctx s\<rparr>)
           else (Inl e, s'\<lparr>p_ctx := p_ctx s\<rparr>)))"

fun select_build_named :: "string option \<Rightarrow> pyval \<Rightarrow> construct list \<Rightarrow> unit pm" where
  "select_build_named name obj [] = sraise SelectError"
| "select_build_named name obj (sc # scs) =
     (if con_name sc = name then con_build sc obj else select_build_named name obj scs)"

text \<open>Building tries every alternative on a stream of its own, and swallows every exception.\<close>

fun select_build_loop :: "pyval \<Rightarrow> construct list \<Rightarrow> unit pm" where
  "select_build_loop obj [] = sraise SelectError"
| "select_build_loop obj (sc # scs) = (\<lambda>s.
     case con_build sc obj (s\<lparr>p_stream := BytesIO [] 0\<rparr>) of
       (Inr _, s') \<Rightarrow> on_stream (stream_write (getvalue (p_stream s')))
          (s'\<lparr>p_stream := p_stream s, p_ctx := ctx_update (p_ctx s) (p_ctx s')\<rparr>)
     | (Inl e, s') \<Rightarrow>
         if is_exception e then select_build_loop obj scs (s'\<lparr>p_stream := p_stream s, p_ctx := p_ctx s\<rparr>)
         else (Inl e, s'\<lparr>p_stream := p_stream s, p_ctx := p_ctx s\<rparr>))"

definition Select :: "string option \<Rightarrow> construct list \<Rightarrow> bool \<Rightarrow> construct" where
  "Select name subcons include_name = set_flag FLAG_DYNAMIC (inherit_flags subcons ((Construct name 0)
     \<lparr>con_parse := select_parse_loop include_name subcons,
      con_build := (\<lambda>obj.
        if include_name then
          (case obj of
             PTuple [PStr n, obj'] \<Rightarrow> select_build_named (Some n) obj' subcons
           | PTuple [PNone, obj'] \<Rightarrow> select_build_named None obj' subcons
           | PTuple [_, obj'] \<Rightarrow> sraise SelectError
           | _ \<Rightarrow> sraise TypeError)
        else select_build_loop obj subcons),
      con_sizeof := (\<lambda>c. Inl SizeofError)\<rparr>))"

subsection \<open>Stream manipulation\<close>

definition Pointer :: "(ctx \<Rightarrow> pyexc + int) \<Rightarrow> construct \<Rightarrow> construct" where
  "Pointer offsetfunc subcon = (Subconstruct subcon)
     \<lparr>con_parse := sbind (with_ctx offsetfunc) (\<lambda>newpos. sbind tell (\<lambda>origpos. sbind (seek newpos)
        (\<lambda>_. sbind (con_parse subcon) (\<lambda>obj. sbind (seek origpos) (\<lambda>_. sret obj))))),
      con_build := (\<lambda>obj. sbind (with_ctx offsetfunc) (\<lambda>newpos. sbind tell (\<lambda>origpos. sbind (seek newpos)
        (\<lambda>_. sbind (con_build subcon obj) (\<lambda>_. seek origpos))))),
      con_sizeof := (\<lambda>c. Inr 0)\<rparr>"

text \<open>\<open>try: m  finally: f\<close>, where \<open>f\<close> does not return a value.\<close>

definition sfinally :: "'a pm \<Rightarrow> unit pm \<Rightarrow> 'a pm" where
  "sfinally m f = (\<lambda>s. case m s of (r, s') \<Rightarrow>
     (case f s' of (Inr _, s'') \<Rightarrow> (r, s'') | (Inl e, s'') \<Rightarrow> (Inl e, s'')))"

definition Peek :: "construct \<Rightarrow> bool \<Rightarrow> construct" where
  "Peek subcon perform_build = (Subconstruct subcon)
     \<lparr>con_parse := sbind tell (\<lambda>pos. sfinally
        (scatch (con_parse subcon) (\<lambda>e. e = FieldError) (\<lambda>e. sret PNone)) (seek pos)),
      con_build := (\<lambda>obj. if perform_build then con_build subcon obj else sret ()),
      con_sizeof := (\<lambda>c. Inr 0)\<rparr>"

definition Union :: "string option \<Rightarrow> construct \<Rightarrow> construct list \<Rightarrow> construct" where
  "Union name master subcons =
     (let args = map (\<lambda>sc. Peek sc False) subcons @ [MetaField None (con_sizeof master)];
          parser = Struct name True (Peek master True # args);
          builder = Struct name True [master]
      in (Construct name 0)
        \<lparr>con_parse := con_parse parser, con_build := con_build builder, con_sizeof := con_sizeof builder\<rparr>)"

text \<open>\<open>Buffered\<close>: the subconstruct works on a stream of its own.\<close>

definition in_stream :: "pystream \<Rightarrow> 'a pm \<Rightarrow> ('a \<times> string) pm" where
  "in_stream t m = (\<lambda>s. case m (s\<lparr>p_stream := t\<rparr>) of (r, s') \<Rightarrow>
     (ebind r (\<lambda>x. Inr (x, getvalue (p_stream s'))), s'\<lparr>p_stream := p_stream s\<rparr>))"

definition Buffered :: "construct \<Rightarrow> (string \<Rightarrow> pyexc + string) \<Rightarrow> (string \<Rightarrow> pyexc + string) \<Rightarrow>
    (int \<Rightarrow> pyexc + int) \<Rightarrow> construct" where
  "Buffered subcon decoder encoder resizer =
     (let size = (\<lambda>c. ebind (con_sizeof subcon c) resizer) in (Subconstruct subcon)
     \<lparr>con_parse := sbind (with_ctx size) (\<lambda>n. sbind (read_stream n) (\<lambda>data.
        sbind (slift (decoder data)) (\<lambda>dec.
        sbind (in_stream (BytesIO dec 0) (con_parse subcon)) (\<lambda>(obj, _). sret obj)))),
      con_build := (\<lambda>obj. sbind (with_ctx size) (\<lambda>n.
        sbind (in_stream (BytesIO [] 0) (con_build subcon obj)) (\<lambda>(_, v).
        sbind (slift (encoder v)) (\<lambda>data.
          if int (length data) \<noteq> n then sraise AssertionError
          else sbind (with_ctx size) (\<lambda>n'. write_stream n' (PStr data)))))),
      con_sizeof := size\<rparr>)"

text \<open>\<open>Restream\<close>: the wrapper is closed only when the subconstruct returns.\<close>

definition restreamed :: "(pystream \<Rightarrow> pystream) \<Rightarrow> 'a pm \<Rightarrow> 'a pm" where
  "restreamed wrap m = (\<lambda>s.
     case sbind m (\<lambda>x. sbind (on_stream stream_close) (\<lambda>_. sret x)) (s\<lparr>p_stream := wrap (p_stream s)\<rparr>) of
       (r, s') \<Rightarrow> (r, s'\<lparr>p_stream := substream (p_stream s')\<rparr>))"

definition Restream :: "construct \<Rightarrow> (pystream \<Rightarrow> pystream) \<Rightarrow> (pystream \<Rightarrow> pystream) \<Rightarrow>
    (int \<Rightarrow> pyexc + int) \<Rightarrow> construct" where
  "Restream subcon stream_reader stream_writer resizer = (Subconstruct subcon)
     \<lparr>con_parse := restreamed stream_reader (con_parse subcon),
      con_build := (\<lambda>obj. restreamed stream_writer (con_build subcon obj)),
      con_sizeof := (\<lambda>c. ebind (con_sizeof subcon c) resizer)\<rparr>"

subsection \<open>Miscellaneous\<close>

definition Reconfig :: "string option \<Rightarrow> construct \<Rightarrow> int \<Rightarrow> int \<Rightarrow> construct" where
  "Reconfig name subcon setflags clearflags =
     clear_flag clearflags (set_flag setflags ((Subconstruct subcon)\<lparr>con_name := name\<rparr>))"

definition Anchor :: "string \<Rightarrow> construct" where
  "Anchor name = (Construct (Some name) 0)
     \<lparr>con_parse := sbind tell (\<lambda>p. sret (PInt p)),
      con_build := (\<lambda>obj. sbind tell (\<lambda>p. modify_ctx (ctx_set name (PInt p)))),
      con_sizeof := (\<lambda>c. Inr 0)\<rparr>"

definition Value :: "string \<Rightarrow> (ctx \<Rightarrow> pyexc + pyval) \<Rightarrow> construct" where
  "Value name func = set_flag FLAG_DYNAMIC ((Construct (Some name) 0)
     \<lparr>con_parse := with_ctx func,
      con_build := (\<lambda>obj. sbind (with_ctx func) (\<lambda>v. modify_ctx (ctx_set name v))),
      con_sizeof := (\<lambda>c. Inr 0)\<rparr>)"

text \<open>\<open>LazyBound\<close>: \<open>bindfunc\<close> returns the same construct each time, so its cache is not kept.\<close>

definition LazyBound :: "string option \<Rightarrow> (unit \<Rightarrow> construct) \<Rightarrow> construct" where
  "LazyBound name bindfunc = (Construct name 0)
     \<lparr>con_parse := con_parse (bindfunc ()), con_build := con_build (bindfunc ()),
      con_sizeof := con_sizeof (bindfunc ())\<rparr>"

definition assert_none :: "pyval \<Rightarrow> unit pm" where
  "assert_none obj = (if obj = PNone then sret () else sraise AssertionError)"

definition Pass :: construct where
  "Pass = (Construct None 0)
     \<lparr>con_parse := sret PNone, con_build := assert_none, con_sizeof := (\<lambda>c. Inr 0)\<rparr>"

definition Terminator :: construct where
  "Terminator = (Construct None 0)
     \<lparr>con_parse := sbind (on_stream (stream_read 1))
        (\<lambda>data. if data \<noteq> [] then sraise TerminatorError else sret PNone),
      con_build := assert_none, con_sizeof := (\<lambda>c. Inr 0)\<rparr>"

end
