(* ===== verification/ConstructAdapters.thy ===== *)
theory ConstructAdapters
  imports ConstructCore
begin

section \<open>Adapters (\<open>construct/adapters.py\<close>)\<close>

text \<open>
  An adapter translates the value its subconstruct parses (\<open>_decode\<close>) and the value it is to build
  (\<open>_encode\<close>). Both get the context, and may raise.
\<close>

unbundle bit_operations_syntax

subsection \<open>Indexing and slicing\<close>

fun py_getitem :: "pyval \<Rightarrow> int \<Rightarrow> pyexc + pyval" where
  "py_getitem (PList xs) i = py_index xs i"
| "py_getitem (PTuple xs) i = py_index xs i"
| "py_getitem (PStr s) i = ebind (py_index s i) (\<lambda>c. Inr (PStr [c]))"
| "py_getitem (PObj d) i = Inl KeyError"
| "py_getitem _ i = Inl TypeError"

definition slice_bound :: "nat \<Rightarrow> int \<Rightarrow> nat" where
  "slice_bound n i = nat (min (int n) (if i < 0 then i + int n else i))"

definition slice :: "int option \<Rightarrow> int option \<Rightarrow> 'a list \<Rightarrow> 'a list" where
  "slice start stop xs =
     (let n = length xs;
          a = (case start of None \<Rightarrow> 0 | Some i \<Rightarrow> slice_bound n i);
          b = (case stop of None \<Rightarrow> n | Some i \<Rightarrow> slice_bound n i)
      in take (b - a) (drop a xs))"

fun py_slice :: "pyval \<Rightarrow> int option \<Rightarrow> int option \<Rightarrow> pyexc + pyval" where
  "py_slice (PList xs) a b = Inr (PList (slice a b xs))"
| "py_slice (PTuple xs) a b = Inr (PTuple (slice a b xs))"
| "py_slice (PStr s) a b = Inr (PStr (slice a b s))"
| "py_slice _ a b = Inl TypeError"

text \<open>An adapter whose translations neither change the context nor the stream.\<close>

definition PureAdapter :: "construct \<Rightarrow> (pyval \<Rightarrow> ctx \<Rightarrow> pyexc + pyval) \<Rightarrow>
    (pyval \<Rightarrow> ctx \<Rightarrow> pyexc + pyval) \<Rightarrow> construct" where
  "PureAdapter subcon decode encode =
     Adapter subcon (\<lambda>v. with_ctx (decode v)) (\<lambda>v. with_ctx (encode v))"

subsection \<open>Bit integers\<close>

definition bit_integer_encode :: "int \<Rightarrow> bool \<Rightarrow> bool \<Rightarrow> nat \<Rightarrow> pyval \<Rightarrow> pyexc + pyval" where
  "bit_integer_encode width swapped signed bytesize obj =
     (case as_num obj of
        None \<Rightarrow> if obj = PNone \<and> \<not> signed then Inl BitIntegerError else Inl TypeError
      | Some i \<Rightarrow>
          if i < 0 \<and> \<not> signed then Inl BitIntegerError
          else ebind (int_to_bin i width) (\<lambda>b.
            if swapped then ebind (swap_bytes b bytesize) (\<lambda>b'. Inr (PStr b')) else Inr (PStr b)))"

definition bit_integer_decode :: "bool \<Rightarrow> bool \<Rightarrow> nat \<Rightarrow> pyval \<Rightarrow> pyexc + pyval" where
  "bit_integer_decode swapped signed bytesize obj =
     ebind (as_str obj) (\<lambda>b.
       ebind (if swapped then swap_bytes b bytesize else Inr b)
         (\<lambda>b'. ebind (bin_to_int b' signed) (\<lambda>i. Inr (PInt i))))"

definition BitIntegerAdapter :: "construct \<Rightarrow> int \<Rightarrow> bool \<Rightarrow> bool \<Rightarrow> nat \<Rightarrow> construct" where
  "BitIntegerAdapter subcon width swapped signed bytesize =
     PureAdapter subcon (\<lambda>obj c. bit_integer_decode swapped signed bytesize obj)
       (\<lambda>obj c. bit_integer_encode width swapped signed bytesize obj)"

subsection \<open>Mappings\<close>

datatype map_default = NoMapping | PassUnmapped | MapTo pyval

definition map_value :: "(pyval \<times> pyval) list \<Rightarrow> map_default \<Rightarrow> pyval \<Rightarrow> pyexc + pyval" where
  "map_value mapping dflt obj =
     (case py_lookup mapping obj of
        Inr v \<Rightarrow> Inr v
      | Inl e \<Rightarrow>
          if e = KeyError \<or> e = TypeError then
            (case dflt of NoMapping \<Rightarrow> Inl MappingError | PassUnmapped \<Rightarrow> Inr obj | MapTo v \<Rightarrow> Inr v)
          else Inl e)"

definition MappingAdapter :: "construct \<Rightarrow> (pyval \<times> pyval) list \<Rightarrow> (pyval \<times> pyval) list \<Rightarrow>
    map_default \<Rightarrow> map_default \<Rightarrow> construct" where
  "MappingAdapter subcon decoding encoding decdefault encdefault =
     PureAdapter subcon (\<lambda>obj c. map_value decoding decdefault obj)
       (\<lambda>obj c. map_value encoding encdefault obj)"

subsection \<open>Flags\<close>

fun flags_encode_loop :: "(string \<times> int) list \<Rightarrow> pyval \<Rightarrow> int \<Rightarrow> int" where
  "flags_encode_loop [] obj flags = flags"
| "flags_encode_loop ((name, value) # fs) obj flags =
     flags_encode_loop fs obj
       (if (case get_attr obj name of Inr v \<Rightarrow> py_truth v | Inl _ \<Rightarrow> False) then flags OR value else flags)"

fun flags_decode_loop :: "(string \<times> int) list \<Rightarrow> int \<Rightarrow> container \<Rightarrow> container" where
  "flags_decode_loop [] obj obj2 = obj2"
| "flags_decode_loop ((name, value) # fs) obj obj2 =
     flags_decode_loop fs obj (container_setitem obj2 name (PBool (obj AND value \<noteq> 0)))"

definition FlagsAdapter :: "construct \<Rightarrow> (string \<times> int) list \<Rightarrow> construct" where
  "FlagsAdapter subcon flags = PureAdapter subcon
     (\<lambda>obj c. case as_num obj of None \<Rightarrow> Inl TypeError | Some i \<Rightarrow> Inr (PObj (flags_decode_loop flags i [])))
     (\<lambda>obj c. Inr (PInt (flags_encode_loop flags obj 0)))"

subsection \<open>Strings\<close>

text \<open>
  A codec (\<open>str.encode\<close>, \<open>str.decode\<close>) is a parameter: a pair of functions on byte strings.
\<close>

type_synonym codec = "(string \<Rightarrow> pyexc + string) \<times> (string \<Rightarrow> pyexc + string)"

definition string_encode :: "codec option \<Rightarrow> pyval \<Rightarrow> pyexc + pyval" where
  "string_encode encoding obj = (case encoding of None \<Rightarrow> Inr obj
     | Some (enc, dec) \<Rightarrow> ebind (as_str obj) (\<lambda>s. ebind (enc s) (\<lambda>t. Inr (PStr t))))"

definition string_decode :: "codec option \<Rightarrow> pyval \<Rightarrow> pyexc + pyval" where
  "string_decode encoding obj = (case encoding of None \<Rightarrow> Inr obj
     | Some (enc, dec) \<Rightarrow> ebind (as_str obj) (\<lambda>s. ebind (dec s) (\<lambda>t. Inr (PStr t))))"

definition StringAdapter :: "construct \<Rightarrow> codec option \<Rightarrow> construct" where
  "StringAdapter subcon encoding =
     PureAdapter subcon (\<lambda>obj c. string_decode encoding obj) (\<lambda>obj c. string_encode encoding obj)"

datatype direction = DirRight | DirLeft | DirCenter

definition rstrip :: "char \<Rightarrow> string \<Rightarrow> string" where
  "rstrip p s = rev (dropWhile (\<lambda>c. c = p) (rev s))"

definition lstrip :: "char \<Rightarrow> string \<Rightarrow> string" where
  "lstrip p s = dropWhile (\<lambda>c. c = p) s"

text \<open>\<open>str.center\<close> puts the odd character on the left when the width is odd.\<close>

definition center :: "nat \<Rightarrow> char \<Rightarrow> string \<Rightarrow> string" where
  "center w p s =
     (let m = w - length s; l = m div 2 + (if odd m \<and> odd w then 1 else 0)
      in replicate l p @ s @ replicate (m - l) p)"

definition padded_decode :: "char \<Rightarrow> direction \<Rightarrow> string \<Rightarrow> string" where
  "padded_decode padchar paddir obj =
     (case paddir of DirRight \<Rightarrow> rstrip padchar obj | DirLeft \<Rightarrow> lstrip padchar obj
      | DirCenter \<Rightarrow> rstrip padchar (lstrip padchar obj))"

definition padded_encode :: "char \<Rightarrow> direction \<Rightarrow> bool \<Rightarrow> int \<Rightarrow> string \<Rightarrow> string" where
  "padded_encode padchar paddir trim_right width obj =
     (let s = (case paddir of
            DirRight \<Rightarrow> obj @ replicate (nat width - length obj) padchar
          | DirLeft \<Rightarrow> replicate (nat width - length obj) padchar @ obj
          | DirCenter \<Rightarrow> center (nat width) padchar obj)
      in if width < int (length s) then
           (if trim_right then slice None (Some width) s else slice (Some (- width)) None s)
         else s)"

definition PaddedStringAdapter :: "construct \<Rightarrow> char \<Rightarrow> direction \<Rightarrow> bool \<Rightarrow> construct" where
  "PaddedStringAdapter subcon padchar paddir trim_right = PureAdapter subcon
     (\<lambda>obj c. ebind (as_str obj) (\<lambda>s. Inr (PStr (padded_decode padchar paddir s))))
     (\<lambda>obj c. ebind (con_sizeof subcon c) (\<lambda>width. ebind (as_str obj)
        (\<lambda>s. Inr (PStr (padded_encode padchar paddir trim_right width s)))))"

definition LengthValueAdapter :: "construct \<Rightarrow> construct" where
  "LengthValueAdapter subcon = PureAdapter subcon (\<lambda>obj c. py_getitem obj 1)
     (\<lambda>obj c. ebind (py_len obj) (\<lambda>n. Inr (PTuple [PInt n, obj])))"

text \<open>\<open>b''.join\<close>.\<close>

fun join_strs :: "pyval list \<Rightarrow> pyexc + string" where
  "join_strs [] = Inr []"
| "join_strs (x # xs) = ebind (as_str x) (\<lambda>s. ebind (join_strs xs) (\<lambda>t. Inr (s @ t)))"

definition cstring_decode :: "codec option \<Rightarrow> pyval \<Rightarrow> pyexc + pyval" where
  "cstring_decode encoding obj =
     ebind (py_slice obj None (Some (-1))) (\<lambda>v. ebind (py_iter v) (\<lambda>xs.
       ebind (join_strs xs) (\<lambda>s. string_decode encoding (PStr s))))"

definition cstring_encode :: "string \<Rightarrow> codec option \<Rightarrow> pyval \<Rightarrow> pyexc + pyval" where
  "cstring_encode terminators encoding obj =
     ebind (string_encode encoding obj) (\<lambda>v. ebind (as_str v) (\<lambda>s. Inr (PStr (s @ take 1 terminators))))"

definition CStringAdapter :: "construct \<Rightarrow> string \<Rightarrow> codec option \<Rightarrow> construct" where
  "CStringAdapter subcon terminators encoding = PureAdapter subcon
     (\<lambda>obj c. cstring_decode encoding obj) (\<lambda>obj c. cstring_encode terminators encoding obj)"

subsection \<open>Other adapters\<close>

definition TunnelAdapter :: "construct \<Rightarrow> construct \<Rightarrow> construct" where
  "TunnelAdapter subcon inner_subcon = Adapter subcon
     (\<lambda>obj. sbind (slift (as_str obj)) (\<lambda>s.
        sbind (in_stream (BytesIO s 0) (con_parse inner_subcon)) (\<lambda>(v, _). sret v)))
     (\<lambda>obj. sbind (in_stream (BytesIO [] 0) (con_build inner_subcon obj)) (\<lambda>(_, s). sret (PStr s)))"

definition ExprAdapter :: "construct \<Rightarrow> (pyval \<Rightarrow> ctx \<Rightarrow> pyexc + pyval) \<Rightarrow>
    (pyval \<Rightarrow> ctx \<Rightarrow> pyexc + pyval) \<Rightarrow> construct" where
  "ExprAdapter subcon encoder decoder = PureAdapter subcon decoder encoder"

text \<open>A \<open>HexString\<close> is the same bytes; only its printed form differs.\<close>

definition HexDumpAdapter :: "construct \<Rightarrow> construct" where
  "HexDumpAdapter subcon = PureAdapter subcon
     (\<lambda>obj c. ebind (as_str obj) (\<lambda>s. Inr (PStr s))) (\<lambda>obj c. Inr obj)"

definition ConstAdapter :: "construct \<Rightarrow> pyval \<Rightarrow> construct" where
  "ConstAdapter subcon v = PureAdapter subcon
     (\<lambda>obj c. if py_eq obj v then Inr obj else Inl ConstError)
     (\<lambda>obj c. if obj = PNone \<or> py_eq obj v then Inr v else Inl ConstError)"

definition SlicingAdapter :: "construct \<Rightarrow> int option \<Rightarrow> int option \<Rightarrow> construct" where
  "SlicingAdapter subcon start stop = PureAdapter subcon
     (\<lambda>obj c. py_slice obj start stop)
     (\<lambda>obj c. case start of None \<Rightarrow> Inr obj
        | Some n \<Rightarrow> (case obj of PList xs \<Rightarrow> Inr (PList (replicate (nat n) PNone @ xs)) | _ \<Rightarrow> Inl TypeError))"

definition IndexingAdapter :: "construct \<Rightarrow> int \<Rightarrow> construct" where
  "IndexingAdapter subcon i = PureAdapter subcon (\<lambda>obj c. py_getitem obj i)
     (\<lambda>obj c. Inr (PList (replicate (nat i) PNone @ [obj])))"

definition PaddingAdapter :: "construct \<Rightarrow> string \<Rightarrow> bool \<Rightarrow> construct" where
  "PaddingAdapter subcon pattern strict = PureAdapter subcon
     (\<lambda>obj c. if strict then ebind (con_sizeof subcon c)
           (\<lambda>n. if py_eq obj (PStr (concat (replicate (nat n) pattern))) then Inr obj else Inl PaddingError)
        else Inr obj)
     (\<lambda>obj c. ebind (con_sizeof subcon c) (\<lambda>n. Inr (PStr (concat (replicate (nat n) pattern)))))"

subsection \<open>Validators\<close>

definition validate :: "(pyval \<Rightarrow> ctx \<Rightarrow> pyexc + bool) \<Rightarrow> pyval \<Rightarrow> ctx \<Rightarrow> pyexc + pyval" where
  "validate p obj c = ebind (p obj c) (\<lambda>b. if b then Inr obj else Inl ValidationError)"

definition Validator :: "construct \<Rightarrow> (pyval \<Rightarrow> ctx \<Rightarrow> pyexc + bool) \<Rightarrow> construct" where
  "Validator subcon p = PureAdapter subcon (validate p) (validate p)"

definition OneOf :: "construct \<Rightarrow> pyval list \<Rightarrow> construct" where
  "OneOf subcon valids = Validator subcon (\<lambda>obj c. Inr (list_ex (py_eq obj) valids))"

definition NoneOf :: "construct \<Rightarrow> pyval list \<Rightarrow> construct" where
  "NoneOf subcon invalids = Validator subcon (\<lambda>obj c. Inr (\<not> list_ex (py_eq obj) invalids))"

end
