(* ===== verification/ConstructMacros.thy ===== *)
theory ConstructMacros
  imports ConstructAdapters
begin

section \<open>Macros (\<open>construct/macros.py\<close>)\<close>

text \<open>
  The shorthands of the library. A length or a count is a number or a function of the context, as
  \<open>callable\<close> tells. A macro that may raise when it is called returns an exception or a construct.
\<close>

unbundle bit_operations_syntax

datatype amount = Fixed int | Func "ctx \<Rightarrow> pyexc + int"

subsection \<open>Fields\<close>

definition Field :: "string option \<Rightarrow> amount \<Rightarrow> construct" where
  "Field name n = (case n of Func f \<Rightarrow> MetaField name f | Fixed k \<Rightarrow> StaticField name k)"

definition BitField :: "string option \<Rightarrow> int \<Rightarrow> bool \<Rightarrow> bool \<Rightarrow> nat \<Rightarrow> construct" where
  "BitField name n swapped signed bytesize =
     BitIntegerAdapter (Field name (Fixed n)) n swapped signed bytesize"

definition Padding :: "amount \<Rightarrow> string \<Rightarrow> bool \<Rightarrow> construct" where
  "Padding n pattern strict = PaddingAdapter (Field None n) pattern strict"

text \<open>\<open>SymmetricMapping\<close> reverses the mapping; of two keys with one value the later one wins.\<close>

definition reverse_mapping :: "(pyval \<times> pyval) list \<Rightarrow> (pyval \<times> pyval) list" where
  "reverse_mapping mapping = foldl (\<lambda>d (k, v). dict_set v k d) [] mapping"

definition SymmetricMapping :: "construct \<Rightarrow> (pyval \<times> pyval) list \<Rightarrow> map_default \<Rightarrow> construct" where
  "SymmetricMapping subcon mapping dflt =
     MappingAdapter subcon (reverse_mapping mapping) mapping dflt dflt"

definition Flag :: "string option \<Rightarrow> int \<Rightarrow> int \<Rightarrow> bool \<Rightarrow> construct" where
  "Flag name truth falsehood dflt = SymmetricMapping (Field name (Fixed 1))
     [(PBool True, PStr [chr_c truth]), (PBool False, PStr [chr_c falsehood])] (MapTo (PBool dflt))"

definition Bit :: "string option \<Rightarrow> construct" where "Bit name = BitField name 1 False False 8"
definition Nibble :: "string option \<Rightarrow> construct" where "Nibble name = BitField name 4 False False 8"
definition Octet :: "string option \<Rightarrow> construct" where "Octet name = BitField name 8 False False 8"

definition UBInt8 :: "string option \<Rightarrow> construct" where "UBInt8 name = FormatField name Big Fmt_B"
definition UBInt16 :: "string option \<Rightarrow> construct" where "UBInt16 name = FormatField name Big Fmt_H"
definition UBInt32 :: "string option \<Rightarrow> construct" where "UBInt32 name = FormatField name Big Fmt_L"
definition UBInt64 :: "string option \<Rightarrow> construct" where "UBInt64 name = FormatField name Big Fmt_Q"
definition SBInt8 :: "string option \<Rightarrow> construct" where "SBInt8 name = FormatField name Big Fmt_b"
definition SBInt16 :: "string option \<Rightarrow> construct" where "SBInt16 name = FormatField name Big Fmt_h"
definition SBInt32 :: "string option \<Rightarrow> construct" where "SBInt32 name = FormatField name Big Fmt_l"
definition SBInt64 :: "string option \<Rightarrow> construct" where "SBInt64 name = FormatField name Big Fmt_q"
definition ULInt8 :: "string option \<Rightarrow> construct" where "ULInt8 name = FormatField name Little Fmt_B"
definition ULInt16 :: "string option \<Rightarrow> construct" where "ULInt16 name = FormatField name Little Fmt_H"
definition ULInt32 :: "string option \<Rightarrow> construct" where "ULInt32 name = FormatField name Little Fmt_L"
definition ULInt64 :: "string option \<Rightarrow> construct" where "ULInt64 name = FormatField name Little Fmt_Q"
definition SLInt8 :: "string option \<Rightarrow> construct" where "SLInt8 name = FormatField name Little Fmt_b"
definition SLInt16 :: "string option \<Rightarrow> construct" where "SLInt16 name = FormatField name Little Fmt_h"
definition SLInt32 :: "string option \<Rightarrow> construct" where "SLInt32 name = FormatField name Little Fmt_l"
definition SLInt64 :: "string option \<Rightarrow> construct" where "SLInt64 name = FormatField name Little Fmt_q"

lemmas int_fields = UBInt8_def UBInt16_def UBInt32_def UBInt64_def SBInt8_def SBInt16_def SBInt32_def
  SBInt64_def ULInt8_def ULInt16_def ULInt32_def ULInt64_def SLInt8_def SLInt16_def SLInt32_def SLInt64_def

subsection \<open>Arrays\<close>

definition Array :: "amount \<Rightarrow> construct \<Rightarrow> construct" where
  "Array count subcon = (case count of
     Func f \<Rightarrow> MetaArray f subcon
   | Fixed n \<Rightarrow> clear_flag FLAG_DYNAMIC (MetaArray (\<lambda>c. Inr n) subcon))"

text \<open>The key \<open>ctx[length_field.name]\<close>: the name of the length field, or \<open>None\<close>.\<close>

definition ctx_count :: "string option \<Rightarrow> ctx \<Rightarrow> pyexc + int" where
  "ctx_count name c = (case name of None \<Rightarrow> Inl KeyError
     | Some n \<Rightarrow> ebind (ctx_item n c) (\<lambda>v. case as_num v of None \<Rightarrow> Inl TypeError | Some i \<Rightarrow> Inr i))"

definition PrefixedArray :: "construct \<Rightarrow> construct \<Rightarrow> construct" where
  "PrefixedArray subcon length_field =
     LengthValueAdapter (Sequence (con_name subcon) False
       [length_field, Array (Func (ctx_count (con_name length_field))) subcon])"

definition maxsize :: int where "maxsize = 2 ^ 63 - 1"

definition OpenRange :: "int \<Rightarrow> construct \<Rightarrow> construct" where
  "OpenRange mincount subcon = Range mincount maxsize subcon"

definition GreedyRange :: "construct \<Rightarrow> construct" where
  "GreedyRange subcon = OpenRange 1 subcon"

definition OptionalGreedyRange :: "construct \<Rightarrow> construct" where
  "OptionalGreedyRange subcon = OpenRange 0 subcon"

subsection \<open>Subconstructs\<close>

definition Optional :: "construct \<Rightarrow> construct" where
  "Optional subcon = Select (con_name subcon) [subcon, Pass] False"

definition bitwise_resizer :: "int \<Rightarrow> pyexc + int" where
  "bitwise_resizer n = (if n AND 7 \<noteq> 0 then Inl SizeofError else Inr (drop_bit 3 n))"

definition Bitwise :: "construct \<Rightarrow> pyexc + construct" where
  "Bitwise subcon =
     (let buffered = Buffered subcon (\<lambda>d. Inr (encode_bin d)) decode_bin bitwise_resizer;
          restream = Restream subcon (\<lambda>s. BitReader s [] 0) (\<lambda>s. BitWriter s [] 0) bitwise_resizer
      in if is_flag FLAG_DYNAMIC subcon then Inr restream
         else ebind (sizeof subcon new_ctx) (\<lambda>n. Inr (if n < 1024 * 8 then buffered else restream)))"

definition SeqOfOne :: "string option \<Rightarrow> bool \<Rightarrow> construct list \<Rightarrow> construct" where
  "SeqOfOne name nested args = IndexingAdapter (Sequence name nested args) 0"

definition Aligned :: "construct \<Rightarrow> int \<Rightarrow> string \<Rightarrow> pyexc + construct" where
  "Aligned subcon modulus pattern =
     (if modulus < 2 then Inl ValueError
      else (let padlength = (\<lambda>c. ebind (con_sizeof subcon c) (\<lambda>n. Inr ((modulus - n mod modulus) mod modulus)))
            in Inr (SeqOfOne (con_name subcon) False [subcon, Padding (Func padlength) pattern False])))"

definition Embedded :: "construct \<Rightarrow> construct" where
  "Embedded subcon = Reconfig (con_name subcon) subcon FLAG_EMBED 0"

definition Rename :: "string option \<Rightarrow> construct \<Rightarrow> construct" where
  "Rename newname subcon = Reconfig newname subcon 0 0"

definition Alias :: "string \<Rightarrow> string \<Rightarrow> construct" where
  "Alias newname oldname = Value newname (ctx_item oldname)"

subsection \<open>Mappings\<close>

definition Enum :: "construct \<Rightarrow> (string \<times> int) list \<Rightarrow> map_default \<Rightarrow> construct" where
  "Enum subcon kw dflt = SymmetricMapping subcon (map (\<lambda>(k, v). (PStr k, PInt v)) kw) dflt"

definition FlagsEnum :: "construct \<Rightarrow> (string \<times> int) list \<Rightarrow> construct" where
  "FlagsEnum subcon kw = FlagsAdapter subcon kw"

subsection \<open>Structs\<close>

definition AlignedStruct :: "string option \<Rightarrow> int \<Rightarrow> string \<Rightarrow> construct list \<Rightarrow> pyexc + construct" where
  "AlignedStruct name modulus pattern subcons =
     ebind (emap_list (\<lambda>sc. Aligned sc modulus pattern) subcons) (\<lambda>scs. Inr (Struct name True scs))"

definition BitStruct :: "string option \<Rightarrow> construct list \<Rightarrow> pyexc + construct" where
  "BitStruct name subcons = Bitwise (Struct name True subcons)"

definition EmbeddedBitStruct :: "construct list \<Rightarrow> pyexc + construct" where
  "EmbeddedBitStruct subcons = Bitwise (Embedded (Struct None True subcons))"

subsection \<open>Strings\<close>

definition String :: "string option \<Rightarrow> amount \<Rightarrow> codec option \<Rightarrow> char option \<Rightarrow> direction \<Rightarrow> bool \<Rightarrow> construct" where
  "String name n encoding padchar paddir trim_right =
     (let con = StringAdapter (Field name n) encoding
      in case padchar of None \<Rightarrow> con | Some p \<Rightarrow> PaddedStringAdapter con p paddir trim_right)"

definition PascalString :: "string option \<Rightarrow> construct \<Rightarrow> codec option \<Rightarrow> construct" where
  "PascalString name length_field encoding = StringAdapter (LengthValueAdapter (Sequence name True
     [length_field, Field (Some ''data'') (Func (ctx_count (con_name length_field)))])) encoding"

text \<open>\<open>obj in terminators\<close> is the substring test.\<close>

fun is_substring :: "string \<Rightarrow> string \<Rightarrow> bool" where
  "is_substring x [] = (x = [])"
| "is_substring x (c # s) = (take (length x) (c # s) = x \<or> is_substring x s)"

definition CString :: "string option \<Rightarrow> string \<Rightarrow> codec option \<Rightarrow> construct \<Rightarrow> construct" where
  "CString name terminators encoding char_field =
     Rename name (CStringAdapter
       (RepeatUntil (\<lambda>obj c. ebind (as_str obj) (\<lambda>s. Inr (is_substring s terminators))) char_field)
       terminators encoding)"

definition cstring_default :: "string option \<Rightarrow> construct" where
  "cstring_default name = CString name [CHR 0x00] None (Field None (Fixed 1))"

subsection \<open>Conditionals\<close>

definition IfThenElse :: "string option \<Rightarrow> (ctx \<Rightarrow> pyexc + bool) \<Rightarrow> construct \<Rightarrow> construct \<Rightarrow> construct" where
  "IfThenElse name predicate then_subcon else_subcon =
     Switch name (\<lambda>c. ebind (predicate c) (\<lambda>b. Inr (PBool b)))
       [(PBool True, then_subcon), (PBool False, else_subcon)] NoDefault False"

definition If :: "(ctx \<Rightarrow> pyexc + bool) \<Rightarrow> construct \<Rightarrow> pyval \<Rightarrow> construct" where
  "If predicate subcon elsevalue =
     IfThenElse (con_name subcon) predicate subcon (Value ''elsevalue'' (\<lambda>c. Inr elsevalue))"

definition Magic :: "string \<Rightarrow> construct" where
  "Magic data = ConstAdapter (Field None (Fixed (int (length data)))) (PStr data)"

text \<open>An enumeration as the modules of constants write it: the names, and the default.\<close>

type_synonym enum_map = "(string \<times> int) list \<times> map_default"

definition EnumOf :: "construct \<Rightarrow> enum_map \<Rightarrow> construct" where
  "EnumOf subcon kw = Enum subcon (fst kw) (snd kw)"

end
