(* ===== verification/ConstructSpec.thy ===== *)
theory ConstructSpec
  imports ConstructMacros
begin

section \<open>What constructs promise\<close>

text \<open>
  The contract of a construct that encodes values as bytes, stated as a locale; the fields satisfy
  it, and every combinator keeps it. From it follow the round trips of whole structures.
\<close>

subsection \<open>Running the primitives\<close>

named_theorems pm_simps \<open>the primitives of the parsing state\<close>

lemma on_stream_apply [pm_simps]:
  "on_stream m s = (fst (m (p_stream s)), s\<lparr>p_stream := snd (m (p_stream s))\<rparr>)"
  by (simp add: on_stream_def split: prod.split)

lemma state_apply [pm_simps]:
  "tell s = (Inr (stream_tell (p_stream s)), s)"
  "modify_ctx f s = (Inr (), s\<lparr>p_ctx := f (p_ctx s)\<rparr>)"
  "with_ctx g s = (g (p_ctx s), s)"
  "new_obj v s = (Inr (length (p_objs s)), s\<lparr>p_objs := p_objs s @ [v]\<rparr>)"
  "write_obj a v s = (Inr (), s\<lparr>p_objs := (p_objs s)[a := v]\<rparr>)"
  "read_obj a s = (if a < length (p_objs s) then Inr (p_objs s ! a) else Inl KeyError, s)"
  by (simp_all add: tell_def modify_ctx_def with_ctx_def new_obj_def write_obj_def read_obj_def)

lemma in_ctx_apply [pm_simps]:
  "in_ctx f m s = (fst (m (s\<lparr>p_ctx := f (p_ctx s)\<rparr>)), (snd (m (s\<lparr>p_ctx := f (p_ctx s)\<rparr>)))\<lparr>p_ctx := p_ctx s\<rparr>)"
  by (simp add: in_ctx_def split: prod.split)

lemma seek_bytes [pm_simps]:
  "p_stream s = BytesIO d p \<Longrightarrow> 0 \<le> n \<Longrightarrow> seek n s = (Inr (), s\<lparr>p_stream := BytesIO d (nat n)\<rparr>)"
  by (simp add: seek_def pm_simps)

lemma ctx_simps [simp]:
  "c_obj (child_ctx c) = None" "c_unnested (child_ctx c) = False" "c_parent (child_ctx c) = Some c"
  "c_obj (ctx_set n v c) = c_obj c" "c_unnested (ctx_set n v c) = c_unnested c"
  "c_parent (ctx_set n v c) = c_parent c" "c_obj new_ctx = None" "c_unnested new_ctx = False"
  by (simp_all add: child_ctx_def ctx_set_def new_ctx_def)

lemma flag_ops_simps [simp]:
  "con_parse (set_flag f c) = con_parse c" "con_build (set_flag f c) = con_build c"
  "con_sizeof (set_flag f c) = con_sizeof c" "con_name (set_flag f c) = con_name c"
  "con_parse (clear_flag f c) = con_parse c" "con_build (clear_flag f c) = con_build c"
  "con_sizeof (clear_flag f c) = con_sizeof c" "con_name (clear_flag f c) = con_name c"
  by (simp_all add: set_flag_def clear_flag_def)

lemma inherit_flags_simps [simp]:
  "con_parse (inherit_flags scs c) = con_parse c" "con_build (inherit_flags scs c) = con_build c"
  "con_sizeof (inherit_flags scs c) = con_sizeof c" "con_name (inherit_flags scs c) = con_name c"
  by (induction scs arbitrary: c) (simp_all add: inherit_flags_def)

lemma Construct_simps [simp]:
  "con_name (Construct n f) = n" "conflags (Construct n f) = f"
  "con_name (Subconstruct sc) = con_name sc" "conflags (Subconstruct sc) = conflags sc"
  "con_parse (Subconstruct sc) = con_parse sc" "con_build (Subconstruct sc) = con_build sc"
  "con_sizeof (Subconstruct sc) = con_sizeof sc"
  by (simp_all add: Construct_def Subconstruct_def)

lemma read_stream_bytes [pm_simps]:
  assumes "p_stream s = BytesIO d p"
  shows "read_stream (int n) s =
    (if n \<le> length d - p then (Inr (take n (drop p d)), s\<lparr>p_stream := BytesIO d (p + n)\<rparr>)
     else (Inl FieldError, s\<lparr>p_stream := BytesIO d (p + (length d - p))\<rparr>))"
  using assms by (auto simp: read_stream_def pm_simps Let_def sbind_apply min_def)

lemma write_stream_bytes [pm_simps]:
  "p_stream s = BytesIO d p \<Longrightarrow>
   write_stream (int (length x)) (PStr x) s = (Inr (), s\<lparr>p_stream := BytesIO (overwrite d p x) (p + length x)\<rparr>)"
  by (simp add: write_stream_def pm_simps sbind_apply)

subsection \<open>The contract\<close>

text \<open>A context in which no enclosing struct has left a message.\<close>

definition calm :: "pstate \<Rightarrow> bool" where
  "calm s = (c_obj (p_ctx s) = None \<and> \<not> c_unnested (p_ctx s))"

text \<open>
  \<open>enc v\<close> is the encoding of \<open>v\<close>, if it has one. Building writes it at the position of the stream
  and changes nothing else; parsing it returns \<open>v\<close>, and leaves the context and the objects of the
  run alone (new objects may be allocated).
\<close>

locale codec =
  fixes con :: construct and enc :: "pyval \<Rightarrow> string option"
  assumes build_law: "enc v = Some b \<Longrightarrow> calm s \<Longrightarrow> p_stream s = BytesIO d p \<Longrightarrow> p \<le> length d \<Longrightarrow>
      con_build con v s = (Inr (), s\<lparr>p_stream := BytesIO (overwrite d p b) (p + length b)\<rparr>)"
    and parse_law: "enc v = Some b \<Longrightarrow> calm s \<Longrightarrow> p_stream s = BytesIO (x @ b @ r) (length x) \<Longrightarrow>
      \<exists>objs. con_parse con s =
        (Inr v, s\<lparr>p_stream := BytesIO (x @ b @ r) (length x + length b), p_objs := p_objs s @ objs\<rparr>)"
begin

lemma roundtrip:
  assumes "enc v = Some b"
  shows "build fuel con v = Inr b \<and> parse fuel con (b @ r) = Inr v \<and>
    snd (parse_stream fuel con (BytesIO (b @ r) 0)) = BytesIO (b @ r) (length b)"
proof -
  have calm: "calm (start_state fuel t)" for t by (simp add: calm_def start_state_def)
  have "con_build con v (start_state fuel (BytesIO [] 0)) =
      (Inr (), (start_state fuel (BytesIO [] 0))\<lparr>p_stream := BytesIO (overwrite [] 0 b) (0 + length b)\<rparr>)"
    by (rule build_law [OF assms calm]) (simp_all add: start_state_def)
  moreover obtain objs where "con_parse con (start_state fuel (BytesIO ([] @ b @ r) 0)) =
      (Inr v, (start_state fuel (BytesIO ([] @ b @ r) 0))
         \<lparr>p_stream := BytesIO ([] @ b @ r) (length [] + length b),
          p_objs := p_objs (start_state fuel (BytesIO ([] @ b @ r) 0)) @ objs\<rparr>)"
    using parse_law [OF assms, of "start_state fuel (BytesIO ([] @ b @ r) 0)" "[]" r] calm
    by (auto simp: start_state_def)
  ultimately show ?thesis
    by (simp add: build_def build_stream_def parse_def parse_stream_def overwrite_def)
qed

end

subsection \<open>Integer fields\<close>

lemma le_value_bytes: "le_value (le_bytes k n) = n mod 256 ^ k"
proof (induction k arbitrary: n)
  case (Suc k)
  have "n mod 256 + 256 * (n div 256 mod 256 ^ k) = n mod 256 ^ Suc k"
    by (simp add: zmod_zmult2_eq)
  then show ?case using Suc by simp
qed simp

lemma length_le_bytes [simp]: "length (le_bytes k n) = k"
  by (induction k arbitrary: n) auto

definition int_enc :: "endian \<Rightarrow> int_format \<Rightarrow> pyval \<Rightarrow> string option" where
  "int_enc e f v = (case v of PInt i \<Rightarrow> (case pack e f v of Inr b \<Rightarrow> Some b | Inl _ \<Rightarrow> None) | _ \<Rightarrow> None)"

lemma pack_length: "pack e f v = Inr b \<Longrightarrow> length b = fmt_size f"
  by (auto simp: pack_def split: option.splits if_splits)

lemma unpack_pack:
  assumes "pack e f (PInt i) = Inr b"
  shows "unpack e f b = Inr (PInt i)"
proof -
  let ?w = "8 * fmt_size f"
  have r: "fmt_min f \<le> i" "i < fmt_max f" and b: "b = (if e = Little then id else rev) (le_bytes (fmt_size f) i)"
    using assms by (auto simp: pack_def split: if_splits)
  have v: "le_value ((if e = Little then id else rev) b) = i mod 2 ^ ?w"
    using le_value_bytes [of "fmt_size f" i] b by (simp add: power_mult)
  have w: "(2::int) ^ ?w = 2 * 2 ^ (?w - 1)" by (cases f) (simp_all flip: power_Suc)
  show ?thesis
  proof (cases "fmt_signed f \<and> i < 0")
    case True
    then have "(i + 2 ^ ?w) mod 2 ^ ?w = i + 2 ^ ?w"
      using r w by (intro mod_pos_pos_trivial) (auto simp: fmt_min_def)
    then have "i mod 2 ^ ?w = i + 2 ^ ?w" by simp
    then show ?thesis using True r w v pack_length [OF assms] by (auto simp: unpack_def fmt_min_def fmt_max_def Let_def)
  next
    case False
    then have "0 \<le> i" using r(1) by (auto simp: fmt_min_def split: if_splits)
    moreover have "fmt_max f \<le> 2 ^ ?w" by (cases f) (simp_all add: fmt_max_def fmt_signed_def)
    then have "i < 2 ^ ?w" using r(2) by linarith
    ultimately have "i mod 2 ^ ?w = i" by simp
    then show ?thesis using r v pack_length [OF assms] by (auto simp: unpack_def Let_def)
  qed
qed

lemma codec_int: "codec (FormatField name e f) (int_enc e f)"
proof
  fix v b d p and s :: pstate
  assume "int_enc e f v = Some b" and p: "p_stream s = BytesIO d p"
  then have b: "pack e f v = Inr b" by (auto simp: int_enc_def split: pyval.splits sum.splits)
  with pack_length have "int (fmt_size f) = int (length b)" by metis
  then show "con_build (FormatField name e f) v s = (Inr (), s\<lparr>p_stream := BytesIO (overwrite d p b) (p + length b)\<rparr>)"
    using b p by (simp add: FormatField_def scatch_def sbind_apply pm_simps)
next
  fix v b x r and s :: pstate
  assume "int_enc e f v = Some b" and p: "p_stream s = BytesIO (x @ b @ r) (length x)"
  then obtain i where i: "v = PInt i" and b: "pack e f (PInt i) = Inr b"
    by (auto simp: int_enc_def split: pyval.splits sum.splits)
  have "con_parse (FormatField name e f) s = (Inr v, s\<lparr>p_stream := BytesIO (x @ b @ r) (length x + length b)\<rparr>)"
    using unpack_pack [OF b] pack_length [OF b] p i
    by (simp add: FormatField_def scatch_def sbind_apply pm_simps)
  then show "\<exists>objs. con_parse (FormatField name e f) s =
        (Inr v, s\<lparr>p_stream := BytesIO (x @ b @ r) (length x + length b), p_objs := p_objs s @ objs\<rparr>)"
    by (intro exI [of _ "[]"]) simp
qed

interpretation int_field: codec "FormatField name e f" "int_enc e f" for name e f
  by (rule codec_int)

subsection \<open>Static fields, adapters and renaming\<close>

definition str_enc :: "nat \<Rightarrow> pyval \<Rightarrow> string option" where
  "str_enc n v = (case v of PStr s \<Rightarrow> if length s = n then Some s else None | _ \<Rightarrow> None)"

lemma codec_static: "codec (StaticField name (int n)) (str_enc n)"
proof
  fix v b d p and s :: pstate
  assume "str_enc n v = Some b" "p_stream s = BytesIO d p"
  then show "con_build (StaticField name (int n)) v s =
      (Inr (), s\<lparr>p_stream := BytesIO (overwrite d p b) (p + length b)\<rparr>)"
    by (auto simp: str_enc_def StaticField_def pm_simps split: pyval.splits if_splits)
next
  fix v b x r and s :: pstate
  assume "str_enc n v = Some b" "p_stream s = BytesIO (x @ b @ r) (length x)"
  then show "\<exists>objs. con_parse (StaticField name (int n)) s =
      (Inr v, s\<lparr>p_stream := BytesIO (x @ b @ r) (length x + length b), p_objs := p_objs s @ objs\<rparr>)"
    by (intro exI [of _ "[]"])
      (auto simp: str_enc_def StaticField_def pm_simps sbind_apply split: pyval.splits if_splits)
qed

interpretation static_field: codec "StaticField name (int n)" "str_enc n" for name n
  by (rule codec_static)

lemma codec_rename: "codec c enc \<Longrightarrow> codec (Reconfig name c setf clearf) enc"
  by (simp add: codec_def Reconfig_def)

lemma codec_adapter:
  assumes "codec c enc"
    and "\<And>v b. enc' v = Some b \<Longrightarrow> \<exists>w. enc w = Some b \<and> (\<forall>x. e v x = Inr w) \<and> (\<forall>x. dc w x = Inr v)"
  shows "codec (PureAdapter c dc e) enc'"
proof
  fix v b d p and s :: pstate
  assume s: "enc' v = Some b" "calm s" "p_stream s = BytesIO d p" "p \<le> length d"
  obtain w where "enc w = Some b" "\<forall>x. e v x = Inr w" using assms(2) [OF s(1)] by blast
  with codec.build_law [OF assms(1) _ s(2-4)]
  show "con_build (PureAdapter c dc e) v s = (Inr (), s\<lparr>p_stream := BytesIO (overwrite d p b) (p + length b)\<rparr>)"
    by (simp add: PureAdapter_def Adapter_def sbind_apply pm_simps)
next
  fix v b x r and s :: pstate
  assume s: "enc' v = Some b" "calm s" "p_stream s = BytesIO (x @ b @ r) (length x)"
  obtain w where w: "enc w = Some b" "\<forall>x. dc w x = Inr v" using assms(2) [OF s(1)] by blast
  with codec.parse_law [OF assms(1) w(1) s(2,3)] show "\<exists>objs. con_parse (PureAdapter c dc e) s =
      (Inr v, s\<lparr>p_stream := BytesIO (x @ b @ r) (length x + length b), p_objs := p_objs s @ objs\<rparr>)"
    by (auto simp: PureAdapter_def Adapter_def sbind_apply pm_simps)
qed

subsection \<open>Structs\<close>

text \<open>
  A field of a struct: a named construct that is not embedded, with its encoding, or an unnamed one
  (padding), which writes fixed bytes and whose value is dropped. A struct of such fields encodes
  a container with exactly the names of its named fields, in their order, by concatenation.
\<close>

type_synonym field = "construct \<times> (pyval \<Rightarrow> string option)"

definition pad_codec :: "construct \<Rightarrow> string \<Rightarrow> bool" where
  "pad_codec c b =
     ((\<forall>s d p. p_stream s = BytesIO d p \<longrightarrow> p \<le> length d \<longrightarrow>
         con_build c PNone s = (Inr (), s\<lparr>p_stream := BytesIO (overwrite d p b) (p + length b)\<rparr>)) \<and>
      (\<forall>s x r. p_stream s = BytesIO (x @ b @ r) (length x) \<longrightarrow>
         (\<exists>v. con_parse c s = (Inr v, s\<lparr>p_stream := BytesIO (x @ b @ r) (length x + length b)\<rparr>))))"

definition plain_field :: "field \<Rightarrow> bool" where
  "plain_field f = (\<not> is_flag FLAG_EMBED (fst f) \<and>
     (case con_name (fst f) of None \<Rightarrow> (\<forall>b. snd f PNone = Some b \<longrightarrow> pad_codec (fst f) b)
      | Some n \<Rightarrow> codec (fst f) (snd f)))"

fun fields_enc :: "field list \<Rightarrow> container \<Rightarrow> string option" where
  "fields_enc [] kvs = (if kvs = [] then Some [] else None)"
| "fields_enc (f # fs) kvs =
     (case con_name (fst f) of
        None \<Rightarrow> (case (snd f PNone, fields_enc fs kvs) of (Some a, Some b) \<Rightarrow> Some (a @ b) | _ \<Rightarrow> None)
      | Some n \<Rightarrow>
          (case kvs of [] \<Rightarrow> None
           | (m, v) # kvs' \<Rightarrow> if m = n then
               (case (snd f v, fields_enc fs kvs') of (Some a, Some b) \<Rightarrow> Some (a @ b) | _ \<Rightarrow> None)
             else None))"

definition struct_enc :: "field list \<Rightarrow> pyval \<Rightarrow> string option" where
  "struct_enc fs v = (case v of PObj kvs \<Rightarrow> fields_enc fs kvs | _ \<Rightarrow> None)"

fun field_names :: "field list \<Rightarrow> string list" where
  "field_names [] = []"
| "field_names (f # fs) =
     (case con_name (fst f) of None \<Rightarrow> field_names fs | Some n \<Rightarrow> n # field_names fs)"

lemma fields_enc_names: "fields_enc fs kvs = Some b \<Longrightarrow> map fst kvs = field_names fs"
  by (induction fs kvs arbitrary: b rule: fields_enc.induct) (auto split: if_splits option.splits list.splits)

lemma overwrite_overwrite:
  "p \<le> length d \<Longrightarrow> overwrite (overwrite d p a) (p + length a) b = overwrite d p (a @ b)"
  by (simp add: overwrite_def add.commute add.left_commute)

lemma overwrite_le: "p \<le> length d \<Longrightarrow> p + length a \<le> length (overwrite d p a)"
  by (simp add: overwrite_def)

lemma overwrite_Nil [simp]: "p \<le> length d \<Longrightarrow> overwrite d p [] = d"
  by (simp add: overwrite_def)

lemma calm_ctx_set [simp]: "calm (s\<lparr>p_ctx := ctx_set n v (p_ctx s)\<rparr>) = calm s"
  by (simp add: calm_def)

lemma calm_stream [simp]: "calm (s\<lparr>p_stream := t\<rparr>) = calm s" "calm (s\<lparr>p_objs := os\<rparr>) = calm s"
  by (simp_all add: calm_def)

lemma struct_build_fields:
  assumes "\<forall>f\<in>set fs. plain_field f" "fields_enc fs kvs = Some b"
    and "\<forall>(n, v)\<in>set kvs. get_attr obj n = Inr v"
    and "calm s" "p_stream s = BytesIO d p" "p \<le> length d"
  shows "\<exists>c. struct_build_loop (struct_attr obj) obj (map fst fs) s =
     (Inr (), s\<lparr>p_stream := BytesIO (overwrite d p b) (p + length b), p_ctx := c\<rparr>)"
  using assms
proof (induction fs arbitrary: kvs b s d p)
  case Nil
  then show ?case by (auto intro!: exI [of _ "p_ctx s"] split: if_splits)
next
  case (Cons f fs)
  show ?case
  proof (cases "con_name (fst f)")
    case None
    from Cons.prems(2) None obtain a b' where b: "snd f PNone = Some a" "fields_enc fs kvs = Some b'" "b = a @ b'"
      by (auto split: option.splits)
    have f: "pad_codec (fst f) a" "\<not> is_flag FLAG_EMBED (fst f)" using Cons.prems(1) None b(1) by (auto simp: plain_field_def)
    let ?s2 = "s\<lparr>p_stream := BytesIO (overwrite d p a) (p + length a)\<rparr>"
    have "con_build (fst f) PNone s = (Inr (), ?s2)"
      using f(1) Cons.prems(5,6) by (simp add: pad_codec_def)
    moreover obtain c where "struct_build_loop (struct_attr obj) obj (map fst fs) ?s2 =
       (Inr (), ?s2\<lparr>p_stream := BytesIO (overwrite (overwrite d p a) (p + length a) b') (p + length a + length b'), p_ctx := c\<rparr>)"
      using Cons.IH [OF _ b(2), of ?s2 "overwrite d p a" "p + length a"] Cons.prems overwrite_le [of p d a] by auto
    ultimately show ?thesis using f b None Cons.prems(6)
      by (auto simp: sbind_apply pm_simps overwrite_overwrite add.assoc)
  next
    case (Some n)
    from Cons.prems(2) Some obtain v kvs' a b' where b: "kvs = (n, v) # kvs'" "snd f v = Some a" "fields_enc fs kvs' = Some b'" "b = a @ b'"
      by (auto split: option.splits list.splits if_splits)
    have f: "codec (fst f) (snd f)" "\<not> is_flag FLAG_EMBED (fst f)" using Cons.prems(1) Some by (auto simp: plain_field_def)
    let ?s1 = "s\<lparr>p_ctx := ctx_set n v (p_ctx s)\<rparr>"
    let ?s2 = "?s1\<lparr>p_stream := BytesIO (overwrite d p a) (p + length a)\<rparr>"
    have "con_build (fst f) v ?s1 = (Inr (), ?s2)"
      using Cons.prems(4-6) by (intro codec.build_law [OF f(1) b(2)]) simp_all
    moreover obtain c where "struct_build_loop (struct_attr obj) obj (map fst fs) ?s2 =
       (Inr (), ?s2\<lparr>p_stream := BytesIO (overwrite (overwrite d p a) (p + length a) b') (p + length a + length b'), p_ctx := c\<rparr>)"
      using Cons.IH [OF _ b(3), of ?s2 "overwrite d p a" "p + length a"] Cons.prems b(1) overwrite_le [of p d a] by auto
    moreover have "struct_attr obj (fst f) s = (Inr v, s)" using b(1) Some Cons.prems(3) by (simp add: struct_attr_def)
    ultimately show ?thesis using f b Some Cons.prems(6)
      by (auto simp: sbind_apply pm_simps overwrite_overwrite add.assoc)
  qed
qed

lemma obj_setitem_apply [pm_simps]:
  "a < length (p_objs s) \<Longrightarrow> p_objs s ! a = PObj d \<Longrightarrow>
   obj_setitem a n v s = (Inr (), s\<lparr>p_objs := (p_objs s)[a := PObj (container_setitem d n v)]\<rparr>)"
  by (simp add: obj_setitem_def sbind_apply pm_simps)

lemma struct_parse_fields:
  assumes "\<forall>f\<in>set fs. plain_field f" "fields_enc fs kvs = Some b"
    and "calm s" "p_stream s = BytesIO (x @ b @ r) (length x)"
    and "a < length (p_objs s)" "p_objs s ! a = PObj acc" "distinct (map fst (acc @ kvs))"
  shows "\<exists>c objs. struct_parse_loop (obj_setitem a) a (map fst fs) s =
     (Inr (), s\<lparr>p_stream := BytesIO (x @ b @ r) (length x + length b), p_ctx := c,
                p_objs := (p_objs s)[a := PObj (acc @ kvs)] @ objs\<rparr>)"
  using assms
proof (induction fs arbitrary: kvs b s x acc)
  case Nil
  then have "(p_objs s)[a := PObj acc] = p_objs s" by (metis list_update_id)
  with Nil show ?case by (auto intro!: exI [of _ "p_ctx s"] exI [of _ "[]"] split: if_splits)
next
  case (Cons f fs)
  show ?case
  proof (cases "con_name (fst f)")
    case None
    from Cons.prems(2) None obtain e b' where b: "snd f PNone = Some e" "fields_enc fs kvs = Some b'" "b = e @ b'"
      by (auto split: option.splits)
    have f: "pad_codec (fst f) e" "\<not> is_flag FLAG_EMBED (fst f)" using Cons.prems(1) None b(1) by (auto simp: plain_field_def)
    let ?s1 = "s\<lparr>p_stream := BytesIO ((x @ e) @ b' @ r) (length (x @ e))\<rparr>"
    obtain v where "con_parse (fst f) s = (Inr v, ?s1)"
      using f(1) Cons.prems(4) b(3) by (fastforce simp: pad_codec_def)
    moreover obtain c objs where "struct_parse_loop (obj_setitem a) a (map fst fs) ?s1 =
       (Inr (), ?s1\<lparr>p_stream := BytesIO ((x @ e) @ b' @ r) (length (x @ e) + length b'), p_ctx := c,
                  p_objs := (p_objs s)[a := PObj (acc @ kvs)] @ objs\<rparr>)"
      using Cons.IH [OF _ b(2), of ?s1 "x @ e" acc] Cons.prems by auto
    ultimately show ?thesis using f b None by (auto simp: sbind_apply add.assoc)
  next
    case (Some n)
    from Cons.prems(2) Some obtain v kvs' e b' where b: "kvs = (n, v) # kvs'" "snd f v = Some e" "fields_enc fs kvs' = Some b'" "b = e @ b'"
      by (auto split: option.splits list.splits if_splits)
    have f: "codec (fst f) (snd f)" "\<not> is_flag FLAG_EMBED (fst f)" using Cons.prems(1) Some by (auto simp: plain_field_def)
    obtain o1 where run: "con_parse (fst f) s =
        (Inr v, s\<lparr>p_stream := BytesIO (x @ e @ b' @ r) (length x + length e), p_objs := p_objs s @ o1\<rparr>)"
      using codec.parse_law [OF f(1) b(2) Cons.prems(3), of x "b' @ r"] Cons.prems(4) b(4) by auto
    let ?s2 = "s\<lparr>p_stream := BytesIO ((x @ e) @ b' @ r) (length (x @ e)),
         p_objs := (p_objs s @ o1)[a := PObj (acc @ [(n, v)])], p_ctx := ctx_set n v (p_ctx s)\<rparr>"
    have new: "container_setitem acc n v = acc @ [(n, v)]"
      using Cons.prems(7) b(1) by (auto simp: container_setitem_def intro!: dict_set_fresh)
    have 1: "(p_objs s @ o1) ! a = PObj acc" "a < length (p_objs s @ o1)" using Cons.prems(5,6) by (simp_all add: nth_append)
    have "calm ?s2" using Cons.prems(3) by (simp add: calm_def)
    moreover have "a < length (p_objs ?s2)" "p_objs ?s2 ! a = PObj (acc @ [(n, v)])" using 1 by simp_all
    ultimately obtain c objs where "struct_parse_loop (obj_setitem a) a (map fst fs) ?s2 =
       (Inr (), ?s2\<lparr>p_stream := BytesIO ((x @ e) @ b' @ r) (length (x @ e) + length b'), p_ctx := c,
                  p_objs := (p_objs ?s2)[a := PObj ((acc @ [(n, v)]) @ kvs')] @ objs\<rparr>)"
      using Cons.IH [OF _ b(3), of ?s2 "x @ e" "acc @ [(n, v)]"] Cons.prems(1,7) b(1) by fastforce
    then show ?thesis using f b 1 new Cons.prems(5) Some
      by (auto simp: sbind_apply pm_simps run add.assoc list_update_append)
  qed
qed

lemma codec_struct:
  assumes "\<forall>f\<in>set fs. plain_field f" and "distinct (field_names fs)"
  shows "codec (Struct name True (map fst fs)) (struct_enc fs)"
proof
  fix v b d p and s :: pstate
  assume s: "struct_enc fs v = Some b" "calm s" "p_stream s = BytesIO d p" "p \<le> length d"
  then obtain kvs where v: "v = PObj kvs" "fields_enc fs kvs = Some b" by (auto simp: struct_enc_def split: pyval.splits)
  have "distinct (map fst kvs)" using assms(2) fields_enc_names [OF v(2)] by simp
  then have "\<forall>(n, w)\<in>set kvs. get_attr v n = Inr w" using v(1) by auto
  from struct_build_fields [OF assms(1) v(2) this, of "s\<lparr>p_ctx := child_ctx (p_ctx s)\<rparr>" d p] s(2-)
  show "con_build (Struct name True (map fst fs)) v s =
      (Inr (), s\<lparr>p_stream := BytesIO (overwrite d p b) (p + length b)\<rparr>)"
    by (auto simp: Struct_def unnest_def calm_def pm_simps)
next
  fix v b x r and s :: pstate
  assume s: "struct_enc fs v = Some b" "calm s" "p_stream s = BytesIO (x @ b @ r) (length x)"
  then obtain kvs where v: "v = PObj kvs" "fields_enc fs kvs = Some b" by (auto simp: struct_enc_def split: pyval.splits)
  have d: "distinct (map fst kvs)" using assms(2) fields_enc_names [OF v(2)] by simp
  let ?s1 = "s\<lparr>p_objs := p_objs s @ [PObj []], p_ctx := child_ctx (p_ctx s)\<rparr>"
  obtain c objs where "struct_parse_loop (obj_setitem (length (p_objs s))) (length (p_objs s)) (map fst fs) ?s1 =
     (Inr (), ?s1\<lparr>p_stream := BytesIO (x @ b @ r) (length x + length b), p_ctx := c,
                p_objs := (p_objs ?s1)[length (p_objs s) := PObj ([] @ kvs)] @ objs\<rparr>)"
    using struct_parse_fields [OF assms(1) v(2), of ?s1 x r "length (p_objs s)" "[]"] s d
    by (auto simp: calm_def)
  then show "\<exists>objs. con_parse (Struct name True (map fst fs)) s =
      (Inr v, s\<lparr>p_stream := BytesIO (x @ b @ r) (length x + length b), p_objs := p_objs s @ objs\<rparr>)"
    using s(2) v by (auto simp: Struct_def with_object_def calm_def sbind_apply pm_simps nth_append)
qed

lemma pad_codec_padding: "pad_codec (Padding (Fixed (int n)) [c] False) (replicate n c)"
proof -
  have p: "concat (replicate n [c]) = replicate n c" by (induction n) auto
  have "write_stream (int n) (PStr (replicate n c)) s = (Inr (), s\<lparr>p_stream := BytesIO (overwrite d p (replicate n c)) (p + n)\<rparr>)"
    if "p_stream s = BytesIO d p" for s d p
    using write_stream_bytes [OF that, of "replicate n c"] by simp
  then show ?thesis
    by (auto simp: pad_codec_def Padding_def PaddingAdapter_def PureAdapter_def Adapter_def Field_def StaticField_def
        sbind_apply pm_simps p)
qed

lemma Padding_simps [simp]: "con_name (Padding n c b) = None" "conflags (Padding (Fixed k) c b) = 0"
  "con_sizeof (Padding (Fixed k) c b) x = Inr k"
  by (simp_all add: Padding_def PaddingAdapter_def PureAdapter_def Adapter_def Field_def StaticField_def MetaField_def split: amount.split)

subsection \<open>Arrays\<close>

fun list_enc :: "(pyval \<Rightarrow> string option) \<Rightarrow> pyval list \<Rightarrow> string option" where
  "list_enc enc [] = Some []"
| "list_enc enc (v # vs) =
     (case (enc v, list_enc enc vs) of (Some a, Some b) \<Rightarrow> Some (a @ b) | _ \<Rightarrow> None)"

definition array_enc :: "nat \<Rightarrow> (pyval \<Rightarrow> string option) \<Rightarrow> pyval \<Rightarrow> string option" where
  "array_enc n enc v = (case v of PList xs \<Rightarrow> if length xs = n then list_enc enc xs else None | _ \<Rightarrow> None)"

lemma array_build:
  assumes "codec c enc" "list_enc enc vs = Some b" "calm s" "p_stream s = BytesIO d p" "p \<le> length d"
  shows "build_each (\<lambda>x. iteration c (con_build c x)) vs s =
     (Inr (), s\<lparr>p_stream := BytesIO (overwrite d p b) (p + length b)\<rparr>)"
  using assms(2-)
proof (induction vs arbitrary: b s d p)
  case (Cons v vs)
  from Cons.prems(1) obtain a b' where b: "enc v = Some a" "list_enc enc vs = Some b'" "b = a @ b'"
    by (auto split: option.splits)
  let ?s1 = "s\<lparr>p_stream := BytesIO (overwrite d p a) (p + length a)\<rparr>"
  have "con_build c v s = (Inr (), ?s1)" by (rule codec.build_law [OF assms(1) b(1)]) (use Cons.prems in auto)
  then have 1: "iteration c (con_build c v) s = (Inr (), ?s1)" by (simp add: iteration_def pm_simps)
  have "build_each (\<lambda>x. iteration c (con_build c x)) vs ?s1 = (Inr (), ?s1\<lparr>p_stream :=
      BytesIO (overwrite (overwrite d p a) (p + length a) b') (p + length a + length b')\<rparr>)"
  proof (rule Cons.IH [OF b(2)])
    show "calm ?s1" using Cons.prems(2) by (simp add: calm_def)
    show "p + length a \<le> length (overwrite d p a)" by (rule overwrite_le [OF Cons.prems(4)])
  qed simp
  then show ?case using overwrite_overwrite [OF Cons.prems(4), of a b'] 1
    unfolding b(3) build_each.simps sbind_apply by (simp add: add.assoc)
qed simp

lemma array_parse:
  assumes "codec c enc" "list_enc enc vs = Some b" "calm s" "p_stream s = BytesIO (x @ b @ r) (length x)"
  shows "\<exists>objs. meta_array_loop (iteration c (con_parse c)) (length vs) acc s = (Inr (acc @ vs),
     s\<lparr>p_stream := BytesIO (x @ b @ r) (length x + length b), p_objs := p_objs s @ objs\<rparr>)"
  using assms(2-)
proof (induction vs arbitrary: b s x acc)
  case Nil
  then show ?case by (intro exI [of _ "[]"]) simp
next
  case (Cons v vs)
  from Cons.prems(1) obtain a b' where b: "enc v = Some a" "list_enc enc vs = Some b'" "b = a @ b'"
    by (auto split: option.splits)
  obtain o1 where "con_parse c s =
      (Inr v, s\<lparr>p_stream := BytesIO (x @ a @ b' @ r) (length x + length a), p_objs := p_objs s @ o1\<rparr>)"
    using codec.parse_law [OF assms(1) b(1) Cons.prems(2), of x "b' @ r"] Cons.prems(3) b(3) by auto
  then have 1: "iteration c (con_parse c) s =
      (Inr v, s\<lparr>p_stream := BytesIO ((x @ a) @ b' @ r) (length (x @ a)), p_objs := p_objs s @ o1\<rparr>)"
    by (simp add: iteration_def pm_simps)
  let ?s1 = "s\<lparr>p_stream := BytesIO ((x @ a) @ b' @ r) (length (x @ a)), p_objs := p_objs s @ o1\<rparr>"
  have "calm ?s1" using Cons.prems(2) by (simp add: calm_def)
  then obtain o2 where "meta_array_loop (iteration c (con_parse c)) (length vs) (acc @ [v]) ?s1 =
     (Inr ((acc @ [v]) @ vs), ?s1\<lparr>p_stream := BytesIO ((x @ a) @ b' @ r) (length (x @ a) + length b'),
        p_objs := p_objs ?s1 @ o2\<rparr>)"
    using Cons.IH [OF b(2), of ?s1 "x @ a" "acc @ [v]"] by auto
  then show ?case using 1 b(3) by (auto simp: sbind_apply add.assoc)
qed

lemma codec_array:
  assumes "codec c enc"
  shows "codec (MetaArray (\<lambda>_. Inr (int n)) c) (array_enc n enc)"
proof
  fix v b d p and s :: pstate
  assume s: "array_enc n enc v = Some b" "calm s" "p_stream s = BytesIO d p" "p \<le> length d"
  then obtain vs where "v = PList vs" "length vs = n" "list_enc enc vs = Some b"
    by (auto simp: array_enc_def split: pyval.splits if_splits)
  with array_build [OF assms _ s(2-), of vs b]
  show "con_build (MetaArray (\<lambda>_. Inr (int n)) c) v s =
      (Inr (), s\<lparr>p_stream := BytesIO (overwrite d p b) (p + length b)\<rparr>)"
    by (simp add: MetaArray_def sbind_apply pm_simps)
next
  fix v b x r and s :: pstate
  assume s: "array_enc n enc v = Some b" "calm s" "p_stream s = BytesIO (x @ b @ r) (length x)"
  then obtain vs where "v = PList vs" "length vs = n" "list_enc enc vs = Some b"
    by (auto simp: array_enc_def split: pyval.splits if_splits)
  with array_parse [OF assms _ s(2-), of vs "[]"]
  show "\<exists>objs. con_parse (MetaArray (\<lambda>_. Inr (int n)) c) s =
      (Inr v, s\<lparr>p_stream := BytesIO (x @ b @ r) (length x + length b), p_objs := p_objs s @ objs\<rparr>)"
    by (auto simp: MetaArray_def sbind_apply pm_simps scatch_def)
qed

subsection \<open>Enumerations\<close>

definition enum_enc :: "(string \<times> int) list \<Rightarrow> map_default \<Rightarrow> (pyval \<Rightarrow> string option) \<Rightarrow> pyval \<Rightarrow> string option" where
  "enum_enc kw dflt enc v = (case v of
     PStr k \<Rightarrow> (case map_of kw k of Some i \<Rightarrow> enc (PInt i) | None \<Rightarrow> None)
   | PInt i \<Rightarrow> if dflt = PassUnmapped \<and> i \<notin> snd ` set kw then enc v else None
   | _ \<Rightarrow> None)"

lemma py_find_enc: "py_find (map (\<lambda>(k, v). (PStr k, PInt v)) kw) (PStr k) = map_option PInt (map_of kw k)"
  by (induction kw) auto

lemma reverse_enum:
  assumes "distinct (map snd kw)"
  shows "reverse_mapping (map (\<lambda>(k, v). (PStr k, PInt v)) kw) = map (\<lambda>(k, v). (PInt v, PStr k)) kw"
proof -
  have "foldl (\<lambda>d (k, v). dict_set v k d) acc (map (\<lambda>(k, v). (PStr k, PInt v)) kw) =
      acc @ map (\<lambda>(k, v). (PInt v, PStr k)) kw"
    if "\<forall>(k, v)\<in>set kw. PInt v \<notin> fst ` set acc" for acc
    using that assms
  proof (induction kw arbitrary: acc)
    case (Cons kv kw)
    obtain k v where kv: "kv = (k, v)" by fastforce
    have new: "dict_set (PInt v) (PStr k) acc = acc @ [(PInt v, PStr k)]"
      using bspec [OF Cons.prems(1), of kv] kv by (intro dict_set_fresh) simp
    have "PInt v' \<notin> fst ` set (acc @ [(PInt v, PStr k)])" if kv': "(k', v') \<in> set kw" for k' v'
    proof -
      have "v' \<noteq> v" using Cons.prems(2) kv imageI [OF kv', of snd] by auto
      moreover have "PInt v' \<notin> fst ` set acc" using bspec [OF Cons.prems(1), of "(k', v')"] kv' by simp
      ultimately show ?thesis by simp
    qed
    then have "\<forall>(k', v')\<in>set kw. PInt v' \<notin> fst ` set (acc @ [(PInt v, PStr k)])" by blast
    moreover have "distinct (map snd kw)" using Cons.prems(2) by simp
    ultimately have "foldl (\<lambda>d (k, v). dict_set v k d) (acc @ [(PInt v, PStr k)]) (map (\<lambda>(k, v). (PStr k, PInt v)) kw) =
        (acc @ [(PInt v, PStr k)]) @ map (\<lambda>(k, v). (PInt v, PStr k)) kw" by (rule Cons.IH)
    then show ?case using new kv by simp
  qed simp
  from this [of "[]"] show ?thesis by (simp add: reverse_mapping_def)
qed

lemma py_find_dec:
  "distinct (map snd kw) \<Longrightarrow> (k, v) \<in> set kw \<Longrightarrow>
   py_find (map (\<lambda>(k, v). (PInt v, PStr k)) kw) (PInt v) = Some (PStr k)"
  by (induction kw) (auto simp: rev_image_eqI)

lemma py_find_unmapped:
  "i \<notin> snd ` set kw \<Longrightarrow> py_find (map (\<lambda>(k, v). (PInt v, PStr k)) kw) (PInt i) = None"
  "py_find (map (\<lambda>(k, v). (PStr k, PInt v)) kw) (PInt i) = None"
  by (induction kw) auto

lemma codec_enum:
  assumes "codec c enc" and "distinct (map snd kw)"
  shows "codec (Enum c kw dflt) (enum_enc kw dflt enc)"
  unfolding Enum_def SymmetricMapping_def MappingAdapter_def reverse_enum [OF assms(2)]
proof (rule codec_adapter [OF assms(1)])
  fix v b assume v: "enum_enc kw dflt enc v = Some b"
  let ?e = "map (\<lambda>(k, v). (PStr k, PInt v)) kw" and ?d = "map (\<lambda>(k, v). (PInt v, PStr k)) kw"
  from v consider (named) k i where "v = PStr k" "map_of kw k = Some i" "enc (PInt i) = Some b"
    | (number) i where "v = PInt i" "dflt = PassUnmapped" "i \<notin> snd ` set kw" "enc v = Some b"
    by (auto simp: enum_enc_def split: pyval.splits option.splits if_splits)
  then show "\<exists>w. enc w = Some b \<and> (\<forall>x. map_value ?e dflt v = Inr w) \<and> (\<forall>x. map_value ?d dflt w = Inr v)"
  proof cases
    case named
    then show ?thesis using py_find_dec [OF assms(2) map_of_SomeD [OF named(2)]]
      by (intro exI [of _ "PInt i"]) (simp add: map_value_def py_lookup_def py_find_enc)
  next
    case number
    then show ?thesis by (intro exI [of _ v]) (simp add: map_value_def py_lookup_def py_find_unmapped)
  qed
qed

subsection \<open>Bit structures\<close>

definition buffer_enc :: "(pyval \<Rightarrow> string option) \<Rightarrow> (string \<Rightarrow> pyexc + string) \<Rightarrow> pyval \<Rightarrow> string option" where
  "buffer_enc enc encoder v = (case enc v of None \<Rightarrow> None
     | Some w \<Rightarrow> (case encoder w of Inl _ \<Rightarrow> None | Inr b \<Rightarrow> Some b))"

lemma codec_buffered:
  assumes c: "codec c enc" and size: "\<And>x. ebind (con_sizeof c x) resizer = Inr (int n)"
    and inverse: "\<And>v w b. enc v = Some w \<Longrightarrow> encoder w = Inr b \<Longrightarrow> decoder b = Inr w \<and> length b = n"
  shows "codec (Buffered c decoder encoder resizer) (buffer_enc enc encoder)"
proof
  fix v b d p and s :: pstate
  assume s: "buffer_enc enc encoder v = Some b" "calm s" "p_stream s = BytesIO d p" "p \<le> length d"
  then obtain w where w: "enc v = Some w" "encoder w = Inr b"
    by (auto simp: buffer_enc_def split: option.splits sum.splits)
  have "con_build c v (s\<lparr>p_stream := BytesIO [] 0\<rparr>) = (Inr (), s\<lparr>p_stream := BytesIO w (length w)\<rparr>)"
    using codec.build_law [OF c w(1), of "s\<lparr>p_stream := BytesIO [] 0\<rparr>" "[]" 0] s(2)
    by (simp add: calm_def overwrite_def)
  then have "in_stream (BytesIO [] 0) (con_build c v) s = (Inr ((), w), s)"
    using s(3) by (simp add: in_stream_def)
  then show "con_build (Buffered c decoder encoder resizer) v s =
      (Inr (), s\<lparr>p_stream := BytesIO (overwrite d p b) (p + length b)\<rparr>)"
    using w inverse [OF w] s(3) size by (auto simp: Buffered_def Let_def sbind_apply pm_simps)
next
  fix v b x r and s :: pstate
  assume s: "buffer_enc enc encoder v = Some b" "calm s" "p_stream s = BytesIO (x @ b @ r) (length x)"
  then obtain w where w: "enc v = Some w" "encoder w = Inr b"
    by (auto simp: buffer_enc_def split: option.splits sum.splits)
  let ?s1 = "s\<lparr>p_stream := BytesIO (x @ b @ r) (length x + length b)\<rparr>"
  have "calm (?s1\<lparr>p_stream := BytesIO w 0\<rparr>)" using s(2) by (simp add: calm_def)
  then obtain o1 where "con_parse c (?s1\<lparr>p_stream := BytesIO w 0\<rparr>) =
      (Inr v, ?s1\<lparr>p_stream := BytesIO w (length w), p_objs := p_objs s @ o1\<rparr>)"
    using codec.parse_law [OF c w(1), of "?s1\<lparr>p_stream := BytesIO w 0\<rparr>" "[]" "[]"] by auto
  then have "in_stream (BytesIO w 0) (con_parse c) ?s1 = (Inr (v, w), ?s1\<lparr>p_objs := p_objs s @ o1\<rparr>)"
    by (simp add: in_stream_def)
  then show "\<exists>objs. con_parse (Buffered c decoder encoder resizer) s =
      (Inr v, s\<lparr>p_stream := BytesIO (x @ b @ r) (length x + length b), p_objs := p_objs s @ objs\<rparr>)"
    using w inverse [OF w] s(3) size by (auto simp: Buffered_def Let_def sbind_apply pm_simps)
qed

text \<open>A big-endian unsigned bit field of width \<open>w\<close>.\<close>

definition bits_enc :: "nat \<Rightarrow> pyval \<Rightarrow> string option" where
  "bits_enc w v = (case v of PInt i \<Rightarrow> if 0 \<le> i \<and> i < 2 ^ w then Some (bits_of w i) else None | _ \<Rightarrow> None)"

lemma codec_bits: "codec (BitField name (int w) False False 8) (bits_enc w)"
  unfolding BitField_def BitIntegerAdapter_def Field_def amount.case
proof (rule codec_adapter [OF codec_static])
  fix v b assume "bits_enc w v = Some b"
  then obtain i where i: "v = PInt i" "0 \<le> i" "i < 2 ^ w" "b = bits_of w i"
    by (auto simp: bits_enc_def split: pyval.splits if_splits)
  then show "\<exists>x. str_enc w x = Some b \<and> (\<forall>c. bit_integer_encode (int w) False False 8 v = Inr x) \<and>
      (\<forall>c. bit_integer_decode False False 8 x = Inr v)"
    by (intro exI [of _ "PStr b"])
      (simp add: str_enc_def bit_integer_encode_def bit_integer_decode_def int_to_bin_eq bin_to_int_def
        bin_to_int_loop_bits_of)
qed

definition bit_fields :: "(string \<times> nat) list \<Rightarrow> field list" where
  "bit_fields layout = map (\<lambda>(n, w). (BitField (Some n) (int w) False False 8, bits_enc w)) layout"

lemma bit_field_simps [simp]:
  "con_name (BitField name w sw sg bs) = name" "conflags (BitField name w sw sg bs) = 0"
  "con_sizeof (BitField name w sw sg bs) c = Inr w"
  by (simp_all add: BitField_def BitIntegerAdapter_def PureAdapter_def Adapter_def Field_def StaticField_def)

lemma struct_flags:
  "(\<And>sc. sc \<in> set scs \<Longrightarrow> conflags sc = 0) \<Longrightarrow> conflags (Struct name nested scs) = 0"
proof -
  have "conflags (inherit_flags scs c) = conflags c" if "\<And>sc. sc \<in> set scs \<Longrightarrow> conflags sc = 0" for c
    using that by (induction scs arbitrary: c) (simp_all add: inherit_flags_def set_flag_def)
  then show "(\<And>sc. sc \<in> set scs \<Longrightarrow> conflags sc = 0) \<Longrightarrow> conflags (Struct name nested scs) = 0"
    by (simp add: Struct_def clear_flag_def)
qed

lemma sum_sizes_bits:
  "sum_sizes (map fst (bit_fields layout)) c = Inr (int (sum_list (map snd layout)))"
  by (induction layout) (auto simp: bit_fields_def)

lemma fields_enc_bits:
  "list_all2 (\<lambda>(n, w) i. 0 \<le> i \<and> i < 2 ^ w) layout vals \<Longrightarrow>
   \<exists>b. fields_enc (bit_fields layout) (zip (map fst layout) (map PInt vals)) = Some b \<and>
     length b = sum_list (map snd layout) \<and> set b \<subseteq> {CHR 0x00, CHR 0x01}"
proof (induction rule: list_all2_induct)
  case (Cons l ls i vals)
  obtain n w where l: "l = (n, w)" by fastforce
  have "set (bits_of w i) \<subseteq> {CHR 0x00, CHR 0x01}"
  proof (induction w arbitrary: i)
    case (Suc w)
    have "i mod 2 = 0 \<or> i mod 2 = 1" by auto
    then have "bit_char i \<in> {CHR 0x00, CHR 0x01}" by (auto simp: bit_char_def)
    then show ?case using Suc by auto
  qed simp
  then show ?case using Cons l by (auto simp: bit_fields_def bits_enc_def)
qed (simp add: bit_fields_def)

lemma decode_bits:
  assumes "set w \<subseteq> {CHR 0x00, CHR 0x01}" "8 dvd length w"
  shows "\<exists>b. w = encode_bin b"
proof -
  have "\<exists>c. u = char_to_bin c" if "set u \<subseteq> {CHR 0x00, CHR 0x01}" "length u = 8" for u
  proof -
    have "bits_of (length u) (foldl (\<lambda>n c. 2 * n + ord_c c) 0 u) = u" if "set u \<subseteq> {CHR 0x00, CHR 0x01}" for u
      using that
    proof (induction u rule: rev_induct)
      case (snoc c u)
      have [simp]: "ord_c (CHR 0x00) = 0" "ord_c (CHR 0x01) = 1" by (simp_all add: ord_c_def)
      from snoc.prems have "c = CHR 0x00 \<or> c = CHR 0x01" by auto
      then have "(2 * n + ord_c c) div 2 = n" "bit_char (2 * n + ord_c c) = c" for n
        by (auto simp: bit_char_def)
      then show ?case using snoc by simp
    qed simp
    from this [OF that(1)] have "u = bits_of 8 (foldl (\<lambda>n c. 2 * n + ord_c c) 0 u mod 2 ^ 8)"
      using that(2) bits_of_mod by metis
    then show ?thesis by (intro exI [of _ "chr_c (foldl (\<lambda>n c. 2 * n + ord_c c) 0 u)"])
        (simp add: char_to_bin_bits ord_chr)
  qed note byte = this
  obtain k where "length w = 8 * k" using assms(2) by blast
  then show ?thesis using assms(1)
  proof (induction k arbitrary: w)
    case (Suc k)
    have "set (take 8 w) \<subseteq> {CHR 0x00, CHR 0x01}" "set (drop 8 w) \<subseteq> {CHR 0x00, CHR 0x01}"
      using Suc.prems(2) set_take_subset set_drop_subset by fast+
    moreover have "length (take 8 w) = 8" "length (drop 8 w) = 8 * k" using Suc.prems(1) by auto
    ultimately obtain c b where "take 8 w = char_to_bin c" "drop 8 w = encode_bin b" using byte Suc.IH by blast
    then have "w = encode_bin (c # b)" using append_take_drop_id [of 8 w] by (simp add: encode_bin_def)
    then show ?case by blast
  qed (auto intro: exI [of _ "[]"] simp: encode_bin_def)
qed

text \<open>C31: A BitStruct of unsigned bit fields whose widths sum to whole bytes, fewer than 1024 (so that Bitwise buffers it; larger ones go through bit streams), builds exactly that many bytes and parses them back to the same values.\<close>

theorem bit_struct_roundtrip:
  assumes "distinct (map fst layout)" and "8 dvd sum_list (map snd layout)" and "sum_list (map snd layout) < 8192"
    and "list_all2 (\<lambda>(n, w) i. 0 \<le> i \<and> i < 2 ^ w) layout vals"
    and "obj = PObj (zip (map fst layout) (map PInt vals))"
  shows "\<exists>c b. BitStruct name (map (\<lambda>(n, w). BitField (Some n) (int w) False False 8) layout) = Inr c \<and>
     build fuel c obj = Inr b \<and> 8 * length b = sum_list (map snd layout) \<and> parse fuel c (b @ r) = Inr obj"
proof -
  let ?fs = "bit_fields layout" and ?n = "sum_list (map snd layout)"
  let ?st = "Struct name True (map fst ?fs)"
  have fs: "map fst ?fs = map (\<lambda>(n, w). BitField (Some n) (int w) False False 8) layout"
    by (auto simp: bit_fields_def)
  have "\<forall>f\<in>set ?fs. plain_field f" by (auto simp: bit_fields_def plain_field_def codec_bits is_flag_def)
  moreover have "field_names ?fs = map fst layout"
    by (induction layout) (auto simp: bit_fields_def)
  then have "distinct (field_names ?fs)" using assms(1) by simp
  ultimately have st: "codec ?st (struct_enc ?fs)" by (rule codec_struct)
  obtain k where k: "?n = 8 * k" using assms(2) by blast
  have size: "con_sizeof ?st x = Inr (int ?n)" for x by (simp add: Struct_def struct_sizeof_def sum_sizes_bits)
  have "(7::int) = mask 3" by (simp add: mask_eq_exp_minus_1)
  then have "int ?n AND 7 = int ?n mod 2 ^ 3" by (simp only: take_bit_eq_mask [symmetric] take_bit_eq_mod)
  then have res: "bitwise_resizer (int ?n) = Inr (int k)" using k by (simp add: bitwise_resizer_def drop_bit_eq_div)
  have flags: "conflags ?st = 0" by (rule struct_flags) (auto simp: bit_fields_def)
  let ?c = "Buffered ?st (\<lambda>d. Inr (encode_bin d)) decode_bin bitwise_resizer"
  have c: "Bitwise ?st = Inr ?c"
    using size assms(3) flags by (simp add: Bitwise_def is_flag_def sizeof_def)
  obtain w where w: "fields_enc ?fs (zip (map fst layout) (map PInt vals)) = Some w" "length w = ?n"
    "set w \<subseteq> {CHR 0x00, CHR 0x01}" using fields_enc_bits [OF assms(4)] by blast
  obtain b where b: "w = encode_bin b" using decode_bits [OF w(3)] w(2) assms(2) by auto
  define enc where "enc = (\<lambda>v. if v = obj then Some w else None)"
  have sub: "struct_enc ?fs v = Some x" if "enc v = Some x" for v x
    using that w(1) assms(5) by (auto simp: enc_def struct_enc_def split: if_splits)
  have "codec ?st enc" using st sub unfolding codec_def by blast
  then have "codec ?c (buffer_enc enc decode_bin)"
  proof (rule codec_buffered [where n = k])
    fix v x y assume "enc v = Some x" "decode_bin x = Inr y"
    then show "Inr (encode_bin y) = Inr x \<and> length y = k" using b w(2) k by (auto simp: enc_def split: if_splits)
  qed (simp add: size res)
  moreover have "buffer_enc enc decode_bin obj = Some b" by (simp add: buffer_enc_def enc_def b)
  ultimately have "build fuel ?c obj = Inr b \<and> parse fuel ?c (b @ r) = Inr obj" using codec.roundtrip by blast
  then show ?thesis using c b w(2) unfolding BitStruct_def fs by auto
qed

theorem bit_struct_roundtrip_witness:
  "\<exists>c b. BitStruct (Some ''f'') (map (\<lambda>(n, w). BitField (Some n) (int w) False False 8) [(''a'', 3), (''b'', 5)]) = Inr c \<and>
     build 9 c (PObj [(''a'', PInt 7), (''b'', PInt 16)]) = Inr b \<and>
     8 * length b = sum_list (map snd [(''a'', 3::nat), (''b'', 5)]) \<and>
     parse 9 c (b @ ''x'') = Inr (PObj [(''a'', PInt 7), (''b'', PInt 16)])"
  by (rule bit_struct_roundtrip [where vals = "[7, 16]"]) simp_all

subsection \<open>Layouts: everything of fixed shape\<close>

text \<open>
  The constructs of fixed shape that the file formats are made of: integers, byte strings, named
  values, arrays, padding and (nested) structs. \<open>layout_con\<close> is the construct the library builds for
  a layout, \<open>layout_enc\<close> says which bytes a value stands for.
\<close>

datatype layout =
    IntL endian int_format
  | BytesL nat
  | EnumL endian int_format enum_map
  | ArrayL nat layout
  | PadL nat
  | StructL "(string option \<times> layout) list"

fun layout_con :: "string option \<Rightarrow> layout \<Rightarrow> construct" where
  "layout_con name (IntL e f) = FormatField name e f"
| "layout_con name (BytesL n) = Field name (Fixed (int n))"
| "layout_con name (EnumL e f kw) = EnumOf (FormatField name e f) kw"
| "layout_con name (ArrayL n l) = Array (Fixed (int n)) (layout_con name l)"
| "layout_con name (PadL n) = Padding (Fixed (int n)) [CHR 0x00] False"
| "layout_con name (StructL ls) = Struct name True (map (\<lambda>(n, l). layout_con n l) ls)"

fun layout_enc :: "layout \<Rightarrow> pyval \<Rightarrow> string option" and
    layouts_enc :: "(string option \<times> layout) list \<Rightarrow> container \<Rightarrow> string option" where
  "layout_enc (IntL e f) v = int_enc e f v"
| "layout_enc (BytesL n) v = str_enc n v"
| "layout_enc (EnumL e f kw) v = enum_enc (fst kw) (snd kw) (int_enc e f) v"
| "layout_enc (ArrayL n l) v = array_enc n (layout_enc l) v"
| "layout_enc (PadL n) v = (if v = PNone then Some (replicate n (CHR 0x00)) else None)"
| "layout_enc (StructL ls) v = (case v of PObj kvs \<Rightarrow> layouts_enc ls kvs | _ \<Rightarrow> None)"
| "layouts_enc [] kvs = (if kvs = [] then Some [] else None)"
| "layouts_enc ((None, l) # ls) kvs =
     (case (layout_enc l PNone, layouts_enc ls kvs) of (Some a, Some b) \<Rightarrow> Some (a @ b) | _ \<Rightarrow> None)"
| "layouts_enc ((Some n, l) # ls) kvs =
     (case kvs of [] \<Rightarrow> None
      | (m, v) # kvs' \<Rightarrow> if m = n then
          (case (layout_enc l v, layouts_enc ls kvs') of (Some a, Some b) \<Rightarrow> Some (a @ b) | _ \<Rightarrow> None)
        else None)"

fun is_pad :: "layout \<Rightarrow> bool" where
  "is_pad (PadL n) = True"
| "is_pad (ArrayL n l) = is_pad l"
| "is_pad _ = False"

fun layout_wf :: "layout \<Rightarrow> bool" where
  "layout_wf (EnumL e f kw) = distinct (map snd (fst kw))"
| "layout_wf (ArrayL n l) = (layout_wf l \<and> \<not> is_pad l)"
| "layout_wf (StructL ls) = (distinct (filter (\<lambda>n. n \<noteq> None) (map fst ls)) \<and>
     list_all (\<lambda>(n, l). layout_wf l \<and> (is_pad l \<longleftrightarrow> n = None)) ls)"
| "layout_wf _ = True"

fun layout_size :: "layout \<Rightarrow> nat" where
  "layout_size (IntL e f) = fmt_size f"
| "layout_size (BytesL n) = n"
| "layout_size (EnumL e f kw) = fmt_size f"
| "layout_size (ArrayL n l) = layout_size l * n"
| "layout_size (PadL n) = n"
| "layout_size (StructL ls) = sum_list (map (\<lambda>(n, l). layout_size l) ls)"

lemmas field_defs = FormatField_def StaticField_def Field_def EnumOf_def Enum_def SymmetricMapping_def
  MappingAdapter_def PureAdapter_def Adapter_def Array_def MetaArray_def

lemma is_flag_embed: "is_flag FLAG_EMBED c = bit (conflags c) 2"
  using and_exp_eq_0_iff_not_bit [of "conflags c" 2] by (simp add: is_flag_def FLAG_EMBED_def)

lemma layout_con_name [simp]: "con_name (layout_con name l) = (if is_pad l then None else name)"
proof (induction name l rule: layout_con.induct)
  case (4 name n l)
  then show ?case by (cases "is_pad l") (simp_all add: field_defs)
qed (simp_all add: field_defs Struct_def)

lemma layout_con_plain: "\<not> is_flag FLAG_EMBED (layout_con name l)"
  unfolding is_flag_embed
  by (induction name l rule: layout_con.induct)
    (simp_all add: field_defs Struct_def set_flag_def
      clear_flag_def FLAG_EMBED_def FLAG_DYNAMIC_def FLAG_COPY_CONTEXT_def bit_simps)

lemma layout_con_sizeof: "con_sizeof (layout_con name l) c = Inr (int (layout_size l))"
proof (induction name l arbitrary: c rule: layout_con.induct)
  case (6 name ls)
  have "sum_sizes (map (\<lambda>(n, l). layout_con n l) ls) c = Inr (int (sum_list (map (\<lambda>(n, l). layout_size l) ls)))" for c
    using 6 by (induction ls) auto
  then show ?case by (simp add: Struct_def struct_sizeof_def)
qed (simp_all add: field_defs)

lemma layouts_enc_fields:
  "list_all (\<lambda>(n, l). is_pad l \<longleftrightarrow> n = None) ls \<Longrightarrow>
   layouts_enc ls kvs = fields_enc (map (\<lambda>(n, l). (layout_con n l, layout_enc l)) ls) kvs"
proof (induction ls arbitrary: kvs)
  case (Cons nl ls)
  obtain n l where "nl = (n, l)" by fastforce
  then show ?case using Cons by (cases n; cases kvs) (auto split: option.splits)
qed simp

lemma layout_enc_eqs:
  "layout_enc (IntL e f) = int_enc e f" "layout_enc (BytesL n) = str_enc n"
  "layout_enc (EnumL e f kw) = enum_enc (fst kw) (snd kw) (int_enc e f)"
  "layout_enc (ArrayL n l) = array_enc n (layout_enc l)"
  by (simp_all add: fun_eq_iff)

lemma codec_layout: "layout_wf l \<Longrightarrow> \<not> is_pad l \<Longrightarrow> codec (layout_con name l) (layout_enc l)"
proof (induction name l rule: layout_con.induct)
  case (4 name n l)
  then have "codec (layout_con name l) (layout_enc l)" by simp
  from codec_array [OF this] show ?case by (simp add: layout_enc_eqs codec_def Array_def)
next
  case (6 name ls)
  let ?fs = "map (\<lambda>(n, l). (layout_con n l, layout_enc l)) ls"
  have pads: "list_all (\<lambda>(n, l). is_pad l \<longleftrightarrow> n = None) ls" using 6(2) by (auto simp: list_all_iff)
  have 1: "codec (Struct name True (map fst ?fs)) (struct_enc ?fs)"
  proof (rule codec_struct)
    have "plain_field (layout_con n l, layout_enc l)" if nl: "(n, l) \<in> set ls" for n l
    proof (cases "is_pad l")
      case True
      moreover have "layout_wf l" using 6(2) nl by (auto simp: list_all_iff)
      ultimately obtain k where "l = PadL k" by (cases l) auto
      then show ?thesis using pad_codec_padding [of k] layout_con_plain [of n l] by (simp add: plain_field_def)
    next
      case False
      then have "n \<noteq> None" "layout_wf l" using 6(2) nl by (auto simp: list_all_iff)
      then show ?thesis using 6(1) [OF nl] False layout_con_plain [of n l] by (auto simp: plain_field_def)
    qed
    then show "\<forall>f\<in>set ?fs. plain_field f" by auto
    have "map Some (field_names ?fs) = filter (\<lambda>n. n \<noteq> None) (map fst ls)"
      using pads by (induction ls) (auto split: option.split)
    then have "distinct (map Some (field_names ?fs))" using 6(2) by (simp only: layout_wf.simps)
    then show "distinct (field_names ?fs)" by (simp only: distinct_map)
  qed
  have 2: "struct_enc ?fs = layout_enc (StructL ls)"
    by (auto simp: struct_enc_def layouts_enc_fields [OF pads] split: pyval.splits)
  have 3: "map fst ?fs = map (\<lambda>(n, l). layout_con n l) ls" by auto
  show ?case unfolding layout_con.simps by (rule 1 [unfolded 2 3])
qed (simp_all add: layout_enc_eqs codec_int codec_static codec_enum Field_def EnumOf_def)

text \<open>C6: For every layout of integers, byte strings, named values, arrays and nested structs and every value it can represent, building yields the encoding, parsing the encoding (with anything behind it) yields the value again, and the stream is left right behind it.\<close>

theorem layout_roundtrip:
  assumes "layout_wf l" and "\<not> is_pad l" and "layout_enc l v = Some b"
  shows "build fuel (layout_con name l) v = Inr b \<and> parse fuel (layout_con name l) (b @ r) = Inr v \<and>
    snd (parse_stream fuel (layout_con name l) (BytesIO (b @ r) 0)) = BytesIO (b @ r) (length b)"
  using codec.roundtrip [OF codec_layout [OF assms(1,2)] assms(3)] by blast

definition example_layout :: layout where
  "example_layout = StructL [(Some ''m'', BytesL 2), (None, PadL 1),
     (Some ''k'', EnumL Little Fmt_H ([(''X'', 1), (''Y'', 258)], PassUnmapped)), (Some ''a'', ArrayL 2 (IntL Big Fmt_b))]"

theorem layout_roundtrip_witness:
  "\<exists>b. build 5 (layout_con None example_layout)
         (PObj [(''m'', PStr ''hi''), (''k'', PStr ''Y''), (''a'', PList [PInt (-1), PInt 5])]) = Inr b \<and>
     parse 5 (layout_con None example_layout) (b @ ''zz'') =
       Inr (PObj [(''m'', PStr ''hi''), (''k'', PStr ''Y''), (''a'', PList [PInt (-1), PInt 5])])"
proof -
  let ?v = "PObj [(''m'', PStr ''hi''), (''k'', PStr ''Y''), (''a'', PList [PInt (-1), PInt 5])]"
  have "layout_enc example_layout ?v \<noteq> None" by code_simp
  then obtain b where b: "layout_enc example_layout ?v = Some b" by auto
  have "layout_wf example_layout" "\<not> is_pad example_layout" by (simp_all add: example_layout_def)
  from layout_roundtrip [OF this b, of 5 None "''zz''"] show ?thesis by auto
qed

end
