(* ===== verification/ConstructSafety.thy ===== *)
theory ConstructSafety
  imports ConstructSpec
begin

section \<open>Parsing is read-only\<close>

text \<open>
  Whatever construct is put together from the classes of \<open>core.py\<close> and the adapters, and whether it
  returns or raises, parsing leaves the bytes of the stream as they were (\<open>keeps\<close>). So the classes that
  try a construct and go back when it fails are right to do so: the next try reads the same bytes.
\<close>

fun stream_data :: "pystream \<Rightarrow> string" where
  "stream_data (BytesIO d p) = d"
| "stream_data (BitReader sub buffer n) = stream_data sub"
| "stream_data (BitWriter sub buffer n) = stream_data sub"

definition shape :: "pystream \<Rightarrow> string \<times> nat" where
  "shape t = (stream_data t, depth t)"

lemma shape_simps [simp]:
  "shape (BytesIO d p) = (d, 0)"
  "shape (BitReader sub buffer n) = (fst (shape sub), Suc (snd (shape sub)))"
  "shape (BitWriter sub buffers n) = (fst (shape sub), Suc (snd (shape sub)))"
  by (simp_all add: shape_def)

definition keeps :: "'a pm \<Rightarrow> bool" where
  "keeps m = (\<forall>s. readable (p_stream s) \<longrightarrow> readable (p_stream (snd (m s))) \<and>
     shape (p_stream (snd (m s))) = shape (p_stream s) \<and> p_fuel (snd (m s)) = p_fuel s)"

named_theorems keeps_intros \<open>introduction rules for \<open>keeps\<close>\<close>

lemma keepsD: "keeps m \<Longrightarrow> m s = (r, s') \<Longrightarrow> readable (p_stream s) \<Longrightarrow>
    readable (p_stream s') \<and> shape (p_stream s') = shape (p_stream s) \<and> p_fuel s' = p_fuel s"
  unfolding keeps_def by (metis snd_conv)

lemma keeps_prims [keeps_intros]:
  "keeps (sret x)" "keeps (sraise e)" "keeps (slift r)" "keeps (with_ctx g)" "keeps tell"
  "keeps (modify_ctx f)" "keeps (read_obj a)" "keeps (write_obj a v)" "keeps (new_obj v)"
  by (simp_all add: keeps_def pm_simps)

lemma keeps_Pair [keeps_intros]: "keeps (Pair r)"
  by (simp add: keeps_def)

lemma keeps_sbind [keeps_intros]: "keeps m \<Longrightarrow> (\<And>x. keeps (f x)) \<Longrightarrow> keeps (sbind m f)"
  unfolding keeps_def sbind_def by (auto split: prod.splits sum.splits)

lemma keeps_scatch [keeps_intros]: "keeps m \<Longrightarrow> (\<And>e. keeps (h e)) \<Longrightarrow> keeps (scatch m p h)"
  unfolding keeps_def scatch_def by (auto split: prod.splits sum.splits)

lemma keepsI:
  assumes "\<And>s r s'. m s = (r, s') \<Longrightarrow> readable (p_stream s) \<Longrightarrow>
    readable (p_stream s') \<and> shape (p_stream s') = shape (p_stream s) \<and> p_fuel s' = p_fuel s"
  shows "keeps m"
  unfolding keeps_def
proof (intro allI impI)
  fix s :: pstate assume "readable (p_stream s)"
  then show "readable (p_stream (snd (m s))) \<and> shape (p_stream (snd (m s))) = shape (p_stream s) \<and>
      p_fuel (snd (m s)) = p_fuel s"
    using assms [of s "fst (m s)" "snd (m s)"] by simp
qed

lemma keeps_sfinally [keeps_intros]:
  assumes "keeps m" "keeps f"
  shows "keeps (sfinally m f)"
proof (rule keepsI)
  fix s r s' assume run: "sfinally m f s = (r, s')" "readable (p_stream s)"
  obtain r1 s1 where 1: "m s = (r1, s1)" by fastforce
  obtain r2 s2 where 2: "f s1 = (r2, s2)" by fastforce
  have "s' = s2" using run(1) 1 2 by (auto simp: sfinally_def split: sum.splits)
  then show "readable (p_stream s') \<and> shape (p_stream s') = shape (p_stream s) \<and> p_fuel s' = p_fuel s"
    using keepsD [OF assms(1) 1 run(2)] keepsD [OF assms(2) 2] by simp
qed

lemma keeps_in_ctx [keeps_intros]: "keeps m \<Longrightarrow> keeps (in_ctx f m)"
  by (simp add: keeps_def pm_simps)

lemma keeps_if [keeps_intros]: "keeps m \<Longrightarrow> keeps m' \<Longrightarrow> keeps (if b then m else m')"
  by simp

lemma stream_read_data:
  "readable t \<Longrightarrow> readable (snd (stream_read n t)) \<and> shape (snd (stream_read n t)) = shape t"
proof (induction n t rule: stream_read.induct)
  case (2 n sub buffer k)
  show ?case
  proof (cases "n < 0 \<or> n = 0 \<or> n \<le> int (length buffer)")
    case True
    then show ?thesis using 2(2) by auto
  next
    case False
    then have "readable (snd (stream_read (ceil8 (n - int (length buffer))) sub)) \<and>
        shape (snd (stream_read (ceil8 (n - int (length buffer))) sub)) = shape sub"
      using 2 by auto
    then show ?thesis using False by (auto simp: Let_def split: prod.splits sum.splits)
  qed
qed (auto simp: Let_def)

lemma stream_seek_data:
  "readable t \<Longrightarrow> readable (snd (stream_seek n w t)) \<and> shape (snd (stream_seek n w t)) = shape t"
  by (induction n w t rule: stream_seek.induct) (auto simp: Let_def split: prod.splits)

lemma stream_close_data: "readable t \<Longrightarrow> stream_close t = (r, t') \<Longrightarrow> t' = t"
  by (cases t) (auto split: if_splits)

lemma keeps_stream [keeps_intros]:
  "keeps (on_stream (stream_read n))" "keeps (seek n)"
  using stream_read_data stream_seek_data by (simp_all add: keeps_def pm_simps seek_def)

lemma keeps_read_stream [keeps_intros]: "keeps (read_stream n)"
  unfolding read_stream_def by (intro keeps_intros)

lemma keeps_in_stream [keeps_intros]: "keeps m \<Longrightarrow> keeps (in_stream (BytesIO d 0) m)"
proof -
  assume m: "keeps m"
  have "p_fuel (snd (m (s\<lparr>p_stream := BytesIO d 0\<rparr>))) = p_fuel s" for s
    using m unfolding keeps_def by (metis pstate.ext_inject pstate.select_convs(1,4) pstate.surjective pstate.update_convs(1) readable.simps(1))
  then show ?thesis by (simp add: keeps_def in_stream_def split: prod.splits) (metis snd_conv)
qed

lemma keeps_restreamed [keeps_intros]:
  assumes "keeps m"
  shows "keeps (restreamed (\<lambda>t. BitReader t [] 0) m)"
  unfolding keeps_def
proof (intro allI impI)
  fix s :: pstate assume r: "readable (p_stream s)"
  let ?s = "s\<lparr>p_stream := BitReader (p_stream s) [] 0\<rparr>"
  have close: "keeps (on_stream stream_close)"
    unfolding keeps_def on_stream_apply using stream_close_data by (simp, metis prod.collapse)
  have "keeps (sbind m (\<lambda>x. sbind (on_stream stream_close) (\<lambda>_. sret x)))"
    by (intro keeps_intros assms close)
  moreover obtain v s' where run: "sbind m (\<lambda>x. sbind (on_stream stream_close) (\<lambda>_. sret x)) ?s = (v, s')"
    by fastforce
  ultimately have "readable (p_stream s') \<and> shape (p_stream s') = shape (p_stream ?s) \<and> p_fuel s' = p_fuel ?s"
    using r keepsD [of "sbind m (\<lambda>x. sbind (on_stream stream_close) (\<lambda>_. sret x))" ?s v s'] by simp
  then have "readable (substream (p_stream s')) \<and> shape (substream (p_stream s')) = shape (p_stream s) \<and> p_fuel s' = p_fuel s"
    by (cases "p_stream s'") (auto simp: prod_eq_iff)
  then show "readable (p_stream (snd (restreamed (\<lambda>t. BitReader t [] 0) m s))) \<and>
      shape (p_stream (snd (restreamed (\<lambda>t. BitReader t [] 0) m s))) = shape (p_stream s) \<and>
      p_fuel (snd (restreamed (\<lambda>t. BitReader t [] 0) m s)) = p_fuel s"
    by (simp add: restreamed_def run)
qed

lemma keeps_fuel: "(\<And>n. keeps (f n)) \<Longrightarrow> keeps (\<lambda>s. f (p_fuel s) s)"
  by (simp add: keeps_def)

lemma keeps_array_loop [keeps_intros]: "keeps m \<Longrightarrow> keeps (meta_array_loop m k obj)"
  by (induction k arbitrary: obj) (auto intro!: keeps_intros)

lemma keeps_repeat_loop [keeps_intros]: "keeps m \<Longrightarrow> keeps (repeat_parse_loop k m p obj)"
  by (induction k arbitrary: obj) (auto intro!: keeps_intros)

lemma keeps_iteration [keeps_intros]: "keeps m \<Longrightarrow> keeps (iteration c m)"
  unfolding iteration_def by (intro keeps_intros)

lemma keeps_range_loop [keeps_intros]:
  assumes "keeps m"
  shows "keeps (range_parse_loop k m mn mx c obj)"
proof (induction k arbitrary: c obj)
  case (Suc k)
  have "keeps (\<lambda>s. case m s of (Inr v, s') \<Rightarrow> range_parse_loop k m mn mx (c + 1) (obj @ [v]) s'
          | (Inl e, s') \<Rightarrow> if is_construct_error e then
                (if c < mn then (Inl RangeError, s') else sbind (seek pos) (\<lambda>_. sret (PList obj)) s')
              else (Inl e, s'))" (is "keeps ?m") for pos
    unfolding keeps_def
  proof (intro allI impI)
    fix s :: pstate assume r: "readable (p_stream s)"
    obtain v s' where run: "m s = (v, s')" by fastforce
    have s': "readable (p_stream s') \<and> shape (p_stream s') = shape (p_stream s) \<and> p_fuel s' = p_fuel s"
      by (rule keepsD [OF assms run r])
    have 1: "keeps (sbind (seek pos) (\<lambda>_. sret (PList obj)))" by (intro keeps_intros)
    show "readable (p_stream (snd (?m s))) \<and> shape (p_stream (snd (?m s))) = shape (p_stream s) \<and>
        p_fuel (snd (?m s)) = p_fuel s"
    proof (cases v)
      case (Inl e)
      then show ?thesis using s' 1 run unfolding keeps_def by auto
    next
      case (Inr x)
      then show ?thesis using s' Suc [of "c + 1" "obj @ [x]"] run unfolding keeps_def by auto
    qed
  qed
  then show ?case by (auto intro!: keeps_intros)
qed (auto intro!: keeps_intros)

lemma keeps_struct_loop:
  assumes "\<And>sc. sc \<in> set scs \<Longrightarrow> keeps (con_parse sc)" and "\<And>n v. keeps (add n v)"
  shows "keeps (struct_parse_loop add a scs)"
  using assms(1)
proof (induction scs)
  case (Cons sc scs)
  then show ?case using assms(2) by (auto intro!: keeps_intros split: option.split)
qed (auto intro!: keeps_intros)

lemma keeps_with_object [keeps_intros]:
  assumes "\<And>a. keeps (body a)"
  shows "keeps (with_object nested v body)"
proof -
  have "keeps (sbind (modify_ctx (set_obj None)) (\<lambda>_. sbind (body a) (\<lambda>_. read_obj a)))" for a
    by (intro keeps_intros assms)
  moreover have "keeps (sbind (new_obj v) (\<lambda>a. sbind (if nested then in_ctx child_ctx (body a) else body a) (\<lambda>_. read_obj a)))"
    by (intro keeps_intros assms)
  ultimately show ?thesis unfolding keeps_def with_object_def by (auto split: option.split)
qed

lemma keeps_obj_ops [keeps_intros]: "keeps (obj_setitem a n v)" "keeps (obj_append a v)"
  unfolding obj_setitem_def obj_append_def
  by (intro keeps_intros, auto split: pyval.split intro!: keeps_intros)+

lemma keeps_select_loop:
  "(\<And>sc. sc \<in> set scs \<Longrightarrow> keeps (con_parse sc)) \<Longrightarrow> keeps (select_parse_loop b scs)"
proof (induction scs)
  case (Cons sc scs)
  have "keeps (\<lambda>s. case con_parse sc s of
         (Inr obj, s') \<Rightarrow>
           (Inr (if b then PTuple [(case con_name sc of None \<Rightarrow> PNone | Some n \<Rightarrow> PStr n), obj] else obj),
            s'\<lparr>p_ctx := ctx_update (p_ctx s) (p_ctx s')\<rparr>)
       | (Inl e, s') \<Rightarrow>
           if is_construct_error e then
             sbind (seek pos) (\<lambda>_. select_parse_loop b scs) (s'\<lparr>p_ctx := p_ctx s\<rparr>)
           else (Inl e, s'\<lparr>p_ctx := p_ctx s\<rparr>))" (is "keeps ?m") for pos
    unfolding keeps_def
  proof (intro allI impI)
    fix s :: pstate assume r: "readable (p_stream s)"
    obtain v s' where run: "con_parse sc s = (v, s')" by fastforce
    have s': "readable (p_stream s') \<and> shape (p_stream s') = shape (p_stream s) \<and> p_fuel s' = p_fuel s"
      using Cons.prems by (intro keepsD [of "con_parse sc", OF _ run r]) simp
    have 1: "keeps (sbind (seek pos) (\<lambda>_. select_parse_loop b scs))" using Cons by (intro keeps_intros) auto
    show "readable (p_stream (snd (?m s))) \<and> shape (p_stream (snd (?m s))) = shape (p_stream s) \<and>
        p_fuel (snd (?m s)) = p_fuel s"
    proof (cases v)
      case (Inl e)
      then show ?thesis using s' keepsD [OF 1, of "s'\<lparr>p_ctx := p_ctx s\<rparr>"] run
        by (cases "sbind (seek pos) (\<lambda>_. select_parse_loop b scs) (s'\<lparr>p_ctx := p_ctx s\<rparr>)") auto
    qed (use s' run in auto)
  qed
  then show ?case by (auto intro!: keeps_intros)
qed (auto intro!: keeps_intros)

text \<open>The constructs of the library.\<close>

inductive lib_con :: "construct \<Rightarrow> bool" where
  "lib_con (StaticField name n)"
| "lib_con (FormatField name e f)"
| "lib_con (MetaField name lf)"
| "lib_con c \<Longrightarrow> lib_con (MetaArray cf c)"
| "lib_con c \<Longrightarrow> lib_con (Range mn mx c)"
| "lib_con c \<Longrightarrow> lib_con (RepeatUntil p c)"
| "(\<And>sc. sc \<in> set scs \<Longrightarrow> lib_con sc) \<Longrightarrow> lib_con (Struct name nested scs)"
| "(\<And>sc. sc \<in> set scs \<Longrightarrow> lib_con sc) \<Longrightarrow> lib_con (Sequence name nested scs)"
| "lib_con master \<Longrightarrow> (\<And>sc. sc \<in> set scs \<Longrightarrow> lib_con sc) \<Longrightarrow> lib_con (Union name master scs)"
| "(\<And>k c. (k, c) \<in> set cases \<Longrightarrow> lib_con c) \<Longrightarrow> lib_con dflt \<Longrightarrow> lib_con (Switch name kf cases dflt ik)"
| "lib_con NoDefault"
| "(\<And>sc. sc \<in> set scs \<Longrightarrow> lib_con sc) \<Longrightarrow> lib_con (Select name scs b)"
| "lib_con c \<Longrightarrow> lib_con (Pointer off c)"
| "lib_con c \<Longrightarrow> lib_con (Peek c pb)"
| "lib_con c \<Longrightarrow> lib_con (Buffered c dc ec rs)"
| "lib_con c \<Longrightarrow> lib_con (Restream c (\<lambda>t. BitReader t [] 0) wr rs)"
| "lib_con c \<Longrightarrow> lib_con (Reconfig name c sf cf)"
| "lib_con (Anchor nm)"
| "lib_con (Value nm func)"
| "lib_con (bf ()) \<Longrightarrow> lib_con (LazyBound name bf)"
| "lib_con Pass"
| "lib_con Terminator"
| "lib_con c \<Longrightarrow> lib_con (PureAdapter c dec enc)"
| "lib_con c \<Longrightarrow> lib_con c' \<Longrightarrow> lib_con (TunnelAdapter c c')"

lemma py_find_set: "py_find d k = Some v \<Longrightarrow> \<exists>k'. (k', v) \<in> set d"
  by (induction d k rule: py_find.induct) (auto split: if_splits)

lemma switch_case_in: "switch_case cases dflt key = Inr c \<Longrightarrow> c = dflt \<or> (\<exists>k. (k, c) \<in> set cases)"
  by (auto simp: switch_case_def py_lookup_def dest: py_find_set split: sum.splits if_splits option.splits)

lemma keeps_switch:
  assumes "\<And>k c. (k, c) \<in> set cases \<Longrightarrow> keeps (con_parse c)" "keeps (con_parse dflt)"
  shows "keeps (sbind (slift (switch_case cases dflt key)) (\<lambda>c. sbind (con_parse c) (\<lambda>obj. sret (g obj))))"
proof (cases "switch_case cases dflt key")
  case (Inr c)
  then have "keeps (con_parse c)" using switch_case_in assms by blast
  then have "keeps (sbind (con_parse c) (\<lambda>obj. sret (g obj)))" by (intro keeps_intros)
  then show ?thesis using Inr by (simp add: keeps_def sbind_apply)
qed (simp add: keeps_def sbind_apply)

lemma lib_con_keeps: "lib_con c \<Longrightarrow> keeps (con_parse c)"
proof (induction rule: lib_con.induct)
  case (7 scs name nested)
  then show ?case unfolding Struct_def by (auto intro!: keeps_intros keeps_struct_loop)
next
  case (8 scs name nested)
  then show ?case unfolding Sequence_def by (auto intro!: keeps_intros keeps_struct_loop)
next
  case (9 master scs name)
  have "keeps (con_parse (Peek sc pb))" if "keeps (con_parse sc)" for sc pb
    using that unfolding Peek_def by (auto intro!: keeps_intros)
  moreover have "keeps (con_parse (MetaField nm lf))" for nm lf
    unfolding MetaField_def by (auto intro!: keeps_intros)
  ultimately have "keeps (struct_parse_loop (obj_setitem a) a
      (Peek master True # map (\<lambda>sc. Peek sc False) scs @ [MetaField None (con_sizeof master)]))" for a
    using 9 by (intro keeps_struct_loop keeps_intros) auto
  then show ?case unfolding Union_def Let_def Struct_def
    by (simp del: struct_parse_loop.simps) (intro keeps_intros)
next
  case (10 cases dflt name kf ik)
  then have K: "keeps (sbind (slift (switch_case cases dflt key)) (\<lambda>c. sbind (con_parse c)
      (\<lambda>obj. sret (if ik then PTuple [key, obj] else obj))))" for key
    by (intro keeps_switch) auto
  show ?case unfolding Switch_def by (simp, rule keeps_sbind [OF keeps_prims(4)], rule K)
next
  case (12 scs name b)
  then show ?case unfolding Select_def by (auto intro!: keeps_select_loop)
next
  case (5 c mn mx)
  have "keeps (\<lambda>s. range_parse_loop (p_fuel s) (iteration c (con_parse c)) mn mx 0 [] s)"
    by (rule keeps_fuel) (intro keeps_range_loop keeps_iteration 5)
  then show ?case by (simp add: Range_def)
next
  case (6 c p)
  have "keeps (\<lambda>s. sbind (repeat_parse_loop (p_fuel s) (iteration c (con_parse c)) p []) (\<lambda>obj. sret (PList obj)) s)"
    by (rule keeps_fuel) (intro keeps_intros 6)
  then have "keeps (scatch (\<lambda>s. sbind (repeat_parse_loop (p_fuel s) (iteration c (con_parse c)) p []) (\<lambda>obj. sret (PList obj)) s)
      is_construct_error (\<lambda>ex. sraise ArrayError))"
    by (rule keeps_scatch) (rule keeps_prims)
  then show ?case by (simp add: RepeatUntil_def)
qed (auto simp: StaticField_def FormatField_def MetaField_def MetaArray_def NoDefault_def
    Pointer_def Peek_def Buffered_def Restream_def Reconfig_def Anchor_def Value_def LazyBound_def Pass_def
    Terminator_def PureAdapter_def TunnelAdapter_def Adapter_def Let_def split_def intro!: keeps_intros)

lemma keeps_bytes:
  assumes "keeps m" "m s = (r, s')" "p_stream s = BytesIO d p"
  obtains q where "p_stream s' = BytesIO d q" "p_fuel s' = p_fuel s"
proof -
  have "readable (p_stream s') \<and> shape (p_stream s') = (d, 0) \<and> p_fuel s' = p_fuel s"
    using keepsD [OF assms(1,2)] assms(3) by simp
  then show thesis using that by (cases "p_stream s'") auto
qed

section \<open>Trying a construct\<close>

text \<open>
  Three classes try to parse something and go back when it cannot be parsed: \<open>Peek\<close>, \<open>Select\<close> and
  \<open>Range\<close>. What one try has read of the stream, and entered in the context, must not be seen by the
  next one. (Objects under construction are not taken back: an embedded struct writes to them.)
\<close>

definition same_start :: "pstate \<Rightarrow> pstate \<Rightarrow> bool" where
  "same_start s s' = (p_stream s' = p_stream s \<and> p_ctx s' = p_ctx s \<and> p_fuel s' = p_fuel s)"

text \<open>The first construct that does not fail with a construct error, each tried from the start.\<close>

inductive first_of :: "construct list \<Rightarrow> pstate \<Rightarrow> (pyexc + pyval) \<Rightarrow> pystream \<Rightarrow> bool" where
  first_none: "first_of [] s (Inl SelectError) (p_stream s)"
| first_hit: "same_start s s1 \<Longrightarrow> con_parse c s1 = (Inr v, s2) \<Longrightarrow> first_of (c # cs) s (Inr v) (p_stream s2)"
| first_raise: "same_start s s1 \<Longrightarrow> con_parse c s1 = (Inl e, s2) \<Longrightarrow> \<not> is_construct_error e \<Longrightarrow> first_of (c # cs) s (Inl e) (p_stream s2)"
| first_next: "same_start s s1 \<Longrightarrow> con_parse c s1 = (Inl e, s2) \<Longrightarrow> is_construct_error e \<Longrightarrow> first_of cs s r t \<Longrightarrow> first_of (c # cs) s r t"

text \<open>As many items as can be read one behind the other, between two bounds.\<close>

inductive item_run :: "pyval pm \<Rightarrow> pstate \<Rightarrow> pyval list \<Rightarrow> pstate \<Rightarrow> bool" for m where
  run_none: "item_run m s [] s"
| run_item: "m s = (Inr v, s1) \<Longrightarrow> item_run m s1 vs s2 \<Longrightarrow> item_run m s (v # vs) s2"

definition range_result :: "pyval pm \<Rightarrow> int \<Rightarrow> int \<Rightarrow> pstate \<Rightarrow> (pyexc + pyval) \<Rightarrow> pystream \<Rightarrow> bool" where
  "range_result m lo hi s r t = (\<exists>vs s1. item_run m s vs s1 \<and> int (length vs) \<le> max 0 hi \<and>
     (if hi \<le> int (length vs) then r = Inr (PList vs) \<and> t = p_stream s1
      else \<exists>e s2. m s1 = (Inl e, s2) \<and>
        (if \<not> is_construct_error e then r = Inl e \<and> t = p_stream s2
         else if int (length vs) < lo then r = Inl RangeError \<and> t = p_stream s2
         else r = Inr (PList vs) \<and> t = p_stream s1)))"

lemma select_first:
  "\<forall>c\<in>set cs. keeps (con_parse c) \<Longrightarrow> same_start s0 s \<Longrightarrow> p_stream s0 = BytesIO d p \<Longrightarrow>
    select_parse_loop False cs s = (r, s') \<Longrightarrow> first_of cs s0 r (p_stream s')"
proof (induction cs arbitrary: s)
  case Nil
  then show ?case using first_none [of s0] by (simp add: same_start_def)
next
  case (Cons c cs)
  obtain r1 s1 where 1: "con_parse c s = (r1, s1)" by fastforce
  have s: "p_stream s = BytesIO d p" using Cons.prems(2,3) by (simp add: same_start_def)
  have "keeps (con_parse c)" using Cons.prems(1) by simp
  from keeps_bytes [OF this 1 s] obtain q where q: "p_stream s1 = BytesIO d q" "p_fuel s1 = p_fuel s" by blast
  show ?case
  proof (cases r1)
    case (Inr v)
    then show ?thesis using first_hit [OF Cons.prems(2), of c v s1 cs] 1 Cons.prems(4) by (auto simp: sbind_apply tell_def)
  next
    case (Inl e)
    show ?thesis
    proof (cases "is_construct_error e")
      case True
      let ?s = "s1\<lparr>p_ctx := p_ctx s, p_stream := BytesIO d p\<rparr>"
      have "select_parse_loop False cs ?s = (r, s')"
        using Cons.prems(4) 1 Inl True s q by (simp add: sbind_apply tell_def seek_def on_stream_def)
      moreover have "same_start s0 ?s" using Cons.prems(2,3) q(2) by (simp add: same_start_def)
      ultimately have "first_of cs s0 r (p_stream s')" using Cons by (intro Cons.IH) auto
      then show ?thesis using first_next [OF Cons.prems(2), of c e s1] 1 Inl True by blast
    next
      case False
      then show ?thesis using first_raise [OF Cons.prems(2), of c e s1 cs] 1 Inl Cons.prems(4) by (auto simp: sbind_apply tell_def)
    qed
  qed
qed

lemma item_run_snoc: "item_run m s vs s1 \<Longrightarrow> m s1 = (Inr v, s2) \<Longrightarrow> item_run m s (vs @ [v]) s2"
  by (induction rule: item_run.induct) (auto intro: item_run.intros)

lemma range_items:
  assumes "keeps m"
  shows "item_run m s0 vs s \<Longrightarrow> p_stream s = BytesIO d p \<Longrightarrow> int (length vs) \<le> max 0 hi \<Longrightarrow>
    range_parse_loop k m lo hi (int (length vs)) vs s = (r, s') \<Longrightarrow> r \<noteq> Inl NoFuel \<Longrightarrow> range_result m lo hi s0 r (p_stream s')"
proof (induction k arbitrary: vs s p)
  case (Suc k)
  show ?case
  proof (cases "int (length vs) < hi")
    case False
    then show ?thesis using Suc.prems unfolding range_result_def by (intro exI [of _ vs] exI [of _ s]) auto
  next
    case True
    obtain r1 s1 where 1: "m s = (r1, s1)" by fastforce
    obtain q where q: "p_stream s1 = BytesIO d q" by (rule keeps_bytes [OF assms 1 Suc.prems(2)])
    show ?thesis
    proof (cases r1)
      case (Inr v)
      have "range_parse_loop k m lo hi (int (length (vs @ [v]))) (vs @ [v]) s1 = (r, s')"
        using Suc.prems(4) True 1 Inr by (simp add: sbind_apply tell_def add.commute)
      moreover have "item_run m s0 (vs @ [v]) s1" using item_run_snoc [OF Suc.prems(1)] 1 Inr by blast
      ultimately show ?thesis using Suc.IH [OF _ q] Suc.prems(5) True by simp
    next
      case (Inl e)
      then show ?thesis using Suc.prems True 1 q unfolding range_result_def
        by (intro exI [of _ vs] exI [of _ s]) (auto simp: sbind_apply tell_def seek_def on_stream_def split: if_splits)
    qed
  qed
qed simp

text \<open>C27: For any constructs of the library on a byte stream: Peek leaves the stream where it was, whatever happens, and gives None for a FieldError and else what its construct gives; Select (without names) gives the result of the first construct that does not fail with a construct error, and stops where that one does, each tried from the same position and with the same context; Range, when its loop ends, has read items one behind the other up to the upper bound or the first item that fails; if that is with a construct error, it raises RangeError below the lower bound and else goes back behind the last item it read.\<close>

theorem trial_parsing:
  assumes "p_stream s = BytesIO d p" "lib_con c" "list_all lib_con cs"
  shows "(case con_parse (Peek c b) s of (r, s') \<Rightarrow> p_stream s' = BytesIO d p \<and>
       r = (if fst (con_parse c s) = Inl FieldError then Inr PNone else fst (con_parse c s))) \<and>
    (case con_parse (Select name cs False) s of (r, s') \<Rightarrow> first_of cs s r (p_stream s')) \<and>
    (case con_parse (Range lo hi c) s of (r, s') \<Rightarrow> r = Inl NoFuel \<or> range_result (iteration c (con_parse c)) lo hi s r (p_stream s'))"
proof (intro conjI)
  note c = lib_con_keeps [OF assms(2)]
  obtain r1 s1 where 1: "con_parse c s = (r1, s1)" by fastforce
  obtain q where q: "p_stream s1 = BytesIO d q" by (rule keeps_bytes [OF c 1 assms(1)])
  show "case con_parse (Peek c b) s of (r, s') \<Rightarrow> p_stream s' = BytesIO d p \<and>
       r = (if fst (con_parse c s) = Inl FieldError then Inr PNone else fst (con_parse c s))"
    using assms(1) 1 q by (cases r1) (auto simp: Peek_def sbind_apply tell_def sfinally_def scatch_def seek_def on_stream_def)
  have "\<forall>c\<in>set cs. keeps (con_parse c)" using assms(3) lib_con_keeps by (auto simp: list_all_iff)
  then show "case con_parse (Select name cs False) s of (r, s') \<Rightarrow> first_of cs s r (p_stream s')"
    using select_first [of cs s s d p] assms(1) by (auto simp: Select_def same_start_def split: prod.split)
  have "keeps (iteration c (con_parse c))" by (rule keeps_iteration [OF c])
  from range_items [OF this run_none assms(1), of hi "p_fuel s" lo]
  show "case con_parse (Range lo hi c) s of (r, s') \<Rightarrow> r = Inl NoFuel \<or> range_result (iteration c (con_parse c)) lo hi s r (p_stream s')"
    by (auto simp: Range_def split: prod.split)
qed

text \<open>Two bytes are no four bytes, so the second construct is taken, from the same place.\<close>

lemma bytes_start: "p_stream (start_state 9 (BytesIO ''abc'' 1)) = BytesIO ''abc'' 1"
  by (simp add: start_state_def)

theorem trial_parsing_witness:
  "fst (con_parse (Peek (UBInt32 None) False) (start_state 9 (BytesIO ''abc'' 1))) = Inr PNone \<and>
   (\<exists>t. first_of [UBInt32 None, UBInt16 None] (start_state 9 (BytesIO ''abc'' 1)) (Inr (PInt 0x6263)) t) \<and>
   (\<exists>t. range_result (iteration (UBInt16 None) (con_parse (UBInt16 None))) 0 9 (start_state 9 (BytesIO ''abc'' 1)) (Inr (PList [PInt 0x6263])) t)"
proof -
  let ?s = "start_state 9 (BytesIO ''abc'' 1)"
  have l: "lib_con (UBInt32 None)" "lib_con (UBInt16 None)" unfolding UBInt32_def UBInt16_def by (intro lib_con.intros)+
  have "fst (con_parse (UBInt32 None) ?s) = Inl FieldError" by code_simp
  moreover have "fst (con_parse (Select None [UBInt32 None, UBInt16 None] False) ?s) = Inr (PInt 0x6263)" by code_simp
  moreover have "fst (con_parse (Range 0 9 (UBInt16 None)) ?s) = Inr (PList [PInt 0x6263])" by code_simp
  moreover note trial_parsing [OF bytes_start l(1), of "[UBInt32 None, UBInt16 None]" False None 0 9]
    trial_parsing [OF bytes_start l(2), of "[]" False None 0 9]
  ultimately show ?thesis using l by (fastforce split: prod.splits)
qed

section \<open>Terminated strings\<close>

text \<open>
  Reading byte after byte up to a terminator: with more fuel than there are bytes left, the loop
  always ends, either behind the first terminator or with the error of the missing byte.
\<close>

lemma static_one:
  assumes "p_stream s = BytesIO d p"
  shows "drop p d = c # r \<Longrightarrow> con_parse (StaticField name 1) s = (Inr (PStr [c]), s\<lparr>p_stream := BytesIO d (Suc p)\<rparr>)"
    and "drop p d = [] \<Longrightarrow> con_parse (StaticField name 1) s = (Inl FieldError, s)"
proof -
  note r = read_stream_bytes [OF assms, of 1]
  show "con_parse (StaticField name 1) s = (Inr (PStr [c]), s\<lparr>p_stream := BytesIO d (Suc p)\<rparr>)" if d: "drop p d = c # r"
  proof -
    have "p < length d" using d by (metis drop_eq_Nil leI list.simps(3))
    then show ?thesis using r d by (simp add: StaticField_def sbind_apply)
  qed
  show "con_parse (StaticField name 1) s = (Inl FieldError, s)" if "drop p d = []"
    using r that assms by (simp add: StaticField_def sbind_apply)
qed

lemma iteration_static [simp]: "iteration (StaticField name n) m = m"
  by (simp add: iteration_def is_flag_def StaticField_def)

lemma repeat_chars:
  assumes pred: "\<And>c x. predicate (PStr [c]) x = Inr (Q c)"
  shows "length (drop p d) < k \<Longrightarrow> p_stream s = BytesIO d p \<Longrightarrow>
    repeat_parse_loop k (con_parse (StaticField name 1)) predicate acc s =
     (case dropWhile (\<lambda>c. \<not> Q c) (drop p d) of
        [] \<Rightarrow> (Inl FieldError, s\<lparr>p_stream := BytesIO d (max p (length d))\<rparr>)
      | c # _ \<Rightarrow> (Inr (acc @ map (\<lambda>c. PStr [c]) (takeWhile (\<lambda>c. \<not> Q c) (drop p d) @ [c])),
          s\<lparr>p_stream := BytesIO d (Suc (p + length (takeWhile (\<lambda>c. \<not> Q c) (drop p d))))\<rparr>))"
proof (induction k arbitrary: p s acc)
  case (Suc k)
  show ?case
  proof (cases "drop p d")
    case Nil
    then have "max p (length d) = p" by simp
    then show ?thesis using static_one(2) [OF Suc.prems(2) Nil, of name] Suc.prems(2) Nil
      by (simp add: sbind_apply)
  next
    case (Cons c r)
    let ?s = "s\<lparr>p_stream := BytesIO d (Suc p)\<rparr>"
    have r: "drop (Suc p) d = r" using Cons by (simp add: drop_Suc drop_tl)
    have lt: "p < length d" using Cons by (metis drop_eq_Nil leI list.simps(3))
    have "max (Suc p) (length d) = max p (length d)" using lt by simp
    then show ?thesis
      using static_one(1) [OF Suc.prems(2) Cons, of name] Suc.IH [of "Suc p" ?s "acc @ [PStr [c]]"] Suc.prems(1) Cons r pred
      by (auto simp: sbind_apply pm_simps simp del: dropWhile_eq_Nil_conv split: list.split)
  qed
qed simp

lemma is_substring_single: "is_substring [c] [e] \<longleftrightarrow> c = e"
  by auto

lemma cstring_run:
  assumes "p_stream s = BytesIO d p" "length (drop p d) < p_fuel s"
  shows "con_parse (cstring_default name) s =
    (if CHR 0x00 \<in> set (drop p d) then
       (Inr (PStr (takeWhile (\<lambda>c. c \<noteq> CHR 0x00) (drop p d))),
        s\<lparr>p_stream := BytesIO d (Suc (p + length (takeWhile (\<lambda>c. c \<noteq> CHR 0x00) (drop p d))))\<rparr>)
     else (Inl ArrayError, s\<lparr>p_stream := BytesIO d (max p (length d))\<rparr>))"
proof -
  let ?pred = "\<lambda>obj (c::ctx). ebind (as_str obj) (\<lambda>s. Inr (is_substring s [CHR 0x00]))"
  let ?t = "takeWhile (\<lambda>c. c \<noteq> CHR 0x00) (drop p d)"
  have run: "repeat_parse_loop (p_fuel s) (con_parse (StaticField None 1)) ?pred [] s =
     (case dropWhile (\<lambda>c. c \<noteq> CHR 0x00) (drop p d) of
        [] \<Rightarrow> (Inl FieldError, s\<lparr>p_stream := BytesIO d (max p (length d))\<rparr>)
      | c # _ \<Rightarrow> (Inr ([] @ map (\<lambda>c. PStr [c]) (?t @ [c])), s\<lparr>p_stream := BytesIO d (Suc (p + length ?t))\<rparr>))"
    using assms(2,1) by (intro repeat_chars) auto
  have join: "cstring_decode None (PList (map (\<lambda>c. PStr [c]) u @ [x])) = Inr (PStr u)" for u x
  proof -
    have "join_strs (map (\<lambda>c. PStr [c]) u) = Inr u" by (induction u) auto
    then show ?thesis by (simp add: cstring_decode_def slice_def slice_bound_def string_decode_def)
  qed
  show ?thesis
  proof (cases "dropWhile (\<lambda>c. c \<noteq> CHR 0x00) (drop p d)")
    case Nil
    then have "CHR 0x00 \<notin> set (drop p d)" by auto
    then show ?thesis using run Nil
      by (simp add: cstring_default_def CString_def Rename_def Reconfig_def CStringAdapter_def PureAdapter_def Adapter_def
          RepeatUntil_def Field_def sbind_apply scatch_def is_construct_error_def)
  next
    case (Cons c r)
    have "dropWhile (\<lambda>c. c \<noteq> CHR 0x00) (drop p d) \<noteq> []" using Cons by simp
    then have "CHR 0x00 \<in> set (drop p d)" unfolding dropWhile_eq_Nil_conv by blast
    then show ?thesis
      using run join [of ?t "PStr [c]"] unfolding Cons
      by (simp add: cstring_default_def CString_def Rename_def Reconfig_def CStringAdapter_def PureAdapter_def Adapter_def
          RepeatUntil_def Field_def sbind_apply scatch_def pm_simps)
  qed
qed

theorem cstring_parse:
  assumes "length d < fuel"
  shows "parse_stream fuel (cstring_default name) (BytesIO d p) =
    (if CHR 0x00 \<in> set (drop p d) then
       (Inr (PStr (takeWhile (\<lambda>c. c \<noteq> CHR 0x00) (drop p d))),
        BytesIO d (Suc (p + length (takeWhile (\<lambda>c. c \<noteq> CHR 0x00) (drop p d)))))
     else (Inl ArrayError, BytesIO d (max p (length d))))"
  using cstring_run [of "start_state fuel (BytesIO d p)" d p name] assms
  by (simp add: parse_stream_def start_state_def)

theorem cstring_parse_witness:
  "parse_stream 9 (cstring_default None) (BytesIO [CHR ''a'', CHR ''b'', CHR 0x00, CHR ''c''] 0) =
    (Inr (PStr ''ab''), BytesIO [CHR ''a'', CHR ''b'', CHR 0x00, CHR ''c''] 3)"
  using cstring_parse [of "[CHR ''a'', CHR ''b'', CHR 0x00, CHR ''c'']" 9 None 0] by simp

end
