(* ===== verification/ConstructTypes.thy ===== *)
theory ConstructTypes
  imports ConstructSpec
begin

section \<open>What a layout can parse\<close>

text \<open>
  A declarative layout promises the shape of the objects it parses: integers in the range of their
  format, byte strings of their length, names of their enumeration, lists of their count, objects with
  exactly the fields of the struct. The contract is a locale: whatever bytes a construct is given, a value
  that it returns is of its type, and it has read exactly its size. It is kept by the fields, and by
  mappings, arrays and structs of constructs that keep it.
\<close>

locale typed =
  fixes con :: construct and T :: "pyval \<Rightarrow> bool" and size :: nat
  assumes parse_type: "con_parse con s = (Inr v, s') \<Longrightarrow> calm s \<Longrightarrow> p_stream s = BytesIO d p \<Longrightarrow>
      T v \<and> (p \<le> length d \<longrightarrow> p + size \<le> length d) \<and> (\<exists>objs. s' = s\<lparr>p_stream := BytesIO d (p + size), p_objs := p_objs s @ objs\<rparr>)"
begin

lemma parsed:
  assumes "parse fuel con data = Inr v"
  shows "T v \<and> size \<le> length data \<and> snd (parse_stream fuel con (BytesIO data 0)) = BytesIO data size"
proof -
  let ?s = "start_state fuel (BytesIO data 0)"
  obtain s' where r: "con_parse con ?s = (Inr v, s')"
    using assms by (auto simp: parse_def parse_stream_def split: prod.splits)
  have "calm ?s" "p_stream ?s = BytesIO data 0" by (simp_all add: calm_def start_state_def)
  from parse_type [OF r this] show ?thesis using r by (auto simp: parse_stream_def)
qed

end

subsection \<open>Fields\<close>

lemma read_stream_Inr:
  "read_stream (int n) s = (Inr data, s') \<Longrightarrow> p_stream s = BytesIO d p \<Longrightarrow>
   length data = n \<and> (p \<le> length d \<longrightarrow> p + n \<le> length d) \<and> (\<exists>objs. s' = s\<lparr>p_stream := BytesIO d (p + n), p_objs := p_objs s @ objs\<rparr>)"
  by (cases s) (auto simp: read_stream_bytes split: if_splits intro!: exI [of _ "[]"])

definition int_type :: "int_format \<Rightarrow> pyval \<Rightarrow> bool" where
  "int_type f v = (case v of PInt i \<Rightarrow> fmt_min f \<le> i \<and> i < fmt_max f | _ \<Rightarrow> False)"

definition str_type :: "nat \<Rightarrow> pyval \<Rightarrow> bool" where
  "str_type n v = (case v of PStr s \<Rightarrow> length s = n | _ \<Rightarrow> False)"

lemma le_value_range: "0 \<le> le_value x \<and> le_value x < 256 ^ length x"
proof (induction x)
  case (Cons c x)
  have "0 \<le> ord_c c" "ord_c c < 256" "le_value x + 1 \<le> 256 ^ length x" using Cons by simp_all
  then have "ord_c c + 256 * le_value x < 256 * 256 ^ length x" "0 \<le> ord_c c + 256 * le_value x" using Cons by linarith+
  then show ?case by simp
qed simp

lemma unpack_type: "unpack e f data = Inr v \<Longrightarrow> int_type f v"
proof -
  assume u: "unpack e f data = Inr v"
  let ?v = "le_value ((if e = Little then id else rev) data)"
  have l: "length data = fmt_size f" using u by (auto simp: unpack_def split: if_splits)
  have r: "0 \<le> ?v \<and> ?v < 2 ^ (8 * fmt_size f)"
    using le_value_range [of data] le_value_range [of "rev data"] l by (simp add: power_mult)
  then show ?thesis using u by (cases f) (auto simp: unpack_def int_type_def fmt_min_def fmt_max_def fmt_signed_def Let_def split: if_splits)
qed

lemma typed_int: "typed (FormatField name e f) (int_type f) (fmt_size f)"
proof
  fix s :: pstate and v s' d p
  assume r: "con_parse (FormatField name e f) s = (Inr v, s')" and p: "p_stream s = BytesIO d p"
  from r obtain data where "read_stream (int (fmt_size f)) s = (Inr data, s')" "unpack e f data = Inr v"
    by (auto simp: FormatField_def scatch_eq_Inr sbind_eq_Inr)
  then show "int_type f v \<and> (p \<le> length d \<longrightarrow> p + fmt_size f \<le> length d) \<and>
      (\<exists>objs. s' = s\<lparr>p_stream := BytesIO d (p + fmt_size f), p_objs := p_objs s @ objs\<rparr>)"
    using read_stream_Inr [OF _ p] unpack_type by blast
qed

lemma typed_static: "typed (StaticField name (int n)) (str_type n) n"
proof
  fix s :: pstate and v s' d p
  assume r: "con_parse (StaticField name (int n)) s = (Inr v, s')" and p: "p_stream s = BytesIO d p"
  from r obtain data where "read_stream (int n) s = (Inr data, s')" "v = PStr data"
    by (auto simp: StaticField_def sbind_eq_Inr)
  then show "str_type n v \<and> (p \<le> length d \<longrightarrow> p + n \<le> length d) \<and> (\<exists>objs. s' = s\<lparr>p_stream := BytesIO d (p + n), p_objs := p_objs s @ objs\<rparr>)"
    using read_stream_Inr [OF _ p, of n data s'] by (simp add: str_type_def)
qed

lemma typed_adapter:
  assumes "typed c T n" and "\<And>x v w. T v \<Longrightarrow> decode v x = Inr w \<Longrightarrow> U w"
  shows "typed (PureAdapter c decode encode) U n"
proof
  fix s :: pstate and w s' d p
  assume r: "con_parse (PureAdapter c decode encode) s = (Inr w, s')" and s: "calm s" "p_stream s = BytesIO d p"
  from r obtain v s1 where v: "con_parse c s = (Inr v, s1)" "decode v (p_ctx s1) = Inr w" "s' = s1"
    by (auto simp: PureAdapter_def Adapter_def sbind_eq_Inr with_ctx_def)
  from typed.parse_type [OF assms(1) v(1) s] show "U w \<and> (p \<le> length d \<longrightarrow> p + n \<le> length d) \<and>
      (\<exists>objs. s' = s\<lparr>p_stream := BytesIO d (p + n), p_objs := p_objs s @ objs\<rparr>)"
    using assms(2) v(2,3) by blast
qed

definition enum_type :: "(string \<times> int) list \<Rightarrow> map_default \<Rightarrow> (pyval \<Rightarrow> bool) \<Rightarrow> pyval \<Rightarrow> bool" where
  "enum_type kw dflt T v = ((case v of PStr k \<Rightarrow> k \<in> fst ` set kw | PInt i \<Rightarrow> dflt = PassUnmapped \<and> i \<notin> snd ` set kw \<and> T v | _ \<Rightarrow> False) \<or>
     dflt = MapTo v)"

lemma typed_enum:
  assumes "typed c T n" and "\<And>v. T v \<Longrightarrow> \<exists>i. v = PInt i" and "distinct (map snd kw)"
  shows "typed (Enum c kw dflt) (enum_type kw dflt T) n"
  unfolding Enum_def SymmetricMapping_def MappingAdapter_def reverse_enum [OF assms(3)]
proof (rule typed_adapter [OF assms(1)])
  fix v w
  assume v: "T v" and w: "map_value (map (\<lambda>(k, v). (PInt v, PStr k)) kw) dflt v = Inr w"
  obtain i where i: "v = PInt i" using assms(2) v by blast
  show "enum_type kw dflt T w"
  proof (cases "i \<in> snd ` set kw")
    case True
    then obtain k where k: "(k, i) \<in> set kw" by auto
    from py_find_dec [OF assms(3) k] have "w = PStr k" using w i by (simp add: map_value_def py_lookup_def)
    then show ?thesis using k by (force simp: enum_type_def)
  next
    case False
    then have "py_find (map (\<lambda>(k, v). (PInt v, PStr k)) kw) (PInt i) = None" by (rule py_find_unmapped(1))
    then show ?thesis using w i v False by (auto simp: map_value_def py_lookup_def enum_type_def split: map_default.splits if_splits)
  qed
qed

lemma typed_padding: "typed (Padding (Fixed (int n)) [c] False) (str_type n) n"
  using typed_adapter [OF typed_static [of None n], of "\<lambda>obj c. Inr obj" "str_type n"] by (simp add: Padding_def PaddingAdapter_def Field_def)

subsection \<open>Arrays\<close>

definition array_type :: "nat \<Rightarrow> (pyval \<Rightarrow> bool) \<Rightarrow> pyval \<Rightarrow> bool" where
  "array_type n T v = (case v of PList vs \<Rightarrow> length vs = n \<and> list_all T vs | _ \<Rightarrow> False)"

lemma typed_iteration:
  assumes "typed c T n" "iteration c (con_parse c) s = (Inr v, s')" "calm s" "p_stream s = BytesIO d p"
  shows "T v \<and> (p \<le> length d \<longrightarrow> p + n \<le> length d) \<and> (\<exists>objs. s' = s\<lparr>p_stream := BytesIO d (p + n), p_objs := p_objs s @ objs\<rparr>)"
proof -
  obtain r s1 where c: "con_parse c s = (r, s1)" by (rule prod.exhaust)
  have "s\<lparr>p_ctx := id (p_ctx s)\<rparr> = s" by simp
  then have i: "r = Inr v \<and> (s' = s1 \<or> s' = s1\<lparr>p_ctx := p_ctx s\<rparr>)" using assms(2) c by (auto simp: iteration_def in_ctx_apply split: if_splits)
  from typed.parse_type [OF assms(1) c [unfolded conjunct1 [OF i]] assms(3,4)] show ?thesis using i by auto
qed

lemma array_loop_type:
  assumes "typed c T n" "meta_array_loop (iteration c (con_parse c)) k acc s = (Inr vs, s')" "calm s" "p_stream s = BytesIO d p"
  shows "\<exists>ws. vs = acc @ ws \<and> length ws = k \<and> list_all T ws \<and> (p \<le> length d \<longrightarrow> p + n * k \<le> length d) \<and>
    (\<exists>objs. s' = s\<lparr>p_stream := BytesIO d (p + n * k), p_objs := p_objs s @ objs\<rparr>)"
  using assms(2-)
proof (induction k arbitrary: acc s p)
  case 0
  then show ?case by (auto intro!: exI [of _ "[]"])
next
  case (Suc k)
  from Suc.prems(1) obtain v s1 where v: "iteration c (con_parse c) s = (Inr v, s1)" "meta_array_loop (iteration c (con_parse c)) k (acc @ [v]) s1 = (Inr vs, s')"
    by (auto simp: sbind_eq_Inr)
  from typed_iteration [OF assms(1) v(1) Suc.prems(2,3)] obtain objs where t: "T v" "p \<le> length d \<longrightarrow> p + n \<le> length d"
    "s1 = s\<lparr>p_stream := BytesIO d (p + n), p_objs := p_objs s @ objs\<rparr>" by blast
  have "calm s1" "p_stream s1 = BytesIO d (p + n)" using t(3) Suc.prems(2) by (simp_all add: calm_def)
  from Suc.IH [OF v(2) this] obtain ws objs' where w: "vs = (acc @ [v]) @ ws" "length ws = k" "list_all T ws"
    "p + n \<le> length d \<longrightarrow> p + n + n * k \<le> length d" "s' = s1\<lparr>p_stream := BytesIO d (p + n + n * k), p_objs := p_objs s1 @ objs'\<rparr>" by blast
  show ?case using t w by (intro exI [of _ "v # ws"]) (auto simp: add.assoc intro!: exI [of _ "objs @ objs'"])
qed

lemma typed_array: "typed c T n \<Longrightarrow> typed (Array (Fixed (int k)) c) (array_type k T) (n * k)"
proof
  fix s :: pstate and v s' d p
  assume c: "typed c T n" and r: "con_parse (Array (Fixed (int k)) c) s = (Inr v, s')" and s: "calm s" "p_stream s = BytesIO d p"
  from r obtain vs where "meta_array_loop (iteration c (con_parse c)) k [] s = (Inr vs, s')" "v = PList vs"
    by (auto simp: Array_def MetaArray_def sbind_eq_Inr scatch_eq_Inr pm_simps)
  with array_loop_type [OF c _ s] show "array_type k T v \<and> (p \<le> length d \<longrightarrow> p + n * k \<le> length d) \<and>
      (\<exists>objs. s' = s\<lparr>p_stream := BytesIO d (p + n * k), p_objs := p_objs s @ objs\<rparr>)" by (fastforce simp: array_type_def)
qed

subsection \<open>Structs\<close>

fun record_type :: "(construct \<times> (pyval \<Rightarrow> bool) \<times> nat) list \<Rightarrow> container \<Rightarrow> bool" where
  "record_type [] kvs = (kvs = [])"
| "record_type ((c, T, n) # fs) kvs = (case con_name c of None \<Rightarrow> record_type fs kvs
     | Some m \<Rightarrow> (case kvs of [] \<Rightarrow> False | (k, v) # kvs' \<Rightarrow> k = m \<and> T v \<and> record_type fs kvs'))"

definition typed_field :: "construct \<times> (pyval \<Rightarrow> bool) \<times> nat \<Rightarrow> bool" where
  "typed_field f = (typed (fst f) (fst (snd f)) (snd (snd f)) \<and> \<not> is_flag FLAG_EMBED (fst f))"

fun fields_size :: "(construct \<times> (pyval \<Rightarrow> bool) \<times> nat) list \<Rightarrow> nat" where
  "fields_size [] = 0"
| "fields_size ((c, T, n) # fs) = n + fields_size fs"

definition con_names :: "(construct \<times> (pyval \<Rightarrow> bool) \<times> nat) list \<Rightarrow> string list" where
  "con_names fs = concat (map (\<lambda>f. case con_name (fst f) of None \<Rightarrow> [] | Some n \<Rightarrow> [n]) fs)"

lemma struct_loop_type:
  assumes "list_all typed_field fs" "struct_parse_loop (obj_setitem a) a (map fst fs) s = (Inr (), s')" "calm s" "p_stream s = BytesIO d p"
    "a < length (p_objs s)" "p_objs s ! a = PObj acc" "distinct (map fst acc @ con_names fs)"
  shows "\<exists>kvs c objs. record_type fs kvs \<and> (p \<le> length d \<longrightarrow> p + fields_size fs \<le> length d) \<and>
    s' = s\<lparr>p_stream := BytesIO d (p + fields_size fs), p_ctx := c, p_objs := (p_objs s)[a := PObj (acc @ kvs)] @ objs\<rparr>"
  using assms
proof (induction fs arbitrary: s p acc)
  case Nil
  then have "(p_objs s)[a := PObj acc] = p_objs s" by (metis list_update_id)
  with Nil show ?case by (intro exI [of _ "[]"] exI [of _ "p_ctx s"]) (auto intro!: exI [of _ "[]"])
next
  case (Cons f fs)
  obtain c T n where f: "f = (c, T, n)" by (cases f) auto
  have t: "typed c T n" "\<not> is_flag FLAG_EMBED c" using Cons.prems(1) by (simp_all add: f typed_field_def)
  from Cons.prems(2) obtain v s1 where v: "con_parse c s = (Inr v, s1)"
    using t(2) by (auto simp: f sbind_eq_Inr)
  from typed.parse_type [OF t(1) v Cons.prems(3,4)] obtain objs where s1: "T v" "p \<le> length d \<longrightarrow> p + n \<le> length d"
    "s1 = s\<lparr>p_stream := BytesIO d (p + n), p_objs := p_objs s @ objs\<rparr>" by blast
  have a1: "a < length (p_objs s1)" "p_objs s1 ! a = PObj acc" using s1(3) Cons.prems(5,6) by (simp_all add: nth_append)
  show ?case
  proof (cases "con_name c")
    case None
    have fs: "list_all typed_field fs" using Cons.prems(1) by simp
    have "struct_parse_loop (obj_setitem a) a (map fst fs) s1 = (Inr (), s')"
      using Cons.prems(2) t(2) v None by (simp add: f sbind_apply)
    moreover have "calm s1" "p_stream s1 = BytesIO d (p + n)" using s1(3) Cons.prems(3) by (simp_all add: calm_def)
    moreover have "distinct (map fst acc @ con_names fs)" using Cons.prems(7) None by (simp add: f con_names_def)
    ultimately obtain kvs x objs' where "record_type fs kvs" "p + n \<le> length d \<longrightarrow> p + n + fields_size fs \<le> length d"
      "s' = s1\<lparr>p_stream := BytesIO d (p + n + fields_size fs), p_ctx := x, p_objs := (p_objs s1)[a := PObj (acc @ kvs)] @ objs'\<rparr>"
      using Cons.IH [OF fs, of s1 "p + n" acc] a1 by blast
    then show ?thesis using s1 None Cons.prems(5)
      by (intro exI [of _ kvs] exI [of _ x] exI [of _ "objs @ objs'"]) (simp add: f list_update_append add.assoc)
  next
    case (Some m)
    have fs: "list_all typed_field fs" using Cons.prems(1) by simp
    let ?s2 = "s1\<lparr>p_objs := (p_objs s1)[a := PObj (acc @ [(m, v)])], p_ctx := ctx_set m v (p_ctx s1)\<rparr>"
    have new: "container_setitem acc m v = acc @ [(m, v)]"
      using Cons.prems(7) Some by (auto simp: f con_names_def container_setitem_def intro!: dict_set_fresh)
    have "struct_parse_loop (obj_setitem a) a (map fst fs) ?s2 = (Inr (), s')"
      using Cons.prems(2) t(2) v Some a1 new by (simp add: f sbind_apply obj_setitem_apply state_apply)
    moreover have "calm ?s2" "p_stream ?s2 = BytesIO d (p + n)" using s1(3) Cons.prems(3) by (simp_all add: calm_def)
    moreover have "a < length (p_objs ?s2)" "p_objs ?s2 ! a = PObj (acc @ [(m, v)])" using a1 by simp_all
    moreover have "distinct (map fst (acc @ [(m, v)]) @ con_names fs)" using Cons.prems(7) Some by (simp add: f con_names_def)
    ultimately obtain kvs x objs' where "record_type fs kvs" "p + n \<le> length d \<longrightarrow> p + n + fields_size fs \<le> length d"
      "s' = ?s2\<lparr>p_stream := BytesIO d (p + n + fields_size fs), p_ctx := x,
        p_objs := (p_objs ?s2)[a := PObj ((acc @ [(m, v)]) @ kvs)] @ objs'\<rparr>"
      using Cons.IH [OF fs, of ?s2 "p + n" "acc @ [(m, v)]"] by blast
    then show ?thesis using s1 Some Cons.prems(5)
      by (intro exI [of _ "(m, v) # kvs"] exI [of _ x] exI [of _ "objs @ objs'"]) (simp add: f list_update_append add.assoc)
  qed
qed

definition struct_type :: "(construct \<times> (pyval \<Rightarrow> bool) \<times> nat) list \<Rightarrow> pyval \<Rightarrow> bool" where
  "struct_type fs v = (case v of PObj kvs \<Rightarrow> record_type fs kvs | _ \<Rightarrow> False)"

lemma typed_struct:
  assumes "list_all typed_field fs" "distinct (con_names fs)"
  shows "typed (Struct name True (map fst fs)) (struct_type fs) (fields_size fs)"
proof
  fix s :: pstate and v s' d p
  assume r: "con_parse (Struct name True (map fst fs)) s = (Inr v, s')" and s: "calm s" "p_stream s = BytesIO d p"
  let ?a = "length (p_objs s)"
  let ?s1 = "s\<lparr>p_objs := p_objs s @ [PObj []], p_ctx := child_ctx (p_ctx s)\<rparr>"
  obtain q s2 where q: "struct_parse_loop (obj_setitem ?a) ?a (map fst fs) ?s1 = (q, s2)" by (rule prod.exhaust)
  have q1: "q = Inr ()" using r s(1) q by (cases q) (auto simp: Struct_def with_object_def calm_def sbind_apply pm_simps split: option.splits)
  have "calm ?s1" "p_stream ?s1 = BytesIO d p" "?a < length (p_objs ?s1)" "p_objs ?s1 ! ?a = PObj []" "distinct (map fst [] @ con_names fs)"
    using s assms(2) by (simp_all add: calm_def)
  from struct_loop_type [OF assms(1) q [unfolded q1] this] obtain kvs c objs where k: "record_type fs kvs"
    "p \<le> length d \<longrightarrow> p + fields_size fs \<le> length d"
    "s2 = ?s1\<lparr>p_stream := BytesIO d (p + fields_size fs), p_ctx := c, p_objs := (p_objs ?s1)[?a := PObj ([] @ kvs)] @ objs\<rparr>" by blast
  have "v = PObj kvs \<and> s' = s2\<lparr>p_ctx := p_ctx s\<rparr>"
    using r s(1) q q1 k(3) by (auto simp: Struct_def with_object_def calm_def sbind_apply pm_simps nth_append split: option.splits)
  then show "struct_type fs v \<and> (p \<le> length d \<longrightarrow> p + fields_size fs \<le> length d) \<and>
      (\<exists>objs. s' = s\<lparr>p_stream := BytesIO d (p + fields_size fs), p_objs := p_objs s @ objs\<rparr>)"
    using k by (auto simp: struct_type_def intro!: exI [of _ "PObj kvs # objs"])
qed

subsection \<open>Layouts\<close>

fun layout_type :: "layout \<Rightarrow> pyval \<Rightarrow> bool" and
    layouts_type :: "(string option \<times> layout) list \<Rightarrow> container \<Rightarrow> bool" where
  "layout_type (IntL e f) v = int_type f v"
| "layout_type (BytesL n) v = str_type n v"
| "layout_type (EnumL e f kw) v = enum_type (fst kw) (snd kw) (int_type f) v"
| "layout_type (ArrayL n l) v = array_type n (layout_type l) v"
| "layout_type (PadL n) v = str_type n v"
| "layout_type (StructL ls) v = (case v of PObj kvs \<Rightarrow> layouts_type ls kvs | _ \<Rightarrow> False)"
| "layouts_type [] kvs = (kvs = [])"
| "layouts_type ((None, l) # ls) kvs = layouts_type ls kvs"
| "layouts_type ((Some n, l) # ls) kvs = (case kvs of [] \<Rightarrow> False | (m, v) # kvs' \<Rightarrow> m = n \<and> layout_type l v \<and> layouts_type ls kvs')"

lemma int_type_int: "int_type f v \<Longrightarrow> \<exists>i. v = PInt i"
  by (cases v) (auto simp: int_type_def)

lemma layout_type_eqs:
  "layout_type (IntL e f) = int_type f" "layout_type (BytesL n) = str_type n" "layout_type (EnumL e f kw) = enum_type (fst kw) (snd kw) (int_type f)"
  "layout_type (ArrayL n l) = array_type n (layout_type l)" "layout_type (PadL n) = str_type n"
  by (simp_all add: fun_eq_iff)

lemma layouts_type_fields:
  "list_all (\<lambda>(n, l). is_pad l \<longleftrightarrow> n = None) ls \<Longrightarrow>
   layouts_type ls kvs = record_type (map (\<lambda>(n, l). (layout_con n l, layout_type l, layout_size l)) ls) kvs"
proof (induction ls arbitrary: kvs)
  case (Cons nl ls)
  obtain n l where "nl = (n, l)" by fastforce
  then show ?case using Cons by (cases n; cases kvs) auto
qed simp

lemma typed_layout: "layout_wf l \<Longrightarrow> typed (layout_con name l) (layout_type l) (layout_size l)"
proof (induction name l rule: layout_con.induct)
  case (3 name e f kw)
  then show ?case using typed_enum [OF typed_int int_type_int, where kw = "fst kw" and dflt = "snd kw"] by (simp add: layout_type_eqs EnumOf_def)
next
  case (4 name n l)
  then have "typed (layout_con name l) (layout_type l) (layout_size l)" by simp
  from typed_array [OF this] show ?case by (simp add: layout_type_eqs)
next
  case (6 name ls)
  let ?fs = "map (\<lambda>(n, l). (layout_con n l, layout_type l, layout_size l)) ls"
  have pads: "list_all (\<lambda>(n, l). is_pad l \<longleftrightarrow> n = None) ls" using 6(2) by (auto simp: list_all_iff)
  have "typed_field (layout_con n l, layout_type l, layout_size l)" if "(n, l) \<in> set ls" for n l
    using 6(1) [OF that] 6(2) that layout_con_plain by (auto simp: typed_field_def list_all_iff)
  then have fields: "list_all typed_field ?fs" by (auto simp: list_all_iff)
  have "map Some (con_names ?fs) = filter (\<lambda>n. n \<noteq> None) (map fst ls)" using pads by (induction ls) (auto simp: con_names_def)
  then have "distinct (map Some (con_names ?fs))" using 6(2) by (simp only: layout_wf.simps)
  then have names: "distinct (con_names ?fs)" by (simp only: distinct_map)
  have "map fst ?fs = map (\<lambda>(n, l). layout_con n l) ls" by auto
  then have con: "Struct name True (map fst ?fs) = layout_con name (StructL ls)" by (simp only: layout_con.simps)
  have type: "struct_type ?fs = layout_type (StructL ls)"
    by (auto simp: fun_eq_iff struct_type_def layouts_type_fields [OF pads] split: pyval.splits)
  have size: "fields_size ?fs = layout_size (StructL ls)" by (induction ls) auto
  show ?case using typed_struct [OF fields names, of name] unfolding con type size .
qed (simp_all add: layout_type_eqs typed_int typed_static typed_padding Field_def)

interpretation layouts: typed "FormatField name e f" "int_type f" "fmt_size f" for name e f
  by (rule typed_int)

interpretation fields: typed "StaticField name (int n)" "str_type n" n for name n
  by (rule typed_static)

interpretation arrays: typed "Array (Fixed (int k)) (FormatField name e f)" "array_type k (int_type f)" "fmt_size f * k" for k name e f
  by (rule typed_array [OF typed_int])

text \<open>C7: Whatever bytes a layout of integers, byte strings, named values, arrays and nested structs is given, a value that it parses has the shape the layout declares: every integer in the range of its format, every string and list of its length, every name one of its enumeration, every object with exactly its fields in order; and exactly the size of the layout was read.\<close>

theorem layout_parse_type:
  assumes "layout_wf l" and "parse fuel (layout_con name l) data = Inr v"
  shows "layout_type l v \<and> layout_size l \<le> length data \<and>
    snd (parse_stream fuel (layout_con name l) (BytesIO data 0)) = BytesIO data (layout_size l)"
  by (rule typed.parsed [OF typed_layout [OF assms(1)] assms(2)])

theorem layout_parse_type_witness:
  "layout_type example_layout (PObj [(''m'', PStr ''hi''), (''k'', PInt 771), (''a'', PList [PInt (-1), PInt 5])]) \<and> layout_size example_layout = 7"
proof -
  let ?v = "PObj [(''m'', PStr ''hi''), (''k'', PInt 771), (''a'', PList [PInt (-1), PInt 5])]"
  have wf: "layout_wf example_layout" by (simp add: example_layout_def)
  have "parse 5 (layout_con None example_layout) [CHR ''h'', CHR ''i'', CHR ''?'', CHR 0x03, CHR 0x03, CHR 0xFF, CHR 0x05] = Inr ?v" by code_simp
  from layout_parse_type [OF wf this] show ?thesis by (simp add: example_layout_def)
qed

end
