(* ===== verification/ElfUtils.thy ===== *)
theory ElfUtils
  imports ConstructSafety
begin

section \<open>Utilities of the ELF and DWARF readers (\<open>common/utils.py\<close>, \<open>common/construct_utils.py\<close>)\<close>

text \<open>
  \<open>struct_parse\<close> seeks if it is told to, parses, and turns every error of the construct library into
  an \<open>ELFParseError\<close>; other exceptions pass. Strings of a section are read in chunks of 64 bytes.
\<close>

definition bytelist2string :: "int list \<Rightarrow> pyexc + string" where
  "bytelist2string bytelist =
     emap_list (\<lambda>b. if 0 \<le> b \<and> b < 256 then Inr (chr_c b) else Inl ValueError) bytelist"

definition struct_parse :: "nat \<Rightarrow> construct \<Rightarrow> int option \<Rightarrow> (pystream, pyval) st" where
  "struct_parse fuel struct stream_pos =
     scatch
       (sbind (case stream_pos of None \<Rightarrow> sret () | Some pos \<Rightarrow> stream_seek pos 0)
          (\<lambda>_. parse_stream fuel struct))
       is_construct_error (\<lambda>e. sraise ELFParseError)"

definition CHUNKSIZE :: int where "CHUNKSIZE = 64"

fun cstring_chunks :: "nat \<Rightarrow> string list \<Rightarrow> (pystream, string option) st" where
  "cstring_chunks 0 parts = sraise NoFuel"
| "cstring_chunks (Suc k) parts =
     sbind (stream_read CHUNKSIZE) (\<lambda>chunk.
       if CHR 0x00 \<in> set chunk then
         sret (Some (concat (parts @ [takeWhile (\<lambda>c. c \<noteq> CHR 0x00) chunk])))
       else if int (length chunk) < CHUNKSIZE then sret None
       else cstring_chunks k (parts @ [chunk]))"

definition parse_cstring_from_stream :: "nat \<Rightarrow> int option \<Rightarrow> (pystream, string option) st" where
  "parse_cstring_from_stream fuel stream_pos =
     sbind (case stream_pos of None \<Rightarrow> sret () | Some pos \<Rightarrow> stream_seek pos 0)
       (\<lambda>_. cstring_chunks fuel [])"

definition assert_with_exception :: "bool \<Rightarrow> pyexc \<Rightarrow> pyexc + unit" where
  "assert_with_exception cond exception_type = (if cond then Inr () else Inl exception_type)"

definition elf_assert :: "bool \<Rightarrow> pyexc + unit" where
  "elf_assert cond = assert_with_exception cond ELFError"

definition dwarf_assert :: "bool \<Rightarrow> pyexc + unit" where
  "dwarf_assert cond = assert_with_exception cond DWARFError"

text \<open>The body of \<open>with preserve_stream_pos\<close>: an exception skips the final seek.\<close>

definition preserve_stream_pos :: "(pystream, 'a) st \<Rightarrow> (pystream, 'a) st" where
  "preserve_stream_pos body = (\<lambda>stream.
     sbind body (\<lambda>x. sbind (stream_seek (stream_tell stream) 0) (\<lambda>_. sret x)) stream)"

subsection \<open>\<open>RepeatUntilExcluding\<close>\<close>

text \<open>
  With \<open>FLAG_COPY_CONTEXT\<close> one copy of the context serves every iteration, while the predicate
  always sees the original; \<open>_sizeof\<close> raises a \<open>NameError\<close>, since \<open>SizeofError\<close> is not imported.
\<close>

fun excluding_loop :: "nat \<Rightarrow> pyval pm \<Rightarrow> (pyval \<Rightarrow> ctx \<Rightarrow> pyexc + bool) \<Rightarrow> ctx \<Rightarrow> pyval list \<Rightarrow> pyval list pm" where
  "excluding_loop 0 m predicate context obj = sraise NoFuel"
| "excluding_loop (Suc k) m predicate context obj =
     sbind m (\<lambda>v. sbind (slift (predicate v context))
       (\<lambda>b. if b then sret obj else excluding_loop k m predicate context (obj @ [v])))"

fun excluding_loop_own :: "nat \<Rightarrow> pyval pm \<Rightarrow> (pyval \<Rightarrow> ctx \<Rightarrow> pyexc + bool) \<Rightarrow> pyval list \<Rightarrow> pyval list pm" where
  "excluding_loop_own 0 m predicate obj = sraise NoFuel"
| "excluding_loop_own (Suc k) m predicate obj =
     sbind m (\<lambda>v. sbind (with_ctx (predicate v))
       (\<lambda>b. if b then sret obj else excluding_loop_own k m predicate (obj @ [v])))"

definition RepeatUntilExcluding :: "(pyval \<Rightarrow> ctx \<Rightarrow> pyexc + bool) \<Rightarrow> construct \<Rightarrow> construct" where
  "RepeatUntilExcluding predicate subcon =
     set_flag FLAG_DYNAMIC (clear_flag FLAG_COPY_CONTEXT ((Subconstruct subcon)
     \<lparr>con_parse := scatch
        (\<lambda>s. sbind
           (if is_flag FLAG_COPY_CONTEXT subcon
            then in_ctx id (excluding_loop (p_fuel s) (con_parse subcon) predicate (p_ctx s) [])
            else excluding_loop_own (p_fuel s) (con_parse subcon) predicate [])
           (\<lambda>obj. sret (PList obj)) s)
        is_construct_error (\<lambda>ex. sraise ArrayError),
      con_build := (\<lambda>obj. sraise NotImplementedError),
      con_sizeof := (\<lambda>c. Inl NameError)\<rparr>))"

subsection \<open>Reading strings in chunks\<close>

text \<open>
  The chunks do not matter: the result is the bytes up to the first NUL of what is left, or \<open>None\<close>
  when there is no NUL.
\<close>

lemma cstring_chunks_exact:
  "length (drop p d) < 64 * k \<Longrightarrow>
   fst (cstring_chunks k parts (BytesIO d p)) =
     Inr (if CHR 0x00 \<in> set (drop p d)
          then Some (concat parts @ takeWhile (\<lambda>c. c \<noteq> CHR 0x00) (drop p d)) else None)"
proof (induction k arbitrary: parts p)
  case (Suc k)
  let ?c = "take 64 (drop p d)"
  have split: "drop p d = ?c @ drop (p + 64) d" by (metis add.commute append_take_drop_id drop_drop)
  show ?case
  proof (cases "CHR 0x00 \<in> set ?c")
    case True
    then have "takeWhile (\<lambda>c. c \<noteq> CHR 0x00) (drop p d) = takeWhile (\<lambda>c. c \<noteq> CHR 0x00) ?c"
      using takeWhile_append1 [of "CHR 0x00" ?c "\<lambda>c. c \<noteq> CHR 0x00" "drop (p + 64) d"] split by simp
    moreover have "CHR 0x00 \<in> set (drop p d)" using True set_take_subset by fast
    ultimately show ?thesis using True by (simp add: sbind_apply CHUNKSIZE_def Let_def)
  next
    case False
    show ?thesis
    proof (cases "length (drop p d) < 64")
      case True
      then have "?c = drop p d" by simp
      then show ?thesis using True False by (simp add: sbind_apply CHUNKSIZE_def Let_def)
    next
      case long: False
      then have len: "length ?c = 64" by simp
      have "takeWhile (\<lambda>c. c \<noteq> CHR 0x00) (drop p d) = ?c @ takeWhile (\<lambda>c. c \<noteq> CHR 0x00) (drop (p + 64) d)"
        using takeWhile_append2 [of ?c "\<lambda>c. c \<noteq> CHR 0x00" "drop (p + 64) d"] split False by auto
      moreover have "CHR 0x00 \<in> set (drop p d) \<longleftrightarrow> CHR 0x00 \<in> set (drop (p + 64) d)"
        using False arg_cong [OF split, of set] by auto
      moreover have "length (drop (p + 64) d) < 64 * k" using Suc.prems long by simp
      ultimately show ?thesis using Suc.IH [of "p + 64" "parts @ [?c]"] False len
        by (simp add: sbind_apply CHUNKSIZE_def Let_def)
    qed
  qed
qed simp

lemma cstring_chunks_stream: "\<exists>q. snd (cstring_chunks fuel parts (BytesIO d p)) = BytesIO d q"
proof (induction fuel arbitrary: parts p)
  case (Suc k)
  then show ?case by (auto simp: sbind_apply Let_def split: if_splits)
qed simp

lemma cstring_stream:
  assumes "0 \<le> off" "length d < fuel"
  shows "\<exists>q'. parse_cstring_from_stream fuel (Some off) (BytesIO d q) =
    (Inr (if CHR 0x00 \<in> set (drop (nat off) d) then Some (takeWhile (\<lambda>c. c \<noteq> CHR 0x00) (drop (nat off) d)) else None), BytesIO d q')"
  using cstring_chunks_exact [of "nat off" d fuel "[]"] cstring_chunks_stream [of fuel "[]" d "nat off"] assms
  by (cases "cstring_chunks fuel [] (BytesIO d (nat off))") (auto simp: parse_cstring_from_stream_def sbind_apply Let_def)

theorem parse_cstring_exact:
  assumes "length d < fuel"
  shows "fst (parse_cstring_from_stream fuel (Some pos) (BytesIO d q)) =
     (if pos < 0 then Inl ValueError
      else Inr (if CHR 0x00 \<in> set (drop (nat pos) d)
          then Some (takeWhile (\<lambda>c. c \<noteq> CHR 0x00) (drop (nat pos) d)) else None))"
  using cstring_chunks_exact [of "nat pos" d fuel "[]"] assms
  by (simp add: parse_cstring_from_stream_def sbind_apply Let_def)

theorem parse_cstring_exact_witness:
  "fst (parse_cstring_from_stream 5 (Some 1) (BytesIO [CHR ''x'', CHR ''a'', CHR ''b'', CHR 0x00] 0)) = Inr (Some ''ab'')"
  using parse_cstring_exact [of "[CHR ''x'', CHR ''a'', CHR ''b'', CHR 0x00]" 5 1 0] by simp

end
