(* ===== verification/ElfEnums.thy ===== *)
theory ElfEnums
  imports ConstructMacros
begin

section \<open>Names of ELF constants (\<open>elf/enums.py\<close>)\<close>

text \<open>
  Each dictionary of the module in the order of the source, with what happens to a value it does
  not name: \<open>PassUnmapped\<close> for \<open>_default_ = Pass\<close>, otherwise \<open>NoMapping\<close> (an error).
\<close>

definition ENUM_EI_CLASS :: enum_map where
  "ENUM_EI_CLASS =
     ([(''ELFCLASSNONE'', 0),
      (''ELFCLASS32'', 1),
      (''ELFCLASS64'', 2)],
      NoMapping)"

definition ENUM_EI_DATA :: enum_map where
  "ENUM_EI_DATA =
     ([(''ELFDATANONE'', 0),
      (''ELFDATA2LSB'', 1),
      (''ELFDATA2MSB'', 2)],
      NoMapping)"

definition ENUM_E_VERSION :: enum_map where
  "ENUM_E_VERSION =
     ([(''EV_NONE'', 0),
      (''EV_CURRENT'', 1)],
      PassUnmapped)"

definition ENUM_EI_OSABI :: enum_map where
  "ENUM_EI_OSABI =
     ([(''ELFOSABI_SYSV'', 0),
      (''ELFOSABI_HPUX'', 1),
      (''ELFOSABI_NETBSD'', 2),
      (''ELFOSABI_LINUX'', 3),
      (''ELFOSABI_HURD'', 4),
      (''ELFOSABI_SOLARIS'', 6),
      (''ELFOSABI_AIX'', 7),
      (''ELFOSABI_IRIX'', 8),
      (''ELFOSABI_FREEBSD'', 9),
      (''ELFOSABI_TRU64'', 10),
      (''ELFOSABI_MODESTO'', 11),
      (''ELFOSABI_OPENBSD'', 12),
      (''ELFOSABI_OPENVMS'', 13),
      (''ELFOSABI_NSK'', 14),
      (''ELFOSABI_AROS'', 15),
      (''ELFOSABI_ARM'', 97),
      (''ELFOSABI_STANDALONE'', 255)],
      PassUnmapped)"

definition ENUM_E_TYPE :: enum_map where
  "ENUM_E_TYPE =
     ([(''ET_NONE'', 0),
      (''ET_REL'', 1),
      (''ET_EXEC'', 2),
      (''ET_DYN'', 3),
      (''ET_CORE'', 4),
      (''ET_LOPROC'', 0xff00),
      (''ET_HIPROC'', 0xffff)],
      PassUnmapped)"

definition ENUM_E_MACHINE :: enum_map where
  "ENUM_E_MACHINE =
     ([(''EM_NONE'', 0),
      (''EM_M32'', 1),
      (''EM_SPARC'', 2),
      (''EM_386'', 3),
      (''EM_68K'', 4),
      (''EM_88K'', 5),
      (''EM_486'', 6),
      (''EM_860'', 7),
      (''EM_MIPS'', 8),
      (''EM_S370'', 9),
      (''EM_MIPS_RS4_BE'', 10),
      (''EM_IA_64'', 50),
      (''EM_X86_64'', 62),
      (''EM_AVR'', 83),
      (''EM_L10M'', 180)],
      PassUnmapped)"

definition ENUM_SH_TYPE :: enum_map where
  "ENUM_SH_TYPE =
     ([(''SHT_NULL'', 0),
      (''SHT_PROGBITS'', 1),
      (''SHT_SYMTAB'', 2),
      (''SHT_STRTAB'', 3),
      (''SHT_RELA'', 4),
      (''SHT_HASH'', 5),
      (''SHT_DYNAMIC'', 6),
      (''SHT_NOTE'', 7),
      (''SHT_NOBITS'', 8),
      (''SHT_REL'', 9),
      (''SHT_SHLIB'', 10),
      (''SHT_DYNSYM'', 11),
      (''SHT_INIT_ARRAY'', 14),
      (''SHT_FINI_ARRAY'', 15),
      (''SHT_PREINIT_ARRAY'', 16),
      (''SHT_GROUP'', 17),
      (''SHT_SYMTAB_SHNDX'', 18),
      (''SHT_NUM'', 19),
      (''SHT_LOOS'', 0x60000000),
      (''SHT_GNU_HASH'', 0x6ffffff6),
      (''SHT_GNU_verdef'', 0x6ffffffd),
      (''SHT_GNU_verneed'', 0x6ffffffe),
      (''SHT_GNU_versym'', 0x6fffffff),
      (''SHT_LOPROC'', 0x70000000),
      (''SHT_HIPROC'', 0x7fffffff),
      (''SHT_LOUSER'', 0x80000000),
      (''SHT_HIUSER'', 0xffffffff),
      (''SHT_AMD64_UNWIND'', 0x70000001)],
      PassUnmapped)"

definition ENUM_P_TYPE :: enum_map where
  "ENUM_P_TYPE =
     ([(''PT_NULL'', 0),
      (''PT_LOAD'', 1),
      (''PT_DYNAMIC'', 2),
      (''PT_INTERP'', 3),
      (''PT_NOTE'', 4),
      (''PT_SHLIB'', 5),
      (''PT_PHDR'', 6),
      (''PT_TLS'', 7),
      (''PT_LOPROC'', 0x70000000),
      (''PT_HIPROC'', 0x7fffffff),
      (''PT_GNU_EH_FRAME'', 0x6474e550),
      (''PT_GNU_STACK'', 0x6474e551),
      (''PT_GNU_RELRO'', 0x6474e552)],
      PassUnmapped)"

definition ENUM_ST_INFO_BIND :: enum_map where
  "ENUM_ST_INFO_BIND =
     ([(''STB_LOCAL'', 0),
      (''STB_GLOBAL'', 1),
      (''STB_WEAK'', 2),
      (''STB_NUM'', 3),
      (''STB_LOOS'', 10),
      (''STB_HIOS'', 12),
      (''STB_LOPROC'', 13),
      (''STB_HIPROC'', 15)],
      PassUnmapped)"

definition ENUM_ST_INFO_TYPE :: enum_map where
  "ENUM_ST_INFO_TYPE =
     ([(''STT_NOTYPE'', 0),
      (''STT_OBJECT'', 1),
      (''STT_FUNC'', 2),
      (''STT_SECTION'', 3),
      (''STT_FILE'', 4),
      (''STT_COMMON'', 5),
      (''STT_TLS'', 6),
      (''STT_NUM'', 7),
      (''STT_RELC'', 8),
      (''STT_SRELC'', 9),
      (''STT_LOOS'', 10),
      (''STT_HIOS'', 12),
      (''STT_LOPROC'', 13),
      (''STT_HIPROC'', 15)],
      PassUnmapped)"

definition ENUM_ST_VISIBILITY :: enum_map where
  "ENUM_ST_VISIBILITY =
     ([(''STV_DEFAULT'', 0),
      (''STV_INTERNAL'', 1),
      (''STV_HIDDEN'', 2),
      (''STV_PROTECTED'', 3)],
      PassUnmapped)"

definition ENUM_ST_SHNDX :: enum_map where
  "ENUM_ST_SHNDX =
     ([(''SHN_UNDEF'', 0),
      (''SHN_ABS'', 0xfff1),
      (''SHN_COMMON'', 0xfff2)],
      PassUnmapped)"

definition ENUM_RELOC_TYPE_i386 :: enum_map where
  "ENUM_RELOC_TYPE_i386 =
     ([(''R_386_NONE'', 0),
      (''R_386_32'', 1),
      (''R_386_PC32'', 2),
      (''R_386_GOT32'', 3),
      (''R_386_PLT32'', 4),
      (''R_386_COPY'', 5),
      (''R_386_GLOB_DAT'', 6),
      (''R_386_JUMP_SLOT'', 7),
      (''R_386_RELATIVE'', 8),
      (''R_386_GOTOFF'', 9),
      (''R_386_GOTPC'', 10),
      (''R_386_32PLT'', 11),
      (''R_386_TLS_TPOFF'', 14),
      (''R_386_TLS_IE'', 15),
      (''R_386_TLS_GOTIE'', 16),
      (''R_386_TLS_LE'', 17),
      (''R_386_TLS_GD'', 18),
      (''R_386_TLS_LDM'', 19),
      (''R_386_16'', 20),
      (''R_386_PC16'', 21),
      (''R_386_8'', 22),
      (''R_386_PC8'', 23),
      (''R_386_TLS_GD_32'', 24),
      (''R_386_TLS_GD_PUSH'', 25),
      (''R_386_TLS_GD_CALL'', 26),
      (''R_386_TLS_GD_POP'', 27),
      (''R_386_TLS_LDM_32'', 28),
      (''R_386_TLS_LDM_PUSH'', 29),
      (''R_386_TLS_LDM_CALL'', 30),
      (''R_386_TLS_LDM_POP'', 31),
      (''R_386_TLS_LDO_32'', 32),
      (''R_386_TLS_IE_32'', 33),
      (''R_386_TLS_LE_32'', 34),
      (''R_386_TLS_DTPMOD32'', 35),
      (''R_386_TLS_DTPOFF32'', 36),
      (''R_386_TLS_TPOFF32'', 37),
      (''R_386_TLS_GOTDESC'', 39),
      (''R_386_TLS_DESC_CALL'', 40),
      (''R_386_TLS_DESC'', 41),
      (''R_386_IRELATIVE'', 42),
      (''R_386_USED_BY_INTEL_200'', 200),
      (''R_386_GNU_VTINHERIT'', 250),
      (''R_386_GNU_VTENTRY'', 251)],
      PassUnmapped)"

definition ENUM_RELOC_TYPE_x64 :: enum_map where
  "ENUM_RELOC_TYPE_x64 =
     ([(''R_X86_64_NONE'', 0),
      (''R_X86_64_64'', 1),
      (''R_X86_64_PC32'', 2),
      (''R_X86_64_GOT32'', 3),
      (''R_X86_64_PLT32'', 4),
      (''R_X86_64_COPY'', 5),
      (''R_X86_64_GLOB_DAT'', 6),
      (''R_X86_64_JUMP_SLOT'', 7),
      (''R_X86_64_RELATIVE'', 8),
      (''R_X86_64_GOTPCREL'', 9),
      (''R_X86_64_32'', 10),
      (''R_X86_64_32S'', 11),
      (''R_X86_64_16'', 12),
      (''R_X86_64_PC16'', 13),
      (''R_X86_64_8'', 14),
      (''R_X86_64_PC8'', 15),
      (''R_X86_64_DTPMOD64'', 16),
      (''R_X86_64_DTPOFF64'', 17),
      (''R_X86_64_TPOFF64'', 18),
      (''R_X86_64_TLSGD'', 19),
      (''R_X86_64_TLSLD'', 20),
      (''R_X86_64_DTPOFF32'', 21),
      (''R_X86_64_GOTTPOFF'', 22),
      (''R_X86_64_TPOFF32'', 23),
      (''R_X86_64_PC64'', 24),
      (''R_X86_64_GOTOFF64'', 25),
      (''R_X86_64_GOTPC32'', 26),
      (''R_X86_64_GOT64'', 27),
      (''R_X86_64_GOTPCREL64'', 28),
      (''R_X86_64_GOTPC64'', 29),
      (''R_X86_64_GOTPLT64'', 30),
      (''R_X86_64_PLTOFF64'', 31),
      (''R_X86_64_GOTPC32_TLSDESC'', 34),
      (''R_X86_64_TLSDESC_CALL'', 35),
      (''R_X86_64_TLSDESC'', 36),
      (''R_X86_64_IRELATIVE'', 37),
      (''R_X86_64_GNU_VTINHERIT'', 250),
      (''R_X86_64_GNU_VTENTRY'', 251)],
      PassUnmapped)"

end
