(* ===== verification/ElfStructs.thy ===== *)
theory ElfStructs
  imports ElfUtils ElfEnums
begin

section \<open>The structures of an ELF file (\<open>elf/structs.py\<close>)\<close>

text \<open>
  \<open>ELFStructs\<close> makes one construct per structure of the format, adjusted to the byte order and the
  class (32 or 64 bit) of the file. \<open>Elf_xxx\<close> here takes the parameters of the object.
\<close>

unbundle bit_operations_syntax

record elf_structs =
  es_little_endian :: bool
  es_elfclass :: int

definition ELFStructs :: "bool \<Rightarrow> int \<Rightarrow> pyexc + elf_structs" where
  "ELFStructs little_endian elfclass =
     (if elfclass = 32 \<or> elfclass = 64 then Inr \<lparr>es_little_endian = little_endian, es_elfclass = elfclass\<rparr>
      else Inl AssertionError)"

definition Elf_byte :: "elf_structs \<Rightarrow> string option \<Rightarrow> construct" where
  "Elf_byte S = (if es_little_endian S then ULInt8 else UBInt8)"

definition Elf_half :: "elf_structs \<Rightarrow> string option \<Rightarrow> construct" where
  "Elf_half S = (if es_little_endian S then ULInt16 else UBInt16)"

definition Elf_word :: "elf_structs \<Rightarrow> string option \<Rightarrow> construct" where
  "Elf_word S = (if es_little_endian S then ULInt32 else UBInt32)"

definition Elf_word64 :: "elf_structs \<Rightarrow> string option \<Rightarrow> construct" where
  "Elf_word64 S = (if es_little_endian S then ULInt64 else UBInt64)"

definition Elf_addr :: "elf_structs \<Rightarrow> string option \<Rightarrow> construct" where
  "Elf_addr S = (if es_little_endian S then (if es_elfclass S = 32 then ULInt32 else ULInt64)
     else (if es_elfclass S = 32 then UBInt32 else UBInt64))"

definition Elf_offset :: "elf_structs \<Rightarrow> string option \<Rightarrow> construct" where
  "Elf_offset S = Elf_addr S"

definition Elf_sword :: "elf_structs \<Rightarrow> string option \<Rightarrow> construct" where
  "Elf_sword S = (if es_little_endian S then SLInt32 else SBInt32)"

definition Elf_xword :: "elf_structs \<Rightarrow> string option \<Rightarrow> construct" where
  "Elf_xword S = (if es_little_endian S then (if es_elfclass S = 32 then ULInt32 else ULInt64)
     else (if es_elfclass S = 32 then UBInt32 else UBInt64))"

definition Elf_sxword :: "elf_structs \<Rightarrow> string option \<Rightarrow> construct" where
  "Elf_sxword S = (if es_little_endian S then (if es_elfclass S = 32 then SLInt32 else SLInt64)
     else (if es_elfclass S = 32 then SBInt32 else SBInt64))"

lemmas elf_fields = Elf_byte_def Elf_half_def Elf_word_def Elf_word64_def Elf_addr_def Elf_offset_def
  Elf_sword_def Elf_xword_def Elf_sxword_def

definition Elf_Ehdr :: "elf_structs \<Rightarrow> construct" where
  "Elf_Ehdr S = Struct (Some ''Elf_Ehdr'') True
     [Struct (Some ''e_ident'') True
        [Array (Fixed 4) (Elf_byte S (Some ''EI_MAG'')),
         EnumOf (Elf_byte S (Some ''EI_CLASS'')) ENUM_EI_CLASS,
         EnumOf (Elf_byte S (Some ''EI_DATA'')) ENUM_EI_DATA,
         EnumOf (Elf_byte S (Some ''EI_VERSION'')) ENUM_E_VERSION,
         EnumOf (Elf_byte S (Some ''EI_OSABI'')) ENUM_EI_OSABI,
         Elf_byte S (Some ''EI_ABIVERSION''),
         Padding (Fixed 7) [CHR 0x00] False],
      EnumOf (Elf_half S (Some ''e_type'')) ENUM_E_TYPE,
      EnumOf (Elf_half S (Some ''e_machine'')) ENUM_E_MACHINE,
      EnumOf (Elf_word S (Some ''e_version'')) ENUM_E_VERSION,
      Elf_addr S (Some ''e_entry''),
      Elf_offset S (Some ''e_phoff''),
      Elf_offset S (Some ''e_shoff''),
      Elf_word S (Some ''e_flags''),
      Elf_half S (Some ''e_ehsize''),
      Elf_half S (Some ''e_phentsize''),
      Elf_half S (Some ''e_phnum''),
      Elf_half S (Some ''e_shentsize''),
      Elf_half S (Some ''e_shnum''),
      Elf_half S (Some ''e_shstrndx'')]"

definition Elf_Phdr :: "elf_structs \<Rightarrow> construct" where
  "Elf_Phdr S =
     (if es_elfclass S = 32 then
        Struct (Some ''Elf_Phdr'') True
          [EnumOf (Elf_word S (Some ''p_type'')) ENUM_P_TYPE,
           Elf_offset S (Some ''p_offset''),
           Elf_addr S (Some ''p_vaddr''),
           Elf_addr S (Some ''p_paddr''),
           Elf_word S (Some ''p_filesz''),
           Elf_word S (Some ''p_memsz''),
           Elf_word S (Some ''p_flags''),
           Elf_word S (Some ''p_align'')]
      else
        Struct (Some ''Elf_Phdr'') True
          [EnumOf (Elf_word S (Some ''p_type'')) ENUM_P_TYPE,
           Elf_word S (Some ''p_flags''),
           Elf_offset S (Some ''p_offset''),
           Elf_addr S (Some ''p_vaddr''),
           Elf_addr S (Some ''p_paddr''),
           Elf_xword S (Some ''p_filesz''),
           Elf_xword S (Some ''p_memsz''),
           Elf_xword S (Some ''p_align'')])"

definition Elf_Shdr :: "elf_structs \<Rightarrow> construct" where
  "Elf_Shdr S = Struct (Some ''Elf_Shdr'') True
     [Elf_word S (Some ''sh_name''),
      EnumOf (Elf_word S (Some ''sh_type'')) ENUM_SH_TYPE,
      Elf_xword S (Some ''sh_flags''),
      Elf_addr S (Some ''sh_addr''),
      Elf_offset S (Some ''sh_offset''),
      Elf_xword S (Some ''sh_size''),
      Elf_word S (Some ''sh_link''),
      Elf_word S (Some ''sh_info''),
      Elf_xword S (Some ''sh_addralign''),
      Elf_xword S (Some ''sh_entsize'')]"

text \<open>The computed members of a relocation.\<close>

definition ctx_int :: "string \<Rightarrow> ctx \<Rightarrow> pyexc + int" where
  "ctx_int n c = ebind (ctx_item n c) (\<lambda>v. case as_num v of None \<Rightarrow> Inl TypeError | Some i \<Rightarrow> Inr i)"

definition r_info_sym :: "elf_structs \<Rightarrow> construct" where
  "r_info_sym S = Value ''r_info_sym'' (\<lambda>c. ebind (ctx_int ''r_info'' c) (\<lambda>i. Inr (PInt
     (if es_elfclass S = 32 then drop_bit 8 i AND 0xFFFFFF else drop_bit 32 i AND 0xFFFFFFFF))))"

definition r_info_type :: "elf_structs \<Rightarrow> construct" where
  "r_info_type S = Value ''r_info_type'' (\<lambda>c. ebind (ctx_int ''r_info'' c) (\<lambda>i. Inr (PInt
     (if es_elfclass S = 32 then i AND 0xFF else i AND 0xFFFFFFFF))))"

definition Elf_Rel :: "elf_structs \<Rightarrow> construct" where
  "Elf_Rel S = Struct (Some ''Elf_Rel'') True
     [Elf_addr S (Some ''r_offset''), Elf_xword S (Some ''r_info''), r_info_sym S, r_info_type S]"

definition Elf_Rela :: "elf_structs \<Rightarrow> construct" where
  "Elf_Rela S = Struct (Some ''Elf_Rela'') True
     [Elf_addr S (Some ''r_offset''), Elf_xword S (Some ''r_info''), r_info_sym S, r_info_type S,
      Elf_sxword S (Some ''r_addend'')]"

definition st_info_struct :: "pyexc + construct" where
  "st_info_struct = BitStruct (Some ''st_info'')
     [EnumOf (BitField (Some ''bind'') 4 False False 8) ENUM_ST_INFO_BIND,
      EnumOf (BitField (Some ''type'') 4 False False 8) ENUM_ST_INFO_TYPE]"

definition st_other_struct :: "pyexc + construct" where
  "st_other_struct = BitStruct (Some ''st_other'')
     [Padding (Fixed 5) [CHR 0x00] False,
      EnumOf (BitField (Some ''visibility'') 3 False False 8) ENUM_ST_VISIBILITY]"

definition Elf_Sym :: "elf_structs \<Rightarrow> pyexc + construct" where
  "Elf_Sym S = ebind st_info_struct (\<lambda>st_info. ebind st_other_struct (\<lambda>st_other. Inr
     (if es_elfclass S = 32 then
        Struct (Some ''Elf_Sym'') True
          [Elf_word S (Some ''st_name''),
           Elf_addr S (Some ''st_value''),
           Elf_word S (Some ''st_size''),
           st_info,
           st_other,
           EnumOf (Elf_half S (Some ''st_shndx'')) ENUM_ST_SHNDX]
      else
        Struct (Some ''Elf_Sym'') True
          [Elf_word S (Some ''st_name''),
           st_info,
           st_other,
           EnumOf (Elf_half S (Some ''st_shndx'')) ENUM_ST_SHNDX,
           Elf_addr S (Some ''st_value''),
           Elf_xword S (Some ''st_size'')])))"

subsection \<open>The headers are layouts\<close>

definition elf_endian :: "elf_structs \<Rightarrow> endian" where
  "elf_endian S = (if es_little_endian S then Little else Big)"

definition addr_format :: "elf_structs \<Rightarrow> int_format" where
  "addr_format S = (if es_elfclass S = 32 then Fmt_L else Fmt_Q)"

definition ehdr_layout :: "elf_structs \<Rightarrow> layout" where
  "ehdr_layout S =
     (let B = IntL (elf_endian S) Fmt_B; H = IntL (elf_endian S) Fmt_H; W = IntL (elf_endian S) Fmt_L;
          A = IntL (elf_endian S) (addr_format S)
      in StructL
        [(Some ''e_ident'', StructL [(Some ''EI_MAG'', ArrayL 4 B),
            (Some ''EI_CLASS'', EnumL (elf_endian S) Fmt_B ENUM_EI_CLASS),
            (Some ''EI_DATA'', EnumL (elf_endian S) Fmt_B ENUM_EI_DATA),
            (Some ''EI_VERSION'', EnumL (elf_endian S) Fmt_B ENUM_E_VERSION),
            (Some ''EI_OSABI'', EnumL (elf_endian S) Fmt_B ENUM_EI_OSABI),
            (Some ''EI_ABIVERSION'', B), (None, PadL 7)]),
         (Some ''e_type'', EnumL (elf_endian S) Fmt_H ENUM_E_TYPE),
         (Some ''e_machine'', EnumL (elf_endian S) Fmt_H ENUM_E_MACHINE),
         (Some ''e_version'', EnumL (elf_endian S) Fmt_L ENUM_E_VERSION),
         (Some ''e_entry'', A), (Some ''e_phoff'', A), (Some ''e_shoff'', A), (Some ''e_flags'', W),
         (Some ''e_ehsize'', H), (Some ''e_phentsize'', H), (Some ''e_phnum'', H),
         (Some ''e_shentsize'', H), (Some ''e_shnum'', H), (Some ''e_shstrndx'', H)])"

definition phdr_layout :: "elf_structs \<Rightarrow> layout" where
  "phdr_layout S =
     (let T = (Some ''p_type'', EnumL (elf_endian S) Fmt_L ENUM_P_TYPE); W = IntL (elf_endian S) Fmt_L;
          A = IntL (elf_endian S) (addr_format S)
      in StructL (if es_elfclass S = 32 then
           [T, (Some ''p_offset'', A), (Some ''p_vaddr'', A), (Some ''p_paddr'', A), (Some ''p_filesz'', W),
            (Some ''p_memsz'', W), (Some ''p_flags'', W), (Some ''p_align'', W)]
         else
           [T, (Some ''p_flags'', W), (Some ''p_offset'', A), (Some ''p_vaddr'', A), (Some ''p_paddr'', A),
            (Some ''p_filesz'', A), (Some ''p_memsz'', A), (Some ''p_align'', A)]))"

definition shdr_layout :: "elf_structs \<Rightarrow> layout" where
  "shdr_layout S =
     (let W = IntL (elf_endian S) Fmt_L; A = IntL (elf_endian S) (addr_format S)
      in StructL [(Some ''sh_name'', W), (Some ''sh_type'', EnumL (elf_endian S) Fmt_L ENUM_SH_TYPE),
         (Some ''sh_flags'', A), (Some ''sh_addr'', A), (Some ''sh_offset'', A), (Some ''sh_size'', A),
         (Some ''sh_link'', W), (Some ''sh_info'', W), (Some ''sh_addralign'', A), (Some ''sh_entsize'', A)])"

lemma elf_layouts:
  "Elf_Ehdr S = layout_con (Some ''Elf_Ehdr'') (ehdr_layout S)"
  "Elf_Phdr S = layout_con (Some ''Elf_Phdr'') (phdr_layout S)"
  "Elf_Shdr S = layout_con (Some ''Elf_Shdr'') (shdr_layout S)"
  by (simp_all add: Elf_Ehdr_def Elf_Phdr_def Elf_Shdr_def ehdr_layout_def phdr_layout_def shdr_layout_def
      elf_endian_def addr_format_def elf_fields int_fields Let_def)

lemma elf_layouts_wf:
  "layout_wf (ehdr_layout S)" "layout_wf (phdr_layout S)" "layout_wf (shdr_layout S)"
  "\<not> is_pad (ehdr_layout S)" "\<not> is_pad (phdr_layout S)" "\<not> is_pad (shdr_layout S)"
  by (simp_all add: ehdr_layout_def phdr_layout_def shdr_layout_def Let_def ENUM_EI_CLASS_def ENUM_EI_DATA_def
      ENUM_E_VERSION_def ENUM_EI_OSABI_def ENUM_E_TYPE_def ENUM_E_MACHINE_def ENUM_P_TYPE_def ENUM_SH_TYPE_def)

text \<open>C40: The ELF headers have the sizes of the standard: 52/32/40 bytes for class 32 and 64/56/64 for class 64.\<close>

theorem elf_header_sizes:
  assumes "ELFStructs le cls = Inr S"
  shows "con_sizeof (Elf_Ehdr S) c = Inr (if cls = 32 then 52 else 64) \<and>
     con_sizeof (Elf_Phdr S) c = Inr (if cls = 32 then 32 else 56) \<and>
     con_sizeof (Elf_Shdr S) c = Inr (if cls = 32 then 40 else 64)"
  using assms unfolding elf_layouts layout_con_sizeof
  by (auto simp: ELFStructs_def ehdr_layout_def phdr_layout_def shdr_layout_def Let_def addr_format_def split: if_splits)

theorem elf_header_sizes_witness:
  "\<exists>S. ELFStructs True 64 = Inr S \<and> con_sizeof (Elf_Ehdr S) new_ctx = Inr 64"
proof -
  have S: "ELFStructs True 64 = Inr \<lparr>es_little_endian = True, es_elfclass = 64\<rparr>" by (simp add: ELFStructs_def)
  show ?thesis using S elf_header_sizes [OF S, of new_ctx] by auto
qed

theorem elf_headers_roundtrip:
  assumes "(c, l) \<in> {(Elf_Ehdr S, ehdr_layout S), (Elf_Phdr S, phdr_layout S), (Elf_Shdr S, shdr_layout S)}"
    and "layout_enc l v = Some b"
  shows "build fuel c v = Inr b \<and> parse fuel c (b @ r) = Inr v"
proof -
  obtain name where "c = layout_con name l" "layout_wf l" "\<not> is_pad l"
    using assms(1) elf_layouts elf_layouts_wf by auto
  then show ?thesis using codec.roundtrip [OF codec_layout assms(2)] by blast
qed

definition example_phdr :: pyval where
  "example_phdr = PObj [(''p_type'', PStr ''PT_LOAD''), (''p_flags'', PInt 5), (''p_offset'', PInt 4096),
     (''p_vaddr'', PInt 0xFFFFFFFF80000000), (''p_paddr'', PInt 0), (''p_filesz'', PInt 300), (''p_memsz'', PInt 512),
     (''p_align'', PInt 4096)]"

theorem elf_headers_roundtrip_witness:
  "\<exists>b. build 9 (Elf_Phdr \<lparr>es_little_endian = False, es_elfclass = 64\<rparr>) example_phdr = Inr b \<and>
     parse 9 (Elf_Phdr \<lparr>es_little_endian = False, es_elfclass = 64\<rparr>) (b @ ''xy'') = Inr example_phdr"
proof -
  let ?S = "\<lparr>es_little_endian = False, es_elfclass = 64\<rparr>"
  have "layout_enc (phdr_layout ?S) example_phdr \<noteq> None" by code_simp
  then obtain b where b: "layout_enc (phdr_layout ?S) example_phdr = Some b" by auto
  show ?thesis using elf_headers_roundtrip [of "Elf_Phdr ?S" "phdr_layout ?S" ?S, OF _ b, of 9 "''xy''"] by auto
qed

end
