(* ===== verification/DwarfStructs.thy ===== *)
theory DwarfStructs
  imports ElfUtils DwarfEnums
begin

section \<open>The structures of DWARF (\<open>dwarf/structs.py\<close>)\<close>

text \<open>
  \<open>DWARFStructs\<close> makes the constructs of the debugging information, adjusted to the byte order, to
  the 32 or 64 bit DWARF format and to the size of an address. \<open>Dwarf_xxx\<close> here takes the parameters
  of the object. Below are the variable-length integers (LEB128), the lengths that announce the
  format, and the headers; then what parsing them returns.
\<close>

unbundle bit_operations_syntax

record dwarf_structs =
  ds_little_endian :: bool
  ds_dwarf_format :: int
  ds_address_size :: int

definition DWARFStructs :: "bool \<Rightarrow> int \<Rightarrow> int \<Rightarrow> pyexc + dwarf_structs" where
  "DWARFStructs little_endian dwarf_format address_size =
     (if \<not> (dwarf_format = 32 \<or> dwarf_format = 64) then Inl AssertionError
      else if \<not> (address_size = 8 \<or> address_size = 4) then Inl AssertionError
      else Inr \<lparr>ds_little_endian = little_endian, ds_dwarf_format = dwarf_format, ds_address_size = address_size\<rparr>)"

definition initial_length_field_size :: "dwarf_structs \<Rightarrow> int" where
  "initial_length_field_size S = (if ds_dwarf_format S = 32 then 4 else 12)"

subsection \<open>Fixed-width fields\<close>

definition Dwarf_uint8 :: "dwarf_structs \<Rightarrow> string option \<Rightarrow> construct" where
  "Dwarf_uint8 S = (if ds_little_endian S then ULInt8 else UBInt8)"

definition Dwarf_uint16 :: "dwarf_structs \<Rightarrow> string option \<Rightarrow> construct" where
  "Dwarf_uint16 S = (if ds_little_endian S then ULInt16 else UBInt16)"

definition Dwarf_uint32 :: "dwarf_structs \<Rightarrow> string option \<Rightarrow> construct" where
  "Dwarf_uint32 S = (if ds_little_endian S then ULInt32 else UBInt32)"

definition Dwarf_uint64 :: "dwarf_structs \<Rightarrow> string option \<Rightarrow> construct" where
  "Dwarf_uint64 S = (if ds_little_endian S then ULInt64 else UBInt64)"

definition Dwarf_int8 :: "dwarf_structs \<Rightarrow> string option \<Rightarrow> construct" where
  "Dwarf_int8 S = (if ds_little_endian S then SLInt8 else SBInt8)"

definition Dwarf_int16 :: "dwarf_structs \<Rightarrow> string option \<Rightarrow> construct" where
  "Dwarf_int16 S = (if ds_little_endian S then SLInt16 else SBInt16)"

definition Dwarf_int32 :: "dwarf_structs \<Rightarrow> string option \<Rightarrow> construct" where
  "Dwarf_int32 S = (if ds_little_endian S then SLInt32 else SBInt32)"

definition Dwarf_int64 :: "dwarf_structs \<Rightarrow> string option \<Rightarrow> construct" where
  "Dwarf_int64 S = (if ds_little_endian S then SLInt64 else SBInt64)"

definition Dwarf_offset :: "dwarf_structs \<Rightarrow> string option \<Rightarrow> construct" where
  "Dwarf_offset S = (if ds_little_endian S then (if ds_dwarf_format S = 32 then ULInt32 else ULInt64)
     else (if ds_dwarf_format S = 32 then UBInt32 else UBInt64))"

definition Dwarf_target_addr :: "dwarf_structs \<Rightarrow> string option \<Rightarrow> construct" where
  "Dwarf_target_addr S = (if ds_little_endian S then (if ds_address_size S = 4 then ULInt32 else ULInt64)
     else (if ds_address_size S = 4 then UBInt32 else UBInt64))"

lemmas dwarf_fields = Dwarf_uint8_def Dwarf_uint16_def Dwarf_uint32_def Dwarf_uint64_def Dwarf_int8_def
  Dwarf_int16_def Dwarf_int32_def Dwarf_int64_def Dwarf_offset_def Dwarf_target_addr_def

subsection \<open>LEB128\<close>

text \<open>\<open>ord\<close> and \<open>reversed\<close>.\<close>

fun py_ord :: "pyval \<Rightarrow> pyexc + int" where
  "py_ord (PStr [c]) = Inr (ord_c c)"
| "py_ord _ = Inl TypeError"

fun py_reversed :: "pyval \<Rightarrow> pyexc + pyval list" where
  "py_reversed (PList xs) = Inr (rev xs)"
| "py_reversed (PTuple xs) = Inr (rev xs)"
| "py_reversed (PStr s) = Inr (map (\<lambda>c. PStr [c]) (rev s))"
| "py_reversed _ = Inl TypeError"

definition LEB128_reader :: construct where
  "LEB128_reader = RepeatUntil (\<lambda>obj c. ebind (py_ord obj) (\<lambda>b. Inr (b < 0x80))) (Field None (Fixed 1))"

fun leb128_loop :: "pyval list \<Rightarrow> int \<Rightarrow> pyexc + int" where
  "leb128_loop [] value = Inr value"
| "leb128_loop (b # bs) value =
     ebind (py_ord b) (\<lambda>o'. leb128_loop bs (push_bit 7 value + (o' AND 0x7F)))"

definition uleb128_decode :: "pyval \<Rightarrow> ctx \<Rightarrow> pyexc + pyval" where
  "uleb128_decode obj c =
     ebind (py_reversed obj) (\<lambda>bs. ebind (leb128_loop bs 0) (\<lambda>value. Inr (PInt value)))"

definition sleb128_decode :: "pyval \<Rightarrow> ctx \<Rightarrow> pyexc + pyval" where
  "sleb128_decode obj c =
     ebind (py_reversed obj) (\<lambda>bs. ebind (leb128_loop bs 0) (\<lambda>value.
       ebind (py_getitem obj (-1)) (\<lambda>b. ebind (py_ord b) (\<lambda>o'.
         if o' AND 0x40 \<noteq> 0 then
           ebind (py_len obj) (\<lambda>n. Inr (PInt (value OR - push_bit (nat (7 * n)) 1)))
         else Inr (PInt value)))))"

text \<open>An adapter that only decodes: \<open>_encode\<close> is the abstract one.\<close>

definition DecodeAdapter :: "construct \<Rightarrow> (pyval \<Rightarrow> ctx \<Rightarrow> pyexc + pyval) \<Rightarrow> construct" where
  "DecodeAdapter subcon decode = PureAdapter subcon decode (\<lambda>v c. Inl NotImplementedError)"

definition ULEB128 :: "string option \<Rightarrow> construct" where
  "ULEB128 name = Rename name (DecodeAdapter LEB128_reader uleb128_decode)"

definition SLEB128 :: "string option \<Rightarrow> construct" where
  "SLEB128 name = Rename name (DecodeAdapter LEB128_reader sleb128_decode)"

definition Dwarf_uleb128 :: "dwarf_structs \<Rightarrow> string option \<Rightarrow> construct" where
  "Dwarf_uleb128 S = ULEB128"

definition Dwarf_sleb128 :: "dwarf_structs \<Rightarrow> string option \<Rightarrow> construct" where
  "Dwarf_sleb128 S = SLEB128"

subsection \<open>The initial length\<close>

definition attr_int :: "pyval \<Rightarrow> string \<Rightarrow> pyexc + int" where
  "attr_int obj n = ebind (get_attr obj n)
     (\<lambda>v. case as_num v of None \<Rightarrow> Inl TypeError | Some i \<Rightarrow> Inr i)"

definition InitialLengthAdapter :: "construct \<Rightarrow> construct" where
  "InitialLengthAdapter subcon = DecodeAdapter subcon (\<lambda>obj c.
     ebind (attr_int obj ''first'') (\<lambda>n.
       if n < 0xFFFFFF00 then Inr (PInt n)
       else if n = 0xFFFFFFFF then get_attr obj ''second''
       else Inl ConstructError))"

definition InitialLength :: "dwarf_structs \<Rightarrow> string option \<Rightarrow> construct" where
  "InitialLength S name = InitialLengthAdapter (Struct name True
     [Dwarf_uint32 S (Some ''first''),
      If (\<lambda>c. ebind (ctx_attr ''first'' c) (\<lambda>v. Inr (py_eq v (PInt 0xFFFFFFFF))))
         (Dwarf_uint64 S (Some ''second'')) PNone])"

definition Dwarf_initial_length :: "dwarf_structs \<Rightarrow> string option \<Rightarrow> construct" where
  "Dwarf_initial_length S = InitialLength S"

subsection \<open>Headers\<close>

definition Dwarf_CU_header :: "dwarf_structs \<Rightarrow> construct" where
  "Dwarf_CU_header S = Struct (Some ''Dwarf_CU_header'') True
     [Dwarf_initial_length S (Some ''unit_length''),
      Dwarf_uint16 S (Some ''version''),
      Dwarf_offset S (Some ''debug_abbrev_offset''),
      Dwarf_uint8 S (Some ''address_size'')]"

definition Dwarf_abbrev_declaration :: "dwarf_structs \<Rightarrow> construct" where
  "Dwarf_abbrev_declaration S = Struct (Some ''Dwarf_abbrev_entry'') True
     [EnumOf (Dwarf_uleb128 S (Some ''tag'')) ENUM_DW_TAG,
      EnumOf (Dwarf_uint8 S (Some ''children_flag'')) ENUM_DW_CHILDREN,
      RepeatUntilExcluding
        (\<lambda>obj c. ebind (get_attr obj ''name'') (\<lambda>n.
           if py_eq n (PStr ''DW_AT_null'') then
             ebind (get_attr obj ''form'') (\<lambda>f. Inr (py_eq f (PStr ''DW_FORM_null'')))
           else Inr False))
        (Struct (Some ''attr_spec'') True
           [EnumOf (Dwarf_uleb128 S (Some ''name'')) ENUM_DW_AT,
            EnumOf (Dwarf_uleb128 S (Some ''form'')) ENUM_DW_FORM])]"

definition make_block_struct :: "dwarf_structs \<Rightarrow> (string option \<Rightarrow> construct) \<Rightarrow> construct" where
  "make_block_struct S length_field = PrefixedArray (Dwarf_uint8 S (Some ''elem'')) (length_field (Some ''''))"

definition Dwarf_dw_form :: "dwarf_structs \<Rightarrow> (string \<times> construct) list" where
  "Dwarf_dw_form S =
     [(''DW_FORM_addr'', Dwarf_target_addr S (Some '''')),
      (''DW_FORM_block1'', make_block_struct S (Dwarf_uint8 S)),
      (''DW_FORM_block2'', make_block_struct S (Dwarf_uint16 S)),
      (''DW_FORM_block4'', make_block_struct S (Dwarf_uint32 S)),
      (''DW_FORM_block'', make_block_struct S (Dwarf_uleb128 S)),
      (''DW_FORM_data1'', Dwarf_uint8 S (Some '''')),
      (''DW_FORM_data2'', Dwarf_uint16 S (Some '''')),
      (''DW_FORM_data4'', Dwarf_uint32 S (Some '''')),
      (''DW_FORM_data8'', Dwarf_uint64 S (Some '''')),
      (''DW_FORM_sdata'', Dwarf_sleb128 S (Some '''')),
      (''DW_FORM_udata'', Dwarf_uleb128 S (Some '''')),
      (''DW_FORM_string'', cstring_default (Some '''')),
      (''DW_FORM_strp'', Dwarf_offset S (Some '''')),
      (''DW_FORM_flag'', Dwarf_uint8 S (Some '''')),
      (''DW_FORM_ref1'', Dwarf_uint8 S (Some '''')),
      (''DW_FORM_ref2'', Dwarf_uint16 S (Some '''')),
      (''DW_FORM_ref4'', Dwarf_uint32 S (Some '''')),
      (''DW_FORM_ref8'', Dwarf_uint64 S (Some '''')),
      (''DW_FORM_ref_udata'', Dwarf_uleb128 S (Some '''')),
      (''DW_FORM_ref_addr'', Dwarf_offset S (Some '''')),
      (''DW_FORM_indirect'', Dwarf_uleb128 S (Some ''''))]"

definition ctx_len :: "string \<Rightarrow> ctx \<Rightarrow> pyexc + int" where
  "ctx_len n c = ebind (ctx_attr n c) py_len"

definition Dwarf_lineprog_file_entry :: "dwarf_structs \<Rightarrow> construct" where
  "Dwarf_lineprog_file_entry S = Struct (Some ''file_entry'') True
     [cstring_default (Some ''name''),
      If (\<lambda>c. ebind (ctx_len ''name'' c) (\<lambda>n. Inr (n \<noteq> 0)))
         (Embedded (Struct (Some '''') True
            [Dwarf_uleb128 S (Some ''dir_index''),
             Dwarf_uleb128 S (Some ''mtime''),
             Dwarf_uleb128 S (Some ''length'')])) PNone]"

definition Dwarf_lineprog_header :: "dwarf_structs \<Rightarrow> construct" where
  "Dwarf_lineprog_header S = Struct (Some ''Dwarf_lineprog_header'') True
     [Dwarf_initial_length S (Some ''unit_length''),
      Dwarf_uint16 S (Some ''version''),
      Dwarf_offset S (Some ''header_length''),
      Dwarf_uint8 S (Some ''minimum_instruction_length''),
      Dwarf_uint8 S (Some ''default_is_stmt''),
      Dwarf_int8 S (Some ''line_base''),
      Dwarf_uint8 S (Some ''line_range''),
      Dwarf_uint8 S (Some ''opcode_base''),
      Array (Func (\<lambda>c. ebind (ctx_count (Some ''opcode_base'') c) (\<lambda>n. Inr (n - 1))))
        (Dwarf_uint8 S (Some ''standard_opcode_lengths'')),
      RepeatUntilExcluding (\<lambda>obj c. Inr (py_eq obj (PStr ''''))) (cstring_default (Some ''include_directory'')),
      RepeatUntilExcluding (\<lambda>obj c. ebind (get_attr obj ''name'') (\<lambda>v. ebind (py_len v) (\<lambda>n. Inr (n = 0))))
        (Dwarf_lineprog_file_entry S)]"

definition Dwarf_CIE_header :: "dwarf_structs \<Rightarrow> construct" where
  "Dwarf_CIE_header S = Struct (Some ''Dwarf_CIE_header'') True
     [Dwarf_initial_length S (Some ''length''),
      Dwarf_offset S (Some ''CIE_id''),
      Dwarf_uint8 S (Some ''version''),
      cstring_default (Some ''augmentation''),
      Dwarf_uleb128 S (Some ''code_alignment_factor''),
      Dwarf_sleb128 S (Some ''data_alignment_factor''),
      Dwarf_uleb128 S (Some ''return_address_register'')]"

definition Dwarf_FDE_header :: "dwarf_structs \<Rightarrow> construct" where
  "Dwarf_FDE_header S = Struct (Some ''Dwarf_FDE_header'') True
     [Dwarf_initial_length S (Some ''length''),
      Dwarf_offset S (Some ''CIE_pointer''),
      Dwarf_target_addr S (Some ''initial_location''),
      Dwarf_target_addr S (Some ''address_range'')]"

subsection \<open>What the variable-length integers mean\<close>

text \<open>
  A LEB128 number is a string of bytes of which exactly the last is below 0x80; it stands for the
  number whose digits to the base 128 are the low seven bits, the least significant first, in two's
  complement if it is signed.
\<close>

definition leb_bytes :: "string \<Rightarrow> bool" where
  "leb_bytes bs = (bs \<noteq> [] \<and> ord_c (last bs) < 0x80 \<and> (\<forall>c\<in>set (butlast bs). 0x80 \<le> ord_c c))"

fun uleb_value :: "string \<Rightarrow> int" where
  "uleb_value [] = 0"
| "uleb_value (c # cs) = ord_c c mod 128 + 128 * uleb_value cs"

definition sleb_value :: "string \<Rightarrow> int" where
  "sleb_value bs = (let v = uleb_value bs; n = 7 * length bs in if 2 ^ (n - 1) \<le> v then v - 2 ^ n else v)"

lemma uleb_value_bounds: "0 \<le> uleb_value bs" "uleb_value bs < 2 ^ (7 * length bs)"
proof -
  have "0 \<le> uleb_value bs \<and> uleb_value bs < 2 ^ (7 * length bs)"
  proof (induction bs)
    case (Cons c cs)
    have "ord_c c mod 128 < 128" "0 \<le> ord_c c mod 128" by simp_all
    moreover have "(2::int) ^ (7 * length (c # cs)) = 128 * 2 ^ (7 * length cs)" by (simp add: power_add)
    moreover have "uleb_value cs + 1 \<le> 2 ^ (7 * length cs)" "0 \<le> uleb_value cs" using Cons by auto
    ultimately show ?case unfolding uleb_value.simps by linarith
  qed simp
  then show "0 \<le> uleb_value bs" "uleb_value bs < 2 ^ (7 * length bs)" by auto
qed

lemma leb128_loop_append: "leb128_loop (xs @ ys) v = ebind (leb128_loop xs v) (leb128_loop ys)"
  by (induction xs arbitrary: v) (auto simp: ebind_def split: sum.splits)

lemma leb128_loop_value:
  "leb128_loop (rev (map (\<lambda>c. PStr [c]) bs)) v = Inr (v * 128 ^ length bs + uleb_value bs)"
proof (induction bs arbitrary: v)
  case (Cons c cs)
  have "ord_c c AND 127 = ord_c c mod 128"
    using take_bit_eq_mask [of 7 "ord_c c"] by (simp add: take_bit_eq_mod mask_eq_exp_minus_1)
  then show ?case by (simp add: leb128_loop_append Cons push_bit_eq_mult algebra_simps)
qed simp

lemma digit_le: "a < 128 \<Longrightarrow> 0 \<le> a \<Longrightarrow> 128 * p \<le> a + 128 * u \<longleftrightarrow> p \<le> (u :: int)"
  by auto

lemma uleb_value_last:
  "bs \<noteq> [] \<Longrightarrow> 2 ^ (7 * length bs - 1) \<le> uleb_value bs \<longleftrightarrow> 64 \<le> ord_c (last bs) mod 128"
proof (induction bs)
  case (Cons c cs)
  show ?case
  proof (cases "cs = []")
    case False
    have e: "(2::int) ^ (7 * length (c # cs) - 1) = 128 * 2 ^ (7 * length cs - 1)"
      using False by (cases cs) (simp_all add: power_add)
    have "ord_c c mod 128 < 128" "0 \<le> ord_c c mod 128" by simp_all
    then have "128 * 2 ^ (7 * length cs - 1) \<le> ord_c c mod 128 + 128 * uleb_value cs \<longleftrightarrow> 2 ^ (7 * length cs - 1) \<le> uleb_value cs"
      by (rule digit_le)
    then show ?thesis using Cons False e by simp
  qed simp
qed simp

lemma bit_6: "odd (a div 64) \<longleftrightarrow> 64 \<le> a mod (128::int)"
proof -
  have w: "(128::int) = 64 * 2" by simp
  have e: "a mod 128 = 64 * (a div 64 mod 2) + a mod 64" unfolding w by (rule zmod_zmult2_eq) simp
  have "a mod 64 < 64" "0 \<le> a mod 64" by simp_all
  then show ?thesis unfolding e odd_iff_mod_2_eq_one by (cases "a div 64 mod 2 = 1") (simp_all add: not_mod_2_eq_1_eq_0)
qed

lemma or_minus_exp:
  assumes "0 \<le> v" "v < 2 ^ n"
  shows "v OR - (2 ^ n) = v - (2 ^ n :: int)"
proof -
  have "take_bit n v = v" using assms by (simp add: take_bit_int_eq_self)
  then have "bit v k \<Longrightarrow> k < n" for k by (metis bit_take_bit_iff)
  then have "v + - (2 ^ n) = v OR - (2 ^ n)"
    by (intro disjunctive_add) (auto simp: minus_exp_eq_not_mask bit_not_iff bit_mask_iff)
  then show ?thesis by simp
qed

lemma uleb128_decode_value:
  "uleb128_decode (PList (map (\<lambda>c. PStr [c]) bs)) x = Inr (PInt (uleb_value bs))"
  by (simp add: uleb128_decode_def leb128_loop_value)

lemma sleb128_decode_value:
  assumes "bs \<noteq> []"
  shows "sleb128_decode (PList (map (\<lambda>c. PStr [c]) bs)) x = Inr (PInt (sleb_value bs))"
proof -
  have "py_getitem (PList (map (\<lambda>c. PStr [c]) bs)) (-1) = Inr (PStr [last bs])"
    using assms by (cases bs rule: rev_cases) (simp_all add: py_index_def nth_append)
  moreover have "ord_c (last bs) AND 64 \<noteq> 0 \<longleftrightarrow> 64 \<le> ord_c (last bs) mod 128"
  proof -
    have "ord_c (last bs) AND 64 \<noteq> 0 \<longleftrightarrow> bit (ord_c (last bs)) 6"
      using and_exp_eq_0_iff_not_bit [of "ord_c (last bs)" 6] by simp
    also have "\<dots> \<longleftrightarrow> odd (ord_c (last bs) div 64)" by (simp add: bit_iff_odd)
    also have "\<dots> \<longleftrightarrow> 64 \<le> ord_c (last bs) mod 128" by (rule bit_6)
    finally show ?thesis .
  qed
  ultimately show ?thesis
    using uleb_value_last [OF assms] uleb_value_bounds [of bs]
    by (simp add: sleb128_decode_def leb128_loop_value sleb_value_def or_minus_exp push_bit_eq_mult nat_mult_distrib Let_def)
qed


text \<open>What the readers do with the rest of the stream.\<close>

definition leb_prefix :: "string \<Rightarrow> string option" where
  "leb_prefix d = (case dropWhile (\<lambda>c. 0x80 \<le> ord_c c) d of [] \<Rightarrow> None
     | c # _ \<Rightarrow> Some (takeWhile (\<lambda>c. 0x80 \<le> ord_c c) d @ [c]))"

lemma leb_prefix_bytes: "leb_bytes bs \<Longrightarrow> leb_prefix (bs @ r) = Some bs"
proof -
  assume "leb_bytes bs"
  then obtain us c where "bs = us @ [c]" "\<forall>x\<in>set us. 0x80 \<le> ord_c x" "ord_c c < 0x80"
    unfolding leb_bytes_def by (metis append_butlast_last_id)
  then show ?thesis by (simp add: leb_prefix_def)
qed

lemma leb_prefix_Some: "leb_prefix d = Some bs \<Longrightarrow> leb_bytes bs \<and> (\<exists>r. d = bs @ r)"
proof -
  assume d: "leb_prefix d = Some bs"
  then obtain c r where c: "dropWhile (\<lambda>c. 0x80 \<le> ord_c c) d = c # r" "bs = takeWhile (\<lambda>c. 0x80 \<le> ord_c c) d @ [c]"
    by (auto simp: leb_prefix_def split: list.splits)
  then have "\<not> 0x80 \<le> ord_c c" by (metis dropWhile_eq_Cons_conv)
  moreover have "d = bs @ r" using takeWhile_dropWhile_id [of "\<lambda>c. 0x80 \<le> ord_c c" d] c by simp
  ultimately show ?thesis using c(2) by (auto simp: leb_bytes_def dest: set_takeWhileD)
qed

lemma leb128_reader_run:
  assumes "p_stream s = BytesIO d p" "length (drop p d) < p_fuel s"
  shows "con_parse LEB128_reader s = (case leb_prefix (drop p d) of
      Some bs \<Rightarrow> (Inr (PList (map (\<lambda>c. PStr [c]) bs)), s\<lparr>p_stream := BytesIO d (p + length bs)\<rparr>)
    | None \<Rightarrow> (Inl ArrayError, s\<lparr>p_stream := BytesIO d (max p (length d))\<rparr>))"
proof -
  have e: "(\<lambda>c. \<not> ord_c c < 0x80) = (\<lambda>c. 0x80 \<le> ord_c c)" by auto
  have run: "repeat_parse_loop (p_fuel s) (con_parse (StaticField None 1)) (\<lambda>obj c. ebind (py_ord obj) (\<lambda>b. Inr (b < 0x80))) [] s =
     (case dropWhile (\<lambda>c. \<not> ord_c c < 0x80) (drop p d) of
        [] \<Rightarrow> (Inl FieldError, s\<lparr>p_stream := BytesIO d (max p (length d))\<rparr>)
      | c # _ \<Rightarrow> (Inr ([] @ map (\<lambda>c. PStr [c]) (takeWhile (\<lambda>c. \<not> ord_c c < 0x80) (drop p d) @ [c])),
          s\<lparr>p_stream := BytesIO d (Suc (p + length (takeWhile (\<lambda>c. \<not> ord_c c < 0x80) (drop p d))))\<rparr>))"
    using assms(2,1) by (intro repeat_chars) auto
  show ?thesis
  proof (cases "dropWhile (\<lambda>c. 0x80 \<le> ord_c c) (drop p d)")
    case Nil
    then show ?thesis using run unfolding e
      by (simp add: LEB128_reader_def RepeatUntil_def Field_def scatch_def sbind_apply leb_prefix_def is_construct_error_def
          del: dropWhile_eq_Nil_conv)
  next
    case (Cons c r)
    then show ?thesis using run unfolding e
      by (simp add: LEB128_reader_def RepeatUntil_def Field_def scatch_def sbind_apply leb_prefix_def)
  qed
qed

lemma uleb_run:
  assumes "p_stream s = BytesIO d p" "length (drop p d) < p_fuel s"
  shows "con_parse (ULEB128 name) s = (case leb_prefix (drop p d) of
      Some bs \<Rightarrow> (Inr (PInt (uleb_value bs)), s\<lparr>p_stream := BytesIO d (p + length bs)\<rparr>)
    | None \<Rightarrow> (Inl ArrayError, s\<lparr>p_stream := BytesIO d (max p (length d))\<rparr>))"
  using leb128_reader_run [OF assms]
  by (auto simp: ULEB128_def Rename_def Reconfig_def DecodeAdapter_def PureAdapter_def Adapter_def sbind_apply pm_simps
      uleb128_decode_value split: option.splits)

lemma sleb_run:
  assumes "p_stream s = BytesIO d p" "length (drop p d) < p_fuel s"
  shows "con_parse (SLEB128 name) s = (case leb_prefix (drop p d) of
      Some bs \<Rightarrow> (Inr (PInt (sleb_value bs)), s\<lparr>p_stream := BytesIO d (p + length bs)\<rparr>)
    | None \<Rightarrow> (Inl ArrayError, s\<lparr>p_stream := BytesIO d (max p (length d))\<rparr>))"
  using leb128_reader_run [OF assms] leb_prefix_Some [of "drop p d"]
  by (auto simp: SLEB128_def Rename_def Reconfig_def DecodeAdapter_def PureAdapter_def Adapter_def sbind_apply pm_simps
      sleb128_decode_value leb_bytes_def split: option.splits)

subsection \<open>Encoding\<close>

text \<open>The shortest encodings.\<close>

function uleb_encode :: "nat \<Rightarrow> string" where
  "uleb_encode n = (if n < 128 then [chr_c (int n)] else chr_c (int (n mod 128) + 128) # uleb_encode (n div 128))"
  by pat_completeness auto
termination by (relation "measure id") auto

function sleb_encode :: "int \<Rightarrow> string" where
  "sleb_encode i = (if - 64 \<le> i \<and> i < 64 then [chr_c (i mod 128)] else chr_c (i mod 128 + 128) # sleb_encode (i div 128))"
  by pat_completeness auto
termination by (relation "measure (\<lambda>i. nat \<bar>i\<bar>)") auto

declare uleb_encode.simps [simp del] sleb_encode.simps [simp del]

lemma leb_bytes_Cons: "leb_bytes (c # cs) \<longleftrightarrow> (if cs = [] then ord_c c < 0x80 else 0x80 \<le> ord_c c \<and> leb_bytes cs)"
  by (auto simp: leb_bytes_def)

lemma leb_bytes_nonempty: "leb_bytes bs \<Longrightarrow> bs \<noteq> []"
  by (simp add: leb_bytes_def)

lemma uleb_encode_bytes: "leb_bytes (uleb_encode n) \<and> uleb_value (uleb_encode n) = int n"
proof (induction n rule: uleb_encode.induct)
  case (1 n)
  show ?case
  proof (cases "n < 128")
    case True
    then show ?thesis by (simp add: uleb_encode.simps [of n] leb_bytes_def)
  next
    case False
    have "uleb_encode (n div 128) \<noteq> []" using 1 False leb_bytes_nonempty by blast
    moreover have "ord_c (chr_c (int (n mod 128) + 128)) = int (n mod 128) + 128"
      by (rule ord_chr_id) auto
    ultimately show ?thesis using 1 False
      by (simp add: uleb_encode.simps [of n] leb_bytes_Cons zmod_int zdiv_int)
  qed
qed

lemma sleb_value_Cons: "cs \<noteq> [] \<Longrightarrow> sleb_value (c # cs) = ord_c c mod 128 + 128 * sleb_value cs"
proof -
  assume cs: "cs \<noteq> []"
  then have e: "(2::int) ^ (7 * length (c # cs) - 1) = 128 * 2 ^ (7 * length cs - 1)"
    by (cases cs) (simp_all add: power_add)
  have "128 * 2 ^ (7 * length cs - 1) \<le> ord_c c mod 128 + 128 * uleb_value cs \<longleftrightarrow> 2 ^ (7 * length cs - 1) \<le> uleb_value cs"
    by (rule digit_le) simp_all
  then show ?thesis unfolding sleb_value_def e Let_def by (auto simp: power_add)
qed

lemma sleb_encode_bytes: "leb_bytes (sleb_encode i) \<and> sleb_value (sleb_encode i) = i"
proof (induction i rule: sleb_encode.induct)
  case (1 i)
  show ?case
  proof (cases "- 64 \<le> i \<and> i < 64")
    case True
    have "ord_c (chr_c (i mod 128)) = i mod 128" by (rule ord_chr_id) auto
    moreover have "64 \<le> i mod 128 \<longleftrightarrow> i < 0" "i mod 128 = (if i < 0 then i + 128 else i)" using True by presburger+
    ultimately show ?thesis using True
      by (simp add: sleb_encode.simps [of i] leb_bytes_def sleb_value_def)
  next
    case False
    have "sleb_encode (i div 128) \<noteq> []" using 1 False leb_bytes_nonempty by blast
    moreover have "ord_c (chr_c (i mod 128 + 128)) = i mod 128 + 128"
      by (rule ord_chr_id) auto
    ultimately show ?thesis using 1 False
      by (auto simp: sleb_encode.simps [of i] leb_bytes_Cons sleb_value_Cons)
  qed
qed

theorem leb128_parse:
  assumes "length d < fuel"
  shows "parse_stream fuel (ULEB128 name) (BytesIO d p) = (case leb_prefix (drop p d) of
      Some bs \<Rightarrow> (Inr (PInt (uleb_value bs)), BytesIO d (p + length bs))
    | None \<Rightarrow> (Inl ArrayError, BytesIO d (max p (length d)))) \<and>
    parse_stream fuel (SLEB128 name) (BytesIO d p) = (case leb_prefix (drop p d) of
      Some bs \<Rightarrow> (Inr (PInt (sleb_value bs)), BytesIO d (p + length bs))
    | None \<Rightarrow> (Inl ArrayError, BytesIO d (max p (length d))))"
  using uleb_run [of "start_state fuel (BytesIO d p)" d p name] sleb_run [of "start_state fuel (BytesIO d p)" d p name] assms
  by (simp add: parse_stream_def start_state_def split: option.split)

theorem leb128_parse_witness:
  "parse_stream 9 (ULEB128 None) (BytesIO [CHR ''x'', chr_c 0xE5, chr_c 0x8E, chr_c 0x26] 1) =
     (Inr (PInt 624485), BytesIO [CHR ''x'', chr_c 0xE5, chr_c 0x8E, chr_c 0x26] 4)"
proof -
  have "leb_prefix [chr_c 0xE5, chr_c 0x8E, chr_c 0x26] = Some [chr_c 0xE5, chr_c 0x8E, chr_c 0x26]" by code_simp
  moreover have "uleb_value [chr_c 0xE5, chr_c 0x8E, chr_c 0x26] = 624485" by code_simp
  ultimately show ?thesis
    using leb128_parse [of "[CHR ''x'', chr_c 0xE5, chr_c 0x8E, chr_c 0x26]" 9 None 1] by simp
qed

theorem leb128_roundtrip:
  assumes "length (b @ r) < fuel"
  shows "(b = uleb_encode n \<longrightarrow> parse_stream fuel (ULEB128 name) (BytesIO (b @ r) 0) = (Inr (PInt (int n)), BytesIO (b @ r) (length b))) \<and>
    (b = sleb_encode i \<longrightarrow> parse_stream fuel (SLEB128 name) (BytesIO (b @ r) 0) = (Inr (PInt i), BytesIO (b @ r) (length b)))"
  using uleb_run [of "start_state fuel (BytesIO (b @ r) 0)" "b @ r" 0 name]
    sleb_run [of "start_state fuel (BytesIO (b @ r) 0)" "b @ r" 0 name] assms
    uleb_encode_bytes [of n] sleb_encode_bytes [of i] leb_prefix_bytes [of b r]
  by (auto simp: parse_stream_def start_state_def)

theorem leb128_roundtrip_witness:
  "parse_stream 9 (SLEB128 None) (BytesIO (sleb_encode (-129) @ ''z'') 0) =
     (Inr (PInt (-129)), BytesIO (sleb_encode (-129) @ ''z'') (length (sleb_encode (-129))))"
proof -
  have "length (sleb_encode (-129) @ ''z'') < 9" by (simp add: sleb_encode.simps)
  from leb128_roundtrip [OF this] show ?thesis by blast
qed

end
