(* ===== verification/DwarfHeaders.thy ===== *)
theory DwarfHeaders
  imports DwarfStructs
begin

section \<open>Reading the headers of DWARF\<close>

text \<open>
  The structures of DWARF are only read, and one value may have many encodings, so their contract
  is a relation: \<open>dec vars b v\<close> says that the bytes \<open>b\<close> stand for \<open>v\<close> where \<open>vars\<close> are the fields
  parsed before. A locale states it; every codec satisfies it (a sublocale), every combinator keeps
  it, and the headers are interpretations.
\<close>

type_synonym decoding = "container \<Rightarrow> string \<Rightarrow> pyval \<Rightarrow> bool"

locale decoder =
  fixes con :: construct and dec :: decoding
  assumes decode_law: "dec (c_vars (p_ctx s)) b v \<Longrightarrow> calm s \<Longrightarrow> p_stream s = BytesIO (x @ b @ r) (length x) \<Longrightarrow>
      length (b @ r) < p_fuel s \<Longrightarrow>
      \<exists>objs. con_parse con s =
        (Inr v, s\<lparr>p_stream := BytesIO (x @ b @ r) (length x + length b), p_objs := p_objs s @ objs\<rparr>)"
begin

lemma struct_parse_decodes:
  assumes "dec [] b v" "length (b @ r) < fuel"
  shows "struct_parse fuel con (Some (int (length x))) (BytesIO (x @ b @ r) q) =
    (Inr v, BytesIO (x @ b @ r) (length x + length b))"
proof -
  have "calm (start_state fuel t)" for t by (simp add: calm_def start_state_def)
  then obtain objs where "con_parse con (start_state fuel (BytesIO (x @ b @ r) (length x))) =
     (Inr v, (start_state fuel (BytesIO (x @ b @ r) (length x)))
        \<lparr>p_stream := BytesIO (x @ b @ r) (length x + length b), p_objs := objs\<rparr>)"
    using decode_law [of "start_state fuel (BytesIO (x @ b @ r) (length x))" b v x r] assms
    by (auto simp: start_state_def new_ctx_def)
  then show ?thesis by (simp add: struct_parse_def scatch_def sbind_apply parse_stream_def Let_def)
qed

lemma struct_parse_here:
  assumes "dec [] b v" "length (b @ r) < fuel"
  shows "struct_parse fuel con None (BytesIO (x @ b @ r) (length x)) =
    (Inr v, BytesIO (x @ b @ r) (length x + length b))"
  using struct_parse_decodes [OF assms, of x "length x"] by (simp add: struct_parse_def scatch_def sbind_apply Let_def)

text \<open>The same with a position instead of a prefix.\<close>

lemma parse_at:
  assumes "dec [] b v" "drop p d = b @ r" "length d < fuel" "p \<le> length d"
  shows "struct_parse fuel con (Some (int p)) (BytesIO d q) = (Inr v, BytesIO d (p + length b))"
    and "struct_parse fuel con None (BytesIO d p) = (Inr v, BytesIO d (p + length b))"
proof -
  have "take p d @ b @ r = d" using append_take_drop_id [of p d] assms(2) by simp
  moreover have "length (b @ r) < fuel" using assms(2,3) by (metis diff_le_self le_less_trans length_drop)
  ultimately show "struct_parse fuel con (Some (int p)) (BytesIO d q) = (Inr v, BytesIO d (p + length b))"
    "struct_parse fuel con None (BytesIO d p) = (Inr v, BytesIO d (p + length b))"
    using struct_parse_decodes [of b v r fuel "take p d" q] struct_parse_here [of b v r fuel "take p d"] assms(1,4)
    by simp_all
qed

end

sublocale codec \<subseteq> decoder con "\<lambda>vars b v. enc v = Some b"
  by unfold_locales (rule parse_law)

lemma decoder_codec: "codec c enc \<Longrightarrow> decoder c (\<lambda>vars b v. enc v = Some b)"
  by (simp add: codec_def decoder_def)

subsection \<open>Adapters, numbers and strings\<close>

lemma decoder_weaken: "decoder c dec \<Longrightarrow> (\<And>vars b v. dec' vars b v \<Longrightarrow> dec vars b v) \<Longrightarrow> decoder c dec'"
  by (simp add: decoder_def)

lemma decoder_rename: "decoder c dec \<Longrightarrow> decoder (Reconfig name c setf clearf) dec"
  by (simp add: decoder_def Reconfig_def)

definition adapted :: "decoding \<Rightarrow> (pyval \<Rightarrow> ctx \<Rightarrow> pyexc + pyval) \<Rightarrow> decoding" where
  "adapted dec f vars b w = (\<exists>v. dec vars b v \<and> (\<forall>c. c_vars c = vars \<longrightarrow> f v c = Inr w))"

lemma decoder_adapter: "decoder c dec \<Longrightarrow> decoder (PureAdapter c f e) (adapted dec f)"
  by (fastforce simp: decoder_def adapted_def PureAdapter_def Adapter_def sbind_apply pm_simps)

definition uleb_dec :: decoding where
  "uleb_dec vars b v = (leb_bytes b \<and> v = PInt (uleb_value b))"

definition sleb_dec :: decoding where
  "sleb_dec vars b v = (leb_bytes b \<and> v = PInt (sleb_value b))"

lemma decoder_uleb: "decoder (ULEB128 name) uleb_dec"
  and decoder_sleb: "decoder (SLEB128 name) sleb_dec"
proof -
  have objs: "\<exists>objs. s\<lparr>p_stream := t\<rparr> = s\<lparr>p_stream := t, p_objs := p_objs s @ objs\<rparr>" for s :: pstate and t
    by (rule exI [of _ "[]"]) simp
  show "decoder (ULEB128 name) uleb_dec"
    by unfold_locales (auto simp: uleb_dec_def uleb_run leb_prefix_bytes objs)
  show "decoder (SLEB128 name) sleb_dec"
    by unfold_locales (auto simp: sleb_dec_def sleb_run leb_prefix_bytes objs)
qed

interpretation uleb: decoder "ULEB128 name" uleb_dec for name
  by (rule decoder_uleb)

interpretation sleb: decoder "SLEB128 name" sleb_dec for name
  by (rule decoder_sleb)

definition cstring_dec :: decoding where
  "cstring_dec vars b v = (\<exists>t. CHR 0x00 \<notin> set t \<and> b = t @ [CHR 0x00] \<and> v = PStr t)"

lemma decoder_cstring: "decoder (cstring_default name) cstring_dec"
proof
  fix s :: pstate and b v x r
  assume s: "cstring_dec (c_vars (p_ctx s)) b v" "p_stream s = BytesIO (x @ b @ r) (length x)" "length (b @ r) < p_fuel s"
  obtain t where t: "CHR 0x00 \<notin> set t" "b = t @ [CHR 0x00]" "v = PStr t" using s(1) by (auto simp: cstring_dec_def)
  then have "takeWhile (\<lambda>c. c \<noteq> CHR 0x00) (b @ r) = t" by (auto simp: takeWhile_append)
  then have "con_parse (cstring_default name) s =
      (Inr v, s\<lparr>p_stream := BytesIO (x @ b @ r) (length x + length b), p_objs := p_objs s @ []\<rparr>)"
    using cstring_run [OF s(2), of name] s(3) t by simp
  then show "\<exists>objs. con_parse (cstring_default name) s =
      (Inr v, s\<lparr>p_stream := BytesIO (x @ b @ r) (length x + length b), p_objs := p_objs s @ objs\<rparr>)" by blast
qed

definition int_dec :: "endian \<Rightarrow> int_format \<Rightarrow> decoding" where
  "int_dec e f vars b v = (int_enc e f v = Some b)"

lemma decoder_int: "decoder (FormatField name e f) (int_dec e f)"
  using decoder_codec [OF codec_int] by (simp add: int_dec_def [abs_def])

subsection \<open>Conditionals\<close>

definition if_dec :: "(ctx \<Rightarrow> pyexc + bool) \<Rightarrow> decoding \<Rightarrow> pyval \<Rightarrow> decoding" where
  "if_dec pred dec w vars b v = (\<exists>q. (\<forall>c. c_vars c = vars \<longrightarrow> pred c = Inr q) \<and>
     (if q then dec vars b v else b = [] \<and> v = w))"

lemma switch_bool [simp]:
  "switch_case [(PBool True, a), (PBool False, c)] d (PBool q) = Inr (if q then a else c)"
  by (cases q) (simp_all add: switch_case_def py_lookup_def)

lemma if_decI:
  "(\<And>c. c_vars c = vars \<Longrightarrow> pred c = Inr q) \<Longrightarrow> (if q then dec vars b v else b = [] \<and> v = w) \<Longrightarrow>
    if_dec pred dec w vars b v"
  by (auto simp: if_dec_def)

lemma decoder_if:
  assumes "decoder c dec"
  shows "decoder (If pred c w) (if_dec pred dec w)"
proof
  fix s :: pstate and b v x r
  assume s: "if_dec pred dec w (c_vars (p_ctx s)) b v" "calm s" "p_stream s = BytesIO (x @ b @ r) (length x)" "length (b @ r) < p_fuel s"
  obtain q where q: "pred (p_ctx s) = Inr q" "if q then dec (c_vars (p_ctx s)) b v else b = [] \<and> v = w"
    using s(1) by (auto simp: if_dec_def)
  show "\<exists>objs. con_parse (If pred c w) s =
      (Inr v, s\<lparr>p_stream := BytesIO (x @ b @ r) (length x + length b), p_objs := p_objs s @ objs\<rparr>)"
  proof (cases q)
    case True
    then have "dec (c_vars (p_ctx s)) b v" using q by simp
    from decoder.decode_law [OF assms this s(2-4)] show ?thesis
      using True q by (auto simp: If_def IfThenElse_def Switch_def sbind_apply pm_simps)
  next
    case False
    then show ?thesis using q s(3)
      by (intro exI [of _ "[]"]) (simp add: If_def IfThenElse_def Switch_def Value_def sbind_apply pm_simps)
  qed
qed

subsection \<open>Structs\<close>

text \<open>The fields of a struct decode one after the other, each in the light of those before it.\<close>

type_synonym dfield = "construct \<times> decoding"

inductive fields_dec :: "dfield list \<Rightarrow> container \<Rightarrow> string \<Rightarrow> container \<Rightarrow> bool" where
  fields_Nil [simp]: "fields_dec [] kvs [] kvs"
| fields_Cons: "con_name c = Some n \<Longrightarrow> dec vars a v \<Longrightarrow> fields_dec fs (container_setitem vars n v) b kvs \<Longrightarrow>
    fields_dec ((c, dec) # fs) vars (a @ b) kvs"

inductive_cases fields_dec_NilE [elim!]: "fields_dec [] vars b kvs"
inductive_cases fields_dec_ConsE: "fields_dec (f # fs) vars b kvs"

inductive_simps fields_dec_simps: "fields_dec [] vars b kvs" "fields_dec ((c, dec) # fs) vars b kvs"

definition plain_decoder :: "dfield \<Rightarrow> bool" where
  "plain_decoder f = (decoder (fst f) (snd f) \<and> \<not> is_flag FLAG_EMBED (fst f))"

lemma struct_decode_fields:
  assumes "fields_dec fs vars b kvs" "\<forall>f\<in>set fs. plain_decoder f"
    and "calm s" "p_stream s = BytesIO (x @ b @ r) (length x)" "length (b @ r) < p_fuel s"
    and "a < length (p_objs s)" "p_objs s ! a = PObj vars" "c_vars (p_ctx s) = vars"
  shows "\<exists>c objs. struct_parse_loop (obj_setitem a) a (map fst fs) s =
     (Inr (), s\<lparr>p_stream := BytesIO (x @ b @ r) (length x + length b), p_ctx := c,
                p_objs := (p_objs s)[a := PObj kvs] @ objs\<rparr>) \<and>
     c_vars c = kvs \<and> c_obj c = None \<and> \<not> c_unnested c"
  using assms
proof (induction arbitrary: s x rule: fields_dec.induct)
  case (fields_Nil kvs)
  then have "(p_objs s)[a := PObj kvs] = p_objs s" by (metis list_update_id)
  with fields_Nil show ?case by (auto simp: calm_def intro!: exI [of _ "p_ctx s"] exI [of _ "[]"])
next
  case (fields_Cons c n dec vars e v fs b kvs)
  have c: "decoder c dec" "\<not> is_flag FLAG_EMBED c" using fields_Cons.prems(1) by (simp_all add: plain_decoder_def)
  obtain o1 where run: "con_parse c s =
      (Inr v, s\<lparr>p_stream := BytesIO (x @ e @ b @ r) (length x + length e), p_objs := p_objs s @ o1\<rparr>)"
    using decoder.decode_law [OF c(1), of s e v x "b @ r"] fields_Cons.hyps(2) fields_Cons.prems by auto
  let ?s2 = "s\<lparr>p_stream := BytesIO ((x @ e) @ b @ r) (length (x @ e)),
       p_objs := (p_objs s @ o1)[a := PObj (container_setitem vars n v)], p_ctx := ctx_set n v (p_ctx s)\<rparr>"
  have 1: "(p_objs s @ o1) ! a = PObj vars" "a < length (p_objs s @ o1)" using fields_Cons.prems by (simp_all add: nth_append)
  have "calm ?s2" using fields_Cons.prems(2) by (simp add: calm_def)
  moreover have "c_vars (p_ctx ?s2) = container_setitem vars n v" using fields_Cons.prems(7) by (simp add: ctx_set_def)
  moreover have "a < length (p_objs ?s2)" "p_objs ?s2 ! a = PObj (container_setitem vars n v)" using 1 by simp_all
  moreover have "length (b @ r) < p_fuel ?s2" using fields_Cons.prems(4) by simp
  ultimately obtain c' objs where "struct_parse_loop (obj_setitem a) a (map fst fs) ?s2 =
     (Inr (), ?s2\<lparr>p_stream := BytesIO ((x @ e) @ b @ r) (length (x @ e) + length b), p_ctx := c',
                p_objs := (p_objs ?s2)[a := PObj kvs] @ objs\<rparr>)" "c_vars c' = kvs" "c_obj c' = None" "\<not> c_unnested c'"
    using fields_Cons.IH [of ?s2 "x @ e"] fields_Cons.prems(1) by auto
  then show ?case using c(2) 1 fields_Cons.hyps(1) fields_Cons.prems(5)
    by (auto simp: sbind_apply pm_simps run add.assoc list_update_append)
qed

definition struct_dec :: "dfield list \<Rightarrow> decoding" where
  "struct_dec fs vars b v = (\<exists>kvs. v = PObj kvs \<and> fields_dec fs [] b kvs)"

lemma decoder_struct:
  assumes "\<forall>f\<in>set fs. plain_decoder f"
  shows "decoder (Struct name True (map fst fs)) (struct_dec fs)"
proof
  fix s :: pstate and b v x r
  assume s: "struct_dec fs (c_vars (p_ctx s)) b v" "calm s" "p_stream s = BytesIO (x @ b @ r) (length x)" "length (b @ r) < p_fuel s"
  then obtain kvs where v: "v = PObj kvs" "fields_dec fs [] b kvs" by (auto simp: struct_dec_def)
  let ?s1 = "s\<lparr>p_objs := p_objs s @ [PObj []], p_ctx := child_ctx (p_ctx s)\<rparr>"
  obtain c objs where "struct_parse_loop (obj_setitem (length (p_objs s))) (length (p_objs s)) (map fst fs) ?s1 =
     (Inr (), ?s1\<lparr>p_stream := BytesIO (x @ b @ r) (length x + length b), p_ctx := c,
                p_objs := (p_objs ?s1)[length (p_objs s) := PObj kvs] @ objs\<rparr>)"
    using struct_decode_fields [OF v(2) assms, of ?s1 x r "length (p_objs s)"] s
    by (auto simp: calm_def child_ctx_def)
  then show "\<exists>objs. con_parse (Struct name True (map fst fs)) s =
      (Inr v, s\<lparr>p_stream := BytesIO (x @ b @ r) (length x + length b), p_objs := p_objs s @ objs\<rparr>)"
    using s(2) v by (auto simp: Struct_def with_object_def calm_def sbind_apply pm_simps nth_append)
qed

subsection \<open>Repetition\<close>

text \<open>
  Elements up to one that ends the list, which is dropped. Every element takes a byte, so that
  fuel for the bytes is fuel for the elements.
\<close>

inductive until_dec :: "(pyval \<Rightarrow> pyexc + bool) \<Rightarrow> decoding \<Rightarrow> container \<Rightarrow> string \<Rightarrow> pyval list \<Rightarrow> bool" where
  until_stop: "dec vars b v \<Longrightarrow> b \<noteq> [] \<Longrightarrow> stop v = Inr True \<Longrightarrow> until_dec stop dec vars b []"
| until_more: "dec vars a v \<Longrightarrow> a \<noteq> [] \<Longrightarrow> stop v = Inr False \<Longrightarrow> until_dec stop dec vars b vs \<Longrightarrow>
    until_dec stop dec vars (a @ b) (v # vs)"

definition list_dec :: "(pyval \<Rightarrow> pyexc + bool) \<Rightarrow> decoding \<Rightarrow> decoding" where
  "list_dec stop dec vars b v = (\<exists>vs. v = PList vs \<and> until_dec stop dec vars b vs)"

lemma excluding_decode:
  assumes "until_dec stop dec vars b vs" "decoder c dec"
    and "calm s" "p_stream s = BytesIO (x @ b @ r) (length x)" "length (b @ r) < p_fuel s" "c_vars (p_ctx s) = vars"
    and "length b \<le> k"
  shows "\<exists>objs. excluding_loop_own k (con_parse c) (\<lambda>v x. stop v) acc s =
        (Inr (acc @ vs), s\<lparr>p_stream := BytesIO (x @ b @ r) (length x + length b), p_objs := p_objs s @ objs\<rparr>) \<and>
      excluding_loop k (con_parse c) (\<lambda>v x. stop v) ctx acc s =
        (Inr (acc @ vs), s\<lparr>p_stream := BytesIO (x @ b @ r) (length x + length b), p_objs := p_objs s @ objs\<rparr>)"
  using assms
proof (induction arbitrary: s x acc k rule: until_dec.induct)
  case (until_stop dec vars b v stop)
  then obtain k' where k: "k = Suc k'" by (cases k) auto
  obtain objs where "con_parse c s =
      (Inr v, s\<lparr>p_stream := BytesIO (x @ b @ r) (length x + length b), p_objs := p_objs s @ objs\<rparr>)"
    using decoder.decode_law [OF until_stop.prems(1), of s b v x r] until_stop by auto
  then show ?case using until_stop.hyps(3) by (intro exI [of _ objs]) (simp add: k sbind_apply pm_simps)
next
  case (until_more dec vars e v stop b vs)
  then obtain k' where k: "k = Suc k'" by (cases k) auto
  obtain o1 where run: "con_parse c s =
      (Inr v, s\<lparr>p_stream := BytesIO (x @ e @ b @ r) (length x + length e), p_objs := p_objs s @ o1\<rparr>)"
    using decoder.decode_law [OF until_more.prems(1), of s e v x "b @ r"] until_more.hyps(1) until_more.prems by auto
  let ?s1 = "s\<lparr>p_stream := BytesIO ((x @ e) @ b @ r) (length (x @ e)), p_objs := p_objs s @ o1\<rparr>"
  have "length b \<le> k'" using until_more.prems(6) until_more.hyps(2) k by (cases e) auto
  then obtain objs where
    "excluding_loop_own k' (con_parse c) (\<lambda>v x. stop v) (acc @ [v]) ?s1 = (Inr ((acc @ [v]) @ vs),
       ?s1\<lparr>p_stream := BytesIO ((x @ e) @ b @ r) (length (x @ e) + length b), p_objs := p_objs ?s1 @ objs\<rparr>)"
    "excluding_loop k' (con_parse c) (\<lambda>v x. stop v) ctx (acc @ [v]) ?s1 = (Inr ((acc @ [v]) @ vs),
       ?s1\<lparr>p_stream := BytesIO ((x @ e) @ b @ r) (length (x @ e) + length b), p_objs := p_objs ?s1 @ objs\<rparr>)"
    using until_more.IH [of ?s1 "x @ e" k' "acc @ [v]"] until_more.prems by auto
  then show ?case using until_more.hyps(3) run
    by (intro exI [of _ "o1 @ objs"]) (simp add: k sbind_apply pm_simps add.assoc)
qed

lemma decoder_until:
  assumes "decoder c dec"
  shows "decoder (RepeatUntilExcluding (\<lambda>v x. stop v) c) (list_dec stop dec)"
proof
  fix s :: pstate and b v x r
  assume s: "list_dec stop dec (c_vars (p_ctx s)) b v" "calm s" "p_stream s = BytesIO (x @ b @ r) (length x)" "length (b @ r) < p_fuel s"
  then obtain vs where v: "v = PList vs" "until_dec stop dec (c_vars (p_ctx s)) b vs" by (auto simp: list_dec_def)
  from excluding_decode [OF v(2) assms s(2-4) refl, of "p_fuel s" "[]" "p_ctx s"] s(4) v(1)
  show "\<exists>objs. con_parse (RepeatUntilExcluding (\<lambda>v x. stop v) c) s =
      (Inr v, s\<lparr>p_stream := BytesIO (x @ b @ r) (length x + length b), p_objs := p_objs s @ objs\<rparr>)"
    by (auto simp: RepeatUntilExcluding_def scatch_def sbind_apply pm_simps)
qed

subsection \<open>Arrays and enumerations\<close>

definition counted_dec :: "(ctx \<Rightarrow> pyexc + int) \<Rightarrow> decoding \<Rightarrow> decoding" where
  "counted_dec countfunc dec vars b v = (\<exists>bs vs n. b = concat bs \<and> v = PList vs \<and> length vs = nat n \<and>
     (\<forall>c. c_vars c = vars \<longrightarrow> countfunc c = Inr n) \<and> list_all2 (dec vars) bs vs)"

lemma meta_array_decode:
  assumes "list_all2 (dec vars) bs vs" "decoder c dec"
    and "calm s" "p_stream s = BytesIO (x @ concat bs @ r) (length x)" "length (concat bs @ r) < p_fuel s" "c_vars (p_ctx s) = vars"
  shows "\<exists>objs. meta_array_loop (iteration c (con_parse c)) (length vs) acc s = (Inr (acc @ vs),
     s\<lparr>p_stream := BytesIO (x @ concat bs @ r) (length x + length (concat bs)), p_objs := p_objs s @ objs\<rparr>)"
  using assms
proof (induction arbitrary: s x acc rule: list_all2_induct)
  case Nil
  then show ?case by (intro exI [of _ "[]"]) simp
next
  case (Cons b bs v vs)
  obtain o1 where "con_parse c s =
      (Inr v, s\<lparr>p_stream := BytesIO (x @ b @ concat bs @ r) (length x + length b), p_objs := p_objs s @ o1\<rparr>)"
    using decoder.decode_law [OF Cons.prems(1), of s b v x "concat bs @ r"] Cons.hyps(1) Cons.prems by auto
  then have 1: "iteration c (con_parse c) s =
      (Inr v, s\<lparr>p_stream := BytesIO ((x @ b) @ concat bs @ r) (length (x @ b)), p_objs := p_objs s @ o1\<rparr>)"
    by (simp add: iteration_def pm_simps)
  let ?s1 = "s\<lparr>p_stream := BytesIO ((x @ b) @ concat bs @ r) (length (x @ b)), p_objs := p_objs s @ o1\<rparr>"
  obtain o2 where "meta_array_loop (iteration c (con_parse c)) (length vs) (acc @ [v]) ?s1 =
     (Inr ((acc @ [v]) @ vs), ?s1\<lparr>p_stream := BytesIO ((x @ b) @ concat bs @ r) (length (x @ b) + length (concat bs)),
        p_objs := p_objs ?s1 @ o2\<rparr>)"
    using Cons.IH [of ?s1 "x @ b" "acc @ [v]"] Cons.prems by (auto simp: calm_def)
  then show ?case using 1 by (auto simp: sbind_apply add.assoc)
qed

lemma decoder_counted:
  assumes "decoder c dec"
  shows "decoder (MetaArray countfunc c) (counted_dec countfunc dec)"
proof
  fix s :: pstate and b v x r
  assume s: "counted_dec countfunc dec (c_vars (p_ctx s)) b v" "calm s" "p_stream s = BytesIO (x @ b @ r) (length x)" "length (b @ r) < p_fuel s"
  then obtain bs vs n where v: "b = concat bs" "v = PList vs" "length vs = nat n" "countfunc (p_ctx s) = Inr n"
    "list_all2 (dec (c_vars (p_ctx s))) bs vs" by (auto simp: counted_dec_def)
  from meta_array_decode [OF v(5) assms s(2), of x r "[]"] s(3,4) v
  show "\<exists>objs. con_parse (MetaArray countfunc c) s =
      (Inr v, s\<lparr>p_stream := BytesIO (x @ b @ r) (length x + length b), p_objs := p_objs s @ objs\<rparr>)"
    by (auto simp: MetaArray_def sbind_apply pm_simps scatch_def)
qed

definition enum_value :: "enum_map \<Rightarrow> pyval \<Rightarrow> pyexc + pyval" where
  "enum_value kw v = map_value (reverse_mapping (map (\<lambda>(k, v). (PStr k, PInt v)) (fst kw))) (snd kw) v"

text \<open>Of several names of one number the last one is decoded.\<close>

definition int_keys :: "(pyval \<times> 'a) list \<Rightarrow> bool" where
  "int_keys m = (\<forall>k\<in>fst ` set m. \<exists>i. k = PInt i)"

lemma int_keys_simps [simp]: "int_keys []" "int_keys (dict_set (PInt c) w m) = int_keys m"
  by (auto simp: int_keys_def)

lemma py_find_dict_set:
  "int_keys m \<Longrightarrow> py_find (dict_set (PInt c) w m) (PInt d) = (if d = c then Some w else py_find m (PInt d))"
  by (induction m) (auto simp: int_keys_def)

lemma reverse_mapping_find:
  "int_keys m \<Longrightarrow> py_find (foldl (\<lambda>d (k, v). dict_set v k d) m (map (\<lambda>(k, v). (PStr k, PInt v)) kws)) (PInt i) =
      (case map_of (rev (map (\<lambda>(k, v). (v, k)) kws)) i of Some k \<Rightarrow> Some (PStr k) | None \<Rightarrow> py_find m (PInt i))"
proof (induction kws arbitrary: m)
  case (Cons e kws)
  obtain k v where e: "e = (k, v)" by (cases e)
  show ?case using Cons by (simp add: e py_find_dict_set map_add_def split: option.split)
qed simp

lemma enum_value_find:
  "enum_value kw (PInt i) = (case map_of (rev (map (\<lambda>(k, v). (v, k)) (fst kw))) i of Some k \<Rightarrow> Inr (PStr k)
     | None \<Rightarrow> (case snd kw of NoMapping \<Rightarrow> Inl MappingError | PassUnmapped \<Rightarrow> Inr (PInt i) | MapTo v \<Rightarrow> Inr v))"
proof -
  have "py_find (reverse_mapping (map (\<lambda>(k, v). (PStr k, PInt v)) (fst kw))) (PInt i) =
      (case map_of (rev (map (\<lambda>(k, v). (v, k)) (fst kw))) i of Some k \<Rightarrow> Some (PStr k) | None \<Rightarrow> None)"
    using reverse_mapping_find [of "[]" "fst kw" i] by (simp add: reverse_mapping_def split: option.splits)
  then show ?thesis by (simp add: enum_value_def map_value_def py_lookup_def split: option.split)
qed

definition enum_dec :: "enum_map \<Rightarrow> decoding \<Rightarrow> decoding" where
  "enum_dec kw dec vars b w = (\<exists>v. dec vars b v \<and> enum_value kw v = Inr w)"

lemma decoder_enum: "decoder c dec \<Longrightarrow> decoder (EnumOf c kw) (enum_dec kw dec)"
  unfolding EnumOf_def Enum_def SymmetricMapping_def MappingAdapter_def
  by (rule decoder_weaken, erule decoder_adapter) (auto simp: adapted_def enum_dec_def enum_value_def)

subsection \<open>The headers\<close>

definition dwarf_endian :: "dwarf_structs \<Rightarrow> endian" where
  "dwarf_endian S = (if ds_little_endian S then Little else Big)"

definition offset_format :: "dwarf_structs \<Rightarrow> int_format" where
  "offset_format S = (if ds_dwarf_format S = 32 then Fmt_L else Fmt_Q)"

definition target_format :: "dwarf_structs \<Rightarrow> int_format" where
  "target_format S = (if ds_address_size S = 4 then Fmt_L else Fmt_Q)"

abbreviation num_dec :: "dwarf_structs \<Rightarrow> int_format \<Rightarrow> decoding" where
  "num_dec S f \<equiv> int_dec (dwarf_endian S) f"

lemma dwarf_formats:
  "Dwarf_uint8 S n = FormatField n (dwarf_endian S) Fmt_B" "Dwarf_uint16 S n = FormatField n (dwarf_endian S) Fmt_H"
  "Dwarf_uint32 S n = FormatField n (dwarf_endian S) Fmt_L" "Dwarf_uint64 S n = FormatField n (dwarf_endian S) Fmt_Q"
  "Dwarf_int8 S n = FormatField n (dwarf_endian S) Fmt_b" "Dwarf_int16 S n = FormatField n (dwarf_endian S) Fmt_h"
  "Dwarf_int32 S n = FormatField n (dwarf_endian S) Fmt_l" "Dwarf_int64 S n = FormatField n (dwarf_endian S) Fmt_q"
  "Dwarf_offset S n = FormatField n (dwarf_endian S) (offset_format S)"
  "Dwarf_target_addr S n = FormatField n (dwarf_endian S) (target_format S)"
  by (simp_all add: dwarf_fields int_fields dwarf_endian_def offset_format_def target_format_def)

lemmas dwarf_leb = Dwarf_uleb128_def Dwarf_sleb128_def

text \<open>The initial length is four bytes, or the escape and eight bytes.\<close>

definition length_dec :: "dwarf_structs \<Rightarrow> decoding" where
  "length_dec S vars b v = (\<exists>n. v = PInt n \<and>
     (n < 0xFFFFFF00 \<and> num_dec S Fmt_L vars b v \<or>
      (\<exists>a c. b = a @ c \<and> num_dec S Fmt_L vars a (PInt 0xFFFFFFFF) \<and> num_dec S Fmt_Q vars c v)))"

lemma plain_format [simp]: "\<not> is_flag FLAG_EMBED (FormatField n e f)"
  by (simp add: is_flag_def FormatField_def StaticField_def)

lemma name_format [simp]: "con_name (FormatField n e f) = n"
  by (simp add: FormatField_def StaticField_def)

lemma inherit_flags_bit: "bit (conflags (inherit_flags scs c)) k \<longleftrightarrow> bit (conflags c) k \<or> (\<exists>sc\<in>set scs. bit (conflags sc) k)"
  by (induction scs arbitrary: c) (auto simp: inherit_flags_def set_flag_def bit_or_iff)

lemma is_flag_if: "is_flag FLAG_EMBED (If p c v) = is_flag FLAG_EMBED c"
  by (auto simp: is_flag_embed If_def IfThenElse_def Switch_def Value_def set_flag_def FLAG_DYNAMIC_def bit_or_iff
      inherit_flags_bit bit_simps)

lemma name_if [simp]: "con_name (If p c v) = con_name c"
  by (simp add: If_def IfThenElse_def Switch_def)

definition length_fields :: "dwarf_structs \<Rightarrow> dfield list" where
  "length_fields S = (let pred = (\<lambda>c. ebind (ctx_attr ''first'' c) (\<lambda>v. Inr (py_eq v (PInt 0xFFFFFFFF)))) in
     [(FormatField (Some ''first'') (dwarf_endian S) Fmt_L, num_dec S Fmt_L),
      (If pred (FormatField (Some ''second'') (dwarf_endian S) Fmt_Q) PNone, if_dec pred (num_dec S Fmt_Q) PNone)])"

lemma length_fields_con: "map fst (length_fields S) =
    [FormatField (Some ''first'') (dwarf_endian S) Fmt_L,
     If (\<lambda>c. ebind (ctx_attr ''first'' c) (\<lambda>v. Inr (py_eq v (PInt 0xFFFFFFFF))))
       (FormatField (Some ''second'') (dwarf_endian S) Fmt_Q) PNone]"
  by (simp add: length_fields_def Let_def)

lemma fields_Nil': "kvs = vars \<Longrightarrow> fields_dec [] vars [] kvs"
  by simp

lemma length_fields_dec:
  "num_dec S Fmt_L [] a (PInt n) \<Longrightarrow> n \<noteq> 0xFFFFFFFF \<Longrightarrow>
     fields_dec (length_fields S) [] (a @ [] @ []) [(''first'', PInt n), (''second'', PNone)]"
  "num_dec S Fmt_L [] a (PInt 0xFFFFFFFF) \<Longrightarrow> num_dec S Fmt_Q [] b v \<Longrightarrow>
     fields_dec (length_fields S) [] (a @ b @ []) [(''first'', PInt 0xFFFFFFFF), (''second'', v)]"
  unfolding length_fields_def Let_def
  by (rule fields_Cons, simp, assumption, rule fields_Cons, simp, rule if_decI [where q = False],
      simp add: ctx_attr_def container_setitem_def, simp, simp add: container_setitem_def,
      rule fields_Cons, simp, assumption, rule fields_Cons, simp, rule if_decI [where q = True],
      simp add: ctx_attr_def container_setitem_def, simp add: int_dec_def, simp add: container_setitem_def)

lemma decoder_initial_length: "decoder (Dwarf_initial_length S name) (length_dec S)"
proof -
  let ?d = "\<lambda>obj (c::ctx). ebind (attr_int obj ''first'') (\<lambda>n. if n < 0xFFFFFF00 then Inr (PInt n)
       else if n = 0xFFFFFFFF then get_attr obj ''second'' else Inl ConstructError)"
  have "\<forall>f\<in>set (length_fields S). plain_decoder f"
    by (simp add: plain_decoder_def decoder_int decoder_if is_flag_if length_fields_def Let_def)
  from decoder_adapter [OF decoder_struct [OF this], of name ?d]
  have "decoder (Dwarf_initial_length S name) (adapted (struct_dec (length_fields S)) ?d)"
    by (simp add: Dwarf_initial_length_def InitialLength_def InitialLengthAdapter_def DecodeAdapter_def dwarf_formats
        length_fields_con)
  then show ?thesis
  proof (rule decoder_weaken)
    fix vars b v
    assume "length_dec S vars b v"
    then obtain n where n: "v = PInt n" and "n < 0xFFFFFF00 \<and> num_dec S Fmt_L [] b v \<or>
      (\<exists>a c. b = a @ c \<and> num_dec S Fmt_L [] a (PInt 0xFFFFFFFF) \<and> num_dec S Fmt_Q [] c v)"
      by (auto simp: length_dec_def int_dec_def)
    then show "adapted (struct_dec (length_fields S)) ?d vars b v"
    proof (elim disjE conjE exE)
      assume "n < 0xFFFFFF00" "num_dec S Fmt_L [] b v"
      then show ?thesis using length_fields_dec(1) [of S b n] n
        by (auto simp: adapted_def struct_dec_def attr_int_def intro!: exI [of _ "PObj [(''first'', PInt n), (''second'', PNone)]"])
    next
      fix a c
      assume "b = a @ c" "num_dec S Fmt_L [] a (PInt 0xFFFFFFFF)" "num_dec S Fmt_Q [] c v"
      then show ?thesis using length_fields_dec(2) [of S a c v] n
        by (auto simp: adapted_def struct_dec_def attr_int_def
            intro!: exI [of _ "PObj [(''first'', PInt 0xFFFFFFFF), (''second'', v)]"])
    qed
  qed
qed

text \<open>No construct of a header is embedded.\<close>

lemma plain_dwarf [simp]:
  "\<not> is_flag FLAG_EMBED (Struct name nested scs)"
  "\<not> is_flag FLAG_EMBED (Dwarf_initial_length S name)"
  "\<not> is_flag FLAG_EMBED (ULEB128 name)" "\<not> is_flag FLAG_EMBED (SLEB128 name)"
  "\<not> is_flag FLAG_EMBED (cstring_default name)"
  "is_flag FLAG_EMBED (EnumOf c kw) = is_flag FLAG_EMBED c"
  "is_flag FLAG_EMBED (RepeatUntilExcluding p c) = is_flag FLAG_EMBED c"
  "is_flag FLAG_EMBED (MetaArray n c) = is_flag FLAG_EMBED c"
  unfolding is_flag_embed
  by (simp_all add: Struct_def Dwarf_initial_length_def InitialLength_def InitialLengthAdapter_def DecodeAdapter_def
      PureAdapter_def Adapter_def ULEB128_def SLEB128_def Rename_def Reconfig_def LEB128_reader_def RepeatUntil_def
      cstring_default_def CString_def CStringAdapter_def Field_def StaticField_def EnumOf_def Enum_def SymmetricMapping_def
      MappingAdapter_def RepeatUntilExcluding_def MetaArray_def set_flag_def clear_flag_def FLAG_EMBED_def FLAG_DYNAMIC_def
      FLAG_COPY_CONTEXT_def bit_simps)

lemma names_dwarf [simp]:
  "con_name (Struct name nested scs) = name" "con_name (Dwarf_initial_length S name) = name"
  "con_name (ULEB128 name) = name" "con_name (SLEB128 name) = name" "con_name (cstring_default name) = name"
  "con_name (EnumOf c kw) = con_name c" "con_name (RepeatUntilExcluding p c) = con_name c"
  "con_name (MetaArray n c) = con_name c"
  by (simp_all add: Struct_def Dwarf_initial_length_def InitialLength_def InitialLengthAdapter_def DecodeAdapter_def
      PureAdapter_def Adapter_def ULEB128_def SLEB128_def Rename_def Reconfig_def cstring_default_def CString_def
      EnumOf_def Enum_def SymmetricMapping_def MappingAdapter_def RepeatUntilExcluding_def MetaArray_def)

lemmas dwarf_decoders = decoder_int decoder_initial_length decoder_uleb decoder_sleb decoder_cstring
  decoder_enum decoder_until decoder_counted decoder_if

definition num_field :: "dwarf_structs \<Rightarrow> string \<Rightarrow> int_format \<Rightarrow> dfield" where
  "num_field S n f = (FormatField (Some n) (dwarf_endian S) f, num_dec S f)"

definition length_field :: "dwarf_structs \<Rightarrow> string \<Rightarrow> dfield" where
  "length_field S n = (Dwarf_initial_length S (Some n), length_dec S)"

definition uleb_field :: "string \<Rightarrow> dfield" where
  "uleb_field n = (ULEB128 (Some n), uleb_dec)"

definition sleb_field :: "string \<Rightarrow> dfield" where
  "sleb_field n = (SLEB128 (Some n), sleb_dec)"

definition cstring_field :: "string \<Rightarrow> dfield" where
  "cstring_field n = (cstring_default (Some n), cstring_dec)"

definition enum_field :: "dfield \<Rightarrow> enum_map \<Rightarrow> dfield" where
  "enum_field f kw = (EnumOf (fst f) kw, enum_dec kw (snd f))"

lemmas dfields = num_field_def length_field_def uleb_field_def sleb_field_def cstring_field_def enum_field_def

lemma plain_fields [simp]:
  "plain_decoder (num_field S n f)" "plain_decoder (length_field S n)" "plain_decoder (uleb_field n)"
  "plain_decoder (sleb_field n)" "plain_decoder (cstring_field n)"
  "plain_decoder d \<Longrightarrow> plain_decoder (enum_field d kw)"
  by (simp_all add: plain_decoder_def dfields dwarf_decoders)

definition CU_fields :: "dwarf_structs \<Rightarrow> dfield list" where
  "CU_fields S = [length_field S ''unit_length'', num_field S ''version'' Fmt_H,
     num_field S ''debug_abbrev_offset'' (offset_format S), num_field S ''address_size'' Fmt_B]"

definition CIE_fields :: "dwarf_structs \<Rightarrow> dfield list" where
  "CIE_fields S = [length_field S ''length'', num_field S ''CIE_id'' (offset_format S), num_field S ''version'' Fmt_B,
     cstring_field ''augmentation'', uleb_field ''code_alignment_factor'', sleb_field ''data_alignment_factor'',
     uleb_field ''return_address_register'']"

definition FDE_fields :: "dwarf_structs \<Rightarrow> dfield list" where
  "FDE_fields S = [length_field S ''length'', num_field S ''CIE_pointer'' (offset_format S),
     num_field S ''initial_location'' (target_format S), num_field S ''address_range'' (target_format S)]"

definition attr_spec_fields :: "dfield list" where
  "attr_spec_fields = [enum_field (uleb_field ''name'') ENUM_DW_AT, enum_field (uleb_field ''form'') ENUM_DW_FORM]"

definition null_attr_spec :: "pyval \<Rightarrow> pyexc + bool" where
  "null_attr_spec obj = ebind (get_attr obj ''name'') (\<lambda>n.
     if py_eq n (PStr ''DW_AT_null'') then
       ebind (get_attr obj ''form'') (\<lambda>f. Inr (py_eq f (PStr ''DW_FORM_null'')))
     else Inr False)"

definition abbrev_fields :: "dwarf_structs \<Rightarrow> dfield list" where
  "abbrev_fields S = [enum_field (uleb_field ''tag'') ENUM_DW_TAG, enum_field (num_field S ''children_flag'' Fmt_B) ENUM_DW_CHILDREN,
     (RepeatUntilExcluding (\<lambda>v x. null_attr_spec v) (Struct (Some ''attr_spec'') True (map fst attr_spec_fields)),
      list_dec null_attr_spec (struct_dec attr_spec_fields))]"

lemma header_structs:
  "Dwarf_CU_header S = Struct (Some ''Dwarf_CU_header'') True (map fst (CU_fields S))"
  "Dwarf_CIE_header S = Struct (Some ''Dwarf_CIE_header'') True (map fst (CIE_fields S))"
  "Dwarf_FDE_header S = Struct (Some ''Dwarf_FDE_header'') True (map fst (FDE_fields S))"
  "Dwarf_abbrev_declaration S = Struct (Some ''Dwarf_abbrev_entry'') True (map fst (abbrev_fields S))"
  by (simp_all add: Dwarf_CU_header_def Dwarf_CIE_header_def Dwarf_FDE_header_def Dwarf_abbrev_declaration_def
      CU_fields_def CIE_fields_def FDE_fields_def abbrev_fields_def attr_spec_fields_def null_attr_spec_def
      dfields dwarf_formats dwarf_leb)

lemma plain_headers:
  "\<forall>f\<in>set (CU_fields S). plain_decoder f" "\<forall>f\<in>set (CIE_fields S). plain_decoder f"
  "\<forall>f\<in>set (FDE_fields S). plain_decoder f" "\<forall>f\<in>set (abbrev_fields S). plain_decoder f"
  "\<forall>f\<in>set attr_spec_fields. plain_decoder f"
proof -
  show a: "\<forall>f\<in>set attr_spec_fields. plain_decoder f" by (simp add: attr_spec_fields_def)
  show "\<forall>f\<in>set (abbrev_fields S). plain_decoder f"
    using decoder_until [OF decoder_struct [OF a]] by (simp add: abbrev_fields_def plain_decoder_def [of "(_, _)"])
qed (simp_all add: CU_fields_def CIE_fields_def FDE_fields_def)

interpretation CU_header: decoder "Dwarf_CU_header S" "struct_dec (CU_fields S)" for S
  unfolding header_structs by (rule decoder_struct [OF plain_headers(1)])

interpretation CIE_header: decoder "Dwarf_CIE_header S" "struct_dec (CIE_fields S)" for S
  unfolding header_structs by (rule decoder_struct [OF plain_headers(2)])

interpretation FDE_header: decoder "Dwarf_FDE_header S" "struct_dec (FDE_fields S)" for S
  unfolding header_structs by (rule decoder_struct [OF plain_headers(3)])

interpretation abbrev_declaration: decoder "Dwarf_abbrev_declaration S" "struct_dec (abbrev_fields S)" for S
  unfolding header_structs by (rule decoder_struct [OF plain_headers(4)])

subsection \<open>The header of a line program\<close>

text \<open>A file entry is its name and, unless that is empty, three numbers, which the embedded struct adds to it.\<close>

definition file_numbers :: "dfield list" where
  "file_numbers = [uleb_field ''dir_index'', uleb_field ''mtime'', uleb_field ''length'']"

definition file_dec :: decoding where
  "file_dec vars b v = (\<exists>t c kvs. CHR 0x00 \<notin> set t \<and> b = t @ CHR 0x00 # c \<and> v = PObj kvs \<and>
     (if t = [] then c = [] \<and> kvs = [(''name'', PStr [])] else fields_dec file_numbers [(''name'', PStr t)] c kvs))"

lemma embedded_if:
  assumes "c_vars (p_ctx s) = [(''name'', PStr t)]"
  shows "con_parse (If (\<lambda>c. ebind (ctx_len ''name'' c) (\<lambda>n. Inr (n \<noteq> 0))) (Embedded c) w) s =
    (if t = [] then (Inr w, s) else con_parse c s)"
  using assms by (simp add: If_def IfThenElse_def Switch_def Value_def Embedded_def Reconfig_def ctx_len_def ctx_attr_def
      sbind_apply pm_simps split: prod.splits sum.splits)

lemma is_flag_embedded: "is_flag FLAG_EMBED (If p (Embedded c) w)"
  unfolding is_flag_if unfolding is_flag_embed
  by (simp add: Embedded_def Reconfig_def set_flag_def clear_flag_def FLAG_EMBED_def bit_simps)

lemma struct_taken_over:
  "c_obj (p_ctx s) = Some a \<Longrightarrow> con_parse (Struct name nested scs) s =
    sbind (modify_ctx (set_obj None)) (\<lambda>_. sbind (struct_parse_loop (obj_setitem a) a scs) (\<lambda>_. read_obj a)) s"
  by (simp add: Struct_def with_object_def)

lemma struct_fresh:
  "c_obj (p_ctx s) = None \<Longrightarrow> con_parse (Struct name True scs) s =
    sbind (in_ctx child_ctx (struct_parse_loop (obj_setitem (length (p_objs s))) (length (p_objs s)) scs))
      (\<lambda>_. read_obj (length (p_objs s))) (s\<lparr>p_objs := p_objs s @ [PObj []]\<rparr>)"
  by (simp add: Struct_def with_object_def) (subst sbind_Inr, rule state_apply, simp)

lemma decoder_file_entry: "decoder (Dwarf_lineprog_file_entry S) file_dec"
proof
  fix s :: pstate and b v x r
  assume s: "file_dec (c_vars (p_ctx s)) b v" "calm s" "p_stream s = BytesIO (x @ b @ r) (length x)" "length (b @ r) < p_fuel s"
  obtain t c kvs where t: "CHR 0x00 \<notin> set t" "b = t @ CHR 0x00 # c" "v = PObj kvs"
    "if t = [] then c = [] \<and> kvs = [(''name'', PStr [])] else fields_dec file_numbers [(''name'', PStr t)] c kvs"
    using s(1) by (auto simp: file_dec_def)
  let ?a = "length (p_objs s)"
  let ?s1 = "s\<lparr>p_objs := p_objs s @ [PObj []], p_ctx := child_ctx (p_ctx s)\<rparr>"
  let ?ctx = "set_obj (Some ?a) (ctx_set ''name'' (PStr t) (child_ctx (p_ctx s)))"
  let ?st = "BytesIO ((x @ t @ [CHR 0x00]) @ c @ r) (length (x @ t @ [CHR 0x00]))"
  let ?s2 = "s\<lparr>p_stream := ?st, p_objs := p_objs s @ [PObj [(''name'', PStr t)]], p_ctx := ?ctx\<rparr>"
  have vars: "c_vars ?ctx = [(''name'', PStr t)]" "c_obj ?ctx = Some ?a"
    by (simp_all add: set_obj_def ctx_set_def child_ctx_def container_setitem_def)
  have "takeWhile (\<lambda>c. c \<noteq> CHR 0x00) (drop (length x) (x @ b @ r)) = t" using t(1,2) by (simp add: takeWhile_append)
  then have name: "con_parse (cstring_default (Some ''name'')) ?s1 = (Inr (PStr t), ?s1\<lparr>p_stream := ?st\<rparr>)"
    using cstring_run [of ?s1 "x @ b @ r" "length x" "Some ''name''"] s(3,4) t(2) by simp
  let ?fs = "[Dwarf_uleb128 S (Some ''dir_index''), Dwarf_uleb128 S (Some ''mtime''), Dwarf_uleb128 S (Some ''length'')]"
  have fs: "map fst file_numbers = ?fs" by (simp add: file_numbers_def uleb_field_def dwarf_leb)
  define C where "C = If (\<lambda>c. ebind (ctx_len ''name'' c) (\<lambda>n. Inr (n \<noteq> 0))) (Embedded (Struct (Some '''') True ?fs)) PNone"
  have flag: "is_flag FLAG_EMBED C" unfolding C_def by (rule is_flag_embedded)
  have entry: "Dwarf_lineprog_file_entry S = Struct (Some ''file_entry'') True [cstring_default (Some ''name''), C]"
    by (simp add: Dwarf_lineprog_file_entry_def C_def)
  obtain y ctx objs where second: "con_parse C ?s2 =
      (Inr y, ?s2\<lparr>p_stream := BytesIO (x @ b @ r) (length x + length b), p_ctx := ctx,
         p_objs := p_objs s @ [PObj kvs] @ objs\<rparr>)"
  proof (cases "t = []")
    case True
    then show thesis using t vars that [of PNone "[]" ?ctx] by (simp add: C_def embedded_if [where t = t])
  next
    case False
    let ?s3 = "?s2\<lparr>p_ctx := set_obj None ?ctx\<rparr>"
    have dec: "fields_dec file_numbers [(''name'', PStr t)] c kvs" using False t(4) by simp
    have plain: "\<forall>f\<in>set file_numbers. plain_decoder f" by (simp add: file_numbers_def)
    obtain c' objs where "struct_parse_loop (obj_setitem ?a) ?a (map fst file_numbers) ?s3 =
       (Inr (), ?s3\<lparr>p_stream := BytesIO ((x @ t @ [CHR 0x00]) @ c @ r) (length (x @ t @ [CHR 0x00]) + length c), p_ctx := c',
          p_objs := (p_objs ?s3)[?a := PObj kvs] @ objs\<rparr>)"
      using struct_decode_fields [OF dec plain, of ?s3 "x @ t @ [CHR 0x00]" r ?a] s(2,4) t(2) vars
      by (auto simp: calm_def set_obj_def)
    then show thesis using False t(2) vars that
      by (simp add: C_def embedded_if [where t = t] struct_taken_over sbind_apply pm_simps fs nth_append add.assoc
          del: struct_parse_loop.simps)
  qed
  show "\<exists>objs. con_parse (Dwarf_lineprog_file_entry S) s =
      (Inr v, s\<lparr>p_stream := BytesIO (x @ b @ r) (length x + length b), p_objs := p_objs s @ objs\<rparr>)"
    using s(2) t(3) name flag second
    by (simp add: entry struct_fresh calm_def sbind_apply pm_simps nth_append container_setitem_def) blast
qed

definition opcode_count :: "ctx \<Rightarrow> pyexc + int" where
  "opcode_count c = ebind (ctx_count (Some ''opcode_base'') c) (\<lambda>n. Inr (n - 1))"

definition no_name :: "pyval \<Rightarrow> pyexc + bool" where
  "no_name obj = ebind (get_attr obj ''name'') (\<lambda>v. ebind (py_len v) (\<lambda>n. Inr (n = 0)))"

definition no_text :: "pyval \<Rightarrow> pyexc + bool" where
  "no_text obj = Inr (py_eq obj (PStr []))"

definition lineprog_fields :: "dwarf_structs \<Rightarrow> dfield list" where
  "lineprog_fields S = [length_field S ''unit_length'', num_field S ''version'' Fmt_H,
     num_field S ''header_length'' (offset_format S), num_field S ''minimum_instruction_length'' Fmt_B,
     num_field S ''default_is_stmt'' Fmt_B, num_field S ''line_base'' Fmt_b, num_field S ''line_range'' Fmt_B,
     num_field S ''opcode_base'' Fmt_B,
     (MetaArray opcode_count (Dwarf_uint8 S (Some ''standard_opcode_lengths'')), counted_dec opcode_count (num_dec S Fmt_B)),
     (RepeatUntilExcluding (\<lambda>v x. no_text v) (cstring_default (Some ''include_directory'')), list_dec no_text cstring_dec),
     (RepeatUntilExcluding (\<lambda>v x. no_name v) (Dwarf_lineprog_file_entry S), list_dec no_name file_dec)]"

lemma lineprog_struct:
  "Dwarf_lineprog_header S = Struct (Some ''Dwarf_lineprog_header'') True (map fst (lineprog_fields S))"
  by (simp add: Dwarf_lineprog_header_def lineprog_fields_def dfields dwarf_formats Array_def opcode_count_def [abs_def]
      no_text_def no_name_def)

lemma plain_lineprog: "\<forall>f\<in>set (lineprog_fields S). plain_decoder f"
  using decoder_counted [OF decoder_int] decoder_until [OF decoder_cstring] decoder_until [OF decoder_file_entry]
  by (simp add: lineprog_fields_def plain_decoder_def [of "(_, _)"] dwarf_formats Dwarf_lineprog_file_entry_def)

interpretation lineprog_header: decoder "Dwarf_lineprog_header S" "struct_dec (lineprog_fields S)" for S
  unfolding lineprog_struct by (rule decoder_struct [OF plain_lineprog])

text \<open>C9: The CU, CIE and FDE headers, abbreviation declarations and line program headers are read from every encoding of their fields: initial length of either format, LEB128 numbers in any length, strings and lists with their terminators; reading returns the container of the fields and stops behind it.\<close>

theorem dwarf_headers_parse:
  assumes "(c, fs) \<in> {(Dwarf_CU_header S, CU_fields S), (Dwarf_CIE_header S, CIE_fields S), (Dwarf_FDE_header S, FDE_fields S),
      (Dwarf_abbrev_declaration S, abbrev_fields S), (Dwarf_lineprog_header S, lineprog_fields S)}"
    and "fields_dec fs [] b kvs" and "length (b @ r) < fuel"
  shows "struct_parse fuel c (Some (int (length x))) (BytesIO (x @ b @ r) q) =
    (Inr (PObj kvs), BytesIO (x @ b @ r) (length x + length b))"
proof -
  have "decoder c (struct_dec fs)"
    using assms(1) CU_header.decoder_axioms CIE_header.decoder_axioms FDE_header.decoder_axioms
      abbrev_declaration.decoder_axioms lineprog_header.decoder_axioms by auto
  then show ?thesis using assms(2,3) decoder.struct_parse_decodes [of c "struct_dec fs" b "PObj kvs"]
    by (simp add: struct_dec_def)
qed

lemma field_steps:
  "int_enc (dwarf_endian S) f v = Some a \<Longrightarrow> fields_dec fs (container_setitem vars n v) b kvs \<Longrightarrow>
     fields_dec (num_field S n f # fs) vars (a @ b) kvs"
  "int_enc (dwarf_endian S) Fmt_L (PInt i) = Some a \<Longrightarrow> i < 0xFFFFFF00 \<Longrightarrow>
     fields_dec fs (container_setitem vars n (PInt i)) b kvs \<Longrightarrow> fields_dec (length_field S n # fs) vars (a @ b) kvs"
  "leb_bytes a \<Longrightarrow> fields_dec fs (container_setitem vars n (PInt (uleb_value a))) b kvs \<Longrightarrow>
     fields_dec (uleb_field n # fs) vars (a @ b) kvs"
  "leb_bytes a \<Longrightarrow> fields_dec fs (container_setitem vars n (PInt (sleb_value a))) b kvs \<Longrightarrow>
     fields_dec (sleb_field n # fs) vars (a @ b) kvs"
  "CHR 0x00 \<notin> set t \<Longrightarrow> fields_dec fs (container_setitem vars n (PStr t)) b kvs \<Longrightarrow>
     fields_dec (cstring_field n # fs) vars ((t @ [CHR 0x00]) @ b) kvs"
  unfolding dfields
  by (rule fields_Cons; auto simp: int_dec_def length_dec_def uleb_dec_def sleb_dec_def cstring_dec_def)+

definition example_structs :: dwarf_structs where
  "example_structs = \<lparr>ds_little_endian = True, ds_dwarf_format = 32, ds_address_size = 4\<rparr>"

definition example_CIE :: container where
  "example_CIE = [(''length'', PInt 16), (''CIE_id'', PInt 0xFFFFFFFF), (''version'', PInt 3), (''augmentation'', PStr ''zR''),
     (''code_alignment_factor'', PInt 1), (''data_alignment_factor'', PInt (-4)), (''return_address_register'', PInt 8)]"

theorem dwarf_headers_parse_witness:
  "\<exists>b. struct_parse 99 (Dwarf_CIE_header example_structs) (Some 2) (BytesIO (''xy'' @ b @ ''z'') 0) =
     (Inr (PObj example_CIE), BytesIO (''xy'' @ b @ ''z'') 17)"
proof -
  let ?i = "\<lambda>n. the (int_enc Little Fmt_L (PInt n))"
  let ?b = "?i 16 @ ?i 0xFFFFFFFF @ [chr_c 3] @ (''zR'' @ [CHR 0x00]) @ [chr_c 1] @ [chr_c 0x7C] @ [chr_c 8] @ []"
  have "fields_dec (CIE_fields example_structs) [] ?b example_CIE"
    unfolding CIE_fields_def
    apply (rule field_steps(2) [where i = 16], code_simp, simp)
    apply (rule field_steps(1) [where v = "PInt 0xFFFFFFFF"], code_simp)
    apply (rule field_steps(1) [where v = "PInt 3"], code_simp)
    apply (rule field_steps(5), simp)
    apply (rule field_steps(3), code_simp)
    apply (rule field_steps(4), code_simp)
    apply (rule field_steps(3), code_simp)
    by (rule fields_Nil', code_simp)
  moreover have "length (?b @ ''z'') < 99" "length ?b = 15" by code_simp+
  ultimately show ?thesis using dwarf_headers_parse [of "Dwarf_CIE_header example_structs" "CIE_fields example_structs" example_structs
      ?b example_CIE "''z''" 99 "''xy''" 0] by (intro exI [of _ ?b]) simp
qed

end
