(* ===== verification/DwarfAbbrev.thy ===== *)
theory DwarfAbbrev
  imports DwarfHeaders
begin

section \<open>Abbreviation tables (\<open>dwarf/abbrevtable.py\<close>)\<close>

text \<open>
  An \<open>AbbrevTable\<close> maps codes to declarations, which it reads until the code 0. The stream is
  shared with the other readers of the section, so it is the state; the fuel bounds the two loops
  (the declarations of a table, and the repeated fields inside one).
\<close>

record abbrev_table =
  at_structs :: dwarf_structs
  at_offset :: int
  at_abbrev_map :: "(pyval \<times> pyval) list"

record abbrev_decl =
  ad_code :: pyval
  ad_decl :: pyval

fun abbrev_loop :: "nat \<Rightarrow> nat \<Rightarrow> dwarf_structs \<Rightarrow> (pyval \<times> pyval) list \<Rightarrow> (pystream, (pyval \<times> pyval) list) st" where
  "abbrev_loop 0 fuel S m = sraise NoFuel"
| "abbrev_loop (Suc k) fuel S m =
     sbind (struct_parse fuel (Dwarf_uleb128 S (Some '''')) None) (\<lambda>decl_code.
       if py_eq decl_code (PInt 0) then sret m
       else sbind (struct_parse fuel (Dwarf_abbrev_declaration S) None)
              (\<lambda>declaration. abbrev_loop k fuel S (dict_set decl_code declaration m)))"

definition parse_abbrev_table :: "nat \<Rightarrow> dwarf_structs \<Rightarrow> int \<Rightarrow> (pystream, (pyval \<times> pyval) list) st" where
  "parse_abbrev_table fuel S offset = sbind (stream_seek offset 0) (\<lambda>_. abbrev_loop fuel fuel S [])"

definition AbbrevTable :: "nat \<Rightarrow> dwarf_structs \<Rightarrow> int \<Rightarrow> (pystream, abbrev_table) st" where
  "AbbrevTable fuel S offset = sbind (parse_abbrev_table fuel S offset)
     (\<lambda>m. sret \<lparr>at_structs = S, at_offset = offset, at_abbrev_map = m\<rparr>)"

definition get_abbrev :: "abbrev_table \<Rightarrow> pyval \<Rightarrow> pyexc + abbrev_decl" where
  "get_abbrev T code = ebind (py_lookup (at_abbrev_map T) code) (\<lambda>decl. Inr \<lparr>ad_code = code, ad_decl = decl\<rparr>)"

definition abbrev_getitem :: "abbrev_decl \<Rightarrow> string \<Rightarrow> pyexc + pyval" where
  "abbrev_getitem D entry = (case ad_decl D of PObj c \<Rightarrow> container_getitem c entry | _ \<Rightarrow> Inl TypeError)"

definition has_children :: "abbrev_decl \<Rightarrow> pyexc + bool" where
  "has_children D = ebind (abbrev_getitem D ''children_flag'') (\<lambda>v. Inr (py_eq v (PStr ''DW_CHILDREN_yes'')))"

definition iter_attr_specs :: "abbrev_decl \<Rightarrow> pyexc + (pyval \<times> pyval) list" where
  "iter_attr_specs D = ebind (abbrev_getitem D ''attr_spec'') (\<lambda>specs. ebind (py_iter specs)
     (emap_list (\<lambda>spec. ebind (get_attr spec ''name'') (\<lambda>n. ebind (get_attr spec ''form'') (\<lambda>f. Inr (n, f))))))"

subsection \<open>Reading a table\<close>

text \<open>The bytes of a table, with its declarations in the order of the file.\<close>

inductive table_dec :: "dwarf_structs \<Rightarrow> string \<Rightarrow> (int \<times> container) list \<Rightarrow> bool" where
  table_end: "leb_bytes z \<Longrightarrow> uleb_value z = 0 \<Longrightarrow> table_dec S z []"
| table_entry: "leb_bytes a \<Longrightarrow> uleb_value a \<noteq> 0 \<Longrightarrow> fields_dec (abbrev_fields S) [] b kvs \<Longrightarrow> table_dec S r es \<Longrightarrow>
    table_dec S (a @ b @ r) ((uleb_value a, kvs) # es)"

lemma abbrev_loop_decode:
  assumes "table_dec S b es" "length (b @ r) < fuel" "length b \<le> k"
  shows "abbrev_loop k fuel S m (BytesIO (x @ b @ r) (length x)) =
    (Inr (foldl (\<lambda>m (c, kvs). dict_set (PInt c) (PObj kvs) m) m es), BytesIO (x @ b @ r) (length x + length b))"
  using assms
proof (induction arbitrary: k m x rule: table_dec.induct)
  case (table_end z S)
  then obtain k' where k: "k = Suc k'" by (cases k) (auto simp: leb_bytes_def)
  have "struct_parse fuel (ULEB128 (Some '''')) None (BytesIO (x @ z @ r) (length x)) =
      (Inr (PInt 0), BytesIO (x @ z @ r) (length x + length z))"
    using uleb.struct_parse_here [of z "PInt 0" r fuel] table_end by (simp add: uleb_dec_def)
  then show ?case by (simp add: k sbind_apply dwarf_leb)
next
  case (table_entry a S b kvs r' es)
  then obtain k' where k: "k = Suc k'" "length r' \<le> k'" by (cases k; cases a) (auto simp: leb_bytes_def)
  have 1: "struct_parse fuel (ULEB128 (Some '''')) None (BytesIO (x @ a @ (b @ r') @ r) (length x)) =
      (Inr (PInt (uleb_value a)), BytesIO (x @ a @ (b @ r') @ r) (length x + length a))"
    using uleb.struct_parse_here [of a "PInt (uleb_value a)" "(b @ r') @ r" fuel] table_entry by (simp add: uleb_dec_def)
  have 2: "struct_parse fuel (Dwarf_abbrev_declaration S) None (BytesIO ((x @ a) @ b @ r' @ r) (length (x @ a))) =
      (Inr (PObj kvs), BytesIO ((x @ a) @ b @ r' @ r) (length (x @ a) + length b))"
    using abbrev_declaration.struct_parse_here [of S b "PObj kvs" "r' @ r" fuel "x @ a"] table_entry by (simp add: struct_dec_def)
  have 3: "abbrev_loop k' fuel S (dict_set (PInt (uleb_value a)) (PObj kvs) m)
      (BytesIO ((x @ a @ b) @ r' @ r) (length (x @ a @ b))) =
      (Inr (foldl (\<lambda>m (c, kvs). dict_set (PInt c) (PObj kvs) m) (dict_set (PInt (uleb_value a)) (PObj kvs) m) es),
       BytesIO ((x @ a @ b) @ r' @ r) (length (x @ a @ b) + length r'))"
    using table_entry.IH [of k' _ "x @ a @ b"] table_entry.prems k(2) by simp
  show ?case using 1 2 3 table_entry.hyps(2) by (simp add: k(1) sbind_apply dwarf_leb add.assoc)
qed

lemma py_find_table:
  "int_keys m \<Longrightarrow> py_find (foldl (\<lambda>m (c, kvs). dict_set (PInt c) (PObj kvs) m) m es) (PInt d) =
      (case map_of (rev es) d of Some kvs \<Rightarrow> Some (PObj kvs) | None \<Rightarrow> py_find m (PInt d))"
proof (induction es arbitrary: m)
  case (Cons e es)
  obtain c kvs where e: "e = (c, kvs)" by (cases e)
  show ?case using Cons by (simp add: e py_find_dict_set map_add_def split: option.split)
qed simp

text \<open>C21: Parsing an abbreviation table returns the dictionary of its declarations: looking up a code finds its last declaration, and KeyError if it has none.\<close>

theorem abbrev_table_lookup:
  assumes "table_dec S b es" "length (b @ r) < fuel"
  shows "\<exists>T. AbbrevTable fuel S (int (length x)) (BytesIO (x @ b @ r) q) = (Inr T, BytesIO (x @ b @ r) (length x + length b)) \<and>
    (\<forall>c. get_abbrev T (PInt c) = (case map_of (rev es) c of None \<Rightarrow> Inl KeyError
       | Some kvs \<Rightarrow> Inr \<lparr>ad_code = PInt c, ad_decl = PObj kvs\<rparr>))"
proof -
  let ?m = "foldl (\<lambda>m (c, kvs). dict_set (PInt c) (PObj kvs) m) [] es"
  have "abbrev_loop fuel fuel S [] (BytesIO (x @ b @ r) (length x)) = (Inr ?m, BytesIO (x @ b @ r) (length x + length b))"
    by (rule abbrev_loop_decode) (use assms in auto)
  moreover have "py_find ?m (PInt c) = (case map_of (rev es) c of Some kvs \<Rightarrow> Some (PObj kvs) | None \<Rightarrow> None)" for c
    using py_find_table [of "[]" es c] by (simp split: option.splits)
  ultimately show ?thesis
    by (simp add: AbbrevTable_def parse_abbrev_table_def sbind_apply Let_def get_abbrev_def py_lookup_def split: option.split)
qed

lemma enum_step:
  "snd f vars a v \<Longrightarrow> enum_value kw v = Inr w \<Longrightarrow> con_name (fst f) = Some n \<Longrightarrow>
     fields_dec fs (container_setitem vars n w) b kvs \<Longrightarrow> fields_dec (enum_field f kw # fs) vars (a @ b) kvs"
  unfolding enum_field_def by (rule fields_Cons) (auto simp: enum_dec_def)

definition example_decl :: container where
  "example_decl = [(''tag'', PStr ''DW_TAG_compile_unit''), (''children_flag'', PStr ''DW_CHILDREN_yes''),
     (''attr_spec'', PList [PObj [(''name'', PStr ''DW_AT_name''), (''form'', PStr ''DW_FORM_string'')]])]"

lemma example_spec:
  assumes "leb_bytes a" "leb_bytes b" "enum_value ENUM_DW_AT (PInt (uleb_value a)) = Inr n"
    "enum_value ENUM_DW_FORM (PInt (uleb_value b)) = Inr f"
  shows "struct_dec attr_spec_fields vars (a @ b) (PObj [(''name'', n), (''form'', f)])"
proof -
  have "fields_dec attr_spec_fields [] (a @ b @ []) [(''name'', n), (''form'', f)]"
    unfolding attr_spec_fields_def
    by (rule enum_step [where v = "PInt (uleb_value a)"], simp add: uleb_field_def uleb_dec_def assms, rule assms,
        simp add: uleb_field_def, rule enum_step [where v = "PInt (uleb_value b)"],
        simp add: uleb_field_def uleb_dec_def assms, rule assms, simp add: uleb_field_def, simp add: container_setitem_def)
  then show ?thesis by (simp add: struct_dec_def)
qed

lemma example_decl_dec:
  "fields_dec (abbrev_fields example_structs) [] ([chr_c 0x11] @ [chr_c 1] @ ([chr_c 3] @ [chr_c 8]) @ [chr_c 0] @ [chr_c 0]) example_decl"
proof -
  let ?l = "([chr_c 3] @ [chr_c 8]) @ [chr_c 0] @ [chr_c 0]"
  let ?spec = "PObj [(''name'', PStr ''DW_AT_name''), (''form'', PStr ''DW_FORM_string'')]"
  have "until_dec null_attr_spec (struct_dec attr_spec_fields) vars ?l [?spec]" for vars
  proof (rule until_more)
    show "struct_dec attr_spec_fields vars ([chr_c 3] @ [chr_c 8]) ?spec"
      by (rule example_spec; (subst enum_value_find)?; code_simp)
    show "null_attr_spec ?spec = Inr False" by code_simp
    show "until_dec null_attr_spec (struct_dec attr_spec_fields) vars ([chr_c 0] @ [chr_c 0]) []"
    proof (rule until_stop)
      show "struct_dec attr_spec_fields vars ([chr_c 0] @ [chr_c 0])
         (PObj [(''name'', PStr ''DW_AT_null''), (''form'', PStr ''DW_FORM_null'')])"
        by (rule example_spec; (subst enum_value_find)?; code_simp)
      show "null_attr_spec (PObj [(''name'', PStr ''DW_AT_null''), (''form'', PStr ''DW_FORM_null'')]) = Inr True" by code_simp
    qed simp
  qed simp
  then have l: "list_dec null_attr_spec (struct_dec attr_spec_fields) vars ?l (PList [?spec])" for vars
    by (simp add: list_dec_def)
  have "fields_dec (abbrev_fields example_structs) [] ([chr_c 0x11] @ [chr_c 1] @ ?l @ []) example_decl"
    unfolding abbrev_fields_def example_decl_def
    by (rule enum_step [where v = "PInt 0x11"], simp add: uleb_field_def uleb_dec_def leb_bytes_def, subst enum_value_find, code_simp,
        simp add: uleb_field_def, rule enum_step [where v = "PInt 1"], simp add: num_field_def int_dec_def, code_simp, subst enum_value_find, code_simp,
        simp add: num_field_def, rule fields_Cons, simp, rule l, simp add: container_setitem_def)
  then show ?thesis by simp
qed

theorem abbrev_table_lookup_witness:
  "\<exists>T. fst (AbbrevTable 20 example_structs 1 (BytesIO (''x'' @ ([chr_c 1] @ ([chr_c 0x11] @ [chr_c 1] @ ([chr_c 3] @ [chr_c 8]) @ [chr_c 0] @ [chr_c 0]) @ [chr_c 0]) @ []) 0)) = Inr T \<and>
    get_abbrev T (PInt 1) = Inr \<lparr>ad_code = PInt 1, ad_decl = PObj example_decl\<rparr> \<and> get_abbrev T (PInt 2) = Inl KeyError"
proof -
  let ?d = "[chr_c 0x11] @ [chr_c 1] @ ([chr_c 3] @ [chr_c 8]) @ [chr_c 0] @ [chr_c 0]"
  have "table_dec example_structs ([chr_c 1] @ ?d @ [chr_c 0]) [(uleb_value [chr_c 1], example_decl)]"
    by (rule table_entry, code_simp, code_simp, rule example_decl_dec, rule table_end) code_simp+
  moreover have "uleb_value [chr_c 1] = 1" by code_simp
  ultimately show ?thesis using abbrev_table_lookup [of example_structs "[chr_c 1] @ ?d @ [chr_c 0]" "[(1, example_decl)]" "[]" 20 "''x''" 0]
    by fastforce
qed

end
