(* ===== verification/DwarfForward.thy ===== *)
theory DwarfForward
  imports DwarfHeaders
begin

section \<open>Reading ends\<close>

text \<open>
  No structure of DWARF reads backwards, and each of their repetitions takes bytes in every round,
  so with more fuel than data reading always ends. \<open>forward k m\<close> says so of \<open>m\<close>, and that it moves
  by \<open>k\<close> bytes at least when it returns.
\<close>

definition moved :: "nat \<Rightarrow> pstate \<Rightarrow> string \<Rightarrow> nat \<Rightarrow> pyexc + 'a \<Rightarrow> pstate \<Rightarrow> bool" where
  "moved k s d p r s' = (p_fuel s' = p_fuel s \<and> r \<noteq> Inl NoFuel \<and>
     (\<exists>p'. p_stream s' = BytesIO d p' \<and> p \<le> p' \<and> p' \<le> max p (length d) \<and> (\<forall>x. r = Inr x \<longrightarrow> p + k \<le> p')))"

definition forward :: "nat \<Rightarrow> 'a pm \<Rightarrow> bool" where
  "forward k m = (\<forall>s d p r s'. p_stream s = BytesIO d p \<longrightarrow> length d < p_fuel s \<longrightarrow> m s = (r, s') \<longrightarrow> moved k s d p r s')"

named_theorems forward_intros \<open>introduction rules for \<open>forward\<close>\<close>

lemma forwardI:
  "(\<And>s d p r s'. p_stream s = BytesIO d p \<Longrightarrow> length d < p_fuel s \<Longrightarrow> m s = (r, s') \<Longrightarrow> moved k s d p r s') \<Longrightarrow> forward k m"
  by (auto simp: forward_def)

lemma forwardD: "forward k m \<Longrightarrow> m s = (r, s') \<Longrightarrow> p_stream s = BytesIO d p \<Longrightarrow> length d < p_fuel s \<Longrightarrow> moved k s d p r s'"
  by (auto simp: forward_def)

lemma moved_mono: "moved k s d p r s' \<Longrightarrow> j \<le> k \<Longrightarrow> moved j s d p r s'"
  by (fastforce simp: moved_def)

lemma forward_mono: "forward k m \<Longrightarrow> j \<le> k \<Longrightarrow> forward j m"
  unfolding forward_def by (blast intro: moved_mono)

lemma forward_prims [forward_intros]:
  "forward 0 (sret x)" "forward 0 (modify_ctx f)" "forward 0 (read_obj a)" "forward 0 (write_obj a w)"
  "forward 0 (new_obj w)" "e \<noteq> NoFuel \<Longrightarrow> forward k (sraise e)" "q \<noteq> Inl NoFuel \<Longrightarrow> forward 0 (slift q)"
  "(\<And>c. g c \<noteq> Inl NoFuel) \<Longrightarrow> forward 0 (with_ctx g)"
  by (auto simp: forward_def moved_def pm_simps)

lemma moved_trans:
  assumes "moved j s d p (Inr x) s1" "\<And>p1. p_stream s1 = BytesIO d p1 \<Longrightarrow> moved k s1 d p1 r s2"
  shows "moved (j + k) s d p r s2"
proof -
  obtain p1 where p1: "p_stream s1 = BytesIO d p1" "p + j \<le> p1" "p1 \<le> max p (length d)" "p_fuel s1 = p_fuel s"
    using assms(1) by (auto simp: moved_def)
  obtain p2 where "p_stream s2 = BytesIO d p2" "p1 \<le> p2" "p2 \<le> max p1 (length d)" "\<forall>y. r = Inr y \<longrightarrow> p1 + k \<le> p2"
    "p_fuel s2 = p_fuel s1" "r \<noteq> Inl NoFuel"
    using assms(2) [OF p1(1)] by (auto simp: moved_def)
  then show ?thesis using p1 by (auto simp: moved_def)
qed

lemma moved_fail: "moved j s d p (Inl e) s1 \<Longrightarrow> moved k s d p (Inl e) s1"
  by (simp add: moved_def)

lemma forward_sbind: "forward j m \<Longrightarrow> (\<And>x. forward k (f x)) \<Longrightarrow> forward (j + k) (sbind m f)"
proof (rule forwardI)
  fix s :: pstate and d p r s'
  assume m: "forward j m" and f: "\<And>x. forward k (f x)" and s: "p_stream s = BytesIO d p" "length d < p_fuel s"
    and run: "sbind m f s = (r, s')"
  obtain r1 s1 where 1: "m s = (r1, s1)" by fastforce
  note mv = forwardD [OF m 1 s]
  show "moved (j + k) s d p r s'"
  proof (cases r1)
    case (Inl e)
    then show ?thesis using run 1 mv moved_fail by (simp add: sbind_apply) blast
  next
    case (Inr x)
    have fuel: "length d < p_fuel s1" using mv s(2) by (simp add: moved_def)
    have "f x s1 = (r, s')" using run 1 Inr by (simp add: sbind_apply)
    from moved_trans [OF mv [unfolded Inr] forwardD [OF f this _ fuel]] show ?thesis .
  qed
qed

lemma forward_sbind_0 [forward_intros]: "forward k m \<Longrightarrow> (\<And>x. forward 0 (f x)) \<Longrightarrow> forward k (sbind m f)"
  using forward_sbind [of k m 0 f] by simp

lemma forward_0_sbind: "forward 0 m \<Longrightarrow> (\<And>x. forward k (f x)) \<Longrightarrow> forward k (sbind m f)"
  using forward_sbind [of 0 m k f] by simp

lemma forward_scatch [forward_intros]:
  assumes "forward k m" and h: "\<And>e. e \<noteq> NoFuel \<Longrightarrow> forward k (h e)"
  shows "forward k (scatch m q h)"
proof (rule forwardI)
  fix s :: pstate and d p r s'
  assume s: "p_stream s = BytesIO d p" "length d < p_fuel s" and run: "scatch m q h s = (r, s')"
  obtain r1 s1 where 1: "m s = (r1, s1)" by fastforce
  note mv = forwardD [OF assms(1) 1 s]
  show "moved k s d p r s'"
  proof (cases "\<exists>e. r1 = Inl e \<and> q e")
    case True
    then obtain e where e: "r1 = Inl e" "q e" by blast
    have fuel: "length d < p_fuel s1" and ne: "e \<noteq> NoFuel" using mv s(2) e by (auto simp: moved_def)
    have "h e s1 = (r, s')" using run 1 e by (simp add: scatch_def)
    moreover have "moved 0 s d p (Inr ()) s1" using mv e by (auto simp: moved_def)
    ultimately show ?thesis using moved_trans [of 0 s d p "()" s1 k r s'] forwardD [OF h [OF ne] _ _ fuel] by simp
  next
    case False
    then show ?thesis using run 1 mv by (cases r1) (auto simp: scatch_def)
  qed
qed

lemma forward_in_ctx [forward_intros]:
  assumes "forward k m"
  shows "forward k (in_ctx f m)"
proof (rule forwardI)
  fix s :: pstate and d p r s'
  assume s: "p_stream s = BytesIO d p" "length d < p_fuel s" and run: "in_ctx f m s = (r, s')"
  obtain s1 where "m (s\<lparr>p_ctx := f (p_ctx s)\<rparr>) = (r, s1)" "s' = s1\<lparr>p_ctx := p_ctx s\<rparr>"
    using run by (auto simp: in_ctx_def split: prod.splits)
  then show "moved k s d p r s'" using forwardD [OF assms, of "s\<lparr>p_ctx := f (p_ctx s)\<rparr>" r s1 d p] s by (simp add: moved_def)
qed

lemma forward_if [forward_intros]: "forward k m \<Longrightarrow> forward k m' \<Longrightarrow> forward k (if b then m else m')"
  by simp

lemma forward_iteration [forward_intros]: "forward k m \<Longrightarrow> forward k (iteration c m)"
  by (simp add: iteration_def forward_intros)

lemma forward_read_stream [forward_intros]: "forward n (read_stream (int n))"
  by (rule forwardI) (auto simp: read_stream_bytes moved_def split: if_splits)


subsection \<open>Constructs\<close>

lemma forward_format: "forward (fmt_size f) (con_parse (FormatField n e f))"
  unfolding FormatField_def
  by (simp, intro forward_intros) (auto simp: unpack_def Let_def intro!: forward_intros split: if_splits)

lemma forward_leb: "forward 1 (con_parse (ULEB128 n))" "forward 1 (con_parse (SLEB128 n))"
proof -
  have len: "p + length bs \<le> max p (length d) \<and> p + 1 \<le> p + length bs" if pre: "leb_prefix (drop p d) = Some bs" for p and d bs :: string
  proof -
    obtain r where r: "drop p d = bs @ r" "bs \<noteq> []" using leb_prefix_Some [OF pre] leb_bytes_nonempty by blast
    then have "length bs \<le> length d - p" by (metis length_append length_drop le_add1)
    moreover have "0 < length bs" using r(2) by simp
    ultimately show ?thesis by linarith
  qed
  show "forward 1 (con_parse (ULEB128 n))"
    by (rule forwardI) (use len in \<open>auto simp: uleb_run moved_def split: option.splits\<close>)
  show "forward 1 (con_parse (SLEB128 n))"
    by (rule forwardI) (use len in \<open>auto simp: sleb_run moved_def split: option.splits\<close>)
qed

lemma forward_cstring: "forward 1 (con_parse (cstring_default n))"
proof (rule forwardI)
  fix s :: pstate and d p r s'
  assume s: "p_stream s = BytesIO d p" "length d < p_fuel s" and run: "con_parse (cstring_default n) s = (r, s')"
  let ?t = "takeWhile (\<lambda>c. c \<noteq> CHR 0x00) (drop p d)"
  have len: "Suc (p + length ?t) \<le> length d" if "CHR 0x00 \<in> set (drop p d)"
  proof -
    have "dropWhile (\<lambda>c. c \<noteq> CHR 0x00) (drop p d) \<noteq> []" using that by auto
    then have "length ?t < length (drop p d)" by (metis append.right_neutral length_takeWhile_le nat_less_le takeWhile_dropWhile_id append_eq_append_conv)
    then show ?thesis by simp
  qed
  show "moved 1 s d p r s'"
    using cstring_run [OF s(1), of n] s(2) run len by (auto simp: moved_def split: if_splits)
qed

lemma forward_reconfig: "forward k (con_parse (Reconfig n c a b)) = forward k (con_parse c)"
  by (simp add: Reconfig_def)

lemma forward_adapter: "forward k (con_parse c) \<Longrightarrow> (\<And>v x. f v x \<noteq> Inl NoFuel) \<Longrightarrow> forward k (con_parse (PureAdapter c f e))"
  by (auto simp: PureAdapter_def Adapter_def intro!: forward_intros)

lemma py_lookup_errors: "py_lookup m k \<noteq> Inl NoFuel"
  by (auto simp: py_lookup_def split: option.split)

lemma forward_enum: "forward k (con_parse c) \<Longrightarrow> forward k (con_parse (EnumOf c kw))"
  unfolding EnumOf_def Enum_def SymmetricMapping_def MappingAdapter_def using py_lookup_errors
  by (intro forward_adapter) (auto simp: map_value_def split: sum.splits map_default.splits)

lemma if_run: "con_parse (If pred c w) = sbind (with_ctx pred) (\<lambda>b. if b then con_parse c else sret w)"
  by (rule ext) (auto simp: If_def IfThenElse_def Switch_def Value_def sbind_apply pm_simps ebind_def
      split: prod.split sum.split)

lemma forward_if_con: "forward 0 (con_parse c) \<Longrightarrow> (\<And>x. pred x \<noteq> Inl NoFuel) \<Longrightarrow> forward 0 (con_parse (If pred c w))"
  unfolding if_run by (intro forward_intros) auto

lemma forward_add [forward_intros]: "forward 0 (obj_setitem a n v)" "forward 0 (obj_append a v)"
  unfolding obj_setitem_def obj_append_def
  by (intro forward_intros; auto intro!: forward_intros split: pyval.split)+

text \<open>A struct goes forward by what its first field takes.\<close>

lemma forward_struct_loop:
  assumes add: "\<And>n v. forward 0 (add n v)" and "forward k (con_parse sc)" "\<forall>c\<in>set scs. forward 0 (con_parse c)"
  shows "forward k (struct_parse_loop add a (sc # scs))"
proof -
  have field: "forward j (if is_flag FLAG_EMBED sc then
          sbind (modify_ctx (set_obj (Some a))) (\<lambda>_. sbind (con_parse sc) (\<lambda>_. sret ()))
        else
          sbind (con_parse sc) (\<lambda>subobj.
            case con_name sc of
              None \<Rightarrow> sret ()
            | Some n \<Rightarrow> sbind (add n subobj) (\<lambda>_. modify_ctx (ctx_set n subobj))))"
    if "forward j (con_parse sc)" for j sc
    by (auto intro!: forward_0_sbind [OF forward_prims(2)] forward_sbind_0 [OF that] forward_sbind_0 [OF add]
        forward_prims(1,2) split: option.split)
  have rest: "forward 0 (struct_parse_loop add a scs)"
    using assms(3)
  proof (induction scs)
    case (Cons c scs)
    then have "forward 0 (con_parse c)" "forward 0 (struct_parse_loop add a scs)" by simp_all
    then show ?case unfolding struct_parse_loop.simps by (intro forward_sbind_0 field)
  qed (simp add: forward_prims)
  show ?thesis unfolding struct_parse_loop.simps by (intro forward_sbind_0 field assms(2) rest)
qed

lemma forward_with_object:
  "(\<And>a. forward k (body a)) \<Longrightarrow> forward k (with_object nested v body)"
proof (rule forwardI)
  fix s :: pstate and d p r s'
  assume body: "\<And>a. forward k (body a)" and s: "p_stream s = BytesIO d p" "length d < p_fuel s"
    and run: "with_object nested v body s = (r, s')"
  have 1: "forward k (sbind (modify_ctx (set_obj None)) (\<lambda>_. sbind (body a) (\<lambda>_. read_obj a)))" for a
    by (intro forward_0_sbind forward_intros body)
  have 2: "forward k (sbind (new_obj v) (\<lambda>a. sbind (if nested then in_ctx child_ctx (body a) else body a) (\<lambda>_. read_obj a)))"
    by (intro forward_0_sbind forward_intros body)
  show "moved k s d p r s'"
    using run forwardD [OF 1 _ s] forwardD [OF 2 _ s] by (auto simp: with_object_def split: option.splits)
qed

lemma forward_struct:
  "forward k (con_parse sc) \<Longrightarrow> \<forall>c\<in>set scs. forward 0 (con_parse c) \<Longrightarrow> forward k (con_parse (Struct n nested (sc # scs)))"
  unfolding Struct_def by (simp del: struct_parse_loop.simps) (intro forward_with_object forward_struct_loop forward_add)

lemma forward_sequence:
  "forward k (con_parse sc) \<Longrightarrow> \<forall>c\<in>set scs. forward 0 (con_parse c) \<Longrightarrow> forward k (con_parse (Sequence n nested (sc # scs)))"
  unfolding Sequence_def by (simp del: struct_parse_loop.simps) (intro forward_with_object forward_struct_loop forward_add)

lemma forward_array_loop: "forward 0 m \<Longrightarrow> forward 0 (meta_array_loop m k obj)"
  by (induction k arbitrary: obj) (auto intro!: forward_intros)

lemma forward_array: "forward 0 (con_parse c) \<Longrightarrow> (\<And>x. g x \<noteq> Inl NoFuel) \<Longrightarrow> forward 0 (con_parse (MetaArray g c))"
  unfolding MetaArray_def by (simp, intro forward_intros forward_array_loop) auto

text \<open>The repetition: a round that goes on has taken a byte, so the fuel lasts for the bytes that are left.\<close>

lemma excluding_loop_moved:
  assumes "forward 1 m" "\<And>v x. predicate v x \<noteq> Inl NoFuel"
  shows "p_stream s = BytesIO d p \<Longrightarrow> length d < p_fuel s \<Longrightarrow> length d - p < k \<Longrightarrow>
      moved 1 s d p (fst (excluding_loop_own k m predicate obj s)) (snd (excluding_loop_own k m predicate obj s)) \<and>
      moved 1 s d p (fst (excluding_loop k m predicate ctx obj s)) (snd (excluding_loop k m predicate ctx obj s))"
proof (induction k arbitrary: s p obj)
  case (Suc k)
  obtain r1 s1 where 1: "m s = (r1, s1)" by fastforce
  note mv = forwardD [OF assms(1) 1 Suc.prems(1,2)]
  show ?case
  proof (cases r1)
    case (Inl e)
    then show ?thesis using 1 mv by (simp add: sbind_apply moved_def)
  next
    case (Inr v)
    obtain p1 where p1: "p_stream s1 = BytesIO d p1" "p + 1 \<le> p1" "p1 \<le> length d" "p_fuel s1 = p_fuel s"
      using mv Inr by (auto simp: moved_def)
    have IH: "moved 1 s1 d p1 (fst (excluding_loop_own k m predicate (obj @ [v]) s1)) (snd (excluding_loop_own k m predicate (obj @ [v]) s1)) \<and>
      moved 1 s1 d p1 (fst (excluding_loop k m predicate ctx (obj @ [v]) s1)) (snd (excluding_loop k m predicate ctx (obj @ [v]) s1))"
      using p1 Suc.prems by (intro Suc.IH) auto
    have step: "moved 1 s1 d p1 r s2 \<Longrightarrow> moved 1 s d p r s2" for r :: "pyexc + pyval list" and s2
      using moved_trans [OF mv [unfolded Inr], of 1 r s2] p1(1) moved_mono [of "1 + 1" s d p r s2 1] by simp
    have here: "moved 1 s d p (Inr obj) s1" using mv Inr by (auto simp: moved_def)
    have fail: "e \<noteq> NoFuel \<Longrightarrow> moved 1 s d p (Inl e) s1" for e using mv Inr by (auto simp: moved_def)
    have e1: "predicate v (p_ctx s1) = Inl e \<Longrightarrow> e \<noteq> NoFuel" "predicate v ctx = Inl e \<Longrightarrow> e \<noteq> NoFuel" for e
      using assms(2) [of v] by auto
    show ?thesis using 1 Inr IH step here fail e1
      by (auto simp: sbind_apply pm_simps split: sum.split prod.split)
  qed
qed simp

lemma forward_until:
  assumes "forward 1 (con_parse c)" "\<And>v x. predicate v x \<noteq> Inl NoFuel"
  shows "forward 1 (con_parse (RepeatUntilExcluding predicate c))"
proof -
  let ?m = "\<lambda>s. sbind (if is_flag FLAG_COPY_CONTEXT c
            then in_ctx id (excluding_loop (p_fuel s) (con_parse c) predicate (p_ctx s) [])
            else excluding_loop_own (p_fuel s) (con_parse c) predicate []) (\<lambda>obj. sret (PList obj)) s"
  have "forward 1 ?m"
  proof (rule forwardI)
    fix s :: pstate and d p r s'
    assume s: "p_stream s = BytesIO d p" "length d < p_fuel s" and run: "?m s = (r, s')"
    have fuel: "length d - p < p_fuel s" using s(2) by simp
    note mv = excluding_loop_moved [of "con_parse c" predicate, OF assms s fuel, where obj = "[]" and ctx = "p_ctx s"]
    show "moved 1 s d p r s'"
    proof (cases "is_flag FLAG_COPY_CONTEXT c")
      case True
      obtain r1 s1 where "excluding_loop (p_fuel s) (con_parse c) predicate (p_ctx s) [] s = (r1, s1)" by fastforce
      then show ?thesis using True run mv by (cases r1) (auto simp: sbind_apply in_ctx_def moved_def)
    next
      case False
      obtain r1 s1 where "excluding_loop_own (p_fuel s) (con_parse c) predicate [] s = (r1, s1)" by fastforce
      then show ?thesis using False run mv by (cases r1) (auto simp: sbind_apply moved_def)
    qed
  qed
  then have "forward 1 (scatch ?m is_construct_error (\<lambda>ex. sraise ArrayError))" by (intro forward_intros) simp_all
  then show ?thesis by (simp add: RepeatUntilExcluding_def)
qed

subsection \<open>The structures of DWARF\<close>

lemma value_errors [simp]:
  "get_attr v n \<noteq> Inl NoFuel" "attr_int v n \<noteq> Inl NoFuel" "py_getitem v i \<noteq> Inl NoFuel" "py_len v \<noteq> Inl NoFuel"
  "ctx_item n c \<noteq> Inl NoFuel" "ctx_attr n c \<noteq> Inl NoFuel" "ctx_len n c \<noteq> Inl NoFuel" "ctx_count m c \<noteq> Inl NoFuel"
proof -
  show attr: "get_attr v n \<noteq> Inl NoFuel" for v n by (cases "(v, n)" rule: get_attr.cases) (auto split: option.split)
  show len: "py_len v \<noteq> Inl NoFuel" for v by (cases v) auto
  show item: "ctx_item n c \<noteq> Inl NoFuel" for n c
    by (auto simp: ctx_item_def container_getitem_def dict_get_def split: option.split)
  show "attr_int v n \<noteq> Inl NoFuel" using attr by (auto simp: attr_int_def ebind_def split: sum.split option.split)
  show "py_getitem v i \<noteq> Inl NoFuel"
    by (cases "(v, i)" rule: py_getitem.cases) (auto simp: py_index_def ebind_def Let_def split: sum.split if_splits)
  show "ctx_attr n c \<noteq> Inl NoFuel" unfolding ctx_attr_def by (rule attr)
  show "ctx_len n c \<noteq> Inl NoFuel" 
    unfolding ctx_len_def ctx_attr_def ebind_Inl_iff using attr len by blast
  show "ctx_count m c \<noteq> Inl NoFuel" using item by (auto simp: ctx_count_def ebind_def split: sum.split option.split)
qed

lemma forward_num [forward_intros]: "forward 0 (con_parse (FormatField n e f))"
  by (rule forward_mono [OF forward_format]) simp

lemma forward_small [forward_intros]:
  "forward 0 (con_parse (ULEB128 n))" "forward 0 (con_parse (SLEB128 n))" "forward 0 (con_parse (cstring_default n))"
  by (rule forward_mono [OF forward_leb(1)], simp, rule forward_mono [OF forward_leb(2)], simp,
      rule forward_mono [OF forward_cstring], simp)

lemma forward_initial_length [forward_intros]: "forward 0 (con_parse (Dwarf_initial_length S n))"
  unfolding Dwarf_initial_length_def InitialLength_def InitialLengthAdapter_def DecodeAdapter_def dwarf_formats
  by (intro forward_adapter forward_struct forward_num) (auto intro!: forward_if_con forward_num simp: ebind_Inl_iff split: if_splits)

lemma forward_file_entry: "forward 1 (con_parse (Dwarf_lineprog_file_entry S))"
  unfolding Dwarf_lineprog_file_entry_def Embedded_def dwarf_leb
  by (intro forward_struct forward_cstring)
    (auto intro!: forward_if_con forward_small forward_struct simp: ebind_Inl_iff forward_reconfig)

lemma forward_headers:
  "forward 0 (con_parse (Dwarf_CU_header S))" "forward 0 (con_parse (Dwarf_CIE_header S))"
  "forward 0 (con_parse (Dwarf_FDE_header S))"
  unfolding Dwarf_CU_header_def Dwarf_CIE_header_def Dwarf_FDE_header_def dwarf_leb dwarf_formats
  by (auto intro!: forward_struct forward_intros)

lemma forward_abbrev: "forward 1 (con_parse (Dwarf_abbrev_declaration S))"
  unfolding Dwarf_abbrev_declaration_def dwarf_leb dwarf_formats
  by (intro forward_struct forward_enum forward_leb)
    (auto intro!: forward_enum forward_num forward_small forward_mono [OF forward_until] forward_struct forward_leb simp: ebind_Inl_iff split: if_splits)

lemma forward_lineprog: "forward 0 (con_parse (Dwarf_lineprog_header S))"
  unfolding Dwarf_lineprog_header_def dwarf_formats Array_def
  by (intro forward_struct forward_initial_length)
    (auto intro!: forward_num forward_mono [OF forward_until] forward_array forward_cstring forward_file_entry simp: ebind_Inl_iff split: if_splits)

lemma forward_block: "forward 0 (con_parse lf) \<Longrightarrow> forward 0 (con_parse (PrefixedArray (FormatField n e f) lf))"
  unfolding PrefixedArray_def LengthValueAdapter_def
  by (intro forward_adapter forward_sequence) (auto intro!: forward_array forward_num simp: Array_def)

lemma forward_forms: "c \<in> snd ` set (Dwarf_dw_form S) \<Longrightarrow> forward 0 (con_parse c)"
  by (auto simp: Dwarf_dw_form_def make_block_struct_def dwarf_leb dwarf_formats intro!: forward_block forward_intros)

lemma struct_parse_forward:
  assumes "forward k (con_parse c)" "length d < fuel" "\<And>n. pos = Some n \<Longrightarrow> 0 \<le> n"
  shows "\<exists>r p'. struct_parse fuel c pos (BytesIO d q) = (r, BytesIO d p') \<and> r \<noteq> Inl NoFuel \<and>
    (case pos of None \<Rightarrow> q | Some n \<Rightarrow> nat n) \<le> p' \<and> p' \<le> max (case pos of None \<Rightarrow> q | Some n \<Rightarrow> nat n) (length d) \<and>
    (\<forall>x. r = Inr x \<longrightarrow> (case pos of None \<Rightarrow> q | Some n \<Rightarrow> nat n) + k \<le> p')"
proof -
  let ?p = "case pos of None \<Rightarrow> q | Some n \<Rightarrow> nat n"
  let ?s = "start_state fuel (BytesIO d ?p)"
  obtain r s' where run: "con_parse c ?s = (r, s')" by fastforce
  have "moved k ?s d ?p r s'" by (rule forwardD [OF assms(1) run]) (simp_all add: start_state_def assms(2))
  moreover have "struct_parse fuel c pos (BytesIO d q) =
      (case r of Inl e \<Rightarrow> (Inl (if is_construct_error e then ELFParseError else e), p_stream s') | Inr v \<Rightarrow> (Inr v, p_stream s'))"
    using run assms(3) by (cases pos) (auto simp: struct_parse_def scatch_def sbind_apply parse_stream_def Let_def split: sum.split)
  ultimately show ?thesis by (auto simp: moved_def split: sum.splits)
qed

text \<open>C20: Every structure and every attribute form of DWARF is read with more fuel than data without running out of it, and reading does not go back.\<close>

theorem dwarf_parse_ends:
  assumes "c \<in> {Dwarf_CU_header S, Dwarf_CIE_header S, Dwarf_FDE_header S, Dwarf_abbrev_declaration S,
      Dwarf_lineprog_header S, Dwarf_lineprog_file_entry S} \<union> snd ` set (Dwarf_dw_form S)"
    and "length d < fuel"
  shows "\<exists>r p'. struct_parse fuel c None (BytesIO d p) = (r, BytesIO d p') \<and> r \<noteq> Inl NoFuel \<and> p \<le> p' \<and> p' \<le> max p (length d)"
proof -
  have "forward 0 (con_parse c)"
    using assms(1) forward_headers forward_mono [OF forward_abbrev] forward_lineprog forward_mono [OF forward_file_entry]
      forward_forms [of c S] by (elim UnE) auto
  from struct_parse_forward [OF this assms(2), of None p] show ?thesis by auto
qed

theorem dwarf_parse_ends_witness:
  "\<exists>r p'. struct_parse 9 (Dwarf_abbrev_declaration example_structs) None (BytesIO ''abc'' 1) = (r, BytesIO ''abc'' p') \<and>
     r \<noteq> Inl NoFuel \<and> 1 \<le> p' \<and> p' \<le> max 1 (length ''abc'')"
  using dwarf_parse_ends [of "Dwarf_abbrev_declaration example_structs" example_structs "''abc''" 9 1] by simp

end
