(* ===== verification/DwarfLines.thy ===== *)
theory DwarfLines
  imports DwarfForward
begin

section \<open>Line programs (\<open>dwarf/lineprogram.py\<close>)\<close>

text \<open>
  A line program is byte code for a machine whose registers are a \<open>LineState\<close>; running it yields
  the list of its instructions, each with a copy of the registers if it adds a row to the line
  table. The variable \<open>operand\<close> of the source is set by some instructions and read by others, so
  it is part of the state of the run, as is the header, whose list of files grows.
\<close>

unbundle bit_operations_syntax

subsection \<open>Constants (\<open>dwarf/constants.py\<close>)\<close>

definition DW_LNS_copy :: int where "DW_LNS_copy = 0x01"
definition DW_LNS_advance_pc :: int where "DW_LNS_advance_pc = 0x02"
definition DW_LNS_advance_line :: int where "DW_LNS_advance_line = 0x03"
definition DW_LNS_set_file :: int where "DW_LNS_set_file = 0x04"
definition DW_LNS_set_column :: int where "DW_LNS_set_column = 0x05"
definition DW_LNS_negate_stmt :: int where "DW_LNS_negate_stmt = 0x06"
definition DW_LNS_set_basic_block :: int where "DW_LNS_set_basic_block = 0x07"
definition DW_LNS_const_add_pc :: int where "DW_LNS_const_add_pc = 0x08"
definition DW_LNS_fixed_advance_pc :: int where "DW_LNS_fixed_advance_pc = 0x09"
definition DW_LNS_set_prologue_end :: int where "DW_LNS_set_prologue_end = 0x0a"
definition DW_LNS_set_epilogue_begin :: int where "DW_LNS_set_epilogue_begin = 0x0b"
definition DW_LNS_set_isa :: int where "DW_LNS_set_isa = 0x0c"
definition DW_LNE_end_sequence :: int where "DW_LNE_end_sequence = 0x01"
definition DW_LNE_set_address :: int where "DW_LNE_set_address = 0x02"
definition DW_LNE_define_file :: int where "DW_LNE_define_file = 0x03"

lemmas DW_LN_defs = DW_LNS_copy_def DW_LNS_advance_pc_def DW_LNS_advance_line_def DW_LNS_set_file_def
  DW_LNS_set_column_def DW_LNS_negate_stmt_def DW_LNS_set_basic_block_def DW_LNS_const_add_pc_def
  DW_LNS_fixed_advance_pc_def DW_LNS_set_prologue_end_def DW_LNS_set_epilogue_begin_def DW_LNS_set_isa_def
  DW_LNE_end_sequence_def DW_LNE_set_address_def DW_LNE_define_file_def

subsection \<open>States and entries\<close>

record line_state =
  ls_address :: int
  ls_file :: int
  ls_line :: int
  ls_column :: int
  ls_is_stmt :: pyval
  ls_basic_block :: bool
  ls_end_sequence :: bool
  ls_prologue_end :: bool
  ls_epilogue_begin :: bool
  ls_isa :: int

definition LineState :: "pyval \<Rightarrow> line_state" where
  "LineState default_is_stmt = \<lparr>ls_address = 0, ls_file = 1, ls_line = 1, ls_column = 0,
     ls_is_stmt = default_is_stmt, ls_basic_block = False, ls_end_sequence = False,
     ls_prologue_end = False, ls_epilogue_begin = False, ls_isa = 0\<rparr>"

record line_entry =
  le_command :: int
  le_is_extended :: bool
  le_args :: "pyval list"
  le_state :: "line_state option"

record line_program =
  lp_header :: container
  lp_structs :: dwarf_structs
  lp_start :: int
  lp_end :: int
  lp_decoded :: "line_entry list option"

definition LineProgram :: "container \<Rightarrow> dwarf_structs \<Rightarrow> int \<Rightarrow> int \<Rightarrow> line_program" where
  "LineProgram header S start stop =
     \<lparr>lp_header = header, lp_structs = S, lp_start = start, lp_end = stop, lp_decoded = None\<rparr>"

record line_run =
  lr_stream :: pystream
  lr_header :: container
  lr_state :: line_state
  lr_entries :: "line_entry list"
  lr_operand :: "pyval option"

type_synonym 'a lm = "(line_run, 'a) st"

definition as_int :: "pyval \<Rightarrow> pyexc + int" where
  "as_int v = (case as_num v of None \<Rightarrow> Inl TypeError | Some i \<Rightarrow> Inr i)"

definition lp_getitem :: "string \<Rightarrow> pyval lm" where
  "lp_getitem name = (\<lambda>s. (container_getitem (lr_header s) name, s))"

definition lp_int :: "string \<Rightarrow> int lm" where
  "lp_int name = sbind (lp_getitem name) (\<lambda>v. slift (as_int v))"

definition lp_parse :: "nat \<Rightarrow> construct \<Rightarrow> int option \<Rightarrow> pyval lm" where
  "lp_parse fuel c pos = (\<lambda>s. case struct_parse fuel c pos (lr_stream s) of (r, t) \<Rightarrow> (r, s\<lparr>lr_stream := t\<rparr>))"

definition lp_number :: "nat \<Rightarrow> construct \<Rightarrow> int option \<Rightarrow> int lm" where
  "lp_number fuel c pos = sbind (lp_parse fuel c pos) (\<lambda>v. slift (as_int v))"

definition upd_state :: "(line_state \<Rightarrow> line_state) \<Rightarrow> unit lm" where
  "upd_state f = (\<lambda>s. (Inr (), s\<lparr>lr_state := f (lr_state s)\<rparr>))"

text \<open>An operand that is read goes to the variable.\<close>

definition lp_operand :: "nat \<Rightarrow> construct \<Rightarrow> int lm" where
  "lp_operand fuel c = sbind (lp_number fuel c None) (\<lambda>i s. (Inr i, s\<lparr>lr_operand := Some (PInt i)\<rparr>))"

definition stale_operand :: "pyval lm" where
  "stale_operand = (\<lambda>s. (case lr_operand s of None \<Rightarrow> Inl UnboundLocalError | Some v \<Rightarrow> Inr v, s))"

definition add_entry_new_state :: "int \<Rightarrow> pyval list \<Rightarrow> bool \<Rightarrow> unit lm" where
  "add_entry_new_state cmd args is_extended = (\<lambda>s. (Inr (), s\<lparr>
     lr_entries := lr_entries s @ [\<lparr>le_command = cmd, le_is_extended = is_extended, le_args = args, le_state = Some (lr_state s)\<rparr>],
     lr_state := (lr_state s)\<lparr>ls_basic_block := False, ls_prologue_end := False, ls_epilogue_begin := False\<rparr>\<rparr>))"

definition add_entry_old_state :: "int \<Rightarrow> pyval list \<Rightarrow> bool \<Rightarrow> unit lm" where
  "add_entry_old_state cmd args is_extended = (\<lambda>s. (Inr (), s\<lparr>
     lr_entries := lr_entries s @ [\<lparr>le_command = cmd, le_is_extended = is_extended, le_args = args, le_state = None\<rparr>]\<rparr>))"

subsection \<open>The instructions\<close>

definition py_floordiv :: "int \<Rightarrow> int \<Rightarrow> pyexc + int" where
  "py_floordiv a b = (if b = 0 then Inl ZeroDivisionError else Inr (a div b))"

definition py_mod :: "int \<Rightarrow> int \<Rightarrow> pyexc + int" where
  "py_mod a b = (if b = 0 then Inl ZeroDivisionError else Inr (a mod b))"

definition special_opcode :: "int \<Rightarrow> unit lm" where
  "special_opcode opcode =
     sbind (lp_int ''opcode_base'') (\<lambda>base. let adjusted_opcode = opcode - base in
     sbind (lp_int ''line_range'') (\<lambda>range. sbind (slift (py_floordiv adjusted_opcode range)) (\<lambda>q.
     sbind (lp_int ''minimum_instruction_length'') (\<lambda>minlen. let address_addend = q * minlen in
     sbind (upd_state (\<lambda>st. st\<lparr>ls_address := ls_address st + address_addend\<rparr>)) (\<lambda>_.
     sbind (lp_int ''line_base'') (\<lambda>line_base. sbind (slift (py_mod adjusted_opcode range)) (\<lambda>m.
     let line_addend = line_base + m in
     sbind (upd_state (\<lambda>st. st\<lparr>ls_line := ls_line st + line_addend\<rparr>)) (\<lambda>_.
     add_entry_new_state opcode [PInt line_addend, PInt address_addend] False))))))))"

text \<open>The stream is moved on from where it stands (\<open>os.SEEK_CUR\<close>).\<close>

definition lp_seek_on :: "int \<Rightarrow> unit lm" where
  "lp_seek_on n = (\<lambda>s. case stream_seek n 1 (lr_stream s) of (r, t) \<Rightarrow> (r, s\<lparr>lr_stream := t\<rparr>))"

definition extended_dispatch :: "nat \<Rightarrow> dwarf_structs \<Rightarrow> int \<Rightarrow> int \<Rightarrow> unit lm" where
  "extended_dispatch fuel S inst_len ex_opcode =
     (if ex_opcode = DW_LNE_end_sequence then
       sbind (upd_state (\<lambda>st. st\<lparr>ls_end_sequence := True\<rparr>)) (\<lambda>_.
       sbind (add_entry_new_state ex_opcode [] True) (\<lambda>_.
       sbind (lp_getitem ''default_is_stmt'') (\<lambda>v. upd_state (\<lambda>st. LineState v))))
     else if ex_opcode = DW_LNE_set_address then
       sbind (lp_operand fuel (Dwarf_target_addr S (Some ''''))) (\<lambda>operand.
       sbind (upd_state (\<lambda>st. st\<lparr>ls_address := operand\<rparr>)) (\<lambda>_.
       add_entry_old_state ex_opcode [PInt operand] True))
     else if ex_opcode = DW_LNE_define_file then
       sbind (lp_parse fuel (Dwarf_lineprog_file_entry S) None) (\<lambda>operand.
       sbind (\<lambda>s. (Inr (), s\<lparr>lr_operand := Some operand\<rparr>)) (\<lambda>_.
       sbind (lp_getitem ''file_entry'') (\<lambda>files. case files of
           PList fs \<Rightarrow> sbind (\<lambda>s. (Inr (), s\<lparr>lr_header := container_setitem (lr_header s) ''file_entry'' (PList (fs @ [operand]))\<rparr>))
             (\<lambda>_. add_entry_old_state ex_opcode [operand] True)
         | _ \<Rightarrow> sraise AttributeError)))
     else lp_seek_on (inst_len - 1))"

definition extended_opcode :: "nat \<Rightarrow> dwarf_structs \<Rightarrow> unit lm" where
  "extended_opcode fuel S =
     sbind (lp_number fuel (Dwarf_uleb128 S (Some '''')) None) (\<lambda>inst_len.
     sbind (lp_number fuel (Dwarf_uint8 S (Some '''')) None) (extended_dispatch fuel S inst_len))"

text \<open>The module does not import \<open>dwarf_assert\<close>.\<close>

definition standard_opcode :: "nat \<Rightarrow> dwarf_structs \<Rightarrow> int \<Rightarrow> unit lm" where
  "standard_opcode fuel S opcode =
     (if opcode = DW_LNS_copy then add_entry_new_state opcode [] False
      else if opcode = DW_LNS_advance_pc then
        sbind (lp_operand fuel (Dwarf_uleb128 S (Some ''''))) (\<lambda>operand.
        sbind (lp_int ''minimum_instruction_length'') (\<lambda>minlen. let address_addend = operand * minlen in
        sbind (upd_state (\<lambda>st. st\<lparr>ls_address := ls_address st + address_addend\<rparr>)) (\<lambda>_.
        add_entry_old_state opcode [PInt address_addend] False)))
      else if opcode = DW_LNS_advance_line then
        sbind (lp_operand fuel (Dwarf_sleb128 S (Some ''''))) (\<lambda>operand.
        upd_state (\<lambda>st. st\<lparr>ls_line := ls_line st + operand\<rparr>))
      else if opcode = DW_LNS_set_file then
        sbind (lp_operand fuel (Dwarf_uleb128 S (Some ''''))) (\<lambda>operand.
        sbind (upd_state (\<lambda>st. st\<lparr>ls_file := operand\<rparr>)) (\<lambda>_. add_entry_old_state opcode [PInt operand] False))
      else if opcode = DW_LNS_set_column then
        sbind (lp_operand fuel (Dwarf_uleb128 S (Some ''''))) (\<lambda>operand.
        sbind (upd_state (\<lambda>st. st\<lparr>ls_column := operand\<rparr>)) (\<lambda>_. add_entry_old_state opcode [PInt operand] False))
      else if opcode = DW_LNS_negate_stmt then
        sbind (upd_state (\<lambda>st. st\<lparr>ls_is_stmt := PBool (\<not> py_truth (ls_is_stmt st))\<rparr>)) (\<lambda>_.
        sbind stale_operand (\<lambda>operand. add_entry_old_state opcode [operand] False))
      else if opcode = DW_LNS_set_basic_block then
        sbind (upd_state (\<lambda>st. st\<lparr>ls_basic_block := True\<rparr>)) (\<lambda>_.
        sbind stale_operand (\<lambda>operand. add_entry_old_state opcode [operand] False))
      else if opcode = DW_LNS_const_add_pc then
        sbind (lp_int ''opcode_base'') (\<lambda>base. let adjusted_opcode = 255 - base in
        sbind (lp_int ''line_range'') (\<lambda>range. sbind (slift (py_floordiv adjusted_opcode range)) (\<lambda>q.
        sbind (lp_int ''minimum_instruction_length'') (\<lambda>minlen. let address_addend = q * minlen in
        sbind (upd_state (\<lambda>st. st\<lparr>ls_address := ls_address st + address_addend\<rparr>)) (\<lambda>_.
        add_entry_old_state opcode [PInt address_addend] False)))))
      else if opcode = DW_LNS_fixed_advance_pc then
        sbind (lp_operand fuel (Dwarf_uint16 S (Some ''''))) (\<lambda>operand.
        sbind (upd_state (\<lambda>st. st\<lparr>ls_address := ls_address st + operand\<rparr>)) (\<lambda>_. add_entry_old_state opcode [PInt operand] False))
      else if opcode = DW_LNS_set_prologue_end then
        sbind (upd_state (\<lambda>st. st\<lparr>ls_prologue_end := True\<rparr>)) (\<lambda>_. add_entry_old_state opcode [] False)
      else if opcode = DW_LNS_set_epilogue_begin then
        sbind (upd_state (\<lambda>st. st\<lparr>ls_epilogue_begin := True\<rparr>)) (\<lambda>_. add_entry_old_state opcode [] False)
      else if opcode = DW_LNS_set_isa then
        sbind (lp_operand fuel (Dwarf_uleb128 S (Some ''''))) (\<lambda>operand.
        sbind (upd_state (\<lambda>st. st\<lparr>ls_isa := operand\<rparr>)) (\<lambda>_. add_entry_old_state opcode [PInt operand] False))
      else sraise NameError)"

definition line_step :: "nat \<Rightarrow> dwarf_structs \<Rightarrow> int \<Rightarrow> unit lm" where
  "line_step fuel S offset =
     sbind (lp_number fuel (Dwarf_uint8 S (Some '''')) (Some offset)) (\<lambda>opcode.
     sbind (lp_int ''opcode_base'') (\<lambda>base.
       if base \<le> opcode then special_opcode opcode
       else if opcode = 0 then extended_opcode fuel S
       else standard_opcode fuel S opcode))"

fun line_loop :: "nat \<Rightarrow> nat \<Rightarrow> dwarf_structs \<Rightarrow> int \<Rightarrow> int \<Rightarrow> unit lm" where
  "line_loop 0 fuel S offset end_offset = sraise NoFuel"
| "line_loop (Suc k) fuel S offset end_offset =
     (if offset < end_offset then
        sbind (line_step fuel S offset) (\<lambda>_. (\<lambda>s. line_loop k fuel S (stream_tell (lr_stream s)) end_offset s))
      else sret ())"

definition start_run :: "container \<Rightarrow> pyval \<Rightarrow> pystream \<Rightarrow> line_run" where
  "start_run header default_is_stmt stream = \<lparr>lr_stream = stream, lr_header = header,
     lr_state = LineState default_is_stmt, lr_entries = [], lr_operand = None\<rparr>"

text \<open>The entries, and the program with its header as the run leaves it; \<open>get_entries\<close> runs it once.\<close>

definition decode_line_program :: "nat \<Rightarrow> line_program \<Rightarrow> pystream \<Rightarrow> (pyexc + line_entry list) \<times> line_program \<times> pystream" where
  "decode_line_program fuel P stream =
     (case container_getitem (lp_header P) ''default_is_stmt'' of
        Inl e \<Rightarrow> (Inl e, P, stream)
      | Inr v \<Rightarrow> (case line_loop fuel fuel (lp_structs P) (lp_start P) (lp_end P) (start_run (lp_header P) v stream) of
          (r, s) \<Rightarrow> (ebind r (\<lambda>_. Inr (lr_entries s)), P\<lparr>lp_header := lr_header s\<rparr>, lr_stream s)))"

definition get_entries :: "nat \<Rightarrow> line_program \<Rightarrow> pystream \<Rightarrow> (pyexc + line_entry list) \<times> line_program \<times> pystream" where
  "get_entries fuel P stream =
     (case lp_decoded P of
        Some es \<Rightarrow> (Inr es, P, stream)
      | None \<Rightarrow> (case decode_line_program fuel P stream of
          (Inl e, P', stream') \<Rightarrow> (Inl e, P', stream')
        | (Inr es, P', stream') \<Rightarrow> (Inr es, P'\<lparr>lp_decoded := Some es\<rparr>, stream')))"

subsection \<open>The machine\<close>

text \<open>
  The instructions of section 6.2.5 of the standard, and what they do to the registers and the table;
  an extended instruction with another opcode, and bytes of its own, is skipped.
\<close>

datatype line_instr =
    Special int | Copy | AdvancePc int | AdvanceLine int | SetFile int | SetColumn int | NegateStmt
  | SetBasicBlock | ConstAddPc | FixedAdvancePc int | SetPrologueEnd | SetEpilogueBegin | SetIsa int
  | EndSequence | SetAddress int | DefineFile container | UnknownExt int string

record line_params =
  par_base :: int
  par_range :: int
  par_minlen :: int
  par_line_base :: int
  par_default :: pyval

definition after_row :: "line_state \<Rightarrow> line_state" where
  "after_row st = st\<lparr>ls_basic_block := False, ls_prologue_end := False, ls_epilogue_begin := False\<rparr>"

fun exec_instr :: "line_params \<Rightarrow> line_instr \<Rightarrow> line_state \<Rightarrow> line_state \<times> line_state list" where
  "exec_instr P (Special op) st = (let st' = st
       \<lparr>ls_address := ls_address st + (op - par_base P) div par_range P * par_minlen P,
        ls_line := ls_line st + (par_line_base P + (op - par_base P) mod par_range P)\<rparr> in (after_row st', [st']))"
| "exec_instr P Copy st = (after_row st, [st])"
| "exec_instr P (AdvancePc n) st = (st\<lparr>ls_address := ls_address st + n * par_minlen P\<rparr>, [])"
| "exec_instr P (AdvanceLine n) st = (st\<lparr>ls_line := ls_line st + n\<rparr>, [])"
| "exec_instr P (SetFile n) st = (st\<lparr>ls_file := n\<rparr>, [])"
| "exec_instr P (SetColumn n) st = (st\<lparr>ls_column := n\<rparr>, [])"
| "exec_instr P NegateStmt st = (st\<lparr>ls_is_stmt := PBool (\<not> py_truth (ls_is_stmt st))\<rparr>, [])"
| "exec_instr P SetBasicBlock st = (st\<lparr>ls_basic_block := True\<rparr>, [])"
| "exec_instr P ConstAddPc st =
     (st\<lparr>ls_address := ls_address st + (255 - par_base P) div par_range P * par_minlen P\<rparr>, [])"
| "exec_instr P (FixedAdvancePc n) st = (st\<lparr>ls_address := ls_address st + n\<rparr>, [])"
| "exec_instr P SetPrologueEnd st = (st\<lparr>ls_prologue_end := True\<rparr>, [])"
| "exec_instr P SetEpilogueBegin st = (st\<lparr>ls_epilogue_begin := True\<rparr>, [])"
| "exec_instr P (SetIsa n) st = (st\<lparr>ls_isa := n\<rparr>, [])"
| "exec_instr P EndSequence st = (LineState (par_default P), [st\<lparr>ls_end_sequence := True\<rparr>])"
| "exec_instr P (SetAddress n) st = (st\<lparr>ls_address := n\<rparr>, [])"
| "exec_instr P (DefineFile f) st = (st, [])"
| "exec_instr P (UnknownExt ex c) st = (st, [])"

fun exec_rows :: "line_params \<Rightarrow> line_instr list \<Rightarrow> line_state \<Rightarrow> line_state list" where
  "exec_rows P [] st = []"
| "exec_rows P (i # instrs) st = (case exec_instr P i st of (st', rows) \<Rightarrow> rows @ exec_rows P instrs st')"

text \<open>The two instructions that report the last operand, and those that read one.\<close>

fun reports_operand :: "line_instr \<Rightarrow> bool" where
  "reports_operand NegateStmt = True"
| "reports_operand SetBasicBlock = True"
| "reports_operand _ = False"

fun reads_operand :: "line_instr \<Rightarrow> bool" where
  "reads_operand (AdvancePc n) = True" | "reads_operand (AdvanceLine n) = True"
| "reads_operand (SetFile n) = True" | "reads_operand (SetColumn n) = True"
| "reads_operand (FixedAdvancePc n) = True" | "reads_operand (SetIsa n) = True"
| "reads_operand (SetAddress n) = True" | "reads_operand (DefineFile f) = True"
| "reads_operand _ = False"

fun operands_ok :: "bool \<Rightarrow> line_instr list \<Rightarrow> bool" where
  "operands_ok bound [] = True"
| "operands_ok bound (i # instrs) =
     ((reports_operand i \<longrightarrow> bound) \<and> operands_ok (bound \<or> reads_operand i) instrs)"

subsection \<open>Encoded programs\<close>

fun opcode_of :: "line_instr \<Rightarrow> int" where
  "opcode_of (Special op) = op" | "opcode_of Copy = 1" | "opcode_of (AdvancePc n) = 2"
| "opcode_of (AdvanceLine n) = 3" | "opcode_of (SetFile n) = 4" | "opcode_of (SetColumn n) = 5"
| "opcode_of NegateStmt = 6" | "opcode_of SetBasicBlock = 7" | "opcode_of ConstAddPc = 8"
| "opcode_of (FixedAdvancePc n) = 9" | "opcode_of SetPrologueEnd = 10" | "opcode_of SetEpilogueBegin = 11"
| "opcode_of (SetIsa n) = 12" | "opcode_of EndSequence = 0" | "opcode_of (SetAddress n) = 0"
| "opcode_of (DefineFile f) = 0" | "opcode_of (UnknownExt ex c) = 0"

definition ext_len :: "int \<Rightarrow> int \<Rightarrow> string \<Rightarrow> string \<Rightarrow> bool" where
  "ext_len n ex_opcode b c = (\<exists>l. leb_bytes l \<and> uleb_value l = n \<and> b = l @ chr_c ex_opcode # c)"

definition ext_dec :: "int \<Rightarrow> string \<Rightarrow> string \<Rightarrow> bool" where
  "ext_dec ex_opcode b c = (\<exists>n. ext_len n ex_opcode b c)"

fun operand_dec :: "dwarf_structs \<Rightarrow> line_instr \<Rightarrow> string \<Rightarrow> bool" where
  "operand_dec S (AdvancePc n) b = uleb_dec [] b (PInt n)"
| "operand_dec S (AdvanceLine n) b = sleb_dec [] b (PInt n)"
| "operand_dec S (SetFile n) b = uleb_dec [] b (PInt n)"
| "operand_dec S (SetColumn n) b = uleb_dec [] b (PInt n)"
| "operand_dec S (FixedAdvancePc n) b = num_dec S Fmt_H [] b (PInt n)"
| "operand_dec S (SetIsa n) b = uleb_dec [] b (PInt n)"
| "operand_dec S EndSequence b = ext_dec 1 b []"
| "operand_dec S (SetAddress n) b = (\<exists>c. ext_dec 2 b c \<and> num_dec S (target_format S) [] c (PInt n))"
| "operand_dec S (DefineFile f) b = (\<exists>c. ext_dec 3 b c \<and> file_dec [] c (PObj f))"
| "operand_dec S (UnknownExt ex c) b = (0 \<le> ex \<and> ex < 256 \<and> ex \<notin> {1, 2, 3} \<and> ext_len (1 + int (length c)) ex b c)"
| "operand_dec S i b = (b = [])"

definition instr_dec :: "dwarf_structs \<Rightarrow> line_params \<Rightarrow> line_instr \<Rightarrow> string \<Rightarrow> bool" where
  "instr_dec S P i b = (\<exists>c. b = chr_c (opcode_of i) # c \<and> operand_dec S i c \<and>
     (case i of Special op \<Rightarrow> par_base P \<le> op \<and> 0 \<le> op \<and> op < 256 | _ \<Rightarrow> opcode_of i < par_base P))"

inductive program_dec :: "dwarf_structs \<Rightarrow> line_params \<Rightarrow> line_instr list \<Rightarrow> string \<Rightarrow> bool" where
  program_Nil: "program_dec S P [] []"
| program_Cons: "instr_dec S P i a \<Longrightarrow> program_dec S P instrs b \<Longrightarrow> program_dec S P (i # instrs) (a @ b)"

definition header_dec :: "line_params \<Rightarrow> container \<Rightarrow> bool" where
  "header_dec P H = (map_of H ''opcode_base'' = Some (PInt (par_base P)) \<and> map_of H ''line_range'' = Some (PInt (par_range P)) \<and>
     map_of H ''minimum_instruction_length'' = Some (PInt (par_minlen P)) \<and> map_of H ''line_base'' = Some (PInt (par_line_base P)) \<and>
     map_of H ''default_is_stmt'' = Some (par_default P) \<and> (\<exists>fs. map_of H ''file_entry'' = Some (PList fs)))"

subsection \<open>The decoder runs the machine\<close>

definition rows_of :: "line_entry list \<Rightarrow> line_state list" where
  "rows_of es = concat (map (\<lambda>e. case le_state e of None \<Rightarrow> [] | Some st \<Rightarrow> [st]) es)"

lemma rows_of_simps [simp]: "rows_of [] = []" "rows_of (es @ fs) = rows_of es @ rows_of fs"
  "rows_of [e] = (case le_state e of None \<Rightarrow> [] | Some st \<Rightarrow> [st])"
  by (simp_all add: rows_of_def)

lemma lp_parse_at:
  assumes "decoder c dec" "dec [] b v" "lr_stream s = BytesIO d q" "drop p d = b @ r" "length d < fuel" "p \<le> length d"
  shows "lp_parse fuel c (Some (int p)) s = (Inr v, s\<lparr>lr_stream := BytesIO d (p + length b)\<rparr>)"
    and "q = p \<Longrightarrow> lp_parse fuel c None s = (Inr v, s\<lparr>lr_stream := BytesIO d (p + length b)\<rparr>)"
  using decoder.parse_at [OF assms(1,2,4-6)] assms(3) by (simp_all add: lp_parse_def)

lemma lp_number_at:
  assumes "decoder c dec" "dec [] b (PInt i)" "lr_stream s = BytesIO d q" "drop p d = b @ r" "length d < fuel" "p \<le> length d"
  shows "lp_number fuel c (Some (int p)) s = (Inr i, s\<lparr>lr_stream := BytesIO d (p + length b)\<rparr>)"
    and "q = p \<Longrightarrow> lp_number fuel c None s = (Inr i, s\<lparr>lr_stream := BytesIO d (p + length b)\<rparr>)"
    and "q = p \<Longrightarrow> lp_operand fuel c s = (Inr i, s\<lparr>lr_stream := BytesIO d (p + length b), lr_operand := Some (PInt i)\<rparr>)"
  using lp_parse_at [OF assms] by (simp_all add: lp_number_def lp_operand_def as_int_def sbind_apply)

lemma byte_dec: "0 \<le> i \<Longrightarrow> i < 256 \<Longrightarrow> num_dec S Fmt_B vars [chr_c i] (PInt i)"
  by (simp add: int_dec_def int_enc_def pack_def fmt_min_def fmt_max_def fmt_signed_def)

lemma header_ints:
  assumes "header_dec P (lr_header s)"
  shows "lp_int ''opcode_base'' s = (Inr (par_base P), s)" "lp_int ''line_range'' s = (Inr (par_range P), s)"
    "lp_int ''minimum_instruction_length'' s = (Inr (par_minlen P), s)" "lp_int ''line_base'' s = (Inr (par_line_base P), s)"
    "lp_getitem ''default_is_stmt'' s = (Inr (par_default P), s)"
  using assms by (simp_all add: header_dec_def lp_int_def lp_getitem_def container_getitem_def dict_get_def as_int_def sbind_apply)

text \<open>The instruction \<open>i\<close> was run in \<open>s\<close>, up to the position \<open>p\<close>.\<close>

definition ran :: "line_params \<Rightarrow> line_instr \<Rightarrow> line_run \<Rightarrow> string \<Rightarrow> nat \<Rightarrow> (pyexc + unit) \<times> line_run \<Rightarrow> bool" where
  "ran P i s d p res = (\<exists>s'. res = (Inr (), s') \<and> lr_stream s' = BytesIO d p \<and> header_dec P (lr_header s') \<and>
     lr_state s' = fst (exec_instr P i (lr_state s)) \<and>
     rows_of (lr_entries s') = rows_of (lr_entries s) @ snd (exec_instr P i (lr_state s)) \<and>
     (lr_operand s \<noteq> None \<or> reads_operand i \<longrightarrow> lr_operand s' \<noteq> None))"

lemmas run_defs = ran_def sbind_apply upd_state_def add_entry_old_state_def add_entry_new_state_def
  after_row_def py_floordiv_def py_mod_def Let_def

lemma special_ran:
  assumes "header_dec P (lr_header s)" "par_range P \<noteq> 0" "lr_stream s = BytesIO d p"
  shows "ran P (Special op) s d p (special_opcode op s)"
  using assms by (simp add: run_defs special_opcode_def header_ints)

lemma standard_ran:
  assumes "header_dec P (lr_header s)" "par_range P \<noteq> 0" "lr_stream s = BytesIO d p" "drop p d = c @ r" "length d < fuel" "p \<le> length d"
    and "operand_dec S i c" "0 < opcode_of i" "\<forall>op. i \<noteq> Special op" "reports_operand i \<Longrightarrow> lr_operand s \<noteq> None"
  shows "ran P i s d (p + length c) (standard_opcode fuel S (opcode_of i) s)"
proof -
  note at = lp_number_at(3) [OF decoder_uleb _ assms(3-6) refl] lp_number_at(3) [OF decoder_sleb _ assms(3-6) refl]
    lp_number_at(3) [OF decoder_int _ assms(3-6) refl]
  note opcode = standard_opcode_def DW_LN_defs dwarf_leb dwarf_formats
  show ?thesis
  proof (cases i)
    case (AdvancePc n)
    then show ?thesis using assms at(1) [of n] header_ints [of P] by (simp add: run_defs opcode)
  next
    case (AdvanceLine n)
    then show ?thesis using assms at(2) [of n] by (simp add: run_defs opcode)
  next
    case (SetFile n)
    then show ?thesis using assms at(1) [of n] by (simp add: run_defs opcode)
  next
    case (SetColumn n)
    then show ?thesis using assms at(1) [of n] by (simp add: run_defs opcode)
  next
    case (FixedAdvancePc n)
    then show ?thesis using assms at(3) [of _ _ n] by (simp add: run_defs opcode)
  next
    case (SetIsa n)
    then show ?thesis using assms at(1) [of n] by (simp add: run_defs opcode)
  next
    case NegateStmt
    then show ?thesis using assms by (auto simp: run_defs opcode stale_operand_def)
  next
    case SetBasicBlock
    then show ?thesis using assms by (auto simp: run_defs opcode stale_operand_def)
  next
    case ConstAddPc
    then show ?thesis using assms header_ints [of P] by (simp add: run_defs opcode)
  qed (use assms in \<open>simp_all add: run_defs opcode\<close>)
qed

lemma extended_prefix:
  assumes "lr_stream s = BytesIO d p" "drop p d = c @ r" "length d < fuel" "ext_len n ex c b" "0 \<le> ex" "ex < 256"
  obtains p' where "p' + length b = p + length c" "drop p' d = b @ r" "p' \<le> length d"
    "extended_opcode fuel S s = extended_dispatch fuel S n ex (s\<lparr>lr_stream := BytesIO d p'\<rparr>)"
proof -
  obtain l where l: "leb_bytes l" "c = l @ chr_c ex # b" and n: "uleb_value l = n" using assms(4) by (auto simp: ext_len_def)
  have ne: "c @ r \<noteq> []" using l by simp
  then have p: "p \<le> length d" using assms(2) by (metis drop_all nle_le)
  let ?p = "p + length l"
  have d2: "drop ?p d = [chr_c ex] @ b @ r"
    using assms(2) l(2) by (metis append.assoc append_Cons append_Nil append_eq_conv_conj add.commute drop_drop)
  then have p2: "?p < length d" by (metis append_Cons drop_eq_Nil leI list.distinct(1))
  have d3: "drop (Suc ?p) d = b @ r"
    using d2 by (metis add.commute append_Cons append_Nil drop_drop drop0 drop_Suc_Cons plus_1_eq_Suc)
  have 1: "lp_number fuel (ULEB128 (Some '''')) None s = (Inr (uleb_value l), s\<lparr>lr_stream := BytesIO d ?p\<rparr>)"
    using lp_number_at(2) [OF decoder_uleb _ assms(1) _ assms(3) p refl, of l "uleb_value l" "chr_c ex # b @ r"] assms(2) l
    by (simp add: uleb_dec_def)
  have 2: "lp_number fuel (FormatField (Some '''') (dwarf_endian S) Fmt_B) None (s\<lparr>lr_stream := BytesIO d ?p\<rparr>) =
      (Inr ex, s\<lparr>lr_stream := BytesIO d (Suc ?p)\<rparr>)"
    using lp_number_at(2) [OF decoder_int byte_dec [OF assms(5,6)] _ d2 assms(3) _ refl, of "s\<lparr>lr_stream := BytesIO d ?p\<rparr>"] p2
    by simp
  show thesis
    by (rule that [of "Suc ?p"])
      (use 1 2 d3 p2 l n in \<open>simp_all add: extended_opcode_def dwarf_leb dwarf_formats sbind_apply\<close>)
qed

lemma extended_ran:
  assumes "header_dec P (lr_header s)" "lr_stream s = BytesIO d p" "drop p d = c @ r" "length d < fuel"
    and "operand_dec S i c" "opcode_of i = 0" "\<forall>op. i \<noteq> Special op"
  shows "ran P i s d (p + length c) (extended_opcode fuel S s)"
proof -
  note opcode = extended_dispatch_def DW_LN_defs dwarf_formats
  show ?thesis
  proof (cases i)
    case EndSequence
    then obtain n where "ext_len n 1 c []" using assms(5) by (auto simp: ext_dec_def)
    from extended_prefix [OF assms(2-4) this] obtain p' where "p' = p + length c"
      "extended_opcode fuel S s = extended_dispatch fuel S n 1 (s\<lparr>lr_stream := BytesIO d p'\<rparr>)" by auto
    then show ?thesis using EndSequence assms(1) header_ints [of P] by (simp add: run_defs opcode)
  next
    case (SetAddress n)
    then obtain b k where b: "ext_len k 2 c b" "num_dec S (target_format S) [] b (PInt n)" using assms(5) by (auto simp: ext_dec_def)
    from extended_prefix [OF assms(2-4) b(1)] obtain p' where p': "p' + length b = p + length c" "drop p' d = b @ r" "p' \<le> length d"
      "extended_opcode fuel S s = extended_dispatch fuel S k 2 (s\<lparr>lr_stream := BytesIO d p'\<rparr>)" by auto
    show ?thesis using SetAddress assms(1) p' lp_number_at(3) [OF decoder_int b(2) _ p'(2) assms(4) p'(3) refl, of "s\<lparr>lr_stream := BytesIO d p'\<rparr>"]
      by (simp add: run_defs opcode)
  next
    case (DefineFile f)
    then obtain b k where b: "ext_len k 3 c b" "file_dec [] b (PObj f)" using assms(5) by (auto simp: ext_dec_def)
    from extended_prefix [OF assms(2-4) b(1)] obtain p' where p': "p' + length b = p + length c" "drop p' d = b @ r" "p' \<le> length d"
      "extended_opcode fuel S s = extended_dispatch fuel S k 3 (s\<lparr>lr_stream := BytesIO d p'\<rparr>)" by auto
    show ?thesis using DefineFile assms(1) p' lp_parse_at(2) [OF decoder_file_entry b(2) _ p'(2) assms(4) p'(3) refl, of "s\<lparr>lr_stream := BytesIO d p'\<rparr>" S]
      by (auto simp: run_defs opcode lp_getitem_def header_dec_def container_getitem_def container_setitem_def dict_get_def)
  next
    case (UnknownExt ex b)
    then have ex: "0 \<le> ex" "ex < 256" "ex \<notin> {1, 2, 3}" "ext_len (1 + int (length b)) ex c b" using assms(5) by auto
    from extended_prefix [OF assms(2-4) ex(4,1,2)] obtain p' where p': "p' + length b = p + length c"
      "extended_opcode fuel S s = extended_dispatch fuel S (1 + int (length b)) ex (s\<lparr>lr_stream := BytesIO d p'\<rparr>)" by auto
    have "nat (int p' + int (length b)) = p + length c" using p'(1) by simp
    then show ?thesis using UnknownExt assms(1) p'(2) ex(3) by (simp add: run_defs opcode lp_seek_on_def)
  qed (use assms in auto)
qed

lemma line_step_ran:
  assumes "header_dec P (lr_header s)" "par_range P \<noteq> 0" "lr_stream s = BytesIO d q" "drop p d = b @ r" "length d < fuel"
    and "instr_dec S P i b" "reports_operand i \<Longrightarrow> lr_operand s \<noteq> None"
  shows "ran P i s d (p + length b) (line_step fuel S (int p) s)"
proof -
  obtain c where c: "b = chr_c (opcode_of i) # c" "operand_dec S i c"
    "case i of Special op \<Rightarrow> par_base P \<le> op \<and> 0 \<le> op \<and> op < 256 | _ \<Rightarrow> opcode_of i < par_base P"
    using assms(6) by (auto simp: instr_dec_def)
  have p: "p < length d" using assms(4) c(1) by (metis append_Cons drop_eq_Nil leI list.distinct(1))
  have op: "0 \<le> opcode_of i" "opcode_of i < 256" using c(3) by (cases i; simp)+
  let ?s = "s\<lparr>lr_stream := BytesIO d (Suc p)\<rparr>"
  have d: "drop (Suc p) d = c @ r" using assms(4) c(1) by (metis append_Cons drop_Suc drop_tl list.sel(3))
  have read: "lp_number fuel (Dwarf_uint8 S (Some '''')) (Some (int p)) s = (Inr (opcode_of i), ?s)"
    using lp_number_at(1) [OF decoder_int byte_dec [OF op] assms(3) _ assms(5), of p "c @ r"] p assms(4) c(1)
    by (simp add: dwarf_formats)
  have "ran P i s d (Suc p + length c) res = ran P i ?s d (Suc p + length c) res" for res by (simp add: ran_def)
  moreover have "ran P i ?s d (Suc p + length c) (line_step fuel S (int p) s)"
  proof (cases "\<exists>op. i = Special op")
    case True
    then show ?thesis using special_ran [of P ?s d "Suc p"] assms(1,2) c read header_ints [of P ?s]
      by (auto simp: line_step_def sbind_apply)
  next
    case False
    then have base: "opcode_of i < par_base P" using c(3) by (cases i) auto
    show ?thesis
    proof (cases "opcode_of i = 0")
      case True
      then show ?thesis using extended_ran [of P ?s d "Suc p" c r fuel S i] assms(1,5) d c(2) False base read header_ints [of P ?s]
        by (simp add: line_step_def sbind_apply)
    next
      case pos: False
      then show ?thesis using standard_ran [of P ?s d "Suc p" c r fuel S i] assms(1,2,5,7) d c(2) False base read op p header_ints [of P ?s]
        by (simp add: line_step_def sbind_apply)
    qed
  qed
  ultimately show ?thesis using c(1) by simp
qed

lemma line_loop_rows:
  assumes "program_dec S P instrs b" "header_dec P (lr_header s)" "par_range P \<noteq> 0" "lr_stream s = BytesIO d q" "drop p d = b @ r"
    and "length d < fuel" "length b < k" "operands_ok (lr_operand s \<noteq> None) instrs" "p + length b = n"
  shows "\<exists>s'. line_loop k fuel S (int p) (int n) s = (Inr (), s') \<and>
     rows_of (lr_entries s') = rows_of (lr_entries s) @ exec_rows P instrs (lr_state s)"
  using assms
proof (induction arbitrary: s p q k rule: program_dec.induct)
  case (program_Nil S P)
  then show ?case by (cases k) auto
next
  case (program_Cons S P i a instrs b)
  obtain k' where k: "k = Suc k'" using program_Cons.prems(6) by (cases k) auto
  have a: "a \<noteq> []" using program_Cons.hyps(1) by (auto simp: instr_dec_def)
  have "ran P i s d (p + length a) (line_step fuel S (int p) s)"
    using program_Cons.prems program_Cons.hyps(1) by (intro line_step_ran [where b = a and r = "b @ r" and q = q]) auto
  then obtain s' where s': "line_step fuel S (int p) s = (Inr (), s')" "lr_stream s' = BytesIO d (p + length a)"
    "header_dec P (lr_header s')" "lr_state s' = fst (exec_instr P i (lr_state s))"
    "rows_of (lr_entries s') = rows_of (lr_entries s) @ snd (exec_instr P i (lr_state s))"
    "lr_operand s \<noteq> None \<or> reads_operand i \<longrightarrow> lr_operand s' \<noteq> None" by (auto simp: ran_def)
  have mono: "operands_ok q instrs \<Longrightarrow> (q \<Longrightarrow> q') \<Longrightarrow> operands_ok q' instrs" for q q'
  proof (induction instrs arbitrary: q q')
    case (Cons j js)
    have "operands_ok (q' \<or> reads_operand j) js" by (rule Cons.IH [of "q \<or> reads_operand j"]) (use Cons.prems in auto)
    then show ?case using Cons.prems by auto
  qed simp
  have "\<exists>s''. line_loop k' fuel S (int (p + length a)) (int n) s' = (Inr (), s'') \<and>
     rows_of (lr_entries s'') = rows_of (lr_entries s') @ exec_rows P instrs (lr_state s')"
  proof (rule program_Cons.IH [OF s'(3) program_Cons.prems(2) s'(2)])
    show "drop (p + length a) d = b @ r" using program_Cons.prems(4) by (metis add.commute append.assoc append_eq_conv_conj drop_drop)
    show "length b < k'" using program_Cons.prems(6) a k by (cases a) auto
    show "operands_ok (lr_operand s' \<noteq> None) instrs"
      using program_Cons.prems(7) s'(6) by (auto intro: mono)
  qed (use program_Cons.prems in auto)
  moreover have "int p < int n" using a program_Cons.prems(8) by (cases a) auto
  ultimately show ?case using s' by (auto simp: k sbind_apply split: prod.split)
qed

text \<open>C4: On the encoding of a list of line program instructions, unknown extended instructions included, decoding returns the rows of the state machine of the standard and stops at the end of the program; the header must have a line_range other than 0, and an instruction that reads an operand must come before the first NegateStmt or SetBasicBlock, which report the operand read last.\<close>

theorem line_program_rows:
  assumes "program_dec S P instrs b" "header_dec P H" "par_range P \<noteq> 0" "operands_ok False instrs"
    and "length (x @ b @ r) < fuel"
  shows "\<exists>es. fst (get_entries fuel (LineProgram H S (int (length x)) (int (length x + length b))) (BytesIO (x @ b @ r) q)) = Inr es \<and>
    rows_of es = exec_rows P instrs (LineState (par_default P))"
proof -
  have "\<exists>s'. line_loop fuel fuel S (int (length x)) (int (length x + length b)) (start_run H (par_default P) (BytesIO (x @ b @ r) q)) = (Inr (), s') \<and>
     rows_of (lr_entries s') = [] @ exec_rows P instrs (LineState (par_default P))"
    using line_loop_rows [OF assms(1) _ assms(3), of "start_run H (par_default P) (BytesIO (x @ b @ r) q)" "x @ b @ r" q "length x" r fuel fuel]
      assms(2,4,5) by (simp add: start_run_def)
  moreover have "container_getitem H ''default_is_stmt'' = Inr (par_default P)"
    using assms(2) by (simp add: header_dec_def container_getitem_def dict_get_def)
  ultimately show ?thesis by (auto simp: get_entries_def decode_line_program_def LineProgram_def)
qed

subsection \<open>Decoding ends\<close>

definition onward :: "nat \<Rightarrow> 'a lm \<Rightarrow> bool" where
  "onward fuel m = (\<forall>s d p r s'. lr_stream s = BytesIO d p \<longrightarrow> length d < fuel \<longrightarrow> m s = (r, s') \<longrightarrow>
     r \<noteq> Inl NoFuel \<and> (\<exists>p'\<ge>p. lr_stream s' = BytesIO d p'))"

named_theorems onward_intros \<open>introduction rules for \<open>onward\<close>\<close>

lemma onwardD: "onward fuel m \<Longrightarrow> m s = (r, s') \<Longrightarrow> lr_stream s = BytesIO d p \<Longrightarrow> length d < fuel \<Longrightarrow>
    r \<noteq> Inl NoFuel \<and> (\<exists>p'\<ge>p. lr_stream s' = BytesIO d p')"
  by (auto simp: onward_def)

lemma onward_prims [onward_intros]:
  "onward fuel (sret x)" "e \<noteq> NoFuel \<Longrightarrow> onward fuel (sraise e)" "q \<noteq> Inl NoFuel \<Longrightarrow> onward fuel (slift q)"
  "onward fuel (lp_getitem n)" "onward fuel (upd_state f)" "onward fuel (add_entry_old_state c as x)"
  "onward fuel (add_entry_new_state c as x)" "onward fuel stale_operand"
  "(\<And>s. lr_stream (g s) = lr_stream s) \<Longrightarrow> onward fuel (\<lambda>s. (Inr y, g s))"
  by (auto simp: onward_def lp_getitem_def upd_state_def add_entry_old_state_def add_entry_new_state_def stale_operand_def
      container_getitem_def dict_get_def split: option.splits)

lemma onward_sbind [onward_intros]:
  assumes "onward fuel m" "\<And>x. onward fuel (f x)"
  shows "onward fuel (sbind m f)"
  unfolding onward_def
proof (intro allI impI)
  fix s :: line_run and d p r s'
  assume s: "lr_stream s = BytesIO d p" "length d < fuel" and run: "sbind m f s = (r, s')"
  obtain r1 s1 where 1: "m s = (r1, s1)" by fastforce
  obtain p1 where p1: "r1 \<noteq> Inl NoFuel" "p \<le> p1" "lr_stream s1 = BytesIO d p1" using onwardD [OF assms(1) 1 s] by blast
  show "r \<noteq> Inl NoFuel \<and> (\<exists>p'\<ge>p. lr_stream s' = BytesIO d p')"
  proof (cases r1)
    case (Inl e)
    then show ?thesis using run 1 p1 by (auto simp: sbind_apply)
  next
    case (Inr x)
    then have "f x s1 = (r, s')" using run 1 by (simp add: sbind_apply)
    from onwardD [OF assms(2) this p1(3) s(2)] p1(2) show ?thesis by (meson le_trans)
  qed
qed

lemma onward_if [onward_intros]: "onward fuel m \<Longrightarrow> onward fuel m' \<Longrightarrow> onward fuel (if b then m else m')"
  by simp

lemma onward_Let [onward_intros]: "(\<And>x. onward fuel (f x)) \<Longrightarrow> onward fuel (let x = a in f x)"
  by simp

lemma as_int_raises [simp]: "as_int v \<noteq> Inl NoFuel"
  by (simp add: as_int_def split: option.split)

lemma onward_int [onward_intros]: "onward fuel (lp_int n)"
  unfolding lp_int_def by (intro onward_intros) simp_all

lemma onward_parse [onward_intros]: "forward 0 (con_parse c) \<Longrightarrow> onward fuel (lp_parse fuel c None)"
  unfolding onward_def
proof (intro allI impI)
  fix s :: line_run and d p r s'
  assume c: "forward 0 (con_parse c)" and s: "lr_stream s = BytesIO d p" "length d < fuel" "lp_parse fuel c None s = (r, s')"
  from struct_parse_forward [OF c s(2), of None p] s(1,3)
  show "r \<noteq> Inl NoFuel \<and> (\<exists>p'\<ge>p. lr_stream s' = BytesIO d p')" by (auto simp: lp_parse_def)
qed

lemma onward_number [onward_intros]: "forward 0 (con_parse c) \<Longrightarrow> onward fuel (lp_number fuel c None)"
  unfolding lp_number_def by (intro onward_intros) simp_all

lemma onward_operand [onward_intros]: "forward 0 (con_parse c) \<Longrightarrow> onward fuel (lp_operand fuel c)"
  unfolding lp_operand_def by (intro onward_intros) simp_all

text \<open>
  An unknown extended instruction of length 0 sends the stream one byte back, to its own opcode; that
  is still behind the length, which takes a byte itself.
\<close>

lemma extended_length:
  assumes "lr_stream s = BytesIO d p" "length d < fuel" "lp_number fuel (ULEB128 n) None s = (r, s')"
  shows "r \<noteq> Inl NoFuel \<and> (\<exists>p'\<ge>p. lr_stream s' = BytesIO d p' \<and> (\<forall>i. r = Inr i \<longrightarrow> 0 \<le> i \<and> p < p'))"
proof -
  have run: "struct_parse fuel (ULEB128 n) None (BytesIO d p) = (case leb_prefix (drop p d) of
      None \<Rightarrow> (Inl ELFParseError, BytesIO d (max p (length d))) | Some bs \<Rightarrow> (Inr (PInt (uleb_value bs)), BytesIO d (p + length bs)))"
    using assms(2) uleb_run [of "start_state fuel (BytesIO d p)" d p n]
    by (simp add: struct_parse_def scatch_def sbind_apply parse_stream_def start_state_def is_construct_error_def split: option.split)
  show ?thesis
  proof (cases "leb_prefix (drop p d)")
    case None
    then show ?thesis using assms(1,3) run by (auto simp: lp_number_def lp_parse_def sbind_apply)
  next
    case (Some bs)
    then have "bs \<noteq> []" using leb_prefix_Some leb_bytes_nonempty by blast
    then show ?thesis using assms(1,3) run Some uleb_value_bounds(1) [of bs]
      by (auto simp: lp_number_def lp_parse_def sbind_apply as_int_def)
  qed
qed

lemma extended_onward: "onward fuel (extended_opcode fuel S)"
  unfolding onward_def
proof (intro allI impI)
  fix s :: line_run and d p r s'
  assume s: "lr_stream s = BytesIO d p" "length d < fuel" and run: "extended_opcode fuel S s = (r, s')"
  let ?len = "lp_number fuel (ULEB128 (Some '''')) None" and ?op = "lp_number fuel (FormatField (Some '''') (dwarf_endian S) Fmt_B) None"
  obtain r1 s1 where 1: "?len s = (r1, s1)" by fastforce
  from extended_length [OF s 1] obtain p1 where p1: "r1 \<noteq> Inl NoFuel" "p \<le> p1" "lr_stream s1 = BytesIO d p1"
    "\<And>i. r1 = Inr i \<Longrightarrow> 0 \<le> i \<and> p < p1" by blast
  obtain r2 s2 where 2: "?op s1 = (r2, s2)" by fastforce
  have "onward fuel ?op" by (intro onward_intros forward_intros)
  from onwardD [OF this 2 p1(3) s(2)] obtain p2 where p2: "r2 \<noteq> Inl NoFuel" "p1 \<le> p2" "lr_stream s2 = BytesIO d p2" by blast
  note opcode = extended_opcode_def dwarf_leb dwarf_formats sbind_apply 1
  show "r \<noteq> Inl NoFuel \<and> (\<exists>p'\<ge>p. lr_stream s' = BytesIO d p')"
  proof (cases r1)
    case (Inl e)
    then show ?thesis using run p1 by (auto simp: opcode)
  next
    case len: (Inr n)
    show ?thesis
    proof (cases r2)
      case (Inl e)
      then show ?thesis using run p1 p2 len 2 by (auto simp: opcode intro: order_trans)
    next
      case (Inr ex)
      then have ext: "extended_dispatch fuel S n ex s2 = (r, s')" using run len 2 by (simp add: opcode)
      show ?thesis
      proof (cases "ex \<in> {1, 2, 3}")
        case True
        then have "onward fuel (extended_dispatch fuel S n ex)"
          unfolding extended_dispatch_def DW_LN_defs dwarf_formats
          by (auto intro!: onward_intros forward_num forward_mono [OF forward_file_entry] split: pyval.split)
        from onwardD [OF this ext p2(3) s(2)] p1(2) p2(2) show ?thesis by (meson order_trans)
      next
        case False
        have "p \<le> nat (int p2 + (n - 1))" using p1(4) [OF len] p2(2) by linarith
        then show ?thesis using ext False p2(3) by (auto simp: extended_dispatch_def DW_LN_defs lp_seek_on_def)
      qed
    qed
  qed
qed

lemma onward_opcodes [onward_intros]:
  "onward fuel (special_opcode op)" "onward fuel (extended_opcode fuel S)" "onward fuel (standard_opcode fuel S op)"
proof -
  have div: "py_floordiv a b \<noteq> Inl NoFuel" "py_mod a b \<noteq> Inl NoFuel" for a b
    by (simp_all add: py_floordiv_def py_mod_def)
  note fwd = forward_num forward_small forward_mono [OF forward_file_entry]
  show "onward fuel (special_opcode op)"
    unfolding special_opcode_def by (intro onward_intros div)
  show "onward fuel (extended_opcode fuel S)" by (rule extended_onward)
  show "onward fuel (standard_opcode fuel S op)"
    unfolding standard_opcode_def dwarf_leb dwarf_formats by (intro onward_intros fwd div; simp)
qed

lemma line_step_onward:
  assumes "lr_stream s = BytesIO d q" "length d < fuel" "line_step fuel S (int p) s = (r, s')"
  shows "r \<noteq> Inl NoFuel \<and> (\<exists>p'\<ge>p. lr_stream s' = BytesIO d p' \<and> (r = Inr () \<longrightarrow> p < p' \<and> p < length d))"
proof -
  let ?c = "Dwarf_uint8 S (Some '''')"
  have "forward 1 (con_parse ?c)" using forward_format [of Fmt_B] by (simp add: dwarf_formats)
  from struct_parse_forward [OF this assms(2), of "Some (int p)" q] obtain r1 p1
    where 1: "struct_parse fuel ?c (Some (int p)) (BytesIO d q) = (r1, BytesIO d p1)" "r1 \<noteq> Inl NoFuel" "p \<le> p1"
      "p1 \<le> max p (length d)" "\<forall>x. r1 = Inr x \<longrightarrow> p + 1 \<le> p1" by auto
  let ?s1 = "s\<lparr>lr_stream := BytesIO d p1\<rparr>"
  define g where "g = (\<lambda>opcode. sbind (lp_int ''opcode_base'') (\<lambda>base. if base \<le> opcode then special_opcode opcode
       else if opcode = 0 then extended_opcode fuel S else standard_opcode fuel S opcode))"
  have on: "onward fuel (sbind (slift (as_int v)) g)" for v
    unfolding g_def by (intro onward_intros) simp_all
  show ?thesis
  proof (cases r1)
    case (Inl e)
    then have "r = Inl e \<and> s' = ?s1" using 1(1) assms(1,3) by (simp add: line_step_def lp_number_def lp_parse_def sbind_apply)
    then show ?thesis using 1 Inl by auto
  next
    case (Inr v)
    then have "sbind (slift (as_int v)) g ?s1 = (r, s')"
      using 1(1) assms(1,3) by (simp add: line_step_def lp_number_def lp_parse_def sbind_apply g_def split: sum.splits)
    from onwardD [OF on this _ assms(2), of p1] show ?thesis using 1 Inr by (auto simp: max_def split: if_splits)
  qed
qed

lemma line_loop_ends:
  "lr_stream s = BytesIO d q \<Longrightarrow> length d < fuel \<Longrightarrow> length d - p < k \<Longrightarrow>
    fst (line_loop k fuel S (int p) n s) \<noteq> Inl NoFuel"
proof (induction k arbitrary: s p q)
  case (Suc k)
  obtain r s' where run: "line_step fuel S (int p) s = (r, s')" by fastforce
  from line_step_onward [OF Suc.prems(1,2) run] obtain p' where p': "r \<noteq> Inl NoFuel" "lr_stream s' = BytesIO d p'"
    "r = Inr () \<longrightarrow> p < p' \<and> p < length d" by blast
  show ?case
  proof (cases r)
    case (Inl e)
    then show ?thesis using run p'(1) by (simp add: sbind_apply)
  next
    case (Inr x)
    then have "length d - p' < k" using p'(3) Suc.prems(3) by auto
    from Suc.IH [OF p'(2) Suc.prems(2) this] show ?thesis using run Inr p'(2) by (simp add: sbind_apply)
  qed
qed simp

text \<open>C32: Decoding a line program returns or raises on every data, with more fuel than data; an extended instruction with an unknown opcode, whose length moves the stream on past the end of the data or one byte back, cannot keep the loop at one place.\<close>

theorem line_program_ends:
  assumes "length d < fuel" "0 \<le> lp_start P"
  shows "fst (get_entries fuel P (BytesIO d q)) \<noteq> Inl NoFuel"
proof -
  obtain p where p: "lp_start P = int p" using assms(2) nonneg_int_cases by blast
  have "fst (line_loop fuel fuel (lp_structs P) (int p) (lp_end P) (start_run (lp_header P) v (BytesIO d q))) \<noteq> Inl NoFuel" for v
    by (rule line_loop_ends [of _ d q]) (use assms(1) in \<open>simp_all add: start_run_def\<close>)
  then have "fst (decode_line_program fuel P (BytesIO d q)) \<noteq> Inl NoFuel"
    by (auto simp: decode_line_program_def p container_getitem_def dict_get_def ebind_def
        split: sum.splits option.splits prod.splits) (metis fst_conv)+
  then show ?thesis by (auto simp: get_entries_def split: option.split prod.splits sum.splits)
qed

subsection \<open>Opcodes that cannot be run\<close>

lemma line_step_opcode:
  assumes "header_dec P (lr_header s)" "lr_stream s = BytesIO d q" "length d < fuel" "drop p d = chr_c op # r" "0 \<le> op" "op < 256"
    and "op < par_base P"
  shows "line_step fuel S (int p) s = (if op = 0 then extended_opcode fuel S else standard_opcode fuel S op)
    (s\<lparr>lr_stream := BytesIO d (Suc p)\<rparr>)"
proof -
  have p: "p < length d" using assms(4) by (metis drop_eq_Nil leI list.distinct(1))
  have "lp_number fuel (Dwarf_uint8 S (Some '''')) (Some (int p)) s = (Inr op, s\<lparr>lr_stream := BytesIO d (Suc p)\<rparr>)"
    using lp_number_at(1) [OF decoder_int byte_dec [OF assms(5,6)] assms(2) _ assms(3), of p r] p assms(4)
    by (simp add: dwarf_formats)
  then show ?thesis using assms(7) header_ints [of P "s\<lparr>lr_stream := BytesIO d (Suc p)\<rparr>"] assms(1)
    by (simp add: line_step_def sbind_apply)
qed

theorem line_opcode_errors:
  assumes "header_dec P (lr_header s)" "lr_stream s = BytesIO d q" "length d < fuel"
    and "drop p d = chr_c op # r" "0 \<le> op" "op < 256" "op < par_base P"
  shows "(12 < op \<longrightarrow> fst (line_step fuel S (int p) s) = Inl NameError) \<and>
    (op \<in> {6, 7} \<and> lr_operand s = None \<longrightarrow> fst (line_step fuel S (int p) s) = Inl UnboundLocalError)"
proof -
  note step = line_step_opcode [OF assms, of S]
  have "fst (line_step fuel S (int p) s) = Inl NameError" if "12 < op"
    using step that by (simp add: standard_opcode_def DW_LN_defs)
  moreover have "fst (line_step fuel S (int p) s) = Inl UnboundLocalError" if "op \<in> {6, 7}" "lr_operand s = None"
    using step that by (auto simp: standard_opcode_def DW_LN_defs sbind_apply upd_state_def stale_operand_def)
  ultimately show ?thesis by blast
qed

subsection \<open>An example\<close>

definition example_params :: line_params where
  "example_params = \<lparr>par_base = 13, par_range = 14, par_minlen = 1, par_line_base = -5, par_default = PInt 1\<rparr>"

definition example_header :: container where
  "example_header = [(''opcode_base'', PInt 13), (''line_range'', PInt 14), (''minimum_instruction_length'', PInt 1),
     (''line_base'', PInt (-5)), (''default_is_stmt'', PInt 1), (''file_entry'', PList [])]"

lemma example_header_dec: "header_dec example_params example_header"
  by (simp add: header_dec_def example_params_def example_header_def)

theorem line_opcode_errors_witness:
  "fst (line_step 9 example_structs (int 0) (start_run example_header (PInt 1) (BytesIO [chr_c 6] 0))) = Inl UnboundLocalError"
  using line_opcode_errors [of example_params "start_run example_header (PInt 1) (BytesIO [chr_c 6] 0)" "[chr_c 6]" 0 9 0 6 "[]"
      example_structs] example_header_dec
  by (simp add: start_run_def) (simp add: example_params_def)

theorem line_program_ends_witness:
  "fst (get_entries 9 (LineProgram example_header example_structs 1 5) (BytesIO ''abc'' 0)) \<noteq> Inl NoFuel"
  using line_program_ends [of "''abc''" 9 "LineProgram example_header example_structs 1 5" 0] by (simp add: LineProgram_def)

text \<open>Set the address, a special opcode, an unknown extended opcode that is skipped, a copy, end.\<close>

theorem line_program_rows_witness:
  "\<exists>es. fst (get_entries 99 (LineProgram example_header example_structs 1 19)
      (BytesIO (''x'' @ ([chr_c 0, chr_c 5, chr_c 2, chr_c 0x10, chr_c 0, chr_c 0, chr_c 0] @ [chr_c 0x4B] @
         [chr_c 0, chr_c 3, chr_c 0x80, chr_c 1, chr_c 1] @ [chr_c 6] @ [chr_c 1] @ [chr_c 0, chr_c 1, chr_c 1] @ []) @ []) 0)) = Inr es \<and>
    map ls_address (rows_of es) = [20, 20, 20] \<and> map ls_line (rows_of es) = [2, 2, 2]"
proof -
  let ?is = "[SetAddress 16, Special 0x4B, UnknownExt 0x80 [chr_c 1, chr_c 1], NegateStmt, Copy, EndSequence]"
  let ?b = "[chr_c 0, chr_c 5, chr_c 2, chr_c 0x10, chr_c 0, chr_c 0, chr_c 0] @ [chr_c 0x4B] @
         [chr_c 0, chr_c 3, chr_c 0x80, chr_c 1, chr_c 1] @ [chr_c 6] @ [chr_c 1] @ [chr_c 0, chr_c 1, chr_c 1] @ []"
  have ext: "ext_dec ex (chr_c n # chr_c ex # c) c" if "0 \<le> n" "n < 128" for ex n c
    using that by (auto simp: ext_dec_def ext_len_def leb_bytes_def intro!: exI [of _ "[chr_c n]"])
  have "ext_dec 1 [CHR 0x01, CHR 0x01] []" using ext [where ex = 1 and n = 1 and c = "[]"] by simp
  moreover have "ext_len 3 0x80 [chr_c 3, chr_c 0x80, chr_c 1, chr_c 1] [chr_c 1, chr_c 1]"
    by (auto simp: ext_len_def leb_bytes_def intro!: exI [of _ "[chr_c 3]"])
  moreover have "num_dec example_structs (target_format example_structs) [] [chr_c 0x10, chr_c 0, chr_c 0, chr_c 0] (PInt 16)"
    unfolding int_dec_def by code_simp
  ultimately have "program_dec example_structs example_params ?is ?b"
    by (intro program_Cons program_Nil) (auto simp: instr_dec_def example_params_def intro!: ext exI)
  moreover have "map ls_address (exec_rows example_params ?is (LineState (par_default example_params))) = [20, 20, 20]"
    "map ls_line (exec_rows example_params ?is (LineState (par_default example_params))) = [2, 2, 2]" by code_simp+
  ultimately show ?thesis
    using line_program_rows [of example_structs example_params ?is ?b example_header "''x''" "[]" 99 0] example_header_dec
    by (fastforce simp: example_params_def)
qed

end
