(* ===== verification/DwarfFrames.thy ===== *)
theory DwarfFrames
  imports DwarfLines
begin

section \<open>Call frame information (\<open>dwarf/callframe.py\<close>)\<close>

text \<open>
  The section \<open>.debug_frame\<close> is a list of entries: CIEs with the common initial instructions, and
  FDEs that refer to a CIE. Decoding an entry runs its instructions over the current line of the
  table (a dictionary with the location, the rule of the frame address and the rules of the
  registers). The source shares lines between variables, so the lines live in a store here and the
  variables hold addresses.
\<close>

unbundle bit_operations_syntax

subsection \<open>Opcodes and their names\<close>

definition DW_CFA_advance_loc :: int where "DW_CFA_advance_loc = 0b01000000"
definition DW_CFA_offset :: int where "DW_CFA_offset = 0b10000000"
definition DW_CFA_restore :: int where "DW_CFA_restore = 0b11000000"

definition OPCODE_NAME_MAP :: "(int \<times> string) list" where
  "OPCODE_NAME_MAP =
     [(DW_CFA_advance_loc, ''DW_CFA_advance_loc''), (DW_CFA_offset, ''DW_CFA_offset''), (DW_CFA_restore, ''DW_CFA_restore''),
      (0x00, ''DW_CFA_nop''), (0x01, ''DW_CFA_set_loc''), (0x02, ''DW_CFA_advance_loc1''), (0x03, ''DW_CFA_advance_loc2''),
      (0x04, ''DW_CFA_advance_loc4''), (0x05, ''DW_CFA_offset_extended''), (0x06, ''DW_CFA_restore_extended''),
      (0x07, ''DW_CFA_undefined''), (0x08, ''DW_CFA_same_value''), (0x09, ''DW_CFA_register''),
      (0x0a, ''DW_CFA_remember_state''), (0x0b, ''DW_CFA_restore_state''), (0x0c, ''DW_CFA_def_cfa''),
      (0x0d, ''DW_CFA_def_cfa_register''), (0x0e, ''DW_CFA_def_cfa_offset''), (0x0f, ''DW_CFA_def_cfa_expression''),
      (0x10, ''DW_CFA_expression''), (0x11, ''DW_CFA_offset_extended_sf''), (0x12, ''DW_CFA_def_cfa_sf''),
      (0x13, ''DW_CFA_def_cfa_offset_sf''), (0x14, ''DW_CFA_val_offset''), (0x15, ''DW_CFA_val_offset_sf''),
      (0x16, ''DW_CFA_val_expression'')]"

definition PRIMARY_MASK :: int where "PRIMARY_MASK = 0b11000000"
definition PRIMARY_ARG_MASK :: int where "PRIMARY_ARG_MASK = 0b00111111"

definition instruction_name :: "int \<Rightarrow> pyexc + string" where
  "instruction_name opcode =
     (let primary = opcode AND PRIMARY_MASK
      in if primary = 0 then dict_get OPCODE_NAME_MAP opcode else dict_get OPCODE_NAME_MAP primary)"

record cf_instruction =
  ci_opcode :: int
  ci_args :: "pyval list"

datatype cfi_entry =
    CIE (ce_header: container) (ce_structs: dwarf_structs) (ce_instructions: "cf_instruction list") (ce_offset: int)
  | FDE (ce_header: container) (ce_structs: dwarf_structs) (ce_instructions: "cf_instruction list") (ce_offset: int)
      (ce_cie: cfi_entry)

subsection \<open>Parsing\<close>

record cfi_run =
  cr_stream :: pystream
  cr_cache :: "(int \<times> cfi_entry) list"
  cr_entries :: "cfi_entry list option"

type_synonym 'a cm = "(cfi_run, 'a) st"

definition cf_parse :: "nat \<Rightarrow> construct \<Rightarrow> int option \<Rightarrow> pyval cm" where
  "cf_parse fuel c pos = (\<lambda>s. case struct_parse fuel c pos (cr_stream s) of (r, t) \<Rightarrow> (r, s\<lparr>cr_stream := t\<rparr>))"

definition cf_number :: "nat \<Rightarrow> construct \<Rightarrow> int option \<Rightarrow> int cm" where
  "cf_number fuel c pos = sbind (cf_parse fuel c pos) (\<lambda>v. slift (as_int v))"

definition cf_tell :: "int cm" where
  "cf_tell = (\<lambda>s. (Inr (stream_tell (cr_stream s)), s))"

definition dw_form :: "dwarf_structs \<Rightarrow> string \<Rightarrow> pyexc + construct" where
  "dw_form S form = dict_get (Dwarf_dw_form S) form"

definition instruction_args :: "nat \<Rightarrow> dwarf_structs \<Rightarrow> int \<Rightarrow> pyval list cm" where
  "instruction_args fuel S opcode =
     (let primary = opcode AND PRIMARY_MASK; primary_arg = opcode AND PRIMARY_ARG_MASK;
          uleb = cf_parse fuel (Dwarf_uleb128 S (Some '''')) None;
          sleb = cf_parse fuel (Dwarf_sleb128 S (Some '''')) None;
          block = sbind (slift (dw_form S ''DW_FORM_block'')) (\<lambda>c. cf_parse fuel c None)
      in if primary = DW_CFA_advance_loc then sret [PInt primary_arg]
         else if primary = DW_CFA_offset then sbind uleb (\<lambda>v. sret [PInt primary_arg, v])
         else if primary = DW_CFA_restore then sret [PInt primary_arg]
         else if opcode \<in> {0x00, 0x0a, 0x0b} then sret []
         else if opcode = 0x01 then sbind (cf_parse fuel (Dwarf_target_addr S (Some '''')) None) (\<lambda>v. sret [v])
         else if opcode = 0x02 then sbind (cf_parse fuel (Dwarf_uint8 S (Some '''')) None) (\<lambda>v. sret [v])
         else if opcode = 0x03 then sbind (cf_parse fuel (Dwarf_uint16 S (Some '''')) None) (\<lambda>v. sret [v])
         else if opcode = 0x04 then sbind (cf_parse fuel (Dwarf_uint32 S (Some '''')) None) (\<lambda>v. sret [v])
         else if opcode \<in> {0x05, 0x09, 0x0c, 0x14} then sbind uleb (\<lambda>v. sbind uleb (\<lambda>w. sret [v, w]))
         else if opcode \<in> {0x06, 0x07, 0x08, 0x0d, 0x0e} then sbind uleb (\<lambda>v. sret [v])
         else if opcode = 0x13 then sbind sleb (\<lambda>v. sret [v])
         else if opcode = 0x0f then sbind block (\<lambda>v. sret [v])
         else if opcode \<in> {0x10, 0x16} then sbind uleb (\<lambda>v. sbind block (\<lambda>w. sret [v, w]))
         else if opcode \<in> {0x11, 0x12, 0x15} then sbind uleb (\<lambda>v. sbind sleb (\<lambda>w. sret [v, w]))
         else sraise DWARFError)"

fun instructions_loop :: "nat \<Rightarrow> nat \<Rightarrow> dwarf_structs \<Rightarrow> int \<Rightarrow> int \<Rightarrow> cf_instruction list \<Rightarrow> cf_instruction list cm" where
  "instructions_loop 0 fuel S offset end_offset instrs = sraise NoFuel"
| "instructions_loop (Suc k) fuel S offset end_offset instrs =
     (if offset < end_offset then
        sbind (cf_number fuel (Dwarf_uint8 S (Some '''')) (Some offset)) (\<lambda>opcode.
        sbind (instruction_args fuel S opcode) (\<lambda>args.
        sbind cf_tell (\<lambda>offset'.
          instructions_loop k fuel S offset' end_offset (instrs @ [\<lparr>ci_opcode = opcode, ci_args = args\<rparr>]))))
      else sret instrs)"

definition parse_instructions :: "nat \<Rightarrow> dwarf_structs \<Rightarrow> int \<Rightarrow> int \<Rightarrow> cf_instruction list cm" where
  "parse_instructions fuel S offset end_offset = instructions_loop fuel fuel S offset end_offset []"

definition header_of :: "pyval \<Rightarrow> pyexc + container" where
  "header_of v = (case v of PObj c \<Rightarrow> Inr c | _ \<Rightarrow> Inl TypeError)"

definition header_int :: "container \<Rightarrow> string \<Rightarrow> pyexc + int" where
  "header_int c n = ebind (container_getitem c n) as_int"

text \<open>\<open>_parse_entry_at\<close>; the recursion follows the pointers to the CIEs.\<close>

fun parse_entry_at :: "nat \<Rightarrow> nat \<Rightarrow> dwarf_structs \<Rightarrow> int \<Rightarrow> cfi_entry cm" where
  "parse_entry_at 0 fuel base offset = sraise NoFuel"
| "parse_entry_at (Suc k) fuel base offset = (\<lambda>s.
     case map_of (cr_cache s) offset of
       Some e \<Rightarrow> (Inr e, s)
     | None \<Rightarrow>
         sbind (cf_number fuel (Dwarf_uint32 base (Some '''')) (Some offset)) (\<lambda>entry_length.
         let dwarf_format = (if entry_length = 0xFFFFFFFF then 64 else 32) in
         sbind (slift (DWARFStructs (ds_little_endian base) dwarf_format (ds_address_size base))) (\<lambda>S.
         sbind (cf_number fuel (Dwarf_offset S (Some '''')) None) (\<lambda>CIE_id.
         let is_CIE = ((dwarf_format = 32 \<and> CIE_id = 0xFFFFFFFF) \<or> CIE_id = 0xFFFFFFFFFFFFFFFF) in
         sbind (cf_parse fuel (if is_CIE then Dwarf_CIE_header S else Dwarf_FDE_header S) (Some offset)) (\<lambda>v.
         sbind (slift (header_of v)) (\<lambda>header.
         sbind (slift (header_int header ''length'')) (\<lambda>len.
         let end_offset = offset + len + initial_length_field_size S in
         sbind cf_tell (\<lambda>start.
         sbind (parse_instructions fuel S start end_offset) (\<lambda>instructions.
         sbind (if is_CIE then sret (CIE header S instructions offset)
            else sbind cf_tell (\<lambda>saved_pos.
                 sbind (slift (header_int header ''CIE_pointer'')) (\<lambda>pointer.
                 sbind (parse_entry_at k fuel base pointer) (\<lambda>cie.
                 sbind (\<lambda>s. case stream_seek saved_pos 0 (cr_stream s) of (r, t) \<Rightarrow> (r, s\<lparr>cr_stream := t\<rparr>)) (\<lambda>_.
                 sret (FDE header S instructions offset cie))))))
           (\<lambda>e s. (Inr e, s\<lparr>cr_cache := dict_set offset e (cr_cache s)\<rparr>))))))))))
         s)"

fun entries_loop :: "nat \<Rightarrow> nat \<Rightarrow> dwarf_structs \<Rightarrow> int \<Rightarrow> int \<Rightarrow> cfi_entry list \<Rightarrow> cfi_entry list cm" where
  "entries_loop 0 fuel base size' offset entries = sraise NoFuel"
| "entries_loop (Suc k) fuel base size' offset entries =
     (if offset < size' then
        sbind (parse_entry_at fuel fuel base offset) (\<lambda>e.
        sbind cf_tell (\<lambda>offset'. entries_loop k fuel base size' offset' (entries @ [e])))
      else sret entries)"

definition parse_entries :: "nat \<Rightarrow> dwarf_structs \<Rightarrow> int \<Rightarrow> cfi_entry list cm" where
  "parse_entries fuel base size' = entries_loop fuel fuel base size' 0 []"

definition CallFrameInfo :: "pystream \<Rightarrow> cfi_run" where
  "CallFrameInfo stream = \<lparr>cr_stream = stream, cr_cache = [], cr_entries = None\<rparr>"

definition cfi_entries :: "nat \<Rightarrow> dwarf_structs \<Rightarrow> int \<Rightarrow> cfi_entry list cm" where
  "cfi_entries fuel base size' = (\<lambda>s. case cr_entries s of
     Some es \<Rightarrow> (Inr es, s)
   | None \<Rightarrow> sbind (parse_entries fuel base size') (\<lambda>es s. (Inr es, s\<lparr>cr_entries := Some es\<rparr>)) s)"

subsection \<open>Rules and lines\<close>

datatype rule_type = UNDEFINED | SAME_VALUE | OFFSET | VAL_OFFSET | REGISTER | EXPRESSION | VAL_EXPRESSION | ARCHITECTURAL

datatype register_rule = RegisterRule (rr_type: rule_type) (rr_arg: "pyval option")

record cfa_rule =
  cfa_reg :: "pyval option"
  cfa_offset :: "pyval option"
  cfa_expr :: "pyval option"

text \<open>The dictionary of a line: its keys are \<open>'pc'\<close>, \<open>'cfa'\<close> and the numbers of registers.\<close>

record cf_line =
  cl_pc :: int
  cl_cfa :: "cfa_rule option"
  cl_regs :: "(int \<times> register_rule) list"

record decoded_table =
  dt_table :: "cf_line list"
  dt_reg_order :: "int list"

text \<open>
  The state of \<open>_decode_CFI_table\<close>: the store of lines, and the variables \<open>cur_line\<close>,
  \<open>last_line_in_CIE\<close> (unbound for a CIE), \<open>line_stack\<close>, \<open>table\<close> and \<open>reg_order\<close>.
\<close>

record frame_run =
  fr_store :: "cf_line list"
  fr_cur :: nat
  fr_last :: "nat option"
  fr_stack :: "nat list"
  fr_table :: "nat list"
  fr_order :: "int list"

type_synonym 'a fm = "(frame_run, 'a) st"

definition cur_line :: "frame_run \<Rightarrow> cf_line" where
  "cur_line s = fr_store s ! fr_cur s"

definition upd_cur :: "(cf_line \<Rightarrow> cf_line) \<Rightarrow> unit fm" where
  "upd_cur f = (\<lambda>s. (Inr (), s\<lparr>fr_store := (fr_store s)[fr_cur s := f (cur_line s)]\<rparr>))"

definition set_rule :: "int \<Rightarrow> register_rule \<Rightarrow> unit fm" where
  "set_rule r rule = upd_cur (\<lambda>l. l\<lparr>cl_regs := dict_set r rule (cl_regs l)\<rparr>)"

definition add_to_order :: "int \<Rightarrow> unit fm" where
  "add_to_order regnum = (\<lambda>s.
     (Inr (), if map_of (cl_regs (cur_line s)) regnum = None then s\<lparr>fr_order := fr_order s @ [regnum]\<rparr> else s))"

text \<open>\<open>table.append(copy.copy(cur_line))\<close>\<close>

definition append_copy :: "unit fm" where
  "append_copy = (\<lambda>s. (Inr (), s\<lparr>fr_table := fr_table s @ [length (fr_store s)], fr_store := fr_store s @ [cur_line s]\<rparr>))"

definition arg :: "cf_instruction \<Rightarrow> nat \<Rightarrow> pyval fm" where
  "arg instr i = slift (py_index (ci_args instr) (int i))"

definition int_arg :: "cf_instruction \<Rightarrow> nat \<Rightarrow> int fm" where
  "int_arg instr i = sbind (arg instr i) (\<lambda>v. slift (as_int v))"

definition cur_cfa :: "cfa_rule fm" where
  "cur_cfa = (\<lambda>s. (case cl_cfa (cur_line s) of None \<Rightarrow> Inl AttributeError | Some c \<Rightarrow> Inr c, s))"

definition set_cfa :: "pyval option \<Rightarrow> pyval option \<Rightarrow> pyval option \<Rightarrow> unit fm" where
  "set_cfa reg off expr = upd_cur (\<lambda>l. l\<lparr>cl_cfa := Some \<lparr>cfa_reg = reg, cfa_offset = off, cfa_expr = expr\<rparr>\<rparr>)"

definition add_rule :: "cf_instruction \<Rightarrow> register_rule fm \<Rightarrow> unit fm" where
  "add_rule instr rule = sbind (int_arg instr 0) (\<lambda>r. sbind (add_to_order r) (\<lambda>_. sbind rule (set_rule r)))"

definition scaled :: "cf_instruction \<Rightarrow> container \<Rightarrow> string \<Rightarrow> pyval fm" where
  "scaled instr cie factor = sbind (int_arg instr 1) (\<lambda>n. sbind (slift (header_int cie factor)) (\<lambda>f. sret (PInt (n * f))))"

definition restore_rule :: "bool \<Rightarrow> cf_instruction \<Rightarrow> unit fm" where
  "restore_rule is_FDE instr =
     sbind (int_arg instr 0) (\<lambda>r. sbind (add_to_order r) (\<lambda>_. sbind (slift (dwarf_assert is_FDE)) (\<lambda>_. (\<lambda>s.
       case fr_last s of
         None \<Rightarrow> (Inl UnboundLocalError, s)
       | Some a \<Rightarrow> (case map_of (cl_regs (fr_store s ! a)) r of
           None \<Rightarrow> (Inl DWARFError, s)
         | Some rule \<Rightarrow> set_rule r rule s)))))"

text \<open>The body of the loop.\<close>

definition frame_step :: "bool \<Rightarrow> container \<Rightarrow> cf_instruction \<Rightarrow> unit fm" where
  "frame_step is_FDE cie instr = sbind (slift (instruction_name (ci_opcode instr))) (\<lambda>name.
     if name = ''DW_CFA_set_loc'' then
       sbind append_copy (\<lambda>_. sbind (int_arg instr 0) (\<lambda>v. upd_cur (\<lambda>l. l\<lparr>cl_pc := v\<rparr>)))
     else if name \<in> {''DW_CFA_advance_loc1'', ''DW_CFA_advance_loc2'', ''DW_CFA_advance_loc4'', ''DW_CFA_advance_loc''} then
       sbind append_copy (\<lambda>_. sbind (int_arg instr 0) (\<lambda>n. sbind (slift (header_int cie ''code_alignment_factor''))
         (\<lambda>f. upd_cur (\<lambda>l. l\<lparr>cl_pc := cl_pc l + n * f\<rparr>))))
     else if name = ''DW_CFA_def_cfa'' then
       sbind (arg instr 0) (\<lambda>r. sbind (arg instr 1) (\<lambda>off. set_cfa (Some r) (Some off) None))
     else if name = ''DW_CFA_def_cfa_sf'' then
       sbind (arg instr 0) (\<lambda>r. sbind (scaled instr cie ''code_alignment_factor'') (\<lambda>off. set_cfa (Some r) (Some off) None))
     else if name = ''DW_CFA_def_cfa_register'' then
       sbind (arg instr 0) (\<lambda>r. sbind cur_cfa (\<lambda>c. set_cfa (Some r) (cfa_offset c) None))
     else if name = ''DW_CFA_def_cfa_offset'' then
       sbind cur_cfa (\<lambda>c. sbind (arg instr 0) (\<lambda>off. set_cfa (cfa_reg c) (Some off) None))
     else if name = ''DW_CFA_def_cfa_expression'' then sbind (arg instr 0) (\<lambda>e. set_cfa None None (Some e))
     else if name = ''DW_CFA_undefined'' then add_rule instr (sret (RegisterRule UNDEFINED None))
     else if name = ''DW_CFA_same_value'' then add_rule instr (sret (RegisterRule SAME_VALUE None))
     else if name \<in> {''DW_CFA_offset'', ''DW_CFA_offset_extended'', ''DW_CFA_offset_extended_sf''} then
       add_rule instr (sbind (scaled instr cie ''data_alignment_factor'') (\<lambda>v. sret (RegisterRule OFFSET (Some v))))
     else if name \<in> {''DW_CFA_val_offset'', ''DW_CFA_val_offset_sf''} then
       add_rule instr (sbind (scaled instr cie ''data_alignment_factor'') (\<lambda>v. sret (RegisterRule VAL_OFFSET (Some v))))
     else if name = ''DW_CFA_register'' then add_rule instr (sbind (arg instr 1) (\<lambda>v. sret (RegisterRule REGISTER (Some v))))
     else if name = ''DW_CFA_expression'' then add_rule instr (sbind (arg instr 1) (\<lambda>v. sret (RegisterRule EXPRESSION (Some v))))
     else if name = ''DW_CFA_val_expression'' then add_rule instr (sbind (arg instr 1) (\<lambda>v. sret (RegisterRule VAL_EXPRESSION (Some v))))
     else if name \<in> {''DW_CFA_restore'', ''DW_CFA_restore_extended''} then restore_rule is_FDE instr
     else if name = ''DW_CFA_remember_state'' then (\<lambda>s. (Inr (), s\<lparr>fr_stack := fr_stack s @ [fr_cur s]\<rparr>))
     else if name = ''DW_CFA_restore_state'' then
       (\<lambda>s. if fr_stack s = [] then (Inl IndexError, s)
            else (Inr (), s\<lparr>fr_cur := last (fr_stack s), fr_stack := butlast (fr_stack s)\<rparr>))
     else sret ())"

fun frame_loop :: "bool \<Rightarrow> container \<Rightarrow> cf_instruction list \<Rightarrow> unit fm" where
  "frame_loop is_FDE cie [] = sret ()"
| "frame_loop is_FDE cie (instr # instrs) = sbind (frame_step is_FDE cie instr) (\<lambda>_. frame_loop is_FDE cie instrs)"

definition finish_table :: "pyexc + unit \<Rightarrow> frame_run \<Rightarrow> pyexc + decoded_table" where
  "finish_table r s = ebind r (\<lambda>_. Inr \<lparr>dt_table = map (\<lambda>a. fr_store s ! a) (fr_table s @ [fr_cur s]), dt_reg_order = fr_order s\<rparr>)"

definition decode_lines :: "bool \<Rightarrow> container \<Rightarrow> cf_line \<Rightarrow> int list \<Rightarrow> cf_instruction list \<Rightarrow> pyexc + decoded_table" where
  "decode_lines is_FDE cie line order instrs =
     (case frame_loop is_FDE cie instrs \<lparr>fr_store = [line], fr_cur = 0, fr_last = (if is_FDE then Some 0 else None),
        fr_stack = [], fr_table = [], fr_order = order\<rparr> of (r, s) \<Rightarrow> finish_table r s)"

text \<open>
  \<open>get_decoded\<close>. For an FDE, \<open>cur_line\<close> and \<open>last_line_in_CIE\<close> are one copy of the last line of the
  CIE; the decoded table of the CIE is kept there and never changed, so its cache is left out.
\<close>

fun get_decoded :: "cfi_entry \<Rightarrow> pyexc + decoded_table" where
  "get_decoded (CIE header S instrs off) =
     decode_lines False header \<lparr>cl_pc = 0, cl_cfa = None, cl_regs = []\<rparr> [] instrs"
| "get_decoded (FDE header S instrs off cie) =
     ebind (get_decoded cie) (\<lambda>t. ebind (py_index (dt_table t) (-1)) (\<lambda>line.
     ebind (header_int header ''initial_location'') (\<lambda>loc.
       decode_lines True (ce_header cie) (line\<lparr>cl_pc := loc\<rparr>) (dt_reg_order t) instrs)))"


subsection \<open>The rows without the store\<close>

text \<open>
  What an instruction does to the current line. The lines are shared by \<open>cur_line\<close>,
  \<open>last_line_in_CIE\<close> and \<open>line_stack\<close>, so remembering and restoring do nothing to the line, and
  neither does restoring the rule of a register.
\<close>

definition at_int :: "cf_instruction \<Rightarrow> nat \<Rightarrow> pyexc + int" where
  "at_int instr i = ebind (py_index (ci_args instr) (int i)) as_int"

definition rule_effect :: "cf_instruction \<Rightarrow> (unit \<Rightarrow> pyexc + register_rule) \<Rightarrow> cf_line \<Rightarrow> pyexc + cf_line" where
  "rule_effect instr rule l =
     ebind (at_int instr 0) (\<lambda>r. ebind (rule ()) (\<lambda>v. Inr (l\<lparr>cl_regs := dict_set r v (cl_regs l)\<rparr>)))"

definition times :: "cf_instruction \<Rightarrow> container \<Rightarrow> string \<Rightarrow> pyexc + pyval" where
  "times instr cie factor = ebind (at_int instr 1) (\<lambda>n. ebind (header_int cie factor) (\<lambda>f. Inr (PInt (n * f))))"

definition cfa_effect :: "pyval option \<Rightarrow> pyval option \<Rightarrow> pyval option \<Rightarrow> cf_line \<Rightarrow> cf_line" where
  "cfa_effect reg off expr l = l\<lparr>cl_cfa := Some \<lparr>cfa_reg = reg, cfa_offset = off, cfa_expr = expr\<rparr>\<rparr>"

definition line_cfa :: "cf_line \<Rightarrow> pyexc + cfa_rule" where
  "line_cfa l = (case cl_cfa l of None \<Rightarrow> Inl AttributeError | Some c \<Rightarrow> Inr c)"

definition location_names :: "string set" where
  "location_names = {''DW_CFA_set_loc'', ''DW_CFA_advance_loc1'', ''DW_CFA_advance_loc2'', ''DW_CFA_advance_loc4'', ''DW_CFA_advance_loc''}"

definition line_effect :: "bool \<Rightarrow> container \<Rightarrow> string \<Rightarrow> cf_instruction \<Rightarrow> cf_line \<Rightarrow> pyexc + cf_line" where
  "line_effect is_FDE cie name instr l =
     (let a0 = py_index (ci_args instr) 0; a1 = py_index (ci_args instr) 1;
          value = (\<lambda>t. ebind a1 (\<lambda>v. Inr (RegisterRule t (Some v))));
          factored = (\<lambda>t. ebind (times instr cie ''data_alignment_factor'') (\<lambda>v. Inr (RegisterRule t (Some v))))
      in if name = ''DW_CFA_set_loc'' then ebind (at_int instr 0) (\<lambda>v. Inr (l\<lparr>cl_pc := v\<rparr>))
         else if name \<in> location_names then
           ebind (at_int instr 0) (\<lambda>n. ebind (header_int cie ''code_alignment_factor'') (\<lambda>f. Inr (l\<lparr>cl_pc := cl_pc l + n * f\<rparr>)))
         else if name = ''DW_CFA_def_cfa'' then ebind a0 (\<lambda>r. ebind a1 (\<lambda>off. Inr (cfa_effect (Some r) (Some off) None l)))
         else if name = ''DW_CFA_def_cfa_sf'' then
           ebind a0 (\<lambda>r. ebind (times instr cie ''code_alignment_factor'') (\<lambda>off. Inr (cfa_effect (Some r) (Some off) None l)))
         else if name = ''DW_CFA_def_cfa_register'' then
           ebind a0 (\<lambda>r. ebind (line_cfa l) (\<lambda>c. Inr (cfa_effect (Some r) (cfa_offset c) None l)))
         else if name = ''DW_CFA_def_cfa_offset'' then
           ebind (line_cfa l) (\<lambda>c. ebind a0 (\<lambda>off. Inr (cfa_effect (cfa_reg c) (Some off) None l)))
         else if name = ''DW_CFA_def_cfa_expression'' then ebind a0 (\<lambda>e. Inr (cfa_effect None None (Some e) l))
         else if name = ''DW_CFA_undefined'' then rule_effect instr (\<lambda>_. Inr (RegisterRule UNDEFINED None)) l
         else if name = ''DW_CFA_same_value'' then rule_effect instr (\<lambda>_. Inr (RegisterRule SAME_VALUE None)) l
         else if name \<in> {''DW_CFA_offset'', ''DW_CFA_offset_extended'', ''DW_CFA_offset_extended_sf''} then
           rule_effect instr (\<lambda>_. factored OFFSET) l
         else if name \<in> {''DW_CFA_val_offset'', ''DW_CFA_val_offset_sf''} then rule_effect instr (\<lambda>_. factored VAL_OFFSET) l
         else if name = ''DW_CFA_register'' then rule_effect instr (\<lambda>_. value REGISTER) l
         else if name = ''DW_CFA_expression'' then rule_effect instr (\<lambda>_. value EXPRESSION) l
         else if name = ''DW_CFA_val_expression'' then rule_effect instr (\<lambda>_. value VAL_EXPRESSION) l
         else if name \<in> {''DW_CFA_restore'', ''DW_CFA_restore_extended''} then
           ebind (at_int instr 0) (\<lambda>r. if is_FDE \<and> map_of (cl_regs l) r \<noteq> None then Inr l else Inl DWARFError)
         else Inr l)"

text \<open>The depth of the stack is all that is left of it.\<close>

definition depth_effect :: "string \<Rightarrow> nat \<Rightarrow> pyexc + nat" where
  "depth_effect name d =
     (if name = ''DW_CFA_remember_state'' then Inr (Suc d)
      else if name = ''DW_CFA_restore_state'' then (case d of 0 \<Rightarrow> Inl IndexError | Suc e \<Rightarrow> Inr e)
      else Inr d)"

fun frame_rows :: "bool \<Rightarrow> container \<Rightarrow> nat \<Rightarrow> cf_line \<Rightarrow> cf_instruction list \<Rightarrow> pyexc + cf_line list" where
  "frame_rows is_FDE cie d l [] = Inr [l]"
| "frame_rows is_FDE cie d l (instr # instrs) =
     ebind (instruction_name (ci_opcode instr)) (\<lambda>name.
     ebind (line_effect is_FDE cie name instr l) (\<lambda>l'.
     ebind (depth_effect name d) (\<lambda>d'.
     ebind (frame_rows is_FDE cie d' l' instrs) (\<lambda>rows. Inr ((if name \<in> location_names then [l] else []) @ rows)))))"

text \<open>The states the decoder can be in: one line at address 0 that everything refers to, and its copies.\<close>

definition frame_state :: "bool \<Rightarrow> nat \<Rightarrow> cf_line \<Rightarrow> cf_line list \<Rightarrow> frame_run" where
  "frame_state is_FDE d l rows =
     \<lparr>fr_store = l # rows, fr_cur = 0, fr_last = (if is_FDE then Some 0 else None), fr_stack = replicate d 0,
      fr_table = [1..<Suc (length rows)], fr_order = map fst (cl_regs l)\<rparr>"

lemma frame_state_prims:
  "cur_line (frame_state F d l rows) = l"
  "upd_cur f (frame_state F d l rows) = (Inr (), (frame_state F d l rows)\<lparr>fr_store := f l # rows\<rparr>)"
  "append_copy (frame_state F d l rows) = (Inr (), frame_state F d l (rows @ [l]))"
  "add_to_order r (frame_state F d l rows) =
     (Inr (), (frame_state F d l rows)\<lparr>fr_order := map fst (cl_regs l) @ (if map_of (cl_regs l) r = None then [r] else [])\<rparr>)"
  "fr_last (frame_state F d l rows) = (if F then Some 0 else None)"
  by (auto simp: cur_line_def upd_cur_def append_copy_def add_to_order_def frame_state_def)

lemma keys_after_set: "map fst (dict_set k v d) = map fst d @ (if map_of d k = None then [k] else [])"
  by (induction k v d rule: dict_set.induct) auto

lemma dict_set_same: "map_of d k = Some v \<Longrightarrow> dict_set k v d = d"
  by (induction k v d rule: dict_set.induct) (auto split: if_splits)

text \<open>The result of a step: an exception, or the current line replaced.\<close>

definition steps_to :: "bool \<Rightarrow> nat \<Rightarrow> cf_line \<Rightarrow> cf_line list \<Rightarrow> pyexc + cf_line \<Rightarrow> cf_line list \<Rightarrow> (pyexc + unit) \<times> frame_run \<Rightarrow> bool" where
  "steps_to F d l rows eff new q = (case eff of Inl e \<Rightarrow> fst q = Inl e | Inr l' \<Rightarrow> q = (Inr (), frame_state F d l' (rows @ new)))"

lemma steps_to_update:
  "cl_regs (f l) = cl_regs l \<Longrightarrow> steps_to F d l rows (Inr (f l)) [] (upd_cur f (frame_state F d l rows))"
  by (simp add: steps_to_def frame_state_prims) (simp add: frame_state_def)

lemma steps_to_rule:
  assumes "\<And>s. rule s = (r (), s)"
  shows "steps_to F d l rows (rule_effect instr r l) [] (add_rule instr rule (frame_state F d l rows))"
  by (auto simp: steps_to_def rule_effect_def add_rule_def int_arg_def arg_def at_int_def sbind_apply assms
      add_to_order_def set_rule_def keys_after_set upd_cur_def cur_line_def frame_state_def ebind_def split: sum.splits)

lemma steps_to_restore:
  "steps_to F d l rows (ebind (at_int instr 0) (\<lambda>r. if F \<and> map_of (cl_regs l) r \<noteq> None then Inr l else Inl DWARFError)) []
     (restore_rule F instr (frame_state F d l rows))"
  by (auto simp: steps_to_def restore_rule_def int_arg_def arg_def at_int_def sbind_apply dwarf_assert_def assert_with_exception_def
      add_to_order_def set_rule_def dict_set_same upd_cur_def cur_line_def frame_state_def ebind_def split: sum.splits option.splits)

lemma arg_frame: "sbind (arg instr i) m s = (case py_index (ci_args instr) (int i) of Inl e \<Rightarrow> (Inl e, s) | Inr v \<Rightarrow> m v s)"
  "sbind (int_arg instr i) m' s = (case at_int instr i of Inl e \<Rightarrow> (Inl e, s) | Inr n \<Rightarrow> m' n s)"
  "sbind (scaled instr cie fac) m s = (case times instr cie fac of Inl e \<Rightarrow> (Inl e, s) | Inr v \<Rightarrow> m v s)"
  by (auto simp: arg_def int_arg_def at_int_def scaled_def times_def sbind_apply split: sum.splits)

lemma steps_to_error [simp]: "steps_to F d l rows (Inl e) new (r, s) = (r = Inl e)"
  by (simp add: steps_to_def)

lemma steps_to_advance:
  "steps_to F d l rows (Inr (l\<lparr>cl_pc := v\<rparr>)) [l] (upd_cur (\<lambda>l. l\<lparr>cl_pc := v\<rparr>) (frame_state F d l (rows @ [l])))"
  "steps_to F d l rows (Inr (l\<lparr>cl_pc := cl_pc l + n\<rparr>)) [l] (upd_cur (\<lambda>l. l\<lparr>cl_pc := cl_pc l + n\<rparr>) (frame_state F d l (rows @ [l])))"
  by (auto simp: steps_to_def frame_state_def upd_cur_def cur_line_def)

lemma steps_to_cfa: "steps_to F d l rows (Inr (cfa_effect r off e l)) [] (set_cfa r off e (frame_state F d l rows))"
  unfolding set_cfa_def cfa_effect_def by (rule steps_to_update) simp

lemma cur_cfa_frame: "cur_cfa (frame_state F d l rows) = (line_cfa l, frame_state F d l rows)"
  by (simp add: cur_cfa_def line_cfa_def frame_state_prims)

definition cfa_names :: "string set" where
  "cfa_names = {''DW_CFA_def_cfa'', ''DW_CFA_def_cfa_sf'', ''DW_CFA_def_cfa_register'', ''DW_CFA_def_cfa_offset'',
     ''DW_CFA_def_cfa_expression''}"

definition rule_names :: "string set" where
  "rule_names = {''DW_CFA_undefined'', ''DW_CFA_same_value'', ''DW_CFA_offset'', ''DW_CFA_offset_extended'',
     ''DW_CFA_offset_extended_sf'', ''DW_CFA_val_offset'', ''DW_CFA_val_offset_sf'', ''DW_CFA_register'', ''DW_CFA_expression'',
     ''DW_CFA_val_expression''}"

lemma frame_step_loc:
  assumes name: "instruction_name (ci_opcode instr) = Inr name" and mem: "name \<in> location_names"
  shows "steps_to F d l rows (line_effect F cie name instr l) [l] (frame_step F cie instr (frame_state F d l rows))"
  using name mem unfolding location_names_def insert_iff empty_iff simp_thms
  by (elim disjE) (simp_all add: frame_step_def line_effect_def location_names_def arg_frame steps_to_advance
      sbind_apply [of append_copy] frame_state_prims(3) ebind_def split: sum.split)

lemma frame_step_cfa:
  assumes name: "instruction_name (ci_opcode instr) = Inr name" and mem: "name \<in> cfa_names"
  shows "steps_to F d l rows (line_effect F cie name instr l) [] (frame_step F cie instr (frame_state F d l rows))"
  using name mem unfolding cfa_names_def insert_iff empty_iff simp_thms
  by (elim disjE) (simp_all add: frame_step_def line_effect_def location_names_def arg_frame steps_to_cfa
      sbind_apply [of cur_cfa] cur_cfa_frame ebind_def split: sum.split)

lemma frame_step_rules:
  assumes name: "instruction_name (ci_opcode instr) = Inr name" and mem: "name \<in> rule_names"
  shows "steps_to F d l rows (line_effect F cie name instr l) [] (frame_step F cie instr (frame_state F d l rows))"
  using name mem unfolding rule_names_def insert_iff empty_iff simp_thms
  by (elim disjE) (simp_all add: frame_step_def line_effect_def location_names_def, (rule steps_to_rule, simp add: arg_frame ebind_def split: sum.split)+)

lemma frame_step_restore:
  assumes name: "instruction_name (ci_opcode instr) = Inr name" and mem: "name \<in> {''DW_CFA_restore'', ''DW_CFA_restore_extended''}"
  shows "steps_to F d l rows (line_effect F cie name instr l) [] (frame_step F cie instr (frame_state F d l rows))"
  using name mem steps_to_restore [of F d l rows instr] unfolding insert_iff empty_iff simp_thms
  by (elim disjE) (simp_all add: frame_step_def line_effect_def location_names_def)

lemma frame_state_Suc: "frame_state F (Suc d) l rows = (frame_state F d l rows)\<lparr>fr_stack := replicate d 0 @ [0]\<rparr>"
  by (simp add: frame_state_def replicate_append_same)

lemma frame_step_stack:
  assumes name: "instruction_name (ci_opcode instr) = Inr name"
  shows
  "name = ''DW_CFA_remember_state'' \<Longrightarrow> frame_step F cie instr (frame_state F d l rows) = (Inr (), frame_state F (Suc d) l rows)"
  "name = ''DW_CFA_restore_state'' \<Longrightarrow> frame_step F cie instr (frame_state F 0 l rows) = (Inl IndexError, frame_state F 0 l rows)"
  "name = ''DW_CFA_restore_state'' \<Longrightarrow> frame_step F cie instr (frame_state F (Suc d) l rows) = (Inr (), frame_state F d l rows)"
  using name by (simp_all add: frame_step_def frame_state_Suc) (simp_all add: frame_state_def)

lemma frame_step_none:
  assumes name: "instruction_name (ci_opcode instr) = Inr name" and mem: "name \<notin> location_names \<union> cfa_names \<union> rule_names \<union> {''DW_CFA_restore'', ''DW_CFA_restore_extended'', ''DW_CFA_remember_state'', ''DW_CFA_restore_state''}"
  shows "line_effect F cie name instr l = Inr l" "frame_step F cie instr s = (Inr (), s)"
  using name mem by (simp_all add: frame_step_def line_effect_def location_names_def cfa_names_def rule_names_def)


lemma depth_same:
  "name \<in> location_names \<Longrightarrow> depth_effect name d = Inr d" "name \<in> cfa_names \<Longrightarrow> depth_effect name d = Inr d"
  "name \<in> rule_names \<Longrightarrow> depth_effect name d = Inr d"
  "name \<in> {''DW_CFA_restore'', ''DW_CFA_restore_extended''} \<Longrightarrow> depth_effect name d = Inr d"
  by (auto simp: depth_effect_def location_names_def cfa_names_def rule_names_def)

lemma no_location:
  "name \<in> cfa_names \<Longrightarrow> name \<notin> location_names" "name \<in> rule_names \<Longrightarrow> name \<notin> location_names"
  "name \<in> {''DW_CFA_restore'', ''DW_CFA_restore_extended''} \<Longrightarrow> name \<notin> location_names"
  "name \<in> {''DW_CFA_remember_state'', ''DW_CFA_restore_state''} \<Longrightarrow> name \<notin> location_names"
  by (simp_all add: location_names_def cfa_names_def rule_names_def) (elim disjE; simp)+

lemma frame_step_effect:
  assumes name: "instruction_name (ci_opcode instr) = Inr name" and depth: "depth_effect name d = Inr d'"
  shows "steps_to F d' l rows (line_effect F cie name instr l) (if name \<in> location_names then [l] else [])
    (frame_step F cie instr (frame_state F d l rows))"
proof -
  consider "name \<in> location_names" | "name \<in> cfa_names" | "name \<in> rule_names" | "name \<in> {''DW_CFA_restore'', ''DW_CFA_restore_extended''}"
    | "name = ''DW_CFA_remember_state''" | "name = ''DW_CFA_restore_state''"
    | "name \<notin> location_names \<union> cfa_names \<union> rule_names \<union> {''DW_CFA_restore'', ''DW_CFA_restore_extended'', ''DW_CFA_remember_state'', ''DW_CFA_restore_state''}"
    by blast
  then show ?thesis
  proof cases
    case 5
    have "line_effect F cie name instr l = Inr l" by (simp add: 5 line_effect_def location_names_def)
    then show ?thesis using 5 depth frame_step_stack(1) [OF name 5] no_location(4) [of name]
      by (simp add: depth_effect_def steps_to_def)
  next
    case 6
    have "line_effect F cie name instr l = Inr l" by (simp add: 6 line_effect_def location_names_def)
    then show ?thesis using 6 depth frame_step_stack(3) [OF name 6] no_location(4) [of name]
      by (simp add: depth_effect_def steps_to_def split: nat.splits)
  next
    case 7
    then show ?thesis using depth frame_step_none [OF name] by (simp add: steps_to_def depth_effect_def)
  next
    case 1
    then show ?thesis using depth frame_step_loc [OF name 1] by (simp add: depth_same)
  next
    case 2
    then show ?thesis using depth frame_step_cfa [OF name 2] by (simp add: depth_same no_location)
  next
    case 3
    then show ?thesis using depth frame_step_rules [OF name 3] by (simp add: depth_same no_location)
  next
    case 4
    then show ?thesis using depth frame_step_restore [OF name 4] depth_same(4) [OF 4] no_location(3) [OF 4] by simp
  qed
qed

lemma frame_loop_rows:
  "case frame_rows F cie d l instrs of
     Inl e \<Rightarrow> fst (frame_loop F cie instrs (frame_state F d l rows)) = Inl e
   | Inr ls \<Rightarrow> \<exists>d'. ls \<noteq> [] \<and> frame_loop F cie instrs (frame_state F d l rows) = (Inr (), frame_state F d' (last ls) (rows @ butlast ls))"
proof (induction instrs arbitrary: d l rows)
  case Nil
  then show ?case by auto
next
  case (Cons instr instrs)
  show ?case
  proof (cases "instruction_name (ci_opcode instr)")
    case (Inl e)
    then show ?thesis by (simp add: frame_step_def sbind_apply)
  next
    case name: (Inr name)
    show ?thesis
    proof (cases "depth_effect name d")
      case (Inl e)
      then have e: "name = ''DW_CFA_restore_state''" "d = 0" "e = IndexError" by (auto simp: depth_effect_def split: if_splits nat.splits)
      have "line_effect F cie name instr l = Inr l" by (simp add: e line_effect_def location_names_def)
      then show ?thesis using name Inl e frame_step_stack(2) [OF name] by (simp add: sbind_apply)
    next
      case depth: (Inr d')
      note step = frame_step_effect [OF name depth, of F l rows cie]
      show ?thesis
      proof (cases "line_effect F cie name instr l")
        case (Inl e)
        then show ?thesis using step name by (auto simp: steps_to_def sbind_apply split: prod.splits)
      next
        case (Inr l')
        then show ?thesis using step name depth Cons.IH [of d' l' "rows @ (if name \<in> location_names then [l] else [])"]
          by (auto simp: steps_to_def ebind_def butlast_append split: sum.splits)
      qed
    qed
  qed
qed

lemma decode_lines_rows:
  "decode_lines is_FDE cie l (map fst (cl_regs l)) instrs =
   ebind (frame_rows is_FDE cie 0 l instrs) (\<lambda>rows. Inr \<lparr>dt_table = rows, dt_reg_order = map fst (cl_regs (last rows))\<rparr>)"
proof -
  have start: "\<lparr>fr_store = [l], fr_cur = 0, fr_last = (if is_FDE then Some 0 else None), fr_stack = [], fr_table = [],
      fr_order = map fst (cl_regs l)\<rparr> = frame_state is_FDE 0 l []"
    by (simp add: frame_state_def)
  have addresses: "map ((!) (x # xs)) [Suc 0..<Suc (length xs)] = xs" for x :: cf_line and xs
    by (simp del: upt_Suc add: comp_def map_nth flip: map_Suc_upt)
  have copies: "map ((!) (last ls # butlast ls)) [Suc 0..<length ls] = butlast ls" if "ls \<noteq> []" for ls :: "cf_line list"
    using addresses [of "last ls" "butlast ls"] that by simp
  show ?thesis
  proof (cases "frame_rows is_FDE cie 0 l instrs")
    case (Inl e)
    then show ?thesis using frame_loop_rows [of is_FDE cie instrs 0 l "[]"]
      by (cases "frame_loop is_FDE cie instrs (frame_state is_FDE 0 l [])") (simp add: decode_lines_def start finish_table_def)
  next
    case (Inr ls)
    then obtain d' where run: "ls \<noteq> []" "frame_loop is_FDE cie instrs (frame_state is_FDE 0 l []) = (Inr (), frame_state is_FDE d' (last ls) (butlast ls))"
      using frame_loop_rows [of is_FDE cie instrs 0 l "[]"] by auto
    then show ?thesis using Inr
      by (simp add: decode_lines_def start finish_table_def) (simp add: frame_state_def copies del: upt_Suc)
  qed
qed

lemma frame_rows_nonempty: "frame_rows F cie d l instrs = Inr rows \<Longrightarrow> rows \<noteq> []"
  by (induction instrs arbitrary: d l rows) (auto simp: ebind_Inr_iff)

lemma py_index_last: "xs \<noteq> [] \<Longrightarrow> py_index xs (-1) = Inr (last xs)"
  by (cases xs rule: rev_cases) (auto simp: py_index_def nat_add_distrib)

fun entry_rows :: "cfi_entry \<Rightarrow> pyexc + cf_line list" where
  "entry_rows (CIE header S instrs off) = frame_rows False header 0 \<lparr>cl_pc = 0, cl_cfa = None, cl_regs = []\<rparr> instrs"
| "entry_rows (FDE header S instrs off cie) =
     ebind (entry_rows cie) (\<lambda>rows. ebind (header_int header ''initial_location'') (\<lambda>loc.
       frame_rows True (ce_header cie) 0 ((last rows)\<lparr>cl_pc := loc\<rparr>) instrs))"

definition table_of_rows :: "cf_line list \<Rightarrow> decoded_table" where
  "table_of_rows rows = \<lparr>dt_table = rows, dt_reg_order = map fst (cl_regs (last rows))\<rparr>"

lemma entry_rows_nonempty: "entry_rows e = Inr rows \<Longrightarrow> rows \<noteq> []"
  by (cases e) (auto simp: ebind_Inr_iff dest: frame_rows_nonempty)

lemma get_decoded_rows: "get_decoded e = ebind (entry_rows e) (\<lambda>rows. Inr (table_of_rows rows))"
proof (induction e)
  case (CIE header S instrs off)
  then show ?case using decode_lines_rows [of False header "\<lparr>cl_pc = 0, cl_cfa = None, cl_regs = []\<rparr>" instrs]
    by (simp add: table_of_rows_def)
next
  case (FDE header S instrs off cie)
  show ?case
  proof (cases "entry_rows cie")
    case (Inr rows)
    have line: "decode_lines F h ((last rows)\<lparr>cl_pc := loc\<rparr>) (map fst (cl_regs (last rows))) is =
        ebind (frame_rows F h 0 ((last rows)\<lparr>cl_pc := loc\<rparr>) is) (\<lambda>rows. Inr (table_of_rows rows))" for F h loc "is"
      using decode_lines_rows [of F h "(last rows)\<lparr>cl_pc := loc\<rparr>" "is"] by (simp add: table_of_rows_def)
    show ?thesis using FDE Inr entry_rows_nonempty [OF Inr]
      by (simp add: table_of_rows_def [of rows] py_index_last line ebind_def split: sum.split)
  qed (use FDE in simp)
qed

text \<open>C5: Decoding an entry, with its shared lines and their copies, computes the rows of a machine without a store: each instruction maps the current line to the next one, a location instruction emits the line before, and the register order is the order of the registers of the last row; an exception of one is the same exception of the other.\<close>

theorem frame_table_refines:
  "get_decoded e = ebind (entry_rows e) (\<lambda>rows. Inr (table_of_rows rows))"
  by (rule get_decoded_rows)

subsection \<open>What is forgotten\<close>

definition forgotten :: "cf_instruction \<Rightarrow> bool" where
  "forgotten instr = (\<exists>name \<in> {''DW_CFA_remember_state'', ''DW_CFA_restore_state'', ''DW_CFA_restore'', ''DW_CFA_restore_extended''}.
     instruction_name (ci_opcode instr) = Inr name)"

lemma forgotten_effect:
  assumes "forgotten instr" "instruction_name (ci_opcode instr) = Inr name" "line_effect F cie name instr l = Inr l'"
  shows "l' = l" "name \<notin> location_names"
proof -
  have "name \<in> {''DW_CFA_remember_state'', ''DW_CFA_restore_state'', ''DW_CFA_restore'', ''DW_CFA_restore_extended''}"
    using assms(1,2) by (auto simp: forgotten_def)
  then show "l' = l" "name \<notin> location_names" using assms(3) unfolding insert_iff empty_iff simp_thms
    by (atomize (full), elim disjE) (simp_all add: line_effect_def location_names_def ebind_Inr_iff split: if_splits, auto)
qed

lemma depth_effect_kept: "\<not> forgotten instr \<Longrightarrow> instruction_name (ci_opcode instr) = Inr name \<Longrightarrow> depth_effect name d = Inr d"
  by (auto simp: forgotten_def depth_effect_def)

lemma frame_rows_filter:
  "frame_rows F cie d l instrs = Inr rows \<Longrightarrow> frame_rows F cie d' l (filter (\<lambda>i. \<not> forgotten i) instrs) = Inr rows"
proof (induction instrs arbitrary: d d' l rows)
  case (Cons instr instrs)
  obtain name l' d1 rows' where run: "instruction_name (ci_opcode instr) = Inr name" "line_effect F cie name instr l = Inr l'"
      "depth_effect name d = Inr d1" "frame_rows F cie d1 l' instrs = Inr rows'"
      "rows = (if name \<in> location_names then [l] else []) @ rows'"
    using Cons.prems by (auto simp: ebind_Inr_iff)
  show ?case
  proof (cases "forgotten instr")
    case True
    with forgotten_effect [OF True run(1,2)] run(5) Cons.IH [OF run(4)] show ?thesis by simp
  next
    case False
    then show ?thesis using run depth_effect_kept [OF False run(1)] Cons.IH [OF run(4)] by simp
  qed
qed simp

theorem frame_state_forgotten:
  assumes "get_decoded (FDE header S instrs off cie) = Inr t"
  shows "get_decoded (FDE header S (filter (\<lambda>i. \<not> forgotten i) instrs) off cie) = Inr t"
  using assms unfolding get_decoded_rows by (auto simp: ebind_Inr_iff intro: frame_rows_filter)


subsection \<open>The registers of the lines\<close>

definition regs_step :: "cf_line \<Rightarrow> cf_line \<Rightarrow> bool" where
  "regs_step l l' = (cl_regs l' = cl_regs l \<or> (\<exists>r v. cl_regs l' = dict_set r v (cl_regs l)))"

lemma regs_step_simps [simp]:
  "regs_step l l" "regs_step l (l\<lparr>cl_pc := n\<rparr>)" "regs_step l (cfa_effect r off e l)" "cl_pc (cfa_effect r off e l) = cl_pc l"
  by (simp_all add: regs_step_def cfa_effect_def)

lemma rule_effect_regs: "rule_effect instr rule l = Inr l' \<Longrightarrow> regs_step l l' \<and> cl_pc l' = cl_pc l"
  by (fastforce simp: rule_effect_def regs_step_def ebind_Inr_iff)

lemma line_effect_regs:
  assumes "line_effect F cie name instr l = Inr l'"
  shows "regs_step l l' \<and> (name \<notin> location_names \<longrightarrow> cl_pc l' = cl_pc l)"
proof -
  consider "name \<in> location_names" | "name \<in> cfa_names" | "name \<in> rule_names" | "name \<in> {''DW_CFA_restore'', ''DW_CFA_restore_extended''}"
    | "name \<notin> location_names \<union> cfa_names \<union> rule_names \<union> {''DW_CFA_restore'', ''DW_CFA_restore_extended''}"
    by blast
  then show ?thesis
  proof cases
    case 1
    then show ?thesis using assms unfolding location_names_def insert_iff empty_iff simp_thms
      by (elim disjE) (auto simp: line_effect_def location_names_def ebind_Inr_iff)
  next
    case 2
    then show ?thesis using assms unfolding cfa_names_def insert_iff empty_iff simp_thms
      by (elim disjE) (auto simp: line_effect_def location_names_def ebind_Inr_iff)
  next
    case 3
    then show ?thesis using assms unfolding rule_names_def insert_iff empty_iff simp_thms
      by (elim disjE) (auto simp: line_effect_def location_names_def dest!: rule_effect_regs)
  next
    case 4
    then show ?thesis using assms unfolding insert_iff empty_iff simp_thms
      by (elim disjE) (auto simp: line_effect_def location_names_def ebind_Inr_iff split: if_splits)
  next
    case 5
    then show ?thesis using assms by (simp add: line_effect_def location_names_def cfa_names_def rule_names_def)
  qed
qed

definition regs_grow :: "cf_line \<Rightarrow> cf_line \<Rightarrow> bool" where
  "regs_grow l l' = ((\<exists>ys. map fst (cl_regs l') = map fst (cl_regs l) @ ys) \<and>
     (distinct (map fst (cl_regs l)) \<longrightarrow> distinct (map fst (cl_regs l'))))"

lemma regs_grow_refl: "regs_grow l l"
  by (simp add: regs_grow_def)

lemma regs_grow_trans: "regs_grow l l' \<Longrightarrow> regs_grow l' l'' \<Longrightarrow> regs_grow l l''"
  by (auto simp: regs_grow_def)

lemma regs_grow_distinct: "regs_grow l l' \<Longrightarrow> distinct (map fst (cl_regs l)) \<Longrightarrow> distinct (map fst (cl_regs l'))"
  by (simp add: regs_grow_def)

lemma line_effect_grows: "line_effect F cie name instr l = Inr l' \<Longrightarrow> regs_grow l l'"
  using line_effect_regs [of F cie name instr l l'] by (auto simp: regs_grow_def regs_step_def keys_after_set)

lemma frame_rows_grow:
  "frame_rows F cie d l instrs = Inr rows \<Longrightarrow> sorted_wrt regs_grow (l # rows)"
proof (induction instrs arbitrary: d l rows)
  case (Cons instr instrs)
  obtain name l' d1 rows' where run: "line_effect F cie name instr l = Inr l'" "frame_rows F cie d1 l' instrs = Inr rows'"
      "rows = (if name \<in> location_names then [l] else []) @ rows'"
    using Cons.prems by (auto simp: ebind_Inr_iff)
  show ?case using Cons.IH [OF run(2)] line_effect_grows [OF run(1)] run(3)
    by (auto intro: regs_grow_trans regs_grow_refl)
qed (simp add: regs_grow_refl)

lemma frame_rows_start: "frame_rows F cie d l instrs = Inr rows \<Longrightarrow> cl_pc l = cl_pc (hd rows)"
proof (induction instrs arbitrary: d l rows)
  case (Cons instr instrs)
  obtain name l' d1 rows' where run: "line_effect F cie name instr l = Inr l'" "frame_rows F cie d1 l' instrs = Inr rows'"
      "rows = (if name \<in> location_names then [l] else []) @ rows'"
    using Cons.prems by (auto simp: ebind_Inr_iff)
  have "name \<notin> location_names \<Longrightarrow> cl_pc l' = cl_pc l"
    using line_effect_regs [OF run(1)] by simp
  then show ?case using Cons.IH [OF run(2)] run(3) frame_rows_nonempty [OF run(2)] by auto
qed simp


lemma entry_rows_start:
  "entry_rows e = Inr rows \<Longrightarrow> (case e of CIE h S is off \<Rightarrow> cl_pc (hd rows) = 0
     | FDE h S is off cie \<Rightarrow> header_int h ''initial_location'' = Inr (cl_pc (hd rows)))"
  by (cases e) (auto simp: ebind_Inr_iff dest!: frame_rows_start)

lemma entry_rows_distinct: "entry_rows e = Inr rows \<Longrightarrow> distinct (map fst (cl_regs (last rows))) \<and> sorted_wrt regs_grow rows"
proof (induction e arbitrary: rows)
  case (CIE h S "is" off)
  then have "frame_rows False h 0 \<lparr>cl_pc = 0, cl_cfa = None, cl_regs = []\<rparr> is = Inr rows" by simp
  note grow = frame_rows_grow [OF this] and rows = frame_rows_nonempty [OF this]
  then have "regs_grow \<lparr>cl_pc = 0, cl_cfa = None, cl_regs = []\<rparr> (last rows)" by simp
  then have "distinct (map fst (cl_regs (last rows)))" by (rule regs_grow_distinct) simp
  with grow show ?case by simp
next
  case (FDE h S "is" off cie)
  then obtain rows' loc where cie: "entry_rows cie = Inr rows'"
      and run: "frame_rows True (ce_header cie) 0 ((last rows')\<lparr>cl_pc := loc\<rparr>) is = Inr rows"
    by (auto simp: ebind_Inr_iff)
  note grow = frame_rows_grow [OF run] and rows = frame_rows_nonempty [OF run]
  then have "regs_grow ((last rows')\<lparr>cl_pc := loc\<rparr>) (last rows)" by simp
  then have "distinct (map fst (cl_regs (last rows)))" by (rule regs_grow_distinct) (use FDE.IH [OF cie] in simp)
  with grow show ?case by simp
qed

lemma sorted_grow_last: "sorted_wrt regs_grow rows \<Longrightarrow> l \<in> set rows \<Longrightarrow> regs_grow l (last rows)"
  by (induction rows) (auto intro: regs_grow_refl)

text \<open>C25: A decoded table has a row; its register order lists each register once, namely those of the last row, and the registers of every row are a prefix of it; the first row of a CIE is at 0 and that of an FDE at its initial location.\<close>

theorem frame_table_order:
  assumes "get_decoded e = Inr t"
  shows "dt_table t \<noteq> [] \<and> distinct (dt_reg_order t) \<and> dt_reg_order t = map fst (cl_regs (last (dt_table t))) \<and>
    (\<forall>l \<in> set (dt_table t). \<exists>ys. dt_reg_order t = map fst (cl_regs l) @ ys) \<and>
    (case e of CIE h S is off \<Rightarrow> cl_pc (hd (dt_table t)) = 0
     | FDE h S is off cie \<Rightarrow> header_int h ''initial_location'' = Inr (cl_pc (hd (dt_table t))))"
proof -
  obtain rows where rows: "entry_rows e = Inr rows" "t = table_of_rows rows"
    using assms by (auto simp: get_decoded_rows ebind_Inr_iff)
  have "\<exists>ys. dt_reg_order t = map fst (cl_regs l) @ ys" if "l \<in> set rows" for l
    using sorted_grow_last [OF conjunct2 [OF entry_rows_distinct [OF rows(1)]] that] by (auto simp: regs_grow_def rows table_of_rows_def)
  then show ?thesis using entry_rows_nonempty [OF rows(1)] entry_rows_distinct [OF rows(1)] entry_rows_start [OF rows(1)]
    by (cases e) (simp_all add: rows(2) table_of_rows_def)
qed

text \<open>An FDE that remembers its state, changes the offset of the frame address, and restores the state.\<close>

definition example_cie :: cfi_entry where
  "example_cie = CIE [(''code_alignment_factor'', PInt 4), (''data_alignment_factor'', PInt (- 8))] example_structs
     [\<lparr>ci_opcode = 0x0c, ci_args = [PInt 7, PInt 8]\<rparr>, \<lparr>ci_opcode = 0x90, ci_args = [PInt 16, PInt 1]\<rparr>] 0"

definition example_instrs :: "cf_instruction list" where
  "example_instrs = [\<lparr>ci_opcode = 0x41, ci_args = [PInt 1]\<rparr>, \<lparr>ci_opcode = 0x0a, ci_args = []\<rparr>,
     \<lparr>ci_opcode = 0x0e, ci_args = [PInt 16]\<rparr>, \<lparr>ci_opcode = 0x0b, ci_args = []\<rparr>, \<lparr>ci_opcode = 0xd0, ci_args = [PInt 16]\<rparr>]"

definition example_table :: decoded_table where
  "example_table =
     (let rule = RegisterRule OFFSET (Some (PInt (- 8)));
          row = (\<lambda>pc off. \<lparr>cl_pc = pc, cl_cfa = Some \<lparr>cfa_reg = Some (PInt 7), cfa_offset = Some (PInt off), cfa_expr = None\<rparr>,
            cl_regs = [(16, rule)]\<rparr>)
      in \<lparr>dt_table = [row 4096 8, row 4100 16], dt_reg_order = [16]\<rparr>)"

lemma example_decoded: "get_decoded (FDE [(''initial_location'', PInt 4096)] example_structs example_instrs 24 example_cie) = Inr example_table"
  by code_simp


theorem frame_state_forgotten_witness:
  "get_decoded (FDE [(''initial_location'', PInt 4096)] example_structs (filter (\<lambda>i. \<not> forgotten i) example_instrs) 24 example_cie) =
   Inr example_table"
  by (rule frame_state_forgotten [OF example_decoded])

theorem frame_table_order_witness:
  "dt_table example_table \<noteq> [] \<and> dt_reg_order example_table = map fst (cl_regs (last (dt_table example_table)))"
  using frame_table_order [OF example_decoded] by blast

end
