(* ===== verification/DwarfBlocks.thy ===== *)
theory DwarfBlocks
  imports DwarfHeaders
begin

section \<open>Blocks\<close>

text \<open>
  The forms of DWARF that hold a block of bytes are prefixed arrays. Their length stays in the
  context of whoever parses them, so they are no \<open>decoder\<close>; parsed on their own by
  \<open>struct_parse\<close> they return the bytes of the block.
\<close>

lemma sequence_pair:
  assumes "decoder L dec" "dec [] a n" "con_name L = Some k" "\<not> is_flag FLAG_EMBED L"
    and "decoder A adec" "adec (container_setitem [] k n) b v" "con_name A = Some e" "\<not> is_flag FLAG_EMBED A"
    and "length (a @ b @ r) < fuel"
  shows "\<exists>s'. con_parse (Sequence name False [L, A]) (start_state fuel (BytesIO (x @ a @ b @ r) (length x))) = (Inr (PList [n, v]), s') \<and>
    p_stream s' = BytesIO (x @ a @ b @ r) (length x + length a + length b)"
proof -
  let ?s = "(start_state fuel (BytesIO (x @ a @ b @ r) (length x)))\<lparr>p_objs := [PList []]\<rparr>"
  have calm: "calm ?s" "c_vars (p_ctx ?s) = []" "length (a @ b @ r) < p_fuel ?s" "p_stream ?s = BytesIO (x @ a @ b @ r) (length x)"
    using assms(9) by (simp_all add: calm_def start_state_def new_ctx_def)
  obtain o1 where 1: "con_parse L ?s = (Inr n, ?s\<lparr>p_stream := BytesIO (x @ a @ b @ r) (length x + length a), p_objs := p_objs ?s @ o1\<rparr>)"
    using decoder.decode_law [OF assms(1), of ?s a n x "b @ r"] assms(2) calm by auto
  let ?t = "?s\<lparr>p_stream := BytesIO ((x @ a) @ b @ r) (length (x @ a)), p_objs := PList [n] # o1, p_ctx := ctx_set k n (p_ctx ?s)\<rparr>"
  have "calm ?t" "c_vars (p_ctx ?t) = container_setitem [] k n" "length (b @ r) < p_fuel ?t"
    using calm by (simp_all add: calm_def ctx_set_def)
  then obtain o2 where "con_parse A ?t = (Inr v, ?t\<lparr>p_stream := BytesIO ((x @ a) @ b @ r) (length (x @ a) + length b), p_objs := p_objs ?t @ o2\<rparr>)"
    using decoder.decode_law [OF assms(5), of ?t b v "x @ a" r] assms(6) by auto
  then show ?thesis using 1 assms(3,4,7,8)
    by (simp add: Sequence_def with_object_def start_state_def new_ctx_def sbind_apply pm_simps obj_append_def add.assoc)
qed

definition block_value :: "string \<Rightarrow> pyval" where
  "block_value b = PList (map (\<lambda>c. PInt (ord_c c)) b)"

lemma byte_value: "num_dec S Fmt_B vars [c] (PInt (ord_c c))"
  by (simp add: int_dec_def int_enc_def pack_def fmt_min_def fmt_max_def fmt_signed_def)

lemma block_bytes: "list_all2 (num_dec S Fmt_B vars) (map (\<lambda>c. [c]) b) (map (\<lambda>c. PInt (ord_c c)) b)"
  by (induction b) (simp_all add: byte_value)

lemma block_struct_parse:
  assumes "decoder (lf (Some '''')) dec" "dec [] a (PInt (int (length b)))"
    and "con_name (lf (Some '''')) = Some ''''" "\<not> is_flag FLAG_EMBED (lf (Some ''''))" "length (a @ b @ r) < fuel"
  shows "struct_parse fuel (make_block_struct S lf) None (BytesIO (x @ a @ b @ r) (length x)) =
    (Inr (block_value b), BytesIO (x @ a @ b @ r) (length x + length a + length b))"
proof -
  let ?A = "Array (Func (ctx_count (Some ''''))) (Dwarf_uint8 S (Some ''elem''))"
  have A: "decoder ?A (counted_dec (ctx_count (Some '''')) (num_dec S Fmt_B))"
    unfolding Array_def amount.case dwarf_formats by (rule decoder_counted [OF decoder_int])
  have 1: "counted_dec (ctx_count (Some '''')) (num_dec S Fmt_B) (container_setitem [] '''' (PInt (int (length b)))) b (block_value b)"
    unfolding counted_dec_def block_value_def
    by (rule exI [of _ "map (\<lambda>c. [c]) b"], rule exI [of _ "map (\<lambda>c. PInt (ord_c c)) b"], rule exI [of _ "int (length b)"])
      (auto simp: block_bytes ctx_count_def ctx_item_def container_setitem_def container_getitem_def dict_get_def)
  have 2: "con_name ?A = Some ''elem''" "\<not> is_flag FLAG_EMBED ?A"
    by (simp_all add: Array_def dwarf_formats)
  obtain s' where "con_parse (Sequence (Some ''elem'') False [lf (Some ''''), ?A]) (start_state fuel (BytesIO (x @ a @ b @ r) (length x))) =
      (Inr (PList [PInt (int (length b)), block_value b]), s')" "p_stream s' = BytesIO (x @ a @ b @ r) (length x + length a + length b)"
    using sequence_pair [OF assms(1,2,3,4) A 1 2 assms(5)] by blast
  then show ?thesis using assms(3)
    by (simp add: struct_parse_def parse_stream_def scatch_def sbind_apply make_block_struct_def PrefixedArray_def LengthValueAdapter_def
        PureAdapter_def Adapter_def pm_simps dwarf_formats py_index_def)
qed

end
