(* ===== verification/DwarfFrameParse.thy ===== *)
theory DwarfFrameParse
  imports DwarfFrames DwarfBlocks
begin

section \<open>Reading call frame instructions\<close>

text \<open>
  The operands of the instructions as a table, and reading them: the instructions written by the
  table are read back, reading them always ends, and reading the entries does not when an entry
  refers to a later one.
\<close>

unbundle bit_operations_syntax

datatype operand = Op_uleb | Op_sleb | Op_addr | Op_num int_format | Op_block

definition operands :: "int \<Rightarrow> operand list option" where
  "operands opcode =
     (let primary = opcode AND PRIMARY_MASK
      in if primary = DW_CFA_advance_loc \<or> primary = DW_CFA_restore then Some []
         else if primary = DW_CFA_offset then Some [Op_uleb]
         else map_of
           [(0x00, []), (0x0a, []), (0x0b, []), (0x01, [Op_addr]), (0x02, [Op_num Fmt_B]), (0x03, [Op_num Fmt_H]),
            (0x04, [Op_num Fmt_L]), (0x05, [Op_uleb, Op_uleb]), (0x09, [Op_uleb, Op_uleb]), (0x0c, [Op_uleb, Op_uleb]),
            (0x14, [Op_uleb, Op_uleb]), (0x06, [Op_uleb]), (0x07, [Op_uleb]), (0x08, [Op_uleb]), (0x0d, [Op_uleb]),
            (0x0e, [Op_uleb]), (0x13, [Op_sleb]), (0x0f, [Op_block]), (0x10, [Op_uleb, Op_block]), (0x16, [Op_uleb, Op_block]),
            (0x11, [Op_uleb, Op_sleb]), (0x12, [Op_uleb, Op_sleb]), (0x15, [Op_uleb, Op_sleb])] opcode)"

definition embedded_arg :: "int \<Rightarrow> pyval list" where
  "embedded_arg opcode =
     (if opcode AND PRIMARY_MASK \<in> {DW_CFA_advance_loc, DW_CFA_restore, DW_CFA_offset} then [PInt (opcode AND PRIMARY_ARG_MASK)] else [])"

fun operand_con :: "dwarf_structs \<Rightarrow> operand \<Rightarrow> construct" where
  "operand_con S Op_uleb = ULEB128 (Some '''')"
| "operand_con S Op_sleb = SLEB128 (Some '''')"
| "operand_con S Op_addr = FormatField (Some '''') (dwarf_endian S) (target_format S)"
| "operand_con S (Op_num f) = FormatField (Some '''') (dwarf_endian S) f"
| "operand_con S Op_block = make_block_struct S (Dwarf_uleb128 S)"

fun parse_each :: "nat \<Rightarrow> dwarf_structs \<Rightarrow> operand list \<Rightarrow> pyval list cm" where
  "parse_each fuel S [] = sret []"
| "parse_each fuel S (q # qs) =
     sbind (cf_parse fuel (operand_con S q) None) (\<lambda>v. sbind (parse_each fuel S qs) (\<lambda>vs. sret (v # vs)))"

lemma block_form: "dw_form S ''DW_FORM_block'' = Inr (make_block_struct S (Dwarf_uleb128 S))"
  by (simp add: dw_form_def Dwarf_dw_form_def dict_get_def)

lemma masks: "DW_CFA_advance_loc \<noteq> DW_CFA_offset" "DW_CFA_restore \<noteq> DW_CFA_offset"  "DW_CFA_restore \<noteq> DW_CFA_advance_loc"
  by (simp_all add: DW_CFA_advance_loc_def DW_CFA_offset_def DW_CFA_restore_def)

lemma instruction_args_table:
  "instruction_args fuel S opcode = (case operands opcode of None \<Rightarrow> sraise DWARFError
     | Some qs \<Rightarrow> sbind (parse_each fuel S qs) (\<lambda>vs. sret (embedded_arg opcode @ vs)))"
proof -
  let ?p = "opcode AND PRIMARY_MASK" and ?Q = "{DW_CFA_advance_loc, DW_CFA_restore, DW_CFA_offset}"
  note defs = instruction_args_def Let_def block_form sbind_assoc sbind_sret dwarf_leb dwarf_formats
  show ?thesis
  proof (cases "?p \<in> ?Q")
    case True
    have e: "embedded_arg opcode = [PInt (opcode AND PRIMARY_ARG_MASK)]" using True by (simp add: embedded_arg_def)
    have o: "operands opcode = Some (if ?p = DW_CFA_offset then [Op_uleb] else [])" using True masks by (auto simp: operands_def Let_def)
    show ?thesis unfolding e o using True masks by (elim insertE emptyE) (simp_all add: defs, simp_all add: sret_def sbind_def)
  next
    case False
    have e: "embedded_arg opcode = []" using False by (simp add: embedded_arg_def)
    have i: "instruction_args fuel S opcode = (
         let uleb = cf_parse fuel (ULEB128 (Some '''')) None; sleb = cf_parse fuel (SLEB128 (Some '''')) None;
             block = cf_parse fuel (operand_con S Op_block) None; num = (\<lambda>f. cf_parse fuel (operand_con S (Op_num f)) None)
         in if opcode \<in> {0x00, 0x0a, 0x0b} then sret []
         else if opcode = 0x01 then sbind (cf_parse fuel (operand_con S Op_addr) None) (\<lambda>v. sret [v])
         else if opcode = 0x02 then sbind (num Fmt_B) (\<lambda>v. sret [v])
         else if opcode = 0x03 then sbind (num Fmt_H) (\<lambda>v. sret [v])
         else if opcode = 0x04 then sbind (num Fmt_L) (\<lambda>v. sret [v])
         else if opcode \<in> {0x05, 0x09, 0x0c, 0x14} then sbind uleb (\<lambda>v. sbind uleb (\<lambda>w. sret [v, w]))
         else if opcode \<in> {0x06, 0x07, 0x08, 0x0d, 0x0e} then sbind uleb (\<lambda>v. sret [v])
         else if opcode = 0x13 then sbind sleb (\<lambda>v. sret [v])
         else if opcode = 0x0f then sbind block (\<lambda>v. sret [v])
         else if opcode \<in> {0x10, 0x16} then sbind uleb (\<lambda>v. sbind block (\<lambda>w. sret [v, w]))
         else if opcode \<in> {0x11, 0x12, 0x15} then sbind uleb (\<lambda>v. sbind sleb (\<lambda>w. sret [v, w]))
         else sraise DWARFError)"
      using False by (simp add: instruction_args_def Let_def block_form sbind_sret dwarf_leb dwarf_formats)
    have o: "operands opcode = map_of
           [(0x00, []), (0x0a, []), (0x0b, []), (0x01, [Op_addr]), (0x02, [Op_num Fmt_B]), (0x03, [Op_num Fmt_H]),
            (0x04, [Op_num Fmt_L]), (0x05, [Op_uleb, Op_uleb]), (0x09, [Op_uleb, Op_uleb]), (0x0c, [Op_uleb, Op_uleb]),
            (0x14, [Op_uleb, Op_uleb]), (0x06, [Op_uleb]), (0x07, [Op_uleb]), (0x08, [Op_uleb]), (0x0d, [Op_uleb]),
            (0x0e, [Op_uleb]), (0x13, [Op_sleb]), (0x0f, [Op_block]), (0x10, [Op_uleb, Op_block]), (0x16, [Op_uleb, Op_block]),
            (0x11, [Op_uleb, Op_sleb]), (0x12, [Op_uleb, Op_sleb]), (0x15, [Op_uleb, Op_sleb])] opcode"
      using False by (simp add: operands_def Let_def)
    consider "opcode \<in> set [0x00, 0x0a, 0x0b, 0x01, 0x02, 0x03, 0x04, 0x05, 0x09, 0x0c, 0x14, 0x06, 0x07, 0x08, 0x0d, 0x0e, 0x13, 0x0f, 0x10, 0x16, 0x11, 0x12, 0x15]"
      | "opcode \<notin> set [0x00, 0x0a, 0x0b, 0x01, 0x02, 0x03, 0x04, 0x05, 0x09, 0x0c, 0x14, 0x06, 0x07, 0x08, 0x0d, 0x0e, 0x13, 0x0f, 0x10, 0x16, 0x11, 0x12, 0x15]"
      by blast
    then show ?thesis
    proof cases
      case 1
      then show ?thesis unfolding i o e set_simps insert_iff empty_iff simp_thms Let_def
        by (elim disjE) (simp_all add: sbind_assoc sbind_sret, simp_all add: sret_def sbind_def)
    next
      case 2
      then show ?thesis unfolding i o e Let_def by simp
    qed
  qed
qed

subsection \<open>The instructions written by the table are read back\<close>

inductive operand_enc :: "dwarf_structs \<Rightarrow> operand \<Rightarrow> string \<Rightarrow> pyval \<Rightarrow> bool" for S where
  enc_uleb: "uleb_dec [] b v \<Longrightarrow> operand_enc S Op_uleb b v"
| enc_sleb: "sleb_dec [] b v \<Longrightarrow> operand_enc S Op_sleb b v"
| enc_addr: "num_dec S (target_format S) [] b v \<Longrightarrow> operand_enc S Op_addr b v"
| enc_num: "num_dec S f [] b v \<Longrightarrow> operand_enc S (Op_num f) b v"
| enc_block: "uleb_dec [] a (PInt (int (length b))) \<Longrightarrow> operand_enc S Op_block (a @ b) (block_value b)"

inductive operands_enc :: "dwarf_structs \<Rightarrow> operand list \<Rightarrow> string \<Rightarrow> pyval list \<Rightarrow> bool" for S where
  enc_none: "operands_enc S [] [] []"
| enc_more: "operand_enc S q a v \<Longrightarrow> operands_enc S qs b vs \<Longrightarrow> operands_enc S (q # qs) (a @ b) (v # vs)"

inductive instrs_enc :: "dwarf_structs \<Rightarrow> cf_instruction list \<Rightarrow> string \<Rightarrow> bool" for S where
  enc_end: "instrs_enc S [] []"
| enc_instr: "0 \<le> opcode \<Longrightarrow> opcode < 256 \<Longrightarrow> operands opcode = Some qs \<Longrightarrow> operands_enc S qs a vs \<Longrightarrow> instrs_enc S instrs b \<Longrightarrow>
    instrs_enc S (\<lparr>ci_opcode = opcode, ci_args = embedded_arg opcode @ vs\<rparr> # instrs) (chr_c opcode # a @ b)"

lemma operand_parse:
  assumes "operand_enc S q b v" "length (b @ r) < fuel"
  shows "struct_parse fuel (operand_con S q) None (BytesIO (x @ b @ r) (length x)) = (Inr v, BytesIO (x @ b @ r) (length x + length b))"
  using assms
proof cases
  case (enc_block a c)
  then show ?thesis using block_struct_parse [of "Dwarf_uleb128 S" uleb_dec a c r fuel S x] assms(2) decoder_uleb
    by (simp add: dwarf_leb add.assoc)
qed (use assms(2) decoder.struct_parse_here [OF decoder_uleb] decoder.struct_parse_here [OF decoder_sleb]
       decoder.struct_parse_here [OF decoder_int] in \<open>simp_all\<close>)

lemma cf_parse_at:
  "struct_parse fuel c pos (cr_stream s) = (r, t) \<Longrightarrow> cf_parse fuel c pos s = (r, s\<lparr>cr_stream := t\<rparr>)"
  by (simp add: cf_parse_def)

lemma operands_parse:
  "operands_enc S qs b vs \<Longrightarrow> length (b @ r) < fuel \<Longrightarrow> cr_stream s = BytesIO (x @ b @ r) (length x) \<Longrightarrow>
    parse_each fuel S qs s = (Inr vs, s\<lparr>cr_stream := BytesIO (x @ b @ r) (length x + length b)\<rparr>)"
proof (induction arbitrary: s x rule: operands_enc.induct)
  case (enc_more q a v qs b vs)
  have "cf_parse fuel (operand_con S q) None s = (Inr v, s\<lparr>cr_stream := BytesIO ((x @ a) @ b @ r) (length (x @ a))\<rparr>)"
    using operand_parse [OF enc_more.hyps(1), of "b @ r" fuel x] enc_more.prems by (intro cf_parse_at) simp
  then show ?case using enc_more.IH [of "s\<lparr>cr_stream := BytesIO ((x @ a) @ b @ r) (length (x @ a))\<rparr>" "x @ a"] enc_more.prems
    by (simp add: add.assoc)
qed simp

lemma instructions_loop_enc:
  "instrs_enc S instrs b \<Longrightarrow> length (b @ r) < fuel \<Longrightarrow> length b < k \<Longrightarrow> cr_stream s = BytesIO (x @ b @ r) q \<Longrightarrow> (b \<noteq> [] \<or> q = length x) \<Longrightarrow>
    instructions_loop k fuel S (int (length x)) (int (length x + length b)) acc s =
      (Inr (acc @ instrs), s\<lparr>cr_stream := BytesIO (x @ b @ r) (length x + length b)\<rparr>)"
proof (induction arbitrary: s x q k acc rule: instrs_enc.induct)
  case enc_end
  then show ?case by (cases k) auto
next
  case (enc_instr opcode qs a vs instrs b)
  obtain k' where k: "k = Suc k'" using enc_instr.prems(2) by (cases k) auto
  let ?d = "x @ (chr_c opcode # a @ b) @ r"
  let ?s1 = "s\<lparr>cr_stream := BytesIO ((x @ [chr_c opcode]) @ a @ b @ r) (length (x @ [chr_c opcode]))\<rparr>"
  let ?x = "x @ chr_c opcode # a"
  let ?s2 = "s\<lparr>cr_stream := BytesIO (?x @ b @ r) (length ?x)\<rparr>"
  have "struct_parse fuel (FormatField (Some '''') (dwarf_endian S) Fmt_B) (Some (int (length x))) (BytesIO ?d q) =
      (Inr (PInt opcode), BytesIO ?d (length x + 1))"
    using decoder.struct_parse_decodes [OF decoder_int byte_dec [OF enc_instr.hyps(1,2)], of "a @ b @ r" fuel] enc_instr.prems(1) by simp
  then have 1: "cf_number fuel (Dwarf_uint8 S (Some '''')) (Some (int (length x))) s = (Inr opcode, ?s1)"
    using cf_parse_at [of fuel _ _ s] enc_instr.prems(3) by (simp add: cf_number_def dwarf_formats sbind_apply as_int_def)
  have "parse_each fuel S qs ?s1 = (Inr vs, ?s1\<lparr>cr_stream := BytesIO ((x @ [chr_c opcode]) @ a @ b @ r) (length (x @ [chr_c opcode]) + length a)\<rparr>)"
    by (rule operands_parse [OF enc_instr.hyps(4)]) (use enc_instr.prems(1) in simp_all)
  then have 2: "instruction_args fuel S opcode ?s1 = (Inr (embedded_arg opcode @ vs), ?s2)"
    by (simp add: instruction_args_table enc_instr.hyps(3) sbind_apply)
  have 3: "instructions_loop k' fuel S (int (length ?x)) (int (length ?x + length b)) (acc @ [\<lparr>ci_opcode = opcode, ci_args = embedded_arg opcode @ vs\<rparr>]) ?s2 =
      (Inr ((acc @ [\<lparr>ci_opcode = opcode, ci_args = embedded_arg opcode @ vs\<rparr>]) @ instrs), ?s2\<lparr>cr_stream := BytesIO (?x @ b @ r) (length ?x + length b)\<rparr>)"
    by (rule enc_instr.IH) (use enc_instr.prems k in auto)
  show ?case unfolding k using 1 2 3 by (simp add: cf_tell_def add.assoc add.commute add.left_commute)
qed

text \<open>C24: Call frame instructions, each written as its opcode and the operands its opcode has, are read back by _parse_instructions, for every opcode and operand form, blocks included, whatever follows.\<close>

theorem frame_instructions_parse:
  assumes "instrs_enc S instrs b" "length (b @ r) < fuel"
  shows "parse_instructions fuel S (int (length x)) (int (length x + length b)) (CallFrameInfo (BytesIO (x @ b @ r) (length x))) =
    (Inr instrs, CallFrameInfo (BytesIO (x @ b @ r) (length x + length b)))"
  using instructions_loop_enc [OF assms, of fuel "CallFrameInfo (BytesIO (x @ b @ r) (length x))" x "length x" "[]"] assms(2)
  by (simp add: parse_instructions_def CallFrameInfo_def)

text \<open>\<open>DW_CFA_offset(16), 1\<close>, then \<open>DW_CFA_def_cfa_expression\<close> with a block of two bytes.\<close>

lemma example_instrs_enc:
  "instrs_enc example_structs [\<lparr>ci_opcode = 0x90, ci_args = [PInt 16, PInt 1]\<rparr>, \<lparr>ci_opcode = 0x0f, ci_args = [block_value ''ab'']\<rparr>]
    [chr_c 0x90, chr_c 1, chr_c 0x0f, chr_c 2, CHR ''a'', CHR ''b'']"
proof -
  note masks = PRIMARY_MASK_def PRIMARY_ARG_MASK_def DW_CFA_advance_loc_def DW_CFA_restore_def DW_CFA_offset_def
  have u: "uleb_dec [] [chr_c n] (PInt n)" if "n \<in> {1, 2}" for n
    using that by (elim insertE emptyE; hypsubst) code_simp+
  have 1: "operands_enc example_structs [Op_uleb] ([chr_c 1] @ []) [PInt 1]"
    by (intro enc_more enc_none enc_uleb u) simp
  have 2: "operands_enc example_structs [Op_block] (([chr_c 2] @ ''ab'') @ []) [block_value ''ab'']"
    by (intro enc_more enc_none enc_block) (use u [of 2] in simp)
  have o: "operands 0x90 = Some [Op_uleb]" "operands 0x0f = Some [Op_block]" "embedded_arg 0x90 = [PInt 16]" "embedded_arg 0x0f = []"
    by (simp_all add: operands_def embedded_arg_def masks)
  have "instrs_enc example_structs [\<lparr>ci_opcode = 0x0f, ci_args = embedded_arg 0x0f @ [block_value ''ab'']\<rparr>] (chr_c 0x0f # (([chr_c 2] @ ''ab'') @ []) @ [])"
    by (rule enc_instr [OF _ _ o(2) 2 enc_end]) simp_all
  from enc_instr [OF _ _ o(1) 1 this] show ?thesis by (simp add: o)
qed

theorem frame_instructions_parse_witness:
  "parse_instructions 9 example_structs 2 8 (CallFrameInfo (BytesIO [CHR ''x'', CHR ''y'', chr_c 0x90, chr_c 1, chr_c 0x0f, chr_c 2, CHR ''a'', CHR ''b'', CHR ''z''] 2)) =
    (Inr [\<lparr>ci_opcode = 0x90, ci_args = [PInt 16, PInt 1]\<rparr>, \<lparr>ci_opcode = 0x0f, ci_args = [block_value ''ab'']\<rparr>],
     CallFrameInfo (BytesIO [CHR ''x'', CHR ''y'', chr_c 0x90, chr_c 1, chr_c 0x0f, chr_c 2, CHR ''a'', CHR ''b'', CHR ''z''] 8))"
  using frame_instructions_parse [OF example_instrs_enc, of "''z''" 9 "''xy''"] by (simp add: eval_nat_numeral)

subsection \<open>Reading instructions ends\<close>

text \<open>\<open>onwards m\<close>: with more fuel than data, \<open>m\<close> returns or raises, and does not go back.\<close>

definition onwards :: "string \<Rightarrow> 'a cm \<Rightarrow> bool" where
  "onwards d m = (\<forall>s p r s'. cr_stream s = BytesIO d p \<longrightarrow> m s = (r, s') \<longrightarrow>
     r \<noteq> Inl NoFuel \<and> (\<exists>p'. cr_stream s' = BytesIO d p' \<and> p \<le> p' \<and> p' \<le> max p (length d)))"

lemma onwardsD:
  assumes "onwards d m" "cr_stream s = BytesIO d p" "m s = (r, s')"
  obtains p' where "r \<noteq> Inl NoFuel" "cr_stream s' = BytesIO d p'" "p \<le> p'" "p' \<le> max p (length d)"
  using assms unfolding onwards_def by blast

lemma onwards_sbind:
  assumes "onwards d m" "\<And>x. onwards d (f x)"
  shows "onwards d (sbind m f)"
  unfolding onwards_def
proof (intro allI impI)
  fix s p r s'
  assume s: "cr_stream s = BytesIO d p" and run: "sbind m f s = (r, s')"
  obtain q t where m: "m s = (q, t)" by fastforce
  obtain p1 where 1: "q \<noteq> Inl NoFuel" "cr_stream t = BytesIO d p1" "p \<le> p1" "p1 \<le> max p (length d)"
    by (rule onwardsD [OF assms(1) s m])
  show "r \<noteq> Inl NoFuel \<and> (\<exists>p'. cr_stream s' = BytesIO d p' \<and> p \<le> p' \<and> p' \<le> max p (length d))"
  proof (cases q)
    case (Inl e)
    then show ?thesis using run m 1 by (auto simp: sbind_apply)
  next
    case (Inr x)
    then have "f x t = (r, s')" using run m by (simp add: sbind_apply)
    then obtain p2 where "r \<noteq> Inl NoFuel" "cr_stream s' = BytesIO d p2" "p1 \<le> p2" "p2 \<le> max p1 (length d)"
      using onwardsD [OF assms(2) 1(2)] by metis
    then show ?thesis using 1 by auto
  qed
qed

lemma onwards_prims: "onwards d (sret x)" "onwards d (Pair (Inr x))" "e \<noteq> NoFuel \<Longrightarrow> onwards d (sraise e)"
  by (auto simp: onwards_def)

lemma onwards_parse: "forward 0 (con_parse c) \<Longrightarrow> length d < fuel \<Longrightarrow> onwards d (cf_parse fuel c None)"
  unfolding onwards_def
proof (intro allI impI)
  fix s p r s'
  assume a: "forward 0 (con_parse c)" "length d < fuel" "cr_stream s = BytesIO d p" "cf_parse fuel c None s = (r, s')"
  from struct_parse_forward [OF a(1,2), of None p] a(3,4)
  show "r \<noteq> Inl NoFuel \<and> (\<exists>p'. cr_stream s' = BytesIO d p' \<and> p \<le> p' \<and> p' \<le> max p (length d))"
    by (auto simp: cf_parse_def)
qed

lemma forward_operand: "forward 0 (con_parse (operand_con S q))"
proof (cases q)
  case Op_block
  have "make_block_struct S (Dwarf_uleb128 S) \<in> snd ` set (Dwarf_dw_form S)"
    by (rule image_eqI [of _ _ "(''DW_FORM_block'', make_block_struct S (Dwarf_uleb128 S))"]) (simp_all add: Dwarf_dw_form_def)
  then show ?thesis using forward_forms Op_block by simp
qed (auto intro: forward_intros)

lemma onwards_args: "length d < fuel \<Longrightarrow> onwards d (instruction_args fuel S opcode)"
proof -
  assume fuel: "length d < fuel"
  have each: "onwards d (parse_each fuel S qs)" for qs
    by (induction qs) (auto intro!: onwards_sbind onwards_prims onwards_parse forward_operand fuel)
  show ?thesis unfolding instruction_args_table
    by (auto intro!: onwards_sbind onwards_prims each split: option.split)
qed

lemma instructions_loop_ends:
  "length d < fuel \<Longrightarrow> cr_stream s = BytesIO d q \<Longrightarrow> length d - p < k \<Longrightarrow> fst (instructions_loop k fuel S (int p) e acc s) \<noteq> Inl NoFuel"
proof (induction k arbitrary: p q s acc)
  case (Suc k)
  have "forward 1 (con_parse (FormatField (Some '''') (dwarf_endian S) Fmt_B))" using forward_format [of Fmt_B] by simp
  from struct_parse_forward [OF this Suc.prems(1), of "Some (int p)" q] obtain r p1 where
    1: "struct_parse fuel (FormatField (Some '''') (dwarf_endian S) Fmt_B) (Some (int p)) (BytesIO d q) = (r, BytesIO d p1)"
      "r \<noteq> Inl NoFuel" "\<And>x. r = Inr x \<Longrightarrow> p < p1 \<and> p1 \<le> length d"
    by (auto simp: max_def split: if_splits)
  let ?n = "cf_number fuel (FormatField (Some '''') (dwarf_endian S) Fmt_B) (Some (int p)) s"
  have n: "?n = (ebind r as_int, s\<lparr>cr_stream := BytesIO d p1\<rparr>)"
    using 1(1) Suc.prems(2) by (cases r) (simp_all add: cf_number_def cf_parse_def sbind_apply)
  show ?case
  proof (cases "ebind r as_int")
    case (Inl x)
    then have "x \<noteq> NoFuel" using 1(2) by (auto simp: ebind_Inl_iff as_int_def split: option.splits)
    then show ?thesis using n Inl by (simp add: dwarf_formats sbind_apply)
  next
    case (Inr opcode)
    then have p1: "p < p1" "p1 \<le> length d" using 1(3) by (auto simp: ebind_Inr_iff)
    obtain a t where args: "instruction_args fuel S opcode (s\<lparr>cr_stream := BytesIO d p1\<rparr>) = (a, t)" by fastforce
    obtain p2 where 2: "a \<noteq> Inl NoFuel" "cr_stream t = BytesIO d p2" "p1 \<le> p2"
      using onwardsD [OF onwards_args [OF Suc.prems(1)] _ args, of p1] by auto
    show ?thesis
    proof (cases a)
      case (Inl x)
      then show ?thesis using n Inr args 2 by (simp add: dwarf_formats sbind_apply)
    next
      case (Inr vs)
      have "length d - p2 < k" using p1 2(3) Suc.prems(3) by linarith
      from Suc.IH [OF Suc.prems(1) 2(2) this] show ?thesis using n Inr \<open>ebind r as_int = Inr opcode\<close> args 2(2)
        by (simp add: dwarf_formats sbind_apply cf_tell_def)
    qed
  qed
qed simp

theorem frame_instructions_end:
  assumes "length d < fuel"
  shows "fst (parse_instructions fuel S (int p) e (CallFrameInfo (BytesIO d q))) \<noteq> Inl NoFuel"
  unfolding parse_instructions_def
  by (rule instructions_loop_ends [OF assms, where q = q])
    (use assms in \<open>auto simp: CallFrameInfo_def intro: le_less_trans [OF diff_le_self]\<close>)

theorem frame_instructions_end_witness:
  "fst (parse_instructions 9 example_structs (int 1) 8 (CallFrameInfo (BytesIO ''abc'' 0))) \<noteq> Inl NoFuel"
  using frame_instructions_end [of "''abc''" 9 example_structs 1 8 0] by simp

subsection \<open>Reading the entries may not end\<close>

lemma entries_loop_stuck:
  assumes "0 < fuel" "map_of (cr_cache s) o' = Some e" "o' < size'" "stream_tell (cr_stream s) = o'"
  shows "entries_loop k fuel base size' o' es s = (Inl NoFuel, s)"
proof (induction k arbitrary: es)
  case (Suc k)
  have "parse_entry_at fuel fuel base o' s = (Inr e, s)" using assms(1,2) by (cases fuel) auto
  then show ?case using Suc.IH assms(3,4) by (simp add: sbind_apply cf_tell_def)
qed simp

text \<open>C39: When the CIE of the first FDE lies behind it, reading the entries never ends: an entry that is found in the cache does not move the stream, so the loop is at the same offset after every round, whatever the fuel.\<close>

theorem frame_entries_stuck:
  assumes "0 < size'" "parse_entry_at fuel fuel base 0 (CallFrameInfo stream) = (Inr e, s)"
    and "stream_tell (cr_stream s) = o'" "map_of (cr_cache s) o' = Some cie" "o' < size'"
  shows "fst (entries_loop k fuel base size' 0 [] (CallFrameInfo stream)) = Inl NoFuel"
proof (cases k)
  case (Suc j)
  have "0 < fuel" using assms(2) by (cases fuel) auto
  from entries_loop_stuck [OF this assms(4,5,3), of j base "[e]"] show ?thesis
    using assms(1-3) by (simp add: Suc sbind_apply cf_tell_def)
qed simp

text \<open>An FDE without instructions, and its CIE behind it.\<close>

definition example_section :: string where
  "example_section = map chr_c
     ([12, 0, 0, 0, 16, 0, 0, 0, 0, 16, 0, 0, 4, 0, 0, 0] @
      [9, 0, 0, 0, 255, 255, 255, 255, 1, 0, 1, 120, 8])"

definition example_base :: dwarf_structs where
  "example_base = \<lparr>ds_little_endian = True, ds_dwarf_format = 32, ds_address_size = 4\<rparr>"

lemma example_first_entry:
  "case parse_entry_at 40 40 example_base 0 (CallFrameInfo (BytesIO example_section 0)) of
     (Inl _, _) \<Rightarrow> False
   | (Inr e, s) \<Rightarrow> stream_tell (cr_stream s) = 16 \<and> map_of (cr_cache s) 16 \<noteq> None"
  by code_simp

theorem frame_entries_stuck_witness:
  "\<forall>k. fst (entries_loop k 40 example_base 29 0 [] (CallFrameInfo (BytesIO example_section 0))) = Inl NoFuel"
proof -
  obtain e s where run: "parse_entry_at 40 40 example_base 0 (CallFrameInfo (BytesIO example_section 0)) = (Inr e, s)"
    using example_first_entry by (auto split: prod.splits sum.splits)
  then obtain cie where "stream_tell (cr_stream s) = 16" "map_of (cr_cache s) 16 = Some cie"
    using example_first_entry by auto
  from frame_entries_stuck [OF _ run this] show ?thesis by simp
qed

end
