(* ===== verification/DwarfReads.thy ===== *)
theory DwarfReads
  imports DwarfBlocks DwarfForward DwarfLines
begin

section \<open>Readers of a section\<close>

text \<open>
  A reader is a computation on the stream of a section. \<open>yields fuel m b v\<close>: wherever the bytes
  \<open>b\<close> stand, \<open>m\<close> reads them, returns \<open>v\<close> and stops behind them. \<open>reads fuel k m\<close>: on any data
  shorter than the fuel \<open>m\<close> returns or raises, does not go back, and moves by \<open>k\<close> bytes at least when
  it returns. Both are kept by \<open>sbind\<close>.
\<close>

definition yields :: "nat \<Rightarrow> (pystream, 'a) st \<Rightarrow> string \<Rightarrow> 'a \<Rightarrow> bool" where
  "yields fuel m b v = (\<forall>x r. length (b @ r) < fuel \<longrightarrow>
     m (BytesIO (x @ b @ r) (length x)) = (Inr v, BytesIO (x @ b @ r) (length x + length b)))"

named_theorems yields_intros \<open>introduction rules for \<open>yields\<close>\<close>

lemma yieldsD: "yields fuel m b v \<Longrightarrow> length (b @ r) < fuel \<Longrightarrow>
    m (BytesIO (x @ b @ r) (length x)) = (Inr v, BytesIO (x @ b @ r) (length x + length b))"
  by (simp add: yields_def)

lemma yields_at: "yields fuel m b v \<Longrightarrow> drop p d = b @ r \<Longrightarrow> p \<le> length d \<Longrightarrow> length d < fuel \<Longrightarrow>
    m (BytesIO d p) = (Inr v, BytesIO d (p + length b))"
  using yieldsD [of fuel m b v r "take p d"] append_take_drop_id [of p d]
  by (metis (no_types, lifting) diff_le_self le_less_trans length_drop length_take min.absorb2)

lemma yields_sret [yields_intros]: "yields fuel (sret v) [] v" "yields fuel (Pair (Inr v)) [] v"
  by (simp_all add: yields_def)

lemma yields_slift: "q = Inr v \<Longrightarrow> yields fuel (slift q) [] v"
  by (simp add: yields_def)

lemma yields_sbind: "yields fuel m a u \<Longrightarrow> yields fuel (f u) b v \<Longrightarrow> yields fuel (sbind m f) (a @ b) v"
  unfolding yields_def
proof (intro allI impI)
  fix x r :: string
  assume m: "\<forall>x r. length (a @ r) < fuel \<longrightarrow> m (BytesIO (x @ a @ r) (length x)) = (Inr u, BytesIO (x @ a @ r) (length x + length a))"
    and f: "\<forall>x r. length (b @ r) < fuel \<longrightarrow> f u (BytesIO (x @ b @ r) (length x)) = (Inr v, BytesIO (x @ b @ r) (length x + length b))"
    and fuel: "length ((a @ b) @ r) < fuel"
  have "m (BytesIO (x @ (a @ b) @ r) (length x)) = (Inr u, BytesIO ((x @ a) @ b @ r) (length (x @ a)))"
    using m [rule_format, of "b @ r" x] fuel by simp
  moreover have "f u (BytesIO ((x @ a) @ b @ r) (length (x @ a))) = (Inr v, BytesIO (x @ (a @ b) @ r) (length x + length (a @ b)))"
    using f [rule_format, of r "x @ a"] fuel by (simp add: add.assoc)
  ultimately show "sbind m f (BytesIO (x @ (a @ b) @ r) (length x)) = (Inr v, BytesIO (x @ (a @ b) @ r) (length x + length (a @ b)))"
    by simp
qed

lemma yields_sbind_last: "yields fuel m a u \<Longrightarrow> yields fuel (f u) [] v \<Longrightarrow> yields fuel (sbind m f) a v"
  using yields_sbind [of fuel m a u f "[]" v] by simp

lemma yields_parse: "decoder c dec \<Longrightarrow> dec [] b v \<Longrightarrow> yields fuel (struct_parse fuel c None) b v"
  by (simp add: yields_def decoder.struct_parse_here)

definition read_int :: "nat \<Rightarrow> construct \<Rightarrow> (pystream, int) st" where
  "read_int fuel c = sbind (struct_parse fuel c None) (\<lambda>v. slift (as_int v))"

lemma yields_int: "decoder c dec \<Longrightarrow> dec [] b (PInt i) \<Longrightarrow> yields fuel (read_int fuel c) b i"
  unfolding read_int_def by (rule yields_sbind_last, erule (1) yields_parse) (simp add: yields_slift as_int_def)

definition reads :: "nat \<Rightarrow> nat \<Rightarrow> (pystream, 'a) st \<Rightarrow> bool" where
  "reads fuel k m = (\<forall>d p r t. length d < fuel \<longrightarrow> m (BytesIO d p) = (r, t) \<longrightarrow> r \<noteq> Inl NoFuel \<and>
     (\<exists>p'. t = BytesIO d p' \<and> p \<le> p' \<and> p' \<le> max p (length d) \<and> (\<forall>v. r = Inr v \<longrightarrow> p + k \<le> p')))"

named_theorems reads_intros \<open>introduction rules for \<open>reads\<close>\<close>

lemma readsD:
  assumes "reads fuel k m" "length d < fuel" "m (BytesIO d p) = (r, t)"
  obtains p' where "r \<noteq> Inl NoFuel" "t = BytesIO d p'" "p \<le> p'" "p' \<le> max p (length d)" "\<And>v. r = Inr v \<Longrightarrow> p + k \<le> p'"
  using assms unfolding reads_def by blast

lemma reads_mono: "reads fuel k m \<Longrightarrow> j \<le> k \<Longrightarrow> reads fuel j m"
  unfolding reads_def by (intro allI impI) (drule spec, drule spec, drule spec, drule spec, drule (1) mp, drule (1) mp, fastforce)

lemma reads_prims [reads_intros]: "reads fuel 0 (sret v)" "reads fuel 0 (Pair (Inr v))" "e \<noteq> NoFuel \<Longrightarrow> reads fuel k (sraise e)"
  "q \<noteq> Inl NoFuel \<Longrightarrow> reads fuel 0 (slift q)"
  by (auto simp: reads_def)

lemma reads_sbind:
  assumes "reads fuel j m" "\<And>x. reads fuel k (f x)"
  shows "reads fuel (j + k) (sbind m f)"
  unfolding reads_def
proof (intro allI impI)
  fix d p r t
  assume d: "length d < fuel" and run: "sbind m f (BytesIO d p) = (r, t)"
  obtain q u where m: "m (BytesIO d p) = (q, u)" by fastforce
  obtain p1 where 1: "q \<noteq> Inl NoFuel" "u = BytesIO d p1" "p \<le> p1" "p1 \<le> max p (length d)" "\<And>v. q = Inr v \<Longrightarrow> p + j \<le> p1"
    using readsD [OF assms(1) d m] by blast
  show "r \<noteq> Inl NoFuel \<and> (\<exists>p'. t = BytesIO d p' \<and> p \<le> p' \<and> p' \<le> max p (length d) \<and> (\<forall>v. r = Inr v \<longrightarrow> p + (j + k) \<le> p'))"
  proof (cases q)
    case (Inl e)
    then show ?thesis using run m 1 by (auto simp: sbind_apply)
  next
    case (Inr x)
    then have "f x (BytesIO d p1) = (r, t)" using run m 1 by (simp add: sbind_apply)
    then obtain p2 where "r \<noteq> Inl NoFuel" "t = BytesIO d p2" "p1 \<le> p2" "p2 \<le> max p1 (length d)" "\<And>v. r = Inr v \<Longrightarrow> p1 + k \<le> p2"
      using readsD [OF assms(2) d] by metis
    then show ?thesis using 1(3-5) Inr by fastforce
  qed
qed

lemma reads_sbind_0 [reads_intros]: "reads fuel 0 m \<Longrightarrow> (\<And>x. reads fuel 0 (f x)) \<Longrightarrow> reads fuel 0 (sbind m f)"
  using reads_sbind [of fuel 0 m 0 f] by simp

lemma reads_sbind_1: "reads fuel 1 m \<Longrightarrow> (\<And>x. reads fuel 0 (f x)) \<Longrightarrow> reads fuel 1 (sbind m f)"
  using reads_sbind [of fuel 1 m 0 f] by simp

lemma reads_if [reads_intros]: "reads fuel k m \<Longrightarrow> reads fuel k m' \<Longrightarrow> reads fuel k (if b then m else m')"
  by simp

lemma reads_parse: "forward k (con_parse c) \<Longrightarrow> reads fuel k (struct_parse fuel c None)"
  unfolding reads_def
proof (intro allI impI)
  fix d p r t
  assume a: "forward k (con_parse c)" "length d < fuel" "struct_parse fuel c None (BytesIO d p) = (r, t)"
  from struct_parse_forward [OF a(1,2), of None p] a(3)
  show "r \<noteq> Inl NoFuel \<and> (\<exists>p'. t = BytesIO d p' \<and> p \<le> p' \<and> p' \<le> max p (length d) \<and> (\<forall>v. r = Inr v \<longrightarrow> p + k \<le> p'))"
    by auto
qed

lemma as_int_errors [simp]: "as_int v \<noteq> Inl NoFuel"
  by (simp add: as_int_def split: option.split)

lemma reads_int: "forward k (con_parse c) \<Longrightarrow> reads fuel k (read_int fuel c)"
  unfolding read_int_def using reads_sbind [OF reads_parse [of k c fuel] reads_prims(4) [of "as_int v" fuel for v]] by simp

lemma forward_addr: "forward 1 (con_parse (Dwarf_target_addr S n))" "forward 1 (con_parse (Dwarf_uint8 S n))"
  "forward 1 (con_parse (Dwarf_uint16 S n))"
  using forward_mono [OF forward_format, of 1 _ n "dwarf_endian S"] by (simp_all add: dwarf_formats target_format_def)

subsection \<open>Loops\<close>

text \<open>\<open>reads_upto fuel n k m\<close>: the same while less than \<open>n\<close> bytes are left; a loop with \<open>n\<close> rounds has it.\<close>

definition reads_upto :: "nat \<Rightarrow> nat \<Rightarrow> nat \<Rightarrow> (pystream, 'a) st \<Rightarrow> bool" where
  "reads_upto fuel n k m = (\<forall>d p r t. length d < fuel \<longrightarrow> length d - p < n \<longrightarrow> m (BytesIO d p) = (r, t) \<longrightarrow> r \<noteq> Inl NoFuel \<and>
     (\<exists>p'. t = BytesIO d p' \<and> p \<le> p' \<and> p' \<le> max p (length d) \<and> (\<forall>v. r = Inr v \<longrightarrow> p + k \<le> p')))"

lemma reads_upto_0 [reads_intros]: "reads_upto fuel 0 k m"
  by (simp add: reads_upto_def)

lemma reads_upto_reads [reads_intros]: "reads fuel k m \<Longrightarrow> reads_upto fuel n k m"
  unfolding reads_def reads_upto_def by simp

lemma reads_upto_all: "reads_upto fuel fuel k m \<Longrightarrow> reads fuel k m"
  unfolding reads_def reads_upto_def
  by (intro allI impI) (drule spec, drule spec, drule spec, drule spec, drule (1) mp, drule mp, erule less_imp_diff_less, drule (1) mp, assumption)

lemma reads_upto_if [reads_intros]: "reads_upto fuel n k m \<Longrightarrow> reads_upto fuel n k m' \<Longrightarrow> reads_upto fuel n k (if b then m else m')"
  by simp

lemma reads_upto_sbind:
  assumes m: "reads fuel i m" and f: "\<And>x. reads_upto fuel n' k (f x)" and n: "n \<le> n' + i"
  shows "reads_upto fuel n (i + k) (sbind m f)"
  unfolding reads_upto_def
proof (intro allI impI)
  fix d p r t
  assume d: "length d < fuel" "length d - p < n" and run: "sbind m f (BytesIO d p) = (r, t)"
  obtain q u where m': "m (BytesIO d p) = (q, u)" by fastforce
  obtain p1 where 1: "q \<noteq> Inl NoFuel" "u = BytesIO d p1" "p \<le> p1" "p1 \<le> max p (length d)" "\<And>v. q = Inr v \<Longrightarrow> p + i \<le> p1"
    using readsD [OF m d(1) m'] by blast
  show "r \<noteq> Inl NoFuel \<and> (\<exists>p'. t = BytesIO d p' \<and> p \<le> p' \<and> p' \<le> max p (length d) \<and> (\<forall>v. r = Inr v \<longrightarrow> p + (i + k) \<le> p'))"
  proof (cases q)
    case (Inl e)
    then show ?thesis using run m' 1 by (auto simp: sbind_apply)
  next
    case (Inr x)
    have "p + i \<le> p1" using 1(5) Inr by blast
    then have "length d - p1 < n'" using d(2) n 1(4) by (cases "i = 0") (auto simp: max_def split: if_splits)
    moreover have "f x (BytesIO d p1) = (r, t)" using run m' 1 Inr by (simp add: sbind_apply)
    ultimately have "r \<noteq> Inl NoFuel \<and> (\<exists>p'. t = BytesIO d p' \<and> p1 \<le> p' \<and> p' \<le> max p1 (length d) \<and> (\<forall>v. r = Inr v \<longrightarrow> p1 + k \<le> p'))"
      using f [of x] d(1) unfolding reads_upto_def by blast
    then show ?thesis using 1(3,4) \<open>p + i \<le> p1\<close> by fastforce
  qed
qed

lemma reads_upto_mono: "reads_upto fuel n 1 m \<Longrightarrow> reads_upto fuel n 0 m"
  unfolding reads_upto_def
  by (intro allI impI) (drule spec, drule spec, drule spec, drule spec, drule (1) mp, drule (1) mp, drule (1) mp, fastforce)

lemma reads_upto_step: "reads fuel 1 m \<Longrightarrow> (\<And>x. reads_upto fuel n 0 (f x)) \<Longrightarrow> reads_upto fuel (Suc n) 1 (sbind m f)"
  using reads_upto_sbind [of fuel 1 m n 0 f "Suc n"] by simp

lemma reads_upto_more: "reads fuel 0 m \<Longrightarrow> (\<And>x. reads_upto fuel n k (f x)) \<Longrightarrow> reads_upto fuel n k (sbind m f)"
  using reads_upto_sbind [of fuel 0 m n k f n] by simp

end
