(* ===== verification/DwarfLists.thy ===== *)
theory DwarfLists
  imports DwarfReads
begin

section \<open>Range lists and location lists (\<open>dwarf/ranges.py\<close>, \<open>dwarf/locationlists.py\<close>)\<close>

text \<open>
  A list in \<open>.debug_ranges\<close> or \<open>.debug_loc\<close> is a sequence of pairs of addresses up to the pair
  \<open>(0, 0)\<close>. The largest address as the first of a pair marks a base address; a location entry goes on
  with an expression. The state is the stream of the section.
\<close>

subsection \<open>Range lists\<close>

datatype range_entry =
    RangeEntry (re_begin: int) (re_end: int)
  | BaseAddressEntry (re_base: int)

record list_reader =
  rl_structs :: dwarf_structs
  rl_max_addr :: int

definition RangeLists :: "dwarf_structs \<Rightarrow> list_reader" where
  "RangeLists S = \<lparr>rl_structs = S, rl_max_addr = 2 ^ nat (ds_address_size S * 8) - 1\<rparr>"

fun range_loop :: "nat \<Rightarrow> nat \<Rightarrow> list_reader \<Rightarrow> range_entry list \<Rightarrow> (pystream, range_entry list) st" where
  "range_loop 0 fuel R lst = sraise NoFuel"
| "range_loop (Suc k) fuel R lst =
     sbind (read_int fuel (Dwarf_target_addr (rl_structs R) (Some ''''))) (\<lambda>begin_offset.
     sbind (read_int fuel (Dwarf_target_addr (rl_structs R) (Some ''''))) (\<lambda>end_offset.
       if begin_offset = 0 \<and> end_offset = 0 then sret lst
       else if begin_offset = rl_max_addr R then range_loop k fuel R (lst @ [BaseAddressEntry end_offset])
       else range_loop k fuel R (lst @ [RangeEntry begin_offset end_offset])))"

definition parse_range_list :: "nat \<Rightarrow> list_reader \<Rightarrow> (pystream, range_entry list) st" where
  "parse_range_list fuel R = range_loop fuel fuel R []"

definition get_range_list_at_offset :: "nat \<Rightarrow> list_reader \<Rightarrow> int \<Rightarrow> (pystream, range_entry list) st" where
  "get_range_list_at_offset fuel R offset = sbind (stream_seek offset 0) (\<lambda>_. parse_range_list fuel R)"

definition tell_stream :: "(pystream, int) st" where
  "tell_stream = (\<lambda>s. (Inr (stream_tell s), s))"

text \<open>The generators, run to their end: \<open>list(iter_range_lists())\<close>.\<close>

fun lists_loop :: "nat \<Rightarrow> (pystream, 'a) st \<Rightarrow> int \<Rightarrow> 'a list \<Rightarrow> (pystream, 'a list) st" where
  "lists_loop 0 get endpos ls = sraise NoFuel"
| "lists_loop (Suc k) get endpos ls =
     sbind tell_stream (\<lambda>pos. if pos < endpos then sbind get (\<lambda>l. lists_loop k get endpos (ls @ [l])) else sret ls)"

definition iter_lists :: "nat \<Rightarrow> (pystream, 'a) st \<Rightarrow> (pystream, 'a list) st" where
  "iter_lists fuel get =
     sbind (stream_seek 0 2) (\<lambda>_. sbind tell_stream (\<lambda>endpos. sbind (stream_seek 0 0) (\<lambda>_. lists_loop fuel get endpos [])))"

definition iter_range_lists :: "nat \<Rightarrow> list_reader \<Rightarrow> (pystream, range_entry list list) st" where
  "iter_range_lists fuel R = iter_lists fuel (parse_range_list fuel R)"

subsection \<open>Location lists\<close>

datatype location_entry =
    LocationEntry (loc_begin: int) (loc_end: int) (loc_expr: "pyval list")
  | Loc_BaseAddressEntry (loc_base: int)

definition LocationLists :: "dwarf_structs \<Rightarrow> list_reader" where
  "LocationLists S = \<lparr>rl_structs = S, rl_max_addr = 2 ^ nat (ds_address_size S * 8) - 1\<rparr>"

fun read_bytes :: "nat \<Rightarrow> dwarf_structs \<Rightarrow> nat \<Rightarrow> (pystream, pyval list) st" where
  "read_bytes fuel S 0 = sret []"
| "read_bytes fuel S (Suc n) = sbind (struct_parse fuel (Dwarf_uint8 S (Some '''')) None)
     (\<lambda>v. sbind (read_bytes fuel S n) (\<lambda>vs. sret (v # vs)))"

fun location_loop :: "nat \<Rightarrow> nat \<Rightarrow> list_reader \<Rightarrow> location_entry list \<Rightarrow> (pystream, location_entry list) st" where
  "location_loop 0 fuel R lst = sraise NoFuel"
| "location_loop (Suc k) fuel R lst =
     sbind (read_int fuel (Dwarf_target_addr (rl_structs R) (Some ''''))) (\<lambda>begin_offset.
     sbind (read_int fuel (Dwarf_target_addr (rl_structs R) (Some ''''))) (\<lambda>end_offset.
       if begin_offset = 0 \<and> end_offset = 0 then sret lst
       else if begin_offset = rl_max_addr R then location_loop k fuel R (lst @ [Loc_BaseAddressEntry end_offset])
       else sbind (read_int fuel (Dwarf_uint16 (rl_structs R) (Some ''''))) (\<lambda>expr_len.
            sbind (read_bytes fuel (rl_structs R) (nat expr_len)) (\<lambda>loc_expr.
              location_loop k fuel R (lst @ [LocationEntry begin_offset end_offset loc_expr])))))"

definition parse_location_list :: "nat \<Rightarrow> list_reader \<Rightarrow> (pystream, location_entry list) st" where
  "parse_location_list fuel R = location_loop fuel fuel R []"

definition get_location_list_at_offset :: "nat \<Rightarrow> list_reader \<Rightarrow> int \<Rightarrow> (pystream, location_entry list) st" where
  "get_location_list_at_offset fuel R offset = sbind (stream_seek offset 0) (\<lambda>_. parse_location_list fuel R)"

definition iter_location_lists :: "nat \<Rightarrow> list_reader \<Rightarrow> (pystream, location_entry list list) st" where
  "iter_location_lists fuel R = iter_lists fuel (parse_location_list fuel R)"

subsection \<open>Both loops are one\<close>

fun pair_loop :: "nat \<Rightarrow> nat \<Rightarrow> dwarf_structs \<Rightarrow> (int \<Rightarrow> int \<Rightarrow> (pystream, 'e) st) \<Rightarrow> 'e list \<Rightarrow> (pystream, 'e list) st" where
  "pair_loop 0 fuel S entry lst = sraise NoFuel"
| "pair_loop (Suc k) fuel S entry lst =
     sbind (read_int fuel (Dwarf_target_addr S (Some ''''))) (\<lambda>b.
     sbind (read_int fuel (Dwarf_target_addr S (Some ''''))) (\<lambda>e.
       if b = 0 \<and> e = 0 then sret lst else sbind (entry b e) (\<lambda>x. pair_loop k fuel S entry (lst @ [x]))))"

definition range_entry_at :: "list_reader \<Rightarrow> int \<Rightarrow> int \<Rightarrow> (pystream, range_entry) st" where
  "range_entry_at R b e = sret (if b = rl_max_addr R then BaseAddressEntry e else RangeEntry b e)"

definition location_entry_at :: "nat \<Rightarrow> list_reader \<Rightarrow> int \<Rightarrow> int \<Rightarrow> (pystream, location_entry) st" where
  "location_entry_at fuel R b e = (if b = rl_max_addr R then sret (Loc_BaseAddressEntry e)
     else sbind (read_int fuel (Dwarf_uint16 (rl_structs R) (Some ''''))) (\<lambda>n.
          sbind (read_bytes fuel (rl_structs R) (nat n)) (\<lambda>vs. sret (LocationEntry b e vs))))"

lemma range_loop_pairs: "range_loop k fuel R lst = pair_loop k fuel (rl_structs R) (range_entry_at R) lst"
  by (induction k arbitrary: lst)
    (auto simp: range_entry_at_def sbind_apply fun_eq_iff split: prod.split sum.split)

lemma location_loop_pairs: "location_loop k fuel R lst = pair_loop k fuel (rl_structs R) (location_entry_at fuel R) lst"
  by (induction k arbitrary: lst)
    (auto simp: location_entry_at_def sbind_apply fun_eq_iff split: prod.split sum.split)

subsection \<open>Every list that is written is read\<close>

inductive pairs_enc :: "dwarf_structs \<Rightarrow> ('e \<Rightarrow> int \<Rightarrow> int \<Rightarrow> string \<Rightarrow> bool) \<Rightarrow> 'e list \<Rightarrow> string \<Rightarrow> bool" for S ent where
  pairs_end: "num_dec S (target_format S) [] z (PInt 0) \<Longrightarrow> pairs_enc S ent [] (z @ z)"
| pairs_more: "num_dec S (target_format S) [] a (PInt b) \<Longrightarrow> num_dec S (target_format S) [] a' (PInt e) \<Longrightarrow> \<not> (b = 0 \<and> e = 0) \<Longrightarrow>
    ent x b e c \<Longrightarrow> pairs_enc S ent xs r \<Longrightarrow> pairs_enc S ent (x # xs) (a @ a' @ c @ r)"

definition range_enc :: "list_reader \<Rightarrow> range_entry \<Rightarrow> int \<Rightarrow> int \<Rightarrow> string \<Rightarrow> bool" where
  "range_enc R x b e c = (c = [] \<and> (case x of RangeEntry b' e' \<Rightarrow> b \<noteq> rl_max_addr R \<and> b' = b \<and> e' = e
     | BaseAddressEntry a \<Rightarrow> b = rl_max_addr R \<and> a = e))"

definition location_enc :: "list_reader \<Rightarrow> location_entry \<Rightarrow> int \<Rightarrow> int \<Rightarrow> string \<Rightarrow> bool" where
  "location_enc R x b e c = (case x of
     LocationEntry b' e' vs \<Rightarrow> b \<noteq> rl_max_addr R \<and> b' = b \<and> e' = e \<and>
       (\<exists>l body. c = l @ body \<and> num_dec (rl_structs R) Fmt_H [] l (PInt (int (length body))) \<and> vs = map (\<lambda>c. PInt (ord_c c)) body)
   | Loc_BaseAddressEntry a \<Rightarrow> c = [] \<and> b = rl_max_addr R \<and> a = e)"

lemma yields_addr: "num_dec S (target_format S) [] b (PInt i) \<Longrightarrow> yields fuel (read_int fuel (Dwarf_target_addr S n)) b i"
  unfolding dwarf_formats by (rule yields_int [OF decoder_int])

lemma addr_nonempty: "num_dec S (target_format S) [] b v \<Longrightarrow> b \<noteq> []"
  by (auto simp: int_dec_def int_enc_def target_format_def dest!: pack_length split: if_splits pyval.splits sum.splits)

lemma yields_bytes: "yields fuel (read_bytes fuel S (length b)) b (map (\<lambda>c. PInt (ord_c c)) b)"
proof (induction b)
  case (Cons c b)
  have 1: "yields fuel (struct_parse fuel (Dwarf_uint8 S (Some '''')) None) [c] (PInt (ord_c c))"
    unfolding dwarf_formats by (rule yields_parse [OF decoder_int byte_value])
  have "yields fuel (read_bytes fuel S (length (c # b))) ([c] @ b) (map (\<lambda>c. PInt (ord_c c)) (c # b))"
    unfolding length_Cons read_bytes.simps list.map
    by (rule yields_sbind, rule 1, rule yields_sbind_last, rule Cons.IH, rule yields_sret)
  then show ?case by simp
qed (simp add: yields_sret)

lemma yields_range_entry: "range_enc R x b e c \<Longrightarrow> yields fuel (range_entry_at R b e) c x"
  by (auto simp: range_enc_def range_entry_at_def yields_sret split: range_entry.splits)

lemma yields_location_entry:
  assumes "location_enc R x b e c"
  shows "yields fuel (location_entry_at fuel R b e) c x"
proof (cases x)
  case (LocationEntry b' e' vs)
  then obtain l body where c: "c = l @ body" "num_dec (rl_structs R) Fmt_H [] l (PInt (int (length body)))"
      "vs = map (\<lambda>c. PInt (ord_c c)) body" "b \<noteq> rl_max_addr R" "b' = b" "e' = e"
    using assms by (auto simp: location_enc_def)
  have "yields fuel (read_int fuel (Dwarf_uint16 (rl_structs R) (Some ''''))) l (int (length body))"
    unfolding dwarf_formats by (rule yields_int [OF decoder_int c(2)])
  then have "yields fuel (sbind (read_int fuel (Dwarf_uint16 (rl_structs R) (Some ''''))) (\<lambda>n.
          sbind (read_bytes fuel (rl_structs R) (nat n)) (\<lambda>vs. sret (LocationEntry b e vs)))) (l @ body) (LocationEntry b e vs)"
    by (rule yields_sbind) (simp only: nat_int c(3), rule yields_sbind_last, rule yields_bytes, rule yields_sret)
  then show ?thesis using c LocationEntry by (simp add: location_entry_at_def)
qed (use assms in \<open>auto simp: location_enc_def location_entry_at_def yields_sret\<close>)

lemma pair_loop_yields:
  assumes "pairs_enc S ent es b" "\<And>x b e c. ent x b e c \<Longrightarrow> yields fuel (entry b e) c x" "length b < k"
  shows "yields fuel (pair_loop k fuel S entry lst) b (lst @ es)"
  using assms(1,3)
proof (induction arbitrary: k lst rule: pairs_enc.induct)
  case (pairs_end z)
  then obtain k' where k: "k = Suc k'" by (cases k) auto
  show ?case unfolding k pair_loop.simps
    by (rule yields_sbind, rule yields_addr [OF pairs_end(1)], rule yields_sbind_last, rule yields_addr [OF pairs_end(1)]) (simp add: yields_sret)
next
  case (pairs_more a b a' e x c xs r)
  then obtain k' where k: "k = Suc k'" by (cases k) auto
  have "length r < k'" using pairs_more.prems k addr_nonempty [OF pairs_more.hyps(1)] by (cases a) auto
  from pairs_more.IH [OF this, of "lst @ [x]"] have r: "yields fuel (pair_loop k' fuel S entry (lst @ [x])) r (lst @ x # xs)" by simp
  have "yields fuel (sbind (entry b e) (\<lambda>x. pair_loop k' fuel S entry (lst @ [x]))) (c @ r) (lst @ x # xs)"
    by (rule yields_sbind, rule assms(2) [OF pairs_more.hyps(4)], rule r)
  then have "yields fuel (if b = 0 \<and> e = 0 then sret lst else sbind (entry b e) (\<lambda>x. pair_loop k' fuel S entry (lst @ [x]))) (c @ r) (lst @ x # xs)"
    using pairs_more.hyps(3) by (auto split: if_split)
  then show ?case unfolding k pair_loop.simps
    by (intro yields_sbind [where u = b] yields_sbind [where u = e] yields_addr pairs_more.hyps)
qed

lemma yields_top: "(length b < fuel \<Longrightarrow> yields fuel m b v) \<Longrightarrow> yields fuel m b v"
  by (simp add: yields_def)

text \<open>The bytes of a list of lists.\<close>

definition range_list_enc :: "dwarf_structs \<Rightarrow> range_entry list \<Rightarrow> string \<Rightarrow> bool" where
  "range_list_enc S = pairs_enc S (range_enc (RangeLists S))"

definition location_list_enc :: "dwarf_structs \<Rightarrow> location_entry list \<Rightarrow> string \<Rightarrow> bool" where
  "location_list_enc S = pairs_enc S (location_enc (LocationLists S))"

lemma yields_range_list: "range_list_enc S es b \<Longrightarrow> yields fuel (parse_range_list fuel (RangeLists S)) b es"
  unfolding range_list_enc_def parse_range_list_def range_loop_pairs
  by (rule yields_top) (use pair_loop_yields [of S _ es b fuel _ fuel "[]"] yields_range_entry in \<open>force simp: RangeLists_def\<close>)

lemma yields_location_list: "location_list_enc S es b \<Longrightarrow> yields fuel (parse_location_list fuel (LocationLists S)) b es"
  unfolding location_list_enc_def parse_location_list_def location_loop_pairs
  by (rule yields_top) (use pair_loop_yields [of S _ es b fuel _ fuel "[]"] yields_location_entry in \<open>force simp: LocationLists_def\<close>)

lemma pairs_nonempty: "pairs_enc S ent es b \<Longrightarrow> b \<noteq> []"
  by (induction rule: pairs_enc.induct) (auto dest: addr_nonempty)

lemma lists_loop_yields:
  assumes "list_all2 enc ls bs" "\<And>l b. enc l b \<Longrightarrow> b \<noteq> [] \<and> yields fuel get b l" "length (x @ concat bs) < fuel" "length bs < k"
  shows "lists_loop k get (int (length (x @ concat bs))) acc (BytesIO (x @ concat bs) (length x)) =
    (Inr (acc @ ls), BytesIO (x @ concat bs) (length (x @ concat bs)))"
  using assms(1,3,4)
proof (induction arbitrary: x k acc rule: list_all2_induct)
  case Nil
  then show ?case by (cases k) (auto simp: tell_stream_def)
next
  case (Cons l ls b bs)
  obtain k' where k: "k = Suc k'" using Cons.prems by (cases k) auto
  have b: "b \<noteq> []" "yields fuel get b l" using assms(2) [OF Cons.hyps(1)] by auto
  have 1: "get (BytesIO (x @ b @ concat bs) (length x)) = (Inr l, BytesIO ((x @ b) @ concat bs) (length (x @ b)))"
    using yieldsD [OF b(2), of "concat bs" x] Cons.prems(1) by simp
  have "0 < length b" using b(1) by simp
  then have "int (length x) < int (length (x @ concat (b # bs)))" by (simp only: of_nat_less_iff length_append concat.simps)
  then show ?case using Cons.IH [of "x @ b" k' "acc @ [l]"] 1 Cons.prems unfolding k lists_loop.simps
    by (simp add: tell_stream_def add.assoc del: of_nat_add)
qed

lemma iter_lists_yields:
  assumes "list_all2 enc ls bs" "\<And>l b. enc l b \<Longrightarrow> b \<noteq> [] \<and> yields fuel get b l" "length (concat bs) < fuel"
  shows "iter_lists fuel get (BytesIO (concat bs) q) = (Inr ls, BytesIO (concat bs) (length (concat bs)))"
proof -
  have "\<forall>b \<in> set bs. b \<noteq> []" using assms(1,2) by (metis in_set_conv_nth list_all2_conv_all_nth)
  then have len: "length bs \<le> length (concat bs)"
  proof (induction bs)
    case (Cons b bs)
    then show ?case by (cases b) auto
  qed simp
  have k: "length bs < fuel" using assms(3) len by simp
  show ?thesis using lists_loop_yields [OF assms(1,2) _ k, of "[]" "[]"] assms(3) by (simp add: iter_lists_def tell_stream_def)
qed

text \<open>C28: The bytes of any sequence of range lists or location lists are read back by iter_range_lists and iter_location_lists.\<close>

theorem lists_iterate:
  assumes "length (concat bs) < fuel" "length (concat cs) < fuel" "list_all2 (range_list_enc S) rls bs" "list_all2 (location_list_enc S) lls cs"
  shows "iter_range_lists fuel (RangeLists S) (BytesIO (concat bs) q) = (Inr rls, BytesIO (concat bs) (length (concat bs))) \<and>
    iter_location_lists fuel (LocationLists S) (BytesIO (concat cs) q) = (Inr lls, BytesIO (concat cs) (length (concat cs)))"
proof -
  have "b \<noteq> [] \<and> yields fuel (parse_range_list fuel (RangeLists S)) b l" if "range_list_enc S l b" for l b
    using that yields_range_list pairs_nonempty unfolding range_list_enc_def by blast
  moreover have "b \<noteq> [] \<and> yields fuel (parse_location_list fuel (LocationLists S)) b l" if "location_list_enc S l b" for l b
    using that yields_location_list pairs_nonempty unfolding location_list_enc_def by blast
  ultimately show ?thesis unfolding iter_range_lists_def iter_location_lists_def
    using iter_lists_yields [OF assms(3) _ assms(1)] iter_lists_yields [OF assms(4) _ assms(2)] by blast
qed

subsection \<open>Reading lists ends\<close>

lemma reads_addr: "reads fuel 1 (read_int fuel (Dwarf_target_addr S n))"
  by (rule reads_int [OF forward_addr(1)])

lemma reads_bytes: "reads fuel 0 (read_bytes fuel S n)"
  by (induction n) (auto intro!: reads_intros reads_mono [OF reads_parse [OF forward_addr(2)]])

lemma reads_entries: "reads fuel 0 (range_entry_at R b e)" "reads fuel 0 (location_entry_at fuel R b e)"
  by (auto simp: range_entry_at_def location_entry_at_def intro!: reads_intros reads_bytes reads_mono [OF reads_int [OF forward_addr(3)]])

lemma pair_loop_reads:
  assumes "\<And>b e. reads fuel 0 (entry b e)"
  shows "reads_upto fuel k 1 (pair_loop k fuel S entry lst)"
proof (induction k arbitrary: lst)
  case (Suc k)
  show ?case unfolding pair_loop.simps
    by (intro reads_upto_step [OF reads_addr] reads_upto_if reads_upto_more assms reads_upto_mono [OF Suc.IH])
      (auto intro: reads_intros reads_mono [OF reads_addr])
qed (simp add: reads_upto_0)

lemma reads_lists: "reads fuel 1 (parse_range_list fuel R)" "reads fuel 1 (parse_location_list fuel R)"
  unfolding parse_range_list_def parse_location_list_def range_loop_pairs location_loop_pairs
  by (rule reads_upto_all, rule pair_loop_reads, rule reads_entries)+

lemma lists_loop_ends:
  assumes "reads fuel 1 get"
  shows "length d < fuel \<Longrightarrow> length d - p < k \<Longrightarrow> fst (lists_loop k get endpos acc (BytesIO d p)) \<noteq> Inl NoFuel"
proof (induction k arbitrary: p acc)
  case (Suc k)
  obtain r t where get: "get (BytesIO d p) = (r, t)" by fastforce
  obtain p' where "r \<noteq> Inl NoFuel" "t = BytesIO d p'" "p' \<le> max p (length d)" "\<And>v. r = Inr v \<Longrightarrow> p + 1 \<le> p'"
    using readsD [OF assms Suc.prems(1) get] by blast
  then show ?case using get Suc.prems(2) Suc.IH [OF Suc.prems(1), of p']
    by (cases r) (fastforce simp: tell_stream_def sbind_apply max_def split: if_splits)+
qed simp

lemma iter_lists_ends: "reads fuel 1 get \<Longrightarrow> length d < fuel \<Longrightarrow> fst (iter_lists fuel get (BytesIO d q)) \<noteq> Inl NoFuel"
  using lists_loop_ends [of fuel get d 0 fuel] by (simp add: iter_lists_def tell_stream_def)

theorem lists_end:
  assumes "length d < fuel"
  shows "fst (iter_range_lists fuel R (BytesIO d q)) \<noteq> Inl NoFuel \<and> fst (iter_location_lists fuel R (BytesIO d q)) \<noteq> Inl NoFuel"
  using iter_lists_ends [OF reads_lists(1) assms] iter_lists_ends [OF reads_lists(2) assms]
  by (simp add: iter_range_lists_def iter_location_lists_def)

theorem lists_end_witness:
  "fst (iter_range_lists 9 (RangeLists example_structs) (BytesIO ''abc'' 0)) \<noteq> Inl NoFuel \<and>
   fst (iter_location_lists 9 (RangeLists example_structs) (BytesIO ''abc'' 0)) \<noteq> Inl NoFuel"
  using lists_end [of "''abc''" 9 "RangeLists example_structs" 0] by simp

definition word_bytes :: "int \<Rightarrow> string" where
  "word_bytes i = map chr_c [i mod 256, i div 256 mod 256, i div 65536 mod 256, i div 16777216]"


lemma example_words: "i \<in> {0, 1, 2, 4096, 2 ^ 32 - 1} \<Longrightarrow> num_dec example_structs (target_format example_structs) [] (word_bytes i) (PInt i)"
  by (elim insertE emptyE; hypsubst; code_simp)

lemma example_range_list:
  "range_list_enc example_structs [BaseAddressEntry 4096, RangeEntry 1 2]
     (word_bytes (2 ^ 32 - 1) @ word_bytes 4096 @ [] @ word_bytes 1 @ word_bytes 2 @ [] @ word_bytes 0 @ word_bytes 0)"
  unfolding range_list_enc_def
  by (rule pairs_more [where b = "2 ^ 32 - 1" and e = 4096], rule example_words, simp, rule example_words, simp, simp,
      simp add: range_enc_def RangeLists_def example_structs_def,
      rule pairs_more [where b = 1 and e = 2], rule example_words, simp, rule example_words, simp, simp,
      simp add: range_enc_def RangeLists_def example_structs_def,
      rule pairs_end, rule example_words, simp)

lemma example_location_list:
  "location_list_enc example_structs [LocationEntry 1 2 [PInt 97]]
     (word_bytes 1 @ word_bytes 2 @ ([chr_c 1, chr_c 0] @ ''a'') @ word_bytes 0 @ word_bytes 0)"
proof -
  have "num_dec example_structs Fmt_H [] [chr_c 1, chr_c 0] (PInt (int (length ''a'')))" by code_simp
  moreover have "map (\<lambda>c. PInt (ord_c c)) ''a'' = [PInt 97]" by code_simp
  moreover have "(1::int) \<noteq> rl_max_addr (LocationLists example_structs)" by (simp add: LocationLists_def example_structs_def)
  ultimately have "location_enc (LocationLists example_structs) (LocationEntry 1 2 [PInt 97]) 1 2 ([chr_c 1, chr_c 0] @ ''a'')"
    unfolding location_enc_def location_entry.case
    by (intro conjI refl exI [of _ "[chr_c 1, chr_c 0]"] exI [of _ "''a''"]) (simp_all add: LocationLists_def)
  then show ?thesis unfolding location_list_enc_def
    by (intro pairs_more [where b = 1 and e = 2] pairs_end) (simp_all add: example_words)
qed

theorem lists_iterate_witness:
  "\<exists>bs cs. fst (iter_range_lists 99 (RangeLists example_structs) (BytesIO bs 0)) = Inr [[BaseAddressEntry 4096, RangeEntry 1 2]] \<and>
     fst (iter_location_lists 99 (LocationLists example_structs) (BytesIO cs 0)) = Inr [[LocationEntry 1 2 [PInt 97]]]"
proof -
  let ?b = "word_bytes (2 ^ 32 - 1) @ word_bytes 4096 @ [] @ word_bytes 1 @ word_bytes 2 @ [] @ word_bytes 0 @ word_bytes 0"
  let ?c = "word_bytes 1 @ word_bytes 2 @ ([chr_c 1, chr_c 0] @ ''a'') @ word_bytes 0 @ word_bytes 0"
  have "iter_range_lists 99 (RangeLists example_structs) (BytesIO (concat [?b]) 0) =
        (Inr [[BaseAddressEntry 4096, RangeEntry 1 2]], BytesIO (concat [?b]) (length (concat [?b]))) \<and>
      iter_location_lists 99 (LocationLists example_structs) (BytesIO (concat [?c]) 0) =
        (Inr [[LocationEntry 1 2 [PInt 97]]], BytesIO (concat [?c]) (length (concat [?c])))"
    by (rule lists_iterate) (use example_range_list example_location_list in \<open>simp_all add: word_bytes_def\<close>)
  then show ?thesis by (metis fst_conv)
qed

end
