(* ===== verification/DwarfUnits.thy ===== *)
theory DwarfUnits
  imports DwarfAbbrev DwarfLists DwarfFrames
begin

section \<open>Compilation units and their entries (\<open>dwarf/die.py\<close>, \<open>dwarf/compileunit.py\<close>, \<open>dwarf/dwarfinfo.py\<close>)\<close>

text \<open>
  A \<open>DWARFInfo\<close> holds the sections, each with a stream of its own, and a cache of abbreviation
  tables. A unit is read by a run over the \<open>DWARFInfo\<close> and the \<open>CompileUnit\<close>, which change both: the
  entries (\<open>DIE\<close>) are appended to the list of the unit as they are read, and a second pass links
  them to a tree. The links between entries are indices of that list.
\<close>

subsection \<open>The data\<close>

record attribute_value =
  av_name :: pyval
  av_form :: pyval
  av_value :: pyval
  av_raw_value :: pyval
  av_offset :: int

record die =
  die_offset :: int
  die_attributes :: "(pyval \<times> attribute_value) list"
  die_tag :: pyval
  die_has_children :: "bool option"
  die_abbrev_code :: pyval
  die_size :: int
  die_children :: "nat list"
  die_parent :: "nat option"

definition is_null :: "die \<Rightarrow> bool" where
  "is_null d = (die_tag d = PNone)"

definition add_child :: "nat \<Rightarrow> die \<Rightarrow> die" where
  "add_child c d = d\<lparr>die_children := die_children d @ [c]\<rparr>"

definition set_parent :: "nat \<Rightarrow> die \<Rightarrow> die" where
  "set_parent p d = d\<lparr>die_parent := Some p\<rparr>"

record compile_unit =
  cu_header :: container
  cu_structs :: dwarf_structs
  cu_offset :: int
  cu_die_offset :: int
  cu_abbrev_table :: "abbrev_table option"
  cu_dielist :: "die list"

definition CompileUnit :: "container \<Rightarrow> dwarf_structs \<Rightarrow> int \<Rightarrow> int \<Rightarrow> compile_unit" where
  "CompileUnit header S offset top_offset = \<lparr>cu_header = header, cu_structs = S, cu_offset = offset,
     cu_die_offset = top_offset, cu_abbrev_table = None, cu_dielist = []\<rparr>"

definition cu_getitem :: "compile_unit \<Rightarrow> string \<Rightarrow> pyexc + pyval" where
  "cu_getitem cu name = container_getitem (cu_header cu) name"

definition dwarf_format :: "compile_unit \<Rightarrow> int" where
  "dwarf_format cu = ds_dwarf_format (cu_structs cu)"

record debug_section =
  sec_stream :: pystream
  sec_name :: "string option"
  sec_global_offset :: int
  sec_size :: int

record dwarf_info =
  di_little_endian :: bool
  di_machine_arch :: string
  di_address_size :: int
  di_info :: "debug_section option"
  di_abbrev :: "debug_section option"
  di_frame :: "debug_section option"
  di_str :: "debug_section option"
  di_loc :: "debug_section option"
  di_ranges :: "debug_section option"
  di_line :: "debug_section option"
  di_structs :: dwarf_structs
  di_abbrevtable_cache :: "(int \<times> abbrev_table) list"

definition DWARFInfo :: "bool \<Rightarrow> string \<Rightarrow> int \<Rightarrow> debug_section option \<Rightarrow> debug_section option \<Rightarrow> debug_section option \<Rightarrow>
    debug_section option \<Rightarrow> debug_section option \<Rightarrow> debug_section option \<Rightarrow> debug_section option \<Rightarrow> pyexc + dwarf_info" where
  "DWARFInfo little arch addrsize info abbrev frame str loc ranges line =
     ebind (DWARFStructs little 32 addrsize) (\<lambda>S. Inr
       \<lparr>di_little_endian = little, di_machine_arch = arch, di_address_size = addrsize, di_info = info, di_abbrev = abbrev,
        di_frame = frame, di_str = str, di_loc = loc, di_ranges = ranges, di_line = line, di_structs = S, di_abbrevtable_cache = []\<rparr>)"

subsection \<open>Runs\<close>

type_synonym 'a dm = "(dwarf_info, 'a) st"

definition in_section :: "(dwarf_info \<Rightarrow> debug_section option) \<Rightarrow>
    ((debug_section option \<Rightarrow> debug_section option) \<Rightarrow> dwarf_info \<Rightarrow> dwarf_info) \<Rightarrow> (pystream, 'a) st \<Rightarrow> 'a dm" where
  "in_section get upd m = (\<lambda>i. case get i of
     None \<Rightarrow> (Inl AttributeError, i)
   | Some sec \<Rightarrow> (case m (sec_stream sec) of (r, t) \<Rightarrow> (r, upd (\<lambda>_. Some (sec\<lparr>sec_stream := t\<rparr>)) i)))"

abbreviation in_info :: "(pystream, 'a) st \<Rightarrow> 'a dm" where "in_info \<equiv> in_section di_info di_info_update"
abbreviation in_abbrev :: "(pystream, 'a) st \<Rightarrow> 'a dm" where "in_abbrev \<equiv> in_section di_abbrev di_abbrev_update"
abbreviation in_frame :: "(pystream, 'a) st \<Rightarrow> 'a dm" where "in_frame \<equiv> in_section di_frame di_frame_update"
abbreviation in_str :: "(pystream, 'a) st \<Rightarrow> 'a dm" where "in_str \<equiv> in_section di_str di_str_update"
abbreviation in_line :: "(pystream, 'a) st \<Rightarrow> 'a dm" where "in_line \<equiv> in_section di_line di_line_update"

definition section_size :: "debug_section option \<Rightarrow> pyexc + int" where
  "section_size sec = (case sec of None \<Rightarrow> Inl AttributeError | Some s \<Rightarrow> Inr (sec_size s))"

record unit_run =
  ur_info :: dwarf_info
  ur_cu :: compile_unit

type_synonym 'a um = "(unit_run, 'a) st"

definition on_dwarfinfo :: "'a dm \<Rightarrow> 'a um" where
  "on_dwarfinfo m = (\<lambda>s. case m (ur_info s) of (r, i) \<Rightarrow> (r, s\<lparr>ur_info := i\<rparr>))"

definition the_cu :: "(compile_unit \<Rightarrow> pyexc + 'a) \<Rightarrow> 'a um" where
  "the_cu f = (\<lambda>s. (f (ur_cu s), s))"

text \<open>\<open>with preserve_stream_pos(self.stream)\<close>\<close>

definition keep_info_pos :: "'a um \<Rightarrow> 'a um" where
  "keep_info_pos body = sbind (on_dwarfinfo (in_info tell_stream)) (\<lambda>pos. sbind body (\<lambda>x.
     sbind (on_dwarfinfo (in_info (stream_seek pos 0))) (\<lambda>_. sret x)))"

subsection \<open>\<open>DWARFInfo\<close>: abbreviation tables and strings\<close>

definition dwarfinfo_abbrev_table :: "nat \<Rightarrow> int \<Rightarrow> abbrev_table dm" where
  "dwarfinfo_abbrev_table fuel offset = (\<lambda>i.
     sbind (slift (ebind (section_size (di_abbrev i)) (\<lambda>n. dwarf_assert (offset < n)))) (\<lambda>_.
       case map_of (di_abbrevtable_cache i) offset of
         Some T \<Rightarrow> sret T
       | None \<Rightarrow> sbind (in_abbrev (AbbrevTable fuel (di_structs i) offset)) (\<lambda>T i'.
           (Inr T, i'\<lparr>di_abbrevtable_cache := dict_set offset T (di_abbrevtable_cache i')\<rparr>))) i)"

definition get_string_from_table :: "nat \<Rightarrow> int \<Rightarrow> pyval dm" where
  "get_string_from_table fuel offset =
     sbind (in_str (parse_cstring_from_stream fuel (Some offset))) (\<lambda>r. sret (case r of None \<Rightarrow> PNone | Some t \<Rightarrow> PStr t))"

subsection \<open>\<open>CompileUnit\<close> and \<open>DIE\<close>: reading an entry\<close>

definition get_abbrev_table :: "nat \<Rightarrow> abbrev_table um" where
  "get_abbrev_table fuel = (\<lambda>s. case cu_abbrev_table (ur_cu s) of
     Some T \<Rightarrow> (Inr T, s)
   | None \<Rightarrow> sbind (the_cu (\<lambda>cu. ebind (cu_getitem cu ''debug_abbrev_offset'') as_int)) (\<lambda>offset.
       sbind (on_dwarfinfo (dwarfinfo_abbrev_table fuel offset)) (\<lambda>T s'.
         (Inr T, s'\<lparr>ur_cu := (ur_cu s')\<lparr>cu_abbrev_table := Some T\<rparr>\<rparr>))) s)"

definition form_construct :: "dwarf_structs \<Rightarrow> pyval \<Rightarrow> pyexc + construct" where
  "form_construct S form = (case form of PStr f \<Rightarrow> dict_get (Dwarf_dw_form S) f | _ \<Rightarrow> Inl KeyError)"

text \<open>For \<open>DW_FORM_indirect\<close> the name \<open>structs\<close> is not defined.\<close>

definition translate_attr_value :: "nat \<Rightarrow> pyval \<Rightarrow> pyval \<Rightarrow> pyval um" where
  "translate_attr_value fuel form raw_value =
     (if py_eq form (PStr ''DW_FORM_strp'') then
        keep_info_pos (sbind (slift (as_int raw_value)) (\<lambda>offset. on_dwarfinfo (get_string_from_table fuel offset)))
      else if py_eq form (PStr ''DW_FORM_flag'') then sret (PBool (\<not> py_eq raw_value (PInt 0)))
      else if py_eq form (PStr ''DW_FORM_indirect'') then sraise NameError
      else sret raw_value)"

fun attr_loop :: "nat \<Rightarrow> dwarf_structs \<Rightarrow> (pyval \<times> pyval) list \<Rightarrow> (pyval \<times> attribute_value) list \<Rightarrow> (pyval \<times> attribute_value) list um" where
  "attr_loop fuel S [] attrs = sret attrs"
| "attr_loop fuel S ((name, form) # specs) attrs =
     sbind (on_dwarfinfo (in_info tell_stream)) (\<lambda>attr_offset.
     sbind (slift (form_construct S form)) (\<lambda>c.
     sbind (on_dwarfinfo (in_info (struct_parse fuel c None))) (\<lambda>raw_value.
     sbind (translate_attr_value fuel form raw_value) (\<lambda>v.
       attr_loop fuel S specs (dict_set name
         \<lparr>av_name = name, av_form = form, av_value = v, av_raw_value = raw_value, av_offset = attr_offset\<rparr> attrs)))))"

text \<open>The generator of the attributes is run first: on a declaration that was read it does not fail.\<close>

definition parse_DIE :: "nat \<Rightarrow> int \<Rightarrow> die um" where
  "parse_DIE fuel offset =
     sbind (the_cu (\<lambda>cu. Inr (cu_structs cu))) (\<lambda>S.
     sbind (on_dwarfinfo (in_info (struct_parse fuel (Dwarf_uleb128 S (Some '''')) (Some offset)))) (\<lambda>code.
       if py_eq code (PInt 0) then
         sbind (on_dwarfinfo (in_info tell_stream)) (\<lambda>pos. sret
           \<lparr>die_offset = offset, die_attributes = [], die_tag = PNone, die_has_children = None, die_abbrev_code = code,
            die_size = pos - offset, die_children = [], die_parent = None\<rparr>)
       else
         sbind (keep_info_pos (sbind (get_abbrev_table fuel) (\<lambda>T. slift (get_abbrev T code)))) (\<lambda>abbrev_decl.
         sbind (slift (abbrev_getitem abbrev_decl ''tag'')) (\<lambda>tag.
         sbind (slift (has_children abbrev_decl)) (\<lambda>children.
         sbind (slift (iter_attr_specs abbrev_decl)) (\<lambda>specs.
         sbind (attr_loop fuel S specs []) (\<lambda>attrs.
         sbind (on_dwarfinfo (in_info tell_stream)) (\<lambda>pos. sret
           \<lparr>die_offset = offset, die_attributes = attrs, die_tag = tag, die_has_children = Some children, die_abbrev_code = code,
            die_size = pos - offset, die_children = [], die_parent = None\<rparr>))))))))"

subsection \<open>The entries of a unit\<close>

definition append_die :: "die \<Rightarrow> unit um" where
  "append_die d = (\<lambda>s. (Inr (), s\<lparr>ur_cu := (ur_cu s)\<lparr>cu_dielist := cu_dielist (ur_cu s) @ [d]\<rparr>\<rparr>))"

fun die_loop :: "nat \<Rightarrow> nat \<Rightarrow> int \<Rightarrow> int \<Rightarrow> unit um" where
  "die_loop 0 fuel offset cu_boundary = sraise NoFuel"
| "die_loop (Suc k) fuel offset cu_boundary =
     (if offset < cu_boundary then
        sbind (parse_DIE fuel offset) (\<lambda>d. sbind (append_die d) (\<lambda>_. die_loop k fuel (offset + die_size d) cu_boundary))
      else sret ())"

text \<open>\<open>_unflatten_tree\<close>: the state is the list of entries and \<open>parentstack\<close>.\<close>

definition unflatten_step :: "nat \<Rightarrow> (die list \<times> nat list, unit) st" where
  "unflatten_step i = (\<lambda>(ds, parentstack).
     if parentstack = [] then (Inl IndexError, (ds, parentstack))
     else if \<not> is_null (ds ! i) then
       (let p = last parentstack; ds' = (ds[p := add_child i (ds ! p)]);  ds'' = ds'[i := set_parent p (ds' ! i)]
        in (Inr (), (ds'', if die_has_children (ds'' ! i) = Some True then parentstack @ [i] else parentstack)))
     else (Inr (), (ds, butlast parentstack)))"

fun unflatten_loop :: "nat list \<Rightarrow> (die list \<times> nat list, unit) st" where
  "unflatten_loop [] = sret ()"
| "unflatten_loop (i # is) = sbind (unflatten_step i) (\<lambda>_. unflatten_loop is)"

definition unflatten_tree :: "die list \<Rightarrow> (pyexc + unit) \<times> die list" where
  "unflatten_tree ds = (if ds = [] then (Inl IndexError, ds)
     else case unflatten_loop [1..<length ds] (ds, [0]) of (r, ds', _) \<Rightarrow> (r, ds'))"

definition parse_DIEs :: "nat \<Rightarrow> unit um" where
  "parse_DIEs fuel = (\<lambda>s.
     if cu_dielist (ur_cu s) \<noteq> [] then (Inr (), s)
     else sbind (the_cu (\<lambda>cu. ebind (ebind (cu_getitem cu ''unit_length'') as_int) (\<lambda>len.
              Inr (cu_offset cu + len + initial_length_field_size (cu_structs cu))))) (\<lambda>cu_boundary.
          sbind (the_cu (\<lambda>cu. Inr (cu_die_offset cu))) (\<lambda>offset.
          sbind (die_loop fuel fuel offset cu_boundary) (\<lambda>_ s'.
            case unflatten_tree (cu_dielist (ur_cu s')) of
              (r, ds) \<Rightarrow> (r, s'\<lparr>ur_cu := (ur_cu s')\<lparr>cu_dielist := ds\<rparr>\<rparr>)))) s)"

definition get_DIE :: "nat \<Rightarrow> int \<Rightarrow> die um" where
  "get_DIE fuel index = sbind (parse_DIEs fuel) (\<lambda>_. the_cu (\<lambda>cu. py_index (cu_dielist cu) index))"

definition get_top_DIE :: "nat \<Rightarrow> die um" where
  "get_top_DIE fuel = get_DIE fuel 0"

definition iter_DIEs :: "nat \<Rightarrow> die list um" where
  "iter_DIEs fuel = sbind (parse_DIEs fuel) (\<lambda>_. the_cu (\<lambda>cu. Inr (cu_dielist cu)))"

definition iter_children :: "die list \<Rightarrow> die \<Rightarrow> die list" where
  "iter_children ds d = map (\<lambda>c. ds ! c) (die_children d)"

text \<open>The siblings of the entry with the index \<open>i\<close>, as indices; a generator that raises \<open>StopIteration\<close> is empty.\<close>

definition iter_siblings :: "die list \<Rightarrow> nat \<Rightarrow> nat list" where
  "iter_siblings ds i = (case die_parent (ds ! i) of None \<Rightarrow> [] | Some p \<Rightarrow> filter (\<lambda>c. c \<noteq> i) (die_children (ds ! p)))"

subsection \<open>\<open>DWARFInfo\<close>: the units and the other sections\<close>

definition is_supported_version :: "int \<Rightarrow> bool" where
  "is_supported_version version = (2 \<le> version \<and> version \<le> 3)"

definition parse_CU_at_offset :: "nat \<Rightarrow> int \<Rightarrow> compile_unit dm" where
  "parse_CU_at_offset fuel offset = (\<lambda>i.
     sbind (in_info (struct_parse fuel (Dwarf_uint32 (di_structs i) (Some '''')) (Some offset))) (\<lambda>initial_length.
     let format = (if py_eq initial_length (PInt 0xFFFFFFFF) then 64 else 32) in
     sbind (slift (DWARFStructs (di_little_endian i) format 4)) (\<lambda>S4.
     sbind (in_info (struct_parse fuel (Dwarf_CU_header S4) (Some offset))) (\<lambda>v.
     sbind (slift (header_of v)) (\<lambda>header.
     sbind (slift (ebind (container_getitem header ''address_size'') (\<lambda>a.
         if py_eq a (PInt 8) then DWARFStructs (di_little_endian i) format 8 else Inr S4))) (\<lambda>S.
     sbind (in_info tell_stream) (\<lambda>cu_die_offset.
     sbind (slift (ebind (header_int header ''version'') (\<lambda>n. dwarf_assert (is_supported_version n)))) (\<lambda>_.
     sret (CompileUnit header S offset cu_die_offset)))))))) i)"

text \<open>The generator, run to its end.\<close>

fun CUs_loop :: "nat \<Rightarrow> nat \<Rightarrow> int \<Rightarrow> compile_unit list \<Rightarrow> compile_unit list dm" where
  "CUs_loop 0 fuel offset cus = sraise NoFuel"
| "CUs_loop (Suc k) fuel offset cus = (\<lambda>i.
     sbind (slift (section_size (di_info i))) (\<lambda>n.
       if offset < n then
         sbind (parse_CU_at_offset fuel offset) (\<lambda>cu.
         sbind (slift (ebind (cu_getitem cu ''unit_length'') as_int)) (\<lambda>len.
           CUs_loop k fuel (offset + len + initial_length_field_size (cu_structs cu)) (cus @ [cu])))
       else sret cus) i)"

definition iter_CUs :: "nat \<Rightarrow> compile_unit list dm" where
  "iter_CUs fuel = CUs_loop fuel fuel 0 []"

definition parse_line_program_at_offset :: "nat \<Rightarrow> int \<Rightarrow> dwarf_structs \<Rightarrow> line_program dm" where
  "parse_line_program_at_offset fuel debug_line_offset S =
     sbind (in_line (struct_parse fuel (Dwarf_lineprog_header S) (Some debug_line_offset))) (\<lambda>v.
     sbind (slift (header_of v)) (\<lambda>header.
     sbind (slift (header_int header ''unit_length'')) (\<lambda>len.
     sbind (in_line tell_stream) (\<lambda>start.
       sret (LineProgram header S start (debug_line_offset + len + initial_length_field_size S))))))"

definition line_program_for_CU :: "nat \<Rightarrow> line_program option um" where
  "line_program_for_CU fuel = sbind (get_top_DIE fuel) (\<lambda>top.
     case map_of (die_attributes top) (PStr ''DW_AT_stmt_list'') of
       None \<Rightarrow> sret None
     | Some av \<Rightarrow> sbind (slift (as_int (av_value av))) (\<lambda>offset. sbind (the_cu (\<lambda>cu. Inr (cu_structs cu))) (\<lambda>S.
         sbind (on_dwarfinfo (parse_line_program_at_offset fuel offset S)) (\<lambda>lp. sret (Some lp)))))"

definition has_CFI :: "dwarf_info \<Rightarrow> bool" where
  "has_CFI i = (di_frame i \<noteq> None)"

definition CFI_entries :: "nat \<Rightarrow> cfi_entry list dm" where
  "CFI_entries fuel = (\<lambda>i. sbind (slift (section_size (di_frame i))) (\<lambda>n.
     in_frame (\<lambda>stream. case cfi_entries fuel (di_structs i) n (CallFrameInfo stream) of (r, s) \<Rightarrow> (r, cr_stream s))) i)"

definition location_lists :: "dwarf_info \<Rightarrow> pyexc + list_reader" where
  "location_lists i = (case di_loc i of None \<Rightarrow> Inl AttributeError | Some sec \<Rightarrow> Inr (LocationLists (di_structs i)))"

definition range_lists :: "dwarf_info \<Rightarrow> pyexc + list_reader" where
  "range_lists i = (case di_ranges i of None \<Rightarrow> Inl AttributeError | Some sec \<Rightarrow> Inr (RangeLists (di_structs i)))"

end
