(* ===== verification/DwarfTree.thy ===== *)
theory DwarfTree
  imports DwarfUnits
begin

section \<open>The tree of a unit\<close>

text \<open>
  A tree of entries as the file has it: an entry that says it has children is followed by their
  trees and a null entry. \<open>linked\<close> is the list with the links of the tree.
\<close>

datatype die_tree = Leaf die | Branch die "die_tree list" die

fun flat :: "die_tree \<Rightarrow> die list" where
  "flat (Leaf d) = [d]"
| "flat (Branch d ts n) = d # concat (map flat ts) @ [n]"

fun wf_tree :: "die_tree \<Rightarrow> bool" where
  "wf_tree (Leaf d) = (\<not> is_null d \<and> die_has_children d \<noteq> Some True)"
| "wf_tree (Branch d ts n) = (\<not> is_null d \<and> die_has_children d = Some True \<and> die_children d = [] \<and> is_null n \<and> (\<forall>t\<in>set ts. wf_tree t))"

fun child_indices :: "nat \<Rightarrow> die_tree list \<Rightarrow> nat list" where
  "child_indices i [] = []"
| "child_indices i (t # ts) = i # child_indices (i + length (flat t)) ts"

definition with_children :: "nat list \<Rightarrow> die \<Rightarrow> die" where
  "with_children cs d = d\<lparr>die_children := die_children d @ cs\<rparr>"

fun linked :: "nat \<Rightarrow> nat \<Rightarrow> die_tree \<Rightarrow> die list" and linked_forest :: "nat \<Rightarrow> nat \<Rightarrow> die_tree list \<Rightarrow> die list" where
  "linked i p (Leaf d) = [set_parent p d]"
| "linked i p (Branch d ts n) = with_children (child_indices (Suc i) ts) (set_parent p d) # linked_forest (Suc i) i ts @ [n]"
| "linked_forest i p [] = []"
| "linked_forest i p (t # ts) = linked i p t @ linked_forest (i + length (flat t)) p ts"

lemma flat_length: "length (linked i p t) = length (flat t)" "length (linked_forest i p ts) = length (concat (map flat ts))"
  by (induction i p t and i p ts rule: linked_linked_forest.induct) simp_all

lemma unflatten_append:
  "unflatten_loop (is @ js) s = sbind (unflatten_loop is) (\<lambda>_. unflatten_loop js) s"
  by (induction "is" arbitrary: s) (auto simp: sbind_apply split: prod.split sum.split)

lemma add_child_with: "add_child c d = with_children [c] d"
  by (simp add: add_child_def with_children_def)

lemma with_children_simps [simp]: "with_children [] d = d" "with_children cs (with_children bs d) = with_children (bs @ cs) d"
  "die_has_children (with_children cs d) = die_has_children d" "is_null (with_children cs d) = is_null d"
  "die_has_children (set_parent p d) = die_has_children d" "is_null (set_parent p d) = is_null d"
  by (simp_all add: with_children_def set_parent_def is_null_def)

lemma upt_split: "[i..<i + (m + n)] = [i..<i + m] @ [i + m..<i + m + n]"
  by (metis add.assoc le_add1 upt_add_eq_append)

lemma unflatten_entry:
  assumes "length pre = i" "p < i" "\<not> is_null d"
  shows "unflatten_step i (pre @ d # post, stk @ [p]) =
    (Inr (), pre[p := with_children [i] (pre ! p)] @ set_parent p d # post, stk @ p # (if die_has_children d = Some True then [i] else []))"
  using assms by (auto simp: unflatten_step_def nth_append list_update_append add_child_with Let_def)

lemma unflatten_empty [simp]: "unflatten_step i (ds, []) = (Inl IndexError, (ds, []))"
  by (simp add: unflatten_step_def)

lemma unflatten_null:
  assumes "length pre = i" "is_null n"
  shows "unflatten_step i (pre @ n # post, stk @ [p]) = (Inr (), pre @ n # post, stk)"
  using assms by (auto simp: unflatten_step_def nth_append)

lemma unflatten_subtrees:
  "wf_tree t \<Longrightarrow> length pre = i \<Longrightarrow> p < i \<Longrightarrow>
     unflatten_loop [i..<i + length (flat t)] (pre @ flat t @ post, stk @ [p]) =
       (Inr (), pre[p := with_children [i] (pre ! p)] @ linked i p t @ post, stk @ [p])"
  "\<forall>t\<in>set ts. wf_tree t \<Longrightarrow> length pre = i \<Longrightarrow> p < i \<Longrightarrow>
     unflatten_loop [i..<i + length (concat (map flat ts))] (pre @ concat (map flat ts) @ post, stk @ [p]) =
       (Inr (), pre[p := with_children (child_indices i ts) (pre ! p)] @ linked_forest i p ts @ post, stk @ [p])"
proof (induction i p t and i p ts arbitrary: pre post stk and pre post stk rule: linked_linked_forest.induct)
  case (1 i p d)
  then show ?case using unflatten_entry [of pre i p d post stk] by (simp add: sbind_apply)
next
  case (2 i p d ts n)
  let ?pre = "pre[p := with_children [i] (pre ! p)] @ [set_parent p d]"
  let ?len = "length (concat (map flat ts))"
  have entry: "unflatten_step i (pre @ flat (Branch d ts n) @ post, stk @ [p]) = (Inr (), ?pre @ concat (map flat ts) @ n # post, (stk @ [p]) @ [i])"
    using unflatten_entry [of pre i p d _ stk] 2(2-4) by simp
  have forest: "unflatten_loop [Suc i..<Suc i + ?len] (?pre @ concat (map flat ts) @ n # post, (stk @ [p]) @ [i]) =
      (Inr (), ?pre[i := with_children (child_indices (Suc i) ts) (?pre ! i)] @ linked_forest (Suc i) i ts @ n # post, (stk @ [p]) @ [i])"
    by (rule 2(1)) (use 2(2-4) in auto)
  have upd: "?pre[i := with_children (child_indices (Suc i) ts) (?pre ! i)] =
      pre[p := with_children [i] (pre ! p)] @ [with_children (child_indices (Suc i) ts) (set_parent p d)]"
    using 2(3) by (simp add: list_update_append nth_append)
  have null: "unflatten_step (Suc i + ?len) (?pre[i := with_children (child_indices (Suc i) ts) (?pre ! i)] @ linked_forest (Suc i) i ts @ n # post, (stk @ [p]) @ [i]) =
      (Inr (), ?pre[i := with_children (child_indices (Suc i) ts) (?pre ! i)] @ linked_forest (Suc i) i ts @ n # post, stk @ [p])"
    using unflatten_null [of "?pre[i := with_children (child_indices (Suc i) ts) (?pre ! i)] @ linked_forest (Suc i) i ts" "Suc i + ?len" n post "stk @ [p]" i] 2(2,3)
    by (simp add: flat_length)
  have "[i..<Suc (Suc i + ?len)] = i # [Suc i..<Suc (Suc i + ?len)]" by (rule upt_conv_Cons) simp
  then have indices: "[i..<i + length (flat (Branch d ts n))] = i # [Suc i..<Suc i + ?len] @ [Suc i + ?len]" by simp
  show ?case unfolding indices unflatten_loop.simps
    using entry forest null by (simp add: unflatten_append sbind_apply upd)
next
  case (3 i p)
  then show ?case by simp
next
  case (4 i p t ts)
  let ?pre = "pre[p := with_children [i] (pre ! p)] @ linked i p t"
  have tree: "unflatten_loop [i..<i + length (flat t)] (pre @ flat t @ concat (map flat ts) @ post, stk @ [p]) =
      (Inr (), pre[p := with_children [i] (pre ! p)] @ linked i p t @ concat (map flat ts) @ post, stk @ [p])"
    by (rule 4(1)) (use 4(3-5) in auto)
  have forest: "unflatten_loop [i + length (flat t)..<i + length (flat t) + length (concat (map flat ts))] (?pre @ concat (map flat ts) @ post, stk @ [p]) =
      (Inr (), ?pre[p := with_children (child_indices (i + length (flat t)) ts) (?pre ! p)] @ linked_forest (i + length (flat t)) p ts @ post, stk @ [p])"
    by (rule 4(2)) (use 4(3-5) in \<open>auto simp: flat_length\<close>)
  have upd: "?pre[p := with_children (child_indices (i + length (flat t)) ts) (?pre ! p)] =
      pre[p := with_children (child_indices i (t # ts)) (pre ! p)] @ linked i p t"
    using 4(4,5) by (simp add: list_update_append nth_append)
  show ?case using tree forest by (simp add: unflatten_append upt_split sbind_apply upd)
qed

fun linked_root :: "die_tree \<Rightarrow> die list" where
  "linked_root (Leaf d) = [d]"
| "linked_root (Branch d ts n) = with_children (child_indices 1 ts) d # linked_forest 1 0 ts @ [n]"

lemma unflatten_linked:
  assumes "wf_tree t"
  shows "unflatten_tree (flat t) = (Inr (), linked_root t)"
proof (cases t)
  case (Branch d ts n)
  let ?len = "length (concat (map flat ts))"
  have forest: "unflatten_loop [1..<1 + ?len] ([d] @ concat (map flat ts) @ [n], [] @ [0]) =
      (Inr (), [d][0 := with_children (child_indices 1 ts) ([d] ! 0)] @ linked_forest 1 0 ts @ [n], [] @ [0])"
    by (rule unflatten_subtrees(2)) (use assms Branch in auto)
  have null: "unflatten_step (1 + ?len) ((with_children (child_indices 1 ts) d # linked_forest 1 0 ts) @ [n], [] @ [0]) =
      (Inr (), (with_children (child_indices 1 ts) d # linked_forest 1 0 ts) @ [n], [])"
    by (rule unflatten_null) (use assms Branch in \<open>auto simp: flat_length\<close>)
  have indices: "[1..<length (flat t)] = [1..<1 + ?len] @ [1 + ?len]" by (simp add: Branch)
  show ?thesis using forest null unfolding unflatten_tree_def indices by (simp add: unflatten_append sbind_apply Branch)
qed (simp add: unflatten_tree_def)

text \<open>After the null entry that ends the children of the root there must be nothing; the tree is linked then.\<close>

lemma unflatten_trailing:
  assumes "wf_tree (Branch d ts n)"
  shows "unflatten_tree (flat (Branch d ts n) @ x # xs) = (Inl IndexError, linked_root (Branch d ts n) @ x # xs)"
proof -
  let ?len = "length (concat (map flat ts))"
  have forest: "unflatten_loop [1..<1 + ?len] ([d] @ concat (map flat ts) @ n # x # xs, [] @ [0]) =
      (Inr (), [d][0 := with_children (child_indices 1 ts) ([d] ! 0)] @ linked_forest 1 0 ts @ n # x # xs, [] @ [0])"
    by (rule unflatten_subtrees(2)) (use assms in auto)
  have null: "unflatten_step (1 + ?len) ((with_children (child_indices 1 ts) d # linked_forest 1 0 ts) @ n # x # xs, [] @ [0]) =
      (Inr (), (with_children (child_indices 1 ts) d # linked_forest 1 0 ts) @ n # x # xs, [])"
    by (rule unflatten_null) (use assms in \<open>auto simp: flat_length\<close>)
  have "[1..<1 + ?len + (2 + length xs)] = [1..<1 + ?len] @ [1 + ?len..<1 + ?len + (2 + length xs)]"
    by (rule upt_add_eq_append) simp
  moreover have "[1 + ?len..<1 + ?len + (2 + length xs)] = (1 + ?len) # (2 + ?len) # [3 + ?len..<1 + ?len + (2 + length xs)]"
    by (simp add: upt_conv_Cons numeral_3_eq_3 del: upt_Suc)
  moreover have "length (flat (Branch d ts n) @ x # xs) = 1 + ?len + (2 + length xs)" by simp
  ultimately have indices: "[1..<length (flat (Branch d ts n) @ x # xs)] =
      [1..<1 + ?len] @ (1 + ?len) # (2 + ?len) # [3 + ?len..<1 + ?len + (2 + length xs)]" by metis
  show ?thesis using forest null unfolding unflatten_tree_def indices
    by (simp add: unflatten_append sbind_apply del: upt_Suc)
qed

end
