(* ===== verification/DwarfUnitParse.thy ===== *)
theory DwarfUnitParse
  imports DwarfTree
begin

section \<open>Reading the entries of a unit\<close>

text \<open>
  The bytes of a unit stand for a list of entries, given the abbreviation table and the strings:
  reading them returns these entries, linked to their tree. \<open>at_pos\<close> says that a run reads the unit
  described by a \<open>unit_env\<close> and stands at a position, \<open>gives\<close> is \<open>yields\<close> for such runs.
\<close>

record unit_env =
  ue_fuel :: nat
  ue_structs :: dwarf_structs
  ue_table :: abbrev_table
  ue_strs :: string
  ue_data :: string

definition at_pos :: "unit_env \<Rightarrow> nat \<Rightarrow> unit_run \<Rightarrow> bool" where
  "at_pos U p s = (cu_structs (ur_cu s) = ue_structs U \<and> fst (get_abbrev_table (ue_fuel U) s) = Inr (ue_table U) \<and>
     (\<exists>sec. di_info (ur_info s) = Some sec \<and> sec_stream sec = BytesIO (ue_data U) p) \<and>
     (\<exists>sec q. di_str (ur_info s) = Some sec \<and> sec_stream sec = BytesIO (ue_strs U) q) \<and>
     length (ue_data U) < ue_fuel U \<and> length (ue_strs U) < ue_fuel U)"

definition same_unit :: "unit_run \<Rightarrow> unit_run \<Rightarrow> bool" where
  "same_unit s s' = (\<exists>T. ur_cu s' = (ur_cu s)\<lparr>cu_abbrev_table := T\<rparr>)"

lemma same_unit_refl [simp]: "same_unit s s" "ur_cu s' = ur_cu s \<Longrightarrow> same_unit s s'"
  by (auto simp: same_unit_def intro!: exI [of _ "cu_abbrev_table (ur_cu s)"])

lemma same_unit_trans: "same_unit s s' \<Longrightarrow> same_unit s' s'' \<Longrightarrow> same_unit s s''"
  by (auto simp: same_unit_def)

definition gives :: "unit_env \<Rightarrow> nat \<Rightarrow> 'a um \<Rightarrow> string \<Rightarrow> 'a \<Rightarrow> bool" where
  "gives U p m b v = (\<forall>s r. at_pos U p s \<longrightarrow> p \<le> length (ue_data U) \<longrightarrow> drop p (ue_data U) = b @ r \<longrightarrow>
     (\<exists>s'. m s = (Inr v, s') \<and> at_pos U (p + length b) s' \<and> same_unit s s'))"

lemma givesD:
  assumes "gives U p m b v" "at_pos U p s" "p \<le> length (ue_data U)" "drop p (ue_data U) = b @ r"
  obtains s' where "m s = (Inr v, s')" "at_pos U (p + length b) s'" "same_unit s s'"
  using assms unfolding gives_def by blast

lemma drop_behind: "p \<le> length d \<Longrightarrow> drop p d = a @ r \<Longrightarrow> drop (p + length a) d = r \<and> p + length a \<le> length d"
  by (metis add.commute append_eq_conv_conj drop_drop le_add1 length_append length_drop nat_add_left_cancel_le ordered_cancel_comm_monoid_diff_class.add_diff_inverse)

lemma gives_sbind:
  assumes "gives U p m a u" "gives U (p + length a) (f u) b v"
  shows "gives U p (sbind m f) (a @ b) v"
  unfolding gives_def
proof (intro allI impI)
  fix s r
  assume s: "at_pos U p s" "p \<le> length (ue_data U)" "drop p (ue_data U) = (a @ b) @ r"
  obtain s1 where 1: "m s = (Inr u, s1)" "at_pos U (p + length a) s1" "same_unit s s1"
    using givesD [OF assms(1) s(1,2)] s(3) by (metis append.assoc)
  have "drop (p + length a) (ue_data U) = b @ r" "p + length a \<le> length (ue_data U)"
    using drop_behind [of p "ue_data U" a "b @ r"] s(2,3) by auto
  then obtain s2 where "f u s1 = (Inr v, s2)" "at_pos U (p + length a + length b) s2" "same_unit s1 s2"
    using givesD [OF assms(2) 1(2)] by metis
  then show "\<exists>s'. sbind m f s = (Inr v, s') \<and> at_pos U (p + length (a @ b)) s' \<and> same_unit s s'"
    using 1 same_unit_trans by (auto simp: add.assoc)
qed

lemma gives_pure:
  assumes "gives U p m [] u" "gives U p (f u) b v"
  shows "gives U p (sbind m f) b v"
  using gives_sbind [of U p m "[]" u f b v] assms by simp

lemma gives_last:
  assumes "gives U p m b u" "gives U (p + length b) (f u) [] v"
  shows "gives U p (sbind m f) b v"
  using gives_sbind [of U p m b u f "[]" v] assms by simp

lemma gives_prims: "gives U p (sret v) [] v" "gives U p (Pair (Inr v)) [] v" "q = Inr v \<Longrightarrow> gives U p (slift q) [] v"
  by (auto simp: gives_def)

lemma gives_the_cu: "(\<And>cu. cu_structs cu = ue_structs U \<Longrightarrow> f cu = Inr v) \<Longrightarrow> gives U p (the_cu f) [] v"
  by (auto simp: gives_def the_cu_def at_pos_def)

text \<open>Reading in a section does not change what the table of the unit is.\<close>

lemma in_section_Inr: "in_section g u m i = (Inr v, i') \<longleftrightarrow>
    (\<exists>sec t. g i = Some sec \<and> m (sec_stream sec) = (Inr v, t) \<and> i' = u (\<lambda>_. Some (sec\<lparr>sec_stream := t\<rparr>)) i)"
  by (auto simp: in_section_def split: option.split prod.split)

lemma table_other_streams:
  "fst (get_abbrev_table fuel (s\<lparr>ur_info := (ur_info s)\<lparr>di_info := x\<rparr>\<rparr>)) = fst (get_abbrev_table fuel s)"
  "fst (get_abbrev_table fuel (s\<lparr>ur_info := (ur_info s)\<lparr>di_str := y\<rparr>\<rparr>)) = fst (get_abbrev_table fuel s)"
  by (auto simp: get_abbrev_table_def the_cu_def sbind_apply on_dwarfinfo_def dwarfinfo_abbrev_table_def in_section_def
      split: option.split sum.split prod.split)

lemma gives_info:
  assumes "yields (ue_fuel U) m b v"
  shows "gives U p (on_dwarfinfo (in_info m)) b v"
  unfolding gives_def
proof (intro allI impI)
  fix s r
  assume s: "at_pos U p s" "p \<le> length (ue_data U)" "drop p (ue_data U) = b @ r"
  then obtain sec where sec: "di_info (ur_info s) = Some sec" "sec_stream sec = BytesIO (ue_data U) p" by (auto simp: at_pos_def)
  have "m (BytesIO (ue_data U) p) = (Inr v, BytesIO (ue_data U) (p + length b))"
    by (rule yields_at [OF assms s(3,2)]) (use s(1) in \<open>simp add: at_pos_def\<close>)
  then have "on_dwarfinfo (in_info m) s =
      (Inr v, s\<lparr>ur_info := (ur_info s)\<lparr>di_info := Some (sec\<lparr>sec_stream := BytesIO (ue_data U) (p + length b)\<rparr>)\<rparr>\<rparr>)"
    using sec by (simp add: on_dwarfinfo_def in_section_def)
  then show "\<exists>s'. on_dwarfinfo (in_info m) s = (Inr v, s') \<and> at_pos U (p + length b) s' \<and> same_unit s s'"
    using s(1) by (simp add: at_pos_def table_other_streams)
qed

lemma gives_tell: "gives U p (on_dwarfinfo (in_info tell_stream)) [] (int p)"
  unfolding gives_def
proof (intro allI impI)
  fix s r
  assume s: "at_pos U p s"
  then obtain sec where sec: "di_info (ur_info s) = Some sec" "sec_stream sec = BytesIO (ue_data U) p" by (auto simp: at_pos_def)
  then have "on_dwarfinfo (in_info tell_stream) s = (Inr (int p), s)"
    by (simp add: on_dwarfinfo_def in_section_def tell_stream_def)
  then show "\<exists>s'. on_dwarfinfo (in_info tell_stream) s = (Inr (int p), s') \<and> at_pos U (p + length []) s' \<and> same_unit s s'"
    using s by simp
qed

lemma gives_seek:
  "at_pos U q s \<Longrightarrow> \<exists>s'. on_dwarfinfo (in_info (stream_seek (int p) 0)) s = (Inr (), s') \<and> at_pos U p s' \<and> same_unit s s'"
  by (auto simp: at_pos_def on_dwarfinfo_def in_section_def table_other_streams)

lemma gives_keep:
  assumes "gives U p m [] v"
  shows "gives U p (keep_info_pos m) [] v"
proof -
  have "gives U p (on_dwarfinfo (in_info (stream_seek (int p) 0))) [] ()"
    unfolding gives_def using gives_seek [of U p _ p] by auto
  then show ?thesis unfolding keep_info_pos_def
    by (intro gives_pure [where u = "int p"] gives_tell gives_pure [where u = v] gives_pure [where u = "()"] assms gives_prims)
qed

lemma on_dwarfinfo_Inr: "on_dwarfinfo m s = (Inr v, s') \<longleftrightarrow> (\<exists>i. m (ur_info s) = (Inr v, i) \<and> s' = s\<lparr>ur_info := i\<rparr>)"
  by (auto simp: on_dwarfinfo_def split: prod.split)

lemma abbrev_table_keeps:
  "dwarfinfo_abbrev_table fuel off i = (Inr T, i') \<Longrightarrow> di_info i' = di_info i \<and> di_str i' = di_str i"
  by (cases "map_of (di_abbrevtable_cache i) off")
    (auto simp: dwarfinfo_abbrev_table_def sbind_eq_Inr in_section_Inr)

lemma gives_table: "gives U p (get_abbrev_table (ue_fuel U)) [] (ue_table U)"
  unfolding gives_def
proof (intro allI impI)
  fix s r
  assume s: "at_pos U p s"
  let ?m = "get_abbrev_table (ue_fuel U)"
  obtain q s' where run: "?m s = (q, s')" by fastforce
  then have q: "q = Inr (ue_table U)" using s by (simp add: at_pos_def)
  have same: "cu_abbrev_table (ur_cu s') = Some (ue_table U) \<and> ur_cu s' = (ur_cu s)\<lparr>cu_abbrev_table := Some (ue_table U)\<rparr> \<and>
      di_info (ur_info s') = di_info (ur_info s) \<and> di_str (ur_info s') = di_str (ur_info s)"
    using run unfolding q
    by (auto simp: get_abbrev_table_def the_cu_def sbind_eq_Inr on_dwarfinfo_Inr dest: abbrev_table_keeps split: option.splits)
  then have "fst (?m s') = Inr (ue_table U)" by (simp add: get_abbrev_table_def)
  then have "at_pos U p s'" using s same by (auto simp: at_pos_def)
  moreover have "same_unit s s'" using same by (auto simp: same_unit_def)
  ultimately show "\<exists>s'. ?m s = (Inr (ue_table U), s') \<and> at_pos U (p + length []) s' \<and> same_unit s s'"
    using run q by auto
qed

definition string_at :: "string \<Rightarrow> int \<Rightarrow> pyval" where
  "string_at strs off = (if CHR 0x00 \<in> set (drop (nat off) strs)
     then PStr (takeWhile (\<lambda>c. c \<noteq> CHR 0x00) (drop (nat off) strs)) else PNone)"

lemma gives_string:
  assumes "0 \<le> off"
  shows "gives U p (on_dwarfinfo (get_string_from_table (ue_fuel U) off)) [] (string_at (ue_strs U) off)"
  unfolding gives_def
proof (intro allI impI)
  fix s r
  assume s: "at_pos U p s"
  then obtain sec q where sec: "di_str (ur_info s) = Some sec" "sec_stream sec = BytesIO (ue_strs U) q" by (auto simp: at_pos_def)
  obtain q' where "parse_cstring_from_stream (ue_fuel U) (Some off) (BytesIO (ue_strs U) q) =
      (Inr (if CHR 0x00 \<in> set (drop (nat off) (ue_strs U)) then Some (takeWhile (\<lambda>c. c \<noteq> CHR 0x00) (drop (nat off) (ue_strs U))) else None),
       BytesIO (ue_strs U) q')"
    using cstring_stream [OF assms, of "ue_strs U" "ue_fuel U" q] s by (auto simp: at_pos_def)
  then have "on_dwarfinfo (get_string_from_table (ue_fuel U) off) s =
      (Inr (string_at (ue_strs U) off), s\<lparr>ur_info := (ur_info s)\<lparr>di_str := Some (sec\<lparr>sec_stream := BytesIO (ue_strs U) q'\<rparr>)\<rparr>\<rparr>)"
    using sec by (simp add: on_dwarfinfo_def get_string_from_table_def in_section_def sbind_apply string_at_def)
  then show "\<exists>s'. on_dwarfinfo (get_string_from_table (ue_fuel U) off) s = (Inr (string_at (ue_strs U) off), s') \<and>
      at_pos U (p + length []) s' \<and> same_unit s s'"
    using s by (simp add: at_pos_def table_other_streams)
qed

subsection \<open>Attributes\<close>

definition num_forms :: "dwarf_structs \<Rightarrow> (string \<times> int_format) list" where
  "num_forms S = [(''DW_FORM_addr'', target_format S), (''DW_FORM_data1'', Fmt_B), (''DW_FORM_data2'', Fmt_H), (''DW_FORM_data4'', Fmt_L),
     (''DW_FORM_data8'', Fmt_Q), (''DW_FORM_strp'', offset_format S), (''DW_FORM_flag'', Fmt_B), (''DW_FORM_ref1'', Fmt_B),
     (''DW_FORM_ref2'', Fmt_H), (''DW_FORM_ref4'', Fmt_L), (''DW_FORM_ref8'', Fmt_Q), (''DW_FORM_ref_addr'', offset_format S)]"

definition block_forms :: "(string \<times> int_format) list" where
  "block_forms = [(''DW_FORM_block1'', Fmt_B), (''DW_FORM_block2'', Fmt_H), (''DW_FORM_block4'', Fmt_L)]"

inductive form_enc :: "dwarf_structs \<Rightarrow> string \<Rightarrow> string \<Rightarrow> pyval \<Rightarrow> bool" for S where
  form_num: "(f, e) \<in> set (num_forms S) \<Longrightarrow> num_dec S e [] b v \<Longrightarrow> form_enc S f b v"
| form_uleb: "f \<in> {''DW_FORM_udata'', ''DW_FORM_ref_udata''} \<Longrightarrow> uleb_dec [] b v \<Longrightarrow> form_enc S f b v"
| form_sleb: "sleb_dec [] b v \<Longrightarrow> form_enc S ''DW_FORM_sdata'' b v"
| form_string: "cstring_dec [] b v \<Longrightarrow> form_enc S ''DW_FORM_string'' b v"
| form_block_num: "(f, e) \<in> set block_forms \<Longrightarrow> num_dec S e [] a (PInt (int (length b))) \<Longrightarrow> form_enc S f (a @ b) (block_value b)"
| form_block: "uleb_dec [] a (PInt (int (length b))) \<Longrightarrow> form_enc S ''DW_FORM_block'' (a @ b) (block_value b)"

lemma yields_block:
  assumes "decoder (lf (Some '''')) dec" "dec [] a (PInt (int (length b)))"
    and "con_name (lf (Some '''')) = Some ''''" "\<not> is_flag FLAG_EMBED (lf (Some ''''))"
  shows "yields fuel (struct_parse fuel (make_block_struct S lf) None) (a @ b) (block_value b)"
  using block_struct_parse [where lf = lf, OF assms] by (simp add: yields_def add.assoc)

lemma num_forms_table:
  "\<forall>x\<in>set (num_forms S). dict_get (Dwarf_dw_form S) (fst x) = Inr (FormatField (Some '''') (dwarf_endian S) (snd x)) \<and>
     fst x \<noteq> ''DW_FORM_indirect'' \<and> (fst x = ''DW_FORM_strp'' \<or> fst x = ''DW_FORM_flag'' \<longrightarrow> snd x \<in> {Fmt_B, Fmt_L, Fmt_Q})"
  by (simp add: num_forms_def Dwarf_dw_form_def dict_get_def dwarf_formats offset_format_def)

lemma num_forms_con: "(f, e) \<in> set (num_forms S) \<Longrightarrow> dict_get (Dwarf_dw_form S) f = Inr (FormatField (Some '''') (dwarf_endian S) e)"
  using bspec [OF num_forms_table, of "(f, e)" S] by simp

lemma block_forms_table:
  "\<forall>x\<in>set block_forms. dict_get (Dwarf_dw_form S) (fst x) = Inr (make_block_struct S (\<lambda>n. FormatField n (dwarf_endian S) (snd x))) \<and>
     fst x \<noteq> ''DW_FORM_indirect'' \<and> fst x \<noteq> ''DW_FORM_strp'' \<and> fst x \<noteq> ''DW_FORM_flag''"
  by (simp add: block_forms_def Dwarf_dw_form_def dict_get_def dwarf_formats make_block_struct_def)

lemma yields_form:
  assumes "form_enc S f b v"
  obtains c where "form_construct S (PStr f) = Inr c" "yields fuel (struct_parse fuel c None) b v"
  using assms
proof cases
  case (form_num e)
  then show thesis using that num_forms_con yields_parse [OF decoder_int] by (simp add: form_construct_def)
next
  case form_uleb
  then have "form_construct S (PStr f) = Inr (ULEB128 (Some ''''))"
    by (auto simp: form_construct_def Dwarf_dw_form_def dict_get_def dwarf_leb)
  then show thesis by (rule that) (rule yields_parse [OF decoder_uleb form_uleb(2)])
next
  case form_sleb
  then have "form_construct S (PStr f) = Inr (SLEB128 (Some ''''))"
    by (simp add: form_construct_def Dwarf_dw_form_def dict_get_def dwarf_leb)
  then show thesis by (rule that) (rule yields_parse [OF decoder_sleb form_sleb(2)])
next
  case form_string
  then have "form_construct S (PStr f) = Inr (cstring_default (Some ''''))"
    by (simp add: form_construct_def Dwarf_dw_form_def dict_get_def)
  then show thesis by (rule that) (rule yields_parse [OF decoder_cstring form_string(2)])
next
  case (form_block_num e a c)
  have "form_construct S (PStr f) = Inr (make_block_struct S (\<lambda>n. FormatField n (dwarf_endian S) e))"
    using bspec [OF block_forms_table form_block_num(3), of S] by (simp add: form_construct_def)
  then show thesis using that yields_block [where lf = "\<lambda>n. FormatField n (dwarf_endian S) e", OF decoder_int form_block_num(4)] form_block_num(1,2) by simp
next
  case (form_block a c)
  have "form_construct S (PStr f) = Inr (make_block_struct S ULEB128)"
    using form_block(1) by (simp add: form_construct_def Dwarf_dw_form_def dict_get_def dwarf_leb make_block_struct_def)
  then show thesis using that yields_block [where lf = ULEB128, OF decoder_uleb form_block(4)] form_block(2,3) by simp
qed

definition attr_value :: "string \<Rightarrow> string \<Rightarrow> pyval \<Rightarrow> pyval" where
  "attr_value strs f raw = (if f = ''DW_FORM_strp'' then (case raw of PInt off \<Rightarrow> string_at strs off | _ \<Rightarrow> PNone)
     else if f = ''DW_FORM_flag'' then PBool (raw \<noteq> PInt 0) else raw)"

lemma form_enc_number:
  assumes "form_enc S f b v" "f = ''DW_FORM_strp'' \<or> f = ''DW_FORM_flag''"
  shows "\<exists>i. v = PInt i \<and> 0 \<le> i"
proof -
  obtain e where "num_dec S e [] b v" "e \<in> {Fmt_B, Fmt_L, Fmt_Q}"
    using assms bspec [OF num_forms_table, of _ S] bspec [OF block_forms_table, of _ S]
    by (cases rule: form_enc.cases) fastforce+
  then show ?thesis
    by (auto simp: int_dec_def int_enc_def pack_def fmt_min_def fmt_signed_def split: pyval.splits if_splits sum.splits option.splits)
qed

lemma gives_translate:
  assumes "form_enc (ue_structs U) f b raw"
  shows "gives U p (translate_attr_value (ue_fuel U) (PStr f) raw) [] (attr_value (ue_strs U) f raw)"
proof -
  consider "f = ''DW_FORM_strp''" | "f = ''DW_FORM_flag''" | "f \<noteq> ''DW_FORM_strp''" "f \<noteq> ''DW_FORM_flag''" by blast
  then show ?thesis
  proof cases
    case 1
    then obtain i where i: "raw = PInt i" "0 \<le> i" using form_enc_number [OF assms] by auto
    have "gives U p (sbind (slift (as_int raw)) (\<lambda>off. on_dwarfinfo (get_string_from_table (ue_fuel U) off))) [] (string_at (ue_strs U) i)"
      by (rule gives_pure [where u = i], rule gives_prims(3)) (simp_all add: i as_int_def gives_string)
    then show ?thesis using gives_keep 1 i by (simp add: translate_attr_value_def attr_value_def)
  next
    case 2
    then obtain i where i: "raw = PInt i" using form_enc_number [OF assms] by auto
    then show ?thesis using 2 by (simp add: translate_attr_value_def attr_value_def gives_prims)
  next
    case 3
    have "f \<noteq> ''DW_FORM_indirect''"
      using assms bspec [OF num_forms_table, of _ "ue_structs U"] bspec [OF block_forms_table, of _ "ue_structs U"]
      by (cases rule: form_enc.cases) fastforce+
    then show ?thesis using 3 by (simp add: translate_attr_value_def attr_value_def gives_prims)
  qed
qed

inductive attrs_enc :: "unit_env \<Rightarrow> nat \<Rightarrow> (pyval \<times> pyval) list \<Rightarrow> string \<Rightarrow> attribute_value list \<Rightarrow> bool" for U where
  attrs_none: "attrs_enc U p [] [] []"
| attrs_more: "form_enc (ue_structs U) f a raw \<Longrightarrow> attrs_enc U (p + length a) specs b avs \<Longrightarrow>
    attrs_enc U p ((name, PStr f) # specs) (a @ b)
      (\<lparr>av_name = name, av_form = PStr f, av_value = attr_value (ue_strs U) f raw, av_raw_value = raw, av_offset = int p\<rparr> # avs)"

definition add_attrs :: "(pyval \<times> attribute_value) list \<Rightarrow> attribute_value list \<Rightarrow> (pyval \<times> attribute_value) list" where
  "add_attrs attrs avs = foldl (\<lambda>m av. dict_set (av_name av) av m) attrs avs"

lemma gives_attrs: "attrs_enc U p specs b avs \<Longrightarrow> gives U p (attr_loop (ue_fuel U) (ue_structs U) specs attrs) b (add_attrs attrs avs)"
proof (induction arbitrary: attrs rule: attrs_enc.induct)
  case (attrs_more f a raw p specs b avs name)
  obtain c where c: "form_construct (ue_structs U) (PStr f) = Inr c" "yields (ue_fuel U) (struct_parse (ue_fuel U) c None) a raw"
    by (rule yields_form [OF attrs_more.hyps(1)])
  show ?case unfolding attr_loop.simps
    by (rule gives_pure [OF gives_tell], rule gives_pure, rule gives_prims(3), rule c(1), rule gives_sbind, rule gives_info, rule c(2),
        rule gives_pure, rule gives_translate, rule attrs_more.hyps(1)) (use attrs_more.IH in \<open>simp add: add_attrs_def\<close>)
qed (simp add: add_attrs_def gives_prims)

subsection \<open>Entries\<close>

inductive entry_enc :: "unit_env \<Rightarrow> nat \<Rightarrow> string \<Rightarrow> die \<Rightarrow> bool" for U where
  entry_null: "leb_bytes b \<Longrightarrow> uleb_value b = 0 \<Longrightarrow> entry_enc U p b
     \<lparr>die_offset = int p, die_attributes = [], die_tag = PNone, die_has_children = None, die_abbrev_code = PInt 0,
      die_size = int (length b), die_children = [], die_parent = None\<rparr>"
| entry_die: "leb_bytes a \<Longrightarrow> uleb_value a \<noteq> 0 \<Longrightarrow> get_abbrev (ue_table U) (PInt (uleb_value a)) = Inr decl \<Longrightarrow>
    abbrev_getitem decl ''tag'' = Inr tag \<Longrightarrow> has_children decl = Inr children \<Longrightarrow> iter_attr_specs decl = Inr specs \<Longrightarrow>
    attrs_enc U (p + length a) specs b avs \<Longrightarrow> entry_enc U p (a @ b)
     \<lparr>die_offset = int p, die_attributes = add_attrs [] avs, die_tag = tag, die_has_children = Some children,
      die_abbrev_code = PInt (uleb_value a), die_size = int (length (a @ b)), die_children = [], die_parent = None\<rparr>"

lemma entry_enc_size: "entry_enc U p b d \<Longrightarrow> die_size d = int (length b) \<and> b \<noteq> []"
  by (cases rule: entry_enc.cases) (auto simp: leb_bytes_def)

definition info_at :: "nat \<Rightarrow> unit_run \<Rightarrow> unit_run" where
  "info_at p s = snd (on_dwarfinfo (in_info (stream_seek (int p) 0)) s)"

lemma info_at_pos: "at_pos U q s \<Longrightarrow> at_pos U p (info_at p s) \<and> same_unit s (info_at p s)"
  using gives_seek [of U q s p] by (auto simp: info_at_def)

lemma parse_at_info:
  assumes "at_pos U q s"
  shows "sbind (on_dwarfinfo (in_info (struct_parse fuel c (Some (int p))))) f s =
    sbind (on_dwarfinfo (in_info (struct_parse fuel c None))) f (info_at p s)"
proof -
  obtain sec where "di_info (ur_info s) = Some sec" "sec_stream sec = BytesIO (ue_data U) q" using assms by (auto simp: at_pos_def)
  then show ?thesis by (simp add: sbind_apply info_at_def on_dwarfinfo_def in_section_def struct_parse_def scatch_def)
qed

lemma gives_code:
  "leb_bytes a \<Longrightarrow> gives U p (on_dwarfinfo (in_info (struct_parse (ue_fuel U) (Dwarf_uleb128 S n) None))) a (PInt (uleb_value a))"
  unfolding dwarf_leb by (intro gives_info yields_parse [OF decoder_uleb]) (simp add: uleb_dec_def)

text \<open>\<open>_parse_DIE\<close> after the code.\<close>

definition die_rest :: "nat \<Rightarrow> dwarf_structs \<Rightarrow> int \<Rightarrow> pyval \<Rightarrow> die um" where
  "die_rest fuel S offset code = (if py_eq code (PInt 0) then
         sbind (on_dwarfinfo (in_info tell_stream)) (\<lambda>pos. sret
           \<lparr>die_offset = offset, die_attributes = [], die_tag = PNone, die_has_children = None, die_abbrev_code = code,
            die_size = pos - offset, die_children = [], die_parent = None\<rparr>)
       else
         sbind (keep_info_pos (sbind (get_abbrev_table fuel) (\<lambda>T. slift (get_abbrev T code)))) (\<lambda>abbrev_decl.
         sbind (slift (abbrev_getitem abbrev_decl ''tag'')) (\<lambda>tag.
         sbind (slift (has_children abbrev_decl)) (\<lambda>children.
         sbind (slift (iter_attr_specs abbrev_decl)) (\<lambda>specs.
         sbind (attr_loop fuel S specs []) (\<lambda>attrs.
         sbind (on_dwarfinfo (in_info tell_stream)) (\<lambda>pos. sret
           \<lparr>die_offset = offset, die_attributes = attrs, die_tag = tag, die_has_children = Some children, die_abbrev_code = code,
            die_size = pos - offset, die_children = [], die_parent = None\<rparr>)))))))"

lemma parse_DIE_rest: "parse_DIE fuel offset = sbind (the_cu (\<lambda>cu. Inr (cu_structs cu))) (\<lambda>S.
     sbind (on_dwarfinfo (in_info (struct_parse fuel (Dwarf_uleb128 S (Some '''')) (Some offset)))) (die_rest fuel S offset))"
  unfolding parse_DIE_def die_rest_def by (rule refl)

lemma gives_null_entry:
  "gives U (p + n) (die_rest (ue_fuel U) (ue_structs U) (int p) (PInt 0)) []
     \<lparr>die_offset = int p, die_attributes = [], die_tag = PNone, die_has_children = None, die_abbrev_code = PInt 0,
      die_size = int n, die_children = [], die_parent = None\<rparr>"
  unfolding die_rest_def by (simp, rule gives_pure [where u = "int (p + n)"], rule gives_tell) (simp add: gives_prims)

lemma gives_abbrev:
  "get_abbrev (ue_table U) code = Inr decl \<Longrightarrow> gives U p (keep_info_pos (sbind (get_abbrev_table (ue_fuel U)) (\<lambda>T. slift (get_abbrev T code)))) [] decl"
  by (rule gives_keep, rule gives_pure [where u = "ue_table U"], rule gives_table, rule gives_prims(3))

lemma gives_die_entry:
  assumes "uleb_value a \<noteq> 0" "get_abbrev (ue_table U) (PInt (uleb_value a)) = Inr decl"
    "abbrev_getitem decl ''tag'' = Inr tag" "has_children decl = Inr children" "iter_attr_specs decl = Inr specs"
    "attrs_enc U (p + n) specs b avs"
  shows "gives U (p + n) (die_rest (ue_fuel U) (ue_structs U) (int p) (PInt (uleb_value a))) b
     \<lparr>die_offset = int p, die_attributes = add_attrs [] avs, die_tag = tag, die_has_children = Some children,
      die_abbrev_code = PInt (uleb_value a), die_size = int (n + length b), die_children = [], die_parent = None\<rparr>"
proof -
  have "\<not> py_eq (PInt (uleb_value a)) (PInt 0)" using assms(1) by simp
  then show ?thesis unfolding die_rest_def if_not_P
    by (simp only: if_False, intro gives_pure [OF gives_abbrev [OF assms(2)]] gives_pure [OF gives_prims(3) [OF assms(3)]]
        gives_pure [OF gives_prims(3) [OF assms(4)]] gives_pure [OF gives_prims(3) [OF assms(5)]] gives_last [OF gives_attrs [OF assms(6)]]
        gives_pure [OF gives_tell]) (simp add: gives_prims add.assoc)
qed

lemma entry_gives: "entry_enc U p b d \<Longrightarrow>
  gives U p (sbind (on_dwarfinfo (in_info (struct_parse (ue_fuel U) (Dwarf_uleb128 (ue_structs U) (Some '''')) None)))
    (die_rest (ue_fuel U) (ue_structs U) (int p))) b d"
proof (induction rule: entry_enc.induct)
  case (entry_null b p)
  show ?case using gives_null_entry [of U p "length b"] entry_null(2) by (intro gives_last [OF gives_code [OF entry_null(1)]]) simp
next
  case (entry_die a decl tag children specs p b avs)
  show ?case using gives_die_entry [OF entry_die(2-7)] by (intro gives_sbind [OF gives_code [OF entry_die(1)]]) simp
qed

lemma parse_DIE_entry:
  assumes "entry_enc U p b d" "at_pos U q s" "p \<le> length (ue_data U)" "drop p (ue_data U) = b @ r"
  obtains s' where "parse_DIE (ue_fuel U) (int p) s = (Inr d, s')" "at_pos U (p + length b) s'" "same_unit s s'"
proof -
  note at = info_at_pos [OF assms(2), of p]
  obtain s' where s': "sbind (on_dwarfinfo (in_info (struct_parse (ue_fuel U) (Dwarf_uleb128 (ue_structs U) (Some '''')) None)))
      (die_rest (ue_fuel U) (ue_structs U) (int p)) (info_at p s) = (Inr d, s')" "at_pos U (p + length b) s'" "same_unit (info_at p s) s'"
    using givesD [OF entry_gives [OF assms(1)] conjunct1 [OF at] assms(3,4)] by blast
  have "the_cu (\<lambda>cu. Inr (cu_structs cu)) s = (Inr (ue_structs U), s)" using assms(2) by (simp add: at_pos_def the_cu_def)
  then have "parse_DIE (ue_fuel U) (int p) s = (Inr d, s')"
    using s'(1) parse_at_info [OF assms(2), of "ue_fuel U" "Dwarf_uleb128 (ue_structs U) (Some '''')" p "die_rest (ue_fuel U) (ue_structs U) (int p)"]
    by (simp add: parse_DIE_rest)
  then show thesis using that s' at same_unit_trans by blast
qed

inductive entries_enc :: "unit_env \<Rightarrow> nat \<Rightarrow> string \<Rightarrow> die list \<Rightarrow> bool" for U where
  entries_none: "entries_enc U p [] []"
| entries_more: "entry_enc U p a d \<Longrightarrow> entries_enc U (p + length a) b ds \<Longrightarrow> entries_enc U p (a @ b) (d # ds)"

lemma table_dielist:
  "fst (get_abbrev_table fuel (s\<lparr>ur_cu := (ur_cu s)\<lparr>cu_dielist := ds\<rparr>\<rparr>)) = fst (get_abbrev_table fuel s)"
  by (auto simp: get_abbrev_table_def the_cu_def cu_getitem_def sbind_apply on_dwarfinfo_def split: option.split sum.split prod.split)

lemma at_pos_append: "at_pos U p s \<Longrightarrow> at_pos U p (snd (append_die d s))"
  by (simp add: at_pos_def append_die_def table_dielist)

definition unit_grown :: "die list \<Rightarrow> unit_run \<Rightarrow> unit_run \<Rightarrow> bool" where
  "unit_grown ds s s' = (\<exists>T. ur_cu s' = (ur_cu s)\<lparr>cu_abbrev_table := T, cu_dielist := cu_dielist (ur_cu s) @ ds\<rparr>)"

lemma die_loop_entries:
  "entries_enc U p b ds \<Longrightarrow> at_pos U q s \<Longrightarrow> p \<le> length (ue_data U) \<Longrightarrow> drop p (ue_data U) = b @ r \<Longrightarrow> length b < k \<Longrightarrow>
    \<exists>s' q'. die_loop k (ue_fuel U) (int p) (int (p + length b)) s = (Inr (), s') \<and> at_pos U q' s' \<and> unit_grown ds s s'"
proof (induction arbitrary: q s k rule: entries_enc.induct)
  case (entries_none p)
  then obtain k' where k: "k = Suc k'" by (cases k) auto
  have "unit_grown [] s s" by (simp add: unit_grown_def) (metis (no_types) compile_unit.surjective compile_unit.update_convs(5,6))
  then show ?case using entries_none(1) k by auto
next
  case (entries_more p a d b ds)
  then obtain k' where k: "k = Suc k'" by (cases k) auto
  have size: "die_size d = int (length a)" "a \<noteq> []" using entry_enc_size [OF entries_more.hyps(1)] by auto
  obtain s1 where 1: "parse_DIE (ue_fuel U) (int p) s = (Inr d, s1)" "at_pos U (p + length a) s1" "same_unit s s1"
    using parse_DIE_entry [OF entries_more.hyps(1) entries_more.prems(1,2), of "b @ r"] entries_more.prems(3) by auto
  let ?s2 = "snd (append_die d s1)"
  have 2: "at_pos U (p + length a) ?s2" by (rule at_pos_append [OF 1(2)])
  have b: "drop (p + length a) (ue_data U) = b @ r" "p + length a \<le> length (ue_data U)"
    using drop_behind [of p "ue_data U" a "b @ r"] entries_more.prems(2,3) by auto
  have "length b < k'" using entries_more.prems(4) k size(2) by (cases a) auto
  from entries_more.IH [OF 2 b(2,1) this] obtain s' q' where
    3: "die_loop k' (ue_fuel U) (int (p + length a)) (int (p + length a + length b)) ?s2 = (Inr (), s')" "at_pos U q' s'" "unit_grown ds ?s2 s'"
    by blast
  have "unit_grown (d # ds) s s'" using 1(3) 3(3) by (auto simp: unit_grown_def same_unit_def append_die_def)
  moreover have "0 < int (length a) + int (length b)" using size(2) by (cases a) auto
  then have "die_loop k (ue_fuel U) (int p) (int (p + length (a @ b))) s = (Inr (), s')"
    using 1(1) 3(1) size(1) by (simp add: k append_die_def sbind_apply add.assoc)
  ultimately show ?case using 3(2) by blast
qed

text \<open>
  The run that starts reading a unit: it has no entries yet, its length says where it ends, and its
  abbreviation table can be had.
\<close>

definition unit_start :: "unit_env \<Rightarrow> nat \<Rightarrow> nat \<Rightarrow> unit_run \<Rightarrow> bool" where
  "unit_start U p n s = ((\<exists>q. at_pos U q s) \<and> cu_dielist (ur_cu s) = [] \<and> cu_die_offset (ur_cu s) = int p \<and> p \<le> length (ue_data U) \<and>
     (\<exists>len. cu_getitem (ur_cu s) ''unit_length'' = Inr (PInt len) \<and>
        cu_offset (ur_cu s) + len + initial_length_field_size (ue_structs U) = int (p + n)))"

lemma parse_DIEs_entries:
  assumes "unit_start U p (length b) s" "entries_enc U p b ds" "drop p (ue_data U) = b @ r"
  obtains s' where "cu_dielist (ur_cu s') = ds"
    "parse_DIEs (ue_fuel U) s = (fst (unflatten_tree ds), s'\<lparr>ur_cu := (ur_cu s')\<lparr>cu_dielist := snd (unflatten_tree ds)\<rparr>\<rparr>)"
proof -
  from assms(1) obtain q len where s: "at_pos U q s" "cu_dielist (ur_cu s) = []" "cu_die_offset (ur_cu s) = int p" "p \<le> length (ue_data U)"
      "cu_getitem (ur_cu s) ''unit_length'' = Inr (PInt len)" "cu_offset (ur_cu s) + len + initial_length_field_size (ue_structs U) = int (p + length b)"
    unfolding unit_start_def by blast
  have fuel: "length b < ue_fuel U" using s(1,4) assms(3) by (auto simp: at_pos_def dest!: arg_cong [of _ _ length])
  from die_loop_entries [OF assms(2) s(1,4) assms(3) fuel] obtain s' q' where
    1: "die_loop (ue_fuel U) (ue_fuel U) (int p) (int (p + length b)) s = (Inr (), s')" "unit_grown ds s s'" by blast
  have S: "cu_structs (ur_cu s) = ue_structs U" using s(1) by (simp add: at_pos_def)
  have "cu_dielist (ur_cu s') = ds" using 1(2) s(2) by (auto simp: unit_grown_def)
  moreover have "parse_DIEs (ue_fuel U) s = (fst (unflatten_tree ds), s'\<lparr>ur_cu := (ur_cu s')\<lparr>cu_dielist := snd (unflatten_tree ds)\<rparr>\<rparr>)"
    using 1(1) s(2,3,5,6) calculation S by (simp add: parse_DIEs_def the_cu_def sbind_apply as_int_def split: prod.split)
  ultimately show thesis by (rule that)
qed

text \<open>C3: The bytes of a tree of entries, each written with its abbreviation code and the values of its attributes and each list of children closed by a null entry, are read back by iter_DIEs: the entries in prefix order, every entry with its attributes, its parent and its children.\<close>

theorem unit_tree_parse:
  assumes "unit_start U p (length b) s" "wf_tree t" "entries_enc U p b (flat t)" "drop p (ue_data U) = b @ r"
  shows "fst (iter_DIEs (ue_fuel U) s) = Inr (linked_root t)"
proof -
  obtain s' where "cu_dielist (ur_cu s') = flat t"
    "parse_DIEs (ue_fuel U) s = (fst (unflatten_tree (flat t)), s'\<lparr>ur_cu := (ur_cu s')\<lparr>cu_dielist := snd (unflatten_tree (flat t))\<rparr>\<rparr>)"
    by (rule parse_DIEs_entries [OF assms(1,3,4)])
  then show ?thesis using unflatten_linked [OF assms(2)] by (simp add: iter_DIEs_def the_cu_def sbind_apply)
qed

text \<open>C34: An entry behind the terminator of the children of the top entry, such as a null entry that pads the unit, makes iter_DIEs raise IndexError; the entries stay in the list, so a second call returns them without an error: the tree with all its links, and the entries behind it without any.\<close>

theorem unit_trailing_entry:
  assumes "unit_start U p (length b) s" "wf_tree (Branch d ts n)" "entries_enc U p b (flat (Branch d ts n) @ x # xs)" "drop p (ue_data U) = b @ r"
  shows "fst (iter_DIEs (ue_fuel U) s) = Inl IndexError \<and>
    fst (iter_DIEs (ue_fuel U) (snd (iter_DIEs (ue_fuel U) s))) = Inr (linked_root (Branch d ts n) @ x # xs)"
proof -
  let ?ds = "flat (Branch d ts n) @ x # xs"
  obtain s' where s': "cu_dielist (ur_cu s') = ?ds"
    "parse_DIEs (ue_fuel U) s = (fst (unflatten_tree ?ds), s'\<lparr>ur_cu := (ur_cu s')\<lparr>cu_dielist := snd (unflatten_tree ?ds)\<rparr>\<rparr>)"
    by (rule parse_DIEs_entries [OF assms(1,3,4)])
  show ?thesis using s'(2) unflatten_trailing [OF assms(2), of x xs]
    by (simp add: iter_DIEs_def sbind_apply del: flat.simps linked_root.simps)
      (simp add: parse_DIEs_def the_cu_def del: flat.simps linked_root.simps)
qed

subsection \<open>An example\<close>

text \<open>A unit named \<open>m\<close> with one child of four bytes.\<close>

definition example_table' :: abbrev_table where
  "example_table' = \<lparr>at_structs = example_structs, at_offset = 0, at_abbrev_map =
     [(PInt 1, PObj [(''tag'', PStr ''DW_TAG_compile_unit''), (''children_flag'', PStr ''DW_CHILDREN_yes''),
        (''attr_spec'', PList [PObj [(''name'', PStr ''DW_AT_name''), (''form'', PStr ''DW_FORM_string'')]])]),
      (PInt 2, PObj [(''tag'', PStr ''DW_TAG_base_type''), (''children_flag'', PStr ''DW_CHILDREN_no''),
        (''attr_spec'', PList [PObj [(''name'', PStr ''DW_AT_byte_size''), (''form'', PStr ''DW_FORM_data1'')]])])]\<rparr>"

definition example_entries :: string where
  "example_entries = [chr_c 1, CHR ''m'', CHR 0x00, chr_c 2, chr_c 4, CHR 0x00]"

definition example_env :: unit_env where
  "example_env = \<lparr>ue_fuel = 99, ue_structs = example_structs, ue_table = example_table', ue_strs = [],
     ue_data = replicate 11 CHR 0x00 @ example_entries @ [CHR 0x00]\<rparr>"

definition example_unit :: "int \<Rightarrow> unit_run" where
  "example_unit len = \<lparr>ur_info = \<lparr>di_little_endian = True, di_machine_arch = ''x86'', di_address_size = 4,
       di_info = Some \<lparr>sec_stream = BytesIO (ue_data example_env) 0, sec_name = None, sec_global_offset = 0, sec_size = 18\<rparr>,
       di_abbrev = None, di_frame = None, di_str = Some \<lparr>sec_stream = BytesIO [] 0, sec_name = None, sec_global_offset = 0, sec_size = 0\<rparr>,
       di_loc = None, di_ranges = None, di_line = None, di_structs = example_structs, di_abbrevtable_cache = []\<rparr>,
     ur_cu = \<lparr>cu_header = [(''unit_length'', PInt len)], cu_structs = example_structs, cu_offset = 0, cu_die_offset = 11,
       cu_abbrev_table = Some example_table', cu_dielist = []\<rparr>\<rparr>"

definition example_attr :: "string \<Rightarrow> string \<Rightarrow> pyval \<Rightarrow> int \<Rightarrow> attribute_value" where
  "example_attr name form v off = \<lparr>av_name = PStr name, av_form = PStr form, av_value = v, av_raw_value = v, av_offset = off\<rparr>"

definition example_root :: die where
  "example_root = \<lparr>die_offset = 11, die_attributes = [(PStr ''DW_AT_name'', example_attr ''DW_AT_name'' ''DW_FORM_string'' (PStr ''m'') 12)],
     die_tag = PStr ''DW_TAG_compile_unit'', die_has_children = Some True, die_abbrev_code = PInt 1, die_size = 3, die_children = [], die_parent = None\<rparr>"

definition example_child :: die where
  "example_child = \<lparr>die_offset = 14, die_attributes = [(PStr ''DW_AT_byte_size'', example_attr ''DW_AT_byte_size'' ''DW_FORM_data1'' (PInt 4) 15)],
     die_tag = PStr ''DW_TAG_base_type'', die_has_children = Some False, die_abbrev_code = PInt 2, die_size = 2, die_children = [], die_parent = None\<rparr>"

definition example_null :: "int \<Rightarrow> die" where
  "example_null off = \<lparr>die_offset = off, die_attributes = [], die_tag = PNone, die_has_children = None, die_abbrev_code = PInt 0,
     die_size = 1, die_children = [], die_parent = None\<rparr>"

lemma example_start: "unit_start example_env 11 6 (example_unit 13)" "unit_start example_env 11 7 (example_unit 14)"
  by (auto simp: unit_start_def at_pos_def example_env_def example_unit_def get_abbrev_table_def example_entries_def cu_getitem_def
      container_getitem_def dict_get_def initial_length_field_size_def example_structs_def)

lemma example_leb: "leb_bytes [chr_c 1]" "uleb_value [chr_c 1] = 1" "leb_bytes [chr_c 2]" "uleb_value [chr_c 2] = 2"
  "leb_bytes [CHR 0x00]" "uleb_value [CHR 0x00] = 0"
  by code_simp+

definition example_decl' :: "int \<Rightarrow> abbrev_decl" where
  "example_decl' c = \<lparr>ad_code = PInt c, ad_decl = the (map_of (at_abbrev_map example_table') (PInt c))\<rparr>"

lemma example_decls:
  "get_abbrev (ue_table example_env) (PInt (uleb_value [chr_c 1])) = Inr (example_decl' 1)"
  "abbrev_getitem (example_decl' 1) ''tag'' = Inr (PStr ''DW_TAG_compile_unit'')" "has_children (example_decl' 1) = Inr True"
  "iter_attr_specs (example_decl' 1) = Inr [(PStr ''DW_AT_name'', PStr ''DW_FORM_string'')]"
  "get_abbrev (ue_table example_env) (PInt (uleb_value [chr_c 2])) = Inr (example_decl' 2)"
  "abbrev_getitem (example_decl' 2) ''tag'' = Inr (PStr ''DW_TAG_base_type'')" "has_children (example_decl' 2) = Inr False"
  "iter_attr_specs (example_decl' 2) = Inr [(PStr ''DW_AT_byte_size'', PStr ''DW_FORM_data1'')]"
  unfolding example_leb(2,4)
  by (simp_all add: example_env_def example_table'_def get_abbrev_def example_decl'_def py_lookup_def abbrev_getitem_def container_getitem_def
        dict_get_def has_children_def iter_attr_specs_def)

lemma example_root_enc: "entry_enc example_env 11 ([chr_c 1] @ [CHR ''m'', CHR 0x00]) example_root"
proof -
  have "attrs_enc example_env (11 + length [chr_c 1]) [(PStr ''DW_AT_name'', PStr ''DW_FORM_string'')] ([CHR ''m'', CHR 0x00] @ [])
      [example_attr ''DW_AT_name'' ''DW_FORM_string'' (PStr ''m'') 12]"
    using attrs_more [OF form_string attrs_none, of "[CHR ''m'', CHR 0x00]" "PStr ''m''" example_env "11 + length [chr_c 1]" "PStr ''DW_AT_name''"]
    by (simp add: cstring_dec_def attr_value_def example_attr_def)
  from entry_die [OF example_leb(1) _ example_decls(1) example_decls(2-4) this] show ?thesis
    unfolding example_leb(2) by (simp add: example_root_def add_attrs_def example_attr_def)
qed

lemma example_child_enc: "entry_enc example_env 14 ([chr_c 2] @ [chr_c 4]) example_child"
proof -
  have "num_dec (ue_structs example_env) Fmt_B [] [chr_c 4] (PInt 4)" by (rule byte_dec) simp_all
  then have "attrs_enc example_env (14 + length [chr_c 2]) [(PStr ''DW_AT_byte_size'', PStr ''DW_FORM_data1'')] ([chr_c 4] @ [])
      [example_attr ''DW_AT_byte_size'' ''DW_FORM_data1'' (PInt 4) 15]"
    using attrs_more [OF form_num attrs_none, of "''DW_FORM_data1''" Fmt_B example_env "[chr_c 4]" "PInt 4" "14 + length [chr_c 2]" "PStr ''DW_AT_byte_size''"]
    by (simp add: num_forms_def attr_value_def example_attr_def)
  from entry_die [OF example_leb(3) _ example_decls(5) example_decls(6-8) this] show ?thesis
    unfolding example_leb(4) by (simp add: example_child_def add_attrs_def example_attr_def)
qed

lemma example_null_enc: "entry_enc example_env p [CHR 0x00] (example_null (int p))"
  using entry_null [OF example_leb(5,6), of example_env p] by (simp add: example_null_def)

definition example_tree :: die_tree where
  "example_tree = Branch example_root [Leaf example_child] (example_null 16)"

lemma example_tree_enc:
  "wf_tree example_tree" "entries_enc example_env 11 example_entries (flat example_tree)"
  "entries_enc example_env 11 (example_entries @ [CHR 0x00]) (flat example_tree @ [example_null 17])"
proof -
  show "wf_tree example_tree"
    by (simp add: example_tree_def is_null_def example_root_def example_child_def example_null_def)
  have tail: "entries_enc example_env 11 (([chr_c 1] @ [CHR ''m'', CHR 0x00]) @ ([chr_c 2] @ [chr_c 4]) @ [CHR 0x00] @ b) (example_root # example_child # example_null 16 # ds)"
    if "entries_enc example_env 17 b ds" for b ds
    using example_root_enc example_child_enc example_null_enc [of 16] that by (intro entries_more) simp_all
  show "entries_enc example_env 11 example_entries (flat example_tree)"
    using tail [OF entries_none] by (simp add: example_entries_def example_tree_def)
  show "entries_enc example_env 11 (example_entries @ [CHR 0x00]) (flat example_tree @ [example_null 17])"
    using tail [OF entries_more [OF example_null_enc [of 17] entries_none]] by (simp add: example_entries_def example_tree_def)
qed

lemma example_lengths: "length example_entries = 6" "length (example_entries @ [CHR 0x00]) = 7"
  by (simp_all add: example_entries_def)

lemma example_data: "drop 11 (ue_data example_env) = example_entries @ [CHR 0x00]"
  by (simp add: example_env_def)

theorem unit_tree_parse_witness:
  "fst (iter_DIEs 99 (example_unit 13)) =
     Inr [example_root\<lparr>die_children := [1]\<rparr>, example_child\<lparr>die_parent := Some 0\<rparr>, example_null 16]"
proof -
  have "fst (iter_DIEs (ue_fuel example_env) (example_unit 13)) = Inr (linked_root example_tree)"
    by (rule unit_tree_parse [OF _ example_tree_enc(1,2), where r = "[CHR 0x00]"])
      (use example_start(1) example_lengths in \<open>simp_all add: example_data\<close>)
  then show ?thesis
    by (simp add: example_env_def example_tree_def with_children_def set_parent_def example_root_def example_child_def)
qed

theorem unit_trailing_entry_witness:
  "fst (iter_DIEs 99 (example_unit 14)) = Inl IndexError \<and>
   fst (iter_DIEs 99 (snd (iter_DIEs 99 (example_unit 14)))) =
     Inr [example_root\<lparr>die_children := [1]\<rparr>, example_child\<lparr>die_parent := Some 0\<rparr>, example_null 16, example_null 17]"
proof -
  have "fst (iter_DIEs (ue_fuel example_env) (example_unit 14)) = Inl IndexError \<and>
     fst (iter_DIEs (ue_fuel example_env) (snd (iter_DIEs (ue_fuel example_env) (example_unit 14)))) =
       Inr (linked_root (Branch example_root [Leaf example_child] (example_null 16)) @ [example_null 17])"
    by (rule unit_trailing_entry [where r = "[]", OF _ example_tree_enc(1) [unfolded example_tree_def] example_tree_enc(3) [unfolded example_tree_def]])
      (use example_start(2) example_lengths in \<open>simp_all add: example_data\<close>)
  then show ?thesis
    by (simp add: example_env_def with_children_def set_parent_def example_root_def example_child_def)
qed

end
