(* ===== verification/ElfFiles.thy ===== *)
theory ElfFiles
  imports ElfStructs DwarfUnits
begin

section \<open>ELF files (\<open>elf/sections.py\<close>, \<open>elf/segments.py\<close>, \<open>elf/relocation.py\<close>, \<open>elf/elffile.py\<close>)\<close>

text \<open>
  An \<open>ELFFile\<close> is the stream of the file, what was read of its header, and the cache of the map
  from names to sections. Its methods are computations on it. A section or segment is a value: it
  holds its header, and the methods that read take the stream it shares with the file.
\<close>

unbundle bit_operations_syntax

subsection \<open>Sections\<close>

datatype elf_section =
    Section (sh_header: container) (sh_title: "string option")
  | NullSection (sh_header: container) (sh_title: "string option")
  | StringTableSection (sh_header: container) (sh_title: "string option")
  | SymbolTableSection (sh_header: container) (sh_title: "string option") (sh_strtab: elf_section)
  | RelocationSection (sh_header: container) (sh_title: "string option") (sh_entry_struct: construct)

definition section_getitem :: "elf_section \<Rightarrow> string \<Rightarrow> pyexc + pyval" where
  "section_getitem sec name = container_getitem (sh_header sec) name"

definition section_int :: "elf_section \<Rightarrow> string \<Rightarrow> pyexc + int" where
  "section_int sec name = ebind (section_getitem sec name) as_int"

definition section_data :: "elf_section \<Rightarrow> (pystream, string) st" where
  "section_data sec = sbind (slift (section_int sec ''sh_offset'')) (\<lambda>offset. sbind (stream_seek offset 0) (\<lambda>_.
     sbind (slift (section_int sec ''sh_size'')) stream_read))"

definition section_is_null :: "elf_section \<Rightarrow> bool" where
  "section_is_null sec = is_NullSection sec"

definition section_eq :: "elf_section \<Rightarrow> elf_section \<Rightarrow> bool" where
  "section_eq sec other = py_eq (PObj (sh_header sec)) (PObj (sh_header other))"

text \<open>A call of a method that only one class of sections has is an \<open>AttributeError\<close> on the others.\<close>

definition get_string :: "nat \<Rightarrow> elf_section \<Rightarrow> int \<Rightarrow> (pystream, string option) st" where
  "get_string fuel sec offset = (case sec of
     StringTableSection h t \<Rightarrow> sbind (slift (section_int sec ''sh_offset'')) (\<lambda>table_offset.
       parse_cstring_from_stream fuel (Some (table_offset + offset)))
   | _ \<Rightarrow> sraise AttributeError)"

definition new_SymbolTableSection :: "container \<Rightarrow> string option \<Rightarrow> elf_section \<Rightarrow> pyexc + elf_section" where
  "new_SymbolTableSection header name stringtable =
     ebind (header_int header ''sh_entsize'') (\<lambda>entsize. ebind (elf_assert (entsize > 0)) (\<lambda>_.
     ebind (header_int header ''sh_size'') (\<lambda>n. ebind (py_mod n entsize) (\<lambda>m. ebind (elf_assert (m = 0)) (\<lambda>_.
       Inr (SymbolTableSection header name stringtable))))))"

definition entry_count :: "elf_section \<Rightarrow> pyexc + int" where
  "entry_count sec = ebind (section_int sec ''sh_size'') (\<lambda>n. ebind (section_int sec ''sh_entsize'') (py_floordiv n))"

definition entry_offset :: "elf_section \<Rightarrow> int \<Rightarrow> pyexc + int" where
  "entry_offset sec n = ebind (section_int sec ''sh_offset'') (\<lambda>offset.
     ebind (section_int sec ''sh_entsize'') (\<lambda>entsize. Inr (offset + n * entsize)))"

definition num_symbols :: "elf_section \<Rightarrow> pyexc + int" where
  "num_symbols sec = (case sec of SymbolTableSection h t s \<Rightarrow> entry_count sec | _ \<Rightarrow> Inl AttributeError)"

record elf_symbol =
  sy_entry :: container
  sy_name :: "string option"

definition symbol_getitem :: "elf_symbol \<Rightarrow> string \<Rightarrow> pyexc + pyval" where
  "symbol_getitem s name = container_getitem (sy_entry s) name"

definition get_symbol :: "nat \<Rightarrow> elf_structs \<Rightarrow> elf_section \<Rightarrow> int \<Rightarrow> (pystream, elf_symbol) st" where
  "get_symbol fuel S sec n = (case sec of
     SymbolTableSection h t strtab \<Rightarrow>
       sbind (slift (entry_offset sec n)) (\<lambda>offset.
       sbind (slift (Elf_Sym S)) (\<lambda>con. sbind (struct_parse fuel con (Some offset)) (\<lambda>v. sbind (slift (header_of v)) (\<lambda>entry.
       sbind (slift (header_int entry ''st_name'')) (\<lambda>st_name. sbind (get_string fuel strtab st_name) (\<lambda>name.
         sret \<lparr>sy_entry = entry, sy_name = name\<rparr>))))))
   | _ \<Rightarrow> sraise AttributeError)"

text \<open>A generator over \<open>range\<close>, run to its end.\<close>

fun smap :: "('i \<Rightarrow> ('s, 'a) st) \<Rightarrow> 'i list \<Rightarrow> ('s, 'a list) st" where
  "smap f [] = sret []"
| "smap f (i # is) = sbind (f i) (\<lambda>x. sbind (smap f is) (\<lambda>xs. sret (x # xs)))"

definition py_range :: "int \<Rightarrow> int list" where
  "py_range n = map int [0..<nat n]"

definition iter_symbols :: "nat \<Rightarrow> elf_structs \<Rightarrow> elf_section \<Rightarrow> (pystream, elf_symbol list) st" where
  "iter_symbols fuel S sec = sbind (slift (num_symbols sec)) (\<lambda>n. smap (get_symbol fuel S sec) (py_range n))"

subsection \<open>Segments\<close>

datatype elf_segment =
    Segment (ph_header: container)
  | InterpSegment (ph_header: container)

definition segment_getitem :: "elf_segment \<Rightarrow> string \<Rightarrow> pyexc + pyval" where
  "segment_getitem seg name = container_getitem (ph_header seg) name"

definition segment_int :: "elf_segment \<Rightarrow> string \<Rightarrow> pyexc + int" where
  "segment_int seg name = ebind (segment_getitem seg name) as_int"

definition segment_data :: "elf_segment \<Rightarrow> (pystream, string) st" where
  "segment_data seg = sbind (slift (segment_int seg ''p_offset'')) (\<lambda>offset. sbind (stream_seek offset 0) (\<lambda>_.
     sbind (slift (segment_int seg ''p_filesz'')) stream_read))"

definition get_interp_name :: "nat \<Rightarrow> elf_segment \<Rightarrow> (pystream, pyval) st" where
  "get_interp_name fuel seg = (case seg of
     InterpSegment h \<Rightarrow> sbind (slift (segment_int seg ''p_offset'')) (\<lambda>path_offset.
       struct_parse fuel (cstring_default (Some '''')) (Some path_offset))
   | Segment h \<Rightarrow> sraise AttributeError)"

definition SHF_ALLOC :: int where "SHF_ALLOC = 0x2"
definition SHF_TLS :: int where "SHF_TLS = 0x400"

definition one_of :: "pyval \<Rightarrow> string list \<Rightarrow> bool" where
  "one_of v names = list_ex (\<lambda>n. py_eq v (PStr n)) names"

text \<open>\<open>a and b\<close>, where \<open>b\<close> is evaluated only if needed.\<close>

definition e_and :: "pyexc + bool \<Rightarrow> pyexc + bool \<Rightarrow> pyexc + bool" where
  "e_and a b = ebind a (\<lambda>x. if x then b else Inr False)"

text \<open>The bounds check, which is the same on addresses and on offsets in the file.\<close>

definition in_bounds :: "int \<Rightarrow> int \<Rightarrow> pyexc + int \<Rightarrow> pyexc + int \<Rightarrow> pyexc + bool" where
  "in_bounds x base sh_size extent =
     e_and (Inr (x \<ge> base))
       (e_and (ebind sh_size (\<lambda>n. ebind extent (\<lambda>m. Inr (x - base + n \<le> m))))
              (ebind extent (\<lambda>m. Inr (x - base \<le> m - 1))))"

definition section_in_segment :: "elf_segment \<Rightarrow> elf_section \<Rightarrow> pyexc + bool" where
  "section_in_segment seg sec =
     ebind (segment_getitem seg ''p_type'') (\<lambda>segtype.
     ebind (section_getitem sec ''sh_type'') (\<lambda>sectype.
     ebind (section_int sec ''sh_flags'') (\<lambda>secflags.
       if secflags AND SHF_TLS \<noteq> 0 \<and> one_of segtype [''PT_TLS'', ''PT_GNU_RELR0'', ''PT_LOAD''] then Inr False
       else if secflags AND SHF_TLS \<noteq> 0 \<and> \<not> one_of segtype [''PT_TLS'', ''PT_PHDR''] then Inr False
       else
         ebind (if secflags AND SHF_ALLOC \<noteq> 0 then
                  ebind (section_int sec ''sh_addr'') (\<lambda>secaddr. ebind (segment_int seg ''p_vaddr'') (\<lambda>vaddr.
                    in_bounds secaddr vaddr (section_int sec ''sh_size'') (segment_int seg ''p_memsz'')))
                else Inr True) (\<lambda>ok.
           if \<not> ok then Inr False
           else if py_eq sectype (PStr ''SHT_NOBITS'') then Inr True
           else ebind (section_int sec ''sh_offset'') (\<lambda>secoffset. ebind (segment_int seg ''p_offset'') (\<lambda>poffset.
             in_bounds secoffset poffset (section_int sec ''sh_size'') (segment_int seg ''p_filesz'')))))))"

subsection \<open>The file\<close>

record elf_file =
  ef_stream :: pystream
  ef_elfclass :: int
  ef_little_endian :: bool
  ef_structs :: elf_structs
  ef_header :: container
  ef_ident_raw :: string
  ef_stringtable :: elf_section
  ef_name_map :: "(string option \<times> int) list option"

type_synonym 'a em = "(elf_file, 'a) st"

definition on_file :: "(elf_file \<Rightarrow> (pystream, 'a) st) \<Rightarrow> 'a em" where
  "on_file f = (\<lambda>E. case f E (ef_stream E) of (r, t) \<Rightarrow> (r, E\<lparr>ef_stream := t\<rparr>))"

definition elf_getitem :: "string \<Rightarrow> pyval em" where
  "elf_getitem name = (\<lambda>E. (container_getitem (ef_header E) name, E))"

definition elf_int :: "string \<Rightarrow> int em" where
  "elf_int name = sbind (elf_getitem name) (\<lambda>v. slift (as_int v))"

definition identify_file :: "(pystream, int \<times> bool) st" where
  "identify_file =
     sbind (stream_seek 0 0) (\<lambda>_. sbind (stream_read 4) (\<lambda>magic.
     sbind (slift (elf_assert (magic = [CHR 0x7F, CHR ''E'', CHR ''L'', CHR ''F'']))) (\<lambda>_.
     sbind (stream_read 1) (\<lambda>ei_class.
     sbind (if ei_class = [CHR 0x01] then sret 32 else if ei_class = [CHR 0x02] then sret 64 else sraise ELFError) (\<lambda>elfclass.
     sbind (stream_read 1) (\<lambda>ei_data.
     sbind (if ei_data = [CHR 0x01] then sret True else if ei_data = [CHR 0x02] then sret False else sraise ELFError) (\<lambda>little_endian.
       sret (elfclass, little_endian))))))))"

definition parse_elf_header :: "nat \<Rightarrow> elf_structs \<Rightarrow> (pystream, container) st" where
  "parse_elf_header fuel S = sbind (struct_parse fuel (Elf_Ehdr S) (Some 0)) (\<lambda>v. slift (header_of v))"

definition section_offset :: "container \<Rightarrow> int \<Rightarrow> pyexc + int" where
  "section_offset header n = ebind (header_int header ''e_shoff'') (\<lambda>off. ebind (header_int header ''e_shentsize'') (\<lambda>k. Inr (off + n * k)))"

definition segment_offset :: "container \<Rightarrow> int \<Rightarrow> pyexc + int" where
  "segment_offset header n = ebind (header_int header ''e_phoff'') (\<lambda>off. ebind (header_int header ''e_phentsize'') (\<lambda>k. Inr (off + n * k)))"

definition get_section_header :: "nat \<Rightarrow> elf_structs \<Rightarrow> container \<Rightarrow> int \<Rightarrow> (pystream, container) st" where
  "get_section_header fuel S header n = sbind (slift (section_offset header n)) (\<lambda>off.
     sbind (struct_parse fuel (Elf_Shdr S) (Some off)) (\<lambda>v. slift (header_of v)))"

definition get_segment_header :: "nat \<Rightarrow> elf_structs \<Rightarrow> container \<Rightarrow> int \<Rightarrow> (pystream, container) st" where
  "get_segment_header fuel S header n = sbind (slift (segment_offset header n)) (\<lambda>off.
     sbind (struct_parse fuel (Elf_Phdr S) (Some off)) (\<lambda>v. slift (header_of v)))"

definition get_file_stringtable :: "nat \<Rightarrow> elf_structs \<Rightarrow> container \<Rightarrow> (pystream, elf_section) st" where
  "get_file_stringtable fuel S header = sbind (slift (header_int header ''e_shstrndx'')) (\<lambda>n.
     sbind (get_section_header fuel S header n) (\<lambda>h. sret (StringTableSection h (Some ''''))))"

definition ELFFile :: "nat \<Rightarrow> (pystream, elf_file) st" where
  "ELFFile fuel =
     sbind identify_file (\<lambda>(elfclass, little_endian). sbind (slift (ELFStructs little_endian elfclass)) (\<lambda>S.
     sbind (parse_elf_header fuel S) (\<lambda>header. sbind (stream_seek 0 0) (\<lambda>_. sbind (stream_read 16) (\<lambda>raw.
     sbind (get_file_stringtable fuel S header) (\<lambda>strtab. (\<lambda>t. (Inr
       \<lparr>ef_stream = t, ef_elfclass = elfclass, ef_little_endian = little_endian, ef_structs = S, ef_header = header,
        ef_ident_raw = raw, ef_stringtable = strtab, ef_name_map = None\<rparr>, t))))))))"

definition num_sections :: "int em" where
  "num_sections = elf_int ''e_shnum''"

definition num_segments :: "int em" where
  "num_segments = elf_int ''e_phnum''"

definition get_machine_arch :: "elf_file \<Rightarrow> pyexc + string" where
  "get_machine_arch E = ebind (container_getitem (ef_header E) ''e_machine'') (\<lambda>m.
     if py_eq m (PStr ''EM_X86_64'') then Inr ''x64''
     else if one_of m [''EM_386'', ''EM_486''] then Inr ''x86'' else Inr ''<unknown>'')"

subsection \<open>Making sections\<close>

definition get_section_name :: "nat \<Rightarrow> container \<Rightarrow> string option em" where
  "get_section_name fuel h = sbind (slift (header_int h ''sh_name'')) (\<lambda>name_offset.
     on_file (\<lambda>E. get_string fuel (ef_stringtable E) name_offset))"

definition new_RelocationSection :: "elf_structs \<Rightarrow> container \<Rightarrow> string option \<Rightarrow> pyexc + elf_section" where
  "new_RelocationSection S header name =
     ebind (container_getitem header ''sh_type'') (\<lambda>sectype.
     ebind (if py_eq sectype (PStr ''SHT_REL'') then ebind (sizeof (Elf_Rel S) new_ctx) (\<lambda>n. Inr (n, Elf_Rel S))
            else if py_eq sectype (PStr ''SHT_RELA'') then ebind (sizeof (Elf_Rela S) new_ctx) (\<lambda>n. Inr (n, Elf_Rela S))
            else Inl ELFError) (\<lambda>(expected_size, entry_struct).
     ebind (container_getitem header ''sh_entsize'') (\<lambda>entsize. ebind (elf_assert (py_eq entsize (PInt expected_size))) (\<lambda>_.
       Inr (RelocationSection header name entry_struct)))))"

text \<open>\<open>get\<close> is \<open>get_section\<close>, for the string table of a symbol table.\<close>

definition make_section :: "nat \<Rightarrow> (int \<Rightarrow> elf_section em) \<Rightarrow> container \<Rightarrow> elf_section em" where
  "make_section fuel get h =
     sbind (get_section_name fuel h) (\<lambda>name. sbind (slift (container_getitem h ''sh_type'')) (\<lambda>sectype.
       if py_eq sectype (PStr ''SHT_STRTAB'') then sret (StringTableSection h name)
       else if py_eq sectype (PStr ''SHT_NULL'') then sret (NullSection h name)
       else if one_of sectype [''SHT_SYMTAB'', ''SHT_DYNSYM''] then
         sbind (slift (header_int h ''sh_link'')) (\<lambda>link. sbind (get link) (\<lambda>strtab. slift (new_SymbolTableSection h name strtab)))
       else if one_of sectype [''SHT_REL'', ''SHT_RELA''] then (\<lambda>E. (new_RelocationSection (ef_structs E) h name, E))
       else sret (Section h name)))"

fun get_section :: "nat \<Rightarrow> nat \<Rightarrow> int \<Rightarrow> elf_section em" where
  "get_section 0 fuel n = sraise NoFuel"
| "get_section (Suc k) fuel n = sbind (on_file (\<lambda>E. get_section_header fuel (ef_structs E) (ef_header E) n)) (make_section fuel (get_section k fuel))"

definition iter_sections :: "nat \<Rightarrow> nat \<Rightarrow> elf_section list em" where
  "iter_sections k fuel = sbind num_sections (\<lambda>n. smap (get_section k fuel) (py_range n))"

text \<open>
  The map from names to numbers is stored in the file before it is complete: after an exception it
  keeps the entries made so far.
\<close>

definition add_section_name :: "nat \<Rightarrow> nat \<Rightarrow> int \<Rightarrow> unit em" where
  "add_section_name k fuel i = sbind (get_section k fuel i) (\<lambda>sec E.
     (Inr (), E\<lparr>ef_name_map := Some (dict_set (sh_title sec) i (the (ef_name_map E)))\<rparr>))"

definition get_section_by_name :: "nat \<Rightarrow> nat \<Rightarrow> string \<Rightarrow> elf_section option em" where
  "get_section_by_name k fuel name = (\<lambda>E.
     sbind (if ef_name_map E = None then
              sbind (\<lambda>E. (Inr (), E\<lparr>ef_name_map := Some []\<rparr>)) (\<lambda>_. sbind num_sections (\<lambda>n.
              sbind (smap (add_section_name k fuel) (py_range n)) (\<lambda>_. sret ())))
            else sret ()) (\<lambda>_ E'.
       case map_of (the (ef_name_map E')) (Some name) of
         None \<Rightarrow> (Inr None, E')
       | Some secnum \<Rightarrow> sbind (get_section k fuel secnum) (\<lambda>sec. sret (Some sec)) E') E)"

definition has_dwarf_info :: "nat \<Rightarrow> nat \<Rightarrow> bool em" where
  "has_dwarf_info k fuel = sbind (get_section_by_name k fuel ''.debug_info'') (\<lambda>sec. sret (sec \<noteq> None))"

definition make_segment :: "container \<Rightarrow> pyexc + elf_segment" where
  "make_segment h = ebind (container_getitem h ''p_type'') (\<lambda>segtype.
     if py_eq segtype (PStr ''PT_INTERP'') then Inr (InterpSegment h) else Inr (Segment h))"

definition get_segment :: "nat \<Rightarrow> int \<Rightarrow> elf_segment em" where
  "get_segment fuel n = sbind (on_file (\<lambda>E. get_segment_header fuel (ef_structs E) (ef_header E) n)) (\<lambda>h. slift (make_segment h))"

definition iter_segments :: "nat \<Rightarrow> elf_segment list em" where
  "iter_segments fuel = sbind num_segments (\<lambda>n. smap (get_segment fuel) (py_range n))"

subsection \<open>Relocations\<close>

type_synonym relocation = container

definition reloc_is_RELA :: "relocation \<Rightarrow> bool" where
  "reloc_is_RELA reloc = container_contains reloc ''r_addend''"

definition reloc_getitem :: "relocation \<Rightarrow> string \<Rightarrow> pyexc + pyval" where
  "reloc_getitem reloc name = container_getitem reloc name"

definition reloc_int :: "relocation \<Rightarrow> string \<Rightarrow> pyexc + int" where
  "reloc_int reloc name = ebind (reloc_getitem reloc name) as_int"

definition is_RELA :: "elf_section \<Rightarrow> pyexc + bool" where
  "is_RELA sec = (case sec of
     RelocationSection h t c \<Rightarrow> ebind (section_getitem sec ''sh_type'') (\<lambda>v. Inr (py_eq v (PStr ''SHT_RELA'')))
   | _ \<Rightarrow> Inl AttributeError)"

definition num_relocations :: "elf_section \<Rightarrow> pyexc + int" where
  "num_relocations sec = (case sec of RelocationSection h t c \<Rightarrow> entry_count sec | _ \<Rightarrow> Inl AttributeError)"

definition get_relocation :: "nat \<Rightarrow> elf_section \<Rightarrow> int \<Rightarrow> (pystream, relocation) st" where
  "get_relocation fuel sec n = (case sec of
     RelocationSection h t c \<Rightarrow> sbind (slift (entry_offset sec n)) (\<lambda>offset.
       sbind (struct_parse fuel c (Some offset)) (\<lambda>v. slift (header_of v)))
   | _ \<Rightarrow> sraise AttributeError)"

definition iter_relocations :: "nat \<Rightarrow> elf_section \<Rightarrow> (pystream, relocation list) st" where
  "iter_relocations fuel sec = sbind (slift (num_relocations sec)) (\<lambda>n. smap (get_relocation fuel sec) (py_range n))"

text \<open>The search stops at the first section that fits.\<close>

fun find_relocations_loop :: "nat \<Rightarrow> nat \<Rightarrow> string list \<Rightarrow> int list \<Rightarrow> elf_section option em" where
  "find_relocations_loop k fuel names [] = sret None"
| "find_relocations_loop k fuel names (i # is) =
     sbind (get_section k fuel i) (\<lambda>sec.
       if is_RelocationSection sec \<and> sh_title sec \<in> Some ` set names then sret (Some sec)
       else find_relocations_loop k fuel names is)"

definition find_relocations_for_section :: "nat \<Rightarrow> nat \<Rightarrow> elf_section \<Rightarrow> elf_section option em" where
  "find_relocations_for_section k fuel sec = (case sh_title sec of
     None \<Rightarrow> sraise TypeError
   | Some name \<Rightarrow> sbind num_sections (\<lambda>n. find_relocations_loop k fuel [''.rel'' @ name, ''.rela'' @ name] (py_range n)))"

record reloc_recipe =
  rc_bytesize :: int
  rc_has_addend :: bool
  rc_calc_func :: "int \<Rightarrow> int \<Rightarrow> int \<Rightarrow> int \<Rightarrow> int"

definition reloc_calc_identity :: "int \<Rightarrow> int \<Rightarrow> int \<Rightarrow> int \<Rightarrow> int" where
  "reloc_calc_identity val sym_value offset addend = val"

definition reloc_calc_sym_plus_value :: "int \<Rightarrow> int \<Rightarrow> int \<Rightarrow> int \<Rightarrow> int" where
  "reloc_calc_sym_plus_value val sym_value offset addend = sym_value + val"

definition reloc_calc_sym_plus_value_pcrel :: "int \<Rightarrow> int \<Rightarrow> int \<Rightarrow> int \<Rightarrow> int" where
  "reloc_calc_sym_plus_value_pcrel val sym_value offset addend = sym_value + val - offset"

definition reloc_calc_sym_plus_addend :: "int \<Rightarrow> int \<Rightarrow> int \<Rightarrow> int \<Rightarrow> int" where
  "reloc_calc_sym_plus_addend val sym_value offset addend = sym_value + addend"

abbreviation reloc_number :: "enum_map \<Rightarrow> string \<Rightarrow> int" where
  "reloc_number kw name \<equiv> the (map_of (fst kw) name)"

definition RELOCATION_RECIPES_X86 :: "(int \<times> reloc_recipe) list" where
  "RELOCATION_RECIPES_X86 =
     [(reloc_number ENUM_RELOC_TYPE_i386 ''R_386_NONE'',
         \<lparr>rc_bytesize = 4, rc_has_addend = False, rc_calc_func = reloc_calc_identity\<rparr>),
      (reloc_number ENUM_RELOC_TYPE_i386 ''R_386_32'',
         \<lparr>rc_bytesize = 4, rc_has_addend = False, rc_calc_func = reloc_calc_sym_plus_value\<rparr>),
      (reloc_number ENUM_RELOC_TYPE_i386 ''R_386_PC32'',
         \<lparr>rc_bytesize = 4, rc_has_addend = False, rc_calc_func = reloc_calc_sym_plus_value_pcrel\<rparr>)]"

definition RELOCATION_RECIPES_X64 :: "(int \<times> reloc_recipe) list" where
  "RELOCATION_RECIPES_X64 =
     [(reloc_number ENUM_RELOC_TYPE_x64 ''R_X86_64_NONE'',
         \<lparr>rc_bytesize = 8, rc_has_addend = True, rc_calc_func = reloc_calc_identity\<rparr>),
      (reloc_number ENUM_RELOC_TYPE_x64 ''R_X86_64_64'',
         \<lparr>rc_bytesize = 8, rc_has_addend = True, rc_calc_func = reloc_calc_sym_plus_addend\<rparr>),
      (reloc_number ENUM_RELOC_TYPE_x64 ''R_X86_64_32'',
         \<lparr>rc_bytesize = 4, rc_has_addend = True, rc_calc_func = reloc_calc_sym_plus_addend\<rparr>),
      (reloc_number ENUM_RELOC_TYPE_x64 ''R_X86_64_32S'',
         \<lparr>rc_bytesize = 4, rc_has_addend = True, rc_calc_func = reloc_calc_sym_plus_addend\<rparr>)]"

text \<open>The recipe of a relocation; an architecture that is not known has none.\<close>

definition find_recipe :: "string \<Rightarrow> relocation \<Rightarrow> pyexc + reloc_recipe" where
  "find_recipe arch reloc = ebind (reloc_int reloc ''r_info_type'') (\<lambda>reloc_type.
     ebind (if arch = ''x86'' then
              (if reloc_is_RELA reloc then Inl ELFRelocationError else Inr (map_of RELOCATION_RECIPES_X86 reloc_type))
            else if arch = ''x64'' then
              (if \<not> reloc_is_RELA reloc then Inl ELFRelocationError else Inr (map_of RELOCATION_RECIPES_X64 reloc_type))
            else Inr None) (\<lambda>recipe.
       case recipe of None \<Rightarrow> Inl ELFRelocationError | Some r \<Rightarrow> Inr r))"

text \<open>The message for another size names a variable that does not exist.\<close>

definition value_struct :: "elf_structs \<Rightarrow> reloc_recipe \<Rightarrow> pyexc + construct" where
  "value_struct S recipe =
     (if rc_bytesize recipe = 4 then Inr (Elf_word S (Some ''''))
      else if rc_bytesize recipe = 8 then Inr (Elf_word64 S (Some '''')) else Inl NameError)"

text \<open>Relocating acts on the file and on the stream with the data of the section.\<close>

type_synonym 'a rm = "(elf_file \<times> pystream, 'a) st"

definition on_elf :: "'a em \<Rightarrow> 'a rm" where
  "on_elf m = (\<lambda>(E, t). case m E of (r, E') \<Rightarrow> (r, (E', t)))"

definition on_data :: "(pystream, 'a) st \<Rightarrow> 'a rm" where
  "on_data m = (\<lambda>(E, t). case m t of (r, t') \<Rightarrow> (r, (E, t')))"

definition do_apply_relocation :: "nat \<Rightarrow> relocation \<Rightarrow> elf_section \<Rightarrow> unit rm" where
  "do_apply_relocation fuel reloc symtab =
     sbind (slift (reloc_int reloc ''r_info_sym'')) (\<lambda>symbol.
     sbind (slift (num_symbols symtab)) (\<lambda>n.
     if n \<le> symbol then sraise ELFRelocationError
     else
       sbind (on_elf (on_file (\<lambda>E. get_symbol fuel (ef_structs E) symtab symbol))) (\<lambda>s.
       sbind (slift (ebind (symbol_getitem s ''st_value'') as_int)) (\<lambda>sym_value.
       sbind (on_elf (\<lambda>E. (get_machine_arch E, E))) (\<lambda>arch.
       sbind (slift (find_recipe arch reloc)) (\<lambda>recipe.
       sbind (on_elf (\<lambda>E. (value_struct (ef_structs E) recipe, E))) (\<lambda>con.
       sbind (slift (reloc_int reloc ''r_offset'')) (\<lambda>offset.
       sbind (on_data (sbind (struct_parse fuel con (Some offset)) (\<lambda>v. slift (as_int v)))) (\<lambda>original_value.
       sbind (slift (if rc_has_addend recipe then reloc_int reloc ''r_addend'' else Inr 0)) (\<lambda>addend.
       let relocated_value = rc_calc_func recipe original_value sym_value offset addend in
       sbind (on_data (stream_seek offset 0)) (\<lambda>_.
         on_data (build_stream fuel con (PInt relocated_value)))))))))))))"

text \<open>The generator of the relocations and their application alternate.\<close>

fun apply_loop :: "nat \<Rightarrow> elf_section \<Rightarrow> elf_section \<Rightarrow> int list \<Rightarrow> unit rm" where
  "apply_loop fuel reloc_section symtab [] = sret ()"
| "apply_loop fuel reloc_section symtab (i # is) =
     sbind (on_elf (on_file (\<lambda>E. get_relocation fuel reloc_section i))) (\<lambda>reloc.
     sbind (do_apply_relocation fuel reloc symtab) (\<lambda>_. apply_loop fuel reloc_section symtab is))"

definition apply_section_relocations :: "nat \<Rightarrow> nat \<Rightarrow> elf_section \<Rightarrow> unit rm" where
  "apply_section_relocations k fuel reloc_section =
     sbind (slift (section_int reloc_section ''sh_link'')) (\<lambda>link.
     sbind (on_elf (get_section k fuel link)) (\<lambda>symtab.
     sbind (slift (num_relocations reloc_section)) (\<lambda>n. apply_loop fuel reloc_section symtab (py_range n))))"

subsection \<open>The DWARF sections\<close>

definition read_dwarf_section :: "nat \<Rightarrow> nat \<Rightarrow> bool \<Rightarrow> elf_section \<Rightarrow> debug_section em" where
  "read_dwarf_section k fuel relocate sec =
     sbind (on_file (\<lambda>E. section_data sec)) (\<lambda>contents.
     sbind (if relocate then
              sbind (find_relocations_for_section k fuel sec) (\<lambda>r. case r of
                None \<Rightarrow> sret (BytesIO contents (length contents))
              | Some reloc_section \<Rightarrow> (\<lambda>E. case apply_section_relocations k fuel reloc_section (E, BytesIO contents (length contents)) of
                  (Inl e, (E', t)) \<Rightarrow> (Inl e, E')
                | (Inr _, (E', t)) \<Rightarrow> (Inr t, E')))
            else sret (BytesIO contents (length contents))) (\<lambda>t.
     sbind (slift (section_int sec ''sh_offset'')) (\<lambda>offset. sbind (slift (section_int sec ''sh_size'')) (\<lambda>n.
       sret \<lparr>sec_stream = t, sec_name = sh_title sec, sec_global_offset = offset, sec_size = n\<rparr>))))"

definition dwarf_section_named :: "nat \<Rightarrow> nat \<Rightarrow> bool \<Rightarrow> string \<Rightarrow> debug_section option em" where
  "dwarf_section_named k fuel relocate secname = sbind (get_section_by_name k fuel secname) (\<lambda>sec. case sec of
     None \<Rightarrow> sret None
   | Some s \<Rightarrow> sbind (read_dwarf_section k fuel relocate s) (\<lambda>d. sret (Some d)))"

definition get_dwarf_info :: "nat \<Rightarrow> nat \<Rightarrow> bool \<Rightarrow> dwarf_info em" where
  "get_dwarf_info k fuel relocate =
     sbind (dwarf_section_named k fuel relocate ''.debug_info'') (\<lambda>info.
     sbind (dwarf_section_named k fuel relocate ''.debug_abbrev'') (\<lambda>abbrev.
     sbind (dwarf_section_named k fuel relocate ''.debug_str'') (\<lambda>str.
     sbind (dwarf_section_named k fuel relocate ''.debug_line'') (\<lambda>line.
     sbind (dwarf_section_named k fuel relocate ''.debug_frame'') (\<lambda>frame.
     sbind (dwarf_section_named k fuel relocate ''.debug_loc'') (\<lambda>loc.
     sbind (dwarf_section_named k fuel relocate ''.debug_ranges'') (\<lambda>ranges.
     (\<lambda>E. (ebind (get_machine_arch E) (\<lambda>arch.
        DWARFInfo (ef_little_endian E) arch (ef_elfclass E div 8) info abbrev frame str loc ranges line), E)))))))))"

end
