(* ===== verification/ElfImage.thy ===== *)
theory ElfImage
  imports ElfFiles
begin

section \<open>Reading the sections of an ELF file\<close>

text \<open>
  Reading an ELF file only moves the position of its stream. \<open>finds at m r\<close>: in the states \<open>at q\<close>,
  which differ in the position \<open>q\<close> only, \<open>m\<close> has the outcome \<open>r\<close>, a value or an exception, and
  leaves such a state. It is kept by \<open>sbind\<close>.
\<close>

definition finds :: "(nat \<Rightarrow> 's) \<Rightarrow> ('s, 'a) st \<Rightarrow> pyexc + 'a \<Rightarrow> bool" where
  "finds at m r = (\<forall>q. \<exists>q'. m (at q) = (r, at q'))"

named_theorems finds_intros \<open>introduction rules for \<open>finds\<close>\<close>

lemma findsD: "finds at m r \<Longrightarrow> \<exists>q'. m (at q) = (r, at q')"
  by (simp add: finds_def)

lemma finds_prims [finds_intros]:
  "finds at (sret x) (Inr x)" "finds at (Pair (Inr x)) (Inr x)" "finds at (sraise e) (Inl e)" "finds at (slift r) r"
  by (auto simp: finds_def)

lemma finds_bind [finds_intros]:
  assumes "finds at m (Inr x)" "finds at (f x) s"
  shows "finds at (sbind m f) s"
  unfolding finds_def
proof
  fix q
  obtain q1 where "m (at q) = (Inr x, at q1)" using assms(1) by (auto simp: finds_def)
  then show "\<exists>q'. sbind m f (at q) = (s, at q')" using assms(2) by (simp add: finds_def)
qed

lemma finds_raise: "finds at m (Inl e) \<Longrightarrow> finds at (sbind m f) (Inl e)"
  unfolding finds_def by (metis sbind_Inl)

lemma finds_any: "finds at m r \<Longrightarrow> (\<And>x. r = Inr x \<Longrightarrow> finds at (f x) (g x)) \<Longrightarrow> finds at (sbind m f) (ebind r g)"
  by (cases r) (auto intro: finds_bind finds_raise)

lemma finds_smap: "list_all2 (\<lambda>i x. finds at (f i) (Inr x)) is xs \<Longrightarrow> finds at (smap f is) (Inr xs)"
  by (induction rule: list_all2_induct) (auto intro!: finds_intros simp del: sret_apply)

text \<open>The stream itself, and a file over it.\<close>

abbreviation opened :: "elf_file \<Rightarrow> string \<Rightarrow> nat \<Rightarrow> elf_file" where
  "opened E d q \<equiv> E\<lparr>ef_stream := BytesIO d q\<rparr>"

lemma finds_file:
  assumes "\<And>q. finds (BytesIO d) (f (opened E d q)) r"
  shows "finds (opened E d) (on_file f) r"
  unfolding finds_def
proof
  fix q
  obtain q' where "f (opened E d q) (BytesIO d q) = (r, BytesIO d q')" using findsD [OF assms, of q q] by blast
  then show "\<exists>q'. on_file f (opened E d q) = (r, opened E d q')" by (auto simp: on_file_def)
qed

lemma finds_seek [finds_intros]: "0 \<le> p \<Longrightarrow> finds (BytesIO d) (stream_seek p 0) (Inr ())"
  by (auto simp: finds_def Let_def)

lemma finds_pure: "(\<And>q. f (opened E d q) = r) \<Longrightarrow> finds (opened E d) (\<lambda>E. (f E, E)) r"
  by (auto simp: finds_def)

text \<open>The bytes at a position.\<close>

definition holds_at :: "string \<Rightarrow> int \<Rightarrow> decoding \<Rightarrow> pyval \<Rightarrow> bool" where
  "holds_at d p dec v = (\<exists>b r. 0 \<le> p \<and> nat p \<le> length d \<and> drop (nat p) d = b @ r \<and> dec [] b v)"

lemma finds_parse:
  assumes "decoder c dec" "holds_at d p dec v" "length d < fuel"
  shows "finds (BytesIO d) (struct_parse fuel c (Some p)) (Inr v)"
proof -
  obtain b r where "0 \<le> p" "nat p \<le> length d" "drop (nat p) d = b @ r" "dec [] b v" using assms(2) by (auto simp: holds_at_def)
  then show ?thesis using decoder.parse_at(1) [OF assms(1), of b v "nat p" d r fuel] assms(3) by (auto simp: finds_def)
qed

definition cstring_at :: "string \<Rightarrow> int \<Rightarrow> string option" where
  "cstring_at d p = (if CHR 0x00 \<in> set (drop (nat p) d) then Some (takeWhile (\<lambda>c. c \<noteq> CHR 0x00) (drop (nat p) d)) else None)"

lemma finds_cstring: "0 \<le> p \<Longrightarrow> length d < fuel \<Longrightarrow> finds (BytesIO d) (parse_cstring_from_stream fuel (Some p)) (Inr (cstring_at d p))"
  using cstring_stream [of p d fuel] by (auto simp: finds_def cstring_at_def)

subsection \<open>Section headers\<close>

lemma unsigned_enc: "int_enc e f v = Some b \<Longrightarrow> \<not> fmt_signed f \<Longrightarrow> \<exists>i. v = PInt i \<and> 0 \<le> i"
  by (auto simp: int_enc_def pack_def fmt_min_def split: pyval.splits sum.splits if_splits)

lemma unsigned_formats [simp]: "\<not> fmt_signed Fmt_L" "\<not> fmt_signed Fmt_H" "\<not> fmt_signed (addr_format S)"
  by (simp_all add: fmt_signed_def addr_format_def)

abbreviation layout_dec :: "layout \<Rightarrow> decoding" where
  "layout_dec l \<equiv> \<lambda>vars b v. layout_enc l v = Some b"

lemma elf_decoders:
  "decoder (Elf_Ehdr S) (layout_dec (ehdr_layout S))" "decoder (Elf_Shdr S) (layout_dec (shdr_layout S))"
  "decoder (Elf_Phdr S) (layout_dec (phdr_layout S))"
  unfolding elf_layouts by (intro decoder_codec codec_layout elf_layouts_wf)+

lemma layouts_enc_lookup:
  "layouts_enc ls kvs = Some b \<Longrightarrow> (Some n, l) \<in> set ls \<Longrightarrow> distinct (map fst ls) \<Longrightarrow>
    \<exists>v x. map_of kvs n = Some v \<and> layout_enc l v = Some x"
proof (induction ls arbitrary: kvs b)
  case (Cons m ls)
  obtain name l' where m: "m = (name, l')" by (cases m)
  show ?case
  proof (cases name)
    case None
    then show ?thesis using Cons m by (auto split: option.splits)
  next
    case (Some k)
    obtain v kvs' x y where e: "kvs = (k, v) # kvs'" "layout_enc l' v = Some x" "layouts_enc ls kvs' = Some y"
      using Cons.prems(1) by (auto simp: m Some split: list.splits option.splits if_splits)
    show ?thesis
    proof (cases "k = n")
      case True
      then have "(Some n, l) \<notin> set ls" using Cons.prems(3) by (force simp: m Some)
      then have "l = l'" using Cons.prems(2) by (auto simp: m Some)
      then show ?thesis using e True by simp
    next
      case False
      then show ?thesis using Cons.IH [OF e(3)] Cons.prems(2,3) e(1) by (auto simp: m Some)
    qed
  qed
qed simp

text \<open>The names of the fields that hold unsigned numbers.\<close>

fun unsigned_fields :: "(string option \<times> layout) list \<Rightarrow> string list" where
  "unsigned_fields [] = []"
| "unsigned_fields ((Some n, IntL e f) # ls) = (if fmt_signed f then unsigned_fields ls else n # unsigned_fields ls)"
| "unsigned_fields (m # ls) = unsigned_fields ls"

lemma unsigned_fields_in: "n \<in> set (unsigned_fields ls) \<Longrightarrow> \<exists>e f. (Some n, IntL e f) \<in> set ls \<and> \<not> fmt_signed f"
  by (induction ls rule: unsigned_fields.induct) (auto split: if_splits)

text \<open>A number in a header.\<close>

definition hdr :: "container \<Rightarrow> string \<Rightarrow> int" where
  "hdr h n = (case header_int h n of Inr i \<Rightarrow> i | Inl e \<Rightarrow> 0)"

lemma struct_int:
  assumes "layout_enc (StructL ls) (PObj h) = Some b" "distinct (map fst ls)" "n \<in> set (unsigned_fields ls)"
  shows "header_int h n = Inr (hdr h n) \<and> 0 \<le> hdr h n"
proof -
  obtain e f where f: "(Some n, IntL e f) \<in> set ls" "\<not> fmt_signed f" using unsigned_fields_in [OF assms(3)] by blast
  have "layouts_enc ls h = Some b" using assms(1) by simp
  from layouts_enc_lookup [OF this f(1) assms(2)] obtain v x where v: "map_of h n = Some v" "int_enc e f v = Some x" by auto
  then obtain i where "v = PInt i" "0 \<le> i" using unsigned_enc [OF _ f(2)] by blast
  with v show ?thesis by (simp add: header_int_def hdr_def container_getitem_def dict_get_def as_int_def)
qed

lemma shdr_int:
  assumes "layout_enc (shdr_layout S) (PObj h) = Some b"
  shows "list_all (\<lambda>n. header_int h n = Inr (hdr h n) \<and> 0 \<le> hdr h n)
    [''sh_name'', ''sh_flags'', ''sh_addr'', ''sh_offset'', ''sh_size'', ''sh_link'', ''sh_info'', ''sh_addralign'', ''sh_entsize'']"
proof -
  obtain ls where ls: "shdr_layout S = StructL ls" "distinct (map fst ls)" "unsigned_fields ls =
    [''sh_name'', ''sh_flags'', ''sh_addr'', ''sh_offset'', ''sh_size'', ''sh_link'', ''sh_info'', ''sh_addralign'', ''sh_entsize'']"
    by (auto simp: shdr_layout_def Let_def)
  show ?thesis unfolding ls(3) [symmetric] list_all_iff using struct_int [OF assms [unfolded ls(1)] ls(2)] by blast
qed

lemma ehdr_int:
  assumes "layout_enc (ehdr_layout S) (PObj h) = Some b"
  shows "list_all (\<lambda>n. header_int h n = Inr (hdr h n) \<and> 0 \<le> hdr h n)
    [''e_entry'', ''e_phoff'', ''e_shoff'', ''e_flags'', ''e_ehsize'', ''e_phentsize'', ''e_phnum'', ''e_shentsize'', ''e_shnum'', ''e_shstrndx'']"
proof -
  obtain ls where ls: "ehdr_layout S = StructL ls" "distinct (map fst ls)" "unsigned_fields ls =
    [''e_entry'', ''e_phoff'', ''e_shoff'', ''e_flags'', ''e_ehsize'', ''e_phentsize'', ''e_phnum'', ''e_shentsize'', ''e_shnum'', ''e_shstrndx'']"
    by (auto simp: ehdr_layout_def Let_def)
  show ?thesis unfolding ls(3) [symmetric] list_all_iff using struct_int [OF assms [unfolded ls(1)] ls(2)] by blast
qed

lemma shdr_type:
  assumes "layout_enc (shdr_layout S) (PObj h) = Some b"
  shows "\<exists>t. container_getitem h ''sh_type'' = Inr t"
proof -
  obtain ls e f kw where ls: "shdr_layout S = StructL ls" "distinct (map fst ls)" "(Some ''sh_type'', EnumL e f kw) \<in> set ls"
    by (auto simp: shdr_layout_def Let_def)
  have "layouts_enc ls h = Some b" using assms ls(1) by simp
  from layouts_enc_lookup [OF this ls(3,2)] have "map_of h ''sh_type'' \<noteq> None" by auto
  then show ?thesis by (auto simp: container_getitem_def dict_get_def)
qed

subsection \<open>The image of a file and what its sections are\<close>

definition ident_bytes :: "elf_structs \<Rightarrow> string" where
  "ident_bytes S = [CHR 0x7F, CHR ''E'', CHR ''L'', CHR ''F'', if es_elfclass S = 32 then CHR 0x01 else CHR 0x02,
     if es_little_endian S then CHR 0x01 else CHR 0x02]"

definition elf_image :: "string \<Rightarrow> elf_structs \<Rightarrow> container \<Rightarrow> container list \<Rightarrow> bool" where
  "elf_image d S eh shs = (es_elfclass S \<in> {32, 64} \<and> take 6 d = ident_bytes S \<and> holds_at d 0 (layout_dec (ehdr_layout S)) (PObj eh) \<and>
     hdr eh ''e_shnum'' = int (length shs) \<and> hdr eh ''e_shstrndx'' < int (length shs) \<and>
     (\<forall>i<length shs. holds_at d (hdr eh ''e_shoff'' + int i * hdr eh ''e_shentsize'') (layout_dec (shdr_layout S)) (PObj (shs ! i))))"

text \<open>The file that is open on an image.\<close>

definition is_open :: "string \<Rightarrow> elf_structs \<Rightarrow> container \<Rightarrow> container list \<Rightarrow> elf_file \<Rightarrow> bool" where
  "is_open d S eh shs E = (ef_structs E = S \<and> ef_header E = eh \<and>
     ef_stringtable E = StringTableSection (shs ! nat (hdr eh ''e_shstrndx'')) (Some ''''))"

lemma image_ehdr:
  assumes "elf_image d S eh shs"
  shows "list_all (\<lambda>n. header_int eh n = Inr (hdr eh n) \<and> 0 \<le> hdr eh n)
    [''e_entry'', ''e_phoff'', ''e_shoff'', ''e_flags'', ''e_ehsize'', ''e_phentsize'', ''e_phnum'', ''e_shentsize'', ''e_shnum'', ''e_shstrndx'']"
  using assms ehdr_int [of S eh] by (auto simp only: elf_image_def holds_at_def)

lemma image_shdr:
  assumes "elf_image d S eh shs" "i < length shs"
  obtains b where "layout_enc (shdr_layout S) (PObj (shs ! i)) = Some b"
  using assms by (auto simp: elf_image_def holds_at_def)

lemma finds_header:
  assumes "elf_image d S eh shs" "i < length shs" "length d < fuel"
  shows "finds (BytesIO d) (get_section_header fuel S eh (int i)) (Inr (shs ! i))"
proof -
  have o: "section_offset eh (int i) = Inr (hdr eh ''e_shoff'' + int i * hdr eh ''e_shentsize'')"
    using image_ehdr [OF assms(1)] by (simp add: section_offset_def)
  have "holds_at d (hdr eh ''e_shoff'' + int i * hdr eh ''e_shentsize'') (layout_dec (shdr_layout S)) (PObj (shs ! i))"
    using assms(1,2) by (simp add: elf_image_def)
  note p = finds_parse [OF elf_decoders(2) this assms(3)]
  show ?thesis unfolding get_section_header_def o
    by (rule finds_bind, rule finds_prims(4), rule finds_bind, rule p) (simp add: header_of_def finds_prims)
qed

definition title :: "string \<Rightarrow> container \<Rightarrow> container list \<Rightarrow> container \<Rightarrow> string option" where
  "title d eh shs h = cstring_at d (hdr (shs ! nat (hdr eh ''e_shstrndx'')) ''sh_offset'' + hdr h ''sh_name'')"

lemma finds_name:
  assumes "elf_image d S eh shs" "is_open d S eh shs E" "i < length shs" "length d < fuel"
  shows "finds (opened E d) (get_section_name fuel (shs ! i)) (Inr (title d eh shs (shs ! i)))"
proof -
  let ?x = "nat (hdr eh ''e_shstrndx'')"
  have x: "?x < length shs" using assms(1) image_ehdr [OF assms(1)] by (simp add: elf_image_def nat_less_iff)
  obtain b c where b: "layout_enc (shdr_layout S) (PObj (shs ! i)) = Some b" "layout_enc (shdr_layout S) (PObj (shs ! ?x)) = Some c"
    using image_shdr [OF assms(1) assms(3)] image_shdr [OF assms(1) x] by metis
  note n = shdr_int [OF b(1)] and o = shdr_int [OF b(2)]
  have s: "get_string fuel (StringTableSection (shs ! ?x) (Some '''')) (hdr (shs ! i) ''sh_name'') =
      parse_cstring_from_stream fuel (Some (hdr (shs ! ?x) ''sh_offset'' + hdr (shs ! i) ''sh_name''))"
    using o by (simp add: get_string_def section_int_def section_getitem_def header_int_def sbind_def slift_def)
  have "finds (BytesIO d) (get_string fuel (ef_stringtable (opened E d q)) (hdr (shs ! i) ''sh_name'')) (Inr (title d eh shs (shs ! i)))" for q
    using finds_cstring [of "hdr (shs ! ?x) ''sh_offset'' + hdr (shs ! i) ''sh_name''" d fuel] n o assms(2,4)
    by (simp add: is_open_def s title_def)
  then have f: "finds (opened E d) (on_file (\<lambda>E. get_string fuel (ef_stringtable E) (hdr (shs ! i) ''sh_name''))) (Inr (title d eh shs (shs ! i)))"
    by (rule finds_file)
  have n': "header_int (shs ! i) ''sh_name'' = Inr (hdr (shs ! i) ''sh_name'')" using n by simp
  show ?thesis unfolding get_section_name_def n' by (rule finds_bind, rule finds_prims(4), rule f)
qed

text \<open>
  \<open>section_is n i r\<close>: the section \<open>i\<close> is \<open>r\<close>, or the attempt to make it fails so, where \<open>n\<close> is the number of
  symbol tables on the way along the links.
\<close>

definition section_type :: "container \<Rightarrow> pyval" where
  "section_type h = (case container_getitem h ''sh_type'' of Inr t \<Rightarrow> t | Inl e \<Rightarrow> PNone)"

definition is_symtab :: "container \<Rightarrow> bool" where
  "is_symtab h = one_of (section_type h) [''SHT_SYMTAB'', ''SHT_DYNSYM'']"

definition plain_section :: "elf_structs \<Rightarrow> container \<Rightarrow> string option \<Rightarrow> pyexc + elf_section" where
  "plain_section S h t =
     (if py_eq (section_type h) (PStr ''SHT_STRTAB'') then Inr (StringTableSection h t)
      else if py_eq (section_type h) (PStr ''SHT_NULL'') then Inr (NullSection h t)
      else if one_of (section_type h) [''SHT_REL'', ''SHT_RELA''] then new_RelocationSection S h t
      else Inr (Section h t))"

inductive section_is :: "string \<Rightarrow> elf_structs \<Rightarrow> container \<Rightarrow> container list \<Rightarrow> nat \<Rightarrow> nat \<Rightarrow> pyexc + elf_section \<Rightarrow> bool"
  for d S eh shs where
  section_plain: "i < length shs \<Longrightarrow> \<not> is_symtab (shs ! i) \<Longrightarrow>
    section_is d S eh shs 0 i (plain_section S (shs ! i) (title d eh shs (shs ! i)))"
| section_symtab: "i < length shs \<Longrightarrow> is_symtab (shs ! i) \<Longrightarrow> section_is d S eh shs n (nat (hdr (shs ! i) ''sh_link'')) r \<Longrightarrow>
    section_is d S eh shs (Suc n) i (ebind r (new_SymbolTableSection (shs ! i) (title d eh shs (shs ! i))))"

lemma symtab_types: "is_symtab h \<Longrightarrow> \<not> py_eq (section_type h) (PStr ''SHT_STRTAB'') \<and> \<not> py_eq (section_type h) (PStr ''SHT_NULL'')"
  by (cases "section_type h") (auto simp: is_symtab_def one_of_def py_eq.simps)

lemma finds_make_section:
  assumes "elf_image d S eh shs" "is_open d S eh shs E" "i < length shs" "length d < fuel"
  shows "\<not> is_symtab (shs ! i) \<Longrightarrow> finds (opened E d) (make_section fuel get (shs ! i)) (plain_section S (shs ! i) (title d eh shs (shs ! i)))"
    and "is_symtab (shs ! i) \<Longrightarrow> finds (opened E d) (get (hdr (shs ! i) ''sh_link'')) r \<Longrightarrow>
      finds (opened E d) (make_section fuel get (shs ! i)) (ebind r (new_SymbolTableSection (shs ! i) (title d eh shs (shs ! i))))"
proof -
  obtain b where b: "layout_enc (shdr_layout S) (PObj (shs ! i)) = Some b" using image_shdr [OF assms(1,3)] by metis
  let ?h = "shs ! i" and ?t = "title d eh shs (shs ! i)"
  have y: "container_getitem ?h ''sh_type'' = Inr (section_type ?h)" using shdr_type [OF b] by (auto simp: section_type_def)
  have l: "header_int ?h ''sh_link'' = Inr (hdr ?h ''sh_link'')" using shdr_int [OF b] by simp
  note name = finds_name [OF assms]
  show "finds (opened E d) (make_section fuel get ?h) (plain_section S ?h ?t)" if "\<not> is_symtab ?h"
    unfolding make_section_def y using that assms(2)
    by (auto intro!: finds_bind [OF name] finds_bind [OF finds_prims(4)] finds_prims finds_pure
        simp: plain_section_def is_symtab_def is_open_def)
  show "finds (opened E d) (make_section fuel get ?h) (ebind r (new_SymbolTableSection ?h ?t))"
    if s: "is_symtab ?h" and g: "finds (opened E d) (get (hdr ?h ''sh_link'')) r"
  proof -
    have "finds (opened E d) (sbind (slift (header_int ?h ''sh_link'')) (\<lambda>link. sbind (get link) (\<lambda>strtab. slift (new_SymbolTableSection ?h ?t strtab))))
        (ebind r (new_SymbolTableSection ?h ?t))" unfolding l
      by (rule finds_bind, rule finds_prims(4), rule finds_any, rule g, rule finds_prims(4))
    then show ?thesis unfolding make_section_def y
      using symtab_types [OF s] s by (intro finds_bind [OF name] finds_bind [OF finds_prims(4)]) (simp add: is_symtab_def)
  qed
qed

lemma get_section_is:
  assumes "section_is d S eh shs n i r" "elf_image d S eh shs" "is_open d S eh shs E" "length d < fuel" "n < k"
  shows "finds (opened E d) (get_section k fuel (int i)) r"
  using assms
proof (induction arbitrary: k rule: section_is.induct)
  case (section_plain i)
  then obtain k' where k: "k = Suc k'" by (cases k) auto
  note h = finds_header [OF section_plain.prems(1) section_plain.hyps(1) section_plain.prems(3)]
  have "finds (opened E d) (on_file (\<lambda>E. get_section_header fuel (ef_structs E) (ef_header E) (int i))) (Inr (shs ! i))"
    using h section_plain.prems(2) by (intro finds_file) (simp add: is_open_def)
  then show ?case unfolding k get_section.simps
    by (rule finds_bind) (rule finds_make_section(1) [OF section_plain.prems(1,2) section_plain.hyps(1) section_plain.prems(3) section_plain.hyps(2)])
next
  case (section_symtab i n r)
  then obtain k' where k: "k = Suc k'" "n < k'" by (cases k) auto
  note h = finds_header [OF section_symtab.prems(1) section_symtab.hyps(1) section_symtab.prems(3)]
  obtain b where b: "layout_enc (shdr_layout S) (PObj (shs ! i)) = Some b" using image_shdr [OF section_symtab.prems(1) section_symtab.hyps(1)] by metis
  have "finds (opened E d) (get_section k' fuel (hdr (shs ! i) ''sh_link'')) r"
    using section_symtab.IH [OF section_symtab.prems(1-3) k(2)] shdr_int [OF b] by simp
  note m = finds_make_section(2) [OF section_symtab.prems(1,2) section_symtab.hyps(1) section_symtab.prems(3) section_symtab.hyps(2), of "get_section k' fuel", OF this]
  have "finds (opened E d) (on_file (\<lambda>E. get_section_header fuel (ef_structs E) (ef_header E) (int i))) (Inr (shs ! i))"
    using h section_symtab.prems(2) by (intro finds_file) (simp add: is_open_def)
  then show ?case unfolding k get_section.simps by (rule finds_bind) (rule m)
qed

subsection \<open>Opening a file and looking for sections\<close>

lemma identify_image:
  assumes "elf_image d S eh shs"
  shows "finds (BytesIO d) identify_file (Inr (es_elfclass S, es_little_endian S))"
proof -
  have c: "es_elfclass S \<noteq> 32 \<Longrightarrow> es_elfclass S = 64" and t: "take 6 d = ident_bytes S" using assms by (auto simp: elf_image_def)
  obtain r where d: "d = ident_bytes S @ r" using append_take_drop_id [of 6 d] t by metis
  show ?thesis using c unfolding finds_def
    by (auto simp: identify_file_def d ident_bytes_def sbind_apply elf_assert_def assert_with_exception_def Let_def)
qed

lemma open_image:
  assumes "elf_image d S eh shs" "length d < fuel"
  shows "\<exists>E q'. ELFFile fuel (BytesIO d q) = (Inr (opened E d q'), BytesIO d q') \<and> is_open d S eh shs E \<and> ef_name_map E = None \<and>
    ef_ident_raw E = take 16 d"
proof -
  have S: "ELFStructs (es_little_endian S) (es_elfclass S) = Inr S" using assms(1) by (auto simp: elf_image_def ELFStructs_def)
  have "holds_at d 0 (layout_dec (ehdr_layout S)) (PObj eh)" using assms(1) by (simp add: elf_image_def)
  note p = finds_parse [OF elf_decoders(1) this assms(2)]
  have h: "finds (BytesIO d) (parse_elf_header fuel S) (Inr eh)" unfolding parse_elf_header_def
    by (rule finds_bind, rule p) (simp add: header_of_def finds_prims)
  let ?x = "nat (hdr eh ''e_shstrndx'')"
  have x: "?x < length shs" "header_int eh ''e_shstrndx'' = Inr (int ?x)"
    using assms(1) image_ehdr [OF assms(1)] by (simp_all add: elf_image_def nat_less_iff)
  have s: "finds (BytesIO d) (get_file_stringtable fuel S eh) (Inr (StringTableSection (shs ! ?x) (Some '''')))"
    unfolding get_file_stringtable_def x(2) by (rule finds_bind, rule finds_prims(4), rule finds_bind, rule finds_header [OF assms(1) x(1) assms(2)], rule finds_prims(1))
  obtain q1 where q1: "identify_file (BytesIO d q) = (Inr (es_elfclass S, es_little_endian S), BytesIO d q1)"
    using findsD [OF identify_image [OF assms(1)]] by blast
  obtain q2 where q2: "parse_elf_header fuel S (BytesIO d q1) = (Inr eh, BytesIO d q2)" using findsD [OF h] by blast
  have raw: "stream_read 16 (BytesIO d 0) = (Inr (take 16 d), BytesIO d (min 16 (length d)))" by (simp add: Let_def min.commute)
  obtain q3 where q3: "get_file_stringtable fuel S eh (BytesIO d (min 16 (length d))) =
     (Inr (StringTableSection (shs ! ?x) (Some '''')), BytesIO d q3)" using findsD [OF s] by blast
  have "ELFFile fuel (BytesIO d q) = (Inr \<lparr>ef_stream = BytesIO d q3, ef_elfclass = es_elfclass S, ef_little_endian = es_little_endian S,
      ef_structs = S, ef_header = eh, ef_ident_raw = take 16 d, ef_stringtable = StringTableSection (shs ! ?x) (Some ''''), ef_name_map = None\<rparr>,
      BytesIO d q3)"
    unfolding ELFFile_def by (simp add: q1 q2 q3 raw S sbind_apply del: stream_read.simps)
  then show ?thesis by (intro exI [of _ "\<lparr>ef_stream = BytesIO d q3, ef_elfclass = es_elfclass S, ef_little_endian = es_little_endian S,
      ef_structs = S, ef_header = eh, ef_ident_raw = take 16 d, ef_stringtable = StringTableSection (shs ! ?x) (Some ''''), ef_name_map = None\<rparr>"] exI [of _ q3])
      (simp add: is_open_def)
qed

lemma section_is_header:
  "section_is d S eh shs n i r \<Longrightarrow> r = Inr sec \<Longrightarrow> sh_header sec = shs ! i \<and> sh_title sec = title d eh shs (shs ! i)"
  by (induction arbitrary: sec rule: section_is.induct)
    (auto simp: plain_section_def new_RelocationSection_def new_SymbolTableSection_def ebind_Inr_iff split: if_splits)

lemma section_is_less: "section_is d S eh shs n i r \<Longrightarrow> i < length shs"
  by (erule section_is.cases) simp_all

lemma finds_num_sections:
  assumes "elf_image d S eh shs" "is_open d S eh shs E"
  shows "finds (opened E d) num_sections (Inr (int (length shs)))"
proof -
  have "finds (opened E d) (elf_getitem ''e_shnum'') (container_getitem eh ''e_shnum'')"
    using assms(2) unfolding elf_getitem_def by (intro finds_pure) (simp add: is_open_def)
  moreover obtain v where v: "container_getitem eh ''e_shnum'' = Inr v" "as_int v = Inr (int (length shs))"
    using image_ehdr [OF assms(1)] assms(1) by (auto simp: header_int_def ebind_Inr_iff elf_image_def)
  ultimately show ?thesis
    unfolding num_sections_def elf_int_def using finds_prims(4) [of "opened E d" "as_int v"] by (auto intro: finds_bind)
qed

lemma iter_sections_image:
  assumes "elf_image d S eh shs" "is_open d S eh shs E" "length d < fuel"
    and "length secs = length shs" "\<forall>i<length shs. \<exists>n<k. section_is d S eh shs n i (Inr (secs ! i))"
  shows "finds (opened E d) (iter_sections k fuel) (Inr secs)"
proof -
  have "list_all2 (\<lambda>i x. finds (opened E d) (get_section k fuel i) (Inr x)) (py_range (int (length shs))) secs"
    using assms(4,5) get_section_is [OF _ assms(1,2,3)] by (auto simp: py_range_def list_all2_conv_all_nth)
  then show ?thesis unfolding iter_sections_def by (rule finds_bind [OF finds_num_sections [OF assms(1,2)] finds_smap])
qed

text \<open>The last section with a name; of a list of sections made so far, the cache of the file holds it.\<close>

definition last_named :: "elf_section list \<Rightarrow> string option \<Rightarrow> nat option" where
  "last_named secs name = (let is = filter (\<lambda>i. sh_title (secs ! i) = name) [0..<length secs] in if is = [] then None else Some (last is))"

definition names_of :: "elf_section list \<Rightarrow> (string option \<times> int) list \<Rightarrow> bool" where
  "names_of secs m = (\<forall>name. map_of m name = map_option int (last_named secs name))"

lemma last_named_snoc: "last_named (secs @ [sec]) name = (if sh_title sec = name then Some (length secs) else last_named secs name)"
proof -
  have "filter (\<lambda>i. sh_title ((secs @ [sec]) ! i) = name) [0..<length secs] = filter (\<lambda>i. sh_title (secs ! i) = name) [0..<length secs]"
    by (rule filter_cong) (auto simp: nth_append)
  then show ?thesis by (simp add: last_named_def)
qed

lemma last_named_Some: "last_named secs name = Some i \<Longrightarrow> i < length secs \<and> sh_title (secs ! i) = name"
proof -
  assume "last_named secs name = Some i"
  then have "i \<in> set (filter (\<lambda>i. sh_title (secs ! i) = name) [0..<length secs])"
    using last_in_set by (auto simp: last_named_def Let_def simp del: set_filter split: if_splits)
  then show ?thesis by auto
qed

lemma names_of_snoc: "names_of secs m \<Longrightarrow> names_of (secs @ [sec]) (dict_set (sh_title sec) (int (length secs)) m)"
  by (auto simp: names_of_def last_named_snoc)

lemma add_name:
  assumes "elf_image d S eh shs" "is_open d S eh shs E" "length d < fuel" "section_is d S eh shs n i r" "n < k" "ef_name_map E = Some m"
  shows "\<exists>q'. add_section_name k fuel (int i) (opened E d q) = (case r of Inl e \<Rightarrow> (Inl e, opened E d q')
     | Inr sec \<Rightarrow> (Inr (), opened (E\<lparr>ef_name_map := Some (dict_set (sh_title sec) (int i) m)\<rparr>) d q'))"
proof -
  obtain q' where "get_section k fuel (int i) (opened E d q) = (r, opened E d q')"
    using findsD [OF get_section_is [OF assms(4,1,2,3,5)]] by blast
  then show ?thesis using assms(6) by (intro exI [of _ q']) (auto simp: add_section_name_def sbind_apply split: sum.split)
qed

lemma is_open_names [simp]: "is_open d S eh shs (E\<lparr>ef_name_map := m\<rparr>) = is_open d S eh shs E" "is_open d S eh shs (opened E d' q) = is_open d S eh shs E"
  by (simp_all add: is_open_def)

lemma smap_append: "smap f (is @ js) = sbind (smap f is) (\<lambda>xs. sbind (smap f js) (\<lambda>ys. sret (xs @ ys)))"
  by (induction "is") (simp_all add: fun_eq_iff sbind_def sret_def split: prod.split sum.split)

lemma add_names:
  assumes "elf_image d S eh shs" "is_open d S eh shs E" "length d < fuel" "ef_name_map E = Some []"
    and "j \<le> length secs" "\<forall>i<j. \<exists>n<k. section_is d S eh shs n i (Inr (secs ! i))"
  shows "\<exists>q' m xs. smap (add_section_name k fuel) (map int [0..<j]) (opened E d q) = (Inr xs, opened (E\<lparr>ef_name_map := Some m\<rparr>) d q') \<and>
     names_of (take j secs) m"
  using assms(5,6)
proof (induction j)
  case 0
  have "E\<lparr>ef_name_map := Some []\<rparr> = E" using assms(4) by (cases E) simp
  then show ?case by (intro exI [of _ q] exI [of _ "[]"]) (auto simp: names_of_def last_named_def)
next
  case (Suc j)
  then obtain q1 m xs where 1: "smap (add_section_name k fuel) (map int [0..<j]) (opened E d q) = (Inr xs, opened (E\<lparr>ef_name_map := Some m\<rparr>) d q1)"
    "names_of (take j secs) m" by auto
  obtain n where "n < k" "section_is d S eh shs n j (Inr (secs ! j))" using Suc.prems(2) by auto
  then obtain q2 where 2: "add_section_name k fuel (int j) (opened (E\<lparr>ef_name_map := Some m\<rparr>) d q1) =
      (Inr (), opened (E\<lparr>ef_name_map := Some (dict_set (sh_title (secs ! j)) (int j) m)\<rparr>) d q2)"
    using add_name [OF assms(1) _ assms(3), of "E\<lparr>ef_name_map := Some m\<rparr>" n j "Inr (secs ! j)" k m q1] assms(2) by auto
  have "names_of (take (Suc j) secs) (dict_set (sh_title (secs ! j)) (int j) m)"
    using names_of_snoc [OF 1(2), of "secs ! j"] Suc.prems(1) by (simp add: take_Suc_conv_app_nth)
  then show ?case using 1 2 by (auto simp: smap_append sbind_apply)
qed

text \<open>What a search by name returns when the cache of the file is of the sections \<open>secs\<close>.\<close>

definition found :: "elf_section list \<Rightarrow> string \<Rightarrow> elf_section option" where
  "found secs name = map_option (\<lambda>i. secs ! i) (last_named secs (Some name))"

lemma by_name_cached:
  assumes "elf_image d S eh shs" "is_open d S eh shs E" "length d < fuel" "ef_name_map E = Some m" "names_of secs m"
    and "\<forall>i<length secs. \<exists>n<k. section_is d S eh shs n i (Inr (secs ! i))"
  shows "finds (opened E d) (get_section_by_name k fuel name) (Inr (found secs name))"
  unfolding finds_def
proof
  fix q
  show "\<exists>q'. get_section_by_name k fuel name (opened E d q) = (Inr (found secs name), opened E d q')"
  proof (cases "last_named secs (Some name)")
    case None
    then show ?thesis using assms(4,5) by (intro exI [of _ q]) (simp add: get_section_by_name_def names_of_def found_def)
  next
    case (Some i)
    then obtain n where n: "n < k" "section_is d S eh shs n i (Inr (secs ! i))" using last_named_Some assms(6) by blast
    obtain q' where "get_section k fuel (int i) (opened E d q) = (Inr (secs ! i), opened E d q')"
      using findsD [OF get_section_is [OF n(2) assms(1,2,3) n(1)]] by blast
    then show ?thesis using Some assms(4,5) by (intro exI [of _ q']) (simp add: get_section_by_name_def names_of_def found_def)
  qed
qed

lemma all_names:
  assumes "elf_image d S eh shs" "is_open d S eh shs E" "length d < fuel" "ef_name_map E = Some []"
    and "\<forall>i<length secs. \<exists>n<k. section_is d S eh shs n i (Inr (secs ! i))" "length secs \<le> length shs"
    and "length secs < length shs \<longrightarrow> (\<exists>n<k. section_is d S eh shs n (length secs) (Inl e))"
  shows "\<exists>q' m. names_of secs m \<and> (\<exists>xs. smap (add_section_name k fuel) (py_range (int (length shs))) (opened E d q) =
     (if length secs = length shs then Inr xs else Inl e, opened (E\<lparr>ef_name_map := Some m\<rparr>) d q'))"
proof -
  obtain q1 m xs where 1: "smap (add_section_name k fuel) (map int [0..<length secs]) (opened E d q) = (Inr xs, opened (E\<lparr>ef_name_map := Some m\<rparr>) d q1)"
    "names_of secs m" using add_names [OF assms(1-4) order_refl assms(5), of q] by auto
  show ?thesis
  proof (cases "length secs = length shs")
    case True
    then show ?thesis using 1 by (intro exI [of _ q1] exI [of _ m]) (simp add: py_range_def)
  next
    case False
    then have less: "length secs < length shs" using assms(6) by simp
    then obtain n where n: "n < k" "section_is d S eh shs n (length secs) (Inl e)" using assms(7) by blast
    obtain q2 where 2: "add_section_name k fuel (int (length secs)) (opened (E\<lparr>ef_name_map := Some m\<rparr>) d q1) =
        (Inl e, opened (E\<lparr>ef_name_map := Some m\<rparr>) d q2)"
      using add_name [OF assms(1) _ assms(3) n(2,1), of "E\<lparr>ef_name_map := Some m\<rparr>" m q1] assms(2) by auto
    have "py_range (int (length shs)) = map int [0..<length secs] @ int (length secs) # map int [Suc (length secs)..<length shs]"
      using upt_add_eq_append [of 0 "length secs" "length shs - length secs"] less by (simp add: py_range_def upt_conv_Cons)
    then show ?thesis using 1 2 False by (intro exI [of _ q2] exI [of _ m]) (simp add: smap_append sbind_apply)
  qed
qed

lemma by_name_first:
  assumes "elf_image d S eh shs" "is_open d S eh shs E" "length d < fuel" "ef_name_map E = None"
    and "\<forall>i<length secs. \<exists>n<k. section_is d S eh shs n i (Inr (secs ! i))" "length secs \<le> length shs"
    and "length secs < length shs \<longrightarrow> (\<exists>n<k. section_is d S eh shs n (length secs) (Inl e))"
  shows "\<exists>q' m. names_of secs m \<and> get_section_by_name k fuel name (opened E d q) =
     (if length secs = length shs then Inr (found secs name) else Inl e, opened (E\<lparr>ef_name_map := Some m\<rparr>) d q')"
proof -
  let ?E = "E\<lparr>ef_name_map := Some []\<rparr>"
  have o: "is_open d S eh shs ?E" using assms(2) by simp
  obtain q1 where q1: "num_sections (opened ?E d q) = (Inr (int (length shs)), opened ?E d q1)"
    using findsD [OF finds_num_sections [OF assms(1) o]] by blast
  obtain q2 m xs where m: "names_of secs m" "smap (add_section_name k fuel) (py_range (int (length shs))) (opened ?E d q1) =
     (if length secs = length shs then Inr xs else Inl e, opened (?E\<lparr>ef_name_map := Some m\<rparr>) d q2)"
    using all_names [OF assms(1) o assms(3) _ assms(5-7), of q1] by auto
  have e: "(opened E d q)\<lparr>ef_name_map := Some []\<rparr> = opened ?E d q" "opened (?E\<lparr>ef_name_map := Some m\<rparr>) d q2 = opened (E\<lparr>ef_name_map := Some m\<rparr>) d q2"
    by (cases E, simp)+
  let ?F = "E\<lparr>ef_name_map := Some m\<rparr>"
  have s: "is_open d S eh shs ?F" "ef_name_map ?F = Some m" using assms(2) by simp_all
  obtain q3 where q3: "get_section_by_name k fuel name (opened ?F d q2) = (Inr (found secs name), opened ?F d q3)"
    using findsD [OF by_name_cached [OF assms(1) s(1) assms(3) s(2) m(1) assms(5)]] by blast
  then have "(case map_of m (Some name) of None \<Rightarrow> (Inr None, opened ?F d q2)
       | Some secnum \<Rightarrow> sbind (get_section k fuel secnum) (\<lambda>sec. sret (Some sec)) (opened ?F d q2)) = (Inr (found secs name), opened ?F d q3)"
    by (simp add: get_section_by_name_def)
  then show ?thesis using m assms(4)
    by (intro exI [of _ "if length secs = length shs then q3 else q2"] exI [of _ m])
      (auto simp: get_section_by_name_def sbind_apply e(1) q1)
qed

subsection \<open>The chain of links\<close>

text \<open>A link leads from a symbol table to the section with its strings, which may be a symbol table again.\<close>

definition links :: "container list \<Rightarrow> (nat \<times> nat) set" where
  "links shs = {(i, j). i < length shs \<and> is_symtab (shs ! i) \<and> j = nat (hdr (shs ! i) ''sh_link'')}"

definition closed_links :: "container list \<Rightarrow> bool" where
  "closed_links shs = (\<forall>(i, j)\<in>links shs. j < length shs)"

text \<open>The first \<open>k\<close> sections along the links are symbol tables.\<close>

fun chain :: "container list \<Rightarrow> nat \<Rightarrow> nat \<Rightarrow> bool" where
  "chain shs 0 i = True"
| "chain shs (Suc k) i = (is_symtab (shs ! i) \<and> chain shs k (nat (hdr (shs ! i) ''sh_link'')))"

lemma section_chain:
  assumes "elf_image d S eh shs" "closed_links shs" "i < length shs"
  shows "chain shs k i \<or> (\<exists>n<k. \<exists>r. section_is d S eh shs n i r)"
  using assms(3)
proof (induction k arbitrary: i)
  case (Suc k)
  show ?case
  proof (cases "is_symtab (shs ! i)")
    case True
    then have "nat (hdr (shs ! i) ''sh_link'') < length shs" using assms(2) Suc.prems by (auto simp: closed_links_def links_def)
    then consider "chain shs k (nat (hdr (shs ! i) ''sh_link''))" | n r where "n < k" "section_is d S eh shs n (nat (hdr (shs ! i) ''sh_link'')) r"
      using Suc.IH by blast
    then show ?thesis using True Suc.prems by cases (auto intro: section_symtab)
  next
    case False
    then show ?thesis using section_plain [of i shs d S eh] Suc.prems by blast
  qed
qed simp

lemma get_section_chain:
  assumes "elf_image d S eh shs" "closed_links shs" "is_open d S eh shs E" "length d < fuel" "i < length shs" "chain shs k i"
  shows "finds (opened E d) (get_section k fuel (int i)) (Inl NoFuel)"
  using assms(5,6)
proof (induction k arbitrary: i)
  case (Suc k)
  obtain b where b: "layout_enc (shdr_layout S) (PObj (shs ! i)) = Some b" using image_shdr [OF assms(1) Suc.prems(1)] by metis
  have s: "is_symtab (shs ! i)" and c: "chain shs k (nat (hdr (shs ! i) ''sh_link''))" using Suc.prems(2) by simp_all
  have "nat (hdr (shs ! i) ''sh_link'') < length shs" using assms(2) Suc.prems s by (auto simp: closed_links_def links_def)
  then have g: "finds (opened E d) (get_section k fuel (hdr (shs ! i) ''sh_link'')) (Inl NoFuel)"
    using Suc.IH [OF _ c] shdr_int [OF b] by simp
  note m = finds_make_section(2) [OF assms(1,3) Suc.prems(1) assms(4) s, of "get_section k fuel", OF g]
  have "finds (opened E d) (on_file (\<lambda>E. get_section_header fuel (ef_structs E) (ef_header E) (int i))) (Inr (shs ! i))"
    using finds_header [OF assms(1) Suc.prems(1) assms(4)] assms(3) by (intro finds_file) (simp add: is_open_def)
  then show ?case unfolding get_section.simps by (rule finds_bind) (use m in simp)
qed (simp add: finds_prims)

lemma chain_add: "(i, j) \<in> links shs ^^ m \<Longrightarrow> chain shs k j \<Longrightarrow> chain shs (m + k) i"
proof (induction m arbitrary: i)
  case (Suc m)
  from Suc.prems(1) obtain i' where "(i, i') \<in> links shs" "(i', j) \<in> links shs ^^ m" by (blast dest: relpow_Suc_D2)
  then show ?case using Suc.IH [of i'] Suc.prems(2) by (auto simp: links_def)
qed simp

lemma chain_mono: "chain shs k i \<Longrightarrow> j \<le> k \<Longrightarrow> chain shs j i"
proof (induction k arbitrary: i j)
  case (Suc k)
  then show ?case by (cases j) auto
qed simp

lemma chain_relpow: "chain shs k i \<Longrightarrow> closed_links shs \<Longrightarrow> i < length shs \<Longrightarrow>
    \<exists>f. f 0 = i \<and> (\<forall>m<k. (f m, f (Suc m)) \<in> links shs) \<and> (\<forall>m\<le>k. f m < length shs)"
proof (induction k arbitrary: i)
  case 0
  then show ?case by (intro exI [of _ "\<lambda>_. i"]) simp
next
  case (Suc k)
  let ?j = "nat (hdr (shs ! i) ''sh_link'')"
  have l: "(i, ?j) \<in> links shs" using Suc.prems by (simp add: links_def)
  then have "?j < length shs" using Suc.prems(2) by (auto simp: closed_links_def)
  then obtain f where f: "f 0 = ?j" "\<forall>m<k. (f m, f (Suc m)) \<in> links shs" "\<forall>m\<le>k. f m < length shs"
    using Suc.IH [of ?j] Suc.prems by auto
  show ?case using f l Suc.prems(3)
    by (intro exI [of _ "\<lambda>m. case m of 0 \<Rightarrow> i | Suc m' \<Rightarrow> f m'"]) (auto split: nat.split)
qed

definition cyclic_links :: "container list \<Rightarrow> nat \<Rightarrow> bool" where
  "cyclic_links shs i = (\<exists>j. (i, j) \<in> (links shs)\<^sup>* \<and> (j, j) \<in> (links shs)\<^sup>+)"

lemma chain_cyclic:
  assumes "chain shs (length shs) i" "closed_links shs" "i < length shs"
  shows "cyclic_links shs i"
proof -
  obtain f where f: "f 0 = i" "\<forall>m<length shs. (f m, f (Suc m)) \<in> links shs" "\<forall>m\<le>length shs. f m < length shs"
    using chain_relpow [OF assms] by blast
  have steps: "(f a, f (a + n)) \<in> links shs ^^ n" if "a + n \<le> length shs" for a n
    using that by (induction n) (use f(2) in auto)
  have "\<not> inj_on f {..length shs}"
  proof
    assume "inj_on f {..length shs}"
    then have "card {..length shs} \<le> card {..<length shs}" using f(3) by (intro card_inj_on_le) auto
    then show False by simp
  qed
  then obtain a b where ab: "a < b" "b \<le> length shs" "f a = f b" by (metis (full_types) atMost_iff inj_onI linorder_neqE_nat)
  have "(f a, f a) \<in> (links shs)\<^sup>+" using steps [of a "b - a"] ab by (auto simp: trancl_power intro!: exI [of _ "b - a"])
  moreover have "(i, f a) \<in> (links shs)\<^sup>*" using steps [of 0 a] ab f(1) by (auto simp: rtrancl_power)
  ultimately show ?thesis by (auto simp: cyclic_links_def)
qed

lemma cyclic_chain:
  assumes "cyclic_links shs i"
  shows "chain shs k i"
proof -
  obtain j a n where j: "(i, j) \<in> links shs ^^ a" "(j, j) \<in> links shs ^^ n" "0 < n"
    using assms by (auto simp: cyclic_links_def rtrancl_power trancl_power)
  have "chain shs (c * n) j" for c
  proof (induction c)
    case (Suc c)
    then show ?case using chain_add [OF j(2)] by simp
  qed simp
  then have "chain shs (a + k * n) i" by (rule chain_add [OF j(1)])
  moreover have "k \<le> a + k * n" using mult_le_mono2 [of 1 n k] j(3) by linarith
  ultimately show ?thesis by (rule chain_mono)
qed

lemma field_size: "con_sizeof (FormatField n e f) c = Inr (int (fmt_size f))" "con_sizeof (Value name func) c = Inr 0"
  by (simp_all add: FormatField_def StaticField_def Value_def set_flag_def)

lemma entry_sizes:
  "sizeof (Elf_Rel S) c = Inr (if es_elfclass S = 32 then 8 else 16)" "sizeof (Elf_Rela S) c = Inr (if es_elfclass S = 32 then 12 else 24)"
  by (simp_all add: sizeof_def Elf_Rel_def Elf_Rela_def Struct_def struct_sizeof_def elf_fields int_fields r_info_sym_def r_info_type_def field_size)

lemma section_is_error: "section_is d S eh shs n i r \<Longrightarrow> r \<noteq> Inl NoFuel"
proof (induction rule: section_is.induct)
  case (section_plain i)
  then show ?case by (auto simp: plain_section_def new_RelocationSection_def entry_sizes elf_assert_def assert_with_exception_def
        container_getitem_def dict_get_def ebind_Inl_iff split: if_splits option.splits)
next
  case (section_symtab i n r)
  then show ?case by (auto simp: new_SymbolTableSection_def elf_assert_def assert_with_exception_def header_int_def as_int_def py_mod_def
        container_getitem_def dict_get_def ebind_Inl_iff split: if_splits option.splits)
qed

subsection \<open>What the file class does\<close>

text \<open>C23: For a file that holds a header and section headers, iter_sections and get_section give the sections of the classes that their types ask for, with their names, and get_section_by_name gives the last section of the name, or None if no section has it.\<close>

theorem elf_sections_read:
  assumes "elf_image d S eh shs" "length d < fuel"
    and "list_all2 (\<lambda>i sec. \<exists>n<k. section_is d S eh shs n i (Inr sec)) [0..<length shs] secs"
  shows "\<exists>E t. ELFFile fuel (BytesIO d q) = (Inr E, t) \<and> ef_header E = eh \<and> fst (iter_sections k fuel E) = Inr secs \<and>
    (\<forall>i<length shs. fst (get_section k fuel (int i) E) = Inr (secs ! i)) \<and>
    (\<forall>name. fst (get_section_by_name k fuel name E) = Inr (found secs name))"
proof -
  obtain E q' where E: "ELFFile fuel (BytesIO d q) = (Inr (opened E d q'), BytesIO d q')" "is_open d S eh shs E" "ef_name_map E = None"
    using open_image [OF assms(1,2)] by blast
  have s: "length secs = length shs" "\<forall>i<length shs. \<exists>n<k. section_is d S eh shs n i (Inr (secs ! i))"
    using assms(3) by (auto simp: list_all2_conv_all_nth)
  have "\<exists>q''. iter_sections k fuel (opened E d q') = (Inr secs, opened E d q'')"
    using findsD [OF iter_sections_image [OF assms(1) E(2) assms(2) s]] by blast
  moreover have "\<exists>q''. get_section k fuel (int i) (opened E d q') = (Inr (secs ! i), opened E d q'')" if "i < length shs" for i
    using findsD [OF get_section_is [OF _ assms(1) E(2) assms(2)]] s(2) that by metis
  moreover have "fst (get_section_by_name k fuel name (opened E d q')) = Inr (found secs name)" for name
  proof -
    have "\<forall>i<length secs. \<exists>n<k. section_is d S eh shs n i (Inr (secs ! i))" "length secs \<le> length shs"
      "length secs < length shs \<longrightarrow> (\<exists>n<k. section_is d S eh shs n (length secs) (Inl NoFuel))" using s by auto
    from by_name_first [OF assms(1) E(2) assms(2) E(3) this, of name q'] s(1) show ?thesis by auto
  qed
  ultimately show ?thesis using E by (fastforce simp: is_open_def)
qed

theorem elf_names_partial:
  assumes "elf_image d S eh shs" "length d < fuel"
    and "list_all2 (\<lambda>i sec. \<exists>n<k. section_is d S eh shs n i (Inr sec)) [0..<j] secs"
    and "if j < length shs then \<exists>n<k. section_is d S eh shs n j (Inl e) else j = length shs"
  shows "\<exists>E t E'. ELFFile fuel (BytesIO d q) = (Inr E, t) \<and>
    get_section_by_name k fuel name E = (if j < length shs then Inl e else Inr (found secs name), E') \<and>
    fst (get_section_by_name k fuel name E') = Inr (found secs name)"
proof -
  obtain E q' where E: "ELFFile fuel (BytesIO d q) = (Inr (opened E d q'), BytesIO d q')" "is_open d S eh shs E" "ef_name_map E = None"
    using open_image [OF assms(1,2)] by blast
  have s: "length secs = j" "\<forall>i<length secs. \<exists>n<k. section_is d S eh shs n i (Inr (secs ! i))"
    using assms(3) by (auto simp: list_all2_conv_all_nth)
  have le: "length secs \<le> length shs" "length secs < length shs \<longrightarrow> (\<exists>n<k. section_is d S eh shs n (length secs) (Inl e))"
    using s(1) assms(4) by (auto split: if_splits)
  obtain q1 m where m: "names_of secs m" "get_section_by_name k fuel name (opened E d q') =
     (if length secs = length shs then Inr (found secs name) else Inl e, opened (E\<lparr>ef_name_map := Some m\<rparr>) d q1)"
    using by_name_first [OF assms(1) E(2) assms(2) E(3) s(2) le, of name q'] by blast
  have F: "is_open d S eh shs (E\<lparr>ef_name_map := Some m\<rparr>)" "ef_name_map (E\<lparr>ef_name_map := Some m\<rparr>) = Some m" using E(2) by simp_all
  obtain q2 where "get_section_by_name k fuel name (opened (E\<lparr>ef_name_map := Some m\<rparr>) d q1) =
     (Inr (found secs name), opened (E\<lparr>ef_name_map := Some m\<rparr>) d q2)"
    using findsD [OF by_name_cached [OF assms(1) F(1) assms(2) F(2) m(1) s(2)]] by blast
  then show ?thesis using E(1) m(2) s(1) assms(4)
    by (intro exI [of _ "opened E d q'"] exI [of _ "BytesIO d q'"] exI [of _ "opened (E\<lparr>ef_name_map := Some m\<rparr>) d q1"])
      (auto split: if_splits)
qed

text \<open>C30: In a section table whose links stay inside the table, making section i ends for every amount of fuel not below the number of sections unless the links from symbol tables to string tables lead from i into a cycle; then no amount is enough.\<close>

theorem elf_links_end:
  assumes "elf_image d S eh shs" "length d < fuel" "closed_links shs"
  shows "\<exists>E t. ELFFile fuel (BytesIO d q) = (Inr E, t) \<and> (\<forall>i<length shs.
    if cyclic_links shs i then \<forall>k. fst (get_section k fuel (int i) E) = Inl NoFuel
    else \<forall>k\<ge>length shs. fst (get_section k fuel (int i) E) \<noteq> Inl NoFuel)"
proof -
  obtain E q' where E: "ELFFile fuel (BytesIO d q) = (Inr (opened E d q'), BytesIO d q')" "is_open d S eh shs E"
    using open_image [OF assms(1,2)] by blast
  have "fst (get_section k fuel (int i) (opened E d q')) = Inl NoFuel" if c: "cyclic_links shs i" and i: "i < length shs" for i k
    using findsD [OF get_section_chain [OF assms(1,3) E(2) assms(2) i cyclic_chain [OF c]], of k q'] by (metis fst_conv)
  moreover have "fst (get_section k fuel (int i) (opened E d q')) \<noteq> Inl NoFuel" if c: "\<not> cyclic_links shs i" and k: "length shs \<le> k" and i: "i < length shs" for i k
  proof -
    have "\<not> chain shs (length shs) i" using chain_cyclic [OF _ assms(3) i] c by blast
    then obtain n r where "n < length shs" and n: "section_is d S eh shs n i r" using section_chain [OF assms(1,3) i, of "length shs"] by blast
    then have "n < k" using k by simp
    then show ?thesis using findsD [OF get_section_is [OF n assms(1) E(2) assms(2)], of k q'] section_is_error [OF n] by auto
  qed
  ultimately show ?thesis using E(1) by (intro exI [of _ "opened E d q'"] exI [of _ "BytesIO d q'"]) simp
qed

subsection \<open>Examples\<close>

text \<open>An image is checked by computation.\<close>

definition holds_check :: "string \<Rightarrow> int \<Rightarrow> layout \<Rightarrow> pyval \<Rightarrow> bool" where
  "holds_check d p l v = (case layout_enc l v of None \<Rightarrow> False
     | Some b \<Rightarrow> 0 \<le> p \<and> nat p \<le> length d \<and> take (length b) (drop (nat p) d) = b)"

lemma holds_check: "holds_check d p l v \<Longrightarrow> holds_at d p (layout_dec l) v"
proof -
  assume "holds_check d p l v"
  then obtain b where b: "layout_enc l v = Some b" "0 \<le> p" "nat p \<le> length d" "take (length b) (drop (nat p) d) = b"
    by (auto simp: holds_check_def split: option.splits)
  then show ?thesis using append_take_drop_id [of "length b" "drop (nat p) d"] unfolding holds_at_def by metis
qed

definition image_check :: "string \<Rightarrow> elf_structs \<Rightarrow> container \<Rightarrow> container list \<Rightarrow> bool" where
  "image_check d S eh shs = ((es_elfclass S = 32 \<or> es_elfclass S = 64) \<and> take 6 d = ident_bytes S \<and> holds_check d 0 (ehdr_layout S) (PObj eh) \<and>
     hdr eh ''e_shnum'' = int (length shs) \<and> hdr eh ''e_shstrndx'' < int (length shs) \<and>
     list_all (\<lambda>i. holds_check d (hdr eh ''e_shoff'' + int i * hdr eh ''e_shentsize'') (shdr_layout S) (PObj (shs ! i))) [0..<length shs])"

lemma image_check: "image_check d S eh shs \<Longrightarrow> elf_image d S eh shs"
  by (auto simp: image_check_def elf_image_def list_all_iff intro: holds_check)

definition example_elf :: elf_structs where
  "example_elf = \<lparr>es_little_endian = True, es_elfclass = 32\<rparr>"

definition example_shdr :: "int \<Rightarrow> string \<Rightarrow> int \<Rightarrow> int \<Rightarrow> int \<Rightarrow> int \<Rightarrow> container" where
  "example_shdr nm ty off sz lk en = [(''sh_name'', PInt nm), (''sh_type'', PStr ty), (''sh_flags'', PInt 0), (''sh_addr'', PInt 0),
     (''sh_offset'', PInt off), (''sh_size'', PInt sz), (''sh_link'', PInt lk), (''sh_info'', PInt 0), (''sh_addralign'', PInt 0),
     (''sh_entsize'', PInt en)]"

text \<open>A file whose section 1 has the strings \<open>strs\<close>, followed by the section headers.\<close>

definition example_ehdr :: "string \<Rightarrow> string \<Rightarrow> container list \<Rightarrow> container" where
  "example_ehdr mach body shs = [(''e_ident'', PObj [(''EI_MAG'', PList [PInt 0x7F, PInt 69, PInt 76, PInt 70]), (''EI_CLASS'', PStr ''ELFCLASS32''),
      (''EI_DATA'', PStr ''ELFDATA2LSB''), (''EI_VERSION'', PStr ''EV_CURRENT''), (''EI_OSABI'', PStr ''ELFOSABI_SYSV''), (''EI_ABIVERSION'', PInt 0)]),
     (''e_type'', PStr ''ET_REL''), (''e_machine'', PStr mach), (''e_version'', PStr ''EV_CURRENT''), (''e_entry'', PInt 0), (''e_phoff'', PInt 0),
     (''e_shoff'', PInt (52 + int (length body))), (''e_flags'', PInt 0), (''e_ehsize'', PInt 52), (''e_phentsize'', PInt 0), (''e_phnum'', PInt 0),
     (''e_shentsize'', PInt 40), (''e_shnum'', PInt (int (length shs))), (''e_shstrndx'', PInt 1)]"

definition example_file :: "string \<Rightarrow> string \<Rightarrow> container list \<Rightarrow> string" where
  "example_file mach body shs = the (layout_enc (ehdr_layout example_elf) (PObj (example_ehdr mach body shs))) @ body @
     concat (map (\<lambda>h. the (layout_enc (shdr_layout example_elf) (PObj h))) shs)"

definition example_strs :: string where
  "example_strs = [CHR 0x00, CHR ''s'', CHR 0x00, CHR ''x'', CHR 0x00]"

definition example_shs :: "container list" where
  "example_shs = [example_shdr 0 ''SHT_NULL'' 0 0 0 0, example_shdr 1 ''SHT_STRTAB'' 52 5 0 0]"

lemma example_two:
  assumes "take 2 shs = example_shs"
    "title d (example_ehdr mach example_strs shs) shs (shs ! 0) = Some ''''" "title d (example_ehdr mach example_strs shs) shs (shs ! 1) = Some ''s''"
  shows "section_is d S (example_ehdr mach example_strs shs) shs 0 0 (Inr (NullSection (shs ! 0) (Some '''')))"
    "section_is d S (example_ehdr mach example_strs shs) shs 0 1 (Inr (StringTableSection (shs ! 1) (Some ''s'')))"
proof -
  have h: "shs ! 0 = example_shdr 0 ''SHT_NULL'' 0 0 0 0" "shs ! 1 = example_shdr 1 ''SHT_STRTAB'' 52 5 0 0" "1 < length shs"
    using assms(1) nth_take [of 0 2 shs] nth_take [of 1 2 shs] length_take [of 2 shs] by (simp_all add: example_shs_def)
  then have l: "0 < length shs" "1 < length shs" by linarith+
  show "section_is d S (example_ehdr mach example_strs shs) shs 0 0 (Inr (NullSection (shs ! 0) (Some '''')))"
    using section_plain [of 0 shs d S "example_ehdr mach example_strs shs", OF l(1)] h assms(2)
    by (simp add: is_symtab_def plain_section_def section_type_def one_of_def example_shdr_def container_getitem_def dict_get_def)
  show "section_is d S (example_ehdr mach example_strs shs) shs 0 1 (Inr (StringTableSection (shs ! 1) (Some ''s'')))"
    using section_plain [of 1 shs d S "example_ehdr mach example_strs shs", OF l(2)] h assms(3)
    by (simp add: is_symtab_def plain_section_def section_type_def one_of_def example_shdr_def container_getitem_def dict_get_def)
qed

lemma example_image: "image_check (example_file ''EM_386'' example_strs example_shs) example_elf (example_ehdr ''EM_386'' example_strs example_shs) example_shs"
  by code_simp

abbreviation example_open :: "string \<Rightarrow> container list \<Rightarrow> string" where
  "example_open mach shs \<equiv> example_file mach example_strs shs"

theorem elf_sections_read_witness:
  "\<exists>E t. ELFFile 200 (BytesIO (example_open ''EM_386'' example_shs) 0) = (Inr E, t) \<and>
    fst (iter_sections 1 200 E) = Inr [NullSection (example_shs ! 0) (Some ''''), StringTableSection (example_shs ! 1) (Some ''s'')] \<and>
    fst (get_section_by_name 1 200 ''s'' E) = Inr (Some (StringTableSection (example_shs ! 1) (Some ''s'')))"
proof -
  let ?d = "example_open ''EM_386'' example_shs" and ?eh = "example_ehdr ''EM_386'' example_strs example_shs"
  have "title ?d ?eh example_shs (example_shs ! 0) = Some ''''" "title ?d ?eh example_shs (example_shs ! 1) = Some ''s''" "length ?d < 200"
    "length example_shs = 2" "take 2 example_shs = example_shs" by code_simp+
  note f = this
  have "list_all2 (\<lambda>i sec. \<exists>n<1. section_is ?d example_elf ?eh example_shs n i (Inr sec)) [0..<length example_shs]
     [NullSection (example_shs ! 0) (Some ''''), StringTableSection (example_shs ! 1) (Some ''s'')]"
    using example_two [OF f(5,1,2), of example_elf] by (simp add: f(4) numeral_2_eq_2)
  moreover have "found [NullSection (example_shs ! 0) (Some ''''), StringTableSection (example_shs ! 1) (Some ''s'')] ''s'' =
     Some (StringTableSection (example_shs ! 1) (Some ''s''))" by (simp add: found_def last_named_def)
  ultimately show ?thesis using elf_sections_read [OF image_check [OF example_image] f(3), of 1 _ 0] by fastforce
qed

text \<open>Section 2 has the wrong entry size, section 3 is called \<open>x\<close>.\<close>

definition example_bad :: "container list" where
  "example_bad = example_shs @ [example_shdr 0 ''SHT_REL'' 0 0 0 7, example_shdr 3 ''SHT_PROGBITS'' 0 0 0 0]"

theorem elf_names_partial_witness:
  "\<exists>E t E'. ELFFile 300 (BytesIO (example_open ''EM_386'' example_bad) 0) = (Inr E, t) \<and>
    get_section_by_name 9 300 ''x'' E = (Inl ELFError, E') \<and> fst (get_section_by_name 9 300 ''x'' E') = Inr None"
proof -
  let ?d = "example_open ''EM_386'' example_bad" and ?eh = "example_ehdr ''EM_386'' example_strs example_bad"
  have c: "image_check ?d example_elf ?eh example_bad" by code_simp
  have f: "take 2 example_bad = example_shs" "title ?d ?eh example_bad (example_bad ! 0) = Some ''''"
    "title ?d ?eh example_bad (example_bad ! 1) = Some ''s''" "length ?d < 300" "length example_bad = 4" by code_simp+
  have e: "\<exists>n<9. section_is ?d example_elf ?eh example_bad n 2 (Inl ELFError)"
  proof -
    have h: "example_bad ! 2 = example_shdr 0 ''SHT_REL'' 0 0 0 7" by (simp add: example_bad_def example_shs_def)
    have "\<not> is_symtab (example_bad ! 2)" unfolding h by code_simp
    moreover have "plain_section example_elf (example_bad ! 2) t = Inl ELFError" for t
      by (simp add: h plain_section_def section_type_def one_of_def example_shdr_def container_getitem_def dict_get_def
          new_RelocationSection_def entry_sizes elf_assert_def assert_with_exception_def example_elf_def)
    ultimately show ?thesis using section_plain [of 2 example_bad ?d example_elf ?eh] by (intro exI [of _ 0]) (simp add: f(5))
  qed
  have s: "list_all2 (\<lambda>i sec. \<exists>n<9. section_is ?d example_elf ?eh example_bad n i (Inr sec)) [0..<2]
     [NullSection (example_bad ! 0) (Some ''''), StringTableSection (example_bad ! 1) (Some ''s'')]"
    using example_two [OF f(1-3), of example_elf] by (auto simp: numeral_2_eq_2 intro!: exI [of _ "0 :: nat"])
  have "found [NullSection (example_bad ! 0) (Some ''''), StringTableSection (example_bad ! 1) (Some ''s'')] ''x'' = None"
    by (simp add: found_def last_named_def)
  then show ?thesis using elf_names_partial [OF image_check [OF c] f(4) s, of ELFError 0 "''x''"] e f(5) by simp
qed

text \<open>Section 2 is a symbol table that is linked to itself.\<close>

definition example_loop :: "container list" where
  "example_loop = example_shs @ [example_shdr 0 ''SHT_SYMTAB'' 0 0 2 16]"

theorem elf_links_end_witness:
  "\<exists>E t. ELFFile 300 (BytesIO (example_open ''EM_386'' example_loop) 0) = (Inr E, t) \<and>
    (\<forall>k. fst (get_section k 300 2 E) = Inl NoFuel) \<and> fst (get_section 3 300 1 E) \<noteq> Inl NoFuel"
proof -
  let ?d = "example_open ''EM_386'' example_loop" and ?eh = "example_ehdr ''EM_386'' example_strs example_loop"
  have c: "image_check ?d example_elf ?eh example_loop" by code_simp
  have f: "length ?d < 300" "length example_loop = 3" by code_simp+
  have l: "links example_loop = {(2, 2)}"
    by (auto simp: links_def example_loop_def example_shs_def is_symtab_def section_type_def one_of_def example_shdr_def container_getitem_def
        dict_get_def less_Suc_eq numeral_3_eq_3 hdr_def header_int_def as_int_def)
  then have cl: "closed_links example_loop" by (simp add: closed_links_def f(2))
  have "cyclic_links example_loop 2" by (auto simp: cyclic_links_def l intro: exI [of _ 2])
  moreover have "(1, j) \<in> (links example_loop)\<^sup>* \<Longrightarrow> j = 1" for j by (induction rule: rtrancl_induct) (simp_all add: l)
  then have "(1, 2) \<notin> (links example_loop)\<^sup>*" by fastforce
  then have "\<not> cyclic_links example_loop 1" by (auto simp: cyclic_links_def l dest!: tranclD)
  ultimately have "(if cyclic_links example_loop 2 then A else B) = A" "(if cyclic_links example_loop 1 then A else B) = B" for A B :: bool by simp_all
  note f' = f(2) this
  obtain E t where E: "ELFFile 300 (BytesIO ?d 0) = (Inr E, t)" "\<forall>i<3. if cyclic_links example_loop i
      then \<forall>k. fst (get_section k 300 (int i) E) = Inl NoFuel else \<forall>k\<ge>3. fst (get_section k 300 (int i) E) \<noteq> Inl NoFuel"
    using elf_links_end [OF image_check [OF c] f(1) cl, of 0] unfolding f(2) by blast
  from E(2) [rule_format, of 2] E(2) [rule_format, of 1] show ?thesis unfolding f' using E(1) by auto
qed

end
