(* ===== verification/ElfRelocs.thy ===== *)
theory ElfRelocs
  imports ElfImage
begin

section \<open>Symbols, segments and relocations of an ELF file\<close>

text \<open>
  The symbol entry of ELF is a codec, with two structures of bits in it; the relocation entries are
  decoders. Applying the relocations of a section is shown to compute, entry by entry, the formula
  of its type on the word at the offset.
\<close>

subsection \<open>The symbol entry\<close>

text \<open>A structure of bits is a codec when its fields are codecs of bits that fill \<open>k\<close> bytes.\<close>

lemma codec_bit_struct:
  assumes fs: "\<forall>f\<in>set fs. plain_field f" "distinct (field_names fs)"
    and size: "\<And>x. sum_sizes (map fst fs) x = Inr (int (8 * k))" and small: "8 * k < 8192" and flags: "\<And>f. f \<in> set fs \<Longrightarrow> conflags (fst f) = 0"
    and len: "\<And>kvs w. fields_enc fs kvs = Some w \<Longrightarrow> length w = 8 * k"
  shows "\<exists>c. BitStruct name (map fst fs) = Inr c \<and> con_name c = name \<and> conflags c = 0 \<and> codec c (buffer_enc (struct_enc fs) decode_bin)"
proof -
  let ?st = "Struct name True (map fst fs)"
  have st: "codec ?st (struct_enc fs)" using fs by (rule codec_struct)
  have size': "con_sizeof ?st x = Inr (int (8 * k))" for x using size by (simp add: Struct_def struct_sizeof_def)
  have "(7::int) = mask 3" by (simp add: mask_eq_exp_minus_1)
  then have "int (8 * k) AND 7 = int (8 * k) mod 2 ^ 3" by (simp only: take_bit_eq_mask [symmetric] take_bit_eq_mod)
  then have res: "bitwise_resizer (int (8 * k)) = Inr (int k)" by (simp add: bitwise_resizer_def drop_bit_eq_div)
  have flags': "conflags ?st = 0" by (rule struct_flags) (use flags in auto)
  let ?c = "Buffered ?st (\<lambda>d. Inr (encode_bin d)) decode_bin bitwise_resizer"
  have small': "int (8 * k) < 8192" using small by linarith
  have c: "BitStruct name (map fst fs) = Inr ?c"
    using size' small' flags' by (simp add: BitStruct_def Bitwise_def is_flag_def sizeof_def del: of_nat_mult)
  moreover have "codec ?c (buffer_enc (struct_enc fs) decode_bin)"
  proof (rule codec_buffered [where n = k])
    fix v x y assume v: "struct_enc fs v = Some x" "decode_bin x = Inr y"
    then have "x = encode_bin y" by (simp add: encode_decode_bin)
    moreover obtain kvs where "fields_enc fs kvs = Some x" using v(1) by (auto simp: struct_enc_def split: pyval.splits)
    then have "length x = 8 * k" by (rule len)
    ultimately show "Inr (encode_bin y) = Inr x \<and> length y = k" by (simp add: length_encode_bin)
  qed (use st size' res in simp_all)
  moreover have "con_name ?st = name" by (simp add: Struct_def)
  then have "con_name ?c = name" "conflags ?c = 0" using flags' by (simp_all add: Buffered_def Let_def)
  ultimately show ?thesis by blast
qed

definition bits_enum :: "enum_map \<Rightarrow> nat \<Rightarrow> pyval \<Rightarrow> string option" where
  "bits_enum kw w = enum_enc (fst kw) (snd kw) (bits_enc w)"

lemma codec_bits_enum: "distinct (map snd (fst kw)) \<Longrightarrow> codec (EnumOf (BitField name (int w) False False 8) kw) (bits_enum kw w)"
  unfolding EnumOf_def bits_enum_def by (rule codec_enum [OF codec_bits])

lemma bits_enum_simps [simp]:
  "con_name (EnumOf (BitField name w False False 8) kw) = name" "conflags (EnumOf (BitField name w False False 8) kw) = 0"
  "con_sizeof (EnumOf (BitField name w False False 8) kw) x = Inr w"
  by (simp_all add: EnumOf_def Enum_def SymmetricMapping_def MappingAdapter_def PureAdapter_def Adapter_def)

lemma bits_enum_length: "bits_enum kw w v = Some b \<Longrightarrow> length b = w"
  by (auto simp: bits_enum_def enum_enc_def bits_enc_def length_bits_of split: pyval.splits option.splits if_splits)

definition info_fields :: "field list" where
  "info_fields = [(EnumOf (BitField (Some ''bind'') 4 False False 8) ENUM_ST_INFO_BIND, bits_enum ENUM_ST_INFO_BIND 4),
     (EnumOf (BitField (Some ''type'') 4 False False 8) ENUM_ST_INFO_TYPE, bits_enum ENUM_ST_INFO_TYPE 4)]"

definition other_fields :: "field list" where
  "other_fields = [(Padding (Fixed 5) [CHR 0x00] False, \<lambda>v. if v = PNone then Some (replicate 5 (CHR 0x00)) else None),
     (EnumOf (BitField (Some ''visibility'') 3 False False 8) ENUM_ST_VISIBILITY, bits_enum ENUM_ST_VISIBILITY 3)]"

lemma enum_maps_distinct: "distinct (map snd (fst ENUM_ST_INFO_BIND))" "distinct (map snd (fst ENUM_ST_INFO_TYPE))"
  "distinct (map snd (fst ENUM_ST_VISIBILITY))" "distinct (map snd (fst ENUM_ST_SHNDX))"
  by (simp_all add: ENUM_ST_INFO_BIND_def ENUM_ST_INFO_TYPE_def ENUM_ST_VISIBILITY_def ENUM_ST_SHNDX_def)

definition st_info_enc :: "pyval \<Rightarrow> string option" where
  "st_info_enc = buffer_enc (struct_enc info_fields) decode_bin"

definition st_other_enc :: "pyval \<Rightarrow> string option" where
  "st_other_enc = buffer_enc (struct_enc other_fields) decode_bin"

lemma codec_st_info: "\<exists>c. st_info_struct = Inr c \<and> con_name c = Some ''st_info'' \<and> conflags c = 0 \<and> codec c st_info_enc"
proof -
  have "\<exists>c. BitStruct (Some ''st_info'') (map fst info_fields) = Inr c \<and> con_name c = Some ''st_info'' \<and> conflags c = 0 \<and> codec c st_info_enc"
    unfolding st_info_enc_def
  proof (rule codec_bit_struct [where k = 1])
    show "\<forall>f\<in>set info_fields. plain_field f"
      using codec_bits_enum [OF enum_maps_distinct(1), of "Some ''bind''" 4] codec_bits_enum [OF enum_maps_distinct(2), of "Some ''type''" 4]
      by (simp add: info_fields_def plain_field_def is_flag_def)
    show "length w = 8 * 1" if "fields_enc info_fields kvs = Some w" for kvs w
      using that by (auto simp: info_fields_def dest!: bits_enum_length split: list.splits option.splits if_splits)
  qed (auto simp: info_fields_def)
  then show ?thesis by (simp add: st_info_struct_def info_fields_def)
qed

lemma codec_st_other: "\<exists>c. st_other_struct = Inr c \<and> con_name c = Some ''st_other'' \<and> conflags c = 0 \<and> codec c st_other_enc"
proof -
  have "\<exists>c. BitStruct (Some ''st_other'') (map fst other_fields) = Inr c \<and> con_name c = Some ''st_other'' \<and> conflags c = 0 \<and> codec c st_other_enc"
    unfolding st_other_enc_def
  proof (rule codec_bit_struct [where k = 1])
    show "\<forall>f\<in>set other_fields. plain_field f"
      using codec_bits_enum [OF enum_maps_distinct(3), of "Some ''visibility''" 3] pad_codec_padding [of 5 "CHR 0x00"]
      by (auto simp: other_fields_def plain_field_def is_flag_def)
    show "length w = 8 * 1" if "fields_enc other_fields kvs = Some w" for kvs w
      using that by (auto simp: other_fields_def dest!: bits_enum_length split: list.splits option.splits if_splits)
  qed (auto simp: other_fields_def)
  then show ?thesis by (simp add: st_other_struct_def other_fields_def)
qed

text \<open>The fields of a symbol, in the order of the class.\<close>

fun named_enc :: "(string \<times> (pyval \<Rightarrow> string option)) list \<Rightarrow> container \<Rightarrow> string option" where
  "named_enc [] kvs = (if kvs = [] then Some [] else None)"
| "named_enc ((n, enc) # fs) kvs = (case kvs of [] \<Rightarrow> None
     | (m, v) # kvs' \<Rightarrow> if m = n then (case (enc v, named_enc fs kvs') of (Some a, Some b) \<Rightarrow> Some (a @ b) | _ \<Rightarrow> None) else None)"

lemma fields_enc_named: "list_all2 (\<lambda>f (n, enc). con_name (fst f) = Some n \<and> snd f = enc) fs ns \<Longrightarrow> fields_enc fs kvs = named_enc ns kvs"
proof (induction arbitrary: kvs rule: list_all2_induct)
  case (Cons f fs n ns)
  obtain m enc where n: "n = (m, enc)" by (cases n)
  have e: "fields_enc fs = named_enc ns" using Cons by auto
  show ?case using Cons.hyps(1) by (cases kvs) (auto simp: n e split: option.split)
qed simp

definition sym_parts :: "elf_structs \<Rightarrow> (string \<times> (pyval \<Rightarrow> string option)) list" where
  "sym_parts S = (let e = elf_endian S; A = addr_format S;
       name = (''st_name'', int_enc e Fmt_L); value = (''st_value'', int_enc e A); n = (''st_size'', int_enc e A);
       bits = [(''st_info'', st_info_enc), (''st_other'', st_other_enc)];
       shndx = (''st_shndx'', enum_enc (fst ENUM_ST_SHNDX) (snd ENUM_ST_SHNDX) (int_enc e Fmt_H))
     in if es_elfclass S = 32 then [name, value, n] @ bits @ [shndx] else [name] @ bits @ [shndx, value, n])"

definition sym_dec :: "elf_structs \<Rightarrow> decoding" where
  "sym_dec S vars b v = (\<exists>kvs. v = PObj kvs \<and> named_enc (sym_parts S) kvs = Some b)"

lemma elf_formats:
  "Elf_half S n = FormatField n (elf_endian S) Fmt_H" "Elf_word S n = FormatField n (elf_endian S) Fmt_L"
  "Elf_word64 S n = FormatField n (elf_endian S) Fmt_Q" "Elf_addr S n = FormatField n (elf_endian S) (addr_format S)"
  "Elf_xword S n = FormatField n (elf_endian S) (addr_format S)"
  "Elf_sxword S n = FormatField n (elf_endian S) (if es_elfclass S = 32 then Fmt_l else Fmt_q)"
  by (simp_all add: elf_fields int_fields elf_endian_def addr_format_def)

lemma enum_format: "con_name (EnumOf (FormatField n e f) kw) = n" "\<not> is_flag FLAG_EMBED (EnumOf (FormatField n e f) kw)"
  using layout_con_name [of n "EnumL e f kw"] layout_con_plain [of n "EnumL e f kw"] by simp_all

lemma decoder_sym: "\<exists>c. Elf_Sym S = Inr c \<and> decoder c (sym_dec S)"
proof -
  obtain c d where c: "st_info_struct = Inr c" "con_name c = Some ''st_info''" "conflags c = 0" "codec c st_info_enc"
    and d: "st_other_struct = Inr d" "con_name d = Some ''st_other''" "conflags d = 0" "codec d st_other_enc"
    using codec_st_info codec_st_other by blast
  let ?name = "(Elf_word S (Some ''st_name''), int_enc (elf_endian S) Fmt_L)"
  let ?addr = "(Elf_addr S (Some ''st_value''), int_enc (elf_endian S) (addr_format S))"
  let ?shndx = "(EnumOf (Elf_half S (Some ''st_shndx'')) ENUM_ST_SHNDX, enum_enc (fst ENUM_ST_SHNDX) (snd ENUM_ST_SHNDX) (int_enc (elf_endian S) Fmt_H))"
  let ?bits = "[(c, st_info_enc), (d, st_other_enc)]"
  let ?fs = "if es_elfclass S = 32 then [?name, ?addr, (Elf_word S (Some ''st_size''), int_enc (elf_endian S) Fmt_L)] @ ?bits @ [?shndx]
     else [?name] @ ?bits @ [?shndx, ?addr, (Elf_xword S (Some ''st_size''), int_enc (elf_endian S) (addr_format S))]"
  have s: "codec (EnumOf (FormatField n e f) ENUM_ST_SHNDX) (enum_enc (fst ENUM_ST_SHNDX) (snd ENUM_ST_SHNDX) (int_enc e f))" for n e f
    unfolding EnumOf_def by (rule codec_enum [OF codec_int enum_maps_distinct(4)])
  have "\<forall>f\<in>set ?fs. plain_field f" using c d s by (auto simp: plain_field_def elf_formats codec_int is_flag_def [of _ c] is_flag_def [of _ d] enum_format)
  moreover have "distinct (field_names ?fs)" using c d by (simp add: elf_formats enum_format)
  ultimately have st: "codec (Struct (Some ''Elf_Sym'') True (map fst ?fs)) (struct_enc ?fs)" by (rule codec_struct)
  have "fields_enc ?fs kvs = named_enc (sym_parts S) kvs" for kvs
    by (rule fields_enc_named) (use c d in \<open>auto simp: sym_parts_def Let_def elf_formats enum_format addr_format_def\<close>)
  then have "struct_enc ?fs v = Some b \<longleftrightarrow> sym_dec S vars b v" for vars b v by (auto simp: struct_enc_def sym_dec_def split: pyval.splits)
  then have "decoder (Struct (Some ''Elf_Sym'') True (map fst ?fs)) (sym_dec S)" using decoder_codec [OF st] by (auto simp: decoder_def)
  moreover have "Elf_Sym S = Inr (Struct (Some ''Elf_Sym'') True (map fst ?fs))" unfolding Elf_Sym_def c(1) d(1) by simp
  ultimately show ?thesis by blast
qed

subsection \<open>The relocation entries\<close>

definition rel_sym :: "elf_structs \<Rightarrow> int \<Rightarrow> int" where
  "rel_sym S info = (if es_elfclass S = 32 then drop_bit 8 info AND 0xFFFFFF else drop_bit 32 info AND 0xFFFFFFFF)"

definition rel_type :: "elf_structs \<Rightarrow> int \<Rightarrow> int" where
  "rel_type S info = (if es_elfclass S = 32 then info AND 0xFF else info AND 0xFFFFFFFF)"

definition rel_container :: "elf_structs \<Rightarrow> int \<Rightarrow> int \<Rightarrow> int option \<Rightarrow> container" where
  "rel_container S off info addend = [(''r_offset'', PInt off), (''r_info'', PInt info), (''r_info_sym'', PInt (rel_sym S info)),
     (''r_info_type'', PInt (rel_type S info))] @ (case addend of None \<Rightarrow> [] | Some a \<Rightarrow> [(''r_addend'', PInt a)])"

definition rel_dec :: "elf_structs \<Rightarrow> decoding" where
  "rel_dec S vars b v = (\<exists>off info x y. v = PObj (rel_container S off info None) \<and> b = x @ y \<and>
     int_enc (elf_endian S) (addr_format S) (PInt off) = Some x \<and> int_enc (elf_endian S) (addr_format S) (PInt info) = Some y)"

definition rela_dec :: "elf_structs \<Rightarrow> decoding" where
  "rela_dec S vars b v = (\<exists>off info a x y z. v = PObj (rel_container S off info (Some a)) \<and> b = x @ y @ z \<and>
     int_enc (elf_endian S) (addr_format S) (PInt off) = Some x \<and> int_enc (elf_endian S) (addr_format S) (PInt info) = Some y \<and>
     int_enc (elf_endian S) (if es_elfclass S = 32 then Fmt_l else Fmt_q) (PInt a) = Some z)"

definition value_dec :: "(ctx \<Rightarrow> pyexc + pyval) \<Rightarrow> decoding" where
  "value_dec f vars b v = (b = [] \<and> (\<forall>c. c_vars c = vars \<longrightarrow> f c = Inr v))"

lemma decoder_value: "decoder (Value n f) (value_dec f)"
proof
  fix s :: pstate and b v x r
  assume "value_dec f (c_vars (p_ctx s)) b v" "p_stream s = BytesIO (x @ b @ r) (length x)"
  then show "\<exists>objs. con_parse (Value n f) s =
      (Inr v, s\<lparr>p_stream := BytesIO (x @ b @ r) (length x + length b), p_objs := p_objs s @ objs\<rparr>)"
    by (intro exI [of _ "[]"]) (simp add: Value_def value_dec_def pm_simps)
qed

definition rel_fields :: "elf_structs \<Rightarrow> dfield list" where
  "rel_fields S = [(Elf_addr S (Some ''r_offset''), int_dec (elf_endian S) (addr_format S)), (Elf_xword S (Some ''r_info''), int_dec (elf_endian S) (addr_format S)),
     (r_info_sym S, value_dec (\<lambda>c. ebind (ctx_int ''r_info'' c) (\<lambda>i. Inr (PInt (rel_sym S i))))),
     (r_info_type S, value_dec (\<lambda>c. ebind (ctx_int ''r_info'' c) (\<lambda>i. Inr (PInt (rel_type S i)))))]"

lemma plain_value: "\<not> is_flag FLAG_EMBED (Value n f)" "con_name (Value n f) = Some n"
  by (simp_all add: is_flag_embed Value_def set_flag_def FLAG_DYNAMIC_def bit_simps)

lemma fields_Cons_empty: "con_name c = Some n \<Longrightarrow> dec vars [] v \<Longrightarrow> fields_dec fs (container_setitem vars n v) b kvs \<Longrightarrow>
    fields_dec ((c, dec) # fs) vars b kvs"
  using fields_Cons [of c n dec vars "[]" v fs b kvs] by simp

lemma rel_fields_dec:
  assumes "int_enc (elf_endian S) (addr_format S) (PInt off) = Some x" "int_enc (elf_endian S) (addr_format S) (PInt info) = Some y"
    and "fields_dec fs (rel_container S off info None) z kvs"
  shows "fields_dec (rel_fields S @ fs) [] (x @ y @ z) kvs"
proof -
  have v: "value_dec (\<lambda>c. ebind (ctx_int ''r_info'' c) (\<lambda>i. Inr (PInt (g i)))) vars [] (PInt (g info))" if "map_of vars ''r_info'' = Some (PInt info)"
    for g vars
    using that by (auto simp: value_dec_def ctx_int_def ctx_item_def container_getitem_def dict_get_def)
  show ?thesis unfolding rel_fields_def append.simps
    by (rule fields_Cons [of _ _ _ _ _ "PInt off"], simp add: elf_formats, simp add: int_dec_def assms(1), rule fields_Cons [of _ _ _ _ _ "PInt info"],
        simp add: elf_formats, simp add: int_dec_def assms(2), rule fields_Cons_empty, simp add: r_info_sym_def plain_value, rule v,
        simp add: container_setitem_def, rule fields_Cons_empty, simp add: r_info_type_def plain_value, rule v, simp add: container_setitem_def)
      (use assms(3) in \<open>simp add: container_setitem_def rel_container_def\<close>)
qed

lemma decoder_rel: "decoder (Elf_Rel S) (rel_dec S)" and decoder_rela: "decoder (Elf_Rela S) (rela_dec S)"
proof -
  let ?a = "(Elf_sxword S (Some ''r_addend''), int_dec (elf_endian S) (if es_elfclass S = 32 then Fmt_l else Fmt_q))"
  have p: "\<forall>f\<in>set (rel_fields S @ [?a]). plain_decoder f"
    using decoder_value by (auto simp: rel_fields_def plain_decoder_def elf_formats decoder_int r_info_sym_def r_info_type_def plain_value rel_sym_def rel_type_def)
  have e: "Elf_Rel S = Struct (Some ''Elf_Rel'') True (map fst (rel_fields S))" "Elf_Rela S = Struct (Some ''Elf_Rela'') True (map fst (rel_fields S @ [?a]))"
    by (simp_all add: Elf_Rel_def Elf_Rela_def rel_fields_def)
  show "decoder (Elf_Rel S) (rel_dec S)" unfolding e(1)
  proof (rule decoder_weaken [OF decoder_struct])
    fix vars b w assume "rel_dec S vars b w"
    then show "struct_dec (rel_fields S) vars b w"
      using rel_fields_dec [of S _ _ _ _ "[]" "[]"] by (auto simp: rel_dec_def struct_dec_def)
  qed (use p in auto)
  show "decoder (Elf_Rela S) (rela_dec S)" unfolding e(2)
  proof (rule decoder_weaken [OF decoder_struct])
    fix vars b w assume "rela_dec S vars b w"
    then obtain off info a x y z where r: "w = PObj (rel_container S off info (Some a))" "b = x @ y @ z"
      "int_enc (elf_endian S) (addr_format S) (PInt off) = Some x" "int_enc (elf_endian S) (addr_format S) (PInt info) = Some y"
      "int_enc (elf_endian S) (if es_elfclass S = 32 then Fmt_l else Fmt_q) (PInt a) = Some z" by (auto simp: rela_dec_def)
    have "fields_dec [?a] (rel_container S off info None) (z @ []) (rel_container S off info (Some a))"
      by (rule fields_Cons [of _ _ _ _ _ "PInt a"], simp add: elf_formats, simp add: int_dec_def r(5),
          simp add: container_setitem_def rel_container_def)
    then show "struct_dec (rel_fields S @ [?a]) vars b w"
      using rel_fields_dec [OF r(3,4), of "[?a]" z] r(1,2) by (simp add: struct_dec_def)
  qed (use p in auto)
qed

subsection \<open>Reading symbols\<close>

lemma named_enc_int:
  "named_enc ns kvs = Some b \<Longrightarrow> (n, int_enc e f) \<in> set ns \<Longrightarrow> distinct (map fst ns) \<Longrightarrow> \<not> fmt_signed f \<Longrightarrow>
    header_int kvs n = Inr (hdr kvs n) \<and> 0 \<le> hdr kvs n"
proof (induction ns arbitrary: kvs b)
  case (Cons m ns)
  obtain k enc where m: "m = (k, enc)" by (cases m)
  obtain v kvs' x y where e: "kvs = (k, v) # kvs'" "enc v = Some x" "named_enc ns kvs' = Some y"
    using Cons.prems(1) by (auto simp: m split: list.splits option.splits if_splits)
  show ?case
  proof (cases "k = n")
    case True
    then have "enc = int_enc e f" using Cons.prems(2,3) by (force simp: m)
    then obtain i where "v = PInt i" "0 \<le> i" using unsigned_enc e(2) Cons.prems(4) by blast
    then show ?thesis using e(1) True by (simp add: header_int_def hdr_def container_getitem_def dict_get_def as_int_def)
  next
    case False
    then have "header_int kvs n = header_int kvs' n" using e(1) by (simp add: header_int_def container_getitem_def dict_get_def)
    then show ?thesis using Cons.IH [OF e(3)] Cons.prems False by (auto simp: m hdr_def)
  qed
qed simp

lemma sym_ints:
  assumes "sym_dec S vars b (PObj kvs)"
  shows "header_int kvs ''st_name'' = Inr (hdr kvs ''st_name'')" "0 \<le> hdr kvs ''st_name''"
    "header_int kvs ''st_value'' = Inr (hdr kvs ''st_value'')" "0 \<le> hdr kvs ''st_value''"
proof -
  have e: "named_enc (sym_parts S) kvs = Some b" using assms by (simp add: sym_dec_def)
  have d: "distinct (map fst (sym_parts S))" "(''st_name'', int_enc (elf_endian S) Fmt_L) \<in> set (sym_parts S)"
    "(''st_value'', int_enc (elf_endian S) (addr_format S)) \<in> set (sym_parts S)"
    by (auto simp: sym_parts_def Let_def)
  show "header_int kvs ''st_name'' = Inr (hdr kvs ''st_name'')" "0 \<le> hdr kvs ''st_name''"
    "header_int kvs ''st_value'' = Inr (hdr kvs ''st_value'')" "0 \<le> hdr kvs ''st_value''"
    using named_enc_int [OF e d(2,1)] named_enc_int [OF e d(3,1)] by simp_all
qed

text \<open>A table of entries: \<open>entries_at\<close> of a section says what they decode to.\<close>

definition entries_at :: "string \<Rightarrow> container \<Rightarrow> decoding \<Rightarrow> container list \<Rightarrow> bool" where
  "entries_at d h dec es = (hdr h ''sh_size'' div hdr h ''sh_entsize'' = int (length es) \<and> 0 < hdr h ''sh_entsize'' \<and>
     (\<forall>i<length es. holds_at d (hdr h ''sh_offset'' + int i * hdr h ''sh_entsize'') dec (PObj (es ! i))))"

lemma section_ints:
  assumes "layout_enc (shdr_layout S) (PObj (sh_header sec)) = Some b"
  shows "section_int sec ''sh_offset'' = Inr (hdr (sh_header sec) ''sh_offset'')" "0 \<le> hdr (sh_header sec) ''sh_offset''"
    "section_int sec ''sh_entsize'' = Inr (hdr (sh_header sec) ''sh_entsize'')" "section_int sec ''sh_size'' = Inr (hdr (sh_header sec) ''sh_size'')"
    "section_int sec ''sh_link'' = Inr (hdr (sh_header sec) ''sh_link'')" "0 \<le> hdr (sh_header sec) ''sh_link''" "0 \<le> hdr (sh_header sec) ''sh_size''"
  using shdr_int [OF assms] by (simp_all add: section_int_def section_getitem_def header_int_def)

lemma entries_of_section:
  assumes "layout_enc (shdr_layout S) (PObj (sh_header sec)) = Some b" "entries_at d (sh_header sec) dec es"
  shows "entry_count sec = Inr (int (length es))"
    "i < length es \<Longrightarrow> entry_offset sec (int i) = Inr (hdr (sh_header sec) ''sh_offset'' + int i * hdr (sh_header sec) ''sh_entsize'')"
  using section_ints [OF assms(1)] assms(2) by (simp_all add: entry_count_def entry_offset_def entries_at_def py_floordiv_def)

definition symbol_of :: "string \<Rightarrow> container \<Rightarrow> container \<Rightarrow> elf_symbol" where
  "symbol_of d strs entry = \<lparr>sy_entry = entry, sy_name = cstring_at d (hdr strs ''sh_offset'' + hdr entry ''st_name'')\<rparr>"

lemma finds_symbol:
  assumes "layout_enc (shdr_layout S) (PObj h) = Some b" "layout_enc (shdr_layout S) (PObj strs) = Some b'"
    and "entries_at d h (sym_dec S) es" "i < length es" "length d < fuel"
  shows "finds (BytesIO d) (get_symbol fuel S (SymbolTableSection h t (StringTableSection strs t')) (int i)) (Inr (symbol_of d strs (es ! i)))"
proof -
  let ?sec = "SymbolTableSection h t (StringTableSection strs t')"
  obtain c where c: "Elf_Sym S = Inr c" "decoder c (sym_dec S)" using decoder_sym by blast
  have o: "entry_offset ?sec (int i) = Inr (hdr h ''sh_offset'' + int i * hdr h ''sh_entsize'')"
    using entries_of_section(2) [of S ?sec] assms by simp
  have a: "holds_at d (hdr h ''sh_offset'' + int i * hdr h ''sh_entsize'') (sym_dec S) (PObj (es ! i))" using assms(3,4) by (simp add: entries_at_def)
  then obtain w where "sym_dec S [] w (PObj (es ! i))" by (auto simp: holds_at_def)
  note y = sym_ints [OF this]
  have s: "section_int (StringTableSection strs t') ''sh_offset'' = Inr (hdr strs ''sh_offset'')" "0 \<le> hdr strs ''sh_offset''"
    using section_ints(1,2) [of S "StringTableSection strs t'"] assms(2) by simp_all
  have g: "finds (BytesIO d) (get_string fuel (StringTableSection strs t') (hdr (es ! i) ''st_name''))
      (Inr (cstring_at d (hdr strs ''sh_offset'' + hdr (es ! i) ''st_name'')))"
    unfolding get_string_def elf_section.case s(1) by (rule finds_bind, rule finds_prims(4), rule finds_cstring) (use s(2) y(2) assms(5) in simp_all)
  show ?thesis unfolding get_symbol_def elf_section.case o c(1) symbol_of_def
    by (rule finds_bind, rule finds_prims(4), rule finds_bind, rule finds_prims(4), rule finds_bind, rule finds_parse [OF c(2) a assms(5)],
        simp only: header_of_def pyval.case, rule finds_bind, rule finds_prims(4), simp only: y(1), rule finds_bind, rule finds_prims(4),
        rule finds_bind, rule g, rule finds_prims(1))
qed

lemma finds_symbols:
  assumes "layout_enc (shdr_layout S) (PObj h) = Some b" "layout_enc (shdr_layout S) (PObj strs) = Some b'"
    and "entries_at d h (sym_dec S) es" "length d < fuel"
  shows "finds (BytesIO d) (iter_symbols fuel S (SymbolTableSection h t (StringTableSection strs t'))) (Inr (map (symbol_of d strs) es))"
proof -
  have n: "num_symbols (SymbolTableSection h t (StringTableSection strs t')) = Inr (int (length es))"
    using entries_of_section(1) [of S "SymbolTableSection h t (StringTableSection strs t')"] assms by (simp add: num_symbols_def)
  show ?thesis unfolding iter_symbols_def n
    by (rule finds_bind, rule finds_prims(4), rule finds_smap) (use finds_symbol [OF assms(1-3) _ assms(4)] in \<open>auto simp: py_range_def list_all2_conv_all_nth\<close>)
qed

subsection \<open>Words in the data of a section\<close>

definition word_at :: "endian \<Rightarrow> nat \<Rightarrow> string \<Rightarrow> int \<Rightarrow> int" where
  "word_at e n d off = le_value ((if e = Little then id else rev) (take n (drop (nat off) d)))"

definition put_word :: "endian \<Rightarrow> nat \<Rightarrow> string \<Rightarrow> int \<Rightarrow> int \<Rightarrow> string" where
  "put_word e n d off v = take (nat off) d @ (if e = Little then id else rev) (le_bytes n v) @ drop (nat off + n) d"

lemma parse_word:
  assumes "\<not> fmt_signed f" "0 \<le> off"
  shows "\<exists>p'. struct_parse fuel (FormatField n e f) (Some off) (BytesIO d p) =
    (if nat off + fmt_size f \<le> length d then Inr (PInt (word_at e (fmt_size f) d off)) else Inl ELFParseError, BytesIO d p')"
proof -
  have "0 < fmt_size f" by (cases f) simp_all
  then have l: "fmt_size f \<le> length d - nat off \<longleftrightarrow> nat off + fmt_size f \<le> length d" by linarith
  have r: "read_stream (int (fmt_size f)) (start_state fuel (BytesIO d (nat off))) =
    (if nat off + fmt_size f \<le> length d then (Inr (take (fmt_size f) (drop (nat off) d)), start_state fuel (BytesIO d (nat off + fmt_size f)))
     else (Inl FieldError, start_state fuel (BytesIO d (nat off + (length d - nat off)))))"
    using read_stream_bytes [of "start_state fuel (BytesIO d (nat off))" d "nat off" "fmt_size f"] by (simp add: start_state_def l)
  have t: "p_stream (start_state fuel t) = t" for t by (simp add: start_state_def)
  show ?thesis using assms
    by (auto simp: struct_parse_def scatch_def sbind_apply parse_stream_def Let_def FormatField_def r t is_exception_def is_construct_error_def
        unpack_def word_at_def)
qed

lemma build_word:
  assumes "\<not> fmt_signed f" "p + fmt_size f \<le> length d"
  shows "build_stream fuel (FormatField n e f) (PInt v) (BytesIO d p) =
    (if 0 \<le> v \<and> v < 2 ^ (8 * fmt_size f) then (Inr (), BytesIO (put_word e (fmt_size f) d (int p) v) (p + fmt_size f)) else (Inl FieldError, BytesIO d p))"
proof -
  let ?x = "(if e = Little then id else rev) (le_bytes (fmt_size f) v)"
  have "length ?x = fmt_size f" by simp
  then have w: "write_stream (int (fmt_size f)) (PStr ?x) (start_state fuel (BytesIO d p)) =
      (Inr (), start_state fuel (BytesIO (overwrite d p ?x) (p + fmt_size f)))"
    using write_stream_bytes [of "start_state fuel (BytesIO d p)" d p ?x] by (simp add: start_state_def)
  have o: "overwrite d p ?x = put_word e (fmt_size f) d (int p) v" using assms(2) by (simp add: overwrite_def put_word_def)
  have t: "p_stream (start_state fuel t) = t" for t by (simp add: start_state_def)
  show ?thesis using assms(1) w unfolding o
    by (auto simp: build_stream_def FormatField_def scatch_def sbind_apply pack_def fmt_min_def fmt_max_def is_exception_def t)
qed

subsection \<open>Relocations\<close>

text \<open>
  The formulas of the types, by architecture: the size of the word, and its new value from the word, the
  value of the symbol, the offset of the place and the addend of the entry. Entries of one architecture
  have no addend, those of the other have one.
\<close>

definition reloc_formula :: "string \<Rightarrow> bool \<Rightarrow> int \<Rightarrow> (nat \<times> (int \<Rightarrow> int \<Rightarrow> int \<Rightarrow> int \<Rightarrow> int)) option" where
  "reloc_formula arch has_addend ty =
     (if arch = ''x86'' \<and> \<not> has_addend then
        map_of [(0, (4, \<lambda>w s p a. w)), (1, (4, \<lambda>w s p a. s + w)), (2, (4, \<lambda>w s p a. s + w - p))] ty
      else if arch = ''x64'' \<and> has_addend then
        map_of [(0, (8, \<lambda>w s p a. w)), (1, (8, \<lambda>w s p a. s + a)), (10, (4, \<lambda>w s p a. s + a)), (11, (4, \<lambda>w s p a. s + a))] ty
      else None)"

type_synonym reloc = "int \<times> int \<times> int option"

fun relocated :: "string \<Rightarrow> elf_structs \<Rightarrow> int list \<Rightarrow> reloc \<Rightarrow> string \<Rightarrow> pyexc + string" where
  "relocated arch S vals (off, info, addend) data =
     (if int (length vals) \<le> rel_sym S info then Inl ELFRelocationError
      else case reloc_formula arch (addend \<noteq> None) (rel_type S info) of None \<Rightarrow> Inl ELFRelocationError
      | Some (n, f) \<Rightarrow>
          if length data < nat off + n then Inl ELFParseError
          else let v = f (word_at (elf_endian S) n data off) (vals ! nat (rel_sym S info)) off (case addend of None \<Rightarrow> 0 | Some a \<Rightarrow> a)
            in if 0 \<le> v \<and> v < 2 ^ (8 * n) then Inr (put_word (elf_endian S) n data off v) else Inl FieldError)"

fun relocate_all :: "string \<Rightarrow> elf_structs \<Rightarrow> int list \<Rightarrow> reloc list \<Rightarrow> string \<Rightarrow> (pyexc + unit) \<times> string" where
  "relocate_all arch S vals [] data = (Inr (), data)"
| "relocate_all arch S vals (r # rs) data = (case relocated arch S vals r data of
     Inl e \<Rightarrow> (Inl e, data) | Inr data' \<Rightarrow> relocate_all arch S vals rs data')"

lemma rel_sym_nonneg: "0 \<le> rel_sym S info"
  by (simp add: rel_sym_def)

lemma rel_container_ints:
  "reloc_int (rel_container S off info addend) ''r_offset'' = Inr off" "reloc_int (rel_container S off info addend) ''r_info_sym'' = Inr (rel_sym S info)"
  "reloc_int (rel_container S off info addend) ''r_info_type'' = Inr (rel_type S info)"
  "reloc_is_RELA (rel_container S off info addend) = (addend \<noteq> None)" "addend = Some a \<Longrightarrow> reloc_int (rel_container S off info addend) ''r_addend'' = Inr a"
  by (auto simp: reloc_int_def reloc_getitem_def rel_container_def container_getitem_def dict_get_def as_int_def
      reloc_is_RELA_def container_contains_def split: option.split)

lemma recipe_formula:
  "find_recipe arch (rel_container S off info addend) = (case reloc_formula arch (addend \<noteq> None) (rel_type S info) of
     None \<Rightarrow> Inl ELFRelocationError
   | Some (n, f) \<Rightarrow> Inr \<lparr>rc_bytesize = int n, rc_has_addend = (addend \<noteq> None), rc_calc_func = f\<rparr>)"
proof -
  have 86: "RELOCATION_RECIPES_X86 = [(0, \<lparr>rc_bytesize = 4, rc_has_addend = False, rc_calc_func = \<lambda>w s p a. w\<rparr>),
      (1, \<lparr>rc_bytesize = 4, rc_has_addend = False, rc_calc_func = \<lambda>w s p a. s + w\<rparr>),
      (2, \<lparr>rc_bytesize = 4, rc_has_addend = False, rc_calc_func = \<lambda>w s p a. s + w - p\<rparr>)]"
    by (simp add: RELOCATION_RECIPES_X86_def ENUM_RELOC_TYPE_i386_def reloc_calc_identity_def [abs_def] reloc_calc_sym_plus_value_def [abs_def]
        reloc_calc_sym_plus_value_pcrel_def [abs_def])
  have 64: "RELOCATION_RECIPES_X64 = [(0, \<lparr>rc_bytesize = 8, rc_has_addend = True, rc_calc_func = \<lambda>w s p a. w\<rparr>),
      (1, \<lparr>rc_bytesize = 8, rc_has_addend = True, rc_calc_func = \<lambda>w s p a. s + a\<rparr>),
      (10, \<lparr>rc_bytesize = 4, rc_has_addend = True, rc_calc_func = \<lambda>w s p a. s + a\<rparr>),
      (11, \<lparr>rc_bytesize = 4, rc_has_addend = True, rc_calc_func = \<lambda>w s p a. s + a\<rparr>)]"
    by (simp add: RELOCATION_RECIPES_X64_def ENUM_RELOC_TYPE_x64_def reloc_calc_identity_def [abs_def] reloc_calc_sym_plus_addend_def [abs_def])
  show ?thesis by (auto simp: find_recipe_def rel_container_ints 86 64 reloc_formula_def)
qed

lemma formula_sizes: "reloc_formula arch has_addend ty = Some (n, f) \<Longrightarrow> n = 4 \<or> n = 8"
  by (auto simp: reloc_formula_def split: if_splits)

text \<open>The symbols of a file, and what the theorem on relocations needs to know of it.\<close>

definition reloc_env :: "string \<Rightarrow> elf_structs \<Rightarrow> container \<Rightarrow> container \<Rightarrow> container list \<Rightarrow> string \<Rightarrow> elf_file \<Rightarrow> bool" where
  "reloc_env d S h strs es arch E = (ef_structs E = S \<and> get_machine_arch E = Inr arch \<and>
     layout_enc (shdr_layout S) (PObj h) \<noteq> None \<and> layout_enc (shdr_layout S) (PObj strs) \<noteq> None \<and> entries_at d h (sym_dec S) es)"

definition sym_values :: "container list \<Rightarrow> int list" where
  "sym_values es = map (\<lambda>e. hdr e ''st_value'') es"

lemma apply_one:
  assumes "reloc_env d S h strs es arch E" "length d < fuel" "0 \<le> off"
  shows "\<exists>q' p'. do_apply_relocation fuel (rel_container S off info addend) (SymbolTableSection h t (StringTableSection strs t')) (opened E d q, BytesIO data p) =
    (case relocated arch S (sym_values es) (off, info, addend) data of Inl e \<Rightarrow> (Inl e, (opened E d q', BytesIO data p'))
     | Inr data' \<Rightarrow> (Inr (), (opened E d q', BytesIO data' p')))"
proof -
  let ?sec = "SymbolTableSection h t (StringTableSection strs t')" and ?r = "rel_container S off info addend" and ?j = "rel_sym S info"
  obtain b b' where b: "layout_enc (shdr_layout S) (PObj h) = Some b" "layout_enc (shdr_layout S) (PObj strs) = Some b'"
    and es: "entries_at d h (sym_dec S) es" and E: "ef_structs E = S" "get_machine_arch E = Inr arch"
    using assms(1) by (auto simp: reloc_env_def)
  have n: "num_symbols ?sec = Inr (int (length es))" using entries_of_section(1) [of S ?sec] b(1) es by (simp add: num_symbols_def)
  show ?thesis
  proof (cases "int (length es) \<le> ?j")
    case True
    then show ?thesis by (intro exI [of _ q] exI [of _ p]) (simp add: do_apply_relocation_def sbind_apply rel_container_ints n sym_values_def)
  next
    case False
    then have j: "nat ?j < length es" "int (nat ?j) = ?j" using rel_sym_nonneg [of S info] by (simp_all add: nat_less_iff)
    let ?y = "symbol_of d strs (es ! nat ?j)" and ?v = "hdr (es ! nat ?j) ''st_value''"
    have "finds (opened E d) (on_file (\<lambda>E. get_symbol fuel (ef_structs E) ?sec ?j)) (Inr ?y)"
      using finds_symbol [OF b es j(1) assms(2), of t t'] unfolding j(2) by (intro finds_file) (simp add: E)
    then obtain q' where "on_file (\<lambda>E. get_symbol fuel (ef_structs E) ?sec ?j) (opened E d q) = (Inr ?y, opened E d q')"
      using findsD by blast
    then have sym: "on_elf (on_file (\<lambda>E. get_symbol fuel (ef_structs E) ?sec ?j)) (opened E d q, BytesIO data p) = (Inr ?y, (opened E d q', BytesIO data p))"
      by (simp add: on_elf_def)
    obtain w where "sym_dec S [] w (PObj (es ! nat ?j))" using es j(1) by (auto simp: entries_at_def holds_at_def)
    then have v: "ebind (symbol_getitem ?y ''st_value'') as_int = Inr ?v"
      using sym_ints(3) by (simp add: symbol_getitem_def symbol_of_def header_int_def)
    have vals: "sym_values es ! nat ?j = ?v" "length (sym_values es) = length es" using j(1) by (simp_all add: sym_values_def)
    have ar: "get_machine_arch (opened E d q') = Inr arch" using E(2) by (simp add: get_machine_arch_def)
    show ?thesis
    proof (cases "reloc_formula arch (addend \<noteq> None) (rel_type S info)")
      case None
      then show ?thesis using False sym v ar
        by (intro exI [of _ q'] exI [of _ p]) (simp add: do_apply_relocation_def sbind_apply rel_container_ints n on_elf_def recipe_formula vals)
    next
      case (Some nf)
      then obtain m f where f: "reloc_formula arch (addend \<noteq> None) (rel_type S info) = Some (m, f)" by (cases nf) auto
      let ?R = "\<lparr>rc_bytesize = int m, rc_has_addend = (addend \<noteq> None), rc_calc_func = f\<rparr>"
      obtain fmt where fmt: "value_struct S ?R = Inr (FormatField (Some '''') (elf_endian S) fmt)" "fmt_size fmt = m" "\<not> fmt_signed fmt"
        using formula_sizes [OF f] by (auto simp: value_struct_def elf_formats fmt_signed_def intro: that)
      let ?a = "case addend of None \<Rightarrow> 0 | Some a \<Rightarrow> a"
      have a: "(if addend \<noteq> None then reloc_int ?r ''r_addend'' else Inr 0) = Inr ?a" by (cases addend) (simp_all add: rel_container_ints)
      obtain p1 where p1: "struct_parse fuel (FormatField (Some '''') (elf_endian S) fmt) (Some off) (BytesIO data p) =
          (if nat off + m \<le> length data then Inr (PInt (word_at (elf_endian S) m data off)) else Inl ELFParseError, BytesIO data p1)"
        using parse_word [OF fmt(3) assms(3)] unfolding fmt(2) by blast
      have so_far: "do_apply_relocation fuel ?r ?sec (opened E d q, BytesIO data p) =
          (sbind (on_data (sbind (struct_parse fuel (FormatField (Some '''') (elf_endian S) fmt) (Some off)) (\<lambda>v. slift (as_int v)))) (\<lambda>original_value.
             sbind (slift (Inr ?a)) (\<lambda>addend. let relocated_value = f original_value ?v off addend in
             sbind (on_data (stream_seek off 0)) (\<lambda>_. on_data (build_stream fuel (FormatField (Some '''') (elf_endian S) fmt) (PInt relocated_value)))))
           (opened E d q', BytesIO data p))"
      proof -

        have 1: "on_elf (\<lambda>E. (get_machine_arch E, E)) (opened E d q', BytesIO data p) = (Inr arch, (opened E d q', BytesIO data p))"
          and 2: "on_elf (\<lambda>E. (value_struct (ef_structs E) ?R, E)) (opened E d q', BytesIO data p) =
            (Inr (FormatField (Some '''') (elf_endian S) fmt), (opened E d q', BytesIO data p))"
          using ar fmt(1) E by (simp_all add: on_elf_def)
        have 3: "find_recipe arch ?r = Inr ?R" unfolding recipe_formula f by simp
        show ?thesis using False unfolding do_apply_relocation_def rel_container_ints(2) n
          by (simp only: sbind_sret(2) if_False sbind_Inr sym v 1 3 2 rel_container_ints(1) reloc_recipe.select_convs a)
      qed
      show ?thesis
      proof (cases "nat off + m \<le> length data")
        case False
        then show ?thesis using \<open>\<not> int (length es) \<le> ?j\<close> f unfolding so_far
          by (intro exI [of _ q'] exI [of _ p1]) (simp add: on_data_def sbind_apply p1 vals)
      next
        case True
        let ?new = "f (word_at (elf_endian S) m data off) ?v off ?a"
        have w: "build_stream fuel (FormatField (Some '''') (elf_endian S) fmt) (PInt ?new) (BytesIO data (nat off)) =
            (if 0 \<le> ?new \<and> ?new < 2 ^ (8 * m) then (Inr (), BytesIO (put_word (elf_endian S) m data off ?new) (nat off + m)) else (Inl FieldError, BytesIO data (nat off)))"
          using build_word [OF fmt(3), of "nat off" data fuel] True fmt(2) assms(3) by simp
        show ?thesis using \<open>\<not> int (length es) \<le> ?j\<close> f True assms(3) unfolding so_far
          by (intro exI [of _ q'] exI [of _ "if 0 \<le> ?new \<and> ?new < 2 ^ (8 * m) then nat off + m else nat off"])
            (simp add: on_data_def sbind_apply p1 vals w as_int_def Let_def)
      qed
    qed
  qed
qed

definition reloc_containers :: "elf_structs \<Rightarrow> reloc list \<Rightarrow> container list" where
  "reloc_containers S rs = map (\<lambda>(off, info, addend). rel_container S off info addend) rs"

definition reloc_dec :: "elf_structs \<Rightarrow> bool \<Rightarrow> decoding" where
  "reloc_dec S rela = (if rela then rela_dec S else rel_dec S)"

definition reloc_struct :: "elf_structs \<Rightarrow> bool \<Rightarrow> construct" where
  "reloc_struct S rela = (if rela then Elf_Rela S else Elf_Rel S)"

lemma decoder_reloc: "decoder (reloc_struct S rela) (reloc_dec S rela)"
  by (simp add: reloc_struct_def reloc_dec_def decoder_rel decoder_rela)

lemma reloc_offset_nonneg: "reloc_dec S rela [] b (PObj (rel_container S off info addend)) \<Longrightarrow> 0 \<le> off"
  by (auto simp: reloc_dec_def rel_dec_def rela_dec_def rel_container_def dest!: unsigned_enc [OF _ unsigned_formats(3)] split: if_splits option.splits)

lemma apply_loop_relocs:
  assumes "reloc_env d S h strs es arch E" "length d < fuel"
    and r: "layout_enc (shdr_layout S) (PObj rh) = Some b" "entries_at d rh (reloc_dec S rela) (reloc_containers S rs)"
    and "j \<le> length rs"
  shows "\<exists>q' p'. apply_loop fuel (RelocationSection rh rt (reloc_struct S rela)) (SymbolTableSection h t (StringTableSection strs t'))
      (map int [j..<length rs]) (opened E d q, BytesIO data p) =
    (fst (relocate_all arch S (sym_values es) (drop j rs) data),
      (opened E d q', BytesIO (snd (relocate_all arch S (sym_values es) (drop j rs) data)) p'))"
  using assms(5)
proof (induction "length rs - j" arbitrary: j q data p)
  case 0
  then show ?case by (intro exI [of _ q] exI [of _ p]) simp
next
  case (Suc n)
  let ?sec = "RelocationSection rh rt (reloc_struct S rela)" and ?sym = "SymbolTableSection h t (StringTableSection strs t')"
  from Suc.hyps(2) have j: "j < length rs" "n = length rs - Suc j" by simp_all
  obtain off info addend where rj: "rs ! j = (off, info, addend)" by (cases "rs ! j")
  have dr: "drop j rs = (off, info, addend) # drop (Suc j) rs" using Cons_nth_drop_Suc [OF j(1)] rj by simp
  have up: "[j..<length rs] = j # [Suc j..<length rs]" using j(1) by (simp add: upt_conv_Cons)
  have len: "length (reloc_containers S rs) = length rs" "reloc_containers S rs ! j = rel_container S off info addend"
    using j(1) rj by (simp_all add: reloc_containers_def)
  have o: "entry_offset ?sec (int j) = Inr (hdr rh ''sh_offset'' + int j * hdr rh ''sh_entsize'')"
    using entries_of_section(2) [of S ?sec] r j(1) len(1) by simp
  have a: "holds_at d (hdr rh ''sh_offset'' + int j * hdr rh ''sh_entsize'') (reloc_dec S rela) (PObj (rel_container S off info addend))"
    using r(2) j(1) len by (auto simp: entries_at_def)
  then have off: "0 \<le> off" using reloc_offset_nonneg by (auto simp: holds_at_def)
  have "finds (BytesIO d) (get_relocation fuel ?sec (int j)) (Inr (rel_container S off info addend))"
    unfolding get_relocation_def elf_section.case o
    by (rule finds_bind, rule finds_prims(4), rule finds_bind, rule finds_parse [OF decoder_reloc a assms(2)]) (simp add: header_of_def finds_prims)
  then have "finds (opened E d) (on_file (\<lambda>E. get_relocation fuel ?sec (int j))) (Inr (rel_container S off info addend))" by (rule finds_file)
  then obtain q1 where "on_file (\<lambda>E. get_relocation fuel ?sec (int j)) (opened E d q) = (Inr (rel_container S off info addend), opened E d q1)"
    using findsD by blast
  then have get: "on_elf (on_file (\<lambda>E. get_relocation fuel ?sec (int j))) (opened E d q, BytesIO data p) =
      (Inr (rel_container S off info addend), (opened E d q1, BytesIO data p))" by (simp add: on_elf_def)
  obtain q2 p2 where one: "do_apply_relocation fuel (rel_container S off info addend) ?sym (opened E d q1, BytesIO data p) =
    (case relocated arch S (sym_values es) (off, info, addend) data of Inl e \<Rightarrow> (Inl e, (opened E d q2, BytesIO data p2))
     | Inr data' \<Rightarrow> (Inr (), (opened E d q2, BytesIO data' p2)))"
    using apply_one [OF assms(1,2) off] by blast
  show ?case
  proof (cases "relocated arch S (sym_values es) (off, info, addend) data")
    case (Inl e)
    then show ?thesis unfolding up dr by (intro exI [of _ q2] exI [of _ p2]) (simp add: get one del: relocated.simps)
  next
    case (Inr data')
    from Suc.hyps(1) [OF j(2), of q2 data' p2] j(1) obtain q3 p3 where "apply_loop fuel ?sec ?sym (map int [Suc j..<length rs]) (opened E d q2, BytesIO data' p2) =
        (fst (relocate_all arch S (sym_values es) (drop (Suc j) rs) data'),
          (opened E d q3, BytesIO (snd (relocate_all arch S (sym_values es) (drop (Suc j) rs) data')) p3))" by auto
    then show ?thesis unfolding up dr using Inr by (intro exI [of _ q3] exI [of _ p3]) (simp add: get one del: relocated.simps)
  qed
qed

lemma apply_relocs:
  assumes "reloc_env d S h strs es arch E" "length d < fuel"
    and "layout_enc (shdr_layout S) (PObj rh) = Some b" "entries_at d rh (reloc_dec S rela) (reloc_containers S rs)"
    and "finds (opened E d) (get_section k fuel (hdr rh ''sh_link'')) (Inr (SymbolTableSection h t (StringTableSection strs t')))"
  shows "\<exists>q' p'. apply_section_relocations k fuel (RelocationSection rh rt (reloc_struct S rela)) (opened E d q, BytesIO data p) =
    (fst (relocate_all arch S (sym_values es) rs data), (opened E d q', BytesIO (snd (relocate_all arch S (sym_values es) rs data)) p'))"
proof -
  let ?sec = "RelocationSection rh rt (reloc_struct S rela)"
  have l: "section_int ?sec ''sh_link'' = Inr (hdr rh ''sh_link'')" using section_ints(5) [of S ?sec] assms(3) by simp
  have n: "num_relocations ?sec = Inr (int (length rs))"
    using entries_of_section(1) [of S ?sec] assms(3,4) by (simp add: num_relocations_def reloc_containers_def)
  obtain q1 where "get_section k fuel (hdr rh ''sh_link'') (opened E d q) = (Inr (SymbolTableSection h t (StringTableSection strs t')), opened E d q1)"
    using findsD [OF assms(5)] by blast
  then have "on_elf (get_section k fuel (hdr rh ''sh_link'')) (opened E d q, BytesIO data p) =
      (Inr (SymbolTableSection h t (StringTableSection strs t')), (opened E d q1, BytesIO data p))" by (simp add: on_elf_def)
  then show ?thesis unfolding apply_section_relocations_def l n
    using apply_loop_relocs [OF assms(1-4), of 0 rt t t' q1 data p] by (simp add: py_range_def sbind_sret)
qed

subsection \<open>A section of debugging information\<close>

text \<open>The relocation section for the section \<open>name\<close>: the first in the file whose name fits.\<close>

definition reloc_section_for :: "elf_section list \<Rightarrow> string \<Rightarrow> elf_section option" where
  "reloc_section_for secs name = find (\<lambda>s. is_RelocationSection s \<and> sh_title s \<in> {Some (''.rel'' @ name), Some (''.rela'' @ name)}) secs"

lemma find_relocs_loop:
  assumes "list_all2 (\<lambda>i s. finds (opened E d) (get_section k fuel i) (Inr s)) is secs"
  shows "finds (opened E d) (find_relocations_loop k fuel [''.rel'' @ name, ''.rela'' @ name] is) (Inr (reloc_section_for secs name))"
  using assms
proof (induction rule: list_all2_induct)
  case (Cons i js s secs)
  then show ?case unfolding find_relocations_loop.simps
    by (intro finds_bind [OF Cons.hyps(1)]) (auto simp: reloc_section_for_def finds_prims)
qed (simp add: reloc_section_for_def finds_prims)

lemma all_sections:
  assumes "elf_image d S eh shs" "is_open d S eh shs E" "length d < fuel"
    and "list_all2 (\<lambda>i s. \<exists>n<k. section_is d S eh shs n i (Inr s)) [0..<length shs] secs"
  shows "list_all2 (\<lambda>i s. finds (opened E d) (get_section k fuel i) (Inr s)) (py_range (int (length shs))) secs"
  using assms(4) get_section_is [OF _ assms(1-3)] by (auto simp: py_range_def list_all2_conv_all_nth)

lemma finds_relocs:
  assumes "elf_image d S eh shs" "is_open d S eh shs E" "length d < fuel" "sh_title sec = Some name"
    and "list_all2 (\<lambda>i s. \<exists>n<k. section_is d S eh shs n i (Inr s)) [0..<length shs] secs"
  shows "finds (opened E d) (find_relocations_for_section k fuel sec) (Inr (reloc_section_for secs name))"
  unfolding find_relocations_for_section_def assms(4) option.case
  by (rule finds_bind, rule finds_num_sections [OF assms(1,2)], rule find_relocs_loop, rule all_sections [OF assms(1-3,5)])

definition section_bytes :: "string \<Rightarrow> container \<Rightarrow> string" where
  "section_bytes d h = take (nat (hdr h ''sh_size'')) (drop (nat (hdr h ''sh_offset'')) d)"

lemma finds_data:
  assumes "layout_enc (shdr_layout S) (PObj (sh_header sec)) = Some b"
  shows "finds (BytesIO d) (section_data sec) (Inr (section_bytes d (sh_header sec)))"
  using section_ints [OF assms] by (auto simp: finds_def section_data_def sbind_apply Let_def section_bytes_def)

lemma e_machine_field:
  assumes "layout_enc (ehdr_layout S) (PObj h) = Some b"
  shows "\<exists>v. container_getitem h ''e_machine'' = Inr v"
proof -
  obtain ls e f kw where ls: "ehdr_layout S = StructL ls" "distinct (map fst ls)" "(Some ''e_machine'', EnumL e f kw) \<in> set ls"
    by (auto simp: ehdr_layout_def Let_def)
  have "layouts_enc ls h = Some b" using assms ls(1) by simp
  from layouts_enc_lookup [OF this ls(3,2)] show ?thesis by (auto simp: container_getitem_def dict_get_def)
qed

definition machine_arch :: "container \<Rightarrow> string" where
  "machine_arch eh = (case container_getitem eh ''e_machine'' of Inl e \<Rightarrow> '''' | Inr m \<Rightarrow>
     if m = PStr ''EM_X86_64'' then ''x64'' else if m \<in> {PStr ''EM_386'', PStr ''EM_486''} then ''x86'' else ''<unknown>'')"

lemma py_eq_PStr: "py_eq v (PStr s) \<longleftrightarrow> v = PStr s"
  by (cases v) (auto simp: py_eq.simps)

lemma machine_image:
  assumes "elf_image d S eh shs" "is_open d S eh shs E"
  shows "get_machine_arch E = Inr (machine_arch eh)"
proof -
  obtain b where "layout_enc (ehdr_layout S) (PObj eh) = Some b" using assms(1) by (auto simp only: elf_image_def holds_at_def)
  then obtain v where "container_getitem eh ''e_machine'' = Inr v" using e_machine_field by blast
  then show ?thesis using assms(2) by (auto simp: get_machine_arch_def is_open_def machine_arch_def one_of_def py_eq_PStr)
qed

text \<open>What the theorem needs to know of the relocation section, its symbols and their strings.\<close>

definition relocates :: "string \<Rightarrow> elf_structs \<Rightarrow> elf_section list \<Rightarrow> elf_section \<Rightarrow> container list \<Rightarrow> reloc list \<Rightarrow> bool" where
  "relocates d S secs rsec es rs = (\<exists>rh rt rela h t strs t'. rsec = RelocationSection rh rt (reloc_struct S rela) \<and>
     entries_at d rh (reloc_dec S rela) (reloc_containers S rs) \<and> nat (hdr rh ''sh_link'') < length secs \<and>
     secs ! nat (hdr rh ''sh_link'') = SymbolTableSection h t (StringTableSection strs t') \<and> StringTableSection strs t' \<in> set secs \<and>
     entries_at d h (sym_dec S) es)"

text \<open>C2: A section that is read for DWARF holds the bytes of the file with every relocation applied: each entry stores, at its offset, the value that the formula of its type gives for the word there, the symbol and the addend; the first entry that is not valid is an exception.\<close>

theorem elf_dwarf_section:
  assumes "elf_image d S eh shs" "length d < fuel"
    and "list_all2 (\<lambda>i s. \<exists>n<k. section_is d S eh shs n i (Inr s)) [0..<length shs] secs"
    and "sec \<in> set secs" "sh_title sec = Some name" "reloc_section_for secs name = Some rsec" "relocates d S secs rsec es rs"
  shows "\<exists>E t p. ELFFile fuel (BytesIO d q) = (Inr E, t) \<and> fst (read_dwarf_section k fuel True sec E) =
    (case relocate_all (machine_arch eh) S (sym_values es) rs (section_bytes d (sh_header sec)) of
       (Inl e, data) \<Rightarrow> Inl e
     | (Inr _, data) \<Rightarrow> Inr \<lparr>sec_stream = BytesIO data p, sec_name = Some name, sec_global_offset = hdr (sh_header sec) ''sh_offset'',
         sec_size = hdr (sh_header sec) ''sh_size''\<rparr>)"
proof -
  obtain E q1 where E: "ELFFile fuel (BytesIO d q) = (Inr (opened E d q1), BytesIO d q1)" "is_open d S eh shs E"
    using open_image [OF assms(1,2)] by blast
  obtain rh rt rela h t strs t' where r: "rsec = RelocationSection rh rt (reloc_struct S rela)" "entries_at d rh (reloc_dec S rela) (reloc_containers S rs)"
    "nat (hdr rh ''sh_link'') < length secs" "secs ! nat (hdr rh ''sh_link'') = SymbolTableSection h t (StringTableSection strs t')"
    "StringTableSection strs t' \<in> set secs" "entries_at d h (sym_dec S) es"
    using assms(7) by (auto simp: relocates_def)
  have enc: "\<exists>b. layout_enc (shdr_layout S) (PObj (sh_header s)) = Some b" if "s \<in> set secs" for s
  proof -
    obtain i where i: "i < length shs" "secs ! i = s" using \<open>s \<in> set secs\<close> assms(3) by (auto simp: in_set_conv_nth list_all2_conv_all_nth)
    then have "sh_header s = shs ! i" using assms(3) section_is_header by (fastforce simp: list_all2_conv_all_nth)
    then show ?thesis using image_shdr [OF assms(1) i(1)] by metis
  qed
  have "rsec \<in> set secs" using assms(6) by (auto simp: reloc_section_for_def find_Some_iff in_set_conv_nth)
  then obtain b where b: "layout_enc (shdr_layout S) (PObj rh) = Some b" using enc r(1) by fastforce
  have "SymbolTableSection h t (StringTableSection strs t') \<in> set secs" using r(3,4) by (metis nth_mem)
  then obtain b1 b2 where "layout_enc (shdr_layout S) (PObj h) = Some b1" "layout_enc (shdr_layout S) (PObj strs) = Some b2" using enc r(5) by fastforce
  then have env: "reloc_env d S h strs es (machine_arch eh) E"
    using machine_image [OF assms(1) E(2)] E(2) r(6) by (simp add: reloc_env_def is_open_def)
  have "0 \<le> hdr rh ''sh_link''" using section_ints(6) [of S rsec] b r(1) by simp
  then have link: "finds (opened E d) (get_section k fuel (hdr rh ''sh_link'')) (Inr (SymbolTableSection h t (StringTableSection strs t')))"
    using all_sections [OF assms(1) E(2) assms(2,3)] r(3,4) by (auto simp: list_all2_conv_all_nth py_range_def)
  obtain b3 where b3: "layout_enc (shdr_layout S) (PObj (sh_header sec)) = Some b3" using enc assms(4) by blast
  obtain q2 where data: "on_file (\<lambda>E. section_data sec) (opened E d q1) = (Inr (section_bytes d (sh_header sec)), opened E d q2)"
    using findsD [OF finds_file [where f = "\<lambda>E. section_data sec", OF finds_data [OF b3]], where q = q1] by blast
  obtain q3 where find: "find_relocations_for_section k fuel sec (opened E d q2) = (Inr (Some rsec), opened E d q3)"
    using findsD [OF finds_relocs [OF assms(1) E(2) assms(2,5,3)], of q2] assms(6) by metis
  obtain q4 p4 where app: "apply_section_relocations k fuel rsec (opened E d q3, BytesIO (section_bytes d (sh_header sec)) (length (section_bytes d (sh_header sec)))) =
    (fst (relocate_all (machine_arch eh) S (sym_values es) rs (section_bytes d (sh_header sec))),
     (opened E d q4, BytesIO (snd (relocate_all (machine_arch eh) S (sym_values es) rs (section_bytes d (sh_header sec)))) p4))"
    using apply_relocs [OF env assms(2) b r(2) link] unfolding r(1) by blast
  have "fst (read_dwarf_section k fuel True sec (opened E d q1)) =
    (case relocate_all (machine_arch eh) S (sym_values es) rs (section_bytes d (sh_header sec)) of
       (Inl e, data) \<Rightarrow> Inl e
     | (Inr _, data) \<Rightarrow> Inr \<lparr>sec_stream = BytesIO data p4, sec_name = Some name, sec_global_offset = hdr (sh_header sec) ''sh_offset'',
         sec_size = hdr (sh_header sec) ''sh_size''\<rparr>)"
    using section_ints(1,4) [OF b3] assms(5)
    by (simp add: read_dwarf_section_def sbind_apply data find app split: prod.split sum.split)
  then show ?thesis using E(1) by blast
qed

subsection \<open>Sections in segments\<close>

text \<open>
  The rules that the comments of \<open>section_in_segment\<close> state: which sections a type of segment may hold,
  and that the section lies in the segment, by its address if it has memory and by its place in the file if it has bytes there.
\<close>

definition tls_rule :: "pyval \<Rightarrow> bool \<Rightarrow> bool" where
  "tls_rule segtype tls = (if tls then segtype \<in> {PStr ''PT_TLS'', PStr ''PT_GNU_RELRO'', PStr ''PT_LOAD''}
     else segtype \<notin> {PStr ''PT_TLS'', PStr ''PT_PHDR''})"

definition lies_in :: "int \<Rightarrow> int \<Rightarrow> int \<Rightarrow> int \<Rightarrow> bool" where
  "lies_in x n base extent = ({x..<x + n} \<subseteq> {base..<base + extent} \<and> x \<in> {base..<base + extent})"

definition bounds_rule :: "container \<Rightarrow> container \<Rightarrow> bool" where
  "bounds_rule ph sh = ((hdr sh ''sh_flags'' AND SHF_ALLOC \<noteq> 0 \<longrightarrow> lies_in (hdr sh ''sh_addr'') (hdr sh ''sh_size'') (hdr ph ''p_vaddr'') (hdr ph ''p_memsz'')) \<and>
     (section_type sh \<noteq> PStr ''SHT_NOBITS'' \<longrightarrow> lies_in (hdr sh ''sh_offset'') (hdr sh ''sh_size'') (hdr ph ''p_offset'') (hdr ph ''p_filesz'')))"

lemma in_bounds_lies_in: "0 \<le> n \<Longrightarrow> in_bounds x base (Inr n) (Inr extent) = Inr (lies_in x n base extent)"
proof -
  assume "0 \<le> n"
  then have "lies_in x n base extent \<longleftrightarrow> base \<le> x \<and> x - base + n \<le> extent \<and> x - base \<le> extent - 1"
    by (cases "n = 0") (auto simp: lies_in_def subset_iff, (drule_tac x = "x + n - 1" in spec, simp)+)
  then show ?thesis by (simp add: in_bounds_def e_and_def)
qed

lemma phdr_int:
  assumes "layout_enc (phdr_layout S) (PObj h) = Some b"
  shows "list_all (\<lambda>n. header_int h n = Inr (hdr h n) \<and> 0 \<le> hdr h n) [''p_offset'', ''p_vaddr'', ''p_filesz'', ''p_memsz'']"
proof -
  obtain ls where ls: "phdr_layout S = StructL ls" "distinct (map fst ls)" "set [''p_offset'', ''p_vaddr'', ''p_filesz'', ''p_memsz''] \<subseteq> set (unsigned_fields ls)"
    by (cases "es_elfclass S = 32") (auto simp: phdr_layout_def Let_def)
  show ?thesis unfolding list_all_iff using struct_int [OF assms [unfolded ls(1)] ls(2)] ls(3) by blast
qed

lemma phdr_type:
  assumes "layout_enc (phdr_layout S) (PObj h) = Some b"
  shows "\<exists>t. container_getitem h ''p_type'' = Inr t"
proof -
  obtain ls e f kw where ls: "phdr_layout S = StructL ls" "distinct (map fst ls)" "(Some ''p_type'', EnumL e f kw) \<in> set ls"
    by (cases "es_elfclass S = 32") (auto simp: phdr_layout_def Let_def)
  have "layouts_enc ls h = Some b" using assms ls(1) by simp
  from layouts_enc_lookup [OF this ls(3,2)] show ?thesis by (auto simp: container_getitem_def dict_get_def)
qed

text \<open>C33: section_in_segment is the bounds check of its comments together with a test for SHF_TLS that is not theirs: the answer differs from the documented rules exactly on the types of segments listed.\<close>

theorem section_in_segment_rules:
  assumes "layout_enc (phdr_layout S) (PObj (ph_header seg)) = Some b" "layout_enc (shdr_layout S) (PObj (sh_header sec)) = Some b'"
    and "container_getitem (ph_header seg) ''p_type'' = Inr segtype" "tls = (hdr (sh_header sec) ''sh_flags'' AND SHF_TLS \<noteq> 0)"
  shows "section_in_segment seg sec = Inr ((tls \<longrightarrow> segtype = PStr ''PT_PHDR'') \<and> bounds_rule (ph_header seg) (sh_header sec)) \<and>
    (section_in_segment seg sec = Inr (tls_rule segtype tls \<and> bounds_rule (ph_header seg) (sh_header sec)) \<longleftrightarrow>
       bounds_rule (ph_header seg) (sh_header sec) \<longrightarrow>
       (if tls then segtype \<notin> {PStr ''PT_TLS'', PStr ''PT_GNU_RELRO'', PStr ''PT_LOAD'', PStr ''PT_PHDR''} else segtype \<notin> {PStr ''PT_TLS'', PStr ''PT_PHDR''}))"
proof -
  let ?p = "ph_header seg" and ?s = "sh_header sec"
  have p: "segment_int seg n = Inr (hdr ?p n)" if "n \<in> {''p_offset'', ''p_vaddr'', ''p_filesz'', ''p_memsz''}" for n
    using phdr_int [OF assms(1)] that by (auto simp: segment_int_def segment_getitem_def header_int_def)
  have s: "section_int sec n = Inr (hdr ?s n)" if "n \<in> {''sh_flags'', ''sh_addr'', ''sh_offset'', ''sh_size''}" for n
    using shdr_int [OF assms(2)] that by (auto simp: section_int_def section_getitem_def header_int_def)
  have n: "0 \<le> hdr ?s ''sh_size''" using shdr_int [OF assms(2)] by simp
  obtain t where "container_getitem ?s ''sh_type'' = Inr t" using shdr_type [OF assms(2)] by blast
  then have t: "section_getitem sec ''sh_type'' = Inr (section_type ?s)" by (simp add: section_getitem_def section_type_def)
  have "section_in_segment seg sec = Inr ((tls \<longrightarrow> segtype = PStr ''PT_PHDR'') \<and> bounds_rule ?p ?s)"
    unfolding section_in_segment_def segment_getitem_def assms(3) t
    by (auto simp: s p n assms(4) one_of_def py_eq_PStr bounds_rule_def in_bounds_lies_in)
  then show ?thesis by (auto simp: tls_rule_def)
qed

subsection \<open>An object file with one relocation\<close>

definition example_body :: string where
  "example_body = [CHR 0x00, CHR ''.'', CHR ''r'', CHR ''e'', CHR ''l'', CHR ''.'', CHR ''a'', CHR 0x00,
     CHR 0x01, CHR 0x00, CHR 0x00, CHR 0x00,
     CHR 0x00, CHR 0x00, CHR 0x00, CHR 0x00, CHR 0x10, CHR 0x00, CHR 0x00, CHR 0x00, CHR 0x00, CHR 0x00, CHR 0x00, CHR 0x00,
     CHR 0x00, CHR 0x00, CHR 0x00, CHR 0x00,
     CHR 0x00, CHR 0x00, CHR 0x00, CHR 0x00, CHR 0x01, CHR 0x00, CHR 0x00, CHR 0x00]"

definition example_reloc_shs :: "container list" where
  "example_reloc_shs = [example_shdr 5 ''SHT_PROGBITS'' 60 4 0 0, example_shdr 0 ''SHT_STRTAB'' 52 8 0 0,
     example_shdr 0 ''SHT_SYMTAB'' 64 16 1 16, example_shdr 1 ''SHT_REL'' 80 8 2 8]"

definition example_symbol :: container where
  "example_symbol = [(''st_name'', PInt 0), (''st_value'', PInt 16), (''st_size'', PInt 0),
     (''st_info'', PObj [(''bind'', PStr ''STB_LOCAL''), (''type'', PStr ''STT_NOTYPE'')]), (''st_other'', PObj [(''visibility'', PStr ''STV_DEFAULT'')]),
     (''st_shndx'', PStr ''SHN_UNDEF'')]"

abbreviation example_object :: string where
  "example_object \<equiv> example_file ''EM_386'' example_body example_reloc_shs"

lemma example_fields: "st_info_enc (PObj [(''bind'', PStr ''STB_LOCAL''), (''type'', PStr ''STT_NOTYPE'')]) = Some [CHR 0x00]"
  "st_other_enc (PObj [(''visibility'', PStr ''STV_DEFAULT'')]) = Some [CHR 0x00]"
proof -
  have b: "bits_enum ENUM_ST_INFO_BIND 4 (PStr ''STB_LOCAL'') = Some (replicate 4 (CHR 0x00))" "bits_enum ENUM_ST_INFO_TYPE 4 (PStr ''STT_NOTYPE'') = Some (replicate 4 (CHR 0x00))"
    "bits_enum ENUM_ST_VISIBILITY 3 (PStr ''STV_DEFAULT'') = Some (replicate 3 (CHR 0x00))" "encode_bin [CHR 0x00] = replicate 8 (CHR 0x00)"
    by code_simp+
  have r: "replicate 4 c @ replicate 4 c = replicate 8 c" "replicate 5 c @ replicate 3 c = replicate 8 c" for c :: char by code_simp+
  have n: "con_name (Padding (Fixed 5) [CHR 0x00] False) = None" by (simp add: Padding_def PaddingAdapter_def Adapter_def PureAdapter_def StaticField_def Field_def)
  show "st_info_enc (PObj [(''bind'', PStr ''STB_LOCAL''), (''type'', PStr ''STT_NOTYPE'')]) = Some [CHR 0x00]"
    "st_other_enc (PObj [(''visibility'', PStr ''STV_DEFAULT'')]) = Some [CHR 0x00]"
    using encode_decode_bin_eq [of "[CHR 0x00]"] unfolding b(4) by (simp_all add: st_info_enc_def st_other_enc_def buffer_enc_def struct_enc_def info_fields_def other_fields_def b n r)
qed

lemma example_object_image:
  "image_check example_object example_elf (example_ehdr ''EM_386'' example_body example_reloc_shs) example_reloc_shs"
  by code_simp

lemma example_chars: "chr_c 16 = CHR 0x10" "chr_c 1 = CHR 0x01" by code_simp+

lemma example_symbols: "entries_at example_object (example_reloc_shs ! 2) (sym_dec example_elf) [example_symbol]"
proof -
  have e: "named_enc (sym_parts example_elf) example_symbol = Some (replicate 4 (CHR 0x00) @ CHR 0x10 # replicate 11 (CHR 0x00))"
    using example_chars by (simp add: example_symbol_def sym_parts_def example_elf_def Let_def example_fields elf_endian_def addr_format_def int_enc_def pack_def fmt_min_def fmt_max_def
        enum_enc_def ENUM_ST_SHNDX_def eval_nat_numeral)
  have "drop 64 example_object = (replicate 4 (CHR 0x00) @ CHR 0x10 # replicate 11 (CHR 0x00)) @ drop 80 example_object"
    "64 \<le> length example_object" by code_simp+
  moreover have "hdr (example_reloc_shs ! 2) ''sh_size'' = 16" "hdr (example_reloc_shs ! 2) ''sh_entsize'' = 16" "hdr (example_reloc_shs ! 2) ''sh_offset'' = 64"
    by code_simp+
  ultimately show ?thesis unfolding entries_at_def holds_at_def sym_dec_def using e
    by (auto intro!: exI [of _ "drop 80 example_object"])
qed

lemma example_relocs: "entries_at example_object (example_reloc_shs ! 3) (reloc_dec example_elf False) (reloc_containers example_elf [(0, 1, None)])"
proof -
  have e: "int_enc Little Fmt_L (PInt 0) = Some (replicate 4 (CHR 0x00))" "int_enc Little Fmt_L (PInt 1) = Some (CHR 0x01 # replicate 3 (CHR 0x00))"
    using example_chars by (simp_all add: int_enc_def pack_def fmt_min_def fmt_max_def eval_nat_numeral)
  have "drop 80 example_object = (replicate 4 (CHR 0x00) @ CHR 0x01 # replicate 3 (CHR 0x00)) @ drop 88 example_object"
    "80 \<le> length example_object" by code_simp+
  moreover have "hdr (example_reloc_shs ! 3) ''sh_size'' = 8" "hdr (example_reloc_shs ! 3) ''sh_entsize'' = 8" "hdr (example_reloc_shs ! 3) ''sh_offset'' = 80"
    by code_simp+
  moreover have "rel_dec example_elf [] (replicate 4 (CHR 0x00) @ CHR 0x01 # replicate 3 (CHR 0x00)) (PObj (rel_container example_elf 0 1 None))"
    unfolding rel_dec_def by (intro exI conjI, rule refl, rule refl) (simp_all add: e example_elf_def elf_endian_def addr_format_def)
  ultimately show ?thesis unfolding entries_at_def holds_at_def
    by (intro conjI allI impI exI [of _ "replicate 4 (CHR 0x00) @ CHR 0x01 # replicate 3 (CHR 0x00)"] exI [of _ "drop 88 example_object"])
      (simp_all add: reloc_dec_def reloc_containers_def)
qed

theorem elf_dwarf_section_witness:
  "\<exists>E t p. ELFFile 300 (BytesIO example_object 0) = (Inr E, t) \<and>
     fst (read_dwarf_section 9 300 True (Section (example_reloc_shs ! 0) (Some ''.a'')) E) =
       Inr \<lparr>sec_stream = BytesIO [CHR 0x11, CHR 0x00, CHR 0x00, CHR 0x00] p, sec_name = Some ''.a'', sec_global_offset = 60, sec_size = 4\<rparr>"
proof -
  let ?d = example_object and ?eh = "example_ehdr ''EM_386'' example_body example_reloc_shs" and ?h = "\<lambda>i. example_reloc_shs ! i"
  let ?strs = "StringTableSection (?h 1) (Some '''')"
  let ?secs = "[Section (?h 0) (Some ''.a''), ?strs, SymbolTableSection (?h 2) (Some '''') ?strs, RelocationSection (?h 3) (Some ''.rel.a'') (Elf_Rel example_elf)]"
  have t: "title ?d ?eh example_reloc_shs (?h 0) = Some ''.a''" "title ?d ?eh example_reloc_shs (?h 1) = Some ''''"
    "title ?d ?eh example_reloc_shs (?h 2) = Some ''''" "title ?d ?eh example_reloc_shs (?h 3) = Some ''.rel.a''"
    "length ?d < 300" "length example_reloc_shs = 4" "hdr (?h 2) ''sh_link'' = 1" "hdr (?h 3) ''sh_link'' = 2"
    "\<not> is_symtab (?h 0)" "\<not> is_symtab (?h 1)" "is_symtab (?h 2)" "\<not> is_symtab (?h 3)" by code_simp+
  have p: "plain_section example_elf (?h 0) (Some ''.a'') = Inr (Section (?h 0) (Some ''.a''))" "plain_section example_elf (?h 1) (Some '''') = Inr ?strs"
    "new_SymbolTableSection (?h 2) (Some '''') ?strs = Inr (SymbolTableSection (?h 2) (Some '''') ?strs)"
    "plain_section example_elf (?h 3) (Some ''.rel.a'') = Inr (RelocationSection (?h 3) (Some ''.rel.a'') (Elf_Rel example_elf))"
    by (simp_all add: example_reloc_shs_def plain_section_def section_type_def one_of_def example_shdr_def container_getitem_def dict_get_def
        new_RelocationSection_def new_SymbolTableSection_def header_int_def as_int_def py_mod_def entry_sizes elf_assert_def assert_with_exception_def example_elf_def)
  note plain = section_plain [where d = ?d and S = example_elf and eh = ?eh and shs = example_reloc_shs, unfolded t(6)]
  have s: "section_is ?d example_elf ?eh example_reloc_shs 0 0 (Inr (?secs ! 0))" "section_is ?d example_elf ?eh example_reloc_shs 0 1 (Inr (?secs ! 1))"
    "section_is ?d example_elf ?eh example_reloc_shs 1 2 (Inr (?secs ! 2))" "section_is ?d example_elf ?eh example_reloc_shs 0 3 (Inr (?secs ! 3))"
    using plain [of 0] plain [of 1] plain [of 3] t p section_symtab [of 2 example_reloc_shs ?d example_elf ?eh 0 "Inr ?strs"] by simp_all
  have all: "list_all2 (\<lambda>i s. \<exists>n<9. section_is ?d example_elf ?eh example_reloc_shs n i (Inr s)) [0..<length example_reloc_shs] ?secs"
  proof -
    have "[0..<length example_reloc_shs] = [0, 1, 2, 3]" unfolding t(6) by code_simp
    then show ?thesis using s by (auto intro: exI [of _ "0 :: nat"] exI [of _ "1 :: nat"])
  qed
  have r: "relocates ?d example_elf ?secs (?secs ! 3) [example_symbol] [(0, 1, None)]"
    unfolding relocates_def using example_symbols example_relocs t(8)
    by (intro exI [of _ "?h 3"] exI [of _ "Some ''.rel.a''"] exI [of _ False] exI [of _ "?h 2"] exI [of _ "Some ''''"] exI [of _ "?h 1"])
      (simp add: reloc_struct_def)
  have f: "reloc_section_for ?secs ''.a'' = Some (?secs ! 3)" by (simp add: reloc_section_for_def)
  have v: "relocate_all (machine_arch ?eh) example_elf (sym_values [example_symbol]) [(0, 1, None)] (section_bytes ?d (?h 0)) =
    (Inr (), [CHR 0x11, CHR 0x00, CHR 0x00, CHR 0x00])" "hdr (?h 0) ''sh_offset'' = 60" "hdr (?h 0) ''sh_size'' = 4" by code_simp+
  from elf_dwarf_section [OF image_check [OF example_object_image] t(5) all, of "?secs ! 0" "''.a''", OF _ _ f r, of 0] show ?thesis
    by (simp add: v del: relocate_all.simps)
qed

definition example_phdr :: "string \<Rightarrow> container" where
  "example_phdr ty = [(''p_type'', PStr ty), (''p_offset'', PInt 0), (''p_vaddr'', PInt 0), (''p_paddr'', PInt 0), (''p_filesz'', PInt 64),
     (''p_memsz'', PInt 64), (''p_flags'', PInt 0), (''p_align'', PInt 0)]"

text \<open>A section for each thread that the segment \<open>PT_LOAD\<close> has in it.\<close>

definition example_tls :: container where
  "example_tls = dict_set ''sh_flags'' (PInt 0x402) (example_shdr 0 ''SHT_PROGBITS'' 0 8 0 0)"

theorem section_in_segment_rules_witness:
  "section_in_segment (Segment (example_phdr ''PT_LOAD'')) (Section example_tls (Some '''')) = Inr False \<and>
   tls_rule (PStr ''PT_LOAD'') True \<and> bounds_rule (example_phdr ''PT_LOAD'') example_tls"
proof -
  have b: "bounds_rule (example_phdr ''PT_LOAD'') example_tls"
    unfolding bounds_rule_def lies_in_def
    by (simp add: example_phdr_def example_tls_def example_shdr_def hdr_def header_int_def container_getitem_def dict_get_def as_int_def)
  have e: "layout_enc (phdr_layout example_elf) (PObj (example_phdr ''PT_LOAD'')) \<noteq> None" "layout_enc (shdr_layout example_elf) (PObj example_tls) \<noteq> None"
    "container_getitem (example_phdr ''PT_LOAD'') ''p_type'' = Inr (PStr ''PT_LOAD'')" "hdr example_tls ''sh_flags'' AND SHF_TLS \<noteq> 0" by code_simp+
  then show ?thesis
    using section_in_segment_rules [of example_elf "Segment (example_phdr ''PT_LOAD'')" _ "Section example_tls (Some '''')" _ "PStr ''PT_LOAD''" True] b
    by (auto simp: tls_rule_def)
qed

end
