(* ===== verification/ElfDescr.thy ===== *)
theory ElfDescr
  imports ElfFiles PyText
begin

section \<open>Descriptions of ELF constants (\<open>elf/descriptions.py\<close>)\<close>

text \<open>
  The texts for the names that \<open>elf/enums.py\<close> gives to constants; a constant without a name is a number, which
  no table has.
\<close>

subsection \<open>Tables\<close>

definition DESCR_EI_CLASS :: "(string \<times> string) list" where
  "DESCR_EI_CLASS =
     [(''ELFCLASSNONE'', ''none''), (''ELFCLASS32'', ''ELF32''), (''ELFCLASS64'', ''ELF64'')]"

definition DESCR_EI_DATA :: "(string \<times> string) list" where
  "DESCR_EI_DATA =
     [(''ELFDATANONE'', ''none''), (''ELFDATA2LSB'', ''2'' @ [CHR 0x27] @ ''s complement, little endian''),
      (''ELFDATA2MSB'', ''2'' @ [CHR 0x27] @ ''s complement, big endian'')]"

definition DESCR_EI_OSABI :: "(string \<times> string) list" where
  "DESCR_EI_OSABI =
     [(''ELFOSABI_SYSV'', ''UNIX - System V''), (''ELFOSABI_HPUX'', ''UNIX - HP-UX''), (''ELFOSABI_NETBSD'', ''UNIX - NetBSD''),
      (''ELFOSABI_LINUX'', ''UNIX - Linux''), (''ELFOSABI_HURD'', ''UNIX - GNU/Hurd''), (''ELFOSABI_SOLARIS'', ''UNIX - Solaris''),
      (''ELFOSABI_AIX'', ''UNIX - AIX''), (''ELFOSABI_IRIX'', ''UNIX - IRIX''), (''ELFOSABI_FREEBSD'', ''UNIX - FreeBSD''),
      (''ELFOSABI_TRU64'', ''UNIX - TRU64''), (''ELFOSABI_MODESTO'', ''Novell - Modesto''), (''ELFOSABI_OPENBSD'', ''UNIX - OpenBSD''),
      (''ELFOSABI_OPENVMS'', ''VMS - OpenVMS''), (''ELFOSABI_NSK'', ''HP - Non-Stop Kernel''), (''ELFOSABI_AROS'', ''AROS''),
      (''ELFOSABI_ARM'', ''ARM''), (''ELFOSABI_STANDALONE'', ''Standalone App'')]"

definition DESCR_E_TYPE :: "(string \<times> string) list" where
  "DESCR_E_TYPE =
     [(''ET_NONE'', ''NONE (None)''), (''ET_REL'', ''REL (Relocatable file)''), (''ET_EXEC'', ''EXEC (Executable file)''),
      (''ET_DYN'', ''DYN (Shared object file)''), (''ET_CORE'', ''CORE (Core file)''), (''PROC_SPECIFIC'', ''Processor Specific'')]"

definition DESCR_E_MACHINE :: "(string \<times> string) list" where
  "DESCR_E_MACHINE =
     [(''EM_NONE'', ''None''), (''EM_M32'', ''WE32100''), (''EM_SPARC'', ''Sparc''), (''EM_386'', ''Intel 80386''),
      (''EM_68K'', ''MC68000''), (''EM_88K'', ''MC88000''), (''EM_860'', ''Intel 80860''), (''EM_MIPS'', ''MIPS R3000''),
      (''EM_S370'', ''IBM System/370''), (''EM_MIPS_RS4_BE'', ''MIPS 4000 big-endian''), (''EM_IA_64'', ''Intel IA-64''),
      (''EM_X86_64'', ''Advanced Micro Devices X86-64''), (''EM_AVR'', ''Atmel AVR 8-bit microcontroller''), (''RESERVED'', ''RESERVED'')]"

definition DESCR_P_TYPE :: "(string \<times> string) list" where
  "DESCR_P_TYPE =
     [(''PT_NULL'', ''NULL''), (''PT_LOAD'', ''LOAD''), (''PT_DYNAMIC'', ''DYNAMIC''), (''PT_INTERP'', ''INTERP''),
      (''PT_NOTE'', ''NOTE''), (''PT_SHLIB'', ''SHLIB''), (''PT_PHDR'', ''PHDR''), (''PT_GNU_EH_FRAME'', ''GNU_EH_FRAME''),
      (''PT_GNU_STACK'', ''GNU_STACK''), (''PT_GNU_RELRO'', ''GNU_RELRO'')]"

definition DESCR_SH_TYPE :: "(string \<times> string) list" where
  "DESCR_SH_TYPE =
     [(''SHT_NULL'', ''NULL''), (''SHT_PROGBITS'', ''PROGBITS''), (''SHT_SYMTAB'', ''SYMTAB''), (''SHT_STRTAB'', ''STRTAB''),
      (''SHT_RELA'', ''RELA''), (''SHT_HASH'', ''HASH''), (''SHT_DYNAMIC'', ''DYNAMIC''), (''SHT_NOTE'', ''NOTE''),
      (''SHT_NOBITS'', ''NOBITS''), (''SHT_REL'', ''REL''), (''SHT_SHLIB'', ''SHLIB''), (''SHT_DYNSYM'', ''DYNSYM''),
      (''SHT_INIT_ARRAY'', ''INIT_ARRAY''), (''SHT_FINI_ARRAY'', ''FINI_ARRAY''), (''SHT_PREINIT_ARRAY'', ''PREINIT_ARRAY''),
      (''SHT_GNU_HASH'', ''GNU_HASH''), (''SHT_GROUP'', ''GROUP''), (''SHT_SYMTAB_SHNDX'', ''SYMTAB SECTION INDICIES''),
      (''SHT_GNU_verdef'', ''VERDEF''), (''SHT_GNU_verneed'', ''VERNEED''), (''SHT_GNU_versym'', ''VERSYM''),
      (''SHT_GNU_LIBLIST'', ''GNU_LIBLIST'')]"

definition DESCR_ST_INFO_TYPE :: "(string \<times> string) list" where
  "DESCR_ST_INFO_TYPE =
     [(''STT_NOTYPE'', ''NOTYPE''), (''STT_OBJECT'', ''OBJECT''), (''STT_FUNC'', ''FUNC''), (''STT_SECTION'', ''SECTION''),
      (''STT_FILE'', ''FILE''), (''STT_COMMON'', ''COMMON''), (''STT_TLS'', ''TLS''), (''STT_NUM'', ''NUM''), (''STT_RELC'', ''RELC''),
      (''STT_SRELC'', ''SRELC'')]"

definition DESCR_ST_INFO_BIND :: "(string \<times> string) list" where
  "DESCR_ST_INFO_BIND =
     [(''STB_LOCAL'', ''LOCAL''), (''STB_GLOBAL'', ''GLOBAL''), (''STB_WEAK'', ''WEAK'')]"

definition DESCR_ST_VISIBILITY :: "(string \<times> string) list" where
  "DESCR_ST_VISIBILITY =
     [(''STV_DEFAULT'', ''DEFAULT''), (''STV_INTERNAL'', ''INTERNAL''), (''STV_HIDDEN'', ''HIDDEN''), (''STD_PROTECTED'', ''PROTECTED'')]"

definition DESCR_ST_SHNDX :: "(string \<times> string) list" where
  "DESCR_ST_SHNDX =
     [(''SHN_UNDEF'', ''UND''), (''SHN_ABS'', ''ABS''), (''SHN_COMMON'', ''COM'')]"

subsection \<open>Flags\<close>

text \<open>The classes \<open>SH_FLAGS\<close> and \<open>P_FLAGS\<close> of \<open>elf/constants.py\<close>, in the order in which they are described.\<close>

definition DESCR_P_FLAGS :: "(int \<times> string) list" where
  "DESCR_P_FLAGS = [(0x4, ''R''), (0x2, ''W''), (0x1, ''E'')]"

definition DESCR_SH_FLAGS :: "(int \<times> string) list" where
  "DESCR_SH_FLAGS = [(0x1, ''W''), (0x2, ''A''), (0x4, ''X''), (0x10, ''M''), (0x20, ''S''), (0x40, ''I''), (0x80, ''L''), (0x100, ''O''),
     (0x200, ''G''), (0x400, ''T''), (0x80000000, ''E'')]"

definition describe_p_flags :: "int \<Rightarrow> string" where
  "describe_p_flags x = concat (map (\<lambda>(flag, s). if x AND flag \<noteq> 0 then s else '' '') DESCR_P_FLAGS)"

definition describe_sh_flags :: "int \<Rightarrow> string" where
  "describe_sh_flags x = concat (map (\<lambda>(flag, s). if x AND flag \<noteq> 0 then s else []) DESCR_SH_FLAGS)"

subsection \<open>Names\<close>

definition unknown_text :: string where
  "unknown_text = ''<unknown>''"

definition descr_get :: "(string \<times> string) list \<Rightarrow> pyval \<Rightarrow> string" where
  "descr_get table x = (case x of PStr name \<Rightarrow> (case map_of table name of Some s \<Rightarrow> s | None \<Rightarrow> unknown_text) | _ \<Rightarrow> unknown_text)"

definition describe_ei_class :: "pyval \<Rightarrow> string" where "describe_ei_class = descr_get DESCR_EI_CLASS"
definition describe_ei_data :: "pyval \<Rightarrow> string" where "describe_ei_data = descr_get DESCR_EI_DATA"
definition describe_ei_osabi :: "pyval \<Rightarrow> string" where "describe_ei_osabi = descr_get DESCR_EI_OSABI"
definition describe_e_type :: "pyval \<Rightarrow> string" where "describe_e_type = descr_get DESCR_E_TYPE"
definition describe_e_machine :: "pyval \<Rightarrow> string" where "describe_e_machine = descr_get DESCR_E_MACHINE"
definition describe_p_type :: "pyval \<Rightarrow> string" where "describe_p_type = descr_get DESCR_P_TYPE"
definition describe_sh_type :: "pyval \<Rightarrow> string" where "describe_sh_type = descr_get DESCR_SH_TYPE"
definition describe_symbol_type :: "pyval \<Rightarrow> string" where "describe_symbol_type = descr_get DESCR_ST_INFO_TYPE"
definition describe_symbol_bind :: "pyval \<Rightarrow> string" where "describe_symbol_bind = descr_get DESCR_ST_INFO_BIND"
definition describe_symbol_visibility :: "pyval \<Rightarrow> string" where "describe_symbol_visibility = descr_get DESCR_ST_VISIBILITY"

definition version_number :: "pyval \<Rightarrow> pyexc + int" where
  "version_number x = (case x of PStr name \<Rightarrow> dict_get (fst ENUM_E_VERSION) name | _ \<Rightarrow> Inl KeyError)"

definition describe_ei_version :: "pyval \<Rightarrow> pyexc + string" where
  "describe_ei_version x = ebind (version_number x) (\<lambda>n. Inr (dec_text n @ (if x = PStr ''EV_CURRENT'' then '' (current)'' else [])))"

definition describe_e_version_numeric :: "pyval \<Rightarrow> pyexc + string" where
  "describe_e_version_numeric x = ebind (version_number x) (\<lambda>n. Inr (''0x'' @ hex_text n))"

definition describe_symbol_shndx :: "pyval \<Rightarrow> pyexc + string" where
  "describe_symbol_shndx x = (let pad = (\<lambda>s. replicate (3 - length s) (CHR '' '') @ s) in case x of
     PStr name \<Rightarrow> Inr (case map_of DESCR_ST_SHNDX name of Some s \<Rightarrow> s | None \<Rightarrow> pad name)
   | PInt n \<Rightarrow> Inr (pad (dec_text n))
   | _ \<Rightarrow> Inl TypeError)"

definition reloc_names :: "enum_map \<Rightarrow> (int \<times> string) list" where
  "reloc_names m = map (\<lambda>(k, v). (v, k)) (fst m)"

definition describe_reloc_type :: "int \<Rightarrow> elf_file \<Rightarrow> pyexc + string" where
  "describe_reloc_type x E = ebind (get_machine_arch E) (\<lambda>arch.
     let get = (\<lambda>m. Inr (case map_of (reloc_names m) x of Some s \<Rightarrow> s | None \<Rightarrow> unknown_text)) in
     if arch = ''x86'' then get ENUM_RELOC_TYPE_i386
     else if arch = ''x64'' then get ENUM_RELOC_TYPE_x64
     else (let h = hex_text (x AND 0xFFFFFFFF) in Inr (''unrecognized: '' @ h @ replicate (7 - length h) (CHR '' ''))))"

subsection \<open>What the texts tell\<close>

lemma in_concat_flags: "c \<in> set (concat (map (\<lambda>(flag, s). if P flag then s else []) table)) \<longleftrightarrow> (\<exists>(flag, s) \<in> set table. c \<in> set s \<and> P flag)"
  by (induction table) auto

text \<open>The letter of a flag is in the text exactly when the flag is set.\<close>

lemma sh_flags_letters: "(flag, [c]) \<in> set DESCR_SH_FLAGS \<Longrightarrow> c \<in> set (describe_sh_flags x) \<longleftrightarrow> x AND flag \<noteq> 0"
  unfolding describe_sh_flags_def in_concat_flags by (auto simp: DESCR_SH_FLAGS_def)

lemma p_flags_places: "describe_p_flags x = [if x AND 4 \<noteq> 0 then CHR ''R'' else CHR '' '', if x AND 2 \<noteq> 0 then CHR ''W'' else CHR '' '',
    if x AND 1 \<noteq> 0 then CHR ''E'' else CHR '' '']"
  by (simp add: describe_p_flags_def DESCR_P_FLAGS_def)

text \<open>A name of a relocation is described by itself.\<close>

lemma reloc_names_inverse: "distinct (map snd (fst m)) \<Longrightarrow> (name, n) \<in> set (fst m) \<Longrightarrow> map_of (reloc_names m) n = Some name"
  unfolding reloc_names_def by (intro map_of_is_SomeI) (force simp: comp_def case_prod_beta)+

lemma protected_unknown: "describe_symbol_visibility (PStr ''STV_PROTECTED'') = unknown_text"
  by (simp add: describe_symbol_visibility_def descr_get_def DESCR_ST_VISIBILITY_def)

end
