(* ===== verification/Docs.thy ===== *)
theory Docs
  imports PyText "HOL-Library.Multiset"
begin

section \<open>The documentation generator (\<open>scripts/docs.py\<close>)\<close>

text \<open>
  A source file is cut into fragments of documentation and code; the fragments of the files of a
  chapter are put into the order that their documentation asks for, and printed as reStructuredText.
  The files that the script opens are an argument, a function from names to the lines of the file;
  the lines are those of \<open>readlines\<close>, which keep their newline.
\<close>

type_synonym files = "string \<Rightarrow> string list option"

subsection \<open>Fragments\<close>

record source_fragment =
  sg_file :: string
  sg_docstring :: "string option"
  sg_src :: string
  sg_ord :: "int option"
  sg_linenum :: nat

text \<open>\<open>#(\d+)\<close>: what is before, the digits and what is behind.\<close>

fun find_ord :: "string \<Rightarrow> (string \<times> string \<times> string) option" where
  "find_ord [] = None"
| "find_ord (c # s) =
     (if c = CHR ''#'' \<and> takeWhile decimal s \<noteq> [] then Some ([], takeWhile decimal s, dropWhile decimal s)
      else map_option (\<lambda>(b, d, a). (c # b, d, a)) (find_ord s))"

text \<open>\<open>\*\s*$\<close>, which matches at most once, is replaced by nothing.\<close>

definition strip_star :: "string \<Rightarrow> string" where
  "strip_star s = (case dropWhile is_space (rev s) of c # r \<Rightarrow> if c = CHR ''*'' then rev r else s | [] \<Rightarrow> s)"

definition new_fragment :: "string \<Rightarrow> string option \<Rightarrow> string \<Rightarrow> nat \<Rightarrow> source_fragment" where
  "new_fragment file docstring src linenum =
     (let (ordr, doc) = (case docstring of
            None \<Rightarrow> (None, None)
          | Some d \<Rightarrow> (case find_ord (hd (split_on nl_c d)) of
              None \<Rightarrow> (None, Some d)
            | Some (b, ds, a) \<Rightarrow> (Some (decimal_value ds),
                (case find_ord d of None \<Rightarrow> Some d | Some (b, ds, a) \<Rightarrow> Some (b @ a)))))
      in \<lparr>sg_file = file, sg_docstring = map_option strip_star doc, sg_src = src, sg_ord = ordr, sg_linenum = linenum\<rparr>)"


text \<open>The prefix of the lines of a comment, \<open>[;/*\s]*\<close>, is cut off at the length that all lines that are not blank have.\<close>

definition is_prefix_char :: "char \<Rightarrow> bool" where
  "is_prefix_char c = (c \<in> {CHR '';'', CHR ''/'', CHR ''*''} \<or> is_space c)"

definition is_blank :: "string \<Rightarrow> bool" where
  "is_blank l = list_all is_space l"

definition strip_prefix :: "string \<Rightarrow> pyexc + string" where
  "strip_prefix ds =
     (let ds' = if starts ''/**'' ds then ''   '' @ drop 3 ds else ds;
          lines = split_on nl_c ds';
          ls = map (\<lambda>l. length (takeWhile is_prefix_char l)) (filter (\<lambda>l. \<not> is_blank l) lines)
      in if ls = [] then Inl ValueError else Inr (join_with [nl_c] (map (drop (Min (set ls))) lines)))"


subsection \<open>Source files\<close>

record source_file =
  sf_name :: string
  sf_lines :: "string list"
  sf_linenum :: nat
  sf_frags :: "source_fragment list option"

definition new_SourceFile :: "files \<Rightarrow> string \<Rightarrow> pyexc + source_file" where
  "new_SourceFile fs name = (case fs name of None \<Rightarrow> Inl IOError
     | Some ls \<Rightarrow> Inr \<lparr>sf_name = name, sf_lines = ls, sf_linenum = 1, sf_frags = None\<rparr>)"

definition is_asm_type :: "string \<Rightarrow> bool" where
  "is_asm_type line = starts '';;;'' (dropWhile is_space line)"

definition is_docstring :: "string \<Rightarrow> bool" where
  "is_docstring line = ((let s = dropWhile is_space line in starts ''/**'' s \<and> (drop 3 s = [] \<or> hd (drop 3 s) \<noteq> CHR ''*'')) \<or>
     is_asm_type line)"

text \<open>\<open>(^|[^*])\*?\*/\<close> occurs in the line.\<close>

definition ends_comment :: "string \<Rightarrow> bool" where
  "ends_comment line = list_ex (\<lambda>i. (i = 0 \<or> line ! (i - 1) \<noteq> CHR ''*'') \<and>
     (starts ''*/'' (drop i line) \<or> starts ''**/'' (drop i line))) [0..<length line]"

definition up_to_end :: "string \<Rightarrow> string" where
  "up_to_end line = (case find_str ''*/'' line of Some i \<Rightarrow> take i line | None \<Rightarrow> butlast line)"

text \<open>The loops take lines from the front of the file: their results are what was taken, what is left and the line number.\<close>

fun doc_lines :: "bool \<Rightarrow> string list \<Rightarrow> nat \<Rightarrow> string list \<times> string list \<times> nat" where
  "doc_lines is_asm [] n = ([], [], n)"
| "doc_lines is_asm (line # ls) n =
     (if is_asm \<and> \<not> is_asm_type line then ([], line # ls, n)
      else if \<not> is_asm \<and> ends_comment line then ([up_to_end line], ls, Suc n)
      else case doc_lines is_asm ls n of (docstr, rest, n') \<Rightarrow> (line # docstr, rest, n'))"

fun src_lines :: "string list \<Rightarrow> nat \<Rightarrow> string list \<times> string list \<times> nat" where
  "src_lines [] n = ([], [], n)"
| "src_lines (line # ls) n =
     (if is_docstring line then ([], line # ls, n)
      else case src_lines ls (Suc n) of (src, rest, n') \<Rightarrow> (line # src, rest, n'))"

text \<open>The lines of another file from the first that has \<open>search_from\<close> in it to the next with \<open>search_to\<close>.\<close>

fun embed_lines :: "string \<Rightarrow> string \<Rightarrow> bool \<Rightarrow> string list \<Rightarrow> string list" where
  "embed_lines search_from search_to adding [] = []"
| "embed_lines search_from search_to adding (l # ls) =
     (let adding = (adding \<or> contains search_from l) in
      if contains search_to l then [l]
      else if adding then l # embed_lines search_from search_to adding ls
      else embed_lines search_from search_to adding ls)"


text \<open>\<open>{(.*),"(.*)","(.*)"}\<close>.\<close>

definition embed_pattern :: "string \<Rightarrow> (string \<times> string \<times> string \<times> unit) option" where
  "embed_pattern = lit ''{'' (star_any (lit [CHR '','', CHR 0x22] (star_any (lit [CHR 0x22, CHR '','', CHR 0x22]
     (star_any (lit [CHR 0x22, CHR ''}''] (\<lambda>r. Some ())))))))"

definition embed_src :: "files \<Rightarrow> string \<Rightarrow> pyexc + string" where
  "embed_src fs line = (case re_search embed_pattern line of
     None \<Rightarrow> Inl AssertionError
   | Some (file, search_from, search_to, _) \<Rightarrow>
       (let search_to = if search_to = [] then ''I AM A STRING THAT WILL NOT BE FOUND ANYWHERE'' else search_to in
        case fs file of None \<Rightarrow> Inl IOError | Some ls \<Rightarrow> Inr (concat (embed_lines search_from search_to False ls))))"

text \<open>\<open>{.*}\<close> is replaced by nothing.\<close>

fun cut_braces :: "nat \<Rightarrow> string \<Rightarrow> string" where
  "cut_braces skip [] = []"
| "cut_braces (Suc skip) (c # s) = cut_braces skip s"
| "cut_braces 0 (c # s) = (case lit ''{'' (star_any (lit ''}'' Some)) (c # s) of
     Some (g, r) \<Rightarrow> cut_braces (Suc (length g)) s
   | None \<Rightarrow> c # cut_braces 0 s)"

definition doc_fragment :: "files \<Rightarrow> (source_file, source_fragment) st" where
  "doc_fragment fs sf = (case sf_lines sf of
     [] \<Rightarrow> (Inl IndexError, sf)
   | first # _ \<Rightarrow>
       (case doc_lines (is_asm_type first) (sf_lines sf) (sf_linenum sf) of (docstr, rest, n) \<Rightarrow>
        let sf = sf\<lparr>sf_lines := rest, sf_linenum := n\<rparr> in
        if docstr = [] then (Inl IndexError, sf)
        else if contains ''}'' (last docstr) \<and> \<not> contains ''@}'' (last docstr) then
          (case embed_src fs (last docstr) of
             Inl e \<Rightarrow> (Inl e, sf)
           | Inr src \<Rightarrow> (Inr (new_fragment (sf_name sf) (Some (concat (butlast docstr @ [cut_braces 0 (last docstr)]))) src (sf_linenum sf)), sf))
        else if contains ''{'' (last docstr) then
          (case src_lines (sf_lines sf) (sf_linenum sf) of (src, rest, n) \<Rightarrow>
           let sf = sf\<lparr>sf_lines := rest, sf_linenum := n\<rparr> in
           (Inr (new_fragment (sf_name sf) (Some (concat (butlast docstr @ [filter (\<lambda>c. c \<noteq> CHR ''{'') (last docstr)]))) (concat src) (sf_linenum sf)), sf))
        else (Inr (new_fragment (sf_name sf) (Some (concat docstr)) [] (sf_linenum sf)), sf)))"

definition src_fragment :: "(source_file, source_fragment) st" where
  "src_fragment sf = (case src_lines (sf_lines sf) (sf_linenum sf) of (src, rest, n) \<Rightarrow>
     let sf = sf\<lparr>sf_lines := rest, sf_linenum := n\<rparr> in (Inr (new_fragment (sf_name sf) None (concat src) (sf_linenum sf)), sf))"

text \<open>Each fragment takes at least one line, so the loop ends.\<close>

lemma src_lines_split: "src_lines ls n = (takeWhile (\<lambda>l. \<not> is_docstring l) ls, dropWhile (\<lambda>l. \<not> is_docstring l) ls,
    n + length (takeWhile (\<lambda>l. \<not> is_docstring l) ls))"
  by (induction ls n rule: src_lines.induct) auto

lemma doc_lines_rest: "doc_lines is_asm ls n = (docstr, rest, n') \<Longrightarrow> length rest \<le> length ls"
  by (induction is_asm ls n arbitrary: docstr rest n' rule: doc_lines.induct) (fastforce split: if_splits prod.splits)+

lemma doc_lines_less: "doc_lines (is_asm_type first) (first # ls) n = (docstr, rest, n') \<Longrightarrow> length rest \<le> length ls \<and> docstr \<noteq> []"
  using doc_lines_rest [of "is_asm_type first" ls n] by (auto split: if_splits prod.splits)

lemma doc_fragment_less:
  assumes "doc_fragment fs sf = (r, sf')" "sf_lines sf \<noteq> []"
  shows "length (sf_lines sf') < length (sf_lines sf)"
proof -
  obtain first ls where l: "sf_lines sf = first # ls" using assms(2) by (cases "sf_lines sf") auto
  obtain docstr rest n where d: "doc_lines (is_asm_type first) (first # ls) (sf_linenum sf) = (docstr, rest, n)" by (cases "doc_lines (is_asm_type first) (first # ls) (sf_linenum sf)")
  have "length (dropWhile (\<lambda>l. \<not> is_docstring l) rest) \<le> length rest" by (rule length_dropWhile_le)
  then show ?thesis using assms(1) doc_lines_less [OF d] d
    by (auto simp: doc_fragment_def l src_lines_split Let_def simp del: doc_lines.simps split: if_splits sum.splits)
qed

lemma src_fragment_less: "src_fragment sf = (r, sf') \<Longrightarrow> sf_lines sf = l # ls \<Longrightarrow> \<not> is_docstring l \<Longrightarrow> length (sf_lines sf') < length (sf_lines sf)"
  using length_dropWhile_le [of "\<lambda>l. \<not> is_docstring l" ls] by (auto simp: src_fragment_def src_lines_split Let_def)

function fragments_loop :: "files \<Rightarrow> (source_file, source_fragment list) st" where
  "fragments_loop fs sf = (case sf_lines sf of
     [] \<Rightarrow> (Inr [], sf)
   | line # _ \<Rightarrow>
       if is_docstring line \<and> contains ''#cut'' line then (Inr [], sf)
       else (case (if is_docstring line then doc_fragment fs sf else src_fragment sf) of
          (Inl e, sf') \<Rightarrow> (Inl e, sf')
        | (Inr frag, sf') \<Rightarrow> (case fragments_loop fs sf' of (Inl e, sf'') \<Rightarrow> (Inl e, sf'') | (Inr frags, sf'') \<Rightarrow> (Inr (frag # frags), sf''))))"
  by pat_completeness auto
termination
  by (relation "measure (\<lambda>(fs, sf). length (sf_lines sf))")
    (auto split: if_splits dest: sym [THEN doc_fragment_less] sym [THEN src_fragment_less])

lemmas fragments_loop_simps [simp del] = fragments_loop.simps

definition fragments :: "files \<Rightarrow> (source_file, source_fragment list) st" where
  "fragments fs sf = (case sf_frags sf of
     Some frags \<Rightarrow> (Inr frags, sf)
   | None \<Rightarrow> sbind (fragments_loop fs) (\<lambda>frags sf. (Inr frags, sf\<lparr>sf_frags := Some frags\<rparr>)) sf)"


subsection \<open>Chapters\<close>











text \<open>
  The neighbours of the chapter in the graph, whose edges are \<open>es\<close>, and the picture of them. A set is
  the list of its elements; the order in which Python enumerates it is not fixed.
\<close>

definition get_preds :: "(string \<times> string) list \<Rightarrow> string option \<Rightarrow> string list" where
  "get_preds es node = (case node of None \<Rightarrow> []
     | Some n \<Rightarrow> removeAll n (remdups (map fst (filter (\<lambda>e. snd e = n) es))))"

definition get_succs :: "(string \<times> string) list \<Rightarrow> string option \<Rightarrow> string list" where
  "get_succs es node = (case node of None \<Rightarrow> []
     | Some n \<Rightarrow> removeAll n (remdups (map snd (filter (\<lambda>e. fst e = n) es))))"

definition in_quotes :: "string \<Rightarrow> string" where
  "in_quotes s = CHR 0x22 # s @ [CHR 0x22]"

definition dashes :: "string \<Rightarrow> string" where
  "dashes s = map (\<lambda>c. if c = CHR '' '' then CHR ''-'' else c) s"

definition page_url :: "string \<Rightarrow> string" where
  "page_url node = ''./'' @ map lower_c (dashes node) @ ''.html''"

definition dot_node :: "string \<Rightarrow> string" where
  "dot_node p = in_quotes p @ '' [href='' @ in_quotes (page_url p) @ '' target='' @ in_quotes ''_parent'' @ '']''"

definition dot_graph :: "string list \<Rightarrow> string list \<Rightarrow> string \<Rightarrow> string" where
  "dot_graph preds succs node = join_with [nl_c]
     ([''digraph G {'', ''node [shape=box fontsize=12 fontname='' @ in_quotes ''Droid Sans'' @ '' peripheries=0 ]'',
       ''rankdir=LR; nodesep=0.0; pad='' @ in_quotes ''0,0'' @ '';''] @
      map (\<lambda>p. in_quotes p @ '' -> '' @ in_quotes node) preds @ map (\<lambda>s. in_quotes node @ '' -> '' @ in_quotes s) succs @
      map dot_node preds @ map dot_node succs @ [''}'', []])"

subsection \<open>The order of the fragments\<close>



definition bucket :: "('k \<times> 'v list) list \<Rightarrow> 'k \<Rightarrow> 'v list" where
  "bucket ords i = (case map_of ords i of None \<Rightarrow> [] | Some l \<Rightarrow> l)"

lemma bucket_set: "bucket (dict_set k v d) i = (if i = k then v else bucket d i)"
  by (simp add: bucket_def)






subsection \<open>The numbers of the fragments\<close>





subsection \<open>The code of a file\<close>

text \<open>
  A scanner that looks at one line at a time: \<open>code_of\<close> collects the lines that are not in a comment, up to a
  comment with \<open>#cut\<close> in its first line, \<open>doc_of\<close> the lines of the comments.
\<close>

datatype mode = InCode | InComment | InAsm

function code_of :: "mode \<Rightarrow> string list \<Rightarrow> string list" where
  "code_of m [] = []"
| "code_of InCode (l # ls) =
     (if \<not> is_docstring l then l # code_of InCode ls
      else if contains ''#cut'' l then []
      else if is_asm_type l then code_of InAsm ls
      else if ends_comment l then code_of InCode ls else code_of InComment ls)"
| "code_of InComment (l # ls) = (if ends_comment l then code_of InCode ls else code_of InComment ls)"
| "code_of InAsm (l # ls) = (if is_asm_type l then code_of InAsm ls else code_of InCode (l # ls))"
  by pat_completeness auto
termination
  by (relation "measure (\<lambda>(m, ls). 2 * length ls + (if m = InAsm then 1 else 0))") auto

function doc_of :: "mode \<Rightarrow> string list \<Rightarrow> string list" where
  "doc_of m [] = []"
| "doc_of InCode (l # ls) =
     (if \<not> is_docstring l then doc_of InCode ls
      else if contains ''#cut'' l then []
      else if is_asm_type l then l # doc_of InAsm ls
      else if ends_comment l then up_to_end l # doc_of InCode ls else l # doc_of InComment ls)"
| "doc_of InComment (l # ls) = (if ends_comment l then up_to_end l # doc_of InCode ls else l # doc_of InComment ls)"
| "doc_of InAsm (l # ls) = (if is_asm_type l then l # doc_of InAsm ls else doc_of InCode (l # ls))"
  by pat_completeness auto
termination
  by (relation "measure (\<lambda>(m, ls). 2 * length ls + (if m = InAsm then 1 else 0))") auto

lemma code_of_src: "code_of InCode ls = takeWhile (\<lambda>l. \<not> is_docstring l) ls @ code_of InCode (dropWhile (\<lambda>l. \<not> is_docstring l) ls)"
  "doc_of InCode ls = doc_of InCode (dropWhile (\<lambda>l. \<not> is_docstring l) ls)"
  by (induction ls) auto

text \<open>A brace that is closed in the last line of a comment asks for text of another file.\<close>

definition asks_embed :: "string \<Rightarrow> bool" where
  "asks_embed d = (contains ''}'' d \<and> \<not> contains ''@}'' d)"

lemma doc_lines_mode:
  "doc_lines is_asm ls n = (docstr, rest, n') \<Longrightarrow> m = (if is_asm then InAsm else InComment) \<Longrightarrow>
    code_of m ls = code_of InCode rest \<and> doc_of m ls = docstr @ doc_of InCode rest"
proof (induction is_asm ls n arbitrary: docstr rest n' rule: doc_lines.induct)
  case (2 is_asm l ls n)
  show ?case
  proof (cases "(is_asm \<and> \<not> is_asm_type l) \<or> (\<not> is_asm \<and> ends_comment l)")
    case True
    then show ?thesis using "2.prems" by auto
  next
    case False
    obtain ds r k where d: "doc_lines is_asm ls n = (ds, r, k)" by (cases "doc_lines is_asm ls n")
    from "2.IH" [OF _ _ d "2.prems"(2)] False have
      "code_of m ls = code_of InCode r" "doc_of m ls = ds @ doc_of InCode r" by auto
    then show ?thesis using False "2.prems" d by auto
  qed
qed auto

lemma doc_lines_first:
  assumes "doc_lines (is_asm_type l) (l # ls) n = (docstr, rest, n')" "is_docstring l" "\<not> contains ''#cut'' l"
  shows "code_of InCode (l # ls) = code_of InCode rest"
    "doc_of InCode (l # ls) = docstr @ doc_of InCode rest"
proof -
  have "code_of InCode (l # ls) = code_of InCode rest \<and> doc_of InCode (l # ls) = docstr @ doc_of InCode rest"
  proof (cases "\<not> is_asm_type l \<and> ends_comment l")
    case True
    then show ?thesis using assms by auto
  next
    case False
    obtain ds r k where d: "doc_lines (is_asm_type l) ls n = (ds, r, k)" by (cases "doc_lines (is_asm_type l) ls n")
    from doc_lines_mode [OF d refl] show ?thesis using False assms d by (cases "is_asm_type l") auto
  qed
  then show "code_of InCode (l # ls) = code_of InCode rest"
    "doc_of InCode (l # ls) = docstr @ doc_of InCode rest" by blast+
qed

lemma doc_fragment_code:
  assumes "sf_lines sf = l # ls" "is_docstring l" "\<not> contains ''#cut'' l" "\<forall>d\<in>set (doc_of InCode (l # ls)). \<not> asks_embed d"
  shows "\<exists>frag sf'. doc_fragment fs sf = (Inr frag, sf') \<and> concat (code_of InCode (l # ls)) = sg_src frag @ concat (code_of InCode (sf_lines sf')) \<and>
     set (doc_of InCode (sf_lines sf')) \<subseteq> set (doc_of InCode (l # ls))"
proof -
  obtain docstr rest n where d: "doc_lines (is_asm_type l) (l # ls) (sf_linenum sf) = (docstr, rest, n)"
    by (cases "doc_lines (is_asm_type l) (l # ls) (sf_linenum sf)")
  note c = doc_lines_first [OF d assms(2,3)]
  have ne: "docstr \<noteq> []" using doc_lines_less [OF d] by simp
  then have b: "\<not> (contains ''}'' (last docstr) \<and> \<not> contains ''@}'' (last docstr))"
    using assms(4) last_in_set [OF ne] unfolding c(2) asks_embed_def by auto
  have s: "sg_src (new_fragment f t u k) = u" for f t u k
    by (simp add: new_fragment_def Let_def split: option.split prod.split)
  show ?thesis using d ne b c code_of_src [of rest]
    by (auto simp: doc_fragment_def assms(1) src_lines_split Let_def s simp del: doc_lines.simps code_of.simps doc_of.simps)
qed

lemma fragments_loop_code:
  "\<forall>d\<in>set (doc_of InCode (sf_lines sf)). \<not> asks_embed d \<Longrightarrow>
   \<exists>frags sf'. fragments_loop fs sf = (Inr frags, sf') \<and> concat (map sg_src frags) = concat (code_of InCode (sf_lines sf)) \<and>
     (sf_lines sf' = [] \<or> (is_docstring (hd (sf_lines sf')) \<and> contains ''#cut'' (hd (sf_lines sf'))))"
proof (induction fs sf rule: fragments_loop.induct)
  case (1 fs sf)
  show ?case
  proof (cases "sf_lines sf")
    case Nil
    then show ?thesis by (simp add: fragments_loop_simps [of fs sf])
  next
    case (Cons l ls)
    show ?thesis
    proof (cases "is_docstring l \<and> contains ''#cut'' l")
      case True
      then show ?thesis by (simp add: fragments_loop_simps [of fs sf] Cons)
    next
      case False
      have "\<exists>frag sf'. (if is_docstring l then doc_fragment fs sf else src_fragment sf) = (Inr frag, sf') \<and>
        concat (code_of InCode (l # ls)) = sg_src frag @ concat (code_of InCode (sf_lines sf')) \<and> set (doc_of InCode (sf_lines sf')) \<subseteq> set (doc_of InCode (l # ls))"
      proof (cases "is_docstring l")
        case True
        then show ?thesis using doc_fragment_code [OF Cons True] False "1.prems" Cons by fastforce
      next
        case docs: False
        show ?thesis using docs code_of_src [of ls]
          by (auto simp: src_fragment_def Cons src_lines_split Let_def new_fragment_def)
      qed
      then obtain frag sf' where f: "(if is_docstring l then doc_fragment fs sf else src_fragment sf) = (Inr frag, sf')"
        "concat (code_of InCode (l # ls)) = sg_src frag @ concat (code_of InCode (sf_lines sf'))" "set (doc_of InCode (sf_lines sf')) \<subseteq> set (doc_of InCode (l # ls))" by blast
      have "\<exists>frags sf''. fragments_loop fs sf' = (Inr frags, sf'') \<and> concat (map sg_src frags) = concat (code_of InCode (sf_lines sf')) \<and>
         (sf_lines sf'' = [] \<or> (is_docstring (hd (sf_lines sf'')) \<and> contains ''#cut'' (hd (sf_lines sf''))))"
        by (rule "1.IH" [OF Cons False f(1) [symmetric] refl]) (use f(3) "1.prems" in \<open>auto simp only: Cons\<close>)
      then show ?thesis using f(1,2) False by (auto simp: fragments_loop_simps [of fs sf] Cons simp del: code_of.simps)
    qed
  qed
qed

text \<open>C11: Cutting a file, in whose comments no line has a closing brace unless it has @} too (as the last line of a comment it would ask for text of another file, or fail an assertion, lemma braces_asserted), loses no code: the code of the fragments, joined, is the lines outside of comments as a line-by-line scanner sees them, up to the first comment with #cut.\<close>

theorem docs_code_kept:
  assumes "fs name = Some ls" "\<forall>d\<in>set (doc_of InCode ls). \<not> asks_embed d"
  shows "\<exists>sf frags sf'. new_SourceFile fs name = Inr sf \<and> fragments fs sf = (Inr frags, sf') \<and>
    concat (map sg_src frags) = concat (code_of InCode ls) \<and> sf_frags sf' = Some frags \<and>
    (sf_lines sf' = [] \<or> (is_docstring (hd (sf_lines sf')) \<and> contains ''#cut'' (hd (sf_lines sf'))))"
proof -
  let ?sf = "\<lparr>sf_name = name, sf_lines = ls, sf_linenum = 1, sf_frags = None\<rparr>"
  obtain frags sf' where "fragments_loop fs ?sf = (Inr frags, sf')" "concat (map sg_src frags) = concat (code_of InCode ls)"
    "sf_lines sf' = [] \<or> (is_docstring (hd (sf_lines sf')) \<and> contains ''#cut'' (hd (sf_lines sf')))"
    using fragments_loop_code [of ?sf fs] assms(2) by auto
  then show ?thesis using assms(1) by (simp add: new_SourceFile_def fragments_def)
qed

text \<open>Braces around anything but a file and two texts in quotes embed nothing, but fail the assertion.\<close>

lemma braces_asserted:
  "fst (fragments (\<lambda>name. Some [''/** {x} */'' @ [nl_c]]) \<lparr>sf_name = ''a.c'', sf_lines = [''/** {x} */'' @ [nl_c]], sf_linenum = 1, sf_frags = None\<rparr>) = Inl AssertionError"
  by code_simp

subsection \<open>The prefix of a comment\<close>

text \<open>The lines of a comment, with its opening blanked out.\<close>

definition comment_lines :: "string \<Rightarrow> string list" where
  "comment_lines ds = split_on nl_c (if starts ''/**'' ds then ''   '' @ drop 3 ds else ds)"

lemma take_of_takeWhile: "k \<le> length (takeWhile P l) \<Longrightarrow> list_all P (take k l) \<and> k \<le> length l"
proof (induction l arbitrary: k)
  case (Cons c l)
  then show ?case by (cases k) (auto split: if_splits)
qed simp

text \<open>C38: Stripping a comment fails with ValueError exactly when all its lines are blank; otherwise it cuts the same number of characters off every line, only prefix characters from lines that are not blank, and as many as that allows.\<close>

theorem strip_prefix_cuts:
  "(strip_prefix ds = Inl ValueError \<and> list_all is_blank (comment_lines ds)) \<or>
   (\<exists>k. strip_prefix ds = Inr (join_with [nl_c] (map (drop k) (comment_lines ds))) \<and>
     (\<forall>l\<in>set (comment_lines ds). is_blank l \<or> list_all is_prefix_char (take k l) \<and> k \<le> length l) \<and>
     (\<exists>l\<in>set (comment_lines ds). \<not> is_blank l \<and> (drop k l = [] \<or> \<not> is_prefix_char (hd (drop k l)))))"
proof -
  let ?n = "\<lambda>l. length (takeWhile is_prefix_char l)"
  let ?ls = "map ?n (filter (\<lambda>l. \<not> is_blank l) (comment_lines ds))"
  have s: "strip_prefix ds = (if ?ls = [] then Inl ValueError else Inr (join_with [nl_c] (map (drop (Min (set ?ls))) (comment_lines ds))))"
    by (simp only: strip_prefix_def comment_lines_def Let_def)
  show ?thesis
  proof (cases "?ls = []")
    case True
    then show ?thesis unfolding s by (simp add: filter_empty_conv list_all_iff)
  next
    case False
    let ?k = "Min (set ?ls)"
    have "?k \<in> set ?ls" by (rule Min_in) (use False in \<open>auto simp: filter_empty_conv\<close>)
    then obtain l where l: "l \<in> set (comment_lines ds)" "\<not> is_blank l" "?k = ?n l" by auto
    have "drop (?n l) l = dropWhile is_prefix_char l" by (rule dropWhile_eq_drop [symmetric])
    then have "drop ?k l = [] \<or> \<not> is_prefix_char (hd (drop ?k l))" unfolding l(3) using hd_dropWhile [of is_prefix_char l] by auto
    moreover have "is_blank l' \<or> list_all is_prefix_char (take ?k l') \<and> ?k \<le> length l'" if "l' \<in> set (comment_lines ds)" for l'
    proof (cases "is_blank l'")
      case False
      then have "?k \<le> ?n l'" by (intro Min_le) (use that in auto)
      then show ?thesis by (intro disjI2 take_of_takeWhile)
    qed simp
    ultimately show ?thesis unfolding s using False l(1,2) by (intro disjI2 exI [of _ ?k]) (simp only: if_False, blast)
  qed
qed

theorem strip_prefix_cuts_witness:
  "\<exists>k. strip_prefix ''/** a'' = Inr (join_with [nl_c] (map (drop k) (comment_lines ''/** a'')))"
proof -
  have "\<not> list_all is_blank (comment_lines ''/** a'')" by code_simp
  then show ?thesis using strip_prefix_cuts [of "''/** a''"] by blast
qed

subsection \<open>The code in the text of a chapter\<close>













subsection \<open>An example\<close>

definition example_source :: "string list" where
  "example_source = map (\<lambda>l. l @ [nl_c]) [''/** #2'', '' */'', ''b;'', '';;; #1'', '';;; x'', ''a;'', ''/** #cut'', ''c;'']"

definition example_files :: files where
  "example_files = (\<lambda>name. if name = ''a.c'' then Some example_source else None)"

theorem docs_code_kept_witness:
  "\<exists>sf frags sf'. new_SourceFile example_files ''a.c'' = Inr sf \<and> fragments example_files sf = (Inr frags, sf') \<and>
     concat (map sg_src frags) = ''b;'' @ [nl_c] @ ''a;'' @ [nl_c] \<and> length (sf_lines sf') = 2"
proof -
  have e: "example_files ''a.c'' = Some example_source" by (simp add: example_files_def)
  have d: "\<forall>d\<in>set (doc_of InCode example_source). \<not> asks_embed d"
    "concat (code_of InCode example_source) = ''b;'' @ [nl_c] @ ''a;'' @ [nl_c]" by code_simp+
  obtain sf frags sf' where f: "new_SourceFile example_files ''a.c'' = Inr sf" "fragments example_files sf = (Inr frags, sf')"
    "concat (map sg_src frags) = concat (code_of InCode example_source)"
    using docs_code_kept [of example_files "''a.c''", OF e d(1)] by blast
  have "\<not> isl (new_SourceFile example_files ''a.c'')" "length (sf_lines (snd (fragments example_files (projr (new_SourceFile example_files ''a.c''))))) = 2"
    by code_simp+
  then have "length (sf_lines sf') = 2" using f(1,2) by simp
  then show ?thesis using f d(2) by auto
qed


end
