(* ===== verification/DwarfExpr.thy ===== *)
theory DwarfExpr
  imports DwarfReads PyText
begin

section \<open>DWARF expressions (\<open>dwarf/dwarf_expr.py\<close>, \<open>ExprDumper\<close> of \<open>dwarf/descriptions.py\<close>)\<close>

text \<open>
  An expression is a list of bytes: an opcode, its operands, the next opcode. \<open>GenericExprVisitor\<close>
  decodes it and calls \<open>_after_visit\<close> for each operation; the call is an argument here, a
  computation on the state of the client, which is the second component of the state. The dispatch table
  holds the operands of an opcode instead of the function that reads them.
\<close>

subsection \<open>Opcodes\<close>

definition generate_dynamic_values :: "(string \<times> int) list \<Rightarrow> string \<Rightarrow> nat \<Rightarrow> nat \<Rightarrow> int \<Rightarrow> (string \<times> int) list" where
  "generate_dynamic_values m pre index_start index_end value_start =
     foldl (\<lambda>m index. dict_set (pre @ dec_text (int index)) (value_start + int index - int index_start) m) m [index_start..<index_end + 1]"

definition DW_OP_fixed :: "(string \<times> int) list" where
  "DW_OP_fixed =
     [(''DW_OP_addr'', 0x03), (''DW_OP_deref'', 0x06), (''DW_OP_const1u'', 0x08), (''DW_OP_const1s'', 0x09), (''DW_OP_const2u'', 0x0a),
      (''DW_OP_const2s'', 0x0b), (''DW_OP_const4u'', 0x0c), (''DW_OP_const4s'', 0x0d), (''DW_OP_const8u'', 0x0e), (''DW_OP_const8s'', 0x0f),
      (''DW_OP_constu'', 0x10), (''DW_OP_consts'', 0x11), (''DW_OP_dup'', 0x12), (''DW_OP_drop'', 0x13), (''DW_OP_over'', 0x14), (''DW_OP_pick'', 0x15),
      (''DW_OP_swap'', 0x16), (''DW_OP_rot'', 0x17), (''DW_OP_xderef'', 0x18), (''DW_OP_abs'', 0x19), (''DW_OP_and'', 0x1a), (''DW_OP_div'', 0x1b),
      (''DW_OP_minus'', 0x1c), (''DW_OP_mod'', 0x1d), (''DW_OP_mul'', 0x1e), (''DW_OP_neg'', 0x1f), (''DW_OP_not'', 0x20), (''DW_OP_or'', 0x21),
      (''DW_OP_plus'', 0x22), (''DW_OP_plus_uconst'', 0x23), (''DW_OP_shl'', 0x24), (''DW_OP_shr'', 0x25), (''DW_OP_shra'', 0x26), (''DW_OP_xor'', 0x27),
      (''DW_OP_bra'', 0x28), (''DW_OP_eq'', 0x29), (''DW_OP_ge'', 0x2a), (''DW_OP_gt'', 0x2b), (''DW_OP_le'', 0x2c), (''DW_OP_lt'', 0x2d),
      (''DW_OP_ne'', 0x2e), (''DW_OP_skip'', 0x2f), (''DW_OP_regx'', 0x90), (''DW_OP_fbreg'', 0x91), (''DW_OP_bregx'', 0x92), (''DW_OP_piece'', 0x93),
      (''DW_OP_deref_size'', 0x94), (''DW_OP_xderef_size'', 0x95), (''DW_OP_nop'', 0x96), (''DW_OP_push_object_address'', 0x97), (''DW_OP_call2'', 0x98),
      (''DW_OP_call4'', 0x99), (''DW_OP_call_ref'', 0x9a), (''DW_OP_form_tls_address'', 0x9b), (''DW_OP_call_frame_cfa'', 0x9c), (''DW_OP_bit_piece'', 0x9d)]"

definition DW_OP_name2opcode :: "(string \<times> int) list" where
  "DW_OP_name2opcode = generate_dynamic_values (generate_dynamic_values (generate_dynamic_values DW_OP_fixed ''DW_OP_lit'' 0 31 0x30)
     ''DW_OP_reg'' 0 31 0x50) ''DW_OP_breg'' 0 31 0x70"

definition DW_OP_opcode2name :: "(int \<times> string) list" where
  "DW_OP_opcode2name = map (\<lambda>(k, v). (v, k)) DW_OP_name2opcode"

definition op_name :: "int \<Rightarrow> string" where
  "op_name opcode = (case map_of DW_OP_opcode2name opcode of Some name \<Rightarrow> name | None \<Rightarrow> ''OP:0x'' @ hex_text opcode)"

subsection \<open>The dispatch table\<close>

datatype arg_kind = Arg_addr | Arg_uint8 | Arg_int8 | Arg_uint16 | Arg_int16 | Arg_uint32 | Arg_int32 | Arg_uleb128 | Arg_sleb128 | Arg_offset

fun arg_struct :: "dwarf_structs \<Rightarrow> arg_kind \<Rightarrow> construct" where
  "arg_struct S Arg_addr = Dwarf_target_addr S (Some '''')"
| "arg_struct S Arg_uint8 = Dwarf_uint8 S (Some '''')"
| "arg_struct S Arg_int8 = Dwarf_int8 S (Some '''')"
| "arg_struct S Arg_uint16 = Dwarf_uint16 S (Some '''')"
| "arg_struct S Arg_int16 = Dwarf_int16 S (Some '''')"
| "arg_struct S Arg_uint32 = Dwarf_uint32 S (Some '''')"
| "arg_struct S Arg_int32 = Dwarf_int32 S (Some '''')"
| "arg_struct S Arg_uleb128 = Dwarf_uleb128 S (Some '''')"
| "arg_struct S Arg_sleb128 = Dwarf_sleb128 S (Some '''')"
| "arg_struct S Arg_offset = Dwarf_offset S (Some '''')"

definition add_visitor :: "string \<Rightarrow> arg_kind list \<Rightarrow> (int \<times> arg_kind list) list \<Rightarrow> (int \<times> arg_kind list) list" where
  "add_visitor opcode_name args table = dict_set (the (map_of DW_OP_name2opcode opcode_name)) args table"

definition no_arg_ops :: "string list" where
  "no_arg_ops =
     [''DW_OP_deref'', ''DW_OP_dup'', ''DW_OP_drop'', ''DW_OP_over'', ''DW_OP_swap'', ''DW_OP_swap'', ''DW_OP_rot'', ''DW_OP_xderef'', ''DW_OP_abs'',
      ''DW_OP_and'', ''DW_OP_div'', ''DW_OP_minus'', ''DW_OP_mod'', ''DW_OP_mul'', ''DW_OP_neg'', ''DW_OP_not'', ''DW_OP_plus'', ''DW_OP_shl'',
      ''DW_OP_shr'', ''DW_OP_shra'', ''DW_OP_xor'', ''DW_OP_eq'', ''DW_OP_ge'', ''DW_OP_gt'', ''DW_OP_le'', ''DW_OP_lt'', ''DW_OP_ne'', ''DW_OP_nop'',
      ''DW_OP_push_object_address'', ''DW_OP_form_tls_address'', ''DW_OP_call_frame_cfa'']"

definition arg_ops :: "(string \<times> arg_kind list) list" where
  "arg_ops =
     [(''DW_OP_addr'', [Arg_addr]), (''DW_OP_const1u'', [Arg_uint8]), (''DW_OP_const1s'', [Arg_int8]), (''DW_OP_const2u'', [Arg_uint16]),
      (''DW_OP_const2s'', [Arg_int16]), (''DW_OP_const4u'', [Arg_uint32]), (''DW_OP_const4s'', [Arg_int32]),
      (''DW_OP_const8u'', [Arg_uint32, Arg_uint32]), (''DW_OP_const8s'', [Arg_int32, Arg_int32]), (''DW_OP_constu'', [Arg_uleb128]),
      (''DW_OP_consts'', [Arg_sleb128]), (''DW_OP_pick'', [Arg_uint8]), (''DW_OP_plus_uconst'', [Arg_uleb128]), (''DW_OP_bra'', [Arg_int16]),
      (''DW_OP_skip'', [Arg_int16])]"

definition numbered_ops :: "(string \<times> arg_kind list) list" where
  "numbered_ops = concat (map (\<lambda>n. [(''DW_OP_lit'' @ dec_text (int n), []), (''DW_OP_reg'' @ dec_text (int n), []),
     (''DW_OP_breg'' @ dec_text (int n), [Arg_sleb128])]) [0..<32])"

definition last_ops :: "(string \<times> arg_kind list) list" where
  "last_ops =
     [(''DW_OP_fbreg'', [Arg_sleb128]), (''DW_OP_regx'', [Arg_uleb128]), (''DW_OP_bregx'', [Arg_uleb128, Arg_sleb128]),
      (''DW_OP_piece'', [Arg_uleb128]), (''DW_OP_bit_piece'', [Arg_uleb128, Arg_uleb128]), (''DW_OP_deref_size'', [Arg_int8]),
      (''DW_OP_xderef_size'', [Arg_int8]), (''DW_OP_call2'', [Arg_uint16]), (''DW_OP_call4'', [Arg_uint32]), (''DW_OP_call_ref'', [Arg_offset])]"

definition dispatch_table :: "(int \<times> arg_kind list) list" where
  "dispatch_table = foldl (\<lambda>table (name, args). add_visitor name args table) []
     (arg_ops @ map (\<lambda>name. (name, [])) no_arg_ops @ numbered_ops @ last_ops)"

text \<open>An opcode that is not in the table has the default visitor, which reads nothing.\<close>

definition op_args :: "int \<Rightarrow> arg_kind list" where
  "op_args opcode = (case map_of dispatch_table opcode of Some args \<Rightarrow> args | None \<Rightarrow> [])"

subsection \<open>Visiting an expression\<close>

type_synonym ('v, 'a) xm = "(pystream \<times> 'v, 'a) st"

definition expr_parse :: "nat \<Rightarrow> construct \<Rightarrow> ('v, pyval) xm" where
  "expr_parse fuel c = (\<lambda>(t, v). case struct_parse fuel c None t of (r, t') \<Rightarrow> (r, (t', v)))"

fun visit_args :: "nat \<Rightarrow> dwarf_structs \<Rightarrow> arg_kind list \<Rightarrow> ('v, pyval list) xm" where
  "visit_args fuel S [] = sret []"
| "visit_args fuel S (a # as) = sbind (expr_parse fuel (arg_struct S a)) (\<lambda>x. sbind (visit_args fuel S as) (\<lambda>xs. sret (x # xs)))"

definition expr_read :: "('v, string) xm" where
  "expr_read = (\<lambda>(t, v). case stream_read 1 t of (r, t') \<Rightarrow> (r, (t', v)))"

type_synonym 'v visit = "int \<Rightarrow> string \<Rightarrow> pyval list \<Rightarrow> 'v \<Rightarrow> (pyexc + unit) \<times> 'v"

fun expr_loop :: "nat \<Rightarrow> nat \<Rightarrow> dwarf_structs \<Rightarrow> 'v visit \<Rightarrow> ('v, unit) xm" where
  "expr_loop 0 fuel S after = sraise NoFuel"
| "expr_loop (Suc k) fuel S after = sbind expr_read (\<lambda>byte.
     case byte of [] \<Rightarrow> sret ()
     | c # _ \<Rightarrow> (let opcode = ord_c c in
         sbind (visit_args fuel S (op_args opcode)) (\<lambda>args.
         sbind (\<lambda>(t, v). case after opcode (op_name opcode) args v of (r, v') \<Rightarrow> (r, (t, v'))) (\<lambda>_. expr_loop k fuel S after))))"

definition process_expr :: "nat \<Rightarrow> dwarf_structs \<Rightarrow> 'v visit \<Rightarrow> int list \<Rightarrow> ('v, unit) xm" where
  "process_expr fuel S after expr = sbind (\<lambda>(t, v). case bytelist2string expr of Inl e \<Rightarrow> (Inl e, (t, v)) | Inr b \<Rightarrow> (Inr (), (BytesIO b 0, v)))
     (\<lambda>_. expr_loop fuel fuel S after)"

subsection \<open>Describing an expression\<close>

definition REG_NAMES_x86 :: "string list" where
  "REG_NAMES_x86 =
     [''eax'', ''ecx'', ''edx'', ''ebx'', ''esp'', ''ebp'', ''esi'', ''edi'', ''eip'', ''eflags'', ''<none>'', ''st0'', ''st1'', ''st2'', ''st3'',
      ''st4'', ''st5'', ''st6'', ''st7'', ''<none>'', ''<none>'', ''xmm0'', ''xmm1'', ''xmm2'', ''xmm3'', ''xmm4'', ''xmm5'', ''xmm6'', ''xmm7'',
      ''mm0'', ''mm1'', ''mm2'', ''mm3'', ''mm4'', ''mm5'', ''mm6'', ''mm7'', ''fcw'', ''fsw'', ''mxcsr'', ''es'', ''cs'', ''ss'', ''ds'', ''fs'',
      ''gs'', ''<none>'', ''<none>'', ''tr'', ''ldtr'']"

definition REG_NAMES_x64 :: "string list" where
  "REG_NAMES_x64 =
     [''rax'', ''rdx'', ''rcx'', ''rbx'', ''rsi'', ''rdi'', ''rbp'', ''rsp'', ''r8'', ''r9'', ''r10'', ''r11'', ''r12'', ''r13'', ''r14'',
      ''r15'', ''rip'', ''xmm0'', ''xmm1'', ''xmm2'', ''xmm3'', ''xmm4'', ''xmm5'', ''xmm6'', ''xmm7'', ''xmm8'', ''xmm9'', ''xmm10'', ''xmm11'',
      ''xmm12'', ''xmm13'', ''xmm14'', ''xmm15'', ''st0'', ''st1'', ''st2'', ''st3'', ''st4'', ''st5'', ''st6'', ''st7'', ''mm0'', ''mm1'',
      ''mm2'', ''mm3'', ''mm4'', ''mm5'', ''mm6'', ''mm7'', ''rflags'', ''es'', ''cs'', ''ss'', ''ds'', ''fs'', ''gs'', ''<none>'', ''<none>'',
      ''fs.base'', ''gs.base'', ''<none>'', ''<none>'', ''tr'', ''ldtr'', ''mxcsr'', ''fcw'', ''fsw'']"

definition describe_reg_name :: "string \<Rightarrow> int \<Rightarrow> pyexc + string" where
  "describe_reg_name machine_arch regnum =
     (if machine_arch = ''x86'' then py_index REG_NAMES_x86 regnum
      else if machine_arch = ''x64'' then py_index REG_NAMES_x64 regnum
      else Inr ''<none>'')"

definition int_of_text :: "string \<Rightarrow> pyexc + int" where
  "int_of_text s = (if s \<noteq> [] \<and> list_all decimal s then Inr (decimal_value s) else Inl ValueError)"

definition ops_with_decimal_arg :: "string list" where
  "ops_with_decimal_arg =
     [''DW_OP_const1u'', ''DW_OP_const1s'', ''DW_OP_const2u'', ''DW_OP_const2s'', ''DW_OP_const4u'', ''DW_OP_const4s'', ''DW_OP_constu'',
      ''DW_OP_consts'', ''DW_OP_pick'', ''DW_OP_plus_uconst'', ''DW_OP_bra'', ''DW_OP_skip'', ''DW_OP_fbreg'', ''DW_OP_piece'',
      ''DW_OP_deref_size'', ''DW_OP_xderef_size'', ''DW_OP_regx''] @ map (\<lambda>n. ''DW_OP_breg'' @ dec_text (int n)) [0..<32]"

definition ops_with_two_decimal_args :: "string list" where
  "ops_with_two_decimal_args = [''DW_OP_const8u'', ''DW_OP_const8s'', ''DW_OP_bregx'', ''DW_OP_bit_piece'']"

definition ops_with_hex_arg :: "string list" where
  "ops_with_hex_arg = [''DW_OP_addr'', ''DW_OP_call2'', ''DW_OP_call4'', ''DW_OP_call_ref'']"

definition ends :: "string \<Rightarrow> string \<Rightarrow> bool" where
  "ends p s = starts (rev p) (rev s)"

text \<open>The operands of the operations named are integers.\<close>

definition dump_to_string :: "string \<Rightarrow> string \<Rightarrow> pyval list \<Rightarrow> pyexc + string" where
  "dump_to_string arch opcode_name args =
     (if args = [] then
        (if starts ''DW_OP_reg'' opcode_name then
           ebind (int_of_text (drop 9 opcode_name)) (\<lambda>regnum. ebind (describe_reg_name arch regnum) (\<lambda>reg.
             Inr (opcode_name @ '' ('' @ reg @ '')'')))
         else Inr opcode_name)
      else if opcode_name \<in> set ops_with_decimal_arg then
        ebind (as_int (hd args)) (\<lambda>arg.
         if starts ''DW_OP_breg'' opcode_name then
           ebind (int_of_text (drop 10 opcode_name)) (\<lambda>regnum. ebind (describe_reg_name arch regnum) (\<lambda>reg.
             Inr (opcode_name @ '' ('' @ reg @ ''): '' @ dec_text arg)))
         else if ends ''regx'' opcode_name then
           ebind (describe_reg_name arch arg) (\<lambda>reg. Inr (opcode_name @ '': '' @ dec_text arg @ '' ('' @ reg @ '')''))
         else Inr (opcode_name @ '': '' @ dec_text arg))
      else if opcode_name \<in> set ops_with_hex_arg then
        ebind (as_int (hd args)) (\<lambda>arg. Inr (opcode_name @ '': '' @ hex_text arg))
      else if opcode_name \<in> set ops_with_two_decimal_args then
        ebind (as_int (hd args)) (\<lambda>arg. ebind (py_index args 1) (\<lambda>a. ebind (as_int a) (\<lambda>arg'.
          Inr (opcode_name @ '': '' @ dec_text arg @ '' '' @ dec_text arg'))))
      else Inr (''<unknown '' @ opcode_name @ ''>''))"

text \<open>The state of an \<open>ExprDumper\<close> is \<open>_str_parts\<close>.\<close>

definition dumper_after_visit :: "string \<Rightarrow> string list visit" where
  "dumper_after_visit arch opcode opcode_name args parts = (case dump_to_string arch opcode_name args of
     Inl e \<Rightarrow> (Inl e, parts) | Inr s \<Rightarrow> (Inr (), parts @ [s]))"

definition dumper_get_str :: "string list \<Rightarrow> string" where
  "dumper_get_str parts = join_with ''; '' parts"

text \<open>\<open>describe_DWARF_expr\<close> clears the dumper that it keeps for the structs before it uses it.\<close>

definition describe_DWARF_expr :: "nat \<Rightarrow> string \<Rightarrow> dwarf_structs \<Rightarrow> int list \<Rightarrow> (pystream \<times> string list, string) st" where
  "describe_DWARF_expr fuel arch S expr = sbind (\<lambda>(t, parts). (Inr (), (t, []))) (\<lambda>_.
     sbind (process_expr fuel S (dumper_after_visit arch) expr) (\<lambda>_ (t, parts). (Inr (''('' @ dumper_get_str parts @ '')''), (t, parts))))"

subsection \<open>What is written is visited\<close>

text \<open>The operands as they are encoded.\<close>

fun arg_format :: "dwarf_structs \<Rightarrow> arg_kind \<Rightarrow> int_format" where
  "arg_format S Arg_addr = target_format S"
| "arg_format S Arg_uint8 = Fmt_B"
| "arg_format S Arg_int8 = Fmt_b"
| "arg_format S Arg_uint16 = Fmt_H"
| "arg_format S Arg_int16 = Fmt_h"
| "arg_format S Arg_uint32 = Fmt_L"
| "arg_format S Arg_int32 = Fmt_l"
| "arg_format S _ = offset_format S"

definition arg_dec :: "dwarf_structs \<Rightarrow> arg_kind \<Rightarrow> decoding" where
  "arg_dec S a = (if a = Arg_uleb128 then uleb_dec else if a = Arg_sleb128 then sleb_dec else num_dec S (arg_format S a))"

inductive args_enc :: "dwarf_structs \<Rightarrow> arg_kind list \<Rightarrow> string \<Rightarrow> pyval list \<Rightarrow> bool" for S where
  args_none: "args_enc S [] [] []"
| args_more: "arg_dec S a [] b x \<Longrightarrow> args_enc S as c xs \<Longrightarrow> args_enc S (a # as) (b @ c) (x # xs)"

inductive expr_enc :: "dwarf_structs \<Rightarrow> (int \<times> pyval list) list \<Rightarrow> string \<Rightarrow> bool" for S where
  expr_end: "expr_enc S [] []"
| expr_op: "args_enc S (op_args (ord_c c)) a xs \<Longrightarrow> expr_enc S ops b \<Longrightarrow> expr_enc S ((ord_c c, xs) # ops) (c # a @ b)"

text \<open>The calls of \<open>_after_visit\<close>, one after the other, up to the first that raises.\<close>

fun visit_all :: "'v visit \<Rightarrow> (int \<times> pyval list) list \<Rightarrow> 'v \<Rightarrow> (pyexc + unit) \<times> 'v" where
  "visit_all after [] v = (Inr (), v)"
| "visit_all after ((opcode, args) # ops) v = (case after opcode (op_name opcode) args v of
     (Inl e, v') \<Rightarrow> (Inl e, v') | (Inr _, v') \<Rightarrow> visit_all after ops v')"

lemma arg_struct_format: "arg_struct S a = (if a = Arg_uleb128 then ULEB128 (Some '''') else if a = Arg_sleb128 then SLEB128 (Some '''')
    else FormatField (Some '''') (dwarf_endian S) (arg_format S a))"
  by (cases a) (simp_all add: dwarf_formats dwarf_leb)

lemma decoder_arg: "decoder (arg_struct S a) (arg_dec S a)"
  by (simp add: arg_struct_format arg_dec_def decoder_uleb decoder_sleb decoder_int)

lemma yields_visit_args:
  "args_enc S as b xs \<Longrightarrow> length (b @ r) < fuel \<Longrightarrow>
    visit_args fuel S as (BytesIO (x @ b @ r) (length x), v) = (Inr xs, (BytesIO (x @ b @ r) (length x + length b), v))"
proof (induction arbitrary: x rule: args_enc.induct)
  case (args_more a b y as c ys)
  have "struct_parse fuel (arg_struct S a) None (BytesIO (x @ b @ c @ r) (length x)) = (Inr y, BytesIO (x @ b @ c @ r) (length x + length b))"
    using yieldsD [OF yields_parse [OF decoder_arg args_more.hyps(1)], of "c @ r" fuel x] args_more.prems by simp
  then show ?case using args_more.IH [of "x @ b"] args_more.prems by (simp add: sbind_apply expr_parse_def add.assoc)
qed simp

lemma stream_read_one: "stream_read 1 (BytesIO d p) = (Inr (take 1 (drop p d)), BytesIO d (p + min 1 (length d - p)))"
  by simp

lemma expr_loop_visits:
  "expr_enc S ops b \<Longrightarrow> length b < k \<Longrightarrow> length b < fuel \<Longrightarrow>
    \<exists>t. expr_loop k fuel S after (BytesIO (x @ b) (length x), v) = (fst (visit_all after ops v), (t, snd (visit_all after ops v)))"
proof (induction arbitrary: x v k rule: expr_enc.induct)
  case expr_end
  then obtain j where "k = Suc j" by (cases k) auto
  then show ?case by (simp add: expr_read_def sbind_apply)
next
  case (expr_op c a xs ops b)
  obtain j where k: "k = Suc j" "length b < j" using expr_op.prems(1) by (cases k) auto
  have r: "expr_read (BytesIO (x @ c # a @ b) (length x), v) = (Inr [c], (BytesIO ((x @ [c]) @ a @ b) (length (x @ [c])), v))"
    by (simp add: expr_read_def)
  have args: "visit_args fuel S (op_args (ord_c c)) (BytesIO ((x @ [c]) @ a @ b) (length (x @ [c])), v) =
      (Inr xs, (BytesIO ((x @ c # a) @ b) (length (x @ c # a)), v))"
    using yields_visit_args [OF expr_op.hyps(1), of b fuel "x @ [c]" v] expr_op.prems(2) by simp
  show ?case
  proof (cases "after (ord_c c) (op_name (ord_c c)) xs v")
    case (Pair q v')
    then show ?thesis using expr_op.IH [OF k(2), of "x @ c # a" v'] expr_op.prems(2) r args
      by (cases q) (auto simp: k(1) sbind_apply Let_def simp del: stream_read.simps)
  qed
qed

text \<open>C29: The bytes of a list of operations, each opcode followed by the operands that its table entry asks for, are visited in order, each operation once and with its name and operands, up to the first visit that raises.\<close>

theorem expr_visits:
  assumes "expr_enc S ops b" "length b < fuel"
  shows "\<exists>t. process_expr fuel S after (map ord_c b) (t0, v) = (fst (visit_all after ops v), (t, snd (visit_all after ops v)))"
proof -
  have "bytelist2string (map ord_c b) = Inr b" by (induction b) (simp_all add: bytelist2string_def)
  then show ?thesis using expr_loop_visits [OF assms(1,2,2), of after "[]" v] by (simp add: process_expr_def sbind_apply)
qed

subsection \<open>Visiting ends\<close>

lemma forward_arg: "forward 0 (con_parse (arg_struct S a))"
  by (auto simp: arg_struct_format intro: forward_small forward_num)

lemma visit_args_ends:
  assumes "length d < fuel"
  shows "visit_args fuel S as (BytesIO d p, v) = (r, s) \<Longrightarrow> r \<noteq> Inl NoFuel \<and> (\<exists>p'. s = (BytesIO d p', v) \<and> p \<le> p')"
proof (induction as arbitrary: p r s)
  case (Cons a as)
  obtain q u where run: "struct_parse fuel (arg_struct S a) None (BytesIO d p) = (q, u)" by fastforce
  obtain p1 where 1: "q \<noteq> Inl NoFuel" "u = BytesIO d p1" "p \<le> p1"
    using readsD [OF reads_parse [OF forward_arg] assms run] by blast
  show ?case
  proof (cases q)
    case (Inl e)
    then show ?thesis using Cons.prems run 1 by (auto simp: sbind_apply expr_parse_def)
  next
    case (Inr y)
    obtain q2 s2 where 2: "visit_args fuel S as (BytesIO d p1, v) = (q2, s2)" by (rule prod.exhaust)
    from Cons.IH [OF this] show ?thesis using Cons.prems run 1 2 Inr by (cases q2) (auto simp: sbind_apply expr_parse_def)
  qed
qed simp

lemma expr_loop_ends:
  assumes "length d < fuel" "\<And>opcode name args v. fst (after opcode name args v) \<noteq> Inl NoFuel"
  shows "length d - p < k \<Longrightarrow> fst (expr_loop k fuel S after (BytesIO d p, v)) \<noteq> Inl NoFuel"
proof (induction k arbitrary: p v)
  case (Suc k)
  show ?case
  proof (cases "drop p d")
    case Nil
    then show ?thesis by (simp add: sbind_apply expr_read_def)
  next
    case (Cons c r)
    then have p: "p < length d" by (metis drop_all list.distinct(1) not_le)
    obtain q s where run: "visit_args fuel S (op_args (ord_c c)) (BytesIO d (Suc p), v) = (q, s)" by (rule prod.exhaust)
    obtain p' where 1: "q \<noteq> Inl NoFuel" "s = (BytesIO d p', v)" "Suc p \<le> p'" using visit_args_ends [OF assms(1) run] by blast
    have read: "expr_read (BytesIO d p, v) = (Inr [c], (BytesIO d (Suc p), v))" using Cons p by (simp add: expr_read_def)
    show ?thesis
    proof (cases q)
      case (Inl e)
      then show ?thesis using run read 1 by (simp add: sbind_apply Let_def)
    next
      case (Inr xs)
      obtain q2 v2 where 2: "after (ord_c c) (op_name (ord_c c)) xs v = (q2, v2)" by fastforce
      have "length d - p' < k" using 1(3) p Suc.prems by linarith
      from Suc.IH [OF this, of v2] show ?thesis
        using run read 1 2 Inr assms(2) [of "ord_c c" "op_name (ord_c c)" xs v] by (cases q2) (simp_all add: sbind_apply Let_def)
    qed
  qed
qed simp

lemma process_expr_ends:
  assumes "length expr < fuel" "\<And>opcode name args v. fst (after opcode name args v) \<noteq> Inl NoFuel"
  shows "fst (process_expr fuel S after expr s) \<noteq> Inl NoFuel"
proof (cases "bytelist2string expr")
  case (Inl e)
  have "emap_list (\<lambda>b. if 0 \<le> b \<and> b < 256 then Inr (chr_c b) else Inl ValueError) bs \<noteq> Inl NoFuel" for bs
    by (induction bs) (auto simp: ebind_Inl_iff)
  then show ?thesis using Inl by (cases s) (auto simp: process_expr_def sbind_apply bytelist2string_def)
next
  case (Inr b)
  then have "length b = length expr" by (auto simp: bytelist2string_def dest: emap_list_length)
  then show ?thesis using expr_loop_ends [OF _ assms(2), of b fuel 0 fuel S] assms(1) Inr by (cases s) (simp add: process_expr_def sbind_apply)
qed

lemma dump_errors: "fst (dumper_after_visit arch opcode name args parts) \<noteq> Inl NoFuel"
proof -
  have r: "describe_reg_name arch n \<noteq> Inl NoFuel" for n by (simp add: describe_reg_name_def py_index_def Let_def)
  have i: "int_of_text s \<noteq> Inl NoFuel" for s by (simp add: int_of_text_def)
  have p: "py_index args 1 \<noteq> Inl NoFuel" by (simp add: py_index_def Let_def)
  have "dump_to_string arch name args \<noteq> Inl NoFuel"
    unfolding dump_to_string_def by (simp add: ebind_Inl_iff r i p)
  then show ?thesis by (cases "dump_to_string arch name args") (auto simp: dumper_after_visit_def)
qed

theorem expr_description_ends:
  assumes "length expr < fuel"
  shows "fst (describe_DWARF_expr fuel arch S expr s) \<noteq> Inl NoFuel"
proof -
  obtain t parts where s: "s = (t, parts)" by (cases s)
  have e: "fst (process_expr fuel S (dumper_after_visit arch) expr (t, [])) \<noteq> Inl NoFuel"
    by (rule process_expr_ends [OF assms dump_errors])
  then show ?thesis
    by (cases "process_expr fuel S (dumper_after_visit arch) expr (t, [])")
      (auto simp: describe_DWARF_expr_def s sbind_apply split: sum.split)
qed

theorem expr_description_ends_witness: "fst (describe_DWARF_expr 9 ''x86'' example_structs [0x91, 0x7c, 0x50] (BytesIO [] 0, [])) \<noteq> Inl NoFuel"
  using expr_description_ends [of "[0x91, 0x7c, 0x50]" 9 "''x86''" example_structs "(BytesIO [] 0, [])"] by simp

subsection \<open>An example\<close>

text \<open>The generated names do not touch the others.\<close>

definition numbered :: "string \<Rightarrow> string \<Rightarrow> bool" where
  "numbered pre name = (starts pre name \<and> list_all decimal (drop (length pre) name))"

lemma numbered_name: "numbered pre (pre @ dec_text (int n))"
  by (simp add: numbered_def starts_append dec_text_def decimal_digits)

lemma generate_other: "\<not> numbered pre name \<Longrightarrow> map_of (generate_dynamic_values m pre i j v) name = map_of m name"
proof -
  assume n: "\<not> numbered pre name"
  have "map_of (foldl (\<lambda>m index. dict_set (pre @ dec_text (int index)) (v + int index - int i) m) m is) name = map_of m name" for "is"
    using n numbered_name by (induction "is" arbitrary: m) auto
  then show ?thesis by (simp add: generate_dynamic_values_def)
qed

lemma generate_append: "list_all (\<lambda>k. \<not> numbered pre k) (map fst m) \<Longrightarrow> \<exists>y. generate_dynamic_values (m @ x) pre i j v = m @ y"
proof -
  assume m: "list_all (\<lambda>k. \<not> numbered pre k) (map fst m)"
  have d: "k \<notin> fst ` set m \<Longrightarrow> dict_set k w (m @ x) = m @ dict_set k w x" for k w x by (induction m) auto
  have k: "pre @ dec_text (int n) \<notin> fst ` set m" for n using m numbered_name [of pre n] by (force simp: list_all_iff)
  have "\<exists>y. foldl (\<lambda>m index. dict_set (pre @ dec_text (int index)) (v + int index - int i) m) (m @ x) is = m @ y" for "is"
    by (induction "is" arbitrary: x) (auto simp: d [OF k])
  then show ?thesis by (simp add: generate_dynamic_values_def)
qed

lemma dispatch_lookup: "op_args opcode = (case map_of (rev (map (\<lambda>(name, args). (the (map_of DW_OP_name2opcode name), args))
    (arg_ops @ map (\<lambda>name. (name, [])) no_arg_ops @ numbered_ops @ last_ops))) opcode of Some args \<Rightarrow> args | None \<Rightarrow> [])"
proof -
  have "map_of (foldl (\<lambda>table (name, args). add_visitor name args table) [] ops) =
      map_of (rev (map (\<lambda>(name, args). (the (map_of DW_OP_name2opcode name), args)) ops))" for ops
    by (induction ops rule: rev_induct) (auto simp: add_visitor_def)
  then show ?thesis by (simp only: op_args_def dispatch_table_def)
qed

lemma fixed_names: "\<exists>y. DW_OP_name2opcode = DW_OP_fixed @ y"
proof -
  have n: "list_all (\<lambda>k. \<not> numbered ''DW_OP_lit'' k) (map fst DW_OP_fixed)" "list_all (\<lambda>k. \<not> numbered ''DW_OP_reg'' k) (map fst DW_OP_fixed)"
    "list_all (\<lambda>k. \<not> numbered ''DW_OP_breg'' k) (map fst DW_OP_fixed)"
    by (simp_all add: DW_OP_fixed_def numbered_def decimal_def ord_c_def)
  obtain y where y: "generate_dynamic_values DW_OP_fixed ''DW_OP_lit'' 0 31 0x30 = DW_OP_fixed @ y"
    using generate_append [where x = "[]" and i = 0 and j = 31 and v = "0x30", OF n(1)] unfolding append_Nil2 by blast
  obtain z where z: "generate_dynamic_values (DW_OP_fixed @ y) ''DW_OP_reg'' 0 31 0x50 = DW_OP_fixed @ z"
    using generate_append [where x = y and i = 0 and j = 31 and v = "0x50", OF n(2)] by blast
  show ?thesis unfolding DW_OP_name2opcode_def y z by (rule generate_append [OF n(3)])
qed

lemma call_ref: "op_args 0x9a = [Arg_offset]" "op_name 0x9a = ''DW_OP_call_ref''"
proof -
  have "map_of DW_OP_name2opcode ''DW_OP_call_ref'' = map_of DW_OP_fixed ''DW_OP_call_ref''"
    by (simp add: DW_OP_name2opcode_def generate_other numbered_def)
  also have "\<dots> = Some 0x9a" by (simp add: DW_OP_fixed_def)
  finally show "op_args 0x9a = [Arg_offset]" unfolding dispatch_lookup by (simp add: last_ops_def)
  obtain y where y: "DW_OP_name2opcode = DW_OP_fixed @ y" using fixed_names by blast
  have "map_of (map (\<lambda>(k, v). (v, k)) DW_OP_fixed) 0x9a = Some ''DW_OP_call_ref''" by (simp add: DW_OP_fixed_def)
  then show "op_name 0x9a = ''DW_OP_call_ref''" unfolding op_name_def DW_OP_opcode2name_def y by (simp add: map_add_Some_iff [THEN iffD2])
qed

theorem expr_visits_witness:
  "\<exists>t. process_expr 9 example_structs (dumper_after_visit ''x86'') (map ord_c [CHR 0x9A, CHR 0x0B, CHR 0x00, CHR 0x00, CHR 0x00]) (BytesIO [] 0, []) =
    (Inr (), (t, [''DW_OP_call_ref: b'']))"
proof -
  have c: "ord_c (CHR 0x9A) = 0x9a" by code_simp
  have n: "arg_dec example_structs Arg_offset [] [CHR 0x0B, CHR 0x00, CHR 0x00, CHR 0x00] (PInt 11)"
    by code_simp
  have "args_enc example_structs [Arg_offset] ([CHR 0x0B, CHR 0x00, CHR 0x00, CHR 0x00] @ []) [PInt 11]"
    by (rule args_more [OF n args_none])
  then have e: "expr_enc example_structs [(0x9a, [PInt 11])] [CHR 0x9A, CHR 0x0B, CHR 0x00, CHR 0x00, CHR 0x00]"
    using expr_op [of example_structs "CHR 0x9A" "[CHR 0x0B, CHR 0x00, CHR 0x00, CHR 0x00]" "[PInt 11]" "[]" "[]", OF _ expr_end] by (simp add: c call_ref)
  have "hex_text 11 = ''b''" by code_simp
  then have "dump_to_string ''x86'' ''DW_OP_call_ref'' [PInt 11] = Inr ''DW_OP_call_ref: b''"
    by (simp add: dump_to_string_def ops_with_decimal_arg_def ops_with_hex_arg_def as_int_def image_def)
  then have v: "visit_all (dumper_after_visit ''x86'') [(0x9a, [PInt 11])] [] = (Inr (), [''DW_OP_call_ref: b''])"
    by (simp add: call_ref dumper_after_visit_def)
  show ?thesis using expr_visits [OF e, of 9 "dumper_after_visit ''x86''" "BytesIO [] 0" "[]"] unfolding v by simp
qed

end
