(* ===== verification/DwarfDescr.thy ===== *)
theory DwarfDescr
  imports DwarfExpr DwarfTree
begin

section \<open>Descriptions of call frame instructions and attribute values (\<open>dwarf/descriptions.py\<close>)\<close>

text \<open>
  The texts that a tool like \<open>readelf\<close> prints. The machine architecture, a global variable of the module, is
  an argument. A dumper for expressions that is kept for the structs of a unit is cleared before each use, so
  a description starts with an empty one.
\<close>

subsection \<open>Formats\<close>

text \<open>\<open>str\<close> of the values that attributes have.\<close>

fun py_str :: "pyval \<Rightarrow> pyexc + string" where
  "py_str (PInt n) = Inr (dec_text n)"
| "py_str (PStr s) = Inr s"
| "py_str (PBool b) = Inr (if b then ''True'' else ''False'')"
| "py_str PNone = Inr ''None''"
| "py_str (PList xs) = ebind (emap_list as_int xs) (\<lambda>ns. Inr (''['' @ join_with '', '' (map dec_text ns) @ '']''))"
| "py_str _ = Inl NotImplementedError"

fun byte_list :: "pyval \<Rightarrow> pyexc + int list" where
  "byte_list (PList xs) = emap_list as_int xs"
| "byte_list (PStr []) = Inr []"
| "byte_list _ = Inl TypeError"

definition describe_expr :: "nat \<Rightarrow> string \<Rightarrow> dwarf_structs \<Rightarrow> pyval \<Rightarrow> pyexc + string" where
  "describe_expr fuel arch S v = ebind (byte_list v) (\<lambda>expr. fst (describe_DWARF_expr fuel arch S expr (BytesIO [] 0, [])))"

text \<open>A new \<open>ExprDumper\<close> that processes one expression, and its text.\<close>

definition dump_expr :: "nat \<Rightarrow> string \<Rightarrow> dwarf_structs \<Rightarrow> pyval \<Rightarrow> pyexc + string" where
  "dump_expr fuel arch S v = ebind (byte_list v) (\<lambda>expr.
     case process_expr fuel S (dumper_after_visit arch) expr (BytesIO [] 0, []) of
       (Inl e, _) \<Rightarrow> Inl e | (Inr _, (_, parts)) \<Rightarrow> Inr (dumper_get_str parts))"

subsection \<open>Call frame instructions\<close>

definition full_reg_name :: "string \<Rightarrow> int \<Rightarrow> pyexc + string" where
  "full_reg_name arch regnum = ebind (describe_reg_name arch regnum) (\<lambda>r. Inr (''r'' @ dec_text regnum @ '' ('' @ r @ '')''))"

definition cfi_reg :: "string \<Rightarrow> cf_instruction \<Rightarrow> nat \<Rightarrow> pyexc + string" where
  "cfi_reg arch instr i = ebind (at_int instr i) (full_reg_name arch)"

text \<open>The line of a location instruction, given the address behind it.\<close>

definition loc_text :: "string \<Rightarrow> int option \<Rightarrow> int \<Rightarrow> string" where
  "loc_text name off pc = (case off of None \<Rightarrow> ''  '' @ name @ '': '' @ hex_pad 8 pc @ [nl_c]
     | Some k \<Rightarrow> ''  '' @ name @ '': '' @ dec_text k @ '' to '' @ hex_pad 8 pc @ [nl_c])"

text \<open>The text of one instruction, and the variable \<open>pc\<close> behind it (unbound for a CIE).\<close>

definition cfi_text :: "nat \<Rightarrow> string \<Rightarrow> bool \<Rightarrow> dwarf_structs \<Rightarrow> container \<Rightarrow> cf_instruction \<Rightarrow> int option \<Rightarrow> pyexc + string \<times> int option" where
  "cfi_text fuel arch is_FDE S cie instr pc = ebind (instruction_name (ci_opcode instr)) (\<lambda>name.
     let line = (\<lambda>s. Inr (''  '' @ name @ s @ [nl_c], pc)) in
     if name \<in> {''DW_CFA_offset'', ''DW_CFA_offset_extended'', ''DW_CFA_offset_extended_sf'', ''DW_CFA_val_offset'', ''DW_CFA_val_offset_sf''} then
       ebind (cfi_reg arch instr 0) (\<lambda>r. ebind (at_int instr 1) (\<lambda>n. ebind (header_int cie ''data_alignment_factor'') (\<lambda>f.
         line ('': '' @ r @ '' at cfa'' @ signed_text (n * f)))))
     else if name \<in> {''DW_CFA_restore'', ''DW_CFA_restore_extended'', ''DW_CFA_undefined'', ''DW_CFA_same_value'', ''DW_CFA_def_cfa_register''} then
       ebind (cfi_reg arch instr 0) (\<lambda>r. line ('': '' @ r))
     else if name = ''DW_CFA_register'' then
       ebind (cfi_reg arch instr 0) (\<lambda>r. ebind (cfi_reg arch instr 1) (\<lambda>r'. Inr (''  '' @ name @ '': '' @ r @ '' in '' @ r', pc)))
     else if name = ''DW_CFA_set_loc'' then ebind (at_int instr 0) (\<lambda>v. Inr (loc_text name None v, Some v))
     else if name \<in> {''DW_CFA_advance_loc1'', ''DW_CFA_advance_loc2'', ''DW_CFA_advance_loc4'', ''DW_CFA_advance_loc''} then
       ebind (dwarf_assert is_FDE) (\<lambda>_. ebind (at_int instr 0) (\<lambda>n. ebind (header_int cie ''code_alignment_factor'') (\<lambda>f.
         case pc of None \<Rightarrow> Inl UnboundLocalError | Some a \<Rightarrow> Inr (loc_text name (Some (n * f)) (n * f + a), Some (a + n * f)))))
     else if name \<in> {''DW_CFA_remember_state'', ''DW_CFA_restore_state'', ''DW_CFA_nop''} then line []
     else if name = ''DW_CFA_def_cfa'' then
       ebind (cfi_reg arch instr 0) (\<lambda>r. ebind (at_int instr 1) (\<lambda>n. line ('': '' @ r @ '' ofs '' @ dec_text n)))
     else if name = ''DW_CFA_def_cfa_sf'' then
       ebind (cfi_reg arch instr 0) (\<lambda>r. ebind (at_int instr 1) (\<lambda>n. ebind (header_int cie ''data_alignment_factor'') (\<lambda>f.
         line ('': '' @ r @ '' ofs '' @ dec_text (n * f)))))
     else if name = ''DW_CFA_def_cfa_offset'' then ebind (at_int instr 0) (\<lambda>n. line ('': '' @ dec_text n))
     else if name = ''DW_CFA_def_cfa_expression'' then
       ebind (py_index (ci_args instr) 0) (\<lambda>e. ebind (dump_expr fuel arch S e) (\<lambda>s. line ('': ('' @ s @ '')'')))
     else if name = ''DW_CFA_expression'' then
       ebind (py_index (ci_args instr) 1) (\<lambda>e. ebind (dump_expr fuel arch S e) (\<lambda>s. ebind (cfi_reg arch instr 0) (\<lambda>r.
         line ('': '' @ r @ '' ('' @ s @ '')''))))
     else line '': <??>'')"

fun cfi_texts :: "nat \<Rightarrow> string \<Rightarrow> bool \<Rightarrow> dwarf_structs \<Rightarrow> container \<Rightarrow> cf_instruction list \<Rightarrow> int option \<Rightarrow> pyexc + string list" where
  "cfi_texts fuel arch is_FDE S cie [] pc = Inr []"
| "cfi_texts fuel arch is_FDE S cie (instr # instrs) pc = ebind (cfi_text fuel arch is_FDE S cie instr pc) (\<lambda>(s, pc').
     ebind (cfi_texts fuel arch is_FDE S cie instrs pc') (\<lambda>ss. Inr (s # ss)))"

fun describe_CFI_instructions :: "nat \<Rightarrow> string \<Rightarrow> cfi_entry \<Rightarrow> pyexc + string" where
  "describe_CFI_instructions fuel arch (CIE header S instrs off) = ebind (cfi_texts fuel arch False S header instrs None) (\<lambda>ss. Inr (concat ss))"
| "describe_CFI_instructions fuel arch (FDE header S instrs off cie) = ebind (header_int header ''initial_location'') (\<lambda>pc.
     ebind (cfi_texts fuel arch True S (ce_header cie) instrs (Some pc)) (\<lambda>ss. Inr (concat ss)))"

fun DESCR_CFI_REGISTER_RULE_TYPE :: "rule_type \<Rightarrow> string" where
  "DESCR_CFI_REGISTER_RULE_TYPE UNDEFINED = ''u''"
| "DESCR_CFI_REGISTER_RULE_TYPE SAME_VALUE = ''s''"
| "DESCR_CFI_REGISTER_RULE_TYPE OFFSET = ''c''"
| "DESCR_CFI_REGISTER_RULE_TYPE VAL_OFFSET = ''v''"
| "DESCR_CFI_REGISTER_RULE_TYPE REGISTER = []"
| "DESCR_CFI_REGISTER_RULE_TYPE EXPRESSION = ''exp''"
| "DESCR_CFI_REGISTER_RULE_TYPE VAL_EXPRESSION = ''vexp''"
| "DESCR_CFI_REGISTER_RULE_TYPE ARCHITECTURAL = ''a''"

definition opt_int :: "pyval option \<Rightarrow> pyexc + int" where
  "opt_int v = (case v of None \<Rightarrow> Inl TypeError | Some x \<Rightarrow> as_int x)"

definition describe_CFI_register_rule :: "string \<Rightarrow> register_rule \<Rightarrow> pyexc + string" where
  "describe_CFI_register_rule arch rule = (let s = DESCR_CFI_REGISTER_RULE_TYPE (rr_type rule) in
     if rr_type rule \<in> {OFFSET, VAL_OFFSET} then ebind (opt_int (rr_arg rule)) (\<lambda>n. Inr (s @ signed_text n))
     else if rr_type rule = REGISTER then ebind (opt_int (rr_arg rule)) (\<lambda>r. ebind (describe_reg_name arch r) (\<lambda>t. Inr (s @ t)))
     else Inr s)"

definition describe_CFI_CFA_rule :: "string \<Rightarrow> cfa_rule \<Rightarrow> pyexc + string" where
  "describe_CFI_CFA_rule arch rule = (if (case cfa_expr rule of None \<Rightarrow> False | Some e \<Rightarrow> py_truth e) then Inr ''exp''
     else ebind (opt_int (cfa_reg rule)) (\<lambda>r. ebind (describe_reg_name arch r) (\<lambda>t. ebind (opt_int (cfa_offset rule)) (\<lambda>n.
       Inr (t @ signed_text n)))))"

subsection \<open>Attribute values\<close>

datatype attr_descr = Descr_ref | Descr_split_64bit | Descr_hex_addr | Descr_hex | Descr_debool | Descr_passthrough | Descr_string | Descr_strp | Descr_block

definition ATTR_DESCRIPTION_MAP :: "(string \<times> attr_descr) list" where
  "ATTR_DESCRIPTION_MAP =
     [(''DW_FORM_ref1'', Descr_ref), (''DW_FORM_ref2'', Descr_ref), (''DW_FORM_ref4'', Descr_ref), (''DW_FORM_ref8'', Descr_split_64bit),
      (''DW_FORM_ref_udata'', Descr_ref), (''DW_FORM_ref_addr'', Descr_hex_addr), (''DW_FORM_data4'', Descr_hex),
      (''DW_FORM_data8'', Descr_split_64bit), (''DW_FORM_addr'', Descr_hex), (''DW_FORM_sec_offset'', Descr_hex), (''DW_FORM_flag'', Descr_debool),
      (''DW_FORM_data1'', Descr_passthrough), (''DW_FORM_data2'', Descr_passthrough), (''DW_FORM_sdata'', Descr_passthrough),
      (''DW_FORM_udata'', Descr_passthrough), (''DW_FORM_string'', Descr_string), (''DW_FORM_strp'', Descr_strp), (''DW_FORM_block1'', Descr_block),
      (''DW_FORM_block2'', Descr_block), (''DW_FORM_block4'', Descr_block), (''DW_FORM_block'', Descr_block)]"

definition hex_words :: "int \<Rightarrow> string" where
  "hex_words n = ''0x'' @ hex_text (n AND 0xFFFFFFFF) @ '' 0x'' @ hex_text (drop_bit 32 n AND 0xFFFFFFFF)"

fun describe_attr :: "attr_descr \<Rightarrow> attribute_value \<Rightarrow> int \<Rightarrow> pyexc + string" where
  "describe_attr Descr_ref attr cu_off = ebind (as_int (av_value attr)) (\<lambda>n. Inr (''<0x'' @ hex_text (n + cu_off) @ ''>''))"
| "describe_attr Descr_split_64bit attr cu_off = ebind (as_int (av_value attr)) (\<lambda>n. Inr (hex_words n))"
| "describe_attr Descr_hex_addr attr cu_off = ebind (as_int (av_value attr)) (\<lambda>n. Inr (''<0x'' @ hex_text n @ ''>''))"
| "describe_attr Descr_hex attr cu_off = ebind (as_int (av_value attr)) (\<lambda>n. Inr (''0x'' @ hex_text n))"
| "describe_attr Descr_debool attr cu_off = Inr (if py_truth (av_value attr) then ''1'' else ''0'')"
| "describe_attr Descr_passthrough attr cu_off = py_str (av_value attr)"
| "describe_attr Descr_string attr cu_off = as_str (av_value attr)"
| "describe_attr Descr_strp attr cu_off = ebind (as_int (av_raw_value attr)) (\<lambda>n. ebind (as_str (av_value attr)) (\<lambda>s.
     Inr (''(indirect string, offset: 0x'' @ hex_text n @ ''): '' @ s)))"
| "describe_attr Descr_block attr cu_off = ebind (py_len (av_value attr)) (\<lambda>n. ebind (byte_list (av_value attr)) (\<lambda>bs.
     Inr (dec_text n @ '' byte block: '' @ join_with '' '' (map hex_text bs))))"

subsection \<open>Extra information\<close>

definition DESCR_DW_INL :: "(int \<times> string) list" where
  "DESCR_DW_INL = [(0, ''(not inlined)''), (1, ''(inlined)''), (2, ''(declared as inline but ignored)''), (3, ''(declared as inline and inlined)'')]"

definition DESCR_DW_LANG :: "(int \<times> string) list" where
  "DESCR_DW_LANG = [(1, ''(ANSI C)''), (2, ''(non-ANSI C)''), (3, ''(Ada)''), (4, ''(C++)''), (5, ''(Cobol 74)''), (6, ''(Cobol 85)''), (7, ''(FORTRAN 77)''),
     (8, ''(Fortran 90)''), (9, ''(ANSI Pascal)''), (0xa, ''(Modula 2)''), (0xb, ''(Java)''), (0xc, ''(ANSI C99)''), (0xd, ''(ADA 95)''),
     (0xe, ''(Fortran 95)''), (0xf, ''(PLI)''), (0x10, ''(Objective C)''), (0x11, ''(Objective C++)''), (0x12, ''(Unified Parallel C)''), (0x13, ''(D)''),
     (0x14, ''(Python)''), (0x8001, ''(MIPS assembler)''), (0x8765, ''(nified Parallel C)''), (0x8003, ''(HP Bliss)''), (0x8004, ''(HP Basic 91)''),
     (0x8005, ''(HP Pascal 91)''), (0x8006, ''(HP IMacro)''), (0x8007, ''(HP assembler)'')]"

definition DESCR_DW_ATE :: "(int \<times> string) list" where
  "DESCR_DW_ATE = [(0, ''(void)''), (1, ''(machine address)''), (2, ''(boolean)''), (3, ''(complex float)''), (4, ''(float)''), (5, ''(signed)''),
     (6, ''(signed char)''), (7, ''(unsigned)''), (8, ''(unsigned char)''), (9, ''(imaginary float)''), (0xf, ''(decimal float)''),
     (0xa, ''(packed_decimal)''), (0xb, ''(numeric_string)''), (0xc, ''(edited)''), (0xd, ''(signed_fixed)''), (0xe, ''(unsigned_fixed)''),
     (0x80, ''(HP_float80)''), (0x81, ''(HP_complex_float80)''), (0x82, ''(HP_float128)''), (0x83, ''(HP_complex_float128)''),
     (0x84, ''(HP_floathpintel)''), (0x85, ''(HP_imaginary_float80)''), (0x86, ''(HP_imaginary_float128)'')]"

definition DESCR_DW_ACCESS :: "(int \<times> string) list" where
  "DESCR_DW_ACCESS = [(1, ''(public)''), (2, ''(protected)''), (3, ''(private)'')]"

definition DESCR_DW_VIS :: "(int \<times> string) list" where
  "DESCR_DW_VIS = [(1, ''(local)''), (2, ''(exported)''), (3, ''(qualified)'')]"

definition DESCR_DW_VIRTUALITY :: "(int \<times> string) list" where
  "DESCR_DW_VIRTUALITY = [(0, ''(none)''), (1, ''(virtual)''), (2, ''(pure virtual)'')]"

definition DESCR_DW_ID_CASE :: "(int \<times> string) list" where
  "DESCR_DW_ID_CASE = [(0, ''(case_sensitive)''), (1, ''(up_case)''), (2, ''(down_case)''), (3, ''(case_insensitive)'')]"

definition DESCR_DW_CC :: "(int \<times> string) list" where
  "DESCR_DW_CC = [(1, ''(normal)''), (2, ''(program)''), (3, ''(nocall)'')]"

definition DESCR_DW_ORD :: "(int \<times> string) list" where
  "DESCR_DW_ORD = [(0, ''(row major)''), (1, ''(column major)'')]"

text \<open>\<open>mapping.get(attr.value, d)\<close>: a list is no key.\<close>

definition make_extra_mapper :: "(int \<times> string) list \<Rightarrow> string \<Rightarrow> string \<Rightarrow> bool \<Rightarrow> pyval \<Rightarrow> pyexc + string" where
  "make_extra_mapper mapping d1 d2 interpolate v = ebind (if interpolate then ebind (as_int v) (\<lambda>n. Inr (d1 @ hex_text n @ d2)) else Inr d1) (\<lambda>d.
     if \<not> py_hashable v then Inl TypeError
     else Inr (case py_find (map (\<lambda>(k, s). (PInt k, s)) mapping) v of None \<Rightarrow> d | Some s \<Rightarrow> s))"

definition location_attrs :: "string list" where
  "location_attrs = [''DW_AT_frame_base'', ''DW_AT_location'', ''DW_AT_string_length'', ''DW_AT_return_addr'', ''DW_AT_data_member_location'',
     ''DW_AT_vtable_elem_location'', ''DW_AT_segment'', ''DW_AT_static_link'', ''DW_AT_use_location'', ''DW_AT_allocated'', ''DW_AT_associated'',
     ''DW_AT_data_location'', ''DW_AT_stride'']"

definition mapper_attrs :: "(string \<times> (pyval \<Rightarrow> pyexc + string)) list" where
  "mapper_attrs =
     [(''DW_AT_inline'', make_extra_mapper DESCR_DW_INL ''(Unknown inline attribute value: '' [] True),
      (''DW_AT_language'', make_extra_mapper DESCR_DW_LANG ''(Unknown: '' '')'' True),
      (''DW_AT_encoding'', make_extra_mapper DESCR_DW_ATE ''(unknown type)'' [] False),
      (''DW_AT_accessibility'', make_extra_mapper DESCR_DW_ACCESS ''(unknown accessibility)'' [] False),
      (''DW_AT_visibility'', make_extra_mapper DESCR_DW_VIS ''(unknown visibility)'' [] False),
      (''DW_AT_virtuality'', make_extra_mapper DESCR_DW_VIRTUALITY ''(unknown virtuality)'' [] False),
      (''DW_AT_identifier_case'', make_extra_mapper DESCR_DW_ID_CASE ''(unknown case)'' [] False),
      (''DW_AT_calling_convention'', make_extra_mapper DESCR_DW_CC ''(unknown convention)'' [] False),
      (''DW_AT_ordering'', make_extra_mapper DESCR_DW_ORD ''(undefined)'' [] False)]"

definition location_list_extra :: "nat \<Rightarrow> string \<Rightarrow> dwarf_structs \<Rightarrow> attribute_value \<Rightarrow> pyexc + string" where
  "location_list_extra fuel arch S attr = (if av_form attr \<in> {PStr ''DW_FORM_data4'', PStr ''DW_FORM_data8''} then Inr ''(location list)''
     else describe_expr fuel arch S (av_value attr))"

text \<open>
  \<open>_import_extra\<close> runs \<open>iter_CUs\<close> until it comes to the unit around the entry that is referred to, and reads
  the entry.
\<close>

fun import_loop :: "nat \<Rightarrow> nat \<Rightarrow> int \<Rightarrow> int \<Rightarrow> string dm" where
  "import_loop 0 fuel ref_off offset = sraise NoFuel"
| "import_loop (Suc k) fuel ref_off offset = (\<lambda>i.
     sbind (slift (section_size (di_info i))) (\<lambda>n.
       if offset < n then
         sbind (parse_CU_at_offset fuel offset) (\<lambda>cu.
         sbind (slift (ebind (cu_getitem cu ''unit_length'') as_int)) (\<lambda>len.
           if ref_off < len + offset \<and> offset \<le> ref_off then (\<lambda>i.
             case keep_info_pos (parse_DIE fuel ref_off) \<lparr>ur_info = i, ur_cu = cu\<rparr> of
               (Inl e, s) \<Rightarrow> (Inl e, ur_info s)
             | (Inr d, s) \<Rightarrow> (ebind (py_str (die_abbrev_code d)) (\<lambda>code. ebind (py_str (die_tag d)) (\<lambda>tag.
                 Inr (''[Abbrev Number: '' @ code @ '' ('' @ tag @ '')]''))), ur_info s))
           else import_loop k fuel ref_off (offset + len + initial_length_field_size (cu_structs cu))))
       else sret ''[unknown]'') i)"

definition import_extra :: "nat \<Rightarrow> attribute_value \<Rightarrow> int \<Rightarrow> string um" where
  "import_extra fuel attr section_offset = sbind (slift (as_int (av_value attr))) (\<lambda>v.
     sbind (the_cu (\<lambda>cu. Inr (if av_form attr = PStr ''DW_FORM_ref_addr'' then section_offset + v else v + cu_offset cu))) (\<lambda>ref_off.
       on_dwarfinfo (import_loop fuel fuel ref_off 0)))"

definition extra_info :: "nat \<Rightarrow> string \<Rightarrow> attribute_value \<Rightarrow> int \<Rightarrow> string um" where
  "extra_info fuel arch attr section_offset = (case av_name attr of
     PStr name \<Rightarrow>
       (case map_of mapper_attrs name of
          Some mapper \<Rightarrow> slift (mapper (av_value attr))
        | None \<Rightarrow> if name \<in> set location_attrs then sbind (the_cu (\<lambda>cu. Inr (cu_structs cu))) (\<lambda>S. slift (location_list_extra fuel arch S attr))
            else if name = ''DW_AT_import'' then import_extra fuel attr section_offset
            else sret [])
   | _ \<Rightarrow> sret [])"

definition attr_description :: "attribute_value \<Rightarrow> attr_descr" where
  "attr_description attr = (case av_form attr of PStr form \<Rightarrow> (case map_of ATTR_DESCRIPTION_MAP form of Some d \<Rightarrow> d | None \<Rightarrow> Descr_passthrough)
     | _ \<Rightarrow> Descr_passthrough)"

definition describe_attr_value :: "nat \<Rightarrow> string \<Rightarrow> attribute_value \<Rightarrow> int \<Rightarrow> string um" where
  "describe_attr_value fuel arch attr section_offset =
     sbind (the_cu (\<lambda>cu. describe_attr (attr_description attr) attr (cu_offset cu))) (\<lambda>val.
     sbind (extra_info fuel arch attr section_offset) (\<lambda>extra. sret (val @ [CHR 0x09] @ extra)))"

subsection \<open>Descriptions and decoded tables\<close>

definition is_location :: "cf_instruction \<Rightarrow> bool" where
  "is_location instr = (case instruction_name (ci_opcode instr) of Inl _ \<Rightarrow> False | Inr name \<Rightarrow> name \<in> location_names)"

text \<open>The line of a location instruction that leads to the address \<open>pc\<close>.\<close>

definition loc_line :: "container \<Rightarrow> cf_instruction \<Rightarrow> int \<Rightarrow> string" where
  "loc_line cie instr pc = (case instruction_name (ci_opcode instr) of Inl _ \<Rightarrow> [] | Inr name \<Rightarrow>
     loc_text name (if name = ''DW_CFA_set_loc'' then None
       else (case (at_int instr 0, header_int cie ''code_alignment_factor'') of (Inr n, Inr f) \<Rightarrow> Some (n * f) | _ \<Rightarrow> None)) pc)"

lemma if_drop: "(if c then A else B) = r \<Longrightarrow> (A = r \<Longrightarrow> P) \<Longrightarrow> (B = r \<Longrightarrow> P) \<Longrightarrow> P"
  by (cases c) simp_all

lemma line_effect_pc:
  assumes "name \<notin> location_names" "line_effect F cie name instr l = Inr l'"
  shows "cl_pc l' = cl_pc l"
proof -
  have n: "name \<noteq> ''DW_CFA_set_loc''" using assms(1) by (auto simp: location_names_def)
  show ?thesis using assms(2)
    unfolding line_effect_def Let_def if_not_P [OF n] if_not_P [OF assms(1)]
    apply (elim if_drop)
    apply (simp_all only: ebind_Inr_iff cfa_effect_def rule_effect_def)
    apply (elim exE conjE if_drop; hypsubst?; clarsimp)+
    apply simp
    done
qed

lemma cfi_text_set_loc:
  "instruction_name (ci_opcode instr) = Inr ''DW_CFA_set_loc'' \<Longrightarrow>
   cfi_text fuel arch F S cie instr pc = ebind (at_int instr 0) (\<lambda>v. Inr (loc_text ''DW_CFA_set_loc'' None v, Some v))"
  by (simp add: cfi_text_def Let_def)

lemma cfi_text_advance:
  assumes "instruction_name (ci_opcode instr) = Inr name" "name \<in> {''DW_CFA_advance_loc1'', ''DW_CFA_advance_loc2'', ''DW_CFA_advance_loc4'', ''DW_CFA_advance_loc''}"
  shows "cfi_text fuel arch F S cie instr pc =
    ebind (dwarf_assert F) (\<lambda>_. ebind (at_int instr 0) (\<lambda>n. ebind (header_int cie ''code_alignment_factor'') (\<lambda>f.
      case pc of None \<Rightarrow> Inl UnboundLocalError | Some a \<Rightarrow> Inr (loc_text name (Some (n * f)) (n * f + a), Some (a + n * f)))))"
proof -
  have n: "name \<notin> {''DW_CFA_offset'', ''DW_CFA_offset_extended'', ''DW_CFA_offset_extended_sf'', ''DW_CFA_val_offset'', ''DW_CFA_val_offset_sf''}"
    "name \<notin> {''DW_CFA_restore'', ''DW_CFA_restore_extended'', ''DW_CFA_undefined'', ''DW_CFA_same_value'', ''DW_CFA_def_cfa_register''}"
    "name \<noteq> ''DW_CFA_register''" "name \<noteq> ''DW_CFA_set_loc''" using assms(2) by auto
  show ?thesis unfolding cfi_text_def assms(1) ebind_simps Let_def if_not_P [OF n(1)] if_not_P [OF n(2)] if_not_P [OF n(3)] if_not_P [OF n(4)]
      if_P [OF assms(2)] ..
qed

lemma cfi_text_location:
  assumes "instruction_name (ci_opcode instr) = Inr name" "cfi_text fuel arch F S cie instr (Some (cl_pc l)) = Inr (s, pc')" "name \<in> location_names"
    "line_effect F' cie name instr l = Inr l'"
  shows "pc' = Some (cl_pc l') \<and> s = loc_line cie instr (cl_pc l')"
proof (cases "name = ''DW_CFA_set_loc''")
  case True
  then show ?thesis using assms(1,2,4) cfi_text_set_loc [of instr fuel arch F S cie] by (auto simp: line_effect_def loc_line_def ebind_Inr_iff)
next
  case False
  then have "name \<in> {''DW_CFA_advance_loc1'', ''DW_CFA_advance_loc2'', ''DW_CFA_advance_loc4'', ''DW_CFA_advance_loc''}" using assms(3) by (simp add: location_names_def)
  from cfi_text_advance [OF assms(1) this, of fuel arch F S cie] obtain n f where nf: "at_int instr 0 = Inr n" "header_int cie ''code_alignment_factor'' = Inr f"
    "s = loc_text name (Some (n * f)) (n * f + cl_pc l)" "pc' = Some (cl_pc l + n * f)"
    using assms(2) by (auto simp: ebind_Inr_iff)
  have "l' = l\<lparr>cl_pc := cl_pc l + n * f\<rparr>" using assms(3,4) False nf(1,2) by (simp add: line_effect_def)
  then show ?thesis using nf False assms(1) by (simp add: loc_line_def add.commute)
qed

lemma cfi_text_other:
  assumes "instruction_name (ci_opcode instr) = Inr name" "cfi_text fuel arch F S cie instr pc = Inr (s, pc')" "name \<notin> location_names"
  shows "pc' = pc"
proof -
  have "name \<noteq> ''DW_CFA_set_loc''" "name \<notin> {''DW_CFA_advance_loc1'', ''DW_CFA_advance_loc2'', ''DW_CFA_advance_loc4'', ''DW_CFA_advance_loc''}"
    using assms(3) by (auto simp: location_names_def)
  then have n: "name \<noteq> ''DW_CFA_set_loc''" "\<not> name \<in> {''DW_CFA_advance_loc1'', ''DW_CFA_advance_loc2'', ''DW_CFA_advance_loc4'', ''DW_CFA_advance_loc''}"
    by blast+
  show ?thesis using assms(2) unfolding cfi_text_def assms(1) ebind_simps Let_def if_not_P [OF n(1)] if_not_P [OF n(2)]
    by (elim if_drop; simp add: ebind_Inr_iff) auto
qed

lemma cfi_rows:
  assumes "cfi_texts fuel arch F S cie instrs (Some (cl_pc l)) = Inr ss" "frame_rows F' cie d l instrs = Inr rows"
  shows "rows \<noteq> [] \<and> cl_pc (hd rows) = cl_pc l \<and> length ss = length instrs \<and>
    map snd (filter (is_location \<circ> fst) (zip instrs ss)) = map2 (loc_line cie) (filter is_location instrs) (map cl_pc (tl rows))"
  using assms
proof (induction instrs arbitrary: d l ss rows)
  case (Cons instr instrs)
  from Cons.prems(1) obtain s pc' ss' where s: "cfi_text fuel arch F S cie instr (Some (cl_pc l)) = Inr (s, pc')"
    "cfi_texts fuel arch F S cie instrs pc' = Inr ss'" "ss = s # ss'" by (auto simp: ebind_Inr_iff)
  from Cons.prems(2) obtain name l' d' rows' where r: "instruction_name (ci_opcode instr) = Inr name" "line_effect F' cie name instr l = Inr l'"
    "frame_rows F' cie d' l' instrs = Inr rows'" "rows = (if name \<in> location_names then [l] else []) @ rows'" by (auto simp: ebind_Inr_iff)
  show ?case
  proof (cases "name \<in> location_names")
    case True
    have p: "pc' = Some (cl_pc l')" "s = loc_line cie instr (cl_pc l')" using cfi_text_location [OF r(1) s(1) True r(2)] by simp_all
    note IH = Cons.IH [OF s(2) [unfolded p(1)] r(3)]
    then obtain row rest where "rows' = row # rest" by (cases rows') auto
    then show ?thesis using IH True r(1,4) s(3) p(2) by (simp add: is_location_def)
  next
    case False
    have "pc' = Some (cl_pc l')" using cfi_text_other [OF r(1) s(1) False] line_effect_pc [OF False r(2)] by simp
    note IH = Cons.IH [OF s(2) [unfolded this] r(3)]
    then show ?thesis using False r(1,4) s(3) line_effect_pc [OF False r(2)] by (simp add: is_location_def)
  qed
qed auto

text \<open>C18: The description of an FDE has a text for each instruction, and the addresses that it prints for the location instructions are those of the rows of the decoded table, in order.\<close>

theorem cfi_description_rows:
  assumes "describe_CFI_instructions fuel arch (FDE header S instrs off cie) = Inr s" and "get_decoded (FDE header S instrs off cie) = Inr t"
  shows "\<exists>texts. s = concat texts \<and> length texts = length instrs \<and>
    map snd (filter (is_location \<circ> fst) (zip instrs texts)) = map2 (loc_line (ce_header cie)) (filter is_location instrs) (map cl_pc (tl (dt_table t)))"
proof -
  from assms(1) obtain pc ss where pc: "header_int header ''initial_location'' = Inr pc"
    "cfi_texts fuel arch True S (ce_header cie) instrs (Some pc) = Inr ss" "s = concat ss" by (auto simp: ebind_Inr_iff)
  from assms(2) [unfolded get_decoded_rows] obtain rows where rows: "entry_rows (FDE header S instrs off cie) = Inr rows" "t = table_of_rows rows"
    by (auto simp: ebind_Inr_iff)
  from rows(1) obtain crows where f: "frame_rows True (ce_header cie) 0 ((last crows)\<lparr>cl_pc := pc\<rparr>) instrs = Inr rows"
    using pc(1) by (auto simp: ebind_Inr_iff)
  have "cl_pc ((last crows)\<lparr>cl_pc := pc\<rparr>) = pc" by simp
  then show ?thesis using cfi_rows [of fuel arch True S "ce_header cie" instrs "(last crows)\<lparr>cl_pc := pc\<rparr>" ss True 0 rows] pc(2,3) f rows(2)
    by (auto simp: table_of_rows_def)
qed

definition low_FDE :: cfi_entry where
  "low_FDE = FDE [(''initial_location'', PInt 32)] example_structs example_instrs 24 example_cie"

definition low_text :: string where
  "low_text = concat [''  DW_CFA_advance_loc: 4 to 00000024'' @ [nl_c], ''  DW_CFA_remember_state'' @ [nl_c], ''  DW_CFA_def_cfa_offset: 16'' @ [nl_c],
     ''  DW_CFA_restore_state'' @ [nl_c], ''  DW_CFA_restore: r16 (<none>)'' @ [nl_c]]"

definition low_table :: decoded_table where
  "low_table = (let row = (\<lambda>pc off. \<lparr>cl_pc = pc, cl_cfa = Some \<lparr>cfa_reg = Some (PInt 7), cfa_offset = Some (PInt off), cfa_expr = None\<rparr>,
       cl_regs = [(16, RegisterRule OFFSET (Some (PInt (- 8))))]\<rparr>) in \<lparr>dt_table = [row 32 8, row 36 16], dt_reg_order = [16]\<rparr>)"

lemma low_described: "describe_CFI_instructions 1 ''arm'' low_FDE = Inr low_text"
  by code_simp

lemma low_decoded: "get_decoded low_FDE = Inr low_table"
  by code_simp

lemma example_names:
  "instruction_name 0x41 = Inr ''DW_CFA_advance_loc''" "instruction_name 0x0a = Inr ''DW_CFA_remember_state''"
  "instruction_name 0x0e = Inr ''DW_CFA_def_cfa_offset''" "instruction_name 0x0b = Inr ''DW_CFA_restore_state''"
  "instruction_name 0xd0 = Inr ''DW_CFA_restore''"
  by code_simp+

lemma low_line: "loc_text ''DW_CFA_advance_loc'' (Some 4) 36 = ''  DW_CFA_advance_loc: 4 to 00000024'' @ [nl_c]"
  by code_simp

lemma low_location:
  "filter is_location example_instrs = [\<lparr>ci_opcode = 0x41, ci_args = [PInt 1]\<rparr>]"
  "loc_line (ce_header example_cie) \<lparr>ci_opcode = 0x41, ci_args = [PInt 1]\<rparr> 36 = ''  DW_CFA_advance_loc: 4 to 00000024'' @ [nl_c]"
  "map cl_pc (tl (dt_table low_table)) = [36]"
  by (simp_all add: example_instrs_def is_location_def location_names_def example_names example_cie_def loc_line_def at_int_def py_index_def
      header_int_def container_getitem_def as_int_def dict_get_def low_line low_table_def Let_def)

theorem cfi_description_rows_witness: "\<exists>texts. low_text = concat texts \<and> length texts = 5 \<and>
    map snd (filter (is_location \<circ> fst) (zip example_instrs texts)) = [''  DW_CFA_advance_loc: 4 to 00000024'' @ [nl_c]]"
proof -
  obtain texts where "low_text = concat texts" "length texts = length example_instrs"
    "map snd (filter (is_location \<circ> fst) (zip example_instrs texts)) =
     map2 (loc_line (ce_header example_cie)) (filter is_location example_instrs) (map cl_pc (tl (dt_table low_table)))"
    using cfi_description_rows [OF low_described [unfolded low_FDE_def] low_decoded [unfolded low_FDE_def]] by blast
  then show ?thesis unfolding low_location list.map zip_Cons_Cons zip_Nil prod.case
    by (intro exI [of _ texts]) (simp add: example_instrs_def)
qed

end
