(* ===== verification/Fstest.thy ===== *)
theory Fstest
  imports PyText PyValue "HOL-Library.List_Lexorder" "HOL-Library.Char_ord" "HOL-Library.Multiset"
begin

section \<open>The file system test (\<open>scripts/fstest.py\<close>, the output of \<open>examples/fstest.c\<close>)\<close>

text \<open>
  The test makes a random tree of files on a disk image through the driver of the host, and compares what
  the kernel under test and the host say of every file. The test program of the kernel prints
  directories and files; \<open>FstestMutator\<close> reads them back from its output. What other programs and the
  file system of the host do is an argument: \<open>exec\<close> runs a command and returns its output.
\<close>

subsection \<open>Reading the output of the kernel\<close>

definition rfind_slash :: "string \<Rightarrow> int" where
  "rfind_slash s = (if CHR ''/'' \<in> set s then int (length s) - 1 - int (length (takeWhile (\<lambda>c. c \<noteq> CHR ''/'') (rev s))) else - 1)"

text \<open>\<open>s[:i]\<close>.\<close>

definition py_take :: "int \<Rightarrow> string \<Rightarrow> string" where
  "py_take i s = (if i < 0 then take (length s - nat (- i)) s else take (nat i) s)"

fun cat_loop :: "bool \<Rightarrow> string list \<Rightarrow> string list" where
  "cat_loop adding [] = []"
| "cat_loop adding (l # ls) =
     (if \<not> adding \<and> starts ''START CAT'' l then cat_loop True ls
      else if adding \<and> starts ''END CAT'' l then []
      else if adding then l # cat_loop adding ls
      else cat_loop adding ls)"

definition cat_content :: "string \<Rightarrow> string" where
  "cat_content output = join_with [nl_c] (cat_loop False (splitlines output))"

text \<open>\<open>int\<close> of a text.\<close>

definition int_text :: "string \<Rightarrow> pyexc + int" where
  "int_text t = (let s = strip t; sgn = (s \<noteq> [] \<and> hd s \<in> {CHR ''-'', CHR ''+''}); d = (if sgn then tl s else s)
     in if d = [] \<or> \<not> list_all decimal d then Inl ValueError
        else Inr (if sgn \<and> hd s = CHR ''-'' then - decimal_value d else decimal_value d))"

text \<open>The pattern: \<open>\S+\<close> is at least one character that is no space.\<close>

definition plus_nonspace :: "(string \<Rightarrow> 'a option) \<Rightarrow> string \<Rightarrow> (string \<times> 'a) option" where
  "plus_nonspace k s = (case s of [] \<Rightarrow> None
     | c # r \<Rightarrow> if is_space c then None else map_option (\<lambda>(g, x). (c # g, x)) (star_in (\<lambda>c. \<not> is_space c) k r))"

definition file_pattern :: "string \<Rightarrow> (string \<times> string \<times> string \<times> string \<times> string \<times> string \<times> string \<times> string \<times> string \<times> string) option" where
  "file_pattern = lit ''[['' (star_any (lit '']] '' (plus_nonspace (lit '' : nlink '' (star_any (lit '' mode '' (star_any (lit '' ctime ''
     (star_any (lit '' mtime '' (star_any (lit '' atime '' (star_any (lit '' uid '' (star_any (lit '' gid '' (star_any (lit '' size ''
     (\<lambda>r. Some (takeWhile (\<lambda>c. c \<noteq> nl_c) r))))))))))))))))))))"

record ls_obj =
  ls_type :: string
  ls_name :: string
  ls_nlink :: int
  ls_mode :: string
  ls_ctime :: int
  ls_mtime :: int
  ls_atime :: int
  ls_uid :: int
  ls_gid :: int
  ls_size :: int

definition parse_file :: "string \<Rightarrow> pyexc + ls_obj" where
  "parse_file l = (case file_pattern l of
     None \<Rightarrow> Inl AttributeError
   | Some (ty, name, nlink, mode, ctime, mtime, atime, uid, gid, sz) \<Rightarrow>
       ebind (int_text nlink) (\<lambda>nlink. ebind (int_text ctime) (\<lambda>ctime. ebind (int_text mtime) (\<lambda>mtime. ebind (int_text atime) (\<lambda>atime.
       ebind (int_text uid) (\<lambda>uid. ebind (int_text gid) (\<lambda>gid. ebind (int_text sz) (\<lambda>sz.
         Inr \<lparr>ls_type = ty, ls_name = name, ls_nlink = nlink, ls_mode = mode, ls_ctime = ctime, ls_mtime = mtime, ls_atime = atime,
           ls_uid = uid, ls_gid = gid, ls_size = sz\<rparr>))))))))"

definition parsefiles :: "string list \<Rightarrow> pyexc + ls_obj list" where
  "parsefiles lines = emap_list parse_file lines"

definition ls_files :: "string \<Rightarrow> pyexc + ls_obj list" where
  "ls_files output = parsefiles (filter (starts ''[['') (splitlines output))"

subsection \<open>What the kernel prints\<close>

text \<open>\<open>op_cat\<close> and \<open>op_ls\<close> of the test program; \<open>kprintf\<close> with \<open>%d\<close>, \<open>%x\<close> and \<open>%s\<close>.\<close>

record dirent =
  de_type :: string
  de_name :: string
  de_nlink :: int
  de_mode :: nat
  de_ctime :: int
  de_mtime :: int
  de_atime :: int
  de_uid :: int
  de_gid :: int
  de_size :: int

definition c_string :: "string \<Rightarrow> string" where
  "c_string s = takeWhile (\<lambda>c. c \<noteq> CHR 0x00) s"

function cat_chunks :: "string \<Rightarrow> string" where
  "cat_chunks s = (if s = [] then [] else c_string (take 128 s) @ cat_chunks (drop 128 s))"
  by pat_completeness auto
termination by (relation "measure length") auto

declare cat_chunks.simps [simp del]

definition op_cat :: "string \<Rightarrow> string" where
  "op_cat contents = ''START CAT (size '' @ dec_text (int (length contents)) @ '')'' @ [nl_c] @ cat_chunks contents @
     [nl_c] @ ''END CAT (size '' @ dec_text (int (length contents)) @ '')'' @ [nl_c]"

definition ls_line :: "dirent \<Rightarrow> string" where
  "ls_line d = ''[['' @ de_type d @ '']] '' @ de_name d @ '' : nlink '' @ dec_text (de_nlink d) @ '' mode '' @ hex_text (int (de_mode d)) @
     '' ctime '' @ dec_text (de_ctime d) @ '' mtime '' @ dec_text (de_mtime d) @ '' atime '' @ dec_text (de_atime d) @ '' uid '' @ dec_text (de_uid d) @
     '' gid '' @ dec_text (de_gid d) @ '' size '' @ dec_text (de_size d)"

definition op_ls :: "dirent list \<Rightarrow> string" where
  "op_ls ds = concat (map (\<lambda>d. ls_line d @ [nl_c]) ds)"

subsection \<open>Times\<close>

text \<open>\<open>datetime.fromtimestamp(ts).isoformat()\<close> of whole seconds, in a time zone that is \<open>off\<close> seconds before UTC.\<close>

definition civil :: "int \<Rightarrow> int \<times> int \<times> int" where
  "civil days = (let z = days + 719468; era = z div 146097; doe = z mod 146097;
       yoe = (doe - doe div 1460 + doe div 36524 - doe div 146096) div 365;
       doy = doe - (365 * yoe + yoe div 4 - yoe div 100); mp = (5 * doy + 2) div 153;
       m = (if mp < 10 then mp + 3 else mp - 9)
     in (yoe + era * 400 + (if m \<le> 2 then 1 else 0), m, doy - (153 * mp + 2) div 5 + 1))"

definition zeros :: "nat \<Rightarrow> int \<Rightarrow> string" where
  "zeros n k = (let t = dec_text k in replicate (n - length t) (CHR ''0'') @ t)"

definition iso_time :: "int \<Rightarrow> int \<Rightarrow> pyexc + string" where
  "iso_time off ts = (let t = ts + off; d = t div 86400; s = t mod 86400; (y, m, day) = civil d
     in if y < 1 \<or> 9999 < y then Inl ValueError
        else Inr (zeros 4 y @ ''-'' @ zeros 2 m @ ''-'' @ zeros 2 day @ ''T'' @ zeros 2 (s div 3600) @ '':'' @ zeros 2 (s div 60 mod 60) @ '':'' @
          zeros 2 (s mod 60)))"

function remove_all :: "string \<Rightarrow> string \<Rightarrow> string" where
  "remove_all p s = (if p = [] then s else case find_str p s of None \<Rightarrow> s | Some i \<Rightarrow> take i s @ remove_all p (drop (i + length p) s))"
  by pat_completeness auto
termination
proof (relation "measure (length \<circ> snd)", goal_cases)
  case (2 p s i)
  then have "i \<le> length s \<and> starts p (drop i s)" using find_str_Some by blast
  then have "s \<noteq> []" "0 < length p" using 2 by (auto simp: starts_iff)
  then show ?case by simp
qed simp

declare remove_all.simps [simp del]

definition fstest_time :: "int \<Rightarrow> pyexc + string" where
  "fstest_time ts = ebind (iso_time 0 ts) (\<lambda>t. Inr (remove_all ''+00:00'' (t @ ''+00:00'')))"

subsection \<open>Mutators\<close>

text \<open>
  What \<open>stat\<close> returns is a dictionary with these eight keys in both mutators, and a record here. A mutator
  is the record of its methods; they change the world \<open>'w\<close> they run in. What the host's system calls and the
  programs it runs do is an argument: a record of operations on that world.
\<close>

record fstat =
  st_mode :: string
  st_nlink :: int
  st_uid :: int
  st_gid :: int
  st_size :: int
  st_atime :: string
  st_mtime :: string
  st_ctime :: string

record 'w mutator =
  mut_str :: string
  mut_start :: "('w, unit) st"
  mut_stop :: "('w, unit) st"
  mut_write :: "string \<Rightarrow> string \<Rightarrow> ('w, unit) st"
  mut_read :: "string \<Rightarrow> ('w, string) st"
  mut_listdir :: "string \<Rightarrow> ('w, string list) st"
  mut_mkdir :: "string \<Rightarrow> ('w, unit) st"
  mut_stat :: "string \<Rightarrow> ('w, fstat) st"

record os_stat =
  os_mode :: nat
  os_nlink :: int
  os_uid :: int
  os_gid :: int
  os_size :: int
  os_atime :: int
  os_mtime :: int
  os_ctime :: int

record 'w host =
  check_output :: "string list \<Rightarrow> (string \<times> string) list option \<Rightarrow> ('w, string) st"
  file_write :: "string \<Rightarrow> string \<Rightarrow> ('w, unit) st"
  file_read :: "string \<Rightarrow> ('w, string) st"
  os_listdir :: "string \<Rightarrow> ('w, string list) st"
  os_mkdir :: "string \<Rightarrow> ('w, unit) st"
  os_statf :: "string \<Rightarrow> ('w, os_stat) st"
  path_exists :: "string \<Rightarrow> ('w, bool) st"
  utc_offset :: int

text \<open>\<open>_exec\<close> raises an \<open>OSError\<close> again with the command in its message.\<close>

definition exec_cmd :: "'w host \<Rightarrow> string list \<Rightarrow> (string \<times> string) list option \<Rightarrow> ('w, string) st" where
  "exec_cmd h args env = check_output h args env"

definition mkimg :: "'w host \<Rightarrow> string \<Rightarrow> int \<Rightarrow> ('w, unit) st" where
  "mkimg h img size' = sbind (exec_cmd h [''mkdosfs'', ''-C'', ''-F'', ''32'', img, dec_text (size' div 1024)] None) (\<lambda>_. sret ())"

definition mpoint :: string where
  "mpoint = ''/mnt''"

definition mount_path :: "string \<Rightarrow> string" where
  "mount_path fname = path_join mpoint (''.'' @ fname)"

definition mount_start :: "'w host \<Rightarrow> string \<Rightarrow> ('w, unit) st" where
  "mount_start h img = sbind (exec_cmd h [''sudo'', ''/sbin/losetup'', ''/dev/loop0'', img] None) (\<lambda>_.
     sbind (exec_cmd h [''sudo'', ''/bin/mount'', ''/dev/loop0'', mpoint, ''-o'', ''uid=1000''] None) (\<lambda>_. sret ()))"

definition mount_stop :: "'w host \<Rightarrow> ('w, unit) st" where
  "mount_stop h = sbind (exec_cmd h [''sudo'', ''/bin/umount'', ''/dev/loop0''] None) (\<lambda>_.
     sbind (exec_cmd h [''sudo'', ''/sbin/losetup'', ''-d'', ''/dev/loop0''] None) (\<lambda>_. sret ()))"

definition mount_stat :: "'w host \<Rightarrow> string \<Rightarrow> ('w, fstat) st" where
  "mount_stat h fname = sbind (os_statf h (mount_path fname)) (\<lambda>x.
     sbind (slift (iso_time (utc_offset h) (os_atime x))) (\<lambda>a. sbind (slift (iso_time (utc_offset h) (os_mtime x))) (\<lambda>m.
     sbind (slift (iso_time (utc_offset h) (os_ctime x))) (\<lambda>c.
       sret \<lparr>st_mode = hex_text (int (os_mode x)), st_nlink = os_nlink x, st_uid = os_uid x, st_gid = os_gid x, st_size = os_size x,
         st_atime = a, st_mtime = m, st_ctime = c\<rparr>))))"

definition mount_mutator :: "'w host \<Rightarrow> string \<Rightarrow> 'w mutator" where
  "mount_mutator h img = \<lparr>mut_str = ''native'', mut_start = mount_start h img, mut_stop = mount_stop h,
     mut_write = (\<lambda>fname content. file_write h (mount_path fname) content), mut_read = (\<lambda>fname. file_read h (mount_path fname)),
     mut_listdir = (\<lambda>fname. sbind (os_listdir h (mount_path fname)) (\<lambda>l. sret (l @ [''.'', ''..'']))),
     mut_mkdir = (\<lambda>fname. os_mkdir h (mount_path fname)), mut_stat = mount_stat h\<rparr>"

text \<open>\<open>raise "NotImplemented!"\<close> raises a \<open>TypeError\<close>: a string is no exception.\<close>

definition fstest_run :: "'w host \<Rightarrow> string \<Rightarrow> string \<Rightarrow> string \<Rightarrow> string \<Rightarrow> ('w, string) st" where
  "fstest_run h img exe op fname = exec_cmd h [exe, ''vfat'', op, fname] (Some [(''HDD_IMAGE'', img)])"

definition fstest_read :: "'w host \<Rightarrow> string \<Rightarrow> string \<Rightarrow> string \<Rightarrow> ('w, string) st" where
  "fstest_read h img exe fname = sbind (fstest_run h img exe ''cat'' fname) (\<lambda>out. sret (cat_content out))"

definition fstest_listdir :: "'w host \<Rightarrow> string \<Rightarrow> string \<Rightarrow> string \<Rightarrow> ('w, string list) st" where
  "fstest_listdir h img exe fname = sbind (fstest_run h img exe ''ls'' fname) (\<lambda>out.
     sbind (slift (ls_files out)) (\<lambda>files. sret (map ls_name files)))"

definition stat_of :: "ls_obj \<Rightarrow> pyexc + fstat" where
  "stat_of x = ebind (fstest_time (ls_atime x)) (\<lambda>a. ebind (fstest_time (ls_mtime x)) (\<lambda>m. ebind (fstest_time (ls_ctime x)) (\<lambda>c.
     Inr \<lparr>st_mode = ls_mode x, st_nlink = ls_nlink x, st_uid = ls_uid x, st_gid = ls_gid x, st_size = ls_size x,
       st_atime = a, st_mtime = m, st_ctime = c\<rparr>)))"

definition fstest_stat :: "'w host \<Rightarrow> string \<Rightarrow> string \<Rightarrow> string \<Rightarrow> ('w, fstat) st" where
  "fstest_stat h img exe fname = (let name = drop (nat (rfind_slash fname + 1)) fname; dir = py_take (rfind_slash fname) fname
     in sbind (fstest_run h img exe ''ls'' dir) (\<lambda>out. sbind (slift (ls_files out)) (\<lambda>files.
          slift (case filter (\<lambda>f. ls_name f = name) files of [] \<Rightarrow> Inl IndexError | x # _ \<Rightarrow> stat_of x))))"

definition fstest_mutator :: "'w host \<Rightarrow> string \<Rightarrow> string \<Rightarrow> 'w mutator" where
  "fstest_mutator h img exe = \<lparr>mut_str = ''fstest'', mut_start = sret (), mut_stop = sret (),
     mut_write = (\<lambda>fname content. sraise TypeError), mut_read = fstest_read h img exe, mut_listdir = fstest_listdir h img exe,
     mut_mkdir = (\<lambda>fname. sraise TypeError), mut_stat = fstest_stat h img exe\<rparr>"

subsection \<open>Two mutators against each other\<close>

definition rjust10 :: "string \<Rightarrow> string" where
  "rjust10 s = replicate (10 - length s) (CHR '' '') @ s"

definition stat_fields :: "fstat \<Rightarrow> (string \<times> string) list" where
  "stat_fields x = [(''atime'', st_atime x), (''ctime'', st_ctime x), (''gid'', dec_text (st_gid x)), (''mode'', st_mode x), (''mtime'', st_mtime x),
     (''nlink'', dec_text (st_nlink x)), (''size'', dec_text (st_size x)), (''uid'', dec_text (st_uid x))]"

definition cross_format :: "string \<Rightarrow> string \<Rightarrow> fstat \<Rightarrow> fstat \<Rightarrow> string" where
  "cross_format n m a b = join_with [nl_c] (([nl_c] @ rjust10 [] @ '' | '' @ rjust10 n @ '' | '' @ rjust10 m) #
     map (\<lambda>((k, x), (_, y)). rjust10 k @ '' | '' @ rjust10 x @ '' | '' @ rjust10 y) (zip (stat_fields a) (stat_fields b)))"

type_synonym 'w mutators = "'w mutator \<times> 'w mutator"

definition both :: "('w mutator \<Rightarrow> ('w, 'a) st) \<Rightarrow> 'w mutators \<Rightarrow> ('w, 'a \<times> 'a) st" where
  "both f ms = sbind (f (fst ms)) (\<lambda>x. sbind (f (snd ms)) (\<lambda>y. sret (x, y)))"

definition cross_start :: "'w mutators \<Rightarrow> ('w, unit) st" where
  "cross_start ms = sbind (both mut_start ms) (\<lambda>_. sret ())"

definition cross_stop :: "'w mutators \<Rightarrow> ('w, unit) st" where
  "cross_stop ms = sbind (both mut_stop ms) (\<lambda>_. sret ())"

definition cross_write :: "'w mutators \<Rightarrow> string \<Rightarrow> string \<Rightarrow> ('w, unit) st" where
  "cross_write ms fname content = sbind (both (\<lambda>m. mut_write m fname content) ms) (\<lambda>_. sbind (both (\<lambda>m. mut_read m fname) ms) (\<lambda>(x, y).
     if x \<noteq> content then sraise CrossCheckError else if y \<noteq> content then sraise CrossCheckError else sret ()))"

text \<open>\<open>expected\<close> only goes into the message of the error.\<close>

definition cross_read :: "'w mutators \<Rightarrow> string \<Rightarrow> string option \<Rightarrow> ('w, string) st" where
  "cross_read ms fname expected = sbind (both (\<lambda>m. mut_read m fname) ms) (\<lambda>(x, y). if x \<noteq> y then sraise CrossCheckError else sret x)"

definition cross_listdir :: "'w mutators \<Rightarrow> string \<Rightarrow> ('w, string list) st" where
  "cross_listdir ms fname = sbind (both (\<lambda>m. mut_listdir m fname) ms) (\<lambda>(x, y).
     if sort x \<noteq> sort y then sraise CrossCheckError else sret x)"

definition cross_mkdir :: "'w mutators \<Rightarrow> string \<Rightarrow> ('w, unit) st" where
  "cross_mkdir ms fname = sbind (both (\<lambda>m. mut_mkdir m fname) ms) (\<lambda>_. sret ())"

definition cross_stat :: "'w mutators \<Rightarrow> (fstat \<times> fstat \<Rightarrow> fstat \<times> fstat) option \<Rightarrow> string \<Rightarrow> ('w, fstat) st" where
  "cross_stat ms mapper fname = sbind (both (\<lambda>m. mut_stat m fname) ms) (\<lambda>ls.
     let ls' = (case mapper of None \<Rightarrow> ls | Some f \<Rightarrow> f ls) in if fst ls' \<noteq> snd ls' then sraise CrossCheckError else sret (fst ls'))"

definition vfat_known_inconsistencies :: "fstat \<times> fstat \<Rightarrow> fstat \<times> fstat" where
  "vfat_known_inconsistencies vs = ((fst vs)\<lparr>st_nlink := -1, st_uid := 0\<rparr>, (snd vs)\<lparr>st_nlink := -1, st_uid := 0, st_ctime := st_ctime (fst vs)\<rparr>)"

definition try_finally :: "('w, 'a) st \<Rightarrow> ('w, unit) st \<Rightarrow> ('w, 'a) st" where
  "try_finally m f = (\<lambda>s. case m s of (r, s') \<Rightarrow> (case f s' of (Inl e, s'') \<Rightarrow> (Inl e, s'') | (Inr _, s'') \<Rightarrow> (r, s'')))"

definition walk_check :: "'w mutators \<Rightarrow> (string \<Rightarrow> pyexc + string option) \<Rightarrow> string \<Rightarrow> string \<Rightarrow> ('w, unit) st" where
  "walk_check ccm content ty name = (if name = [] then sret ()
     else sbind (cross_start ccm) (\<lambda>_. try_finally
       (sbind (cross_stat ccm (Some vfat_known_inconsistencies) name) (\<lambda>_.
          if map lower_c ty = ''dir'' then sbind (cross_listdir ccm name) (\<lambda>_. sret ())
          else sbind (slift (content name)) (\<lambda>c. sbind (cross_read ccm name c) (\<lambda>_. sret ()))))
       (cross_stop ccm)))"

subsection \<open>A file is read back\<close>

lemma cat_loop_noise: "list_all (\<lambda>l. \<not> starts ''START CAT'' l) ls \<Longrightarrow> cat_loop False (ls @ rest) = cat_loop False rest"
  by (induction ls) auto

lemma cat_loop_body: "list_all (\<lambda>l. \<not> starts ''END CAT'' l) ls \<Longrightarrow> starts ''END CAT'' l \<Longrightarrow> cat_loop True (ls @ l # rest) = ls"
  by (induction ls) auto

lemma digits_range: "2 \<le> b \<Longrightarrow> b \<le> 16 \<Longrightarrow> c \<in> set (digits b n) \<Longrightarrow> decimal c \<or> c \<in> set ''abcdef''"
proof (induction b n rule: digits.induct)
  case (1 b n)
  have d: "decimal (digit_c d) \<or> digit_c d \<in> set ''abcdef''" if "d < 16" for d :: nat
  proof (cases "d < 10")
    case True
    then show ?thesis by (simp add: decimal_def digit_c_def)
  next
    case False
    then have "d \<in> {10, 11, 12, 13, 14, 15}" using that by auto
    moreover have "digit_c 10 = CHR ''a''" "digit_c 11 = CHR ''b''" "digit_c 12 = CHR ''c''" "digit_c 13 = CHR ''d''"
      "digit_c 14 = CHR ''e''" "digit_c 15 = CHR ''f''" by code_simp+
    ultimately show ?thesis by auto
  qed
  show ?case
  proof (cases "n < b")
    case True
    then show ?thesis using 1 d [of n] by (simp add: digits.simps [of b n])
  next
    case False
    have "n mod b < 16" using "1.prems"(1,2) mod_less_divisor [of b n] by linarith
    then show ?thesis using 1 False d [of "n mod b"] by (auto simp: digits.simps [of b n] split: if_splits)
  qed
qed

lemma number_chars: "c \<in> set (dec_text n) \<Longrightarrow> decimal c \<or> c = CHR ''-''" "c \<in> set (hex_text n) \<Longrightarrow> decimal c \<or> c \<in> set ''abcdef-''"
  using digits_range [of 10 c "nat n"] digits_range [of 10 c "nat (- n)"] digits_range [of 16 c "nat n"] digits_range [of 16 c "nat (- n)"]
    decimal_digits [of "nat n"] decimal_digits [of "nat (- n)"]
  by (auto simp: dec_text_def hex_text_def list_all_iff split: if_splits)

lemma digits_no: "x \<notin> set (dec_text n)" "x \<notin> set (hex_text n)" if "\<not> decimal x" "x \<notin> set ''abcdef-''"
  using number_chars [of x n] that by auto

lemma no_cr: "CHR 0x0D \<notin> set (dec_text n)" "nl_c \<notin> set (dec_text n)" "CHR '' '' \<notin> set (dec_text n)" "CHR '' '' \<notin> set (hex_text n)"
proof -
  have d: "\<not> decimal (CHR 0x0D)" "\<not> decimal nl_c" "\<not> decimal (CHR '' '')" by code_simp+
  show "CHR 0x0D \<notin> set (dec_text n)" by (rule digits_no(1) [OF d(1)]) simp
  show "nl_c \<notin> set (dec_text n)" by (rule digits_no(1) [OF d(2)]) simp
  show "CHR '' '' \<notin> set (dec_text n)" by (rule digits_no(1) [OF d(3)]) simp
  show "CHR '' '' \<notin> set (hex_text n)" by (rule digits_no(2) [OF d(3)]) simp
qed

lemma cat_chunks_id: "CHR 0x00 \<notin> set s \<Longrightarrow> cat_chunks s = s"
proof (induction s rule: cat_chunks.induct)
  case (1 s)
  have "c_string (take 128 s) = take 128 s" using 1(2) unfolding c_string_def takeWhile_eq_all_conv by (blast dest: in_set_takeD)
  moreover have "s \<noteq> [] \<Longrightarrow> cat_chunks (drop 128 s) = drop 128 s" using 1(1) 1(2) in_set_dropD [of "CHR 0x00" 128 s] by blast
  ultimately show ?case by (simp add: cat_chunks.simps [of s])
qed

lemma noise_lines:
  assumes "CHR 0x0D \<notin> set (noise @ t)" "noise = [] \<or> last noise = nl_c"
  shows "splitlines (noise @ t) = splitlines noise @ splitlines t"
proof (cases "noise = []")
  case True
  then show ?thesis by (simp add: splitlines_def)
next
  case False
  then obtain m where m: "noise = m @ [nl_c]" using assms(2) by (metis append_butlast_last_id)
  have "splitlines noise = split_on nl_c m" using splitlines_append [of m "[]"] assms(1) unfolding m by (simp add: splitlines_def)
  then show ?thesis using splitlines_append [of m t] assms(1) unfolding m by simp
qed

lemma cat_back:
  assumes "CHR 0x0D \<notin> set (noise @ contents @ rest)" "CHR 0x00 \<notin> set contents" "noise = [] \<or> last noise = nl_c"
    "list_all (\<lambda>l. \<not> starts ''START CAT'' l) (splitlines noise)" "list_all (\<lambda>l. \<not> starts ''END CAT'' l) (split_on nl_c contents)"
  shows "cat_content (noise @ op_cat contents @ rest) = contents"
proof -
  define n where "n = dec_text (int (length contents))"
  define a where "a = ''START CAT (size '' @ n @ '')''"
  define b where "b = ''END CAT (size '' @ n @ '')''"
  have cr: "CHR 0x0D \<notin> set a" "CHR 0x0D \<notin> set b" "nl_c \<notin> set a" "nl_c \<notin> set b"
    using no_cr [of "int (length contents)"] unfolding a_def b_def n_def by simp_all
  have o: "op_cat contents = a @ nl_c # contents @ nl_c # b @ nl_c # []" unfolding op_cat_def a_def b_def n_def using cat_chunks_id [OF assms(2)] by simp
  have r: "splitlines (op_cat contents @ rest) = a # split_on nl_c contents @ b # splitlines rest"
    unfolding o using cr assms(1) splitlines_append [of a "contents @ nl_c # b @ nl_c # rest"] splitlines_append [of contents "b @ nl_c # rest"]
      splitlines_append [of b rest] by (simp add: split_on_free)
  have full: "splitlines (noise @ op_cat contents @ rest) = splitlines noise @ splitlines (op_cat contents @ rest)"
    using noise_lines [OF _ assms(3), of "op_cat contents @ rest"] assms(1) cr unfolding o by simp
  have "starts ''START CAT'' a" "starts ''END CAT'' b" unfolding a_def b_def by simp_all
  then have "cat_loop False (splitlines (noise @ op_cat contents @ rest)) = split_on nl_c contents"
    unfolding full r cat_loop_noise [OF assms(4)] using cat_loop_body [OF assms(5)] by simp
  then show ?thesis unfolding cat_content_def by (simp add: join_split_on)
qed

subsection \<open>A directory is read back\<close>

lemma star_in_found: "star_in P k (g @ r) \<noteq> None" if "list_all P g" "k r \<noteq> None"
  using star_in_None [of P k "g @ r" g r] that by blast

lemma lit_found: "k r \<noteq> None \<Longrightarrow> lit p k (p @ r) \<noteq> None"
  by (simp add: lit_def starts_append)

lemma lit_Some: "lit p k s = Some x \<longleftrightarrow> (\<exists>r. s = p @ r \<and> k r = Some x)"
  by (auto simp: lit_def starts_iff split: if_splits)

lemma plus_found: "g \<noteq> [] \<Longrightarrow> list_all (\<lambda>c. \<not> is_space c) g \<Longrightarrow> k r \<noteq> None \<Longrightarrow> plus_nonspace k (g @ r) \<noteq> None"
  using star_in_found [of "\<lambda>c. \<not> is_space c" "tl g" k r] by (cases g) (auto simp: plus_nonspace_def)

lemma plus_Some: "plus_nonspace k s = Some (g, x) \<Longrightarrow> \<exists>r. s = g @ r \<and> g \<noteq> [] \<and> k r = Some x \<and> list_all (\<lambda>c. \<not> is_space c) g"
  by (cases s) (auto simp: plus_nonspace_def split: if_splits dest!: star_in_Some)

definition ls_text :: "string \<Rightarrow> string \<Rightarrow> string list \<Rightarrow> string" where
  "ls_text ty name vs = ''[['' @ ty @ '']] '' @ name @ '' : nlink '' @ vs ! 0 @ '' mode '' @ vs ! 1 @ '' ctime '' @ vs ! 2 @ '' mtime '' @ vs ! 3 @
     '' atime '' @ vs ! 4 @ '' uid '' @ vs ! 5 @ '' gid '' @ vs ! 6 @ '' size '' @ vs ! 7"

lemma file_pattern_found:
  assumes "nl_c \<notin> set ty" "name \<noteq> []" "list_all (\<lambda>c. \<not> is_space c) name" "length vs = 8" "\<forall>v \<in> set vs. nl_c \<notin> set v"
  shows "file_pattern (ls_text ty name vs) \<noteq> None"
proof -
  have a: "list_all (\<lambda>c. c \<noteq> nl_c) (vs ! i)" if "i < 8" for i using assms(4,5) that by (auto simp: list_all_iff)
  have b: "list_all (\<lambda>c. c \<noteq> nl_c) ty" using assms(1) by (auto simp: list_all_iff)
  show ?thesis unfolding file_pattern_def ls_text_def
    by (intro lit_found star_in_found plus_found a b assms(2,3)) simp_all
qed

lemma file_pattern_Some:
  assumes "file_pattern s = Some (ty, name, a, b, c, d, e, f, g, h)" "nl_c \<notin> set s"
  shows "s = ls_text ty name [a, b, c, d, e, f, g, h] \<and> list_all (\<lambda>c. \<not> is_space c) name"
proof -
  obtain r where "s = ls_text ty name [a, b, c, d, e, f, g, r]" "h = takeWhile (\<lambda>c. c \<noteq> nl_c) r" "list_all (\<lambda>c. \<not> is_space c) name"
    using assms(1) unfolding file_pattern_def ls_text_def by (auto simp: lit_Some dest!: star_in_Some plus_Some)
  moreover from this have "takeWhile (\<lambda>c. c \<noteq> nl_c) r = r" using assms(2) unfolding takeWhile_eq_all_conv ls_text_def by auto
  ultimately show ?thesis by simp
qed

lemma split_on_blocks: "ws \<noteq> [] \<Longrightarrow> split_on a (join_with [a] ws) = concat (map (split_on a) ws)"
  by (induction "[a]" ws rule: join_with.induct) (auto simp: split_on_append)

lemma split_on_count: "length (concat (map (split_on a) ws)) = length ws \<Longrightarrow> concat (map (split_on a) ws) = ws"
proof (induction ws)
  case (Cons w ws)
  have n: "length ws \<le> length (concat (map (split_on a) ws))" for ws
  proof (induction ws)
    case (Cons w ws)
    then show ?case by (cases "split_on a w") auto
  qed simp
  have "length (split_on a w) + length (concat (map (split_on a) ws)) = Suc (length ws)" using Cons(2) by simp
  moreover have "split_on a w \<noteq> []" by simp
  then have "0 < length (split_on a w)" by blast
  ultimately have "length (split_on a w) = 1" using n [of ws] by linarith
  then obtain v where v: "split_on a w = [v]" by (auto simp: length_Suc_conv)
  then have "w = v" using join_split_on [of a w] by simp
  then show ?case using Cons v by simp
qed simp

definition ls_tokens :: "string \<Rightarrow> string \<Rightarrow> string list \<Rightarrow> string list" where
  "ls_tokens ty name vs = [''[['' @ ty @ '']]'', name, '':'', ''nlink'', vs ! 0, ''mode'', vs ! 1, ''ctime'', vs ! 2, ''mtime'', vs ! 3, ''atime'',
     vs ! 4, ''uid'', vs ! 5, ''gid'', vs ! 6, ''size'', vs ! 7]"

lemma ls_text_tokens: "ls_text ty name vs = join_with '' '' (ls_tokens ty name vs)"
  by (simp add: ls_text_def ls_tokens_def)

lemma list8: "length vs = 8 \<Longrightarrow> vs = [vs ! 0, vs ! 1, vs ! 2, vs ! 3, vs ! 4, vs ! 5, vs ! 6, vs ! 7]"
  by (rule nth_equalityI) (auto simp: less_Suc_eq numeral_eq_Suc)

lemma ls_text_unique:
  assumes "ls_text ty name vs = ls_text ty' name' vs'" "length vs = 8" "length vs' = 8"
    "CHR '' '' \<notin> set ty" "CHR '' '' \<notin> set name" "\<forall>v \<in> set vs. CHR '' '' \<notin> set v"
  shows "ty' = ty \<and> name' = name \<and> vs' = vs"
proof -
  have v: "CHR '' '' \<notin> set (vs ! i)" if "i < 8" for i using assms(2,6) that by auto
  have free: "t \<in> set (ls_tokens ty name vs) \<Longrightarrow> CHR '' '' \<notin> set t" for t
    using assms(4,5) v [of 0] v [of 1] v [of 2] v [of 3] v [of 4] v [of 5] v [of 6] v [of 7] unfolding ls_tokens_def by auto
  have n: "ls_tokens ty name vs \<noteq> []" for ty name vs by (simp add: ls_tokens_def)
  have s: "ls_tokens ty name vs = concat (map (split_on (CHR '' '')) (ls_tokens ty' name' vs'))"
    using assms(1) split_on_join [of "ls_tokens ty name vs" "CHR '' ''", OF n free] split_on_blocks [OF n, of "CHR '' ''" ty' name' vs'] unfolding ls_text_tokens by simp
  have "length (ls_tokens ty name vs) = length (ls_tokens ty' name' vs')" by (simp add: ls_tokens_def)
  then have "ls_tokens ty name vs = ls_tokens ty' name' vs'" using split_on_count [of "CHR '' ''" "ls_tokens ty' name' vs'"] s by simp
  then show ?thesis using list8 [OF assms(2)] list8 [OF assms(3)] unfolding ls_tokens_def by simp
qed

lemma file_pattern_text:
  assumes "CHR '' '' \<notin> set ty" "nl_c \<notin> set ty" "name \<noteq> []" "list_all (\<lambda>c. \<not> is_space c) name" "length vs = 8"
    "\<forall>v \<in> set vs. nl_c \<notin> set v \<and> CHR '' '' \<notin> set v"
  shows "file_pattern (ls_text ty name vs) = Some (ty, name, vs ! 0, vs ! 1, vs ! 2, vs ! 3, vs ! 4, vs ! 5, vs ! 6, vs ! 7)"
proof -
  obtain ty' name' a b c d e f g h where p: "file_pattern (ls_text ty name vs) = Some (ty', name', a, b, c, d, e, f, g, h)"
    using file_pattern_found [OF assms(2-5)] assms(6) by (cases "file_pattern (ls_text ty name vs)") auto
  have nm: "CHR '' '' \<notin> set name" "nl_c \<notin> set name" using assms(4) by (auto simp: list_all_iff is_space_def)
  have v: "nl_c \<notin> set (vs ! i)" if "i < 8" for i using assms(5,6) that by auto
  have "nl_c \<notin> set (ls_text ty name vs)" unfolding ls_text_def
    using assms(2) nm v [of 0] v [of 1] v [of 2] v [of 3] v [of 4] v [of 5] v [of 6] v [of 7] by auto
  from file_pattern_Some [OF p this] have "ls_text ty name vs = ls_text ty' name' [a, b, c, d, e, f, g, h]" by simp
  from ls_text_unique [OF this assms(5) _ assms(1) nm(1)] have "ty' = ty \<and> name' = name \<and> [a, b, c, d, e, f, g, h] = vs" using assms(6) by simp
  then show ?thesis using p by auto
qed

text \<open>The object of a directory entry, and what the entries of a file system of the kernel are like.\<close>

definition entry_obj :: "dirent \<Rightarrow> ls_obj" where
  "entry_obj d = \<lparr>ls_type = de_type d, ls_name = de_name d, ls_nlink = de_nlink d, ls_mode = hex_text (int (de_mode d)), ls_ctime = de_ctime d,
     ls_mtime = de_mtime d, ls_atime = de_atime d, ls_uid = de_uid d, ls_gid = de_gid d, ls_size = de_size d\<rparr>"

definition plain_dirent :: "dirent \<Rightarrow> bool" where
  "plain_dirent d = (de_type d \<in> {''FILE'', ''DIR'', ''CDEV'', ''BDEV'', ''FIFO'', ''SOCK''} \<and> de_name d \<noteq> [] \<and>
     list_all (\<lambda>c. \<not> is_space c) (de_name d))"

lemma digits_nonempty: "digits b n \<noteq> []"
  by (subst digits.simps) simp

lemma strip_free: "list_all (\<lambda>c. \<not> is_space c) s \<Longrightarrow> strip s = s"
proof -
  assume s: "list_all (\<lambda>c. \<not> is_space c) s"
  have d: "list_all (\<lambda>c. \<not> is_space c) t \<Longrightarrow> dropWhile is_space t = t" for t by (cases t) auto
  show ?thesis unfolding strip_def d [OF s] by (subst d) (use s in auto)
qed

lemma decimal_not_space: "decimal c \<Longrightarrow> \<not> is_space c \<and> c \<noteq> CHR ''-'' \<and> c \<noteq> CHR ''+''"
  by (auto simp: decimal_def is_space_def ord_c_def)

lemma int_text_dec: "int_text (dec_text n) = Inr n"
proof -
  have d: "list_all decimal (digits 10 m)" "digits 10 m \<noteq> []" "decimal_value (digits 10 m) = int m" for m
    by (rule decimal_digits digits_nonempty decimal_value_digits)+
  have h: "hd (digits 10 m) \<noteq> CHR ''-'' \<and> hd (digits 10 m) \<noteq> CHR ''+''" for m using d [of m] decimal_not_space by (cases "digits 10 m") auto
  have "list_all (\<lambda>c. \<not> is_space c) (dec_text n)" using decimal_digits [of "nat n"] decimal_digits [of "nat (- n)"] decimal_not_space
    by (auto simp: dec_text_def list_all_iff is_space_def)
  then have st: "strip (dec_text n) = dec_text n" by (rule strip_free)
  show ?thesis unfolding int_text_def st using d [of "nat n"] d [of "nat (- n)"] h [of "nat n"] by (auto simp: dec_text_def)
qed

lemma parse_ls_line: "plain_dirent d \<Longrightarrow> parse_file (ls_line d) = Inr (entry_obj d) \<and> starts ''[['' (ls_line d) \<and> CHR 0x0D \<notin> set (ls_line d) \<and> nl_c \<notin> set (ls_line d)"
proof -
  assume p: "plain_dirent d"
  define vs where "vs = [dec_text (de_nlink d), hex_text (int (de_mode d)), dec_text (de_ctime d), dec_text (de_mtime d), dec_text (de_atime d),
    dec_text (de_uid d), dec_text (de_gid d), dec_text (de_size d)]"
  have l: "ls_line d = ls_text (de_type d) (de_name d) vs" by (simp add: ls_line_def ls_text_def vs_def)
  have h: "CHR 0x0D \<notin> set (hex_text m)" "nl_c \<notin> set (hex_text m)" for m by (rule digits_no(2); simp add: decimal_def ord_c_def)+
  have v: "\<forall>v \<in> set vs. nl_c \<notin> set v \<and> CHR '' '' \<notin> set v \<and> CHR 0x0D \<notin> set v" using no_cr h unfolding vs_def by simp
  have t: "CHR '' '' \<notin> set (de_type d)" "nl_c \<notin> set (de_type d)" "CHR 0x0D \<notin> set (de_type d)" using p unfolding plain_dirent_def by auto
  have n: "nl_c \<notin> set (de_name d)" "CHR 0x0D \<notin> set (de_name d)" "de_name d \<noteq> []" "list_all (\<lambda>c. \<not> is_space c) (de_name d)"
    using p by (auto simp: plain_dirent_def list_all_iff is_space_def)
  have "file_pattern (ls_line d) = Some (de_type d, de_name d, vs ! 0, vs ! 1, vs ! 2, vs ! 3, vs ! 4, vs ! 5, vs ! 6, vs ! 7)"
    unfolding l using file_pattern_text [OF t(1,2) n(3,4), of vs] v by (simp add: vs_def)
  then have "parse_file (ls_line d) = Inr (entry_obj d)" unfolding parse_file_def vs_def by (simp add: int_text_dec entry_obj_def)
  moreover have "starts ''[['' (ls_line d)" by (simp add: ls_line_def)
  moreover have "CHR 0x0D \<notin> set (ls_line d) \<and> nl_c \<notin> set (ls_line d)" using t n no_cr h unfolding ls_line_def by simp
  ultimately show ?thesis by blast
qed

lemma ls_lines:
  assumes "list_all plain_dirent ds"
  shows "splitlines (op_ls ds) = map ls_line ds" and "CHR 0x0D \<notin> set (op_ls ds)"
proof -
  show c: "CHR 0x0D \<notin> set (op_ls ds)" using assms parse_ls_line unfolding op_ls_def by (auto simp: list_all_iff)
  show "splitlines (op_ls ds) = map ls_line ds" using assms c
  proof (induction ds)
    case Nil
    then show ?case by (simp add: op_ls_def splitlines_def)
  next
    case (Cons d ds)
    have o: "op_ls (d # ds) = ls_line d @ nl_c # op_ls ds" by (simp add: op_ls_def)
    show ?case using Cons splitlines_append [of "ls_line d" "op_ls ds"] parse_ls_line [of d] unfolding o by (auto simp: split_on_free)
  qed
qed

lemma ls_back:
  assumes "list_all plain_dirent ds" "CHR 0x0D \<notin> set noise" "noise = [] \<or> last noise = nl_c" "list_all (\<lambda>l. \<not> starts ''[['' l) (splitlines noise)"
  shows "ls_files (noise @ op_ls ds) = Inr (map entry_obj ds)"
proof -
  have s: "splitlines (noise @ op_ls ds) = splitlines noise @ map ls_line ds"
    using noise_lines [OF _ assms(3), of "op_ls ds"] ls_lines [OF assms(1)] assms(2) by simp
  have f: "filter (starts ''[['') (splitlines noise) = []" using assms(4) by (auto simp: filter_empty_conv list_all_iff)
  have g: "filter (starts ''[['') (map ls_line ds) = map ls_line ds" using assms(1) parse_ls_line by (auto simp: filter_id_conv list_all_iff)
  have e: "emap_list parse_file (map ls_line ds) = Inr (map entry_obj ds)" using assms(1) parse_ls_line by (induction ds) auto
  show ?thesis unfolding ls_files_def parsefiles_def s by (simp add: f g e)
qed

subsection \<open>What the two mutators return\<close>

lemma dec_no_plus: "CHR ''+'' \<notin> set (dec_text n)"
proof -
  have "\<not> decimal (CHR ''+'')" by code_simp
  then show ?thesis by (rule digits_no(1)) simp
qed

lemma zeros_no_plus: "CHR ''+'' \<notin> set (zeros n k)"
  by (auto simp: zeros_def Let_def dec_no_plus)

lemma iso_no_plus: "iso_time off ts = Inr t \<Longrightarrow> CHR ''+'' \<notin> set t"
  by (auto simp: iso_time_def Let_def zeros_no_plus split: if_splits prod.splits)

lemma find_str_behind: "c \<notin> set t \<Longrightarrow> find_str (c # p) (t @ c # p) = Some (length t)"
  by (induction t) (auto simp: starts_append [of p "[]", simplified])

lemma fstest_time_iso: "fstest_time ts = iso_time 0 ts"
proof (cases "iso_time 0 ts")
  case (Inr t)
  have "remove_all ''+00:00'' (t @ ''+00:00'') = t"
    using find_str_behind [OF iso_no_plus [OF Inr], of "''00:00''"] by (simp add: remove_all.simps [of _ "t @ _"] remove_all.simps [of _ "[]"])
  then show ?thesis unfolding fstest_time_def Inr by simp
qed (simp add: fstest_time_def)

lemma digit_c_inj: "d < 16 \<Longrightarrow> e < 16 \<Longrightarrow> digit_c d = digit_c e \<Longrightarrow> d = e"
proof -
  have "\<forall>d \<in> set [0..<16]. \<forall>e \<in> set [0..<16]. digit_c d = digit_c e \<longrightarrow> d = e" by code_simp
  then show "d < 16 \<Longrightarrow> e < 16 \<Longrightarrow> digit_c d = digit_c e \<Longrightarrow> d = e" by simp
qed

lemma digits_inj: "2 \<le> b \<Longrightarrow> b \<le> 16 \<Longrightarrow> digits b n = digits b m \<Longrightarrow> n = m"
proof (induction b n arbitrary: m rule: digits.induct)
  case (1 b n)
  have mod16: "k mod b < 16" for k using "1.prems"(1,2) mod_less_divisor [of b k] by linarith
  consider "n < b" "m < b" | "\<not> n < b" "\<not> m < b" | "n < b" "\<not> m < b" | "\<not> n < b" "m < b" by blast
  then show ?case
  proof cases
    case 1
    then show ?thesis using "1.prems" digit_c_inj [of n m] by (simp add: digits.simps [of b n] digits.simps [of b m])
  next
    case 2
    have "digits b (n div b) = digits b (m div b)" "digit_c (n mod b) = digit_c (m mod b)"
      using "1.prems" 2 by (simp_all add: digits.simps [of b n] digits.simps [of b m])
    then have "n div b = m div b" "n mod b = m mod b" using "1.IH" [of "m div b"] "1.prems" 2 digit_c_inj mod16 by auto
    then show ?thesis by (metis div_mult_mod_eq)
  next
    case 3
    then show ?thesis using "1.prems" digits_nonempty [of b "m div b"] by (simp add: digits.simps [of b n] digits.simps [of b m])
  next
    case 4
    then show ?thesis using "1.prems" digits_nonempty [of b "n div b"] by (simp add: digits.simps [of b n] digits.simps [of b m])
  qed
qed

lemma hex_text_inj: "hex_text (int a) = hex_text (int b) \<longleftrightarrow> a = b"
  using digits_inj [of 16 a b] by (auto simp: hex_text_def)

lemma rfind_slash_last: "CHR ''/'' \<notin> set name \<Longrightarrow> rfind_slash (dir @ CHR ''/'' # name) = int (length dir)"
proof -
  assume "CHR ''/'' \<notin> set name"
  then have "takeWhile (\<lambda>c. c \<noteq> CHR ''/'') (rev name @ CHR ''/'' # rev dir) = rev name" by (subst takeWhile_append2) auto
  then show ?thesis by (simp add: rfind_slash_def)
qed

lemma filter_find: "find P xs = Some x \<Longrightarrow> \<exists>r. filter P xs = x # r"
  by (induction xs) (auto split: if_splits)

text \<open>What the test program of the kernel writes, behind the messages of the kernel.\<close>

definition ls_output :: "string \<Rightarrow> dirent list \<Rightarrow> string \<Rightarrow> bool" where
  "ls_output out ds noise = (out = noise @ op_ls ds \<and> list_all plain_dirent ds \<and> CHR 0x0D \<notin> set noise \<and> (noise = [] \<or> last noise = nl_c) \<and>
     list_all (\<lambda>l. \<not> starts ''[['' l) (splitlines noise))"

definition cat_output :: "string \<Rightarrow> string \<Rightarrow> string \<Rightarrow> string \<Rightarrow> bool" where
  "cat_output out contents noise rest = (out = noise @ op_cat contents @ rest \<and> CHR 0x0D \<notin> set (noise @ contents @ rest) \<and>
     CHR 0x00 \<notin> set contents \<and> (noise = [] \<or> last noise = nl_c) \<and> list_all (\<lambda>l. \<not> starts ''START CAT'' l) (splitlines noise) \<and>
     list_all (\<lambda>l. \<not> starts ''END CAT'' l) (split_on nl_c contents))"

lemma stat_of_entry: "stat_of (entry_obj d) = ebind (iso_time 0 (de_atime d)) (\<lambda>a. ebind (iso_time 0 (de_mtime d)) (\<lambda>m. ebind (iso_time 0 (de_ctime d)) (\<lambda>c.
     Inr \<lparr>st_mode = hex_text (int (de_mode d)), st_nlink = de_nlink d, st_uid = de_uid d, st_gid = de_gid d, st_size = de_size d,
       st_atime = a, st_mtime = m, st_ctime = c\<rparr>)))"
  by (simp add: stat_of_def entry_obj_def fstest_time_iso)

lemma ls_files_output: "ls_output out ds noise \<Longrightarrow> ls_files out = Inr (map entry_obj ds)"
  using ls_back by (simp add: ls_output_def)

lemma fstest_stat_run:
  assumes "fstest_run h img exe ''ls'' dir w = (Inr out, w')" "ls_output out ds noise" "find (\<lambda>d. de_name d = name) ds = Some d" "CHR ''/'' \<notin> set name"
  shows "fstest_stat h img exe (dir @ CHR ''/'' # name) w = (stat_of (entry_obj d), w')"
proof -
  obtain r where r: "filter (\<lambda>d. de_name d = name) ds = d # r" using filter_find [OF assms(3)] by blast
  have "filter (\<lambda>f. ls_name f = name) (map entry_obj ds) = map entry_obj (filter (\<lambda>d. de_name d = name) ds)"
    by (simp add: filter_map comp_def entry_obj_def)
  then show ?thesis using assms(1) ls_files_output [OF assms(2)] r
    by (simp add: fstest_stat_def rfind_slash_last [OF assms(4)] py_take_def nat_add_distrib)
qed

definition times_text :: "int \<Rightarrow> int \<Rightarrow> int \<Rightarrow> int \<Rightarrow> (string \<times> string \<times> string) \<Rightarrow> bool" where
  "times_text off a m c t = (iso_time off a = Inr (fst t) \<and> iso_time off m = Inr (fst (snd t)) \<and> iso_time off c = Inr (snd (snd t)))"

text \<open>C16: What the test program of the kernel prints for a file (START CAT, the content, END CAT) and for a directory (a line for each entry with a plain name) is read back by the test mutator as the content and as the list of names. What the kernel prints before must end in a newline and have no line that starts as the output does (START CAT, [[), the content has no NUL and no line that starts with END CAT, and nothing has a carriage return.\<close>

theorem fstest_reads_back:
  assumes "fstest_run h img exe ''cat'' fname w = (Inr cat, w1)" "cat_output cat contents noise rest"
    and "fstest_run h img exe ''ls'' dir w1 = (Inr ls, w2)" "ls_output ls ds noise'"
  shows "mut_read (fstest_mutator h img exe) fname w = (Inr contents, w1) \<and>
    mut_listdir (fstest_mutator h img exe) dir w1 = (Inr (map de_name ds), w2)"
proof
  have "cat_content cat = contents" using assms(2) cat_back unfolding cat_output_def by blast
  then show "mut_read (fstest_mutator h img exe) fname w = (Inr contents, w1)" using assms(1) by (simp add: fstest_mutator_def fstest_read_def)
  have "map ls_name (map entry_obj ds) = map de_name ds" by (simp add: entry_obj_def)
  then show "mut_listdir (fstest_mutator h img exe) dir w1 = (Inr (map de_name ds), w2)"
    using assms(3) ls_files_output [OF assms(4)] by (simp add: fstest_mutator_def fstest_listdir_def)
qed

definition demo_dirs :: "dirent list" where
  "demo_dirs = [\<lparr>de_type = ''DIR'', de_name = ''.'', de_nlink = 1, de_mode = 493, de_ctime = 7, de_mtime = 8, de_atime = 9, de_uid = 0, de_gid = 0, de_size = 0\<rparr>,
     \<lparr>de_type = ''FILE'', de_name = ''a'', de_nlink = 1, de_mode = 420, de_ctime = 0, de_mtime = 1400000000, de_atime = 86400, de_uid = 0, de_gid = 0,
       de_size = 2\<rparr>]"

definition demo_host :: "unit host" where
  "demo_host = \<lparr>check_output = (\<lambda>args env w. (Inr (if args ! 2 = ''cat'' then op_cat ''hi'' else op_ls demo_dirs), w)),
     file_write = (\<lambda>n c w. (Inr (), w)), file_read = (\<lambda>n w. (Inr ''hi'', w)), os_listdir = (\<lambda>n w. (Inr [''a''], w)), os_mkdir = (\<lambda>n w. (Inr (), w)),
     os_statf = (\<lambda>n w. (Inr \<lparr>os_mode = 420, os_nlink = 5, os_uid = 1000, os_gid = 0, os_size = 2, os_atime = 86400, os_mtime = 1400000000, os_ctime = 1\<rparr>, w)),
     path_exists = (\<lambda>n w. (Inr False, w)), utc_offset = 0\<rparr>"

lemma demo_ls: "ls_output (op_ls demo_dirs) demo_dirs []"
proof -
  have "list_all plain_dirent demo_dirs" by code_simp
  then show ?thesis by (simp add: ls_output_def splitlines_def)
qed

lemma demo_run: "fstest_run demo_host ''i'' ''e'' ''cat'' f w = (Inr (op_cat ''hi''), w)" "fstest_run demo_host ''i'' ''e'' ''ls'' f w = (Inr (op_ls demo_dirs), w)"
  by (simp_all add: fstest_run_def exec_cmd_def demo_host_def)

theorem fstest_reads_back_witness:
  "mut_read (fstest_mutator demo_host ''i'' ''e'') ''/d/a'' () = (Inr ''hi'', ()) \<and>
   mut_listdir (fstest_mutator demo_host ''i'' ''e'') ''/d'' () = (Inr [''.'', ''a''], ())"
proof -
  have "cat_output (op_cat ''hi'') ''hi'' [] []" by (simp add: cat_output_def splitlines_def)
  from fstest_reads_back [OF demo_run(1) this demo_run(2) demo_ls] show ?thesis by (simp add: demo_dirs_def)
qed

text \<open>C13: Comparing what the host and the kernel say of a file succeeds exactly when mode, group, size, access time and modification time agree.\<close>

theorem cross_stat_agrees:
  assumes "os_statf h (mount_path (dir @ ''/'' @ name)) w = (Inr x, w1)" "times_text (utc_offset h) (os_atime x) (os_mtime x) (os_ctime x) (a, m, c)"
    and "fstest_run h img exe ''ls'' dir w1 = (Inr out, w2)" "ls_output out ds noise" "find (\<lambda>d. de_name d = name) ds = Some d"
      "CHR ''/'' \<notin> set name" "times_text 0 (de_atime d) (de_mtime d) (de_ctime d) (a', m', c')"
  shows "cross_stat (mount_mutator h img, fstest_mutator h img exe) (Some vfat_known_inconsistencies) (dir @ ''/'' @ name) w =
    (if os_mode x = de_mode d \<and> os_gid x = de_gid d \<and> os_size x = de_size d \<and> a = a' \<and> m = m'
     then Inr \<lparr>st_mode = hex_text (int (os_mode x)), st_nlink = - 1, st_uid = 0, st_gid = os_gid x, st_size = os_size x, st_atime = a, st_mtime = m,
       st_ctime = c\<rparr>
     else Inl CrossCheckError, w2)"
proof -
  have k: "fstest_stat h img exe (dir @ CHR ''/'' # name) w1 = (stat_of (entry_obj d), w2)" by (rule fstest_stat_run [OF assms(3-6)])
  show ?thesis using assms(1,2,7) k
    by (auto simp: cross_stat_def both_def sbind_apply mount_mutator_def mount_stat_def fstest_mutator_def times_text_def stat_of_entry
      vfat_known_inconsistencies_def hex_text_inj)
qed

theorem cross_stat_agrees_witness:
  "cross_stat (mount_mutator demo_host ''i'', fstest_mutator demo_host ''i'' ''e'') (Some vfat_known_inconsistencies) ''/d/a'' () =
    (Inr \<lparr>st_mode = ''1a4'', st_nlink = - 1, st_uid = 0, st_gid = 0, st_size = 2, st_atime = ''1970-01-02T00:00:00'', st_mtime = ''2014-05-13T16:53:20'',
       st_ctime = ''1970-01-01T00:00:01''\<rparr>, ())"
proof -
  define x where "x = \<lparr>os_mode = 420, os_nlink = 5, os_uid = 1000, os_gid = 0, os_size = 2, os_atime = 86400, os_mtime = 1400000000, os_ctime = 1\<rparr>"
  define d where "d = demo_dirs ! 1"
  have s: "os_statf demo_host (mount_path (''/d'' @ ''/'' @ ''a'')) () = (Inr x, ())" by (simp add: demo_host_def x_def)
  have iso: "iso_time 0 86400 = Inr ''1970-01-02T00:00:00''" "iso_time 0 1400000000 = Inr ''2014-05-13T16:53:20''" "iso_time 0 1 = Inr ''1970-01-01T00:00:01''"
    "iso_time 0 0 = Inr ''1970-01-01T00:00:00''" by code_simp+
  have t: "times_text (utc_offset demo_host) (os_atime x) (os_mtime x) (os_ctime x) (''1970-01-02T00:00:00'', ''2014-05-13T16:53:20'', ''1970-01-01T00:00:01'')"
    "times_text 0 (de_atime d) (de_mtime d) (de_ctime d) (''1970-01-02T00:00:00'', ''2014-05-13T16:53:20'', ''1970-01-01T00:00:00'')"
    by (simp_all add: times_text_def x_def d_def demo_dirs_def demo_host_def iso)
  have f: "find (\<lambda>d. de_name d = ''a'') demo_dirs = Some d" "CHR ''/'' \<notin> set ''a''" by (simp_all add: d_def demo_dirs_def)
  have h: "hex_text (int 420) = ''1a4''" by code_simp
  show ?thesis using cross_stat_agrees [OF s t(1) demo_run(2) demo_ls f t(2)] h by (simp add: x_def d_def demo_dirs_def)
qed

lemma cross_write_fstest:
  "file_write h (mount_path fname) content w = (Inr (), w1) \<Longrightarrow>
   cross_write (mount_mutator h img, fstest_mutator h img exe) fname content w = (Inl TypeError, w1)"
  by (simp add: cross_write_def both_def sbind_apply mount_mutator_def fstest_mutator_def)

lemma cross_listdir_names:
  assumes "os_listdir h (mount_path dir) w = (Inr names, w1)" "fstest_run h img exe ''ls'' dir w1 = (Inr ls, w2)" "ls_output ls ds noise"
  shows "cross_listdir (mount_mutator h img, fstest_mutator h img exe) dir w =
    (if mset (map de_name ds) = mset (''.'' # ''..'' # names) then Inr (names @ [''.'', ''..'']) else Inl CrossCheckError, w2)"
proof -
  have r: "ls_name \<circ> entry_obj = de_name" by (rule ext) (simp add: entry_obj_def)
  have m: "sort xs = sort ys \<longleftrightarrow> mset xs = mset ys" for xs ys :: "string list" by (metis mset_sort properties_for_sort sorted_sort)
  show ?thesis using assms(1,2) ls_files_output [OF assms(3)]
    by (simp add: cross_listdir_def both_def sbind_apply mount_mutator_def fstest_mutator_def fstest_listdir_def r m)
qed

end
