(* ===== verification/FsModel.thy ===== *)
theory FsModel
  imports Fstest
begin

section \<open>The random tree of the file system test (\<open>Model\<close> of \<open>scripts/fstest.py\<close>)\<close>

text \<open>
  The nodes of the tree are objects that refer to their parent and to their children; here they are a list, a
  reference is a position in it, and position 0 is the root. \<open>random\<close> is an argument: a sequence of numbers,
  of which every choice takes the next one. The tree is built on the image through a mutator, or on none.
\<close>

record fnode =
  fn_name :: string
  fn_ty :: string
  fn_content :: "string option"
  fn_children :: "(string \<times> nat) list"
  fn_parent :: "nat option"

record fmodel =
  fm_nodes :: "fnode list"
  fm_pos :: nat

subsection \<open>Names and nodes\<close>

text \<open>\<open>fullname\<close> follows the parents; it would not return on a cycle.\<close>

partial_function (option) fullname :: "fnode list \<Rightarrow> nat \<Rightarrow> string option" where
  "fullname nodes n = (case fn_parent (nodes ! n) of
     None \<Rightarrow> Some []
   | Some p \<Rightarrow> Option.bind (fullname nodes p) (\<lambda>s. Some (join_with ''/'' [s, fn_name (nodes ! n)])))"

definition node_parts :: "string \<Rightarrow> string list" where
  "node_parts s = (let ps = split_on (CHR ''/'') s in if hd ps = [] then tl ps else ps)"

fun walk_down :: "fnode list \<Rightarrow> nat \<Rightarrow> string list \<Rightarrow> pyexc + nat" where
  "walk_down nodes n [] = Inr n"
| "walk_down nodes n (p # ps) = (case map_of (fn_children (nodes ! n)) p of None \<Rightarrow> Inl KeyError | Some k \<Rightarrow> walk_down nodes k ps)"

definition get_node :: "fnode list \<Rightarrow> string \<Rightarrow> pyexc + nat" where
  "get_node nodes s = (if s = ''/'' then Inr 0 else walk_down nodes 0 (node_parts s))"

subsection \<open>Making the tree\<close>

type_synonym ('w, 'a) fsm = "(fmodel \<times> 'w, 'a) st"

definition choice :: "(nat \<Rightarrow> nat) \<Rightarrow> 'a list \<Rightarrow> ('w, 'a) fsm" where
  "choice rnd xs = (\<lambda>(f, w). if xs = [] then (Inl IndexError, (f, w))
     else (Inr (xs ! (rnd (fm_pos f) mod length xs)), (f\<lparr>fm_pos := fm_pos f + 1\<rparr>, w)))"

definition letters :: string where
  "letters = ''abcdefghijklmnopqrstuvwxyzABCDEFGHIJKLMNOPQRSTUVWXYZ''"

fun randstr :: "(nat \<Rightarrow> nat) \<Rightarrow> nat \<Rightarrow> ('w, string) fsm" where
  "randstr rnd 0 = sret []"
| "randstr rnd (Suc n) = sbind (choice rnd letters) (\<lambda>c. sbind (randstr rnd n) (\<lambda>s. sret (c # s)))"

definition on_image :: "('w, 'a) st \<Rightarrow> ('w, 'a) fsm" where
  "on_image m = (\<lambda>(f, w). case m w of (r, w') \<Rightarrow> (r, (f, w')))"

text \<open>\<open>self.get_node(basedir).children[s] = Node(s, ty, self.get_node(basedir), content)\<close>\<close>

definition link_node :: "string \<Rightarrow> string \<Rightarrow> string \<Rightarrow> string option \<Rightarrow> ('w, unit) fsm" where
  "link_node basedir s ty content = (\<lambda>(f, w). case get_node (fm_nodes f) basedir of
     Inl e \<Rightarrow> (Inl e, (f, w))
   | Inr p \<Rightarrow> (let nodes = fm_nodes f; n = length nodes;
         new = \<lparr>fn_name = s, fn_ty = ty, fn_content = content, fn_children = [], fn_parent = Some p\<rparr>
       in (Inr (), (f\<lparr>fm_nodes := nodes[p := (nodes ! p)\<lparr>fn_children := dict_set s n (fn_children (nodes ! p))\<rparr>] @ [new]\<rparr>, w))))"

definition make_file :: "(nat \<Rightarrow> nat) \<Rightarrow> 'w mutator option \<Rightarrow> string \<Rightarrow> nat \<Rightarrow> ('w, string) fsm" where
  "make_file rnd m basedir contentlen = sbind (randstr rnd 10) (\<lambda>s. sbind (randstr rnd contentlen) (\<lambda>c.
     sbind (case m of None \<Rightarrow> sret () | Some m \<Rightarrow> on_image (mut_write m (path_join basedir s) c)) (\<lambda>_.
     sbind (link_node basedir s ''file'' (Some c)) (\<lambda>_. sret (path_join basedir s)))))"

definition make_dir :: "(nat \<Rightarrow> nat) \<Rightarrow> 'w mutator option \<Rightarrow> string \<Rightarrow> ('w, string) fsm" where
  "make_dir rnd m basedir = sbind (randstr rnd 10) (\<lambda>s.
     sbind (case m of None \<Rightarrow> sret () | Some m \<Rightarrow> on_image (mut_mkdir m (path_join basedir s))) (\<lambda>_.
     sbind (link_node basedir s ''dir'' None) (\<lambda>_. sret (path_join basedir s))))"

fun make_n_dirs :: "(nat \<Rightarrow> nat) \<Rightarrow> 'w mutator option \<Rightarrow> nat \<Rightarrow> string \<Rightarrow> ('w, string list) fsm" where
  "make_n_dirs rnd m 0 basedir = sret []"
| "make_n_dirs rnd m (Suc n) basedir = sbind (make_dir rnd m basedir) (\<lambda>d. sbind (make_n_dirs rnd m n basedir) (\<lambda>ds. sret (d # ds)))"

fun make_random :: "(nat \<Rightarrow> nat) \<Rightarrow> 'w mutator option \<Rightarrow> nat \<Rightarrow> string list \<Rightarrow> ('w, unit) fsm" where
  "make_random rnd m 0 ds = sret ()"
| "make_random rnd m (Suc n) ds = sbind (choice rnd [''dir'', ''file'', ''file'']) (\<lambda>ty. sbind (choice rnd ds) (\<lambda>base.
     if ty = ''dir'' then sbind (make_dir rnd m base) (\<lambda>d. make_random rnd m n (ds @ [d]))
     else sbind (make_file rnd m base 1064) (\<lambda>_. make_random rnd m n ds)))"

definition root_node :: fnode where
  "root_node = \<lparr>fn_name = ''<root>'', fn_ty = ''dir'', fn_content = None, fn_children = [], fn_parent = None\<rparr>"

definition make_model :: "(nat \<Rightarrow> nat) \<Rightarrow> 'w mutator option \<Rightarrow> ('w, unit) fsm" where
  "make_model rnd m = sbind (make_dir rnd m ''/'') (\<lambda>d. sbind (make_n_dirs rnd m 20 d) (\<lambda>_.
     sbind (make_n_dirs rnd m 10 ''/'') (\<lambda>ds. make_random rnd m 100 ds)))"

definition model_init :: "(nat \<Rightarrow> nat) \<Rightarrow> 'w mutator option \<Rightarrow> 'w \<Rightarrow> (pyexc + unit) \<times> fmodel \<times> 'w" where
  "model_init rnd m w = make_model rnd m (\<lparr>fm_nodes = [root_node], fm_pos = 0\<rparr>, w)"

subsection \<open>Walking the tree\<close>

text \<open>\<open>children.values()\<close> comes in the order of the dictionary, an argument: \<open>vals\<close>.\<close>

fun swalk :: "nat \<Rightarrow> ((string \<times> nat) list \<Rightarrow> nat list) \<Rightarrow> (string \<Rightarrow> string \<Rightarrow> ('w, unit) st) \<Rightarrow> fnode list \<Rightarrow> nat \<Rightarrow> ('w, unit) st" where
  "swalk 0 vals fn nodes n = sraise NoFuel"
| "swalk (Suc k) vals fn nodes n = (case fullname nodes n of
     None \<Rightarrow> sraise NoFuel
   | Some name \<Rightarrow> sbind (fn (fn_ty (nodes ! n)) name) (\<lambda>_.
       if fn_ty (nodes ! n) = ''dir'' then foldr (\<lambda>c rest. sbind (swalk k vals fn nodes c) (\<lambda>_. rest)) (vals (fn_children (nodes ! n))) (sret ())
       else sret ()))"

text \<open>The main program: the tree is made on the mounted image, then every node of it is checked.\<close>

definition node_content :: "fnode list \<Rightarrow> string \<Rightarrow> pyexc + string option" where
  "node_content nodes name = ebind (get_node nodes name) (\<lambda>n. Inr (fn_content (nodes ! n)))"

definition fstest_main :: "'w host \<Rightarrow> (nat \<Rightarrow> nat) \<Rightarrow> nat \<Rightarrow> ((string \<times> nat) list \<Rightarrow> nat list) \<Rightarrow> ('w, unit) st" where
  "fstest_main h rnd fuel vals = (let img = ''test2.img''; m = mount_mutator h img; fstm = fstest_mutator h img ''./build/examples/fstest''
     in sbind (path_exists h img) (\<lambda>e. if e then sraise TypeError else sbind (mkimg h img (1024 * 1024 * 256)) (\<lambda>_. sbind (mut_start m) (\<lambda>_.
        sbind (try_finally (\<lambda>w. case model_init rnd (Some m) w of (r, f, w') \<Rightarrow> (map_sum id (\<lambda>_. f) r, w')) (mut_stop m)) (\<lambda>f.
          swalk fuel vals (walk_check (m, fstm) (node_content (fm_nodes f))) (fm_nodes f) 0)))))"

lemma set_dict_set: "set (dict_set k v xs) \<subseteq> insert (k, v) (set xs)"
  by (induction k v xs rule: dict_set.induct) auto

subsection \<open>The tree is well formed\<close>

definition child_ok :: "fnode list \<Rightarrow> nat \<Rightarrow> string \<times> nat \<Rightarrow> bool" where
  "child_ok nodes i c = (i < snd c \<and> snd c < length nodes \<and> fn_name (nodes ! snd c) = fst c \<and> fn_parent (nodes ! snd c) = Some i \<and>
     fst c \<noteq> [] \<and> CHR ''/'' \<notin> set (fst c))"

definition node_ok :: "fnode list \<Rightarrow> nat \<Rightarrow> bool" where
  "node_ok nodes i = ((case fn_parent (nodes ! i) of None \<Rightarrow> i = 0 | Some p \<Rightarrow> p < i) \<and> distinct (map fst (fn_children (nodes ! i))) \<and>
     list_all (child_ok nodes i) (fn_children (nodes ! i)))"

definition tree_ok :: "fnode list \<Rightarrow> bool" where
  "tree_ok nodes = (nodes \<noteq> [] \<and> fn_parent (nodes ! 0) = None \<and> list_all (node_ok nodes) [0..<length nodes])"

lemma tree_node: "tree_ok nodes \<Longrightarrow> i < length nodes \<Longrightarrow> node_ok nodes i"
  by (auto simp: tree_ok_def list_all_iff)

lemma tree_child: "tree_ok nodes \<Longrightarrow> i < length nodes \<Longrightarrow> (k, j) \<in> set (fn_children (nodes ! i)) \<Longrightarrow> child_ok nodes i (k, j)"
  using tree_node [of nodes i] by (auto simp: node_ok_def list_all_iff)

lemma walk_down_len: "tree_ok nodes \<Longrightarrow> n < length nodes \<Longrightarrow> walk_down nodes n ps = Inr i \<Longrightarrow> i < length nodes"
proof (induction ps arbitrary: n)
  case (Cons p ps)
  then show ?case using tree_child [of nodes n p] by (auto split: option.splits dest!: map_of_SomeD simp: child_ok_def)
qed auto

lemma get_node_len: "tree_ok nodes \<Longrightarrow> get_node nodes s = Inr i \<Longrightarrow> i < length nodes"
  using walk_down_len [of nodes 0] by (auto simp: get_node_def tree_ok_def split: if_splits)

definition new_node :: "fnode list \<Rightarrow> nat \<Rightarrow> fnode \<Rightarrow> fnode list" where
  "new_node nodes p new = nodes[p := (nodes ! p)\<lparr>fn_children := dict_set (fn_name new) (length nodes) (fn_children (nodes ! p))\<rparr>] @ [new]"

lemma tree_new_node:
  assumes ok: "tree_ok nodes" and p: "p < length nodes" and new: "fn_parent new = Some p" "fn_children new = []" "fn_name new \<noteq> []" "CHR ''/'' \<notin> set (fn_name new)"
  shows "tree_ok (new_node nodes p new)"
proof -
  let ?ns = "new_node nodes p new"
  have len: "length ?ns = Suc (length nodes)" by (simp add: new_node_def)
  have par: "fn_parent (?ns ! i) = fn_parent (nodes ! i)" "fn_name (?ns ! i) = fn_name (nodes ! i)" if "i < length nodes" for i
    using that p by (cases "i = p"; simp add: new_node_def nth_append)+
  have ch: "fn_children (?ns ! i) = (if i = p then dict_set (fn_name new) (length nodes) (fn_children (nodes ! i)) else fn_children (nodes ! i))"
    if "i < length nodes" for i using that p by (cases "i = p"; simp add: new_node_def nth_append)
  have last: "?ns ! length nodes = new" by (simp add: new_node_def nth_append)
  have old: "child_ok nodes i c \<Longrightarrow> child_ok ?ns i c" for i c using par by (auto simp: child_ok_def len)
  have fresh: "child_ok ?ns p (fn_name new, length nodes)" using p new last by (auto simp: child_ok_def len)
  have "node_ok ?ns i" if i: "i < length nodes" for i
  proof -
    have n: "node_ok nodes i" by (rule tree_node [OF ok i])
    have "list_all (child_ok ?ns i) (fn_children (?ns ! i))"
      unfolding list_all_iff
    proof
      fix c
      assume "c \<in> set (fn_children (?ns ! i))"
      then consider "i = p" "c = (fn_name new, length nodes)" | "c \<in> set (fn_children (nodes ! i))"
        using ch [OF i] set_dict_set [of "fn_name new" "length nodes" "fn_children (nodes ! i)"] by (cases "i = p") auto
      then show "child_ok ?ns i c" using fresh n old by cases (simp_all add: node_ok_def list_all_iff)
    qed
    moreover have "distinct (map fst (fn_children (?ns ! i)))" using n ch [OF i] distinct_dict_set [of "fn_children (nodes ! i)"] by (cases "i = p") (simp_all add: node_ok_def)
    ultimately show ?thesis using n par [OF i] by (simp add: node_ok_def)
  qed
  moreover have "node_ok ?ns (length nodes)" using p new by (simp add: node_ok_def last)
  ultimately have "list_all (node_ok ?ns) [0..<length ?ns]" by (auto simp: len list_all_iff less_Suc_eq)
  moreover have "fn_parent (?ns ! 0) = None" using ok par [of 0] by (simp add: tree_ok_def)
  ultimately show ?thesis by (simp add: tree_ok_def new_node_def)
qed

definition keeps_tree :: "('w, 'a) fsm \<Rightarrow> bool" where
  "keeps_tree m = (\<forall>f w. tree_ok (fm_nodes f) \<longrightarrow> tree_ok (fm_nodes (fst (snd (m (f, w))))))"

lemma keeps_sret: "keeps_tree (sret x)"
  by (simp add: keeps_tree_def)

lemma keeps_then: "keeps_tree m \<Longrightarrow> (\<And>x. keeps_tree (k x)) \<Longrightarrow> keeps_tree (sbind m k)"
  unfolding keeps_tree_def sbind_apply by (auto split: prod.split sum.split) (metis fst_conv snd_conv)+

lemma keeps_choice: "keeps_tree (choice rnd xs)"
  by (simp add: keeps_tree_def choice_def)

lemma keeps_image: "keeps_tree (on_image m)"
  by (simp add: keeps_tree_def on_image_def split: prod.split)

lemma randstr_ok: "randstr rnd n (f, w) = (r, f', w') \<Longrightarrow> \<exists>s. r = Inr s \<and> length s = n \<and> set s \<subseteq> set letters \<and> fm_nodes f' = fm_nodes f \<and> w' = w"
proof (induction n arbitrary: f w r f' w')
  case (Suc n)
  define f1 where "f1 = f\<lparr>fm_pos := fm_pos f + 1\<rparr>"
  define c where "c = letters ! (rnd (fm_pos f) mod length letters)"
  have l: "0 < length letters" by (simp add: letters_def)
  have c: "choice rnd letters (f, w) = (Inr c, f1, w)" using l by (simp add: choice_def f1_def c_def)
  have in_l: "c \<in> set letters" using l by (simp add: c_def)
  obtain r2 f2 w2 where r: "randstr rnd n (f1, w) = (r2, f2, w2)" by (metis prod.exhaust)
  from Suc.IH [OF r] obtain s where s: "r2 = Inr s" "length s = n" "set s \<subseteq> set letters" "fm_nodes f2 = fm_nodes f" "w2 = w" by (auto simp: f1_def)
  show ?case using Suc.prems s in_l r c by (auto simp: sbind_apply)
qed auto

lemma keeps_randstr:
  assumes "\<And>s. length s = n \<Longrightarrow> set s \<subseteq> set letters \<Longrightarrow> keeps_tree (k s)"
  shows "keeps_tree (sbind (randstr rnd n) k)"
  unfolding keeps_tree_def
proof (intro allI impI)
  fix f :: fmodel and w :: 'a
  assume ok: "tree_ok (fm_nodes f)"
  obtain r f1 w1 where r: "randstr rnd n (f, w) = (r, f1, w1)" by (metis prod.exhaust)
  from randstr_ok [OF r] obtain s where s: "r = Inr s" "length s = n" "set s \<subseteq> set letters" "fm_nodes f1 = fm_nodes f" by blast
  show "tree_ok (fm_nodes (fst (snd (sbind (randstr rnd n) k (f, w)))))"
    using assms [OF s(2,3)] ok s(4) unfolding keeps_tree_def by (simp add: sbind_apply r s(1))
qed

lemma keeps_link_node: "s \<noteq> [] \<Longrightarrow> CHR ''/'' \<notin> set s \<Longrightarrow> keeps_tree (link_node basedir s ty content)"
proof -
  assume s: "s \<noteq> []" "CHR ''/'' \<notin> set s"
  have "tree_ok (new_node nodes p \<lparr>fn_name = s, fn_ty = ty, fn_content = content, fn_children = [], fn_parent = Some p\<rparr>)"
    if "tree_ok nodes" "get_node nodes basedir = Inr p" for nodes p
    by (rule tree_new_node [OF that(1) get_node_len [OF that]]) (use s in simp_all)
  then show ?thesis by (simp add: keeps_tree_def link_node_def Let_def new_node_def split: sum.split)
qed

lemma letters_name: "length s = 10 \<Longrightarrow> set s \<subseteq> set letters \<Longrightarrow> s \<noteq> [] \<and> CHR ''/'' \<notin> set s"
  by (auto simp: letters_def)

lemma keeps_make_dir: "keeps_tree (make_dir rnd m basedir)"
  unfolding make_dir_def by (intro keeps_randstr keeps_then keeps_link_node keeps_sret) (auto simp: keeps_sret keeps_image letters_name split: option.split)

lemma keeps_make_file: "keeps_tree (make_file rnd m basedir n)"
  unfolding make_file_def by (intro keeps_randstr keeps_then keeps_link_node keeps_sret) (auto simp: keeps_sret keeps_image letters_name split: option.split)

lemma keeps_make_n_dirs: "keeps_tree (make_n_dirs rnd m n basedir)"
proof (induction n)
  case 0
  show ?case unfolding make_n_dirs.simps by (rule keeps_sret)
next
  case (Suc n)
  show ?case unfolding make_n_dirs.simps by (intro keeps_then keeps_sret keeps_make_dir Suc.IH)
qed

lemma keeps_make_random: "keeps_tree (make_random rnd m n ds)"
proof (induction n arbitrary: ds)
  case 0
  show ?case unfolding make_random.simps by (rule keeps_sret)
next
  case (Suc n)
  have d: "keeps_tree (sbind (make_dir rnd m b) (\<lambda>d. make_random rnd m n (ds @ [d])))" for b by (intro keeps_then keeps_make_dir Suc.IH)
  have f: "keeps_tree (sbind (make_file rnd m b 1064) (\<lambda>_. make_random rnd m n ds))" for b by (intro keeps_then keeps_make_file Suc.IH)
  show ?case unfolding make_random.simps by (intro keeps_then keeps_choice) (simp add: d f)
qed

lemma make_model_tree: "tree_ok (fm_nodes (fst (snd (model_init rnd m w))))"
proof -
  have "keeps_tree (make_model rnd m)" unfolding make_model_def by (intro keeps_then keeps_make_dir keeps_make_n_dirs keeps_make_random)
  moreover have "tree_ok [root_node]" by (simp add: tree_ok_def node_ok_def root_node_def)
  ultimately show ?thesis by (simp add: keeps_tree_def model_init_def)
qed

subsection \<open>Full names are paths\<close>

definition path_text :: "string list \<Rightarrow> string" where
  "path_text ps = concat (map (\<lambda>p. CHR ''/'' # p) ps)"

lemma fullname_child: "fn_parent (nodes ! j) = Some i \<Longrightarrow> fullname nodes i = Some t \<Longrightarrow> fullname nodes j = Some (t @ CHR ''/'' # fn_name (nodes ! j))"
  by (subst fullname.simps) simp

lemma fullname_root: "tree_ok nodes \<Longrightarrow> fullname nodes 0 = Some []"
  by (subst fullname.simps) (simp add: tree_ok_def)

lemma walk_down_name:
  "tree_ok nodes \<Longrightarrow> n < length nodes \<Longrightarrow> walk_down nodes n ps = Inr i \<Longrightarrow> fullname nodes n = Some t \<Longrightarrow>
   fullname nodes i = Some (t @ path_text ps) \<and> list_all (\<lambda>p. p \<noteq> [] \<and> CHR ''/'' \<notin> set p) ps"
proof (induction ps arbitrary: n t)
  case (Cons p ps)
  obtain j where j: "map_of (fn_children (nodes ! n)) p = Some j" "walk_down nodes j ps = Inr i" using Cons.prems(3) by (auto split: option.splits)
  have c: "child_ok nodes n (p, j)" by (rule tree_child [OF Cons.prems(1,2) map_of_SomeD [OF j(1)]])
  then have f: "fullname nodes j = Some (t @ CHR ''/'' # p)" using fullname_child [of nodes j n t] Cons.prems(4) by (simp add: child_ok_def)
  show ?case using Cons.IH [OF Cons.prems(1) _ j(2) f] c by (simp add: child_ok_def path_text_def)
qed (simp add: path_text_def)

lemma path_text_join: "ps \<noteq> [] \<Longrightarrow> path_text ps = join_with ''/'' ([] # ps)"
proof -
  have "ps \<noteq> [] \<Longrightarrow> CHR ''/'' # join_with ''/'' ps = path_text ps" for ps
    by (induction "''/''" ps rule: join_with.induct) (auto simp: path_text_def)
  then show "ps \<noteq> [] \<Longrightarrow> path_text ps = join_with ''/'' ([] # ps)" by (cases ps) auto
qed

lemma node_parts_path: "list_all (\<lambda>p. p \<noteq> [] \<and> CHR ''/'' \<notin> set p) ps \<Longrightarrow> node_parts (path_text ps) = ps"
proof (cases "ps = []")
  case False
  assume "list_all (\<lambda>p. p \<noteq> [] \<and> CHR ''/'' \<notin> set p) ps"
  then have "split_on (CHR ''/'') (join_with ''/'' ([] # ps)) = [] # ps" by (intro split_on_join) (auto simp: list_all_iff)
  then show ?thesis using path_text_join [OF False] by (simp add: node_parts_def)
qed (simp add: node_parts_def path_text_def)

lemma get_node_path: "list_all (\<lambda>p. p \<noteq> [] \<and> CHR ''/'' \<notin> set p) ps \<Longrightarrow> get_node nodes (path_text ps) = walk_down nodes 0 ps"
proof -
  assume ps: "list_all (\<lambda>p. p \<noteq> [] \<and> CHR ''/'' \<notin> set p) ps"
  have "path_text ps \<noteq> ''/''" using ps by (cases ps) (auto simp: path_text_def)
  then show ?thesis by (simp add: get_node_def node_parts_path [OF ps])
qed

definition parts_of :: "string \<Rightarrow> string list" where
  "parts_of s = (if s = ''/'' then [] else node_parts s)"

lemma get_node_name:
  assumes "tree_ok nodes" "get_node nodes s = Inr i"
  shows "fullname nodes i = Some (path_text (parts_of s)) \<and> get_node nodes (path_text (parts_of s)) = Inr i"
proof -
  have w: "walk_down nodes 0 (parts_of s) = Inr i" using assms(2) by (auto simp: get_node_def parts_of_def split: if_splits)
  have "0 < length nodes" using assms(1) by (simp add: tree_ok_def)
  from walk_down_name [OF assms(1) this w fullname_root [OF assms(1)]] show ?thesis using w get_node_path [of "parts_of s"] by simp
qed

lemma fullname_total: "tree_ok nodes \<Longrightarrow> i < length nodes \<Longrightarrow> fullname nodes i \<noteq> None"
proof (induction i rule: less_induct)
  case (less i)
  show ?case
  proof (cases "fn_parent (nodes ! i)")
    case None
    then show ?thesis by (subst fullname.simps) simp
  next
    case (Some p)
    then have "p < i" using tree_node [OF less.prems] by (simp add: node_ok_def)
    then have "fullname nodes p \<noteq> None" using less by simp
    then show ?thesis using fullname_child [OF Some] by auto
  qed
qed

subsection \<open>Walking visits every node once\<close>

inductive in_tree :: "fnode list \<Rightarrow> nat \<Rightarrow> nat \<Rightarrow> bool" where
  here: "in_tree nodes n n"
| there: "in_tree nodes n i \<Longrightarrow> fn_ty (nodes ! i) = ''dir'' \<Longrightarrow> (k, j) \<in> set (fn_children (nodes ! i)) \<Longrightarrow> in_tree nodes n j"

fun walk_list :: "nat \<Rightarrow> ((string \<times> nat) list \<Rightarrow> nat list) \<Rightarrow> fnode list \<Rightarrow> nat \<Rightarrow> nat list" where
  "walk_list 0 vals nodes n = []"
| "walk_list (Suc k) vals nodes n = n # (if fn_ty (nodes ! n) = ''dir'' then concat (map (walk_list k vals nodes) (vals (fn_children (nodes ! n)))) else [])"

definition run_all :: "('w, unit) st list \<Rightarrow> ('w, unit) st" where
  "run_all ms = foldr (\<lambda>m rest. sbind m (\<lambda>_. rest)) ms (sret ())"

lemma run_all_Cons: "run_all (m # ms) = sbind m (\<lambda>_. run_all ms)"
  by (simp add: run_all_def)

lemma run_all_append: "run_all (ms @ ns) = sbind (run_all ms) (\<lambda>_. run_all ns)"
  by (induction ms) (simp_all add: run_all_def sbind_sret sbind_assoc)

lemma run_all_concat: "run_all (concat mss) = run_all (map run_all mss)"
proof (induction mss)
  case (Cons ms mss)
  then show ?case by (simp add: run_all_append run_all_Cons)
qed (simp add: run_all_def)

definition vals_ok :: "((string \<times> nat) list \<Rightarrow> nat list) \<Rightarrow> bool" where
  "vals_ok vals = (\<forall>ch. mset (vals ch) = mset (map snd ch))"

lemma vals_set: "vals_ok vals \<Longrightarrow> set (vals ch) = snd ` set ch"
  unfolding vals_ok_def by (metis mset_eq_setD list.set_map)

lemma in_tree_len: "in_tree nodes n i \<Longrightarrow> tree_ok nodes \<Longrightarrow> n < length nodes \<Longrightarrow> i < length nodes \<and> n \<le> i"
proof (induction rule: in_tree.induct)
  case (there nodes n i k j)
  then show ?case using tree_child [of nodes i k j] by (auto simp: child_ok_def)
qed simp

lemma swalk_run:
  "tree_ok nodes \<Longrightarrow> n < length nodes \<Longrightarrow> vals_ok vals \<Longrightarrow> length nodes - n \<le> fuel \<Longrightarrow>
   swalk fuel vals fn nodes n = run_all (map (\<lambda>i. fn (fn_ty (nodes ! i)) (the (fullname nodes i))) (walk_list fuel vals nodes n))"
proof (induction fuel arbitrary: n)
  case (Suc fuel)
  let ?call = "\<lambda>i. fn (fn_ty (nodes ! i)) (the (fullname nodes i))"
  let ?cs = "vals (fn_children (nodes ! n))"
  obtain name where name: "fullname nodes n = Some name" using fullname_total [OF Suc.prems(1,2)] by auto
  have "swalk fuel vals fn nodes c = run_all (map ?call (walk_list fuel vals nodes c))" if c: "c \<in> set ?cs" for c
  proof -
    obtain k where "(k, c) \<in> set (fn_children (nodes ! n))" using c unfolding vals_set [OF Suc.prems(3)] by auto
    from tree_child [OF Suc.prems(1,2) this] have "n < c" "c < length nodes" by (simp_all add: child_ok_def)
    then show ?thesis using Suc.IH [OF Suc.prems(1) _ Suc.prems(3), of c] Suc.prems(4) by simp
  qed
  then have m: "map (swalk fuel vals fn nodes) ?cs = map (\<lambda>c. run_all (map ?call (walk_list fuel vals nodes c))) ?cs" by simp
  have "foldr (\<lambda>c rest. sbind (swalk fuel vals fn nodes c) (\<lambda>_. rest)) ?cs (sret ()) = run_all (map (swalk fuel vals fn nodes) ?cs)"
    by (simp add: run_all_def foldr_map comp_def)
  also have "\<dots> = run_all (concat (map (\<lambda>c. map ?call (walk_list fuel vals nodes c)) ?cs))" unfolding m run_all_concat by (simp add: comp_def)
  also have "\<dots> = run_all (map ?call (concat (map (walk_list fuel vals nodes) ?cs)))" by (simp add: map_concat comp_def)
  finally show ?case using name by (simp add: run_all_Cons) (simp add: run_all_def)
qed simp

lemma in_tree_step: "in_tree nodes c i \<Longrightarrow> fn_ty (nodes ! n) = ''dir'' \<Longrightarrow> (k, c) \<in> set (fn_children (nodes ! n)) \<Longrightarrow> in_tree nodes n i"
  by (induction rule: in_tree.induct) (auto intro: in_tree.intros)

lemma in_tree_first: "in_tree nodes n i \<Longrightarrow> i = n \<or> fn_ty (nodes ! n) = ''dir'' \<and> (\<exists>k c. (k, c) \<in> set (fn_children (nodes ! n)) \<and> in_tree nodes c i)"
  by (induction rule: in_tree.induct) (blast intro: in_tree.intros)+

lemma in_tree_linear: "in_tree nodes a i \<Longrightarrow> in_tree nodes b i \<Longrightarrow> tree_ok nodes \<Longrightarrow> a < length nodes \<Longrightarrow> b < length nodes \<Longrightarrow> in_tree nodes a b \<or> in_tree nodes b a"
proof (induction rule: in_tree.induct)
  case (there nodes a i k j)
  from there.prems(1) show ?case
  proof cases
    case here
    then show ?thesis using there.hyps by (blast intro: in_tree.there)
  next
    case (there i' k')
    have "i < length nodes" "i' < length nodes"
      using in_tree_len \<open>in_tree nodes a i\<close> \<open>in_tree nodes b i'\<close> \<open>tree_ok nodes\<close> \<open>a < length nodes\<close> \<open>b < length nodes\<close> by blast+
    then have "i' = i" using tree_child [OF \<open>tree_ok nodes\<close> _ \<open>(k, j) \<in> set (fn_children (nodes ! i))\<close>]
        tree_child [OF \<open>tree_ok nodes\<close> _ \<open>(k', j) \<in> set (fn_children (nodes ! i'))\<close>] by (simp add: child_ok_def)
    then show ?thesis using there \<open>in_tree nodes b i \<Longrightarrow> tree_ok nodes \<Longrightarrow> a < length nodes \<Longrightarrow> b < length nodes \<Longrightarrow> in_tree nodes a b \<or> in_tree nodes b a\<close>
        \<open>tree_ok nodes\<close> \<open>a < length nodes\<close> \<open>b < length nodes\<close> by blast
  qed
qed simp

lemma siblings_apart:
  assumes "tree_ok nodes" "n < length nodes" "(k, c) \<in> set (fn_children (nodes ! n))" "(l, d) \<in> set (fn_children (nodes ! n))" "c \<noteq> d"
    "in_tree nodes c i" "in_tree nodes d i"
  shows False
proof -
  have c: "child_ok nodes n (k, c)" "child_ok nodes n (l, d)" by (rule tree_child [OF assms(1,2)] assms)+
  have up: False if ab: "in_tree nodes a b" "a \<noteq> b" "fn_parent (nodes ! b) = Some n" "n < a" "a < length nodes" for a b
    using ab(1)
  proof cases
    case (there j m)
    have "j < length nodes \<and> a \<le> j" using in_tree_len [OF there(1) assms(1) ab(5)] .
    then have "fn_parent (nodes ! b) = Some j" using tree_child [OF assms(1) _ there(3)] by (simp add: child_ok_def)
    then show False using ab \<open>j < length nodes \<and> a \<le> j\<close> by simp
  qed (use ab in simp)
  have "in_tree nodes c d \<or> in_tree nodes d c" using in_tree_linear [OF assms(6,7,1)] c by (simp add: child_ok_def)
  then show False using up [of c d] up [of d c] c assms(5) by (auto simp: child_ok_def)
qed

lemma distinct_concat_map:
  "distinct xs \<Longrightarrow> (\<And>x. x \<in> set xs \<Longrightarrow> distinct (f x)) \<Longrightarrow>
   (\<And>x y z. x \<in> set xs \<Longrightarrow> y \<in> set xs \<Longrightarrow> x \<noteq> y \<Longrightarrow> z \<in> set (f x) \<Longrightarrow> z \<in> set (f y) \<Longrightarrow> False) \<Longrightarrow> distinct (concat (map f xs))"
proof (induction xs)
  case (Cons x xs)
  have "distinct (concat (map f xs))" using Cons.IH Cons.prems by (meson distinct.simps(2) list.set_intros(2))
  moreover have "set (f x) \<inter> set (concat (map f xs)) = {}" using Cons.prems(1,3) by fastforce
  ultimately show ?case using Cons.prems(2) by simp
qed simp

lemma walk_list_set:
  "tree_ok nodes \<Longrightarrow> n < length nodes \<Longrightarrow> vals_ok vals \<Longrightarrow> length nodes - n \<le> fuel \<Longrightarrow>
   set (walk_list fuel vals nodes n) = {i. in_tree nodes n i} \<and> distinct (walk_list fuel vals nodes n)"
proof (induction fuel arbitrary: n)
  case (Suc fuel)
  let ?ch = "fn_children (nodes ! n)"
  have child: "child_ok nodes n (k, c)" if "(k, c) \<in> set ?ch" for k c by (rule tree_child [OF Suc.prems(1,2) that])
  have IH: "set (walk_list fuel vals nodes c) = {i. in_tree nodes c i} \<and> distinct (walk_list fuel vals nodes c)" if "(k, c) \<in> set ?ch" for k c
  proof -
    have c: "n < c" "c < length nodes" using child [OF that] by (simp_all add: child_ok_def)
    then have "length nodes - c \<le> fuel" using Suc.prems(4) by linarith
    then show ?thesis using Suc.IH [OF Suc.prems(1) c(2) Suc.prems(3)] by blast
  qed
  show ?case
  proof (cases "fn_ty (nodes ! n) = ''dir''")
    case False
    then have "in_tree nodes n i \<longleftrightarrow> i = n" for i using in_tree_first [of nodes n i] in_tree.here by blast
    then show ?thesis using False by simp
  next
    case True
    have s: "set (walk_list (Suc fuel) vals nodes n) = insert n (\<Union>(k, c) \<in> set ?ch. {i. in_tree nodes c i})"
      using True IH by (force simp: vals_set [OF Suc.prems(3)])
    have "insert n (\<Union>(k, c) \<in> set ?ch. {i. in_tree nodes c i}) = {i. in_tree nodes n i}"
    proof (rule set_eqI)
      fix i
      have "in_tree nodes n i" if "(k, c) \<in> set ?ch" "in_tree nodes c i" for k c by (rule in_tree_step [OF that(2) True that(1)])
      then show "i \<in> insert n (\<Union>(k, c) \<in> set ?ch. {i. in_tree nodes c i}) \<longleftrightarrow> i \<in> {i. in_tree nodes n i}"
        using in_tree_first [of nodes n i] in_tree.here [of nodes n] by fast
    qed
    moreover have "distinct (map snd ?ch)"
    proof -
      have "map fst ?ch = map (\<lambda>j. fn_name (nodes ! j)) (map snd ?ch)" using child by (auto simp: child_ok_def)
      moreover have "distinct (map fst ?ch)" using tree_node [OF Suc.prems(1,2)] by (simp add: node_ok_def)
      ultimately show ?thesis by (simp only: distinct_map)
    qed
    then have "distinct (vals ?ch)" using Suc.prems(3) unfolding vals_ok_def by (metis mset_eq_imp_distinct_iff)
    then have "distinct (concat (map (walk_list fuel vals nodes) (vals ?ch)))"
    proof (rule distinct_concat_map)
      fix c
      assume "c \<in> set (vals ?ch)"
      then show "distinct (walk_list fuel vals nodes c)" using IH unfolding vals_set [OF Suc.prems(3)] by auto
    next
      fix c d i
      assume cd: "c \<in> set (vals ?ch)" "d \<in> set (vals ?ch)" "c \<noteq> d" "i \<in> set (walk_list fuel vals nodes c)" "i \<in> set (walk_list fuel vals nodes d)"
      obtain k l where kl: "(k, c) \<in> set ?ch" "(l, d) \<in> set ?ch" using cd(1,2) unfolding vals_set [OF Suc.prems(3)] by auto
      have "in_tree nodes c i" "in_tree nodes d i" using IH [OF kl(1)] IH [OF kl(2)] cd(4,5) by blast+
      then show False by (rule siblings_apart [OF Suc.prems(1,2) kl cd(3)])
    qed
    moreover have "n \<notin> set (concat (map (walk_list fuel vals nodes) (vals ?ch)))"
    proof
      assume "n \<in> set (concat (map (walk_list fuel vals nodes) (vals ?ch)))"
      then obtain k c where c: "(k, c) \<in> set ?ch" "n \<in> set (walk_list fuel vals nodes c)" using vals_set [OF Suc.prems(3)] by auto
      then have "in_tree nodes c n" using IH by blast
      then show False using in_tree_len [of nodes c n] Suc.prems(1) child [OF c(1)] by (simp add: child_ok_def)
    qed
    ultimately show ?thesis using s True by simp
  qed
qed simp

lemma walk_down_append: "walk_down nodes n (ps @ qs) = ebind (walk_down nodes n ps) (\<lambda>i. walk_down nodes i qs)"
  by (induction ps arbitrary: n) (auto split: option.split)

lemma in_tree_path: "in_tree nodes n i \<Longrightarrow> tree_ok nodes \<Longrightarrow> n < length nodes \<Longrightarrow> \<exists>ps. walk_down nodes n ps = Inr i"
proof (induction rule: in_tree.induct)
  case (here nodes n)
  have "walk_down nodes n [] = Inr n" by simp
  then show ?case by blast
next
  case (there nodes n i k j)
  then obtain ps where ps: "walk_down nodes n ps = Inr i" by blast
  have "i < length nodes" using in_tree_len [OF there.hyps(1) there.prems] by blast
  then have "distinct (map fst (fn_children (nodes ! i)))" using tree_node [OF there.prems(1)] by (simp add: node_ok_def)
  then have "map_of (fn_children (nodes ! i)) k = Some j" using there.hyps(3) by simp
  then have "walk_down nodes n (ps @ [k]) = Inr j" using ps by (simp add: walk_down_append)
  then show ?case by blast
qed

lemma in_tree_name:
  assumes "tree_ok nodes" "in_tree nodes 0 i"
  shows "get_node nodes (the (fullname nodes i)) = Inr i"
proof -
  have z: "0 < length nodes" using assms(1) by (simp add: tree_ok_def)
  obtain ps where ps: "walk_down nodes 0 ps = Inr i" using in_tree_path [OF assms(2,1) z] by blast
  from walk_down_name [OF assms(1) z ps fullname_root [OF assms(1)]] show ?thesis using ps get_node_path [of ps nodes] by simp
qed

text \<open>A tree to try: the third \<open>mkdir\<close> fails, and making the tree stops there.\<close>

definition full_mutator :: "nat mutator" where
  "full_mutator = \<lparr>mut_str = ''full'', mut_start = sret (), mut_stop = sret (), mut_write = (\<lambda>f c. sret ()), mut_read = (\<lambda>f. sret []),
     mut_listdir = (\<lambda>f. sret []), mut_mkdir = (\<lambda>f w. if w < 2 then (Inr (), w + 1) else (Inl IOError, w)), mut_stat = (\<lambda>f. sraise IOError)\<rparr>"

definition name_a :: string where
  "name_a = replicate 10 (CHR ''a'')"

definition small_tree :: "fnode list" where
  "small_tree = [\<lparr>fn_name = ''<root>'', fn_ty = ''dir'', fn_content = None, fn_children = [(name_a, 1)], fn_parent = None\<rparr>,
     \<lparr>fn_name = name_a, fn_ty = ''dir'', fn_content = None, fn_children = [(name_a, 2)], fn_parent = Some 0\<rparr>,
     \<lparr>fn_name = name_a, fn_ty = ''dir'', fn_content = None, fn_children = [], fn_parent = Some 1\<rparr>]"

lemma small_tree_made: "fm_nodes (fst (snd (model_init (\<lambda>_. 0) (Some full_mutator) 0))) = small_tree"
  by code_simp

theorem model_tree_links: "tree_ok (fm_nodes (fst (snd (model_init rnd m w))))"
  by (rule make_model_tree)

theorem model_full_names:
  assumes "get_node (fm_nodes (fst (snd (model_init rnd m w)))) s = Inr i"
  shows "fullname (fm_nodes (fst (snd (model_init rnd m w)))) i = Some (path_text (parts_of s)) \<and>
    get_node (fm_nodes (fst (snd (model_init rnd m w)))) (path_text (parts_of s)) = Inr i"
  by (rule get_node_name [OF make_model_tree assms])

text \<open>C12: Walking the tree that was made ends, and calls the function once for every node that is reached through directories, with the full name of the node; that name leads to the node.\<close>

theorem model_walk_visits:
  fixes rnd m w
  defines "nodes \<equiv> fm_nodes (fst (snd (model_init rnd m w)))"
  assumes "vals_ok vals" "length nodes \<le> fuel"
  shows "\<exists>is. distinct is \<and> set is = {i. in_tree nodes 0 i} \<and> (\<forall>i\<in>set is. get_node nodes (the (fullname nodes i)) = Inr i) \<and>
    swalk fuel vals fn nodes 0 = run_all (map (\<lambda>i. fn (fn_ty (nodes ! i)) (the (fullname nodes i))) is)"
proof -
  have t: "tree_ok nodes" unfolding nodes_def by (rule make_model_tree)
  then have z: "0 < length nodes" by (simp add: tree_ok_def)
  show ?thesis using walk_list_set [OF t z assms(2), of fuel] swalk_run [OF t z assms(2), of fuel fn] assms(3)
      in_tree_name [OF t] by (intro exI [of _ "walk_list fuel vals nodes 0"]) simp
qed

theorem model_full_names_witness:
  "fullname small_tree 2 = Some (''/'' @ name_a @ ''/'' @ name_a) \<and> get_node small_tree (''/'' @ name_a @ ''/'' @ name_a) = Inr 2"
proof -
  have a: "CHR ''/'' \<notin> set name_a" "name_a \<noteq> []" "length name_a = 10" by (simp_all add: name_a_def)
  have n: "node_parts (name_a @ CHR ''/'' # name_a) = [name_a, name_a]" using a by (simp add: node_parts_def split_on_append split_on_free)
  have "length (name_a @ CHR ''/'' # name_a) \<noteq> length ''/''" using a(3) by simp
  then have "name_a @ CHR ''/'' # name_a \<noteq> ''/''" by metis
  note n = n this
  have "get_node small_tree (name_a @ ''/'' @ name_a) = Inr 2" using n by (simp add: get_node_def small_tree_def)
  moreover have "path_text (parts_of (name_a @ ''/'' @ name_a)) = ''/'' @ name_a @ ''/'' @ name_a" using n by (simp add: parts_of_def path_text_def)
  ultimately show ?thesis using model_full_names [of "\<lambda>_. 0" "Some full_mutator" 0 "name_a @ ''/'' @ name_a" 2] unfolding small_tree_made by simp
qed

theorem model_walk_visits_witness:
  "\<exists>is. distinct is \<and> set is = {i. in_tree small_tree 0 i} \<and>
    swalk 3 (map snd) (\<lambda>ty name w. (Inr (), name # w)) small_tree 0 [] =
      run_all (map (\<lambda>i w. (Inr (), the (fullname small_tree i) # w)) is) []"
proof -
  have "vals_ok (map snd)" by (simp add: vals_ok_def)
  moreover have "length small_tree \<le> 3" by (simp add: small_tree_def)
  ultimately show ?thesis using model_walk_visits [of "map snd" "\<lambda>_. 0" "Some full_mutator" 0 3 "\<lambda>ty name w. (Inr (), name # w)"]
    unfolding small_tree_made by metis
qed

end
