(* ===== verification/OrderedDicts.thy ===== *)
theory OrderedDicts
  imports Prelude
begin

section \<open>Dictionaries that remember their order (\<open>common/ordereddict.py\<close>)\<close>

text \<open>
  An \<open>OrderedDict\<close> is a dictionary with a second one, \<open>__map\<close>, from the keys to the links of a circular
  doubly chained list. The links are mutable objects that refer to each other: here a store of links, in
  which a reference is a position; the sentinel is the link at position 0, and \<open>None\<close> is a link that
  \<open>clear\<close> emptied. The specification is a list of pairs in insertion order.
\<close>

record 'k link =
  lk_prev :: nat
  lk_next :: nat
  lk_key :: "'k option"

record ('k, 'v) odict =
  od_links :: "'k link option list"
  od_map :: "('k \<times> nat) list"
  od_dict :: "('k \<times> 'v) list"

type_synonym ('k, 'v, 'a) om = "(('k, 'v) odict, 'a) st"

subsection \<open>Links and dictionaries\<close>

definition od_link :: "nat \<Rightarrow> ('k, 'v, 'k link) om" where
  "od_link a = (\<lambda>od. (case od_links od ! a of None \<Rightarrow> Inl IndexError | Some l \<Rightarrow> Inr l, od))"

definition set_link :: "nat \<Rightarrow> ('k link \<Rightarrow> 'k link) \<Rightarrow> ('k, 'v, unit) om" where
  "set_link a f = sbind (od_link a) (\<lambda>l od. (Inr (), od\<lparr>od_links := (od_links od)[a := Some (f l)]\<rparr>))"

definition new_link :: "'k link \<Rightarrow> ('k, 'v, nat) om" where
  "new_link l = (\<lambda>od. (Inr (length (od_links od)), od\<lparr>od_links := od_links od @ [Some l]\<rparr>))"

definition dict_pop :: "'k \<Rightarrow> ('k \<times> 'v) list \<Rightarrow> pyexc + 'v \<times> ('k \<times> 'v) list" where
  "dict_pop k d = ebind (dict_get d k) (\<lambda>v. Inr (v, dict_del k d))"

definition od_contains :: "'k \<Rightarrow> ('k, 'v) odict \<Rightarrow> bool" where
  "od_contains k od = (map_of (od_dict od) k \<noteq> None)"

definition od_getitem :: "'k \<Rightarrow> ('k, 'v, 'v) om" where
  "od_getitem k = (\<lambda>od. (dict_get (od_dict od) k, od))"

definition map_pop :: "'k \<Rightarrow> ('k, 'v, nat) om" where
  "map_pop k = (\<lambda>od. case dict_pop k (od_map od) of Inl e \<Rightarrow> (Inl e, od) | Inr (a, m) \<Rightarrow> (Inr a, od\<lparr>od_map := m\<rparr>))"

definition inner_pop :: "'k \<Rightarrow> ('k, 'v, 'v) om" where
  "inner_pop k = (\<lambda>od. case dict_pop k (od_dict od) of Inl e \<Rightarrow> (Inl e, od) | Inr (v, d) \<Rightarrow> (Inr v, od\<lparr>od_dict := d\<rparr>))"

subsection \<open>The operations\<close>

definition od_empty :: "('k, 'v) odict" where
  "od_empty = \<lparr>od_links = [Some \<lparr>lk_prev = 0, lk_next = 0, lk_key = None\<rparr>], od_map = [], od_dict = []\<rparr>"

definition od_setitem :: "'k \<Rightarrow> 'v \<Rightarrow> ('k, 'v, unit) om" where
  "od_setitem k v = sbind
     (\<lambda>od. if od_contains k od then (Inr (), od)
       else sbind (od_link 0) (\<lambda>root. let from_end = lk_prev root in
         sbind (new_link \<lparr>lk_prev = from_end, lk_next = 0, lk_key = Some k\<rparr>) (\<lambda>n.
         sbind (set_link from_end (\<lambda>l. l\<lparr>lk_next := n\<rparr>)) (\<lambda>_.
         sbind (set_link 0 (\<lambda>l. l\<lparr>lk_prev := n\<rparr>)) (\<lambda>_ od. (Inr (), od\<lparr>od_map := dict_set k n (od_map od)\<rparr>))))) od)
     (\<lambda>_ od. (Inr (), od\<lparr>od_dict := dict_set k v (od_dict od)\<rparr>))"

definition od_delitem :: "'k \<Rightarrow> ('k, 'v, unit) om" where
  "od_delitem k = sbind (inner_pop k) (\<lambda>_. sbind (map_pop k) (\<lambda>a. sbind (od_link a) (\<lambda>l.
     sbind (set_link (lk_prev l) (\<lambda>p. p\<lparr>lk_next := lk_next l\<rparr>)) (\<lambda>_. set_link (lk_next l) (\<lambda>q. q\<lparr>lk_prev := lk_prev l\<rparr>)))))"

text \<open>The loop of the iterators; following the links may not end.\<close>

partial_function (option) follow :: "('k link \<Rightarrow> nat) \<Rightarrow> 'k link option list \<Rightarrow> nat \<Rightarrow> (pyexc + 'k option list) option" where
  "follow step links c = (if c = 0 then Some (Inr []) else
     (case links ! c of None \<Rightarrow> Some (Inl IndexError)
      | Some l \<Rightarrow> Option.bind (follow step links (step l)) (\<lambda>r. Some (map_sum id (\<lambda>ks. lk_key l # ks) r))))"

definition od_walk :: "('k link \<Rightarrow> nat) \<Rightarrow> ('k, 'v, 'k list) om" where
  "od_walk step = sbind (od_link 0) (\<lambda>root od. (case follow step (od_links od) (step root) of
     None \<Rightarrow> Inl NoFuel | Some (Inl e) \<Rightarrow> Inl e | Some (Inr ks) \<Rightarrow> Inr (map the ks), od))"

definition od_iter :: "('k, 'v, 'k list) om" where
  "od_iter = od_walk lk_next"

definition od_reversed :: "('k, 'v, 'k list) om" where
  "od_reversed = od_walk lk_prev"

definition od_clear :: "('k, 'v, unit) om" where
  "od_clear = (\<lambda>od. (Inr (), od\<lparr>od_links := (foldl (\<lambda>L (k, a). L[a := None]) (od_links od) (od_map od))[0 := Some \<lparr>lk_prev = 0, lk_next = 0, lk_key = None\<rparr>],
     od_map := [], od_dict := []\<rparr>))"

definition od_popitem :: "bool \<Rightarrow> ('k, 'v, 'k \<times> 'v) om" where
  "od_popitem from_end = (\<lambda>od. if od_dict od = [] then (Inl KeyError, od) else
     sbind (od_link 0) (\<lambda>root.
     sbind (if from_end then sbind (od_link (lk_prev root)) (\<lambda>link. let p = lk_prev link in
              sbind (set_link p (\<lambda>l. l\<lparr>lk_next := 0\<rparr>)) (\<lambda>_. sbind (set_link 0 (\<lambda>l. l\<lparr>lk_prev := p\<rparr>)) (\<lambda>_. sret link)))
            else sbind (od_link (lk_next root)) (\<lambda>link. let q = lk_next link in
              sbind (set_link 0 (\<lambda>l. l\<lparr>lk_next := q\<rparr>)) (\<lambda>_. sbind (set_link q (\<lambda>l. l\<lparr>lk_prev := 0\<rparr>)) (\<lambda>_. sret link))))
       (\<lambda>link. let k = the (lk_key link) in sbind (map_pop k) (\<lambda>_. sbind (inner_pop k) (\<lambda>v. sret (k, v))))) od)"

fun od_lookups :: "'k list \<Rightarrow> ('k, 'v, ('k \<times> 'v) list) om" where
  "od_lookups [] = sret []"
| "od_lookups (k # ks) = sbind (od_getitem k) (\<lambda>v. sbind (od_lookups ks) (\<lambda>r. sret ((k, v) # r)))"

definition od_items :: "('k, 'v, ('k \<times> 'v) list) om" where
  "od_items = sbind od_iter od_lookups"

definition od_values :: "('k, 'v, 'v list) om" where
  "od_values = sbind od_items (\<lambda>kvs. sret (map snd kvs))"

text \<open>\<open>update\<close>, given the pairs in the order in which the argument yields them.\<close>

fun od_update :: "('k \<times> 'v) list \<Rightarrow> ('k, 'v, unit) om" where
  "od_update [] = sret ()"
| "od_update ((k, v) # kvs) = sbind (od_setitem k v) (\<lambda>_. od_update kvs)"

definition od_pop :: "'k \<Rightarrow> 'v option \<Rightarrow> ('k, 'v, 'v) om" where
  "od_pop k dflt = (\<lambda>od. if od_contains k od then sbind (od_getitem k) (\<lambda>v. sbind (od_delitem k) (\<lambda>_. sret v)) od
     else (case dflt of None \<Rightarrow> Inl KeyError | Some v \<Rightarrow> Inr v, od))"

definition od_setdefault :: "'k \<Rightarrow> 'v \<Rightarrow> ('k, 'v, 'v) om" where
  "od_setdefault k v = (\<lambda>od. if od_contains k od then od_getitem k od else sbind (od_setitem k v) (\<lambda>_. sret v) od)"

definition od_init :: "('k \<times> 'v) list \<Rightarrow> (pyexc + unit) \<times> ('k, 'v) odict" where
  "od_init kvs = od_update kvs od_empty"

definition od_copy :: "('k, 'v) odict \<Rightarrow> (pyexc + ('k, 'v) odict)" where
  "od_copy od = ebind (fst (od_items od)) (\<lambda>kvs. case od_init kvs of (Inl e, _) \<Rightarrow> Inl e | (Inr _, od') \<Rightarrow> Inr od')"

definition od_fromkeys :: "'k list \<Rightarrow> 'v \<Rightarrow> (pyexc + unit) \<times> ('k, 'v) odict" where
  "od_fromkeys ks v = od_init (map (\<lambda>k. (k, v)) ks)"

definition od_eq :: "('k, 'v) odict \<Rightarrow> ('k, 'v) odict \<Rightarrow> pyexc + bool" where
  "od_eq a b = (if length (od_dict a) \<noteq> length (od_dict b) then Inr False
     else ebind (fst (od_items a)) (\<lambda>x. ebind (fst (od_items b)) (\<lambda>y. Inr (x = y))))"

subsection \<open>The specification\<close>

datatype ('k, 'v) od_op =
    SetItem 'k 'v | DelItem 'k | GetItem 'k | Clear | PopItem bool | Pop 'k "'v option" | SetDefault 'k 'v
  | Update "('k \<times> 'v) list" | Keys | Reversed | Items | Values

datatype ('k, 'v) od_res = Done | ValRes 'v | PairRes 'k 'v | KeyList "'k list" | ItemList "('k \<times> 'v) list" | ValList "'v list"

fun od_do :: "('k, 'v) od_op \<Rightarrow> ('k, 'v, ('k, 'v) od_res) om" where
  "od_do (SetItem k v) = sbind (od_setitem k v) (\<lambda>_. sret Done)"
| "od_do (DelItem k) = sbind (od_delitem k) (\<lambda>_. sret Done)"
| "od_do (GetItem k) = sbind (od_getitem k) (\<lambda>v. sret (ValRes v))"
| "od_do Clear = sbind od_clear (\<lambda>_. sret Done)"
| "od_do (PopItem from_end) = sbind (od_popitem from_end) (\<lambda>(k, v). sret (PairRes k v))"
| "od_do (Pop k d) = sbind (od_pop k d) (\<lambda>v. sret (ValRes v))"
| "od_do (SetDefault k v) = sbind (od_setdefault k v) (\<lambda>v. sret (ValRes v))"
| "od_do (Update kvs) = sbind (od_update kvs) (\<lambda>_. sret Done)"
| "od_do Keys = sbind od_iter (\<lambda>ks. sret (KeyList ks))"
| "od_do Reversed = sbind od_reversed (\<lambda>ks. sret (KeyList ks))"
| "od_do Items = sbind od_items (\<lambda>kvs. sret (ItemList kvs))"
| "od_do Values = sbind od_values (\<lambda>vs. sret (ValList vs))"

fun spec_do :: "('k, 'v) od_op \<Rightarrow> ('k \<times> 'v) list \<Rightarrow> (pyexc + ('k, 'v) od_res) \<times> ('k \<times> 'v) list" where
  "spec_do (SetItem k v) kvs = (Inr Done, dict_set k v kvs)"
| "spec_do (DelItem k) kvs = (if map_of kvs k = None then (Inl KeyError, kvs) else (Inr Done, dict_del k kvs))"
| "spec_do (GetItem k) kvs = (case map_of kvs k of None \<Rightarrow> (Inl KeyError, kvs) | Some v \<Rightarrow> (Inr (ValRes v), kvs))"
| "spec_do Clear kvs = (Inr Done, [])"
| "spec_do (PopItem from_end) kvs = (if kvs = [] then (Inl KeyError, kvs)
     else if from_end then (Inr (PairRes (fst (last kvs)) (snd (last kvs))), butlast kvs)
     else (Inr (PairRes (fst (hd kvs)) (snd (hd kvs))), tl kvs))"
| "spec_do (Pop k d) kvs = (case map_of kvs k of Some v \<Rightarrow> (Inr (ValRes v), dict_del k kvs)
     | None \<Rightarrow> (case d of None \<Rightarrow> Inl KeyError | Some v \<Rightarrow> Inr (ValRes v), kvs))"
| "spec_do (SetDefault k v) kvs = (case map_of kvs k of Some w \<Rightarrow> (Inr (ValRes w), kvs) | None \<Rightarrow> (Inr (ValRes v), kvs @ [(k, v)]))"
| "spec_do (Update new) kvs = (Inr Done, foldl (\<lambda>d (k, v). dict_set k v d) kvs new)"
| "spec_do Keys kvs = (Inr (KeyList (map fst kvs)), kvs)"
| "spec_do Reversed kvs = (Inr (KeyList (rev (map fst kvs))), kvs)"
| "spec_do Items kvs = (Inr (ItemList kvs), kvs)"
| "spec_do Values kvs = (Inr (ValList (map snd kvs)), kvs)"

text \<open>A sequence of operations goes on after an operation that raised.\<close>

fun session :: "('op \<Rightarrow> 's \<Rightarrow> 'r \<times> 's) \<Rightarrow> 'op list \<Rightarrow> 's \<Rightarrow> 'r list" where
  "session step [] s = []"
| "session step (op # ops) s = (case step op s of (r, s') \<Rightarrow> r # session step ops s')"

text \<open>
  An implementation of a data type, its operations given as steps with results: \<open>stands_for\<close> relates its
  states to those of the specification, and every step keeps the relation and gives the result specified.
\<close>

locale implementation =
  fixes step :: "'op \<Rightarrow> 's \<Rightarrow> 'r \<times> 's"
    and spec :: "'op \<Rightarrow> 'a \<Rightarrow> 'r \<times> 'a"
    and stands_for :: "'s \<Rightarrow> 'a \<Rightarrow> bool"
  assumes step_refines: "stands_for s a \<Longrightarrow> fst (step op s) = fst (spec op a) \<and> stands_for (snd (step op s)) (snd (spec op a))"
begin

lemma session_refines: "stands_for s a \<Longrightarrow> session step ops s = session spec ops a"
proof (induction ops arbitrary: s a)
  case (Cons op ops)
  from step_refines [OF Cons.prems, of op] show ?case using Cons.IH by (simp add: split_beta)
qed simp

end

subsection \<open>The circle of links\<close>

definition alive :: "'k link option list \<Rightarrow> nat \<Rightarrow> bool" where
  "alive L a = (a < length L \<and> L ! a \<noteq> None)"

definition nx :: "'k link option list \<Rightarrow> nat \<Rightarrow> nat" where "nx L a = lk_next (the (L ! a))"
definition pv :: "'k link option list \<Rightarrow> nat \<Rightarrow> nat" where "pv L a = lk_prev (the (L ! a))"
definition ky :: "'k link option list \<Rightarrow> nat \<Rightarrow> 'k option" where "ky L a = lk_key (the (L ! a))"

definition edge :: "'k link option list \<Rightarrow> nat \<Rightarrow> nat \<Rightarrow> bool" where
  "edge L a b = (alive L a \<and> alive L b \<and> nx L a = b \<and> pv L b = a)"

fun chained :: "'k link option list \<Rightarrow> nat list \<Rightarrow> bool" where
  "chained L (a # b # as) = (edge L a b \<and> chained L (b # as))"
| "chained L as = True"

definition upd :: "nat \<Rightarrow> ('k link \<Rightarrow> 'k link) \<Rightarrow> 'k link option list \<Rightarrow> 'k link option list" where
  "upd a f L = L[a := Some (f (the (L ! a)))]"

lemma chained_append: "chained L (xs @ a # ys) \<longleftrightarrow> chained L (xs @ [a]) \<and> chained L (a # ys)"
proof (induction xs rule: induct_list012)
  case (2 x)
  then show ?case by auto
qed auto

lemma chained_frame:
  "chained L xs \<Longrightarrow> (\<And>a. a \<in> set xs \<Longrightarrow> alive L a \<Longrightarrow> alive L' a) \<Longrightarrow> (\<And>a. a \<in> set (butlast xs) \<Longrightarrow> nx L' a = nx L a) \<Longrightarrow>
   (\<And>a. a \<in> set (tl xs) \<Longrightarrow> pv L' a = pv L a) \<Longrightarrow> chained L' xs"
proof (induction L xs rule: chained.induct)
  case (1 L a b xs)
  have "edge L a b" "chained L (b # xs)" using "1.prems"(1) by simp_all
  then have "edge L' a b" using "1.prems"(2-4) by (simp add: edge_def)
  moreover have "chained L' (b # xs)"
    by (rule "1.IH" [OF \<open>chained L (b # xs)\<close>]) (use "1.prems"(2-4) in \<open>auto dest: list.set_sel(2)\<close>)
  ultimately show ?case by simp
qed auto

lemma chained_alive: "chained L xs \<Longrightarrow> 2 \<le> length xs \<Longrightarrow> x \<in> set xs \<Longrightarrow> alive L x"
proof (induction L xs rule: chained.induct)
  case (1 L a b xs)
  show ?case
  proof (cases xs)
    case Nil
    then show ?thesis using 1 by (auto simp: edge_def)
  next
    case (Cons c ys)
    then have "x \<in> set (b # xs) \<Longrightarrow> alive L x" using "1.IH" "1.prems"(1) by simp
    then show ?thesis using "1.prems" by (auto simp: edge_def)
  qed
qed auto

lemma upd_simps:
  assumes "alive L a"
  shows "alive (upd a f L) x = alive L x" "length (upd a f L) = length L"
    "nx (upd a (\<lambda>l. l\<lparr>lk_next := b\<rparr>) L) x = (if x = a then b else nx L x)" "nx (upd a (\<lambda>l. l\<lparr>lk_prev := b\<rparr>) L) x = nx L x"
    "pv (upd a (\<lambda>l. l\<lparr>lk_prev := b\<rparr>) L) x = (if x = a then b else pv L x)" "pv (upd a (\<lambda>l. l\<lparr>lk_next := b\<rparr>) L) x = pv L x"
    "ky (upd a (\<lambda>l. l\<lparr>lk_prev := b\<rparr>) L) x = ky L x" "ky (upd a (\<lambda>l. l\<lparr>lk_next := b\<rparr>) L) x = ky L x"
  using assms by (auto simp: upd_def alive_def nx_def pv_def ky_def nth_list_update)

lemma append_simps:
  "alive L x \<Longrightarrow> alive (L @ [l]) x" "x < length L \<Longrightarrow> nx (L @ [l]) x = nx L x" "x < length L \<Longrightarrow> pv (L @ [l]) x = pv L x"
  "x < length L \<Longrightarrow> ky (L @ [l]) x = ky L x" "alive (L @ [Some m]) (length L)" "nx (L @ [Some m]) (length L) = lk_next m"
  "pv (L @ [Some m]) (length L) = lk_prev m" "ky (L @ [Some m]) (length L) = lk_key m"
  by (auto simp: alive_def nx_def pv_def ky_def nth_append)

lemma last_first: "last (0 # us) = p \<Longrightarrow> \<exists>zs. 0 # us = zs @ [p]"
  by (metis append_butlast_last_id list.distinct(1))

lemma chained_cut:
  assumes l: "chained L ((0 # us) @ a # ws @ [0])" and d: "distinct (0 # us @ a # ws)" and p: "p = last (0 # us)" and q: "q = hd (ws @ [0])"
  shows "chained (upd q (\<lambda>l. l\<lparr>lk_prev := p\<rparr>) (upd p (\<lambda>l. l\<lparr>lk_next := q\<rparr>) L)) ((0 # us) @ ws @ [0])"
proof -
  let ?L = "upd q (\<lambda>l. l\<lparr>lk_prev := p\<rparr>) (upd p (\<lambda>l. l\<lparr>lk_next := q\<rparr>) L)"
  obtain zs where zs: "0 # us = zs @ [p]" using last_first p by blast
  obtain vs where vs: "ws @ [0] = q # vs" using q by (cases "ws @ [0]") auto
  have alive: "alive L x" if "x \<in> set ((0 # us) @ a # ws @ [0])" for x
    by (rule chained_alive [OF l _ that]) simp
  have pq: "alive L p" "alive L q" using alive p q by (auto simp: hd_append)
  have split: "chained L (zs @ [p])" "chained L (p # a # q # vs)"
    using l chained_append [of L zs p "a # q # vs"] unfolding zs vs by simp_all
  have ds: "distinct (zs @ [p])" "set (zs @ [p]) = insert 0 (set us)" using d zs by (auto simp flip: zs)
  have qz: "q \<notin> set (tl (zs @ [p]))" using d q zs by (cases ws) (auto simp flip: zs)
  have "p \<in> set (0 # us)" unfolding p by (rule last_in_set) simp
  moreover have "butlast (q # vs) = ws" by (simp flip: vs)
  ultimately have pv: "p \<notin> set (butlast (q # vs))" using d by auto
  have qv: "q \<notin> set vs" using d q vs by (cases ws) auto
  have "chained ?L (zs @ [p])"
    by (rule chained_frame [OF split(1)]) (use pq ds(1) qz in \<open>auto simp: upd_simps butlast_append\<close>)
  moreover have "chained ?L (q # vs)"
    by (rule chained_frame [of L]) (use split(2) pq pv qv in \<open>auto simp: upd_simps\<close>)
  moreover have "edge ?L p q" using pq by (auto simp: edge_def upd_simps)
  ultimately have "chained ?L (zs @ p # q # vs)" using chained_append [of ?L zs p "q # vs"] by simp
  then show ?thesis unfolding vs [symmetric] using zs by simp
qed

lemma chained_add:
  assumes l: "chained L ((0 # as) @ [0])" and d: "distinct (0 # as)" and p: "p = last (0 # as)"
  shows "chained (upd 0 (\<lambda>l. l\<lparr>lk_prev := length L\<rparr>) (upd p (\<lambda>l. l\<lparr>lk_next := length L\<rparr>) (L @ [Some \<lparr>lk_prev = p, lk_next = 0, lk_key = k\<rparr>])))
    ((0 # as) @ [length L, 0])"
proof -
  let ?n = "length L"
  let ?L1 = "L @ [Some \<lparr>lk_prev = p, lk_next = 0, lk_key = k\<rparr>]"
  let ?L = "upd 0 (\<lambda>l. l\<lparr>lk_prev := ?n\<rparr>) (upd p (\<lambda>l. l\<lparr>lk_next := ?n\<rparr>) ?L1)"
  obtain zs where zs: "0 # as = zs @ [p]" using last_first p by blast
  have alive: "alive L x" if "x \<in> set (0 # as)" for x
    by (rule chained_alive [OF l]) (use that in auto)
  then have lt: "x < ?n" if "x \<in> set (0 # as)" for x using that by (auto simp: alive_def)
  have pa: "p \<in> set (0 # as)" using p by (metis last_in_set list.distinct(1))
  then have p1: "alive ?L1 p" "alive ?L1 0" "p < ?n" "0 < ?n" using append_simps(1) [OF alive [OF pa]] append_simps(1) [OF alive [of 0]] lt [OF pa] lt [of 0] by simp_all
  have "chained L (zs @ [p])" using l chained_append [of L zs p "[0]"] unfolding zs by simp
  then have "chained ?L (zs @ [p])"
  proof (rule chained_frame)
    fix a
    assume a: "a \<in> set (zs @ [p])"
    show "alive L a \<Longrightarrow> alive ?L a" using p1 by (simp add: upd_simps append_simps)
  next
    fix a
    assume "a \<in> set (butlast (zs @ [p]))"
    then have a: "a \<in> set zs" by simp
    have "distinct (zs @ [p])" using d unfolding zs [symmetric] .
    then have "a \<noteq> p" using a by auto
    have "a \<in> set (0 # as)" unfolding zs using a by simp
    then have "a < ?n" by (rule lt)
    then show "nx ?L a = nx L a" using p1 \<open>a \<noteq> p\<close> by (simp add: upd_simps append_simps)
  next
    fix a
    assume "a \<in> set (tl (zs @ [p]))"
    then have "a \<in> set as" by (simp flip: zs)
    then have "a \<noteq> 0" "a < ?n" using d lt [of a] by (metis distinct.simps(2), simp)
    then show "pv ?L a = pv L a" using p1 by (simp add: upd_simps append_simps)
  qed
  moreover have "edge ?L p ?n" "edge ?L ?n 0" using p1 by (auto simp: edge_def upd_simps append_simps)
  ultimately have "chained ?L (zs @ p # [?n, 0])" using chained_append [of ?L zs p "[?n, 0]"] by simp
  then show ?thesis using zs by simp
qed

lemma follow_next: "chained L (as @ [0]) \<Longrightarrow> 0 \<notin> set as \<Longrightarrow> follow lk_next L (hd (as @ [0])) = Some (Inr (map (ky L) as))"
proof (induction as)
  case Nil
  then show ?case by (simp add: follow.simps)
next
  case (Cons a as)
  have e: "edge L a (hd (as @ [0]))" using Cons.prems(1) by (cases as) auto
  then obtain l where l: "L ! a = Some l" "lk_next l = hd (as @ [0])" by (auto simp: edge_def alive_def nx_def)
  have "chained L (as @ [0])" using Cons.prems(1) by (cases as) auto
  then show ?case using Cons l by (simp add: follow.simps [of _ _ a] ky_def)
qed

lemma follow_prev: "chained L (0 # as) \<Longrightarrow> 0 \<notin> set as \<Longrightarrow> follow lk_prev L (last (0 # as)) = Some (Inr (map (ky L) (rev as)))"
proof (induction as rule: rev_induct)
  case Nil
  then show ?case by (simp add: follow.simps)
next
  case (snoc a as)
  obtain zs p where zs: "0 # as = zs @ [p]" "p = last (0 # as)" using last_first by blast
  have z: "0 # as @ [a] = zs @ p # [a]" using arg_cong [OF zs(1), of "\<lambda>x. x @ [a]"] by simp
  have "chained L (zs @ p # [a])" using snoc.prems(1) unfolding z .
  then have e: "edge L (last (0 # as)) a" "chained L (zs @ [p])" using chained_append [of L zs p "[a]"] zs(2) by auto
  then obtain l where l: "L ! a = Some l" "lk_prev l = last (0 # as)" by (auto simp: edge_def alive_def pv_def)
  have "chained L (0 # as)" using e(2) zs(1) by simp
  then show ?case using snoc l by (simp add: follow.simps [of _ _ a] ky_def)
qed

subsection \<open>What an ordered dictionary stands for\<close>

definition od_rel :: "('k, 'v) odict \<Rightarrow> ('k \<times> 'v) list \<Rightarrow> nat list \<Rightarrow> bool" where
  "od_rel od kvs as = (chained (od_links od) ((0 # as) @ [0]) \<and> distinct (0 # as) \<and> map (ky (od_links od)) as = map (Some \<circ> fst) kvs \<and>
     distinct (map fst kvs) \<and> map_of (od_map od) = map_of (zip (map fst kvs) as) \<and> distinct (map fst (od_map od)) \<and>
     map_of (od_dict od) = map_of kvs \<and> distinct (map fst (od_dict od)))"

lemma set_link_run: "alive (od_links od) a \<Longrightarrow> set_link a f od = (Inr (), od\<lparr>od_links := upd a f (od_links od)\<rparr>)"
  by (auto simp: set_link_def od_link_def sbind_apply alive_def upd_def)

lemma od_link_run: "alive (od_links od) a \<Longrightarrow> od_link a od = (Inr (the (od_links od ! a)), od)"
  by (auto simp: od_link_def alive_def)

lemma rel_length: "od_rel od kvs as \<Longrightarrow> length as = length kvs"
  by (metis od_rel_def length_map)

lemma rel_alive: "od_rel od kvs as \<Longrightarrow> x \<in> set (0 # as) \<Longrightarrow> alive (od_links od) x"
  unfolding od_rel_def by (rule chained_alive [of _ "(0 # as) @ [0]"]) auto

lemma rel_prev: "od_rel od kvs as \<Longrightarrow> pv (od_links od) 0 = last (0 # as)"
proof -
  assume r: "od_rel od kvs as"
  obtain zs p where zs: "0 # as = zs @ [p]" "p = last (0 # as)" using last_first by blast
  have "chained (od_links od) (zs @ p # [0])" using r zs(1) by (simp add: od_rel_def)
  then show ?thesis using chained_append [of "od_links od" zs p "[0]"] zs(2) by (auto simp: edge_def)
qed

lemma rel_next: "od_rel od kvs as \<Longrightarrow> nx (od_links od) 0 = hd (as @ [0])"
  by (cases as) (auto simp: od_rel_def edge_def)

lemma rel_contains: "od_rel od kvs as \<Longrightarrow> od_contains k od \<longleftrightarrow> map_of kvs k \<noteq> None"
  by (simp add: od_contains_def od_rel_def)

lemma rel_getitem: "od_rel od kvs as \<Longrightarrow> od_getitem k od = (case map_of kvs k of None \<Rightarrow> Inl KeyError | Some v \<Rightarrow> Inr v, od)"
  by (simp add: od_getitem_def dict_get_def od_rel_def)

lemma rel_empty: "od_rel od_empty [] []"
  by (simp add: od_rel_def od_empty_def edge_def alive_def nx_def pv_def)

lemma map_fst_dict_set: "map_of d k \<noteq> None \<Longrightarrow> map fst (dict_set k v d) = map fst d"
  by (induction k v d rule: dict_set.induct) auto

lemma map_of_snoc: "k \<notin> fst ` set xs \<Longrightarrow> map_of (xs @ [(k, v)]) = (map_of xs)(k \<mapsto> v)"
  by (induction xs) (auto simp: fun_eq_iff)

text \<open>Storing a value under a key that is there changes no link; a new key gets the last link.\<close>

lemma rel_setitem:
  assumes r: "od_rel od kvs as"
  shows "\<exists>od' as'. od_setitem k v od = (Inr (), od') \<and> od_rel od' (dict_set k v kvs) as'"
proof (cases "od_contains k od")
  case True
  then have "map_of kvs k \<noteq> None" using rel_contains [OF r] by blast
  from map_fst_dict_set [OF this, of v] have m: "map fst (dict_set k v kvs) = map fst kvs" .
  then have "map (Some \<circ> fst) (dict_set k v kvs) = map (Some \<circ> fst) kvs" by (metis map_map)
  then show ?thesis using r m True by (intro exI [of _ "od\<lparr>od_dict := dict_set k v (od_dict od)\<rparr>"] exI [of _ as])
      (simp add: od_setitem_def sbind_apply od_rel_def)
next
  case False
  then have k: "k \<notin> fst ` set kvs" using rel_contains [OF r] by (simp add: map_of_eq_None_iff)
  let ?L = "od_links od" and ?p = "last (0 # as)" and ?n = "length (od_links od)"
  let ?L1 = "?L @ [Some \<lparr>lk_prev = ?p, lk_next = 0, lk_key = Some k\<rparr>]"
  let ?L3 = "upd 0 (\<lambda>l. l\<lparr>lk_prev := ?n\<rparr>) (upd ?p (\<lambda>l. l\<lparr>lk_next := ?n\<rparr>) ?L1)"
  let ?od = "od\<lparr>od_links := ?L3, od_map := dict_set k ?n (od_map od), od_dict := dict_set k v (od_dict od)\<rparr>"
  have "?p \<in> set (0 # as)" by (rule last_in_set) simp
  then have al: "alive ?L ?p" "alive ?L 0" using rel_alive [OF r] by auto
  then have al1: "alive ?L1 ?p" "alive ?L1 0" by (simp_all add: append_simps(1))
  have lt: "a < ?n" if "a \<in> set (0 # as)" for a using rel_alive [OF r that] by (simp add: alive_def)
  have run: "od_setitem k v od = (Inr (), ?od)"
    using False al al1 rel_prev [OF r] by (simp add: od_setitem_def sbind_apply od_link_run pv_def new_link_def set_link_run upd_simps Let_def)
  have fresh: "k \<notin> fst ` set (zip (map fst kvs) as)" using k by (auto dest: set_zip_leftD)
  have "chained ?L3 ((0 # as) @ [?n, 0])" by (rule chained_add) (use r in \<open>simp_all add: od_rel_def\<close>)
  moreover have "distinct (0 # as @ [?n])" using r lt by (auto simp: od_rel_def)
  moreover have "map (ky ?L3) as = map (ky ?L) as" using lt al1 by (auto simp: upd_simps append_simps)
  then have "map (ky ?L3) as = map (Some \<circ> fst) kvs" using r by (simp add: od_rel_def del: map_eq_conv)
  moreover have "ky ?L3 ?n = Some k" using al1 by (simp add: upd_simps append_simps)
  moreover have "zip (map fst kvs @ [k]) (as @ [?n]) = zip (map fst kvs) as @ [(k, ?n)]" using rel_length [OF r] by simp
  ultimately have "od_rel ?od (kvs @ [(k, v)]) (as @ [?n])"
    unfolding od_rel_def using r k map_of_snoc [OF fresh] map_of_snoc [OF k, of v]
    by (intro conjI) (simp_all add: od_rel_def del: last.simps)
  then show ?thesis using run dict_set_fresh [OF k] by auto
qed

text \<open>Cutting a link out of the circle removes its pair.\<close>

lemma dict_del_split: "k \<notin> fst ` set xs \<Longrightarrow> dict_del k (xs @ (k, v) # ys) = xs @ ys"
  by (induction xs) auto

lemma rel_split:
  assumes r: "od_rel od kvs as" and k: "map_of kvs k = Some v"
  shows "\<exists>xs ys us a ws. kvs = xs @ (k, v) # ys \<and> as = us @ a # ws \<and> length us = length xs"
proof -
  obtain xs ys where kvs: "kvs = xs @ (k, v) # ys" using split_list [OF map_of_SomeD [OF k]] by blast
  have "length as = length kvs" by (rule rel_length [OF r])
  then have "as = take (length xs) as @ as ! length xs # drop (Suc (length xs)) as" "length (take (length xs) as) = length xs"
    using id_take_nth_drop [of "length xs" as] by (simp_all add: kvs)
  then show ?thesis using kvs by blast
qed

lemma rel_remove:
  assumes r: "od_rel od (xs @ (k, v) # ys) (us @ a # ws)" and l: "length us = length xs"
    and p: "p = last (0 # us)" and q: "q = hd (ws @ [0])"
  defines "L \<equiv> upd q (\<lambda>l. l\<lparr>lk_prev := p\<rparr>) (upd p (\<lambda>l. l\<lparr>lk_next := q\<rparr>) (od_links od))"
  shows "od_rel (od\<lparr>od_links := L, od_map := dict_del k (od_map od), od_dict := dict_del k (od_dict od)\<rparr>) (xs @ ys) (us @ ws)"
    and "pv (od_links od) a = p" "nx (od_links od) a = q" "ky (od_links od) a = Some k" "map_of (od_map od) k = Some a" "map_of (od_dict od) k = Some v"
    and "alive (od_links od) p" "alive (od_links od) q" "alive (od_links od) a"
proof -
  let ?L = "od_links od"
  have lk: "chained ?L ((0 # us) @ a # ws @ [0])" using r by (simp add: od_rel_def)
  have "q \<in> set (ws @ [0])" "p \<in> set (0 # us)" unfolding p q by (rule hd_in_set last_in_set, simp)+
  then show al: "alive ?L p" "alive ?L q" "alive ?L a" using rel_alive [OF r] by auto
  obtain zs where zs: "0 # us = zs @ [p]" using last_first p by blast
  have "chained ?L (zs @ p # a # ws @ [0])" using lk unfolding zs by simp
  then have e: "edge ?L p a" "chained ?L (a # ws @ [0])" using chained_append [of ?L zs p "a # ws @ [0]"] by auto
  then show "pv ?L a = p" by (simp add: edge_def)
  show "nx ?L a = q" using e(2) q by (cases ws) (auto simp: edge_def)
  have m: "map (ky ?L) us @ ky ?L a # map (ky ?L) ws = map (Some \<circ> fst) xs @ Some k # map (Some \<circ> fst) ys" using r by (simp add: od_rel_def)
  then have m1: "map (ky ?L) us = map (Some \<circ> fst) xs" "ky ?L a = Some k" "map (ky ?L) ws = map (Some \<circ> fst) ys" using l by auto
  then show "ky ?L a = Some k" by blast
  have k: "k \<notin> fst ` set xs" "k \<notin> fst ` set ys" using r by (auto simp: od_rel_def)
  have z: "zip (map fst (xs @ (k, v) # ys)) (us @ a # ws) = zip (map fst xs) us @ (k, a) # zip (map fst ys) ws" using l by simp
  have kz: "k \<notin> fst ` set (zip (map fst xs) us)" using k by (auto dest: set_zip_leftD)
  have zd: "dict_del k (zip (map fst (xs @ (k, v) # ys)) (us @ a # ws)) = zip (map fst (xs @ ys)) (us @ ws)"
    unfolding z dict_del_split [OF kz] using l by simp
  have dz: "distinct (map fst (zip (map fst (xs @ (k, v) # ys)) (us @ a # ws)))" using r rel_length [OF r] by (simp add: od_rel_def)
  have kd: "dict_del k (xs @ (k, v) # ys) = xs @ ys" by (rule dict_del_split [OF k(1)])
  have "map_of (zip (map fst (xs @ (k, v) # ys)) (us @ a # ws)) k = Some a" unfolding z using kz by (simp add: map_add_def map_of_eq_None_iff [THEN iffD2] split: option.split)
  then show "map_of (od_map od) k = Some a" using r by (simp only: od_rel_def)
  show "map_of (od_dict od) k = Some v" using r k by (auto simp: od_rel_def map_add_def map_of_eq_None_iff [THEN iffD2] split: option.split)
  have "map_of (dict_del k (od_map od)) = map_of (zip (map fst (xs @ ys)) (us @ ws))"
    using map_of_dict_del [OF dz, of k] map_of_dict_del [of "od_map od" k] r unfolding zd by (simp add: od_rel_def)
  moreover have "map_of (dict_del k (od_dict od)) = map_of (xs @ ys)"
    using map_of_dict_del [of "xs @ (k, v) # ys" k] map_of_dict_del [of "od_dict od" k] r unfolding kd by (simp add: od_rel_def)
  moreover have "chained L ((0 # us) @ ws @ [0])" unfolding L_def by (rule chained_cut [OF lk _ p q]) (use r in \<open>simp add: od_rel_def\<close>)
  moreover have kyL: "ky L = ky ?L" by (rule ext) (simp add: L_def upd_simps al)
  have "map (ky L) (us @ ws) = map (Some \<circ> fst) (xs @ ys)" unfolding kyL using m1 by simp
  ultimately show "od_rel (od\<lparr>od_links := L, od_map := dict_del k (od_map od), od_dict := dict_del k (od_dict od)\<rparr>) (xs @ ys) (us @ ws)"
    using r by (simp add: od_rel_def)
qed

lemma rel_delitem:
  assumes r: "od_rel od kvs as"
  shows "(case map_of kvs k of None \<Rightarrow> od_delitem k od = (Inl KeyError, od)
    | Some v \<Rightarrow> \<exists>od' as'. od_delitem k od = (Inr (), od') \<and> od_rel od' (dict_del k kvs) as')"
proof (cases "map_of kvs k")
  case None
  then have "map_of (od_dict od) k = None" using r by (simp add: od_rel_def)
  then show ?thesis using None by (simp add: od_delitem_def sbind_apply inner_pop_def dict_pop_def dict_get_def)
next
  case (Some v)
  obtain xs ys us a ws where s: "kvs = xs @ (k, v) # ys" "as = us @ a # ws" "length us = length xs" using rel_split [OF r Some] by blast
  note rm = rel_remove [OF r [unfolded s(1,2)] s(3) refl refl]
  have k: "k \<notin> fst ` set xs" using r by (auto simp: s od_rel_def)
  have "od_delitem k od = (Inr (), od\<lparr>od_links := upd (hd (ws @ [0])) (\<lambda>l. l\<lparr>lk_prev := last (0 # us)\<rparr>)
      (upd (last (0 # us)) (\<lambda>l. l\<lparr>lk_next := hd (ws @ [0])\<rparr>) (od_links od)), od_map := dict_del k (od_map od), od_dict := dict_del k (od_dict od)\<rparr>)"
    using rm(2-9) by (simp add: od_delitem_def sbind_apply inner_pop_def map_pop_def dict_pop_def dict_get_def od_link_run set_link_run upd_simps
        pv_def [symmetric] nx_def [symmetric] del: last.simps)
  then show ?thesis using rm(1) Some s(1) dict_del_split [OF k] by auto
qed

lemma rel_walk:
  assumes r: "od_rel od kvs as"
  shows "od_iter od = (Inr (map fst kvs), od)" "od_reversed od = (Inr (rev (map fst kvs)), od)"
proof -
  let ?L = "od_links od"
  have al: "alive ?L 0" using rel_alive [OF r] by simp
  have z: "0 \<notin> set as" "map (ky ?L) as = map (Some \<circ> fst) kvs" using r by (simp_all add: od_rel_def)
  have l1: "chained ?L (as @ [0])" using r by (cases as) (auto simp: od_rel_def)
  obtain zs p where zs: "0 # as = zs @ [p]" using last_first by blast
  have "chained ?L (zs @ p # [0])" using r zs by (simp add: od_rel_def)
  then have l2: "chained ?L (0 # as)" unfolding zs using chained_append [of ?L zs p "[0]"] by blast
  have m1: "map the (map (ky ?L) as) = map fst kvs" unfolding z(2) by simp
  then have m: "map the (map (ky ?L) as) = map fst kvs" "map the (map (ky ?L) (rev as)) = rev (map fst kvs)"
    by (simp_all only: rev_map [symmetric])
  show "od_iter od = (Inr (map fst kvs), od)"
    using follow_next [OF l1 z(1)] rel_next [OF r] m(1) al
    by (simp add: od_iter_def od_walk_def sbind_apply od_link_run nx_def)
  show "od_reversed od = (Inr (rev (map fst kvs)), od)"
    using follow_prev [OF l2 z(1)] rel_prev [OF r] m(2) al
    by (simp add: od_reversed_def od_walk_def sbind_apply od_link_run pv_def del: last.simps)
qed

lemma rel_lookups: "od_rel od kvs as \<Longrightarrow> set sub \<subseteq> set kvs \<Longrightarrow> od_lookups (map fst sub) od = (Inr sub, od)"
proof (induction sub)
  case (Cons kv sub)
  obtain k v where kv: "kv = (k, v)" by fastforce
  have "map_of kvs k = Some v" using Cons.prems by (simp add: kv od_rel_def)
  then show ?case using Cons rel_getitem [OF Cons.prems(1), of k] by (simp add: kv sbind_apply)
qed simp

lemma rel_items: "od_rel od kvs as \<Longrightarrow> od_items od = (Inr kvs, od)"
  using rel_walk(1) [of od kvs as] rel_lookups [of od kvs as kvs] by (simp add: od_items_def sbind_apply)

lemma rel_popitem:
  assumes r: "od_rel od kvs as"
  shows "if kvs = [] then od_popitem from_end od = (Inl KeyError, od)
    else \<exists>od' as'. od_popitem from_end od = (Inr (if from_end then last kvs else hd kvs), od') \<and> od_rel od' (if from_end then butlast kvs else tl kvs) as'"
proof (cases "kvs = []")
  case True
  then have "od_dict od = []" using r by (simp add: od_rel_def)
  then show ?thesis using True by (simp add: od_popitem_def)
next
  case False
  then have ne: "od_dict od \<noteq> []" using r by (auto simp: od_rel_def)
  have al0: "alive (od_links od) 0" using rel_alive [OF r] by simp
  show ?thesis
  proof (cases from_end)
    case True
    obtain xs k v where kvs: "kvs = xs @ (k, v) # []" using False by (metis prod.exhaust rev_exhaust)
    have "length as = Suc (length xs)" using rel_length [OF r] by (simp add: kvs)
    then obtain us a where as: "as = us @ a # []" "length us = length xs" by (metis length_append_singleton rev_exhaust add_right_cancel length_0_conv nat.distinct(1) Suc_inject)
    note rm = rel_remove [OF r [unfolded kvs as(1)] as(2) refl refl]
    have pv: "pv (od_links od) 0 = a" using rel_prev [OF r] by (simp add: as)
    have "od_popitem True od = (Inr (k, v), od\<lparr>od_links := upd (hd ([] @ [0])) (\<lambda>l. l\<lparr>lk_prev := last (0 # us)\<rparr>)
      (upd (last (0 # us)) (\<lambda>l. l\<lparr>lk_next := hd ([] @ [0])\<rparr>) (od_links od)), od_map := dict_del k (od_map od), od_dict := dict_del k (od_dict od)\<rparr>)"
      using rm(2-9) pv al0 ne by (simp add: od_popitem_def sbind_apply inner_pop_def map_pop_def dict_pop_def dict_get_def od_link_run set_link_run upd_simps
          pv_def [symmetric] nx_def [symmetric] ky_def [symmetric] Let_def del: last.simps)
    then show ?thesis using rm(1) True by (auto simp: kvs)
  next
    case front: False
    obtain k v ys where kvs: "kvs = [] @ (k, v) # ys" using False by (cases kvs) auto
    have "length as = Suc (length ys)" using rel_length [OF r] by (simp add: kvs)
    then obtain a ws where as: "as = [] @ a # ws" by (cases as) auto
    have e: "length ([] :: nat list) = length ([] :: ('a \<times> 'b) list)" by simp
    note rm = rel_remove [OF r [unfolded kvs as] e refl refl]
    have nx: "nx (od_links od) 0 = a" using rel_next [OF r] by (simp add: as)
    have "od_popitem False od = (Inr (k, v), od\<lparr>od_links := upd (hd (ws @ [0])) (\<lambda>l. l\<lparr>lk_prev := last (0 # [])\<rparr>)
      (upd (last (0 # [])) (\<lambda>l. l\<lparr>lk_next := hd (ws @ [0])\<rparr>) (od_links od)), od_map := dict_del k (od_map od), od_dict := dict_del k (od_dict od)\<rparr>)"
      using rm(2-9) nx al0 ne by (simp add: od_popitem_def sbind_apply inner_pop_def map_pop_def dict_pop_def dict_get_def od_link_run set_link_run upd_simps
          pv_def [symmetric] nx_def [symmetric] ky_def [symmetric] Let_def)
    then show ?thesis using rm(1) front by (auto simp: kvs)
  qed
qed

lemma rel_clear: "od_rel od kvs as \<Longrightarrow> \<exists>od'. od_clear od = (Inr (), od') \<and> od_rel od' [] []"
proof -
  assume r: "od_rel od kvs as"
  have len: "length (foldl (\<lambda>L (k, a). L[a := None]) L m) = length L" for L :: "'a link option list" and m :: "('a \<times> nat) list"
    by (induction m arbitrary: L) (auto split: prod.split)
  have "0 < length (od_links od)" using rel_alive [OF r, of 0] by (simp add: alive_def)
  then have "0 < length (foldl (\<lambda>L (k, a). L[a := None]) (od_links od) (od_map od))" by (simp only: len)
  then show ?thesis by (auto simp: od_clear_def od_rel_def edge_def alive_def nx_def pv_def)
qed

lemma rel_update: "od_rel od kvs as \<Longrightarrow> \<exists>od' as'. od_update new od = (Inr (), od') \<and> od_rel od' (foldl (\<lambda>d (k, v). dict_set k v d) kvs new) as'"
proof (induction new arbitrary: od kvs as)
  case (Cons kv new)
  obtain k v where kv: "kv = (k, v)" by fastforce
  from rel_setitem [OF Cons.prems, of k v] obtain od1 as1 where 1: "od_setitem k v od = (Inr (), od1)" "od_rel od1 (dict_set k v kvs) as1" by blast
  from Cons.IH [OF 1(2)] show ?case using 1(1) by (simp add: kv sbind_apply)
qed auto

text \<open>Every operation returns, or raises, what it does on the list of pairs, and stands for that list afterwards.\<close>

lemma od_do_refines:
  assumes r: "od_rel od kvs as"
  shows "\<exists>od' as'. od_do op od = (fst (spec_do op kvs), od') \<and> od_rel od' (snd (spec_do op kvs)) as'"
proof (cases op)
  case (SetItem k v)
  then show ?thesis using rel_setitem [OF r, of k v] by (auto simp: sbind_apply)
next
  case (DelItem k)
  then show ?thesis using rel_delitem [OF r, of k] r by (auto simp: sbind_apply split: option.splits)
next
  case (GetItem k)
  then show ?thesis using rel_getitem [OF r, of k] r by (auto simp: sbind_apply split: option.splits)
next
  case Clear
  then show ?thesis using rel_clear [OF r] by (auto simp: sbind_apply)
next
  case (PopItem from_end)
  then show ?thesis using rel_popitem [OF r, of from_end] r by (auto simp: sbind_apply split: if_splits prod.splits)
next
  case (Pop k d)
  then show ?thesis using rel_delitem [OF r, of k] rel_getitem [OF r, of k] rel_contains [OF r, of k] r
    by (auto simp: sbind_apply od_pop_def split: option.splits)
next
  case (SetDefault k v)
  show ?thesis
  proof (cases "map_of kvs k")
    case None
    then have "dict_set k v kvs = kvs @ [(k, v)]" by (simp add: dict_set_fresh map_of_eq_None_iff)
    then show ?thesis using rel_setitem [OF r, of k v] rel_contains [OF r, of k] None SetDefault by (auto simp: sbind_apply od_setdefault_def)
  next
    case (Some w)
    then show ?thesis using rel_getitem [OF r, of k] rel_contains [OF r, of k] r SetDefault by (auto simp: sbind_apply od_setdefault_def)
  qed
next
  case (Update new)
  then show ?thesis using rel_update [OF r, of new] by (auto simp: sbind_apply)
qed (use r rel_walk [OF r] rel_items [OF r] in \<open>auto simp: sbind_apply od_values_def\<close>)

interpretation ordered: implementation od_do spec_do "\<lambda>od kvs. \<exists>as. od_rel od kvs as"
proof
  fix od :: "('k, 'v) odict" and kvs op
  assume "\<exists>as. od_rel od kvs as"
  then obtain as where "od_rel od kvs as" ..
  from od_do_refines [OF this, of op] obtain od' as' where "od_do op od = (fst (spec_do op kvs), od')" "od_rel od' (snd (spec_do op kvs)) as'" by blast
  then show "fst (od_do op od) = fst (spec_do op kvs) \<and> (\<exists>as. od_rel (snd (od_do op od)) (snd (spec_do op kvs)) as)" by auto
qed

text \<open>C15: Whatever is done with an ordered dictionary, every operation returns or raises what it does on a list of pairs in insertion order: the circle of links and both dictionaries implement that list.\<close>

theorem ordered_dict_refines: "session od_do ops od_empty = session spec_do ops []"
  using rel_empty by (intro ordered.session_refines) blast

lemma od_init_spec: "\<exists>od as. od_init kvs = (Inr (), od) \<and> od_rel od (foldl (\<lambda>d (k, v). dict_set k v d) [] kvs) as"
  using rel_update [OF rel_empty, of kvs] by (simp add: od_init_def)

lemma foldl_dict_set_same: "distinct (map fst (d @ kvs)) \<Longrightarrow> foldl (\<lambda>d (k, v). dict_set k v d) d kvs = d @ kvs"
proof (induction kvs arbitrary: d)
  case (Cons kv kvs)
  then show ?case by (cases kv) (simp add: dict_set_fresh)
qed simp

lemma od_copy_rel: "od_rel od kvs as \<Longrightarrow> \<exists>od' as'. od_copy od = Inr od' \<and> od_rel od' kvs as'"
  using od_init_spec [of kvs] foldl_dict_set_same [of "[]" kvs] rel_items [of od kvs as]
  by (auto simp: od_copy_def od_rel_def)

lemma od_eq_rel:
  assumes "od_rel a x as" "od_rel b y bs"
  shows "od_eq a b = Inr (x = y)"
proof -
  have l: "length (od_dict od) = length kvs" if "od_rel od kvs as" for od :: "('a, 'b) odict" and kvs as
  proof -
    have "fst ` set (od_dict od) = fst ` set kvs" using that by (simp add: od_rel_def dom_map_of_conv_image_fst [symmetric])
    then have "set (map fst (od_dict od)) = set (map fst kvs)" by simp
    then have "length (map fst (od_dict od)) = length (map fst kvs)" using that unfolding od_rel_def by (metis distinct_card)
    then show ?thesis by simp
  qed
  show ?thesis using l [OF assms(1)] l [OF assms(2)] rel_items [OF assms(1)] rel_items [OF assms(2)] by (auto simp: od_eq_def)
qed

end
