(* ===== verification/RunTools.thy ===== *)
theory RunTools
  imports PyText ElfFiles
begin

section \<open>Running a kernel and reading what it prints (\<open>run.py\<close>, \<open>gcov_convert.py\<close>, \<open>image.py\<close>)\<close>

text \<open>
  \<open>gcov_convert\<close> takes the coverage reports out of the output of a kernel and writes them to files; the files
  are a dictionary from names to contents, and whether a name can be opened is an argument. A \<open>Runner\<close> reads
  the symbols of the kernel and puts their names into a trace. The emulators, the terminals and the programs
  that change a disk image are not modelled; what the programs are given is.
\<close>

subsection \<open>Numbers\<close>

text \<open>\<open>int\<close> of a text in a base; base 0 is told from the prefix, as in Python 2.\<close>

definition digit_value :: "char \<Rightarrow> int" where
  "digit_value c = (let n = ord_c c in
     if 48 \<le> n \<and> n \<le> 57 then n - 48 else if 65 \<le> n \<and> n \<le> 90 then n - 55 else if 97 \<le> n \<and> n \<le> 122 then n - 87 else 36)"

definition digits_value :: "int \<Rightarrow> string \<Rightarrow> pyexc + int" where
  "digits_value b s = (if s \<noteq> [] \<and> list_all (\<lambda>c. digit_value c < b) s then Inr (foldl (\<lambda>n c. b * n + digit_value c) 0 s) else Inl ValueError)"

definition int_base :: "int \<Rightarrow> string \<Rightarrow> pyexc + int" where
  "int_base b t = (let s = strip t; signed = (s \<noteq> [] \<and> hd s \<in> {CHR ''-'', CHR ''+''}); d = (if signed then tl s else s);
       pre = map lower_c (take 2 d)
     in map_sum id (\<lambda>n. if signed \<and> hd s = CHR ''-'' then - n else n)
       (if b \<in> {0, 16} \<and> pre = ''0x'' then digits_value 16 (drop 2 d)
        else if b \<noteq> 0 then digits_value b d
        else if pre = ''0o'' then digits_value 8 (drop 2 d)
        else if pre = ''0b'' then digits_value 2 (drop 2 d)
        else digits_value (if d \<noteq> [] \<and> hd d = CHR ''0'' then 8 else 10) d))"

subsection \<open>Coverage reports\<close>

type_synonym out_files = "(string \<times> string) list"

definition open_wb :: "(string \<Rightarrow> bool) \<Rightarrow> string \<Rightarrow> (out_files, unit) st" where
  "open_wb openable name = (\<lambda>fs. if openable name then (Inr (), dict_set name [] fs) else (Inl IOError, fs))"

definition append_file :: "string \<Rightarrow> string \<Rightarrow> (out_files, unit) st" where
  "append_file name data = (\<lambda>fs. (Inr (), dict_set name ((case map_of fs name of None \<Rightarrow> [] | Some old \<Rightarrow> old) @ data) fs))"

fun write_words :: "string \<Rightarrow> string list \<Rightarrow> (out_files, unit) st" where
  "write_words name [] = sret ()"
| "write_words name (w # ws) = sbind (slift (ebind (int_base 16 w) (\<lambda>n. pack Little Fmt_L (PInt n))))
     (\<lambda>data. sbind (append_file name data) (\<lambda>_. write_words name ws))"

definition gcov_line :: "(string \<Rightarrow> bool) \<Rightarrow> string \<Rightarrow> (out_files, string list) st" where
  "gcov_line openable l = (if \<not> starts ''GCOV-'' l then sret [l]
     else (case find_str '': '' l of None \<Rightarrow> sraise ValueError
       | Some i \<Rightarrow> let name = drop 5 (take i l) in
           sbind (open_wb openable name) (\<lambda>_. sbind (write_words name (butlast (split_on (CHR '' '') (drop (i + 2) l)))) (\<lambda>_. sret []))))"

fun gcov_lines :: "(string \<Rightarrow> bool) \<Rightarrow> string list \<Rightarrow> (out_files, string list) st" where
  "gcov_lines openable [] = sret []"
| "gcov_lines openable (l # ls) = sbind (gcov_line openable l) (\<lambda>a. sbind (gcov_lines openable ls) (\<lambda>b. sret (a @ b)))"

definition gcov_convert :: "(string \<Rightarrow> bool) \<Rightarrow> string list \<Rightarrow> (out_files, string) st" where
  "gcov_convert openable stream = sbind (gcov_lines openable stream) (\<lambda>out. sret (join_with [nl_c] out))"

subsection \<open>The symbols of a kernel\<close>

type_synonym symbols = "(int \<times> string option) list"

fun add_symbols :: "elf_symbol list \<Rightarrow> symbols \<Rightarrow> pyexc + symbols" where
  "add_symbols [] d = Inr d"
| "add_symbols (s # ss) d = ebind (ebind (symbol_getitem s ''st_value'') as_int) (\<lambda>n. add_symbols ss (dict_set n (sy_name s) d))"

fun read_symbols :: "nat \<Rightarrow> nat \<Rightarrow> int list \<Rightarrow> symbols \<Rightarrow> symbols em" where
  "read_symbols k fuel [] d = sret d"
| "read_symbols k fuel (n # ns) d = sbind (get_section k fuel n) (\<lambda>section.
     sbind (case section of SymbolTableSection h t strtab \<Rightarrow>
              sbind (\<lambda>E. on_file (\<lambda>E. iter_symbols fuel (ef_structs E) section) E) (\<lambda>ss. slift (add_symbols ss d))
            | _ \<Rightarrow> sret d) (\<lambda>d'. read_symbols k fuel ns d'))"

definition runner_symbols :: "nat \<Rightarrow> nat \<Rightarrow> symbols em" where
  "runner_symbols k fuel = sbind num_sections (\<lambda>n. read_symbols k fuel (py_range n) [])"

text \<open>The message for another architecture names the variable \<open>elf\<close>, which is not defined.\<close>

definition runner_arch :: "elf_file \<Rightarrow> pyexc + string" where
  "runner_arch E = ebind (get_machine_arch E) (\<lambda>m. if m = ''x86'' then Inr ''X86'' else Inl NameError)"

definition runner_init :: "nat \<Rightarrow> nat \<Rightarrow> bool \<Rightarrow> pystream \<Rightarrow> pyexc + symbols" where
  "runner_init k fuel syms fd = ebind (fst (ELFFile fuel fd)) (\<lambda>E. ebind (runner_arch E) (\<lambda>_.
     if syms then fst (runner_symbols k fuel E) else Inr []))"

subsection \<open>Traces\<close>

definition trace_line :: "symbols \<Rightarrow> string \<Rightarrow> string list" where
  "trace_line symbols l = (case find_str '':'' l of None \<Rightarrow> []
     | Some colon \<Rightarrow> (case int_base 0 (take colon l) of Inl _ \<Rightarrow> []
         | Inr pc_loc \<Rightarrow> (case map_of symbols pc_loc of None \<Rightarrow> [strip l]
             | Some None \<Rightarrow> []
             | Some (Some name) \<Rightarrow> [name @ strip (drop colon l)])))"

definition runner_run :: "bool \<Rightarrow> bool \<Rightarrow> symbols \<Rightarrow> string \<Rightarrow> string" where
  "runner_run trace syms symbols x = (if \<not> trace then x else if \<not> syms then x
     else join_with [nl_c] (concat (map (trace_line symbols) (splitlines x))))"

text \<open>The answer of the monitor to \<open>info registers\<close>, when there is one.\<close>

definition EFL_pattern :: "string \<Rightarrow> string option" where
  "EFL_pattern = lit ''EFL='' (\<lambda>r. let h = takeWhile (\<lambda>c. digit_value c < 16) r in if h = [] then None else Some h)"

definition check_finished :: "string option \<Rightarrow> pyexc + bool" where
  "check_finished answer = (case answer of None \<Rightarrow> Inr True
     | Some s \<Rightarrow> (case re_search EFL_pattern s of None \<Rightarrow> Inr False
         | Some h \<Rightarrow> ebind (int_base 16 h) (\<lambda>eflags. Inr (eflags AND 0x200 = 0 \<and> contains ''HLT=1'' s))))"

subsection \<open>Disk images\<close>

definition image_copy :: "string \<Rightarrow> string \<Rightarrow> string \<Rightarrow> string list list" where
  "image_copy fname localname imagepath =
     [[''mdel'', ''-i'', fname, ''::'' @ imagepath], [''mcopy'', ''-n'', ''-i'', fname, localname, ''::'' @ imagepath]]"

definition grub_conf :: "string \<Rightarrow> string \<Rightarrow> string \<Rightarrow> string list option \<Rightarrow> string" where
  "grub_conf title root path args = concat (map (\<lambda>l. l @ [nl_c])
     [''timeout=0'', ''default=0'', [], ''title '' @ title, ''root '' @ root,
      ''kernel '' @ path @ '' '' @ (case args of None \<Rightarrow> [] | Some ws \<Rightarrow> join_with '' '' ws), ''boot''])"

subsection \<open>Numbers are read back\<close>

lemma digit_value_c: "d < 36 \<Longrightarrow> digit_value (digit_c d) = int d"
  by (simp add: digit_value_def digit_c_def Let_def)

lemma digits_read: "2 \<le> b \<Longrightarrow> b \<le> 36 \<Longrightarrow> list_all (\<lambda>c. digit_value c < int b) (digits b n) \<and> foldl (\<lambda>n c. int b * n + digit_value c) 0 (digits b n) = int n"
proof (induction b n rule: digits.induct)
  case (1 b n)
  have "int b * int (n div b) + int (n mod b) = int n" by (metis mult_div_mod_eq of_nat_add of_nat_mult)
  moreover have "n mod b < b" "n mod b < 36" using 1(2,3) mod_less_divisor [of b n] by linarith+
  ultimately show ?case using 1 by (subst (1 2) digits.simps) (simp add: digit_value_c)
qed

lemma digit_zero: "digit_value (CHR ''0'') = 0"
  by (simp add: digit_value_def ord_c_def)

lemma zeros_read: "foldl (\<lambda>n c. b * n + digit_value c) 0 (replicate k (CHR ''0'') @ s) = foldl (\<lambda>n c. b * n + digit_value c) 0 s"
  by (induction k) (simp_all add: digit_zero)

lemma digits_value_pad: "0 \<le> n \<Longrightarrow> digits_value 16 (hex_pad w n) = Inr n"
proof -
  assume "0 \<le> n"
  moreover have "digits 16 (nat n) \<noteq> []" by (subst digits.simps) simp
  ultimately show ?thesis using digits_read [of 16 "nat n"]
    by (simp add: digits_value_def hex_pad_def hex_text_def zeros_read digit_zero list_all_iff ball_Un set_replicate_conv_if del: foldl_append)
qed

lemma hex_pad_chars: "0 \<le> n \<Longrightarrow> c \<in> set (hex_pad w n) \<Longrightarrow> digit_value c < 16"
  using digits_value_pad [of n w] by (auto simp: digits_value_def list_all_iff split: if_splits)

lemma hex_chars: "digit_value c < 16 \<Longrightarrow> \<not> is_space c \<and> c \<notin> {CHR ''-'', CHR ''+'', CHR '':'', CHR 0x0D} \<and> lower_c c \<noteq> CHR ''x''"
proof -
  assume *: "digit_value c < 16"
  have "lower_c c \<noteq> CHR ''x''"
  proof
    assume "lower_c c = CHR ''x''"
    then have "ord_c (lower_c c) = 120" by (simp add: ord_c_def)
    then have "ord_c c = 88 \<or> ord_c c = 120" by (simp add: lower_c_def split: if_splits)
    then show False using * by (auto simp: digit_value_def)
  qed
  moreover have "16 \<le> digit_value d" if "is_space d \<or> d \<in> {CHR ''-'', CHR ''+'', CHR '':''}" for d
    using that by (auto simp: is_space_def digit_value_def ord_c_def)
  from this [of c] have "\<not> (is_space c \<or> c \<in> {CHR ''-'', CHR ''+'', CHR '':''})" using * by linarith
  moreover have "is_space (CHR 0x0D)" by (simp add: is_space_def)
  ultimately show ?thesis by blast
qed

lemma strip_id: "list_all (\<lambda>c. \<not> is_space c) s \<Longrightarrow> strip s = s"
proof -
  have "dropWhile is_space t = t" if "list_all (\<lambda>c. \<not> is_space c) t" for t using that by (cases t) auto
  then show "list_all (\<lambda>c. \<not> is_space c) s \<Longrightarrow> strip s = s" by (simp add: strip_def)
qed

lemma int_base_hex:
  assumes "0 \<le> n"
  shows "int_base 16 (hex_pad 8 n) = Inr n" "int_base 0 (''0x'' @ hex_pad 8 n) = Inr n"
proof -
  let ?s = "hex_pad 8 n"
  have c: "digit_value c < 16" if "c \<in> set ?s" for c using hex_pad_chars [OF assms that] .
  have s: "strip ?s = ?s" "strip (''0x'' @ ?s) = ''0x'' @ ?s"
    by (rule strip_id, use c hex_chars in \<open>auto simp: list_all_iff is_space_def\<close>)+
  have "hd ?s \<notin> {CHR ''-'', CHR ''+''}" if "?s \<noteq> []" using c [OF hd_in_set [OF that]] hex_chars by blast
  moreover have "map lower_c (take 2 ?s) \<noteq> ''0x''"
  proof
    assume *: "map lower_c (take 2 ?s) = ''0x''"
    then have "CHR ''x'' \<in> lower_c ` set (take 2 ?s)" by (metis list.set_intros set_map)
    then obtain c where "c \<in> set ?s" "lower_c c = CHR ''x''" using set_take_subset [of 2 ?s] by fastforce
    then show False using c hex_chars by blast
  qed
  ultimately show "int_base 16 ?s = Inr n" by (auto simp: int_base_def s Let_def digits_value_pad [OF assms])
  have p: "map lower_c (take 2 (''0x'' @ ?s)) = ''0x''" by (simp add: lower_c_def ord_c_def)
  show "int_base 0 (''0x'' @ ?s) = Inr n" unfolding int_base_def s Let_def using p by (simp add: digits_value_pad [OF assms])
qed

subsection \<open>Coverage reports are read back\<close>

text \<open>What a kernel prints: lines, and the reports of \<open>src/gcov.c\<close>, whose words are printed with \<open>%08x\<close> and a blank.\<close>

datatype kernel_item = Line string | Report string "int list"

fun kernel_line :: "kernel_item \<Rightarrow> string" where
  "kernel_line (Line l) = l"
| "kernel_line (Report name ws) = ''GCOV-'' @ name @ '': '' @ concat (map (\<lambda>w. hex_pad 8 w @ '' '') ws)"

fun item_ok :: "(string \<Rightarrow> bool) \<Rightarrow> kernel_item \<Rightarrow> bool" where
  "item_ok openable (Line l) = (\<not> starts ''GCOV-'' l \<and> nl_c \<notin> set l \<and> CHR 0x0D \<notin> set l)"
| "item_ok openable (Report name ws) = (openable name \<and> \<not> contains '': '' name \<and> nl_c \<notin> set name \<and> CHR 0x0D \<notin> set name
     \<and> list_all (\<lambda>w. 0 \<le> w \<and> w < 2 ^ 32) ws)"

fun kept_line :: "kernel_item \<Rightarrow> string list" where
  "kept_line (Line l) = [l]"
| "kept_line (Report name ws) = []"

fun store_report :: "out_files \<Rightarrow> kernel_item \<Rightarrow> out_files" where
  "store_report fs (Line l) = fs"
| "store_report fs (Report name ws) = dict_set name (concat (map (le_bytes 4) ws)) fs"

lemma splitlines_lines:
  "(\<And>l. l \<in> set ls \<Longrightarrow> nl_c \<notin> set l \<and> CHR 0x0D \<notin> set l) \<Longrightarrow> splitlines (concat (map (\<lambda>l. l @ [nl_c]) ls)) = ls"
proof (induction ls)
  case (Cons l ls)
  have "CHR 0x0D \<notin> set (l @ concat (map (\<lambda>l. l @ [nl_c]) ls))" using Cons.prems by auto
  from splitlines_append [OF this] show ?case using Cons by (simp add: split_on_free)
qed (simp add: splitlines_def)

lemma find_pair: "\<not> contains [a, b] u \<Longrightarrow> a \<noteq> b \<Longrightarrow> find_str [a, b] (u @ a # b # r) = Some (length u)"
proof (induction u)
  case (Cons c u)
  have u: "\<not> contains [a, b] u" using Cons.prems(1) by (auto simp: contains_def split: if_splits)
  have "\<not> starts [a, b] (c # u @ a # b # r)"
    using Cons.prems by (cases u) (auto simp: contains_def)
  then show ?case using Cons.IH [OF u Cons.prems(2)] by simp
qed simp

lemma hex_pad_nonspace: "0 \<le> w \<Longrightarrow> CHR '' '' \<notin> set (hex_pad 8 w) \<and> nl_c \<notin> set (hex_pad 8 w) \<and> CHR 0x0D \<notin> set (hex_pad 8 w) \<and> CHR '':'' \<notin> set (hex_pad 8 w)"
  using hex_pad_chars [of w _ 8] hex_chars by (auto simp: is_space_def)

lemma split_words: "list_all (\<lambda>w. 0 \<le> w) ws \<Longrightarrow>
    split_on (CHR '' '') (concat (map (\<lambda>w. hex_pad 8 w @ '' '') ws)) = map (hex_pad 8) ws @ [[]]"
  by (induction ws) (simp_all add: split_on_append split_on_free hex_pad_nonspace)

lemma dict_set_twice: "dict_set k v (dict_set k w d) = dict_set k v d"
  by (induction k w d rule: dict_set.induct) auto

lemma dict_set_present: "map_of d k = Some v \<Longrightarrow> dict_set k v d = d"
  by (induction k v d rule: dict_set.induct) (auto split: if_splits)

lemma write_words_run:
  "list_all (\<lambda>w. 0 \<le> w \<and> w < 2 ^ 32) ws \<Longrightarrow> map_of fs name = Some old \<Longrightarrow>
   write_words name (map (hex_pad 8) ws) fs = (Inr (), dict_set name (old @ concat (map (le_bytes 4) ws)) fs)"
proof (induction ws arbitrary: fs old)
  case (Cons w ws)
  have p: "pack Little Fmt_L (PInt w) = Inr (le_bytes 4 w)" using Cons.prems(1) by (simp add: pack_def fmt_min_def fmt_max_def fmt_signed_def)
  have "map_of (dict_set name (old @ le_bytes 4 w) fs) name = Some (old @ le_bytes 4 w)" by simp
  from Cons.IH [OF _ this] Cons.prems show ?case
    by (simp add: sbind_def slift_def int_base_hex p append_file_def dict_set_twice)
qed (simp add: dict_set_present)

lemma gcov_line_run: "item_ok openable i \<Longrightarrow> gcov_line openable (kernel_line i) fs = (Inr (kept_line i), store_report fs i)"
proof (cases i)
  case (Report name ws)
  assume *: "item_ok openable i"
  let ?words = "concat (map (\<lambda>w. hex_pad 8 w @ '' '') ws)"
  have "\<not> contains '': '' (''GCOV-'' @ name)" using * Report by (simp add: contains_def)
  then have f: "find_str '': '' (''GCOV-'' @ name @ '': '' @ ?words) = Some (length (''GCOV-'' @ name))"
    using find_pair [of "CHR '':''" "CHR '' ''" "''GCOV-'' @ name" ?words] by simp
  have s: "split_on (CHR '' '') ?words = map (hex_pad 8) ws @ [[]]" using * Report by (intro split_words) (auto simp: list_all_iff)
  have "write_words name (map (hex_pad 8) ws) (dict_set name [] fs) = (Inr (), dict_set name (concat (map (le_bytes 4) ws)) fs)"
    using write_words_run [of ws "dict_set name [] fs" name "[]"] * Report by (simp add: dict_set_twice)
  then show ?thesis using * Report f s by (simp add: gcov_line_def open_wb_def sbind_def)
qed (simp add: gcov_line_def)

lemma gcov_lines_run:
  "list_all (item_ok openable) is \<Longrightarrow> gcov_lines openable (map kernel_line is) fs = (Inr (concat (map kept_line is)), foldl store_report fs is)"
proof (induction "is" arbitrary: fs)
  case (Cons i "is")
  have g: "gcov_line openable (kernel_line i) fs = (Inr (kept_line i), store_report fs i)" using Cons.prems gcov_line_run by simp
  have "gcov_lines openable (map kernel_line is) (store_report fs i) = (Inr (concat (map kept_line is)), foldl store_report (store_report fs i) is)"
    using Cons by simp
  with g show ?case by (simp add: sbind_def)
qed simp

lemma kernel_line_plain: "item_ok openable i \<Longrightarrow> nl_c \<notin> set (kernel_line i) \<and> CHR 0x0D \<notin> set (kernel_line i)"
  by (cases i) (auto simp: list_all_iff dest: hex_pad_nonspace)

text \<open>C17: The words of each coverage report that a kernel prints are written to the file it names, four bytes each with the lowest first, a later report for the same file taking the place of an earlier one, and the lines that are no reports are kept in order.\<close>

theorem gcov_reports_written:
  assumes "list_all (item_ok openable) items"
  shows "gcov_convert openable (splitlines (concat (map (\<lambda>i. kernel_line i @ [nl_c]) items))) fs =
    (Inr (join_with [nl_c] (concat (map kept_line items))), foldl store_report fs items)"
proof -
  have "splitlines (concat (map (\<lambda>l. l @ [nl_c]) (map kernel_line items))) = map kernel_line items"
    using assms kernel_line_plain by (intro splitlines_lines) (auto simp: list_all_iff)
  then show ?thesis using gcov_lines_run [OF assms, of fs] by (simp add: gcov_convert_def sbind_def o_def)
qed

theorem gcov_reports_written_witness:
  "gcov_convert (\<lambda>_. True) (splitlines (concat (map (\<lambda>i. kernel_line i @ [nl_c]) [Line ''ok'', Report ''a.gcda'' [0x67636461, 1], Line ''end'']))) [] =
    (Inr (''ok'' @ [nl_c] @ ''end''), [(''a.gcda'', ''adcg'' @ [CHR 0x01, CHR 0x00, CHR 0x00, CHR 0x00])])"
proof -
  have "list_all (item_ok (\<lambda>_. True)) [Line ''ok'', Report ''a.gcda'' [0x67636461, 1], Line ''end'']" by (simp add: contains_def)
  note run = gcov_reports_written [OF this, of "[]"]
  have "le_bytes 4 0x67636461 = ''adcg''" "le_bytes 4 1 = [CHR 0x01, CHR 0x00, CHR 0x00, CHR 0x00]" by code_simp+
  then show ?thesis unfolding run by simp
qed

subsection \<open>Traces are given the names of the symbols\<close>

text \<open>A line of a trace: an instruction at an address, or one that does not start with a number.\<close>

datatype trace_item = Insn int string | Other string

fun trace_text :: "trace_item \<Rightarrow> string" where
  "trace_text (Insn pc insn) = ''0x'' @ hex_pad 8 pc @ '':'' @ insn"
| "trace_text (Other l) = l"

fun trace_ok :: "trace_item \<Rightarrow> bool" where
  "trace_ok (Insn pc insn) = (0 \<le> pc \<and> nl_c \<notin> set insn \<and> CHR 0x0D \<notin> set insn)"
| "trace_ok (Other l) = (nl_c \<notin> set l \<and> CHR 0x0D \<notin> set l \<and> (CHR '':'' \<in> set l \<longrightarrow> isl (int_base 0 (takeWhile (\<lambda>c. c \<noteq> CHR '':'') l))))"

definition has_value :: "int \<Rightarrow> elf_symbol \<Rightarrow> bool" where
  "has_value pc s = (ebind (symbol_getitem s ''st_value'') as_int = Inr pc)"

text \<open>What is shown of it: the name of the last symbol at the address, where there is one.\<close>

fun shown :: "elf_symbol list \<Rightarrow> trace_item \<Rightarrow> string list" where
  "shown syms (Insn pc insn) = (case find (has_value pc) (rev syms) of
     None \<Rightarrow> [strip (trace_text (Insn pc insn))]
   | Some s \<Rightarrow> (case sy_name s of None \<Rightarrow> [] | Some name \<Rightarrow> [name @ strip ('':'' @ insn)]))"
| "shown syms (Other l) = []"

lemma add_symbols_map:
  "add_symbols ss d = Inr d' \<Longrightarrow> map_of d' pc = (case find (has_value pc) (rev ss) of None \<Rightarrow> map_of d pc | Some s \<Rightarrow> Some (sy_name s))"
proof (induction ss arbitrary: d)
  case (Cons s ss)
  then obtain n where n: "ebind (symbol_getitem s ''st_value'') as_int = Inr n" "add_symbols ss (dict_set n (sy_name s) d) = Inr d'"
    by (auto simp: ebind_Inr_iff)
  have f: "find P (xs @ [x]) = (case find P xs of None \<Rightarrow> if P x then Some x else None | r \<Rightarrow> r)" for P and xs :: "elf_symbol list" and x
    by (induction xs) auto
  show ?case using Cons.IH [OF n(2)] n(1) by (auto simp: f has_value_def split: option.split)
qed simp

lemma find_char: "find_str [c] l = (if c \<in> set l then Some (length (takeWhile (\<lambda>x. x \<noteq> c) l)) else None)"
  by (induction l) auto

lemma trace_line_shown:
  assumes "add_symbols syms [] = Inr d" "trace_ok i"
  shows "trace_line d (trace_text i) = shown syms i"
proof (cases i)
  case (Insn pc insn)
  let ?a = "''0x'' @ hex_pad 8 pc"
  have a: "CHR '':'' \<notin> set ?a" using assms(2) Insn hex_pad_nonspace by simp
  then have t: "takeWhile (\<lambda>x. x \<noteq> CHR '':'') (?a @ '':'' @ insn) = ?a" by (subst takeWhile_append2) auto
  have f: "find_str '':'' (trace_text i) = Some (length ?a)" unfolding find_char using t Insn by simp
  have n: "int_base 0 ?a = Inr pc" using assms(2) Insn by (intro int_base_hex) simp
  have p: "take (length ?a) (trace_text i) = ?a" "drop (length ?a) (trace_text i) = '':'' @ insn" using Insn by simp_all
  have "trace_line d (trace_text i) = (case map_of d pc of None \<Rightarrow> [strip (trace_text i)] | Some None \<Rightarrow> []
      | Some (Some name) \<Rightarrow> [name @ strip ('':'' @ insn)])" unfolding trace_line_def f option.case p n sum.case ..
  then show ?thesis unfolding Insn using add_symbols_map [OF assms(1), of pc] by (auto split: option.split)
next
  case (Other l)
  let ?a = "takeWhile (\<lambda>c. c \<noteq> CHR '':'') l"
  have "take (length ?a) l = ?a" by (rule takeWhile_eq_take [symmetric])
  then show ?thesis using assms(2) Other by (cases "int_base 0 ?a") (simp_all add: trace_line_def find_char)
qed

text \<open>C19: In a trace, each line of an instruction is shown with the name of the last symbol of the kernel whose value is its address, or as it is when there is none, in order; lines that do not start with an address are left out.\<close>

theorem trace_names_symbols:
  assumes "add_symbols syms [] = Inr d" "list_all trace_ok items"
  shows "runner_run True True d (concat (map (\<lambda>i. trace_text i @ [nl_c]) items)) = join_with [nl_c] (concat (map (shown syms) items))"
proof -
  have plain: "nl_c \<notin> set (trace_text i) \<and> CHR 0x0D \<notin> set (trace_text i)" if "i \<in> set items" for i
    using assms(2) that by (cases i) (auto simp: list_all_iff dest!: bspec hex_pad_nonspace)
  then have "splitlines (concat (map (\<lambda>l. l @ [nl_c]) (map trace_text items))) = map trace_text items" by (intro splitlines_lines) auto
  moreover have "map (\<lambda>i. trace_line d (trace_text i)) items = map (shown syms) items"
    using assms trace_line_shown by (auto simp: list_all_iff)
  ultimately show ?thesis by (simp add: runner_run_def o_def cong: map_cong)
qed

definition demo_symbols :: "elf_symbol list" where
  "demo_symbols = [\<lparr>sy_entry = [(''st_value'', PInt 16)], sy_name = Some ''a''\<rparr>, \<lparr>sy_entry = [(''st_value'', PInt 16)], sy_name = Some ''main''\<rparr>]"

theorem trace_names_symbols_witness:
  "runner_run True True [(16, Some ''main'')] (concat (map (\<lambda>i. trace_text i @ [nl_c]) [Other ''IN:'', Insn 16 '' nop '', Insn 17 ''ret''])) =
     ''main: nop'' @ [nl_c] @ ''0x00000011:ret''"
proof -
  have "add_symbols demo_symbols [] = Inr [(16, Some ''main'')]" by code_simp
  moreover have "list_all trace_ok [Other ''IN:'', Insn 16 '' nop '', Insn 17 ''ret'']" by code_simp
  moreover have "concat (map (shown demo_symbols) [Other ''IN:'', Insn 16 '' nop '', Insn 17 ''ret'']) = [''main: nop'', ''0x00000011:ret'']" by code_simp
  moreover note run = trace_names_symbols [OF calculation(1,2)]
  ultimately show ?thesis unfolding run by simp
qed

text \<open>The dictionary of a runner is that of all symbols of all symbol tables.\<close>

fun all_symbols :: "nat \<Rightarrow> nat \<Rightarrow> int list \<Rightarrow> elf_symbol list em" where
  "all_symbols k fuel [] = sret []"
| "all_symbols k fuel (n # ns) = sbind (get_section k fuel n) (\<lambda>sec.
     sbind (case sec of SymbolTableSection h t strtab \<Rightarrow> (\<lambda>E. on_file (\<lambda>E. iter_symbols fuel (ef_structs E) sec) E) | _ \<Rightarrow> sret [])
       (\<lambda>ss. sbind (all_symbols k fuel ns) (\<lambda>r. sret (ss @ r))))"

lemma add_symbols_append: "add_symbols (xs @ ys) d = ebind (add_symbols xs d) (add_symbols ys)"
  by (induction xs arbitrary: d) (simp_all add: ebind_def split: sum.split)

lemma read_symbols_all:
  "read_symbols k fuel ns d E = (Inr d', E') \<Longrightarrow> \<exists>syms. all_symbols k fuel ns E = (Inr syms, E') \<and> add_symbols syms d = Inr d'"
proof (induction ns arbitrary: d E)
  case (Cons n ns)
  then obtain sec E1 d1 E2 where s: "get_section k fuel n E = (Inr sec, E1)"
    "(case sec of SymbolTableSection h t strtab \<Rightarrow>
        sbind (\<lambda>E. on_file (\<lambda>E. iter_symbols fuel (ef_structs E) sec) E) (\<lambda>ss. slift (add_symbols ss d)) | _ \<Rightarrow> sret d) E1 = (Inr d1, E2)"
    "read_symbols k fuel ns d1 E2 = (Inr d', E')"
    by (auto simp: sbind_def split: prod.splits sum.splits)
  from Cons.IH [OF s(3)] obtain r where r: "all_symbols k fuel ns E2 = (Inr r, E')" "add_symbols r d1 = Inr d'" by blast
  from s(2) have "\<exists>ss. (case sec of SymbolTableSection h t strtab \<Rightarrow> (\<lambda>E. on_file (\<lambda>E. iter_symbols fuel (ef_structs E) sec) E) | _ \<Rightarrow> sret []) E1 = (Inr ss, E2)
      \<and> add_symbols ss d = Inr d1"
    by (cases sec) (auto simp: sbind_def slift_def split: prod.splits sum.splits)
  then show ?case using s(1) r by (auto simp: sbind_def add_symbols_append)
qed simp

end
