(* ===== verification/Chapters.thy ===== *)
theory Chapters
  imports Graph PyText
begin

section \<open>The directories of the chapters (\<open>scripts/chapters.py\<close>)\<close>

text \<open>
  Each path through the tutorial to a chapter gets a directory with a link to every source file of its nodes.
  The host is the directories, links and files made so far, under the components of their absolute names; a link
  is not followed, and an \<open>OSError\<close> is an \<open>IOError\<close>. The current directory and the order in which Python
  lists a set of paths are arguments.
\<close>

subsection \<open>\<open>os.path\<close>\<close>

abbreviation slash_c :: char where "slash_c \<equiv> CHR ''/''"

text \<open>The components of a normal absolute name.\<close>

fun norm_step :: "string list \<Rightarrow> string \<Rightarrow> string list" where
  "norm_step cs c = (if c = [] \<or> c = ''.'' then cs else if c = ''..'' then butlast cs else cs @ [c])"

definition norm_comps :: "string \<Rightarrow> string list" where
  "norm_comps p = foldl norm_step [] (split_on slash_c p)"

definition abspath :: "string \<Rightarrow> string \<Rightarrow> string" where
  "abspath cwd p = ''/'' @ join_with ''/'' (norm_comps (path_join cwd p))"

definition dirname :: "string \<Rightarrow> string" where
  "dirname p = (let h = rev (dropWhile (\<lambda>c. c \<noteq> slash_c) (rev p)) in
     if list_all (\<lambda>c. c = slash_c) h then h else rev (dropWhile (\<lambda>c. c = slash_c) (rev h)))"

fun common_prefix :: "'a list \<Rightarrow> 'a list \<Rightarrow> 'a list" where
  "common_prefix (a # as) (b # bs) = (if a = b then a # common_prefix as bs else [])"
| "common_prefix as bs = []"

definition path_list :: "string \<Rightarrow> string \<Rightarrow> string list" where
  "path_list cwd p = filter (\<lambda>x. x \<noteq> []) (split_on slash_c (abspath cwd p))"

definition relpath :: "string \<Rightarrow> string \<Rightarrow> string \<Rightarrow> string" where
  "relpath cwd p start = (let ss = path_list cwd start; ps = path_list cwd p; i = length (common_prefix ss ps);
       rel = replicate (length ss - i) ''..'' @ drop i ps
     in if rel = [] then ''.'' else foldl path_join (hd rel) (tl rel))"

subsection \<open>The host\<close>

record host_tree =
  ht_dirs :: "string list list"
  ht_links :: "(string list \<times> string) list"
  ht_files :: "(string list \<times> string) list"

type_synonym 'a hm = "(host_tree, 'a) st"

definition ht_exists :: "string list \<Rightarrow> host_tree \<Rightarrow> bool" where
  "ht_exists c h = (c = [] \<or> c \<in> set (ht_dirs h) \<or> c \<in> fst ` set (ht_links h) \<or> c \<in> fst ` set (ht_files h))"

definition ht_is_dir :: "string list \<Rightarrow> host_tree \<Rightarrow> bool" where
  "ht_is_dir c h = (c = [] \<or> c \<in> set (ht_dirs h))"

definition os_mkdir :: "string list \<Rightarrow> unit hm" where
  "os_mkdir c = (\<lambda>h. if ht_exists c h \<or> \<not> ht_is_dir (butlast c) h then (Inl IOError, h) else (Inr (), h\<lparr>ht_dirs := ht_dirs h @ [c]\<rparr>))"

text \<open>\<open>os.makedirs\<close>, given the components from the last one.\<close>

fun makedirs_rev :: "string list \<Rightarrow> unit hm" where
  "makedirs_rev [] = sraise IOError"
| "makedirs_rev (x # r) = sbind (\<lambda>h. if ht_exists (rev r) h then (Inr (), h) else makedirs_rev r h) (\<lambda>_. os_mkdir (rev (x # r)))"

definition os_makedirs :: "string \<Rightarrow> string \<Rightarrow> unit hm" where
  "os_makedirs cwd p = makedirs_rev (rev (path_list cwd p))"

definition os_symlink :: "string \<Rightarrow> string \<Rightarrow> string \<Rightarrow> unit hm" where
  "os_symlink cwd target p = (\<lambda>h. let c = path_list cwd p in
     if ht_exists c h \<or> \<not> ht_is_dir (butlast c) h then (Inl IOError, h) else (Inr (), h\<lparr>ht_links := ht_links h @ [(c, target)]\<rparr>))"

definition write_text :: "string \<Rightarrow> string \<Rightarrow> string \<Rightarrow> unit hm" where
  "write_text cwd p s = (\<lambda>h. let c = path_list cwd p in
     if ht_is_dir c h \<or> \<not> ht_is_dir (butlast c) h then (Inl IOError, h) else (Inr (), h\<lparr>ht_files := dict_set c s (ht_files h)\<rparr>))"

definition ignore_errors :: "unit hm \<Rightarrow> unit hm" where
  "ignore_errors m = (\<lambda>h. (Inr (), snd (m h)))"

subsection \<open>Chapters\<close>

text \<open>\<open>repr\<close> of a text, and \<open>str\<close> of a list of texts.\<close>

definition repr_char :: "char \<Rightarrow> char \<Rightarrow> string" where
  "repr_char q c = (if c = q \<or> c = CHR 0x5C then [CHR 0x5C, c] else if c = CHR 0x09 then [CHR 0x5C, CHR ''t''] else if c = nl_c then [CHR 0x5C, CHR ''n'']
     else if c = CHR 0x0D then [CHR 0x5C, CHR ''r''] else if ord_c c < 32 \<or> 127 \<le> ord_c c then [CHR 0x5C, CHR ''x''] @ hex_pad 2 (ord_c c) else [c])"

definition repr_str :: "string \<Rightarrow> string" where
  "repr_str s = (let q = (if CHR 0x27 \<in> set s \<and> CHR 0x22 \<notin> set s then CHR 0x22 else CHR 0x27) in [q] @ concat (map (repr_char q) s) @ [q])"

definition str_list :: "string list \<Rightarrow> string" where
  "str_list xs = ''['' @ join_with '', '' (map repr_str xs) @ '']''"

definition safe_name :: "string \<Rightarrow> string" where
  "safe_name name = map (\<lambda>c. if c = CHR '' '' then CHR ''-'' else c) name"

definition link_file :: "string \<Rightarrow> string \<Rightarrow> string \<Rightarrow> unit hm" where
  "link_file cwd d f = (let target_dir = path_join d (dirname f); target_file = path_join d f in
     sbind (ignore_errors (os_makedirs cwd target_dir)) (\<lambda>_. os_symlink cwd (relpath cwd (abspath cwd f) target_dir) target_file))"

fun link_files :: "string \<Rightarrow> string \<Rightarrow> string list \<Rightarrow> unit hm" where
  "link_files cwd d [] = sret ()"
| "link_files cwd d (f # fs) = sbind (link_file cwd d f) (\<lambda>_. link_files cwd d fs)"

definition node_files :: "graph \<Rightarrow> string \<Rightarrow> string list" where
  "node_files g n = (case map_of (nodes g) n of None \<Rightarrow> [] | Some fs \<Rightarrow> fs)"

fun link_nodes :: "string \<Rightarrow> graph \<Rightarrow> string \<Rightarrow> string list \<Rightarrow> string list hm" where
  "link_nodes cwd g d [] = sret []"
| "link_nodes cwd g d (n # ns) = sbind (link_files cwd d (node_files g n)) (\<lambda>_.
     sbind (link_nodes cwd g d ns) (\<lambda>contents. sret ((n @ '': '' @ str_list (node_files g n)) # contents)))"

definition make_path :: "string \<Rightarrow> graph \<Rightarrow> int \<Rightarrow> string list \<Rightarrow> string \<Rightarrow> unit hm" where
  "make_path cwd g num path d0 = (let d = path_join d0 (''variant-'' @ dec_text num) in
     sbind (os_makedirs cwd d) (\<lambda>_. sbind (link_nodes cwd g d path) (\<lambda>contents.
       write_text cwd (path_join d ''contents.txt'') (join_with [nl_c] contents))))"

fun make_paths :: "string \<Rightarrow> graph \<Rightarrow> int \<Rightarrow> string list list \<Rightarrow> string \<Rightarrow> unit hm" where
  "make_paths cwd g i [] d = sret ()"
| "make_paths cwd g i (p # ps) d = sbind (make_path cwd g i p d) (\<lambda>_. make_paths cwd g (i + 1) ps d)"

definition chapter_make :: "(string set set \<Rightarrow> string list list) \<Rightarrow> nat \<Rightarrow> string \<Rightarrow> graph \<Rightarrow> string \<Rightarrow> string \<Rightarrow> string \<Rightarrow> unit hm" where
  "chapter_make listing fuel cwd g root name directory = sbind (slift (chapter_paths fuel g name root)) (\<lambda>paths.
     let d = path_join directory (safe_name name) in
     sbind (os_makedirs cwd d) (\<lambda>_. make_paths cwd g 0 (listing paths) d))"

fun make_chapters :: "(string set set \<Rightarrow> string list list) \<Rightarrow> nat \<Rightarrow> string \<Rightarrow> graph \<Rightarrow> string \<Rightarrow> string list \<Rightarrow> string \<Rightarrow> unit hm" where
  "make_chapters listing fuel cwd g root [] directory = sret ()"
| "make_chapters listing fuel cwd g root (n # ns) directory =
     sbind (chapter_make listing fuel cwd g root n directory) (\<lambda>_. make_chapters listing fuel cwd g root ns directory)"

definition chapters_main :: "(string set set \<Rightarrow> string list list) \<Rightarrow> nat \<Rightarrow> string \<Rightarrow> string \<Rightarrow> string \<Rightarrow> string \<Rightarrow> unit hm" where
  "chapters_main listing fuel cwd layout directory root = sbind (os_mkdir (path_list cwd directory)) (\<lambda>_.
     sbind (slift (deserialize layout empty_graph)) (\<lambda>g. make_chapters listing fuel cwd g root (map fst (nodes g)) directory))"

subsection \<open>Names\<close>

definition plain :: "string \<Rightarrow> bool" where
  "plain c = (c \<notin> {[], ''.'', ''..''} \<and> slash_c \<notin> set c)"

lemma norm_plain: "list_all plain cs \<Longrightarrow> foldl norm_step acc cs = acc @ cs"
  by (induction cs arbitrary: acc) (auto simp: plain_def)

lemma norm_special [simp]: "norm_step cs [] = cs" "norm_step cs ''.'' = cs" "norm_step cs ''..'' = butlast cs"
  by simp_all

lemma norm_all_plain: "list_all plain acc \<Longrightarrow> (\<And>c. c \<in> set cs \<Longrightarrow> slash_c \<notin> set c) \<Longrightarrow> list_all plain (foldl norm_step acc cs)"
proof (induction cs arbitrary: acc)
  case (Cons c cs)
  have "list_all plain (norm_step acc c)" using Cons.prems by (auto simp: plain_def list_all_iff dest: in_set_butlastD)
  then show ?case using Cons by simp
qed simp

declare norm_step.simps [simp del]

lemma norm_comps_plain: "list_all plain (norm_comps p)"
  unfolding norm_comps_def by (rule norm_all_plain) (auto dest: split_on_notin)

lemma split_join_plain: "list_all plain cs \<Longrightarrow> cs \<noteq> [] \<Longrightarrow> split_on slash_c (join_with ''/'' cs) = cs"
  by (intro split_on_join) (auto simp: list_all_iff plain_def)

lemma split_abs: "list_all plain cs \<Longrightarrow> split_on slash_c (''/'' @ join_with ''/'' cs) = [] # (if cs = [] then [[]] else cs)"
  by (auto simp: split_join_plain)

lemma path_list_norm: "path_list cwd p = norm_comps (path_join cwd p)"
proof -
  have "list_all plain (norm_comps (path_join cwd p))" by (rule norm_comps_plain)
  moreover from this have "filter (\<lambda>x. x \<noteq> []) (norm_comps (path_join cwd p)) = norm_comps (path_join cwd p)"
    by (auto simp: filter_id_conv list_all_iff plain_def)
  ultimately show ?thesis unfolding path_list_def abspath_def by (simp add: split_abs del: append_Cons)
qed

lemma path_list_plain: "list_all plain (path_list cwd p)"
  unfolding path_list_norm by (rule norm_comps_plain)

lemma path_list_abspath: "path_list cwd (abspath cwd p) = path_list cwd p"
proof -
  let ?L = "norm_comps (path_join cwd p)"
  have "path_join cwd (abspath cwd p) = ''/'' @ join_with ''/'' ?L" by (simp add: abspath_def path_join_def)
  then have "norm_comps (path_join cwd (abspath cwd p)) = foldl norm_step [] ([] # (if ?L = [] then [[]] else ?L))"
    using norm_comps_plain [of "path_join cwd p"] by (simp only: norm_comps_def split_abs)
  also have "\<dots> = ?L" using norm_plain [OF norm_comps_plain, of "[]"] by simp
  finally show ?thesis by (simp add: path_list_norm)
qed

lemma norm_join: "\<not> starts ''/'' b \<Longrightarrow> norm_comps (path_join a b) = foldl norm_step (norm_comps a) (split_on slash_c b)"
proof -
  assume b: "\<not> starts ''/'' b"
  consider "a = []" | a' where "a = a' @ ''/''" | "a \<noteq> []" "last a \<noteq> slash_c" by (cases a rule: rev_cases) auto
  then show ?thesis
  proof cases
    case 2
    then show ?thesis using b split_on_append [of slash_c a' b] split_on_append [of slash_c a' "[]"] by (simp add: norm_comps_def path_join_def)
  qed (use b in \<open>simp_all add: norm_comps_def path_join_def split_on_append\<close>)
qed

lemma path_join_assoc: "\<not> starts ''/'' f \<Longrightarrow> path_join cwd (path_join d f) = path_join (path_join cwd d) f"
  by (cases d) (auto simp: path_join_def)

lemma path_list_join: "\<not> starts ''/'' f \<Longrightarrow> path_list cwd (path_join d f) = foldl norm_step (path_list cwd d) (split_on slash_c f)"
  by (simp add: path_list_norm path_join_assoc norm_join)

lemma relative: "list_all plain (split_on slash_c f) \<Longrightarrow> \<not> starts ''/'' f"
  by (cases f) (auto simp: plain_def)

lemma path_list_file: "list_all plain (split_on slash_c f) \<Longrightarrow> path_list cwd (path_join d f) = path_list cwd d @ split_on slash_c f"
  using relative by (simp add: path_list_join norm_plain)

lemma path_list_dir:
  assumes "list_all plain (split_on slash_c f)"
  shows "path_list cwd (path_join d (dirname f)) = path_list cwd d @ butlast (split_on slash_c f)"
proof (cases "slash_c \<in> set f")
  case False
  then have "dropWhile (\<lambda>c. c \<noteq> slash_c) (rev f) = []" by auto
  then have "dirname f = []" unfolding dirname_def Let_def by (simp only: rev.simps list.pred_inject if_True)
  then show ?thesis using False by (simp add: path_list_join split_on_free)
next
  case True
  then obtain u b where f: "f = u @ slash_c # b" "slash_c \<notin> set b" by (metis split_list_last)
  then have s: "split_on slash_c f = split_on slash_c u @ [b]" by (simp add: split_on_append split_on_free)
  then have u: "list_all plain (split_on slash_c u)" using assms by simp
  then have "plain (last (split_on slash_c u))" by (auto simp: list_all_iff)
  then have last: "u \<noteq> [] \<and> last u \<noteq> slash_c"
    using split_on_append [of slash_c "butlast u" "[]"] by (cases u rule: rev_cases) (auto simp: plain_def)
  have "dropWhile (\<lambda>c. c \<noteq> slash_c) (rev b @ slash_c # rev u) = slash_c # rev u" using f(2) by (subst dropWhile_append2) auto
  moreover have "dropWhile (\<lambda>c. c = slash_c) (rev u) = rev u" using last by (cases u rule: rev_cases) auto
  ultimately have "dirname f = u" using last f(1) by (cases u rule: rev_cases) (auto simp: dirname_def Let_def)
  then show ?thesis using path_list_file [OF u, of cwd d] s by simp
qed

subsection \<open>Where a link leads\<close>

lemma join_components: "a \<noteq> [] \<Longrightarrow> last a \<noteq> slash_c \<Longrightarrow> (\<And>c. c \<in> set cs \<Longrightarrow> c \<noteq> [] \<and> slash_c \<notin> set c) \<Longrightarrow>
    foldl path_join a cs = join_with ''/'' (a # cs)"
proof (induction cs arbitrary: a)
  case (Cons c cs)
  have c: "c \<noteq> []" "slash_c \<notin> set c" using Cons.prems(3) by simp_all
  then have "last c \<noteq> slash_c" using last_in_set by metis
  moreover have "path_join a c = a @ ''/'' @ c" using c Cons.prems(1,2) by (cases c) (auto simp: path_join_def)
  moreover have "join_with ''/'' ((a @ ''/'' @ c) # cs) = join_with ''/'' (a # c # cs)" by (cases cs) simp_all
  ultimately show ?case using Cons.IH [of "a @ ''/'' @ c"] Cons.prems c by simp
qed simp

lemma take_common: "take (length (common_prefix as bs)) as = take (length (common_prefix as bs)) bs"
  by (induction as bs rule: common_prefix.induct) auto

lemma common_le: "length (common_prefix as bs) \<le> length as"
  by (induction as bs rule: common_prefix.induct) auto

lemma go_up: "k \<le> length cs \<Longrightarrow> foldl norm_step cs (replicate k ''..'') = take (length cs - k) cs"
proof (induction k arbitrary: cs)
  case (Suc k)
  then have "foldl norm_step (butlast cs) (replicate k ''..'') = take (length (butlast cs) - k) (butlast cs)" by (intro Suc.IH) simp
  then show ?case using Suc.prems by (simp add: butlast_conv_take take_take)
qed simp

lemma plain_drop: "list_all plain cs \<Longrightarrow> list_all plain (drop i cs)"
  unfolding list_all_iff by (blast dest: in_set_dropD)

lemma rel_components:
  assumes "list_all plain ps" "c \<in> set (replicate k ''..'' @ drop i ps)"
  shows "c \<noteq> [] \<and> slash_c \<notin> set c"
proof -
  from assms(2) consider "c = ''..''" | "c \<in> set (drop i ps)" by (auto dest: in_set_replicate [THEN iffD1])
  then show ?thesis
  proof cases
    case 2
    then have "plain c" using plain_drop [OF assms(1), of i] unfolding list_all_iff by blast
    then show ?thesis by (simp add: plain_def)
  qed simp
qed

lemma rel_leads:
  assumes "list_all plain ps"
  shows "foldl norm_step ss (replicate (length ss - length (common_prefix ss ps)) ''..'' @ drop (length (common_prefix ss ps)) ps) = ps"
proof -
  have "foldl norm_step ss (replicate (length ss - length (common_prefix ss ps)) ''..'') = take (length (common_prefix ss ps)) ss"
    using go_up [of "length ss - length (common_prefix ss ps)" ss] common_le [of ss ps] by simp
  then show ?thesis by (simp add: norm_plain [OF plain_drop [OF assms]] take_common)
qed

lemma relpath_leads:
  "foldl norm_step (path_list cwd start) (split_on slash_c (relpath cwd p start)) = path_list cwd p"
proof -
  let ?s = "path_list cwd start" and ?p = "path_list cwd p"
  let ?i = "length (common_prefix ?s ?p)"
  let ?rel = "replicate (length ?s - ?i) ''..'' @ drop ?i ?p"
  have lead: "foldl norm_step ?s ?rel = ?p" by (rule rel_leads [OF path_list_plain])
  have comps: "c \<noteq> [] \<and> slash_c \<notin> set c" if "c \<in> set ?rel" for c by (rule rel_components [OF path_list_plain that])
  show ?thesis
  proof (cases ?rel)
    case Nil
    have "relpath cwd p start = ''.''" unfolding relpath_def Let_def Nil by simp
    then show ?thesis using lead unfolding Nil by simp
  next
    case (Cons a cs)
    have c: "c \<noteq> [] \<and> slash_c \<notin> set c" if "c \<in> set (a # cs)" for c using comps that unfolding Cons .
    then have "last a \<noteq> slash_c" using last_in_set [of a] by (metis list.set_intros(1))
    moreover have "relpath cwd p start = foldl path_join a cs" unfolding relpath_def Let_def Cons by simp
    ultimately have "relpath cwd p start = join_with ''/'' (a # cs)" using join_components [of a cs] c by simp
    moreover have "split_on slash_c (join_with ''/'' (a # cs)) = a # cs" using c by (intro split_on_join) auto
    ultimately show ?thesis using lead unfolding Cons by simp
  qed
qed

subsection \<open>Links stay\<close>

definition keeps :: "'a hm \<Rightarrow> bool" where
  "keeps m = (\<forall>h. set (ht_links h) \<subseteq> set (ht_links (snd (m h))))"

lemma keeps_ret: "keeps (sret x)" "keeps (sraise e)" "keeps (slift r)" "keeps (Pair r)"
  by (auto simp: keeps_def)

lemma keeps_bind: "keeps m \<Longrightarrow> (\<And>x. keeps (f x)) \<Longrightarrow> keeps (sbind m f)"
  unfolding keeps_def sbind_def by (fastforce split: prod.splits sum.splits)

lemma keeps_ops: "keeps (os_mkdir c)" "keeps (os_symlink cwd t p)" "keeps (write_text cwd p s)"
  by (auto simp: keeps_def os_mkdir_def os_symlink_def write_text_def Let_def)

lemma keeps_makedirs: "keeps (makedirs_rev c)"
proof (induction c)
  case (Cons x r)
  then have "keeps (\<lambda>h. if ht_exists (rev r) h then (Inr (), h) else makedirs_rev r h)" by (auto simp: keeps_def)
  then show ?case by (simp add: keeps_bind keeps_ops)
qed (simp add: keeps_ret)

lemma keeps_link_file: "keeps (link_file cwd d f)"
proof -
  have "keeps (ignore_errors m)" if "keeps m" for m using that by (simp add: keeps_def ignore_errors_def)
  then show ?thesis by (simp add: link_file_def Let_def keeps_bind keeps_ops os_makedirs_def keeps_makedirs)
qed

lemma keeps_link_files: "keeps (link_files cwd d fs)"
  by (induction fs) (simp_all add: keeps_ret keeps_bind keeps_link_file)

lemma keeps_link_nodes: "keeps (link_nodes cwd g d ns)"
  by (induction ns) (simp_all add: keeps_ret keeps_bind keeps_link_files)

lemma keeps_make_path: "keeps (make_path cwd g i p d)"
  by (simp add: make_path_def Let_def keeps_bind keeps_link_nodes keeps_ops os_makedirs_def keeps_makedirs)

lemma keeps_make_paths: "keeps (make_paths cwd g i ps d)"
  by (induction ps arbitrary: i) (simp_all add: keeps_ret keeps_bind keeps_make_path)

lemma links_keepD: "keeps m \<Longrightarrow> m h = (r, h') \<Longrightarrow> x \<in> set (ht_links h) \<Longrightarrow> x \<in> set (ht_links h')"
  unfolding keeps_def by (drule spec [of _ h]) auto

subsection \<open>Every path has its links\<close>

text \<open>A link is at \<open>c\<close>, and following it from its directory leads to \<open>goal\<close>.\<close>

definition leads :: "(string list \<times> string) list \<Rightarrow> string list \<Rightarrow> string list \<Rightarrow> bool" where
  "leads links c goal = (\<exists>(c', t) \<in> set links. c' = c \<and> foldl norm_step (butlast c) (split_on slash_c t) = goal)"

lemma leads_keep: "keeps m \<Longrightarrow> m h = (r, h') \<Longrightarrow> leads (ht_links h) c goal \<Longrightarrow> leads (ht_links h') c goal"
  unfolding leads_def using links_keepD by blast

lemma link_file_leads:
  assumes "link_file cwd d f h = (Inr (), h')" "list_all plain (split_on slash_c f)"
  shows "leads (ht_links h') (path_list cwd d @ split_on slash_c f) (path_list cwd f)"
proof -
  let ?t = "relpath cwd (abspath cwd f) (path_join d (dirname f))" and ?c = "path_list cwd (path_join d f)"
  have c: "?c = path_list cwd d @ split_on slash_c f" by (rule path_list_file [OF assms(2)])
  have "butlast ?c = path_list cwd (path_join d (dirname f))" unfolding c path_list_dir [OF assms(2)] by (simp add: butlast_append)
  then have "foldl norm_step (butlast ?c) (split_on slash_c ?t) = path_list cwd f" using relpath_leads path_list_abspath by simp
  moreover have "(?c, ?t) \<in> set (ht_links h')"
    using assms(1) by (auto simp: link_file_def Let_def ignore_errors_def sbind_def os_symlink_def split: prod.splits sum.splits if_splits)
  ultimately show ?thesis unfolding leads_def c by blast
qed

lemma link_files_lead:
  "link_files cwd d fs h = (Inr (), h') \<Longrightarrow> f \<in> set fs \<Longrightarrow> list_all plain (split_on slash_c f) \<Longrightarrow>
   leads (ht_links h') (path_list cwd d @ split_on slash_c f) (path_list cwd f)"
proof (induction fs arbitrary: h)
  case (Cons g fs)
  then obtain h1 where h: "link_file cwd d g h = (Inr (), h1)" "link_files cwd d fs h1 = (Inr (), h')" by (auto simp: sbind_eq_Inr)
  show ?case
  proof (cases "f = g")
    case True
    then show ?thesis using leads_keep [OF keeps_link_files h(2)] link_file_leads h(1) Cons.prems(3) by blast
  qed (use Cons h in auto)
qed simp

lemma link_nodes_lead:
  "link_nodes cwd g d ns h = (Inr cs, h') \<Longrightarrow> n \<in> set ns \<Longrightarrow> f \<in> set (node_files g n) \<Longrightarrow> list_all plain (split_on slash_c f) \<Longrightarrow>
   leads (ht_links h') (path_list cwd d @ split_on slash_c f) (path_list cwd f)"
proof (induction ns arbitrary: h cs)
  case (Cons m ns)
  then obtain h1 cs' where h: "link_files cwd d (node_files g m) h = (Inr (), h1)" "link_nodes cwd g d ns h1 = (Inr cs', h')" by (auto simp: sbind_eq_Inr)
  show ?case
  proof (cases "n = m")
    case True
    then show ?thesis using leads_keep [OF keeps_link_nodes h(2)] link_files_lead h(1) Cons.prems(3,4) by blast
  qed (use Cons h in auto)
qed simp

definition variant_dir :: "string \<Rightarrow> int \<Rightarrow> string" where
  "variant_dir d i = path_join d (''variant-'' @ dec_text i)"

lemma make_path_leads:
  assumes "make_path cwd g i p d h = (Inr (), h')" "n \<in> set p" "f \<in> set (node_files g n)" "list_all plain (split_on slash_c f)"
  shows "leads (ht_links h') (path_list cwd (variant_dir d i) @ split_on slash_c f) (path_list cwd f)"
proof -
  from assms(1) obtain h1 cs h2 where "link_nodes cwd g (variant_dir d i) p h1 = (Inr cs, h2)"
    "write_text cwd (path_join (variant_dir d i) ''contents.txt'') (join_with [nl_c] cs) h2 = (Inr (), h')"
    unfolding make_path_def variant_dir_def [symmetric] Let_def by (auto simp: sbind_eq_Inr)
  then show ?thesis using leads_keep [OF keeps_ops(3)] link_nodes_lead assms(2-4) by blast
qed

lemma make_paths_lead:
  "make_paths cwd g i ps d h = (Inr (), h') \<Longrightarrow> p \<in> set ps \<Longrightarrow> \<exists>k. \<forall>n \<in> set p. \<forall>f \<in> set (node_files g n). list_all plain (split_on slash_c f) \<longrightarrow>
     leads (ht_links h') (path_list cwd (variant_dir d (i + int k)) @ split_on slash_c f) (path_list cwd f)"
proof (induction ps arbitrary: i h)
  case (Cons q ps)
  then obtain h1 where h: "make_path cwd g i q d h = (Inr (), h1)" "make_paths cwd g (i + 1) ps d h1 = (Inr (), h')" by (auto simp: sbind_eq_Inr)
  show ?case
  proof (cases "p = q")
    case True
    then show ?thesis using leads_keep [OF keeps_make_paths h(2)] make_path_leads [OF h(1)] by (intro exI [of _ 0]) simp
  next
    case False
    then have "p \<in> set ps" using Cons.prems(2) by simp
    from Cons.IH [OF h(2) this] obtain k where "\<forall>n \<in> set p. \<forall>f \<in> set (node_files g n). list_all plain (split_on slash_c f) \<longrightarrow>
      leads (ht_links h') (path_list cwd (variant_dir d (i + 1 + int k)) @ split_on slash_c f) (path_list cwd f)" by blast
    then show ?thesis by (intro exI [of _ "Suc k"]) (simp add: algebra_simps)
  qed
qed simp

text \<open>C14: When the directory of a chapter has been made, each path that the search found to the chapter has a variant, in which every source file of every node on the path whose name is a plain relative name (no empty, . or .. component) has a link under its own name; following the link from where it is leads to that file. The paths are a set of sets in the code: the theorem holds for any order in which they are listed.\<close>

theorem chapter_links:
  assumes "chapter_make listing fuel cwd g root name directory h = (Inr (), h')"
    and "find_paths fuel g root name = Inr ps" and "set ` set (listing (set ` set ps)) = set ` set ps"
    and "p \<in> set ps"
  shows "\<exists>k. \<forall>n \<in> set p. \<forall>f \<in> set (node_files g n). list_all plain (split_on slash_c f) \<longrightarrow>
     leads (ht_links h') (path_list cwd (variant_dir (path_join directory (safe_name name)) (int k)) @ split_on slash_c f) (path_list cwd f)"
proof -
  from assms(3,4) obtain q where q: "q \<in> set (listing (set ` set ps))" "set q = set p" by (metis imageE imageI)
  from assms(1,2) obtain h1 where "make_paths cwd g 0 (listing (set ` set ps)) (path_join directory (safe_name name)) h1 = (Inr (), h')"
    unfolding chapter_make_def chapter_paths_def Let_def by (auto simp: sbind_eq_Inr)
  from make_paths_lead [OF this q(1)] show ?thesis unfolding q(2) by simp
qed

definition demo_graph :: graph where
  "demo_graph = \<lparr>edges = [(''a'', ''b'')], nodes = [(''a'', [''Makefile'']), (''b'', [''src/io.h''])]\<rparr>"

definition tree_with :: "string list list \<Rightarrow> (string list \<times> string) list \<Rightarrow> (string list \<times> string) list \<Rightarrow> host_tree" where
  "tree_with ds ls fs = \<lparr>ht_dirs = [[''w''], [''w'', ''out'']] @ ds, ht_links = ls, ht_files = fs\<rparr>"

definition demo_dir :: "string list" where
  "demo_dir = [''w'', ''out'', ''b'', ''variant-0'']"

definition demo_links :: "(string list \<times> string) list" where
  "demo_links = [(demo_dir @ [''Makefile''], ''../../../Makefile''), (demo_dir @ [''src'', ''io.h''], ''../../../../src/io.h'')]"

definition demo_tree :: host_tree where
  "demo_tree = tree_with [[''w'', ''out'', ''b''], demo_dir, demo_dir @ [''src'']] demo_links
     [(demo_dir @ [''contents.txt''], ''a: ['' @ [CHR 0x27] @ ''Makefile'' @ [CHR 0x27] @ '']'' @ [nl_c] @ ''b: ['' @ [CHR 0x27] @ ''src/io.h'' @ [CHR 0x27] @ '']'')]"

text \<open>An equation that evaluates the rest of the text once.\<close>

lemma split_on_code [code]:
  "split_on a [] = [[]]"
  "split_on a (x # xs) = (if x = a then [] # split_on a xs else (case split_on a xs of [] \<Rightarrow> [] | w # ws \<Rightarrow> (x # w) # ws))"
  by (auto split: list.split)

lemma demo_names: "find_paths 3 demo_graph ''a'' ''b'' = Inr [[''a'', ''b'']]" "path_join ''out'' (safe_name ''b'') = ''out/b''"
  "path_join ''out/b'' (''variant-'' @ dec_text 0) = ''out/b/variant-0''" "path_join ''out/b/variant-0'' ''contents.txt'' = ''out/b/variant-0/contents.txt''"
  "node_files demo_graph ''a'' = [''Makefile'']" "node_files demo_graph ''b'' = [''src/io.h'']"
  by code_simp+

lemma demo_lists:
  "path_list ''/w'' ''out/b'' = [''w'', ''out'', ''b'']" "path_list ''/w'' ''out/b/variant-0'' = [''w'', ''out'', ''b'', ''variant-0'']"
  "path_join ''out/b/variant-0'' (dirname ''Makefile'') = ''out/b/variant-0/''" "path_join ''out/b/variant-0'' (dirname ''src/io.h'') = ''out/b/variant-0/src''"
  "path_list ''/w'' ''out/b/variant-0/'' = [''w'', ''out'', ''b'', ''variant-0'']"
  "path_list ''/w'' ''out/b/variant-0/src'' = [''w'', ''out'', ''b'', ''variant-0'', ''src'']"
  "path_join ''out/b/variant-0'' ''Makefile'' = ''out/b/variant-0/Makefile''" "path_join ''out/b/variant-0'' ''src/io.h'' = ''out/b/variant-0/src/io.h''"
  "path_list ''/w'' ''out/b/variant-0/Makefile'' = [''w'', ''out'', ''b'', ''variant-0'', ''Makefile'']"
  "path_list ''/w'' ''out/b/variant-0/src/io.h'' = [''w'', ''out'', ''b'', ''variant-0'', ''src'', ''io.h'']"
  "path_list ''/w'' ''out/b/variant-0/contents.txt'' = [''w'', ''out'', ''b'', ''variant-0'', ''contents.txt'']"
  "relpath ''/w'' (abspath ''/w'' ''Makefile'') ''out/b/variant-0/'' = ''../../../Makefile''"
  "relpath ''/w'' (abspath ''/w'' ''src/io.h'') ''out/b/variant-0/src'' = ''../../../../src/io.h''"
  by code_simp+

lemmas demo_run = demo_lists tree_with_def demo_dir_def demo_links_def ht_exists_def ht_is_dir_def os_mkdir_def os_makedirs_def sbind_def

lemma demo_steps:
  "os_makedirs ''/w'' ''out/b'' (tree_with [] [] []) = (Inr (), tree_with [[''w'', ''out'', ''b'']] [] [])"
  "os_makedirs ''/w'' ''out/b/variant-0'' (tree_with [[''w'', ''out'', ''b'']] [] []) = (Inr (), tree_with [[''w'', ''out'', ''b''], demo_dir] [] [])"
  "link_file ''/w'' ''out/b/variant-0'' ''Makefile'' (tree_with [[''w'', ''out'', ''b''], demo_dir] [] []) =
     (Inr (), tree_with [[''w'', ''out'', ''b''], demo_dir] [hd demo_links] [])"
  "link_file ''/w'' ''out/b/variant-0'' ''src/io.h'' (tree_with [[''w'', ''out'', ''b''], demo_dir] [hd demo_links] []) =
     (Inr (), tree_with [[''w'', ''out'', ''b''], demo_dir, demo_dir @ [''src'']] demo_links [])"
  unfolding link_file_def Let_def demo_lists by (simp_all add: demo_run os_symlink_def ignore_errors_def)

lemma demo_text: "join_with [nl_c] [''a: '' @ str_list [''Makefile''], ''b: '' @ str_list [''src/io.h'']] =
    ''a: ['' @ [CHR 0x27] @ ''Makefile'' @ [CHR 0x27] @ '']'' @ [nl_c] @ ''b: ['' @ [CHR 0x27] @ ''src/io.h'' @ [CHR 0x27] @ '']''"
  by code_simp

lemma demo_written: "write_text ''/w'' ''out/b/variant-0/contents.txt'' (join_with [nl_c] [''a: '' @ str_list [''Makefile''], ''b: '' @ str_list [''src/io.h'']])
    (tree_with [[''w'', ''out'', ''b''], demo_dir, demo_dir @ [''src'']] demo_links []) = (Inr (), demo_tree)"
  unfolding demo_text by (simp add: demo_run write_text_def demo_tree_def)

lemma demo_made: "chapter_make (\<lambda>_. [[''a'', ''b'']]) 3 ''/w'' demo_graph ''a'' ''b'' ''out'' (tree_with [] [] []) = (Inr (), demo_tree)"
  unfolding chapter_make_def chapter_paths_def make_path_def make_paths.simps link_nodes.simps link_files.simps demo_names Let_def
  by (simp add: sbind_def demo_steps demo_written [simplified])

theorem chapter_links_witness:
  "\<exists>k. leads (ht_links demo_tree) (path_list ''/w'' (variant_dir ''out/b'' (int k)) @ [''src'', ''io.h'']) [''w'', ''src'', ''io.h'']"
proof -
  have names: "split_on slash_c ''src/io.h'' = [''src'', ''io.h'']" "path_list ''/w'' ''src/io.h'' = [''w'', ''src'', ''io.h'']"
    "list_all plain [''src'', ''io.h'']" by code_simp+
  from chapter_links [OF demo_made demo_names(1), of "[''a'', ''b'']"] obtain k where "\<forall>n \<in> set [''a'', ''b'']. \<forall>f \<in> set (node_files demo_graph n). list_all plain (split_on slash_c f) \<longrightarrow>
      leads (ht_links demo_tree) (path_list ''/w'' (variant_dir ''out/b'' (int k)) @ split_on slash_c f) (path_list ''/w'' f)" unfolding demo_names by auto
  from bspec [OF this, of "''b''"] show ?thesis unfolding demo_names using names(3) by (intro exI [of _ k]) (simp add: names(1,2))
qed

end
