(* ===== verification/TocGraph.thy ===== *)
theory TocGraph
  imports Graph PyText
begin

section \<open>The directives of the documentation (\<open>doc/sphinx_extensions\<close>)\<close>

text \<open>
  What the directives \<open>coderef\<close> and \<open>tocgraph\<close> give to Sphinx: the pieces of HTML around a block of code, the
  graph of the chapters as a text for \<open>dot\<close>, and the links from the page of a chapter to the chapters before and
  behind it. Sphinx itself (a block of code, the titles of pages and their addresses) is an argument.
\<close>

subsection \<open>Code\<close>

definition ends_with :: "string \<Rightarrow> string \<Rightarrow> bool" where
  "ends_with p s = starts (rev p) (rev s)"

definition coderef_language :: "string \<Rightarrow> string" where
  "coderef_language file = (if ends_with ''.c'' file \<or> ends_with ''.h'' file then ''c'' else ''python'')"

definition coderef_run :: "(string \<Rightarrow> string) \<Rightarrow> bool \<Rightarrow> string \<Rightarrow> string list" where
  "coderef_run code_block first_of_file file =
     [''<div class='' @ [CHR 0x22] @ ''source'' @ [CHR 0x22] @ ''>'',
      ''<div class='' @ [CHR 0x22] @ (if first_of_file then ''filename first_of_file'' else ''filename'') @ [CHR 0x22] @ ''>'' @ file @ ''</div>'',
      code_block (coderef_language file), ''</div>'']"

subsection \<open>The graph of the chapters\<close>

definition mangle_name :: "string \<Rightarrow> string" where
  "mangle_name n = map (\<lambda>c. lower_c (if c = CHR '' '' then CHR ''-'' else c)) n"

definition toctree_content :: "graph \<Rightarrow> string list" where
  "toctree_content g = map (mangle_name \<circ> fst) (nodes g)"

definition upper_c :: "char \<Rightarrow> char" where
  "upper_c c = (if 97 \<le> ord_c c \<and> ord_c c \<le> 122 then chr_c (ord_c c - 32) else c)"

definition is_letter :: "char \<Rightarrow> bool" where
  "is_letter c = (65 \<le> ord_c (upper_c c) \<and> ord_c (upper_c c) \<le> 90)"

text \<open>\<open>str.title\<close>: letters behind a letter are made small, the others large.\<close>

fun title_from :: "bool \<Rightarrow> string \<Rightarrow> string" where
  "title_from inside [] = []"
| "title_from inside (c # s) = (if inside then lower_c c else upper_c c) # title_from (is_letter c) s"

definition title_case :: "string \<Rightarrow> string" where
  "title_case = title_from False"

definition quoted :: "string \<Rightarrow> string" where
  "quoted s = [CHR 0x22] @ s @ [CHR 0x22]"

definition get_as_dot :: "graph \<Rightarrow> (string \<times> string) list \<Rightarrow> string \<Rightarrow> string" where
  "get_as_dot g urls css = join_with [nl_c]
     ([''digraph G {'', ''node [shape=box fontsize=16 fontname='' @ quoted ''sans-serif'' @ '' peripheries=0]'',
       ''graph [size='' @ quoted ''6.25,30.0'' @ '' stylesheet='' @ quoted css @ '']'', ''edge [weight='' @ quoted ''1'' @ '']''] @
      map (\<lambda>(a, b). quoted (title_case a) @ '' -> '' @ quoted (title_case b)) (edges g) @
      map (\<lambda>(k, v). quoted (title_case k) @ '' [URL='' @ quoted v @ '' target='' @ quoted ''_top'' @ '']'') urls @ [''}''])"

text \<open>The addresses of the pages that have a title; a chapter without a page is an \<open>AttributeError\<close>.\<close>

fun node_urls :: "(string \<Rightarrow> string option) \<Rightarrow> (string \<Rightarrow> string) \<Rightarrow> string list \<Rightarrow> pyexc + (string \<times> string) list" where
  "node_urls titles target_uri [] = Inr []"
| "node_urls titles target_uri (n # ns) = (case titles (mangle_name n) of None \<Rightarrow> Inl AttributeError
     | Some title \<Rightarrow> ebind (node_urls titles target_uri ns) (\<lambda>r.
         Inr (if title \<noteq> ''<no title>'' then (n, ''../'' @ target_uri (mangle_name n)) # r else r)))"

definition tocgraph_dot :: "(string \<Rightarrow> string option) \<Rightarrow> (string \<Rightarrow> string) \<Rightarrow> graph \<Rightarrow> pyexc + string" where
  "tocgraph_dot titles target_uri g = ebind (node_urls titles target_uri (map fst (nodes g))) (\<lambda>urls.
     Inr (get_as_dot g urls ''../_static/default_svg.css''))"

subsection \<open>The links of a page\<close>

record page_link =
  pl_title :: string
  pl_link :: string

definition link_object :: "(string \<Rightarrow> string) \<Rightarrow> (string \<Rightarrow> string) \<Rightarrow> string \<Rightarrow> page_link" where
  "link_object long_title target_uri docname = \<lparr>pl_title = long_title docname, pl_link = target_uri docname\<rparr>"

text \<open>The dictionary from pages to nodes: of two nodes with one page, the later one is in it.\<close>

definition page_nodes :: "graph \<Rightarrow> (string \<times> string) list" where
  "page_nodes g = foldl (\<lambda>d (n, fs). dict_set (mangle_name n) n d) [] (nodes g)"

definition html_page_context :: "(string \<Rightarrow> page_link) \<Rightarrow> graph \<Rightarrow> string \<Rightarrow> (page_link list \<times> page_link list) option" where
  "html_page_context link g pagename = (case map_of (page_nodes g) pagename of None \<Rightarrow> None
     | Some n \<Rightarrow> Some (map (link \<circ> mangle_name) (next_nodes g n), map (link \<circ> mangle_name) (prev_nodes g n)))"

lemma page_nodes_map:
  assumes "inj_on mangle_name (fst ` set (nodes g))" "n \<in> fst ` set (nodes g)"
  shows "map_of (page_nodes g) (mangle_name n) = Some n"
proof -
  have "map_of (foldl (\<lambda>d (n, fs). dict_set (mangle_name n) n d) d ns) (mangle_name n) = (if n \<in> fst ` set ns then Some n else map_of d (mangle_name n))"
    if "inj_on mangle_name (insert n (fst ` set ns))" for d and ns :: "(string \<times> string list) list"
    using that
  proof (induction ns arbitrary: d)
    case (Cons x ns)
    obtain m fs where x: "x = (m, fs)" by (rule prod.exhaust)
    have "inj_on mangle_name (insert n (fst ` set ns))" using Cons.prems by (rule inj_on_subset) auto
    note IH = Cons.IH [OF this, of "dict_set (mangle_name m) m d"]
    have "mangle_name n = mangle_name m \<longleftrightarrow> n = m" using Cons.prems x by (auto simp: inj_on_def)
    then show ?case using IH x by auto
  qed simp
  from this [of "nodes g" "[]"] assms show ?thesis by (simp add: page_nodes_def insert_absorb)
qed

text \<open>
  When no two chapters share a page, the page of \<open>a\<close> has, among the links to what is next, a link for every edge
  from \<open>a\<close>, and the page of \<open>b\<close> has one back for the same edge.
\<close>

theorem page_links:
  assumes "inj_on mangle_name (fst ` set (nodes g))" "a \<in> fst ` set (nodes g)"
  shows "\<exists>nexts prevs. html_page_context link g (mangle_name a) = Some (nexts, prevs) \<and>
    set nexts = {link (mangle_name b) | b. (a, b) \<in> set (edges g)} \<and> set prevs = {link (mangle_name b) | b. (b, a) \<in> set (edges g)}"
  unfolding html_page_context_def page_nodes_map [OF assms] by (force simp: next_nodes_def prev_nodes_def)

end
