(* ===== verification/Spec2Isabelle.thy ===== *)
theory Spec2Isabelle
  imports Prelude Scantable ScanText Graph BinaryLib PyStream PyValue ConstructCore ConstructAdapters
    ConstructMacros ConstructSpec ConstructSafety ConstructTypes ElfUtils ElfEnums DwarfEnums ElfStructs
    DwarfStructs DwarfHeaders DwarfAbbrev DwarfForward DwarfLines DwarfFrames DwarfBlocks
    DwarfFrameParse DwarfReads DwarfLists DwarfUnits DwarfTree
    DwarfUnitParse ElfFiles ElfImage ElfRelocs ElfDescr PyText Docs DwarfExpr DwarfDescr
    Fstest FsModel OrderedDicts RunTools Chapters TocGraph
begin

section \<open>The Python programs of JMTK\<close>

text \<open>
  JMTK is a kernel in C; its Python programs, under \<open>scripts/\<close>, run when it is built, tested and
  documented: a compiler for keyboard scancode tables (\<open>scantable.py\<close>), the chapters of the tutorial and
  their order (\<open>graph.py\<close>, \<open>chapters.py\<close>, \<open>docs.py\<close>), the drivers that run a kernel and read what it prints
  (\<open>run.py\<close>, \<open>gcov_convert.py\<close>, \<open>image.py\<close>), the test of its file systems (\<open>fstest.py\<close>), and readers of ELF
  and DWARF files (\<open>scripts/elftools\<close>, a copy of pyelftools, which rests on the parser library
  \<open>scripts/elftools/construct\<close>). This library models them in Isabelle/HOL and proves what makes
  them correct. \<open>scripts/pyelftools-0.20\<close> is the release that \<open>scripts/elftools\<close> was copied from,
  file by file the same, so a theorem about the one is a theorem about the other.

  \<^bold>\<open>Conventions.\<close> An exception is a value of \<open>pyexc\<close> and a call that may raise one returns a sum
  (\<open>Inl\<close> the exception; an \<open>OSError\<close> is an \<open>IOError\<close>). Code that changes state is a function from states to
  results and states, composed by \<open>sbind\<close>; after an exception the state is what it was when the exception was
  raised. Python's integers are \<open>int\<close>, its byte strings lists of \<open>char\<close> (\<open>ord_c\<close> and \<open>chr_c\<close> convert), and a
  dictionary is an association list in the order of insertion (\<open>dict_set\<close>, \<open>dict_get\<close>). Objects that are
  shared and changed are positions in a store: the lines of a frame table, the links of an ordered dictionary,
  the nodes of the tree of files, the objects under construction in a parse. What programs and libraries
  outside the repository do is an argument.

  \<^bold>\<open>Fuel.\<close> A loop or recursion whose end is not plain from its data has fuel; \<open>Inl NoFuel\<close> means that it
  ran out, and for each such loop a theorem says how much is enough or that no amount is. In the readers it is
  the length of the data plus one, since every round ends behind where it began, also when a length read from the
  data moves the stream (\<open>dwarf_parse_ends\<close>, \<open>line_program_ends\<close>); the
  links between ELF sections need the number of sections plus one, unless they form a cycle
  (\<open>elf_links_end\<close>); the nesting of includes is bounded by the number of files (\<open>lex_terminates\<close>); the search for
  paths by the words without a doubled cycle (\<open>find_paths_terminates\<close>), and by nothing on a self loop. A frame
  section whose first CIE lies behind its FDE is read for ever (\<open>frame_entries_stuck\<close>).

  \<^bold>\<open>How the parts interact.\<close> Every reader is a construct applied to a stream. \<open>ELFFile\<close> reads headers and
  sections with the structures of \<open>ElfStructs\<close>, applies relocations, and hands the debug sections to
  \<open>DWARFInfo\<close>, which reads units, entries, line programs, frames and lists with the structures of
  \<open>DwarfStructs\<close>; the descriptions print what was read, and \<open>run.py\<close> takes symbols from the sections. The paths
  that \<open>graph.py\<close> finds are what \<open>chapters.py\<close> makes directories for.

  \<^bold>\<open>The theories.\<close>
  \<^item> \<open>Prelude\<close>: exceptions, the state monad, what makes a computation return (\<open>st_ok\<close>), Python's
    indexing and dictionaries, lists. \<open>PyText\<close>: the methods of \<open>str\<close>, patterns of \<open>re\<close>, numbers as text, names
    of files.
  \<^item> \<open>Scantable\<close> (\<open>scantable.py\<close>): scanner with includes, parser, the compression of the lookup tables,
    the flag tables. Lexing is shown to replace every include by the file it names, and to fail if a file is
    reached twice. \<open>ScanText\<close>: the C text, whose arrays are read back and searched by the C routine that is
    generated with them; entries that are empty or hold a NUL, which the parser lets through, are excepted.
  \<^item> \<open>Graph\<close> (\<open>graph.py\<close>): the search for the paths through the chapters, and the file
    format of graphs. \<open>find_paths\<close> is shown to compute a set of paths defined without it, and to
    return when no edge is a self loop. \<open>Chapters\<close> (\<open>chapters.py\<close>): the directories and links of each path;
    a link is shown to lead to its source file. \<open>TocGraph\<close> (\<open>doc/sphinx_extensions\<close>): the links between the
    pages of the chapters, which follow the edges both ways.
  \<^item> \<open>Docs\<close> (\<open>docs.py\<close>): source files are cut into fragments, which are ordered and printed. No code is lost when
    no comment asks for text of another file, and the code that a reader of the text finds is that of the fragments.
  \<^item> \<open>RunTools\<close> (\<open>run.py\<close>, \<open>gcov_convert.py\<close>, \<open>image.py\<close>): coverage reports, symbols and traces.
  \<^item> \<open>Fstest\<close>, \<open>FsModel\<close> (\<open>fstest.py\<close>): reading the output of the test program, comparing it with the host, and
    the random tree that both are given, whose walk visits every node under its full name.
  \<^item> \<open>OrderedDicts\<close> (\<open>common/ordereddict.py\<close>): the locale \<open>implementation\<close>, and the links and dictionaries as
    an implementation of a list of pairs.
  \<^item> \<open>BinaryLib\<close>, \<open>PyStream\<close> (\<open>construct/lib\<close>): bit strings, hex dumps, bit streams over byte streams.
    The locale \<open>source\<close> is what readers rely on, and the bit reader an interpretation.
  \<^item> \<open>PyValue\<close>, \<open>ConstructCore\<close>, \<open>ConstructAdapters\<close>, \<open>ConstructMacros\<close> (\<open>construct\<close>): a construct is the
    record of its methods, which act on the stream, the context and a store of the objects under
    construction. Each class and macro of the library is a function to such records.
  \<^item> \<open>ConstructSpec\<close>: the locale \<open>codec\<close> (what is built is parsed again, whatever follows, and the
    stream stands behind it), shown of the primitives and kept by the combinators. \<open>ConstructTypes\<close>: the locale
    \<open>typed\<close>, the shape of what a layout parses. \<open>ConstructSafety\<close>: parsing does not write, and what
    \<open>Select\<close>, \<open>Range\<close> and \<open>Peek\<close> try in vain leaves no trace in the stream or the context.
  \<^item> \<open>ElfUtils\<close>, \<open>ElfEnums\<close>, \<open>ElfStructs\<close> (\<open>common/utils.py\<close>, \<open>elf/enums.py\<close>, \<open>elf/structs.py\<close>): the
    structures of ELF, as codecs. \<open>ElfFiles\<close> (\<open>elf/elffile.py\<close>, \<open>elf/sections.py\<close>, \<open>elf/segments.py\<close>,
    \<open>elf/relocation.py\<close>): opening a file, its sections, symbols, segments and relocations. \<open>ElfImage\<close>: from the
    bytes of a file to its sections. \<open>ElfRelocs\<close>: a section with its relocations applied is the one that the
    formulas of the relocation types give. \<open>ElfDescr\<close> (\<open>elf/descriptions.py\<close>): texts.
  \<^item> \<open>DwarfEnums\<close>, \<open>DwarfStructs\<close> (\<open>dwarf/enums.py\<close>, \<open>dwarf/structs.py\<close>): the structures of DWARF.
    \<open>DwarfHeaders\<close>: the locale \<open>decoder\<close>, a codec read only and with many encodings of a value; every
    codec is one (\<open>sublocale\<close>), and so are the headers. \<open>DwarfForward\<close>: reading them ends.
    \<open>DwarfBlocks\<close>: the forms that hold blocks of bytes.
  \<^item> \<open>DwarfAbbrev\<close> (\<open>dwarf/abbrevtable.py\<close>), \<open>DwarfLines\<close> (\<open>dwarf/lineprogram.py\<close>), \<open>DwarfFrames\<close> and
    \<open>DwarfFrameParse\<close> (\<open>dwarf/callframe.py\<close>), \<open>DwarfExpr\<close> (\<open>dwarf/dwarf_expr.py\<close>): the programs in DWARF. The line
    program machine is shown to refine the one of the standard; decoding a frame table, whose lines the code
    shares between variables, to refine a machine on rows without a store, which shows what the sharing
    loses. An expression is visited operation by operation. \<open>DwarfDescr\<close> (\<open>dwarf/descriptions.py\<close>): texts of
    instructions, which give the addresses of the decoded rows, and of attribute values.
  \<^item> \<open>DwarfReads\<close>: reading a stream value by value, as used by \<open>DwarfLists\<close> (\<open>dwarf/ranges.py\<close>,
    \<open>dwarf/locationlists.py\<close>), where both kinds of list are instances of one loop over pairs.
  \<^item> \<open>DwarfUnits\<close> (\<open>dwarf/die.py\<close>, \<open>dwarf/compileunit.py\<close>, \<open>dwarf/dwarfinfo.py\<close>): the sections, units and
    their entries. \<open>DwarfTree\<close>: linking a list of entries gives the tree it is the prefix order of.
    \<open>DwarfUnitParse\<close>: from the bytes of a tree of entries to the linked list of entries.

  \<^bold>\<open>Not modelled.\<close> Messages of exceptions and printed forms (\<open>__repr__\<close>) where they have no effect;
  copying and pickling of constructs; constructs whose value is a live stream (\<open>OnDemand\<close>) and lazy containers;
  floating point fields; the debugging aids of the library. Of the drivers, what starts emulators and other
  programs, polls terminals and writes disk images, which is I/O: of those the model has what they are given and
  what is made of their output. \<open>doc2.py\<close> is a stub; the scripts of the pyelftools release, which print what the
  library reads, and the test runner \<open>test/lit\<close>, which is a part of LLVM, belong to others. The kernel itself
  is C.
\<close>

end
